(* ===== verification/Prelude.thy ===== *)
theory Prelude
  imports Main "HOL-Library.Word" "HOL-Library.AList" "HOL-Library.Multiset"
    "HOL-Library.Sublist"
begin

text \<open>
  Shared material of the development: the machine integers of the program, Go's run-time
  failures as values, the parts of Go's \<^verbatim>\<open>strings\<close>, \<^verbatim>\<open>slices\<close>, \<^verbatim>\<open>sort\<close> and
  \<^verbatim>\<open>encoding/binary\<close> packages the sources call, Go maps as association lists with an
  explicit iteration order, and the generic lemmas on lists, maps and words the components use.
\<close>

unbundle bit_operations_syntax

section \<open>Types\<close>

type_synonym byte = "8 word"
type_synonym u8 = "8 word"
type_synonym u16 = "16 word"
type_synonym u32 = "32 word"
type_synonym u64 = "64 word"

text \<open>Run-time panics of Go; an operation that can panic returns \<open>go_panic + 'a\<close>.\<close>

datatype go_panic = NilDereference | IndexOutOfRange | UnlockOfUnlocked | NilMapWrite

named_theorems go_defs \<open>definitions of the Go library functions used by the sources\<close>
named_theorems codec \<open>encode and decode laws of the byte formats\<close>

section \<open>Strings\<close>

text \<open>\<^verbatim>\<open>strings.Split(s, sep)\<close> for a one-character separator: never empty.\<close>

fun go_split :: "char \<Rightarrow> string \<Rightarrow> string list" where
  "go_split sep [] = [[]]"
| "go_split sep (c # cs) =
     (if c = sep then [] # go_split sep cs
      else (case go_split sep cs of [] \<Rightarrow> [[c]] | p # ps \<Rightarrow> (c # p) # ps))"

text \<open>\<^verbatim>\<open>strings.Join(ps, sep)\<close>.\<close>

fun go_join :: "string \<Rightarrow> string list \<Rightarrow> string" where
  "go_join sep [] = []"
| "go_join sep [p] = p"
| "go_join sep (p # q # ps) = p @ sep @ go_join sep (q # ps)"

text \<open>\<^verbatim>\<open>strings.Replace(s, old, new, -1)\<close> for one-character strings.\<close>

definition go_replace :: "char \<Rightarrow> char \<Rightarrow> string \<Rightarrow> string" where
  "go_replace old new s = map (\<lambda>c. if c = old then new else c) s"

text \<open>\<^verbatim>\<open>strings.ToLower\<close> on the ASCII range.\<close>

definition char_lower :: "char \<Rightarrow> char" where
  "char_lower c =
     (let n = of_char c :: nat in if 65 \<le> n \<and> n \<le> 90 then char_of (n + 32) else c)"

definition go_to_lower :: "string \<Rightarrow> string" where
  "go_to_lower s = map char_lower s"

text \<open>\<^verbatim>\<open>strings.Cut(s, sep)\<close>: the text before and after the first separator.\<close>

fun go_cut :: "char \<Rightarrow> string \<Rightarrow> (string \<times> string) option" where
  "go_cut sep [] = None"
| "go_cut sep (c # cs) =
     (if c = sep then Some ([], cs)
      else (case go_cut sep cs of None \<Rightarrow> None | Some (a, b) \<Rightarrow> Some (c # a, b)))"

text \<open>\<^verbatim>\<open>strings.LastIndex(s, sep)\<close>; \<open>None\<close> is Go's \<open>-1\<close>.\<close>

fun go_last_index :: "char \<Rightarrow> string \<Rightarrow> nat option" where
  "go_last_index sep [] = None"
| "go_last_index sep (c # cs) =
     (case go_last_index sep cs of
        Some i \<Rightarrow> Some (Suc i)
      | None \<Rightarrow> if c = sep then Some 0 else None)"

text \<open>Decimal printing of naturals (\<^verbatim>\<open>strconv.Itoa\<close>, \<^verbatim>\<open>%d\<close>) and its reading back.\<close>

definition digit_char :: "nat \<Rightarrow> char" where
  "digit_char d = char_of (48 + d)"

fun nat_string :: "nat \<Rightarrow> string" where
  "nat_string n = (if n < 10 then [digit_char n] else nat_string (n div 10) @ [digit_char (n mod 10)])"

declare nat_string.simps [simp del]

definition digit_val :: "char \<Rightarrow> nat option" where
  "digit_val c = (let n = of_char c :: nat in if 48 \<le> n \<and> n \<le> 57 then Some (n - 48) else None)"

fun digits_val :: "nat \<Rightarrow> string \<Rightarrow> nat option" where
  "digits_val acc [] = Some acc"
| "digits_val acc (c # cs) =
     (case digit_val c of None \<Rightarrow> None | Some d \<Rightarrow> digits_val (acc * 10 + d) cs)"

text \<open>
  \<^verbatim>\<open>n, _ := strconv.Atoi(s)\<close> with the error dropped: a value that does not parse reads as
  0, one out of range as the nearest 64-bit integer. A sign is accepted.
\<close>

definition go_atoi_or_zero :: "string \<Rightarrow> int" where
  "go_atoi_or_zero s =
     (let (neg, ds) = (case s of [] \<Rightarrow> (False, [])
                        | c # cs \<Rightarrow> if c = CHR ''-'' then (True, cs)
                                    else if c = CHR ''+'' then (False, cs) else (False, s))
      in if ds = [] then 0
         else (case digits_val 0 ds of None \<Rightarrow> 0
               | Some n \<Rightarrow> if neg then max (- int n) (- (2 ^ 63)) else min (int n) (2 ^ 63 - 1)))"

lemma go_split_nonempty [simp]: "go_split sep s \<noteq> []"
  by (induction s) (auto split: list.splits)

lemma go_join_Cons: "ps \<noteq> [] \<Longrightarrow> go_join sep (p # ps) = p @ sep @ go_join sep ps"
  by (cases ps) auto

lemma go_join_Cons_char: "go_join sep ((c # p) # ps) = c # go_join sep (p # ps)"
  by (cases ps) auto

lemma go_join_split [simp]: "go_join [sep] (go_split sep s) = s"
proof (induction s)
  case (Cons c cs)
  then show ?case
    by (cases "go_split sep cs") (simp_all add: go_join_Cons go_join_Cons_char)
qed simp

lemma go_split_no_sep [simp]: "sep \<notin> set s \<Longrightarrow> go_split sep s = [s]"
  by (induction s) auto

lemma go_split_append:
  "sep \<notin> set a \<Longrightarrow> go_split sep (a @ sep # b) = a # go_split sep b"
  by (induction a) auto

lemma go_split_parts: "p \<in> set (go_split sep s) \<Longrightarrow> sep \<notin> set p"
  by (induction s arbitrary: p) (auto split: list.splits if_splits)

lemma go_split_join:
  "ps \<noteq> [] \<Longrightarrow> (\<forall>p \<in> set ps. sep \<notin> set p) \<Longrightarrow> go_split sep (go_join [sep] ps) = ps"
proof (induction "[sep]" ps rule: go_join.induct)
  case (3 p q ps)
  then show ?case by (simp add: go_split_append)
qed auto

lemma go_cut_append: "sep \<notin> set a \<Longrightarrow> go_cut sep (a @ sep # b) = Some (a, b)"
  by (induction a) auto

lemma go_cut_None_iff: "go_cut sep s = None \<longleftrightarrow> sep \<notin> set s"
  by (induction s) (auto split: option.splits)

lemma go_cut_Some: "go_cut sep s = Some (a, b) \<Longrightarrow> s = a @ sep # b \<and> sep \<notin> set a"
  by (induction s arbitrary: a) (auto split: if_splits option.splits)

lemma go_last_index_None_iff [simp]: "go_last_index sep s = None \<longleftrightarrow> sep \<notin> set s"
  by (induction s) (auto split: option.splits)

lemma go_last_index_append:
  "sep \<notin> set b \<Longrightarrow> go_last_index sep (a @ sep # b) = Some (length a)"
  by (induction a) (auto split: option.splits)

lemma digit_val_char [simp]: "d < 10 \<Longrightarrow> digit_val (digit_char d) = Some d"
  by (simp add: digit_val_def digit_char_def)

lemma digits_val_append:
  "digits_val acc (a @ b) = (case digits_val acc a of None \<Rightarrow> None | Some n \<Rightarrow> digits_val n b)"
  by (induction a arbitrary: acc) (auto split: option.splits)

lemma digits_val_nat_string [simp]: "digits_val 0 (nat_string n) = Some n"
proof (induction n rule: nat_string.induct)
  case (1 n)
  then show ?case
    by (cases "n < 10") (simp_all add: nat_string.simps [of n] digits_val_append)
qed

lemma nat_string_nonempty [simp]: "nat_string n \<noteq> []"
  by (subst nat_string.simps) simp

lemma nat_string_digits: "c \<in> set (nat_string n) \<Longrightarrow> digit_val c \<noteq> None"
proof (induction n rule: nat_string.induct)
  case (1 n)
  then show ?case
    by (cases "n < 10") (auto simp: nat_string.simps [of n])
qed

lemma nat_string_not_in: "digit_val c = None \<Longrightarrow> c \<notin> set (nat_string n)"
  using nat_string_digits by blast

section \<open>Byte strings\<close>

text \<open>\<^verbatim>\<open>binary.LittleEndian.PutUint32\<close> and its reading back.\<close>

definition put_le32 :: "u32 \<Rightarrow> byte list" where
  "put_le32 w = [ucast w, ucast (drop_bit 8 w), ucast (drop_bit 16 w), ucast (drop_bit 24 w)]"

definition get_le32 :: "byte list \<Rightarrow> u32" where
  "get_le32 bs =
     (case bs of [a, b, c, d] \<Rightarrow>
        ucast a OR push_bit 8 (ucast b) OR push_bit 16 (ucast c) OR push_bit 24 (ucast d)
      | _ \<Rightarrow> 0)"

text \<open>The same for the other widths a struct in memory has on a little-endian host.\<close>

definition put_le16 :: "u16 \<Rightarrow> byte list" where
  "put_le16 w = [ucast w, ucast (drop_bit 8 w)]"

definition get_le16 :: "byte list \<Rightarrow> u16" where
  "get_le16 bs = (case bs of [a, b] \<Rightarrow> ucast a OR push_bit 8 (ucast b) | _ \<Rightarrow> 0)"

definition put_le64 :: "u64 \<Rightarrow> byte list" where
  "put_le64 w = put_le32 (ucast w) @ put_le32 (ucast (drop_bit 32 w))"

definition get_le64 :: "byte list \<Rightarrow> u64" where
  "get_le64 bs = ucast (get_le32 (take 4 bs)) OR push_bit 32 (ucast (get_le32 (drop 4 bs)))"

text \<open>Overwriting the part of a buffer that starts at an offset (a write to \<^verbatim>\<open>b[o:o+n]\<close>).\<close>

definition put_at :: "nat \<Rightarrow> 'a list \<Rightarrow> 'a list \<Rightarrow> 'a list" where
  "put_at off bs buf = take off buf @ bs @ drop (off + length bs) buf"

definition get_at :: "nat \<Rightarrow> nat \<Rightarrow> 'a list \<Rightarrow> 'a list" where
  "get_at off n buf = take n (drop off buf)"

text \<open>Bits of a byte string, most significant bit first.\<close>

definition byte_bits :: "byte \<Rightarrow> bool list" where
  "byte_bits b = map (bit b) [7, 6, 5, 4, 3, 2, 1, 0]"

definition bytes_bits :: "byte list \<Rightarrow> bool list" where
  "bytes_bits bs = concat (map byte_bits bs)"

lemma length_put_le32 [simp]: "length (put_le32 w) = 4"
  by (simp add: put_le32_def)

lemma get_put_le32 [simp, codec]: "get_le32 (put_le32 w) = w"
proof (rule bit_word_eqI)
  fix n assume n: "n < LENGTH(32)"
  then have "n < 8 \<or> 8 \<le> n \<and> n < 16 \<or> 16 \<le> n \<and> n < 24 \<or> 24 \<le> n \<and> n < 32" by auto
  with n show "bit (get_le32 (put_le32 w)) n = bit w n"
    by (auto simp: get_le32_def put_le32_def bit_simps)
qed

lemma bit_beyond: "8 \<le> n \<Longrightarrow> \<not> bit (b :: byte) n" "32 \<le> n \<Longrightarrow> \<not> bit (w :: u32) n"
  using bit_imp_le_length [of b n] bit_imp_le_length [of w n] by auto

lemma put_get_le32 [simp, codec]: "length bs = 4 \<Longrightarrow> put_le32 (get_le32 bs) = bs"
proof -
  assume "length bs = 4"
  then obtain a b c d where bs: "bs = [a, b, c, d]" by (auto simp: numeral_eq_Suc length_Suc_conv)
  show ?thesis
    unfolding bs put_le32_def get_le32_def by (auto intro!: bit_word_eqI simp: bit_simps bit_beyond)
qed

lemma length_put_le16 [simp]: "length (put_le16 w) = 2"
  by (simp add: put_le16_def)

lemma get_put_le16 [simp, codec]: "get_le16 (put_le16 w) = w"
proof (rule bit_word_eqI)
  fix n assume n: "n < LENGTH(16)"
  then have "n < 8 \<or> 8 \<le> n \<and> n < 16" by auto
  with n show "bit (get_le16 (put_le16 w)) n = bit w n"
    by (auto simp: get_le16_def put_le16_def bit_simps)
qed

lemma put_get_le16 [simp, codec]: "length bs = 2 \<Longrightarrow> put_le16 (get_le16 bs) = bs"
proof -
  assume "length bs = 2"
  then obtain a b where bs: "bs = [a, b]" by (auto simp: numeral_eq_Suc length_Suc_conv)
  show ?thesis
    unfolding bs put_le16_def get_le16_def by (auto intro!: bit_word_eqI simp: bit_simps bit_beyond)
qed

lemma length_put_le64 [simp]: "length (put_le64 w) = 8"
  by (simp add: put_le64_def)

lemma get_put_le64 [simp, codec]: "get_le64 (put_le64 w) = w"
proof (rule bit_word_eqI)
  fix n assume "n < LENGTH(64)"
  then show "bit (get_le64 (put_le64 w)) n = bit w n"
    by (cases "n < 32") (auto simp: get_le64_def put_le64_def bit_simps)
qed

lemma put_get_le64 [simp, codec]: "length bs = 8 \<Longrightarrow> put_le64 (get_le64 bs) = bs"
proof -
  assume l: "length bs = 8"
  let ?lo = "get_le32 (take 4 bs)" and ?hi = "get_le32 (drop 4 bs)"
  have "ucast (get_le64 bs) = ?lo" "ucast (drop_bit 32 (get_le64 bs)) = ?hi"
    by (auto intro!: bit_word_eqI simp: get_le64_def bit_simps bit_beyond)
  with l show ?thesis by (simp add: put_le64_def)
qed

lemma put_le32_inject [simp]: "put_le32 v = put_le32 w \<longleftrightarrow> v = w"
  by (metis get_put_le32)

lemma length_put_at [simp]:
  "off + length bs \<le> length buf \<Longrightarrow> length (put_at off bs buf) = length buf"
  by (simp add: put_at_def)

lemma get_at_put_at_same [codec]:
  "off \<le> length buf \<Longrightarrow> n = length bs \<Longrightarrow> get_at off n (put_at off bs buf) = bs"
  by (simp add: get_at_def put_at_def)

lemma get_at_put_at_before [codec]:
  "o' + n \<le> off \<Longrightarrow> off \<le> length buf \<Longrightarrow> get_at o' n (put_at off bs buf) = get_at o' n buf"
  by (auto simp: get_at_def put_at_def drop_take min_def)

lemma get_at_put_at_after [codec]:
  "off + length bs \<le> o' \<Longrightarrow> off + length bs \<le> length buf \<Longrightarrow>
     get_at o' n (put_at off bs buf) = get_at o' n buf"
  by (simp add: get_at_def put_at_def min_def)

lemma length_byte_bits [simp]: "length (byte_bits b) = 8"
  by (simp add: byte_bits_def)

lemma nth_byte_bits: "i < 8 \<Longrightarrow> byte_bits b ! i = bit b (7 - i)"
  by (auto simp: byte_bits_def less_Suc_eq numeral_eq_Suc)

lemma byte_bits_inject [simp]: "byte_bits a = byte_bits b \<longleftrightarrow> a = b"
proof
  assume eq: "byte_bits a = byte_bits b"
  show "a = b"
  proof (rule bit_word_eqI)
    fix n assume "n < LENGTH(8)"
    then have "n < 8" by simp
    then have "byte_bits a ! (7 - n) = bit a n" "byte_bits b ! (7 - n) = bit b n"
      by (simp_all add: nth_byte_bits)
    with eq show "bit a n = bit b n" by simp
  qed
qed simp

lemma bytes_bits_simps [simp]:
  "bytes_bits [] = []"
  "bytes_bits (b # bs) = byte_bits b @ bytes_bits bs"
  by (simp_all add: bytes_bits_def)

lemma bytes_bits_append [simp]: "bytes_bits (a @ b) = bytes_bits a @ bytes_bits b"
  by (simp add: bytes_bits_def)

lemma length_bytes_bits [simp]: "length (bytes_bits bs) = 8 * length bs"
  by (induction bs) auto

lemma bytes_bits_inject [simp]: "bytes_bits a = bytes_bits b \<longleftrightarrow> a = b"
proof (induction a arbitrary: b)
  case Nil
  then show ?case by (cases b) (auto simp: byte_bits_def)
next
  case (Cons x a)
  show ?case
  proof (cases b)
    case Nil
    then show ?thesis by (simp add: byte_bits_def)
  next
    case (Cons y c)
    with Cons.IH show ?thesis by (simp add: append_eq_append_conv)
  qed
qed

lemma nth_bytes_bits:
  "i < 8 * length bs \<Longrightarrow> bytes_bits bs ! i = bit (bs ! (i div 8)) (7 - i mod 8)"
proof (induction bs arbitrary: i)
  case (Cons b bs)
  show ?case
  proof (cases "i < 8")
    case True
    then show ?thesis by (simp add: nth_append nth_byte_bits)
  next
    case False
    with Cons.prems have "bytes_bits bs ! (i - 8) = bit (bs ! ((i - 8) div 8)) (7 - (i - 8) mod 8)"
      by (intro Cons.IH) auto
    with False show ?thesis
      by (simp add: nth_append le_div_geq [of 8 i] le_mod_geq [of 8 i] not_less)
  qed
qed simp

section \<open>Go maps\<close>

text \<open>
  A Go map that is iterated is an association list with distinct keys; \<^verbatim>\<open>range\<close> visits its
  entries in an order the language leaves open, so each loop takes the order as a parameter
  \<open>ord\<close>, and theorems hold for every permutation.
\<close>

type_synonym ('k, 'v) go_map = "('k \<times> 'v) list"

definition go_map_wf :: "('k, 'v) go_map \<Rightarrow> bool" where
  "go_map_wf m \<longleftrightarrow> distinct (map fst m)"

definition range_order :: "('a list \<Rightarrow> 'a list) \<Rightarrow> bool" where
  "range_order ord \<longleftrightarrow> (\<forall>xs. mset (ord xs) = mset xs)"

lemma range_order_set: "range_order ord \<Longrightarrow> set (ord xs) = set xs"
  unfolding range_order_def by (metis set_mset_mset)

lemma range_order_length: "range_order ord \<Longrightarrow> length (ord xs) = length xs"
  unfolding range_order_def by (metis size_mset)

lemma range_order_distinct: "range_order ord \<Longrightarrow> distinct (map fst (ord m)) = distinct (map fst m)"
  unfolding range_order_def by (metis mset_map mset_eq_imp_distinct_iff)

lemma range_order_map_of:
  assumes "range_order ord" and "distinct (map fst m)"
  shows "map_of (ord m) = map_of m"
  using assms range_order_distinct [OF assms(1), of m] range_order_set [OF assms(1), of m]
  by (intro map_of_inject_set [THEN iffD2]) auto

lemma range_order_id [simp]: "range_order id" "range_order (\<lambda>xs. xs)"
  by (simp_all add: range_order_def)

lemma range_order_rev [simp]: "range_order rev"
  by (simp add: range_order_def)

lemma go_map_wf_Nil [simp]: "go_map_wf []"
  by (simp add: go_map_wf_def)

lemma go_map_wf_update [simp]: "go_map_wf m \<Longrightarrow> go_map_wf (AList.update k v m)"
  by (simp add: go_map_wf_def distinct_update)

lemma map_of_update [simp]: "map_of (AList.update k v m) = (map_of m)(k \<mapsto> v)"
  by (simp add: update_conv')

section \<open>Keeping the first value of each key\<close>

text \<open>The loop that deduplicates a slice through a map: a value whose key is present is skipped.\<close>

definition first_by :: "('a \<Rightarrow> 'k) \<Rightarrow> 'a list \<Rightarrow> ('k, 'a) go_map" where
  "first_by key xs = fold (\<lambda>p m. if map_of m (key p) \<noteq> None then m else AList.update (key p) p m) xs []"

lemma update_new: "map_of m k = None \<Longrightarrow> AList.update k v m = m @ [(k, v)]"
  by (induction m) (auto split: if_splits)

lemma first_by_fold:
  assumes "go_map_wf m" "\<forall>(k, p) \<in> set m. k = key p"
  shows "let m' = fold (\<lambda>p m. if map_of m (key p) \<noteq> None then m else AList.update (key p) p m) xs m
    in go_map_wf m' \<and> (\<forall>(k, p) \<in> set m'. k = key p) \<and> snd ` set m' \<subseteq> snd ` set m \<union> set xs \<and>
       fst ` set m' = fst ` set m \<union> key ` set xs"
  using assms
proof (induction xs arbitrary: m)
  case (Cons p xs)
  show ?case
  proof (cases "map_of m (key p) = None")
    case True
    let ?m = "AList.update (key p) p m"
    have m: "?m = m @ [(key p, p)]"
      by (rule update_new [OF True])
    then have "\<forall>(k, q) \<in> set ?m. k = key q" using Cons.prems by auto
    from Cons.IH [OF go_map_wf_update [OF Cons.prems(1)] this] True m show ?thesis by (auto simp: Let_def)
  next
    case False
    then have "key p \<in> fst ` set m" by (simp add: map_of_eq_None_iff)
    then have "fst ` set m \<union> key ` set (p # xs) = fst ` set m \<union> key ` set xs"
      by (simp add: insert_absorb)
    then show ?thesis using Cons.IH [OF Cons.prems] False by (simp add: Let_def) blast
  qed
qed (simp add: Let_def)

lemma first_by_spec:
  "go_map_wf (first_by key xs)" "(k, p) \<in> set (first_by key xs) \<Longrightarrow> k = key p"
  "snd ` set (first_by key xs) \<subseteq> set xs"
  "fst ` set (first_by key xs) = key ` set xs"
  using first_by_fold [of "[]" key xs] by (auto simp: first_by_def Let_def)

lemma first_by_range:
  assumes "range_order ord"
  shows "distinct (map key (map snd (ord (first_by key xs))))"
    and "snd ` set (ord (first_by key xs)) \<subseteq> set xs"
    and "key ` snd ` set (ord (first_by key xs)) = key ` set xs"
proof -
  let ?u = "first_by key xs"
  have s: "set (ord ?u) = set ?u" using range_order_set [OF assms] .
  have k: "map key (map snd (ord ?u)) = map fst (ord ?u)"
    using first_by_spec(2) [of _ _ key xs] s by (auto dest: sym)
  show "distinct (map key (map snd (ord ?u)))"
    using first_by_spec(1) range_order_distinct [OF assms] k by (simp add: go_map_wf_def del: map_map)
  show "snd ` set (ord ?u) \<subseteq> set xs" using first_by_spec(3) s by simp
  have "key ` snd ` set (ord ?u) = set (map fst (ord ?u))"
    unfolding k [symmetric] by (simp add: image_image)
  then show "key ` snd ` set (ord ?u) = key ` set xs" using first_by_spec(4) s by simp
qed

section \<open>Loops that may panic\<close>

fun fold_panic :: "('a \<Rightarrow> 's \<Rightarrow> go_panic + 's) \<Rightarrow> 'a list \<Rightarrow> 's \<Rightarrow> go_panic + 's" where
  "fold_panic f [] s = Inr s"
| "fold_panic f (x # xs) s = (case f x s of Inl e \<Rightarrow> Inl e | Inr s' \<Rightarrow> fold_panic f xs s')"

lemma fold_panic_append:
  "fold_panic f (xs @ ys) s = (case fold_panic f xs s of Inl e \<Rightarrow> Inl e | Inr s' \<Rightarrow> fold_panic f ys s')"
  by (induction xs arbitrary: s) (auto split: sum.splits)

lemma fold_panic_total:
  "(\<And>x s. x \<in> set xs \<Longrightarrow> f x s = Inr (g x s)) \<Longrightarrow> fold_panic f xs s = Inr (fold g xs s)"
  by (induction xs arbitrary: s) auto

lemma fold_panic_invariant:
  assumes "\<And>x s s'. x \<in> set xs \<Longrightarrow> P s \<Longrightarrow> f x s = Inr s' \<Longrightarrow> P s'"
    and "P s" and "fold_panic f xs s = Inr s'"
  shows "P s'"
  using assms by (induction xs arbitrary: s) (auto split: sum.splits)

end
