(* ===== verification/PodLock.thy ===== *)
theory PodLock
  imports Prelude
begin

text \<open>
  \<^verbatim>\<open>pkg/ebpf/podidentifier_lock.go\<close>: the mutex per pod identifier, as a step relation over
  any number of goroutines. The sections between \<^verbatim>\<open>k.mu.Lock()\<close> and
  \<^verbatim>\<open>k.mu.Unlock()\<close> are single steps, because that mutex serialises them; taking and giving
  back the per-key mutex are steps of their own, so every interleaving of the two halves of
  \<^verbatim>\<open>Lock\<close> and \<^verbatim>\<open>Unlock\<close> is a run of the relation.
\<close>

section \<open>State\<close>

type_synonym gid = nat
type_synonym addr = nat

record refCountedMutex =
  refs :: int
  owner :: "gid option"

record keyedMutex =
  locks :: "string \<rightharpoonup> addr"
  heap :: "addr \<rightharpoonup> refCountedMutex"

text \<open>Where a goroutine is: outside, between the halves of \<^verbatim>\<open>Lock\<close> (waiting), in its critical
  section, between the halves of \<^verbatim>\<open>Unlock\<close>, or stopped by the panic of \<^verbatim>\<open>Unlock\<close> or of the
  mutex's own unlock.\<close>

datatype pc = Idle | Waiting string addr | Holding string addr | Releasing string addr | Panicked

record lock_state =
  km :: keyedMutex
  pcs :: "gid \<Rightarrow> pc"

section \<open>The halves of Lock and Unlock\<close>

text \<open>\<open>new\<close> is the address the allocation of a fresh mutex returns.\<close>

definition Lock_enter :: "addr \<Rightarrow> string \<Rightarrow> keyedMutex \<Rightarrow> addr \<times> keyedMutex" where
  "Lock_enter new key k =
     (let (m, k1) = (case locks k key of
            Some m \<Rightarrow> (m, k)
          | None \<Rightarrow> (new, k\<lparr>locks := (locks k)(key \<mapsto> new),
                            heap := (heap k)(new \<mapsto> \<lparr>refs = 0, owner = None\<rparr>)\<rparr>))
      in (m, k1\<lparr>heap := (heap k1)(m := map_option (\<lambda>x. x\<lparr>refs := refs x + 1\<rparr>) (heap k1 m))\<rparr>))"

definition Lock_take :: "gid \<Rightarrow> addr \<Rightarrow> keyedMutex \<Rightarrow> keyedMutex" where
  "Lock_take g m k = k\<lparr>heap := (heap k)(m := map_option (\<lambda>x. x\<lparr>owner := Some g\<rparr>) (heap k m))\<rparr>"

definition Unlock_enter :: "string \<Rightarrow> keyedMutex \<Rightarrow> go_panic + addr \<times> keyedMutex" where
  "Unlock_enter key k =
     (case locks k key of
        None \<Rightarrow> Inl UnlockOfUnlocked
      | Some m \<Rightarrow>
          let r = (case heap k m of None \<Rightarrow> 0 | Some x \<Rightarrow> refs x - 1);
              k1 = k\<lparr>heap := (heap k)(m := map_option (\<lambda>x. x\<lparr>refs := r\<rparr>) (heap k m))\<rparr>
          in Inr (m, if r = 0 then k1\<lparr>locks := (locks k1)(key := None)\<rparr> else k1))"

definition Unlock_give :: "addr \<Rightarrow> keyedMutex \<Rightarrow> go_panic + keyedMutex" where
  "Unlock_give m k =
     (case heap k m of
        Some x \<Rightarrow> if owner x = None then Inl UnlockOfUnlocked
                  else Inr (k\<lparr>heap := (heap k)(m \<mapsto> x\<lparr>owner := None\<rparr>)\<rparr>)
      | None \<Rightarrow> Inl UnlockOfUnlocked)"

definition keyedMutex_len :: "keyedMutex \<Rightarrow> nat" where
  "keyedMutex_len k = card (dom (locks k))"

section \<open>Runs\<close>

text \<open>Goroutines that pair each \<^verbatim>\<open>Lock(key)\<close> with one \<^verbatim>\<open>Unlock(key)\<close>, as
  \<^verbatim>\<open>defer\<close> does everywhere in the client.\<close>

inductive lock_step :: "lock_state \<Rightarrow> lock_state \<Rightarrow> bool" where
  enter: "pcs s g = Idle \<Longrightarrow> heap (km s) new = None \<Longrightarrow> Lock_enter new key (km s) = (m, k) \<Longrightarrow>
     lock_step s \<lparr>km = k, pcs = (pcs s)(g := Waiting key m)\<rparr>"
| take: "pcs s g = Waiting key m \<Longrightarrow> heap (km s) m = Some x \<Longrightarrow> owner x = None \<Longrightarrow>
     lock_step s \<lparr>km = Lock_take g m (km s), pcs = (pcs s)(g := Holding key m)\<rparr>"
| release: "pcs s g = Holding key m \<Longrightarrow> Unlock_enter key (km s) = Inr (m', k) \<Longrightarrow>
     lock_step s \<lparr>km = k, pcs = (pcs s)(g := Releasing key m')\<rparr>"
| release_panic: "pcs s g = Holding key m \<Longrightarrow> Unlock_enter key (km s) = Inl e \<Longrightarrow>
     lock_step s \<lparr>km = km s, pcs = (pcs s)(g := Panicked)\<rparr>"
| give: "pcs s g = Releasing key m \<Longrightarrow> Unlock_give m (km s) = Inr k \<Longrightarrow>
     lock_step s \<lparr>km = k, pcs = (pcs s)(g := Idle)\<rparr>"
| give_panic: "pcs s g = Releasing key m \<Longrightarrow> Unlock_give m (km s) = Inl e \<Longrightarrow>
     lock_step s \<lparr>km = km s, pcs = (pcs s)(g := Panicked)\<rparr>"

definition lock_init :: lock_state where
  "lock_init = \<lparr>km = \<lparr>locks = (\<lambda>_. None), heap = (\<lambda>_. None)\<rparr>, pcs = (\<lambda>_. Idle)\<rparr>"

inductive reachable :: "lock_state \<Rightarrow> bool" where
  init: "reachable lock_init"
| step: "reachable s \<Longrightarrow> lock_step s s' \<Longrightarrow> reachable s'"

section \<open>Invariant\<close>

text \<open>The goroutines that wait for or hold the mutex at \<open>m\<close>.\<close>

definition users :: "lock_state \<Rightarrow> addr \<Rightarrow> gid set" where
  "users s m = {g. \<exists>key. pcs s g = Waiting key m \<or> pcs s g = Holding key m}"

definition owns :: "pc \<Rightarrow> addr \<Rightarrow> bool" where
  "owns p m \<longleftrightarrow> (\<exists>key. p = Holding key m \<or> p = Releasing key m)"

definition lock_inv :: "lock_state \<Rightarrow> bool" where
  "lock_inv s \<longleftrightarrow>
     finite {g. pcs s g \<noteq> Idle} \<and>
     (\<forall>g key m. pcs s g = Waiting key m \<or> pcs s g = Holding key m \<longrightarrow> locks (km s) key = Some m) \<and>
     (\<forall>g. pcs s g \<noteq> Panicked) \<and>
     (\<forall>key m. locks (km s) key = Some m \<longrightarrow> heap (km s) m \<noteq> None \<and> users s m \<noteq> {}) \<and>
     (\<forall>key key' m. locks (km s) key = Some m \<longrightarrow> locks (km s) key' = Some m \<longrightarrow> key = key') \<and>
     (\<forall>m x. heap (km s) m = Some x \<longrightarrow> refs x = int (card (users s m))) \<and>
     (\<forall>g m. owns (pcs s g) m \<longleftrightarrow> (\<exists>x. heap (km s) m = Some x \<and> owner x = Some g))"

lemma lock_invD:
  assumes "lock_inv s"
  shows "finite {g. pcs s g \<noteq> Idle}"
    and "pcs s g = Waiting key m \<or> pcs s g = Holding key m \<Longrightarrow> locks (km s) key = Some m"
    and "pcs s g \<noteq> Panicked"
    and "locks (km s) key = Some m \<Longrightarrow> \<exists>x. heap (km s) m = Some x"
    and "locks (km s) key = Some m \<Longrightarrow> users s m \<noteq> {}"
    and "locks (km s) key = Some m \<Longrightarrow> locks (km s) key' = Some m \<Longrightarrow> key = key'"
    and "heap (km s) m = Some x \<Longrightarrow> refs x = int (card (users s m))"
    and "owns (pcs s g) m \<longleftrightarrow> (\<exists>x. heap (km s) m = Some x \<and> owner x = Some g)"
  using assms unfolding lock_inv_def by (blast+)?

lemma finite_users: "lock_inv s \<Longrightarrow> finite (users s m)"
  using lock_invD(1) by (rule finite_subset [rotated]) (auto simp: users_def)

lemma lock_init_inv: "lock_inv lock_init"
  by (simp add: lock_inv_def lock_init_def users_def owns_def)

lemma users_upd:
  "users \<lparr>km = k, pcs = (pcs s)(g := p)\<rparr> m =
     (if \<exists>key. p = Waiting key m \<or> p = Holding key m then insert g (users s m) else users s m - {g})"
  by (auto simp: users_def)

lemma users_pc: "g \<in> users s m \<longleftrightarrow> (\<exists>key. pcs s g = Waiting key m \<or> pcs s g = Holding key m)"
  by (simp add: users_def)

lemma users_heap: "lock_inv s \<Longrightarrow> users s m \<noteq> {} \<Longrightarrow> \<exists>x. heap (km s) m = Some x"
  using lock_invD(2, 4) unfolding users_def by blast

lemma owns_simps [simp]:
  "\<not> owns Idle m" "\<not> owns (Waiting key m') m" "\<not> owns Panicked m"
  "owns (Holding key m') m \<longleftrightarrow> m' = m" "owns (Releasing key m') m \<longleftrightarrow> m' = m"
  by (auto simp: owns_def)

lemma enter_inv:
  assumes inv: "lock_inv s" and g: "pcs s g = Idle" and new: "heap (km s) new = None"
    and e: "Lock_enter new key (km s) = (m, k)"
  shows "lock_inv \<lparr>km = k, pcs = (pcs s)(g := Waiting key m)\<rparr>" (is "lock_inv ?s")
proof -
  have gu: "g \<notin> users s m'" for m' using g by (simp add: users_pc)
  have un: "users s new = {}" using users_heap [OF inv] new by force
  have ln: "locks (km s) key' \<noteq> Some new" for key' using lock_invD(4) [OF inv] new by fastforce
  have fin: "finite {g'. pcs ?s g' \<noteq> Idle}"
    using lock_invD(1) [OF inv] by (rule finite_subset [rotated, OF finite.insertI [of _ g]]) auto
  have lk: "locks k key = Some m" "key' \<noteq> key \<Longrightarrow> locks k key' = locks (km s) key'"
    "locks (km s) key' = Some m' \<Longrightarrow> locks k key' = Some m'" for key' m'
    using e by (auto simp: Lock_enter_def split: option.splits prod.splits)
  have "\<exists>x. heap k m = Some x \<and> refs x = int (card (users s m)) + 1 \<and>
      owner x = (case heap (km s) m of None \<Rightarrow> None | Some y \<Rightarrow> owner y)"
  proof (cases "locks (km s) key")
    case None
    with e new un show ?thesis by (auto simp: Lock_enter_def)
  next
    case (Some m1)
    with lock_invD(4) [OF inv] obtain y where y: "heap (km s) m1 = Some y" by blast
    with Some e lock_invD(7) [OF inv y] show ?thesis by (auto simp: Lock_enter_def)
  qed
  then obtain x where x: "heap k m = Some x" "refs x = int (card (users s m)) + 1"
      "owner x = (case heap (km s) m of None \<Rightarrow> None | Some y \<Rightarrow> owner y)" by blast
  have hp: "m' \<noteq> m \<Longrightarrow> heap k m' = heap (km s) m'" for m'
    using e by (auto simp: Lock_enter_def split: option.splits prod.splits)
  have ow: "(\<exists>y. heap k m' = Some y \<and> owner y = Some g') \<longleftrightarrow> (\<exists>y. heap (km s) m' = Some y \<and> owner y = Some g')"
    for g' m' using hp [of m'] x by (cases "m' = m") (auto split: option.splits)
  have mk: "locks (km s) key' = Some m \<Longrightarrow> key' = key" for key'
    using e lock_invD(6) [OF inv] ln by (auto simp: Lock_enter_def split: option.splits prod.splits)
  have us: "users ?s m' = (if m' = m then insert g (users s m) else users s m')" for m'
    using gu by (auto simp: users_upd)
  have "card (users ?s m) = card (users s m) + 1"
    using gu finite_users [OF inv] by (simp add: us)
  then have rf: "heap k m' = Some y \<Longrightarrow> refs y = int (card (users ?s m'))" for m' y
    using hp [of m'] x lock_invD(7) [OF inv, of m' y] us by (cases "m' = m") auto
  have l1: "\<forall>g' key' m'. pcs ?s g' = Waiting key' m' \<or> pcs ?s g' = Holding key' m' \<longrightarrow> locks k key' = Some m'"
  proof (intro allI impI)
    fix g' key' m' assume "pcs ?s g' = Waiting key' m' \<or> pcs ?s g' = Holding key' m'"
    then show "locks k key' = Some m'"
      using lk lock_invD(2) [OF inv, of g' key' m'] by (cases "g' = g") auto
  qed
  have l2: "locks k key' = Some m' \<Longrightarrow> heap k m' \<noteq> None \<and> users ?s m' \<noteq> {}" for key' m'
  proof (cases "key' = key")
    case True
    then show "locks k key' = Some m' \<Longrightarrow> heap k m' \<noteq> None \<and> users ?s m' \<noteq> {}"
      using lk(1) x(1) us [of m] by simp
  next
    case False
    then show "locks k key' = Some m' \<Longrightarrow> heap k m' \<noteq> None \<and> users ?s m' \<noteq> {}"
      using lk(2) [OF False] hp [of m'] x(1) us [of m'] lock_invD(4, 5) [OF inv, of key' m']
      by (cases "m' = m") auto
  qed
  have l3: "locks k k1 = Some m' \<Longrightarrow> locks k k2 = Some m' \<Longrightarrow> k1 = k2" for k1 k2 m'
    using lk(1) lk(2) mk lock_invD(6) [OF inv] by (metis option.inject)
  have l4: "owns (pcs ?s g') m' \<longleftrightarrow> (\<exists>y. heap k m' = Some y \<and> owner y = Some g')" for g' m'
    using lock_invD(8) [OF inv, of g' m'] g by (auto simp: ow)
  show ?thesis
    unfolding lock_inv_def using fin l1 l2 l3 l4 rf lock_invD(3) [OF inv] by auto
qed

lemma take_inv:
  assumes inv: "lock_inv s" and g: "pcs s g = Waiting key m" and x: "heap (km s) m = Some x" "owner x = None"
  shows "lock_inv \<lparr>km = Lock_take g m (km s), pcs = (pcs s)(g := Holding key m)\<rparr>" (is "lock_inv ?s")
proof -
  have us: "users ?s m' = users s m'" for m' using g by (auto simp: users_def)
  have fin: "finite {g'. pcs ?s g' \<noteq> Idle}"
    using lock_invD(1) [OF inv] by (rule finite_subset [rotated, OF finite.insertI [of _ g]]) auto
  have h: "heap (km ?s) = (heap (km s))(m \<mapsto> x\<lparr>owner := Some g\<rparr>)" "locks (km ?s) = locks (km s)"
    using x by (simp_all add: Lock_take_def)
  have l4: "owns (pcs ?s g') m' \<longleftrightarrow> (\<exists>y. heap (km ?s) m' = Some y \<and> owner y = Some g')" for g' m'
    using lock_invD(8) [OF inv, of g' m'] g x unfolding h by auto
  have rf: "heap (km ?s) m' = Some y \<Longrightarrow> refs y = int (card (users ?s m'))" for m' y
    using lock_invD(7) [OF inv] x unfolding h us by (auto split: if_splits)
  show ?thesis
    unfolding lock_inv_def
  proof (intro conjI)
    show "\<forall>g' key' m'. pcs ?s g' = Waiting key' m' \<or> pcs ?s g' = Holding key' m' \<longrightarrow> locks (km ?s) key' = Some m'"
      using lock_invD(2) [OF inv] g unfolding h by auto
    show "\<forall>key m. locks (km ?s) key = Some m \<longrightarrow> heap (km ?s) m \<noteq> None \<and> users ?s m \<noteq> {}"
      using lock_invD(4, 5) [OF inv] unfolding h us by fastforce
    show "\<forall>key key' m. locks (km ?s) key = Some m \<longrightarrow> locks (km ?s) key' = Some m \<longrightarrow> key = key'"
      using lock_invD(6) [OF inv] unfolding h by blast
  qed (use fin l4 rf lock_invD(3) [OF inv] in auto)
qed

lemma release_ok:
  assumes inv: "lock_inv s" and g: "pcs s g = Holding key m"
  obtains x where "locks (km s) key = Some m" "heap (km s) m = Some x" "refs x = int (card (users s m))"
    "owner x = Some g" "g \<in> users s m"
    "Unlock_enter key (km s) =
       Inr (m, \<lparr>locks = (if users s m = {g} then (locks (km s))(key := None) else locks (km s)),
                heap = (heap (km s))(m \<mapsto> x\<lparr>refs := int (card (users s m - {g}))\<rparr>)\<rparr>)"
proof -
  have l: "locks (km s) key = Some m" using lock_invD(2) [OF inv] g by blast
  then obtain x where x: "heap (km s) m = Some x" using lock_invD(4) [OF inv] by blast
  have gu: "g \<in> users s m" using g by (auto simp: users_pc)
  have r: "refs x = int (card (users s m))" using lock_invD(7) [OF inv x] .
  have c: "card (users s m) = Suc (card (users s m - {g}))"
    by (rule card.remove [OF finite_users [OF inv] gu])
  have z: "card (users s m - {g}) = 0 \<longleftrightarrow> users s m = {g}"
    using gu finite_Diff [OF finite_users [OF inv, of m], of "{g}"] by (auto simp only: card_0_eq)
  have "owner x = Some g" using lock_invD(8) [OF inv, of g m] g x by auto
  moreover have "Unlock_enter key (km s) =
       Inr (m, \<lparr>locks = (if users s m = {g} then (locks (km s))(key := None) else locks (km s)),
                heap = (heap (km s))(m \<mapsto> x\<lparr>refs := int (card (users s m - {g}))\<rparr>)\<rparr>)"
    using l x r z unfolding c by (simp add: Unlock_enter_def Let_def)
  ultimately show thesis using that l x r gu by blast
qed

lemma release_inv:
  assumes inv: "lock_inv s" and g: "pcs s g = Holding key m" and u: "Unlock_enter key (km s) = Inr (m', k)"
  shows "lock_inv \<lparr>km = k, pcs = (pcs s)(g := Releasing key m')\<rparr>" (is "lock_inv ?s")
proof -
  obtain x where l: "locks (km s) key = Some m" and x: "heap (km s) m = Some x"
    "owner x = Some g" and gu: "g \<in> users s m" and ue: "Unlock_enter key (km s) =
       Inr (m, \<lparr>locks = (if users s m = {g} then (locks (km s))(key := None) else locks (km s)),
                heap = (heap (km s))(m \<mapsto> x\<lparr>refs := int (card (users s m - {g}))\<rparr>)\<rparr>)"
    by (rule release_ok [OF inv g])
  from ue u have m: "m' = m"
    and kl: "locks k = (if users s m = {g} then (locks (km s))(key := None) else locks (km s))"
    and kh: "heap k = (heap (km s))(m \<mapsto> x\<lparr>refs := int (card (users s m - {g}))\<rparr>)"
    by auto
  have gn: "m1 \<noteq> m \<Longrightarrow> g \<notin> users s m1" for m1 using g by (auto simp: users_pc)
  then have us: "users ?s m1 = (if m1 = m then users s m - {g} else users s m1)" for m1
    by (auto simp: users_upd)
  have fin: "finite {g'. pcs ?s g' \<noteq> Idle}"
    using lock_invD(1) [OF inv] by (rule finite_subset [rotated, OF finite.insertI [of _ g]]) auto
  have l1: "pcs ?s g' = Waiting key' m1 \<or> pcs ?s g' = Holding key' m1 \<Longrightarrow> locks k key' = Some m1" for g' key' m1
  proof -
    assume a: "pcs ?s g' = Waiting key' m1 \<or> pcs ?s g' = Holding key' m1"
    then have g': "g' \<noteq> g" "locks (km s) key' = Some m1" "g' \<in> users s m1"
      using lock_invD(2) [OF inv, of g' key' m1] by (auto simp: users_pc split: if_splits)
    then show "locks k key' = Some m1" using kl l by (cases "key' = key") auto
  qed
  have l2: "locks k key' = Some m1 \<Longrightarrow> heap k m1 \<noteq> None \<and> users ?s m1 \<noteq> {}" for key' m1
  proof -
    assume "locks k key' = Some m1"
    then have o: "locks (km s) key' = Some m1" "users s m = {g} \<Longrightarrow> key' \<noteq> key"
      unfolding kl by (auto split: if_splits)
    from o l lock_invD(6) [OF inv] have "m1 = m \<Longrightarrow> users s m \<noteq> {g}" by blast
    then have "users ?s m1 \<noteq> {}" using lock_invD(5) [OF inv o(1)] gu unfolding us by auto
    with lock_invD(4) [OF inv o(1)] show "heap k m1 \<noteq> None \<and> users ?s m1 \<noteq> {}"
      unfolding kh by auto
  qed
  have l4: "owns (pcs ?s g') m1 \<longleftrightarrow> (\<exists>y. heap k m1 = Some y \<and> owner y = Some g')" for g' m1
    using lock_invD(8) [OF inv, of g' m1] g x unfolding kh m by auto
  have rf: "heap k m1 = Some y \<Longrightarrow> refs y = int (card (users ?s m1))" for m1 y
    using lock_invD(7) [OF inv] x unfolding kh us by (auto split: if_splits)
  have l3: "locks k k1 = Some m1 \<Longrightarrow> locks k k2 = Some m1 \<Longrightarrow> k1 = k2" for k1 k2 m1
    using lock_invD(6) [OF inv, of k1 m1 k2] unfolding kl by (auto split: if_splits)
  show ?thesis
    unfolding lock_inv_def
  proof (intro conjI)
    show "\<forall>g' key' m'. pcs ?s g' = Waiting key' m' \<or> pcs ?s g' = Holding key' m' \<longrightarrow> locks (km ?s) key' = Some m'"
      using l1 by simp
  qed (use fin l2 l3 l4 rf lock_invD(3) [OF inv] in auto)
qed

lemma give_inv:
  assumes inv: "lock_inv s" and g: "pcs s g = Releasing key m" and u: "Unlock_give m (km s) = Inr k"
  shows "lock_inv \<lparr>km = k, pcs = (pcs s)(g := Idle)\<rparr>" (is "lock_inv ?s")
proof -
  obtain x where x: "heap (km s) m = Some x" "owner x = Some g"
    using lock_invD(8) [OF inv, of g m] g by auto
  with u have k: "locks k = locks (km s)" "heap k = (heap (km s))(m \<mapsto> x\<lparr>owner := None\<rparr>)"
    by (auto simp: Unlock_give_def)
  have us: "users ?s m' = users s m'" for m' using g by (auto simp: users_def)
  have fin: "finite {g'. pcs ?s g' \<noteq> Idle}"
    using lock_invD(1) [OF inv] by (rule finite_subset [rotated]) auto
  have l4: "owns (pcs ?s g') m' \<longleftrightarrow> (\<exists>y. heap k m' = Some y \<and> owner y = Some g')" for g' m'
    using lock_invD(8) [OF inv, of g' m'] g x unfolding k by auto
  have rf: "heap k m' = Some y \<Longrightarrow> refs y = int (card (users ?s m'))" for m' y
    using lock_invD(7) [OF inv] x unfolding k us by (auto split: if_splits)
  have l2: "locks k key' = Some m1 \<Longrightarrow> heap k m1 \<noteq> None \<and> users ?s m1 \<noteq> {}" for key' m1
    using lock_invD(4, 5) [OF inv, of key' m1] unfolding k us by auto
  show ?thesis
    unfolding lock_inv_def
  proof (intro conjI)
    show "\<forall>g' key' m'. pcs ?s g' = Waiting key' m' \<or> pcs ?s g' = Holding key' m' \<longrightarrow> locks (km ?s) key' = Some m'"
      using lock_invD(2) [OF inv] by (auto simp: k)
    show "\<forall>key key' m. locks (km ?s) key = Some m \<longrightarrow> locks (km ?s) key' = Some m \<longrightarrow> key = key'"
      using lock_invD(6) [OF inv] by (auto simp: k)
  qed (use fin l2 l4 rf lock_invD(3) [OF inv] in auto)
qed

lemma lock_step_inv: "lock_step s s' \<Longrightarrow> lock_inv s \<Longrightarrow> lock_inv s'"
proof (induction rule: lock_step.induct)
  case (release_panic s g key m e)
  then show ?case by (metis release_ok sum.distinct(1))
next
  case (give_panic s g key m e)
  then obtain x where "heap (km s) m = Some x" "owner x = Some g"
    using lock_invD(8) [OF give_panic(3), of g m] by auto
  with give_panic show ?case by (simp add: Unlock_give_def)
qed (auto intro: enter_inv take_inv release_inv give_inv)

lemma reachable_inv: "reachable s \<Longrightarrow> lock_inv s"
  by (induction rule: reachable.induct) (auto intro: lock_init_inv lock_step_inv)

section \<open>Correctness of the per-key lock\<close>

lemma dom_locks:
  assumes "lock_inv s"
  shows "dom (locks (km s)) = {key. \<exists>g m. pcs s g = Waiting key m \<or> pcs s g = Holding key m}"
proof (intro set_eqI iffI)
  fix key assume "key \<in> dom (locks (km s))"
  then obtain m where m: "locks (km s) key = Some m" by blast
  with lock_invD(5) [OF assms] obtain g key' where g: "pcs s g = Waiting key' m \<or> pcs s g = Holding key' m"
    unfolding users_def by blast
  with lock_invD(2, 6) [OF assms] m have "key' = key" by blast
  with g show "key \<in> {key. \<exists>g m. pcs s g = Waiting key m \<or> pcs s g = Holding key m}" by blast
qed (use lock_invD(2) [OF assms] in blast)

text \<open>C10: In every interleaving of goroutines that lock and unlock pod identifiers, two goroutines
  never hold the lock of the same identifier, no unlock panics, and the table has an entry for
  exactly the identifiers that some goroutine holds or waits on (so nothing leaks).\<close>
theorem keyedMutex_safe:
  assumes "reachable s"
  shows "(\<forall>key g g' m m'. pcs s g = Holding key m \<longrightarrow> pcs s g' = Holding key m' \<longrightarrow> g = g') \<and>
    (\<forall>g. pcs s g \<noteq> Panicked) \<and>
    keyedMutex_len (km s) = card {key. \<exists>g m. pcs s g = Waiting key m \<or> pcs s g = Holding key m}"
proof -
  note inv = reachable_inv [OF assms]
  have "g = g'" if h: "pcs s g = Holding key m" "pcs s g' = Holding key m'" for key g g' m m'
  proof -
    have "m = m'" using lock_invD(2) [OF inv] h by (metis option.inject)
    then have "owns (pcs s g) m" "owns (pcs s g') m" using h by simp_all
    then show ?thesis using lock_invD(8) [OF inv] by (metis option.inject)
  qed
  then show ?thesis using lock_invD(3) [OF inv] by (simp add: keyedMutex_len_def dom_locks [OF inv])
qed

lemma step_moves:
  assumes "lock_step s \<lparr>km = k, pcs = (pcs s)(g := p)\<rparr>" and "p \<noteq> pcs s g"
  shows "\<exists>s'. lock_step s s' \<and> pcs s' g \<noteq> pcs s g"
  using assms by (intro exI [of _ "\<lparr>km = k, pcs = (pcs s)(g := p)\<rparr>"]) simp

lemma reachable_hold:
  assumes "reachable s" "pcs s g = Idle" "locks (km s) key = None" "heap (km s) new = None"
  shows "\<exists>s'. reachable s' \<and> pcs s' = (pcs s)(g := Holding key new)"
proof -
  obtain k where e: "Lock_enter new key (km s) = (new, k)"
    "heap k new = Some \<lparr>refs = 1, owner = None\<rparr>"
    using assms(3) by (simp add: Lock_enter_def)
  let ?s1 = "\<lparr>km = k, pcs = (pcs s)(g := Waiting key new)\<rparr>"
  have "reachable ?s1" using assms(1) lock_step.enter [OF assms(2, 4) e(1)] by (rule reachable.step)
  moreover have "lock_step ?s1 \<lparr>km = Lock_take g new (km ?s1), pcs = (pcs ?s1)(g := Holding key new)\<rparr>"
    by (rule lock_step.take [where x = "\<lparr>refs = 1, owner = None\<rparr>"]) (simp_all add: e)
  ultimately show ?thesis using reachable.step by fastforce
qed

theorem keyedMutex_safe_witness:
  "\<exists>s. reachable s \<and> pcs s 3 = Holding ''web@ns'' 0 \<and> (\<forall>g m. pcs s g = Holding ''web@ns'' m \<longrightarrow> g = 3)"
proof -
  obtain s where s: "reachable s" "pcs s = (pcs lock_init)(3 := Holding ''web@ns'' 0)"
    using reachable_hold [OF reachable.init, of 3 "''web@ns''" 0] by (auto simp: lock_init_def)
  then have "pcs s 3 = Holding ''web@ns'' 0" by simp
  with keyedMutex_safe [OF s(1)] s(1) show ?thesis by (intro exI [of _ s]) blast
qed

text \<open>C11: No goroutine is left stuck: whenever one is inside \<^verbatim>\<open>Lock\<close>, its critical section or
  \<^verbatim>\<open>Unlock\<close> for an identifier, some goroutine using that same mutex can move on, and only
  waiting for a holder can delay it.\<close>
theorem keyedMutex_progress:
  assumes "reachable s" and "pcs s g = Waiting key m \<or> owns (pcs s g) m"
  shows "\<exists>g' s'. lock_step s s' \<and> pcs s' g' \<noteq> pcs s g' \<and>
    (g' = g \<or> pcs s g = Waiting key m \<and> owns (pcs s g') m)"
proof -
  note inv = reachable_inv [OF assms(1)]
  have owner_moves: "\<exists>s'. lock_step s s' \<and> pcs s' g' \<noteq> pcs s g'" if o: "owns (pcs s g') m" for g'
  proof -
    obtain x where x: "heap (km s) m = Some x" "owner x = Some g'" using lock_invD(8) [OF inv] o by blast
    consider key' where "pcs s g' = Holding key' m" | key' where "pcs s g' = Releasing key' m"
      using o by (auto simp: owns_def)
    then show ?thesis
    proof cases
      case 1
      from release_ok [OF inv 1] obtain k where "Unlock_enter key' (km s) = Inr (m, k)" by metis
      from step_moves [OF lock_step.release [OF 1 this]] show ?thesis by (simp add: 1)
    next
      case 2
      have "Unlock_give m (km s) = Inr ((km s)\<lparr>heap := (heap (km s))(m \<mapsto> x\<lparr>owner := None\<rparr>)\<rparr>)"
        using x by (simp add: Unlock_give_def)
      from step_moves [OF lock_step.give [OF 2 this]] show ?thesis by (simp add: 2)
    qed
  qed
  show ?thesis
  proof (cases "owns (pcs s g) m")
    case True
    with owner_moves show ?thesis by blast
  next
    case False
    with assms(2) have w: "pcs s g = Waiting key m" by blast
    then obtain x where x: "heap (km s) m = Some x" using lock_invD(2, 4) [OF inv] by blast
    show ?thesis
    proof (cases "owner x")
      case None
      from step_moves [OF lock_step.take [OF w x None]] w
      have "\<exists>s'. lock_step s s' \<and> pcs s' g \<noteq> pcs s g" by simp
      then show ?thesis by blast
    next
      case (Some g')
      with x have "owns (pcs s g') m" using lock_invD(8) [OF inv] by blast
      with owner_moves w show ?thesis by blast
    qed
  qed
qed

theorem keyedMutex_progress_witness:
  "\<exists>s. reachable s \<and> pcs s 3 = Holding ''web@ns'' 0 \<and> (\<exists>s'. lock_step s s' \<and> pcs s' 3 \<noteq> pcs s 3)"
proof -
  obtain s where s: "reachable s" "pcs s = (pcs lock_init)(3 := Holding ''web@ns'' 0)"
    using reachable_hold [OF reachable.init, of 3 "''web@ns''" 0] by (auto simp: lock_init_def)
  then have "pcs s 3 = Holding ''web@ns'' 0" by simp
  with keyedMutex_progress [OF s(1), of 3 "''web@ns''" 0] s(1) show ?thesis
    by (intro exI [of _ s]) auto
qed

end
