(* ===== verification/Api.thy ===== *)
theory Api
  imports Prelude
begin

text \<open>
  The custom resources the agent consumes (\<^verbatim>\<open>api/v1alpha1\<close>) and the small value types of
  \<^verbatim>\<open>pkg/types\<close>. A Go struct is a record with the fields the agent reads; metadata is
  reduced to name, namespace, annotations and the deletion timestamp.
  A pointer whose address the program observes is the pair of its address and its target.
\<close>

type_synonym NetworkAddress = string
type_synonym DomainName = string
type_synonym 'a ptr = "(nat \<times> 'a) option"

text \<open>Go's \<^verbatim>\<open>int32\<close>: a 32-bit word read by \<open>sint\<close>.\<close>

type_synonym int32 = "32 word"

record PolicyReference =
  ref_Name :: string
  ref_Namespace :: string

record Port =
  port_Protocol :: "string ptr"
  port_Port :: "int32 option"
  port_EndPort :: "int32 option"

record EndpointInfo =
  ei_CIDR :: NetworkAddress
  ei_DomainName :: DomainName
  ei_Except :: "NetworkAddress list"
  ei_Ports :: "Port list"

record PodEndpoint =
  pep_HostIP :: NetworkAddress
  pep_PodIP :: NetworkAddress
  pep_Name :: string
  pep_Namespace :: string

record PolicyEndpointSpec =
  pes_PolicyRef :: PolicyReference
  pes_PodIsolation :: "string list"
  pes_PodSelectorEndpoints :: "PodEndpoint list"
  pes_Ingress :: "EndpointInfo list"
  pes_Egress :: "EndpointInfo list"

record PolicyEndpoint =
  pe_Name :: string
  pe_Namespace :: string
  pe_Annotations :: "string \<rightharpoonup> string"
  pe_Deleting :: bool
  pe_Spec :: PolicyEndpointSpec

type_synonym Tier = string

definition AdminTier :: Tier where "AdminTier = ''Admin''"
definition BaselineTier :: Tier where "BaselineTier = ''Baseline''"

type_synonym RuleAction = string

definition ActionAcceptName :: RuleAction where "ActionAcceptName = ''Accept''"
definition ActionDenyName :: RuleAction where "ActionDenyName = ''Deny''"
definition ActionPassName :: RuleAction where "ActionPassName = ''Pass''"

record ClusterPolicyReference =
  cref_Name :: string

record ClusterEndpointInfo =
  cei_CIDR :: NetworkAddress
  cei_Ports :: "Port list"
  cei_DomainName :: DomainName
  cei_Action :: RuleAction

record ClusterPolicyEndpointSpec =
  cpes_PolicyRef :: ClusterPolicyReference
  cpes_Tier :: Tier
  cpes_Priority :: int32
  cpes_PodSelectorEndpoints :: "PodEndpoint list"
  cpes_Ingress :: "ClusterEndpointInfo list"
  cpes_Egress :: "ClusterEndpointInfo list"

record ClusterPolicyEndpoint =
  cpe_Name :: string
  cpe_Annotations :: "string \<rightharpoonup> string"
  cpe_Deleting :: bool
  cpe_Spec :: ClusterPolicyEndpointSpec

text \<open>\<^verbatim>\<open>types.NamespacedName\<close> and the pod of \<^verbatim>\<open>pkg/types\<close>.\<close>

record NamespacedName =
  nn_Name :: string
  nn_Namespace :: string

record Pod =
  pod_NamespacedName :: NamespacedName
  pod_PodIP :: NetworkAddress

text \<open>The priority-tagged rule of \<^verbatim>\<open>pkg/types\<close> and its equality.\<close>

record types_L4Rule =
  tl4_Info :: Port
  tl4_Priority :: int

definition ptr_val :: "'a ptr \<Rightarrow> 'a option" where
  "ptr_val p = map_option snd p"

definition types_L4Rule_Equal :: "types_L4Rule \<Rightarrow> types_L4Rule \<Rightarrow> bool" where
  "types_L4Rule_Equal l other =
     (if tl4_Priority l \<noteq> tl4_Priority other then False
      else
        let port1 = tl4_Info l; port2 = tl4_Info other
        in if (port_Protocol port1 = None) \<noteq> (port_Protocol port2 = None) then False
           else if port_Protocol port1 \<noteq> None \<and> port_Protocol port2 \<noteq> None \<and>
                   ptr_val (port_Protocol port1) \<noteq> ptr_val (port_Protocol port2) then False
           else if (port_Port port1 = None) \<noteq> (port_Port port2 = None) then False
           else if port_Port port1 \<noteq> None \<and> port_Port port2 \<noteq> None \<and>
                   port_Port port1 \<noteq> port_Port port2 then False
           else if (port_EndPort port1 = None) \<noteq> (port_EndPort port2 = None) then False
           else if port_EndPort port1 \<noteq> None \<and> port_EndPort port2 \<noteq> None \<and>
                   port_EndPort port1 \<noteq> port_EndPort port2 then False
           else True)"

definition int_string :: "int \<Rightarrow> string" where
  "int_string i = (if i < 0 then CHR ''-'' # nat_string (nat (- i)) else nat_string (nat i))"

definition types_L4Rule_String :: "types_L4Rule \<Rightarrow> string" where
  "types_L4Rule_String l =
     (let protocol = (case port_Protocol (tl4_Info l) of Some (_, p) \<Rightarrow> p | None \<Rightarrow> ''ANY'');
          portRange =
            (case port_Port (tl4_Info l) of
               Some p \<Rightarrow>
                 (case port_EndPort (tl4_Info l) of
                    Some e \<Rightarrow> int_string (sint p) @ ''-'' @ int_string (sint e)
                  | None \<Rightarrow> int_string (sint p))
             | None \<Rightarrow> ''ANY'')
      in ''L4Rule{Protocol:'' @ protocol @ '', Port:'' @ portRange @ '', Priority:'' @
         int_string (tl4_Priority l) @ ''}'')"

text \<open>The value of a port specification, with pointer identity forgotten.\<close>

definition port_value :: "Port \<Rightarrow> string option \<times> int32 option \<times> int32 option" where
  "port_value p = (ptr_val (port_Protocol p), port_Port p, port_EndPort p)"

lemma types_L4Rule_Equal_iff:
  "types_L4Rule_Equal l m \<longleftrightarrow>
     tl4_Priority l = tl4_Priority m \<and> port_value (tl4_Info l) = port_value (tl4_Info m)"
  by (cases "port_Protocol (tl4_Info l)"; cases "port_Protocol (tl4_Info m)";
      cases "port_Port (tl4_Info l)"; cases "port_Port (tl4_Info m)";
      cases "port_EndPort (tl4_Info l)"; cases "port_EndPort (tl4_Info m)")
     (simp_all add: types_L4Rule_Equal_def port_value_def ptr_val_def Let_def)

end
