(* ===== verification/GoNet.thy ===== *)
theory GoNet
  imports Prelude
begin

text \<open>
  The part of Go's \<^verbatim>\<open>net\<close> and \<^verbatim>\<open>net/netip\<close> packages the agent uses: textual IPv4 and IPv6
  addresses, CIDR strings, masks, containment and the canonical printing of a network. The
  lemmas relate a network to the bit prefix it denotes, and show that the canonical text of a
  network parses back to it.
\<close>

section \<open>Addresses\<close>

text \<open>A \<^verbatim>\<open>net.IP\<close> is a byte slice; the empty list is Go's \<open>nil\<close>.\<close>

type_synonym ip = "byte list"

definition v4InV6Prefix :: "byte list" where
  "v4InV6Prefix = [0, 0, 0, 0, 0, 0, 0, 0, 0, 0, 255, 255]"

definition To4 :: "ip \<Rightarrow> ip" where
  "To4 a = (if length a = 4 then a
            else if length a = 16 \<and> take 12 a = v4InV6Prefix then drop 12 a else [])"

definition To16 :: "ip \<Rightarrow> ip" where
  "To16 a = (if length a = 4 then v4InV6Prefix @ a else if length a = 16 then a else [])"

definition IP_Equal :: "ip \<Rightarrow> ip \<Rightarrow> bool" where
  "IP_Equal a b =
     (if length a = length b then a = b
      else if length a = 4 \<and> length b = 16 then take 12 b = v4InV6Prefix \<and> a = drop 12 b
      else if length a = 16 \<and> length b = 4 then take 12 a = v4InV6Prefix \<and> drop 12 a = b
      else False)"

section \<open>Parsing\<close>

text \<open>One octet of a dotted quad: decimal, no superfluous leading zero, at most 255.\<close>

definition parse_octet :: "string \<Rightarrow> byte option" where
  "parse_octet s =
     (case s of [] \<Rightarrow> None
      | c # cs \<Rightarrow>
          if c = CHR ''0'' \<and> cs \<noteq> [] then None
          else (case digits_val 0 s of None \<Rightarrow> None
                | Some n \<Rightarrow> if n \<le> 255 then Some (of_nat n) else None))"

definition parse_ipv4_fields :: "string \<Rightarrow> byte list option" where
  "parse_ipv4_fields s =
     (let ps = go_split (CHR ''.'') s
      in if length ps = 4 then those (map parse_octet ps) else None)"

definition hex_val :: "char \<Rightarrow> nat option" where
  "hex_val c =
     (let n = of_char c :: nat
      in if 48 \<le> n \<and> n \<le> 57 then Some (n - 48)
         else if 97 \<le> n \<and> n \<le> 102 then Some (n - 87)
         else if 65 \<le> n \<and> n \<le> 70 then Some (n - 55) else None)"

definition is_hex :: "char \<Rightarrow> bool" where
  "is_hex c \<longleftrightarrow> hex_val c \<noteq> None"

fun hex_digits_val :: "nat \<Rightarrow> string \<Rightarrow> nat" where
  "hex_digits_val acc [] = acc"
| "hex_digits_val acc (c # cs) =
     hex_digits_val (acc * 16 + (case hex_val c of None \<Rightarrow> 0 | Some d \<Rightarrow> d)) cs"

text \<open>The two bytes of a 16-bit group.\<close>

definition group_bytes :: "nat \<Rightarrow> byte list" where
  "group_bytes g = [of_nat (g div 256), of_nat (g mod 256)]"

lemma dropWhile_Cons_shorter: "c # cs = dropWhile P s \<Longrightarrow> length cs < length s"
proof -
  assume eq: "c # cs = dropWhile P s"
  have "length (c # cs) \<le> length s" unfolding eq by (rule length_dropWhile_le)
  then show ?thesis by simp
qed

text \<open>
  The loop of \<^verbatim>\<open>netip.parseIPv6\<close>: \<open>acc\<close> holds the bytes filled so far, \<open>ell\<close> the position
  of an ellipsis. The result is the bytes, the ellipsis and the text left over.
\<close>

function parse6_loop ::
  "byte list \<Rightarrow> nat option \<Rightarrow> string \<Rightarrow> (byte list \<times> nat option \<times> string) option" where
  "parse6_loop acc ell s =
     (if 16 \<le> length acc then Some (acc, ell, s)
      else
        let ds = takeWhile is_hex s; rest = dropWhile is_hex s;
            acc' = acc @ group_bytes (hex_digits_val 0 ds)
        in if ds = [] \<or> 4 < length ds then None
           else (case rest of
               [] \<Rightarrow> Some (acc', ell, [])
             | c # cs \<Rightarrow>
                 if c = CHR ''.'' then
                   (if (ell = None \<and> length acc \<noteq> 12) \<or> 16 < length acc + 4 then None
                    else (case parse_ipv4_fields s of
                            None \<Rightarrow> None | Some f \<Rightarrow> Some (acc @ f, ell, [])))
                 else if c \<noteq> CHR '':'' then None
                 else (case cs of
                     [] \<Rightarrow> None
                   | d # ds' \<Rightarrow>
                       if d = CHR '':'' then
                         (if ell \<noteq> None then None
                          else if ds' = [] then Some (acc', Some (length acc'), [])
                          else parse6_loop acc' (Some (length acc')) ds')
                       else parse6_loop acc' ell cs)))"
  by pat_completeness auto
termination
  by (relation "measure (\<lambda>(acc, ell, s). length s)")
    (auto dest: dropWhile_Cons_shorter)

declare parse6_loop.simps [simp del]

definition parse_ipv6 :: "string \<Rightarrow> byte list option" where
  "parse_ipv6 s =
     (if CHR ''%'' \<in> set s then None
      else if s = ''::'' then Some (replicate 16 0)
      else
        let (ell0, s0) = (if take 2 s = ''::'' then (Some 0, drop 2 s) else (None, s))
        in (case parse6_loop [] ell0 s0 of
              None \<Rightarrow> None
            | Some (bs, ell, rest) \<Rightarrow>
                if rest \<noteq> [] then None
                else if length bs < 16 then
                  (case ell of None \<Rightarrow> None
                   | Some e \<Rightarrow> Some (take e bs @ replicate (16 - length bs) 0 @ drop e bs))
                else if ell \<noteq> None then None else Some bs))"

text \<open>
  \<^verbatim>\<open>netip.ParseAddr\<close>, restricted to addresses without a zone (both callers refuse a zone):
  the first of \<^verbatim>\<open>. : %\<close> decides the family.
\<close>

datatype addr = Addr4 "byte list" | Addr6 "byte list"

definition ParseAddr :: "string \<Rightarrow> addr option" where
  "ParseAddr s =
     (case dropWhile (\<lambda>c. c \<noteq> CHR ''.'' \<and> c \<noteq> CHR '':'' \<and> c \<noteq> CHR ''%'') s of
        [] \<Rightarrow> None
      | c # _ \<Rightarrow>
          if c = CHR ''.'' then map_option Addr4 (parse_ipv4_fields s)
          else if c = CHR '':'' then map_option Addr6 (parse_ipv6 s)
          else None)"

fun As16 :: "addr \<Rightarrow> ip" where
  "As16 (Addr4 b) = v4InV6Prefix @ b"
| "As16 (Addr6 b) = b"

fun BitLen :: "addr \<Rightarrow> nat" where
  "BitLen (Addr4 _) = 32"
| "BitLen (Addr6 _) = 128"

definition ParseIP :: "string \<Rightarrow> ip" where
  "ParseIP s = (case ParseAddr s of None \<Rightarrow> [] | Some a \<Rightarrow> As16 a)"

section \<open>Masks and networks\<close>

fun mask_bytes :: "nat \<Rightarrow> nat \<Rightarrow> byte list" where
  "mask_bytes 0 n = []"
| "mask_bytes (Suc l) n =
     (if 8 \<le> n then 255 # mask_bytes l (n - 8) else NOT (drop_bit n 255) # mask_bytes l 0)"

definition CIDRMask :: "nat \<Rightarrow> nat \<Rightarrow> byte list" where
  "CIDRMask ones bits = mask_bytes (bits div 8) ones"

text \<open>\<^verbatim>\<open>net.IP.Mask\<close> for the masks \<open>ParseCIDR\<close> makes (4 or 16 bytes).\<close>

definition IP_Mask :: "ip \<Rightarrow> byte list \<Rightarrow> ip" where
  "IP_Mask a m =
     (let m' = (if length m = 16 \<and> length a = 4 \<and> take 12 m = replicate 12 255
                then drop 12 m else m);
          a' = (if length m' = 4 \<and> length a = 16 \<and> take 12 a = v4InV6Prefix
                then drop 12 a else a)
      in if length a' \<noteq> length m' then [] else map2 (AND) a' m')"

record IPNet =
  net_IP :: ip
  net_Mask :: "byte list"

text \<open>Leading ones of a byte, or nothing when the ones are not a prefix.\<close>

fun byte_ones :: "nat \<Rightarrow> byte \<Rightarrow> nat option" where
  "byte_ones 0 v = (if v = 0 then Some 0 else None)"
| "byte_ones (Suc k) v =
     (if v AND 128 \<noteq> 0 then map_option Suc (byte_ones k (push_bit 1 v))
      else if v = 0 then Some 0 else None)"

fun simpleMaskLength :: "byte list \<Rightarrow> nat option" where
  "simpleMaskLength [] = Some 0"
| "simpleMaskLength (v # vs) =
     (if v = 255 then map_option (\<lambda>n. n + 8) (simpleMaskLength vs)
      else (case byte_ones 8 v of
              None \<Rightarrow> None
            | Some k \<Rightarrow> if \<forall>w \<in> set vs. w = 0 then Some k else None))"

definition Mask_Size :: "byte list \<Rightarrow> nat \<times> nat" where
  "Mask_Size m = (case simpleMaskLength m of None \<Rightarrow> (0, 0) | Some n \<Rightarrow> (n, 8 * length m))"

text \<open>
  \<^verbatim>\<open>dtoi\<close>: the prefix length, all of the text digits; \<open>0xFFFFFF\<close> bounds the value, which
  the later comparison with the bit length implies.
\<close>

definition parse_prefix_len :: "string \<Rightarrow> nat option" where
  "parse_prefix_len s = (if s = [] then None else digits_val 0 s)"

definition ParseCIDR :: "string \<Rightarrow> (ip \<times> IPNet) option" where
  "ParseCIDR s =
     (case go_cut (CHR ''/'') s of
        None \<Rightarrow> None
      | Some (a, m) \<Rightarrow>
          (case ParseAddr a of
             None \<Rightarrow> None
           | Some ipAddr \<Rightarrow>
               (case parse_prefix_len m of
                  None \<Rightarrow> None
                | Some n \<Rightarrow>
                    if BitLen ipAddr < n then None
                    else
                      let msk = CIDRMask n (BitLen ipAddr); addr16 = As16 ipAddr
                      in Some (addr16,
                               \<lparr>net_IP = IP_Mask addr16 msk, net_Mask = msk\<rparr>))))"

text \<open>\<^verbatim>\<open>networkNumberAndMask\<close>; \<open>None\<close> is the pair of nils.\<close>

definition networkNumberAndMask :: "IPNet \<Rightarrow> (ip \<times> byte list) option" where
  "networkNumberAndMask n =
     (let a = (if To4 (net_IP n) = [] then net_IP n else To4 (net_IP n)); m = net_Mask n
      in if length a \<noteq> 4 \<and> length a \<noteq> 16 then None
         else if length m = 4 then (if length a = 4 then Some (a, m) else None)
         else if length m = 16 then Some (a, if length a = 4 then drop 12 m else m)
         else None)"

definition IPNet_Contains :: "IPNet \<Rightarrow> ip \<Rightarrow> bool" where
  "IPNet_Contains n a =
     (let a' = (if To4 a = [] then a else To4 a)
      in case networkNumberAndMask n of
           None \<Rightarrow> a' = []
         | Some (nn, m) \<Rightarrow>
             length a' = length nn \<and>
             map2 (AND) nn m = map2 (AND) a' m)"

section \<open>Printing\<close>

definition ipv4_string :: "byte list \<Rightarrow> string" where
  "ipv4_string bs = go_join ''.'' (map (\<lambda>b. nat_string (unat b)) bs)"

definition hex_char :: "nat \<Rightarrow> char" where
  "hex_char d = (if d < 10 then char_of (48 + d) else char_of (87 + d))"

fun hex_string :: "nat \<Rightarrow> string" where
  "hex_string n = (if n < 16 then [hex_char n] else hex_string (n div 16) @ [hex_char (n mod 16)])"

declare hex_string.simps [simp del]

fun ip_groups :: "byte list \<Rightarrow> nat list" where
  "ip_groups (a # b # r) = (256 * unat a + unat b) # ip_groups r"
| "ip_groups _ = []"

definition zero_run :: "nat list \<Rightarrow> nat \<Rightarrow> nat" where
  "zero_run gs i = length (takeWhile (\<lambda>g. g = 0) (drop i gs))"

text \<open>The first longest run of at least two zero groups, as \<^verbatim>\<open>zeroStart, zeroEnd\<close>.\<close>

definition longest_zero_run :: "nat list \<Rightarrow> nat \<times> nat" where
  "longest_zero_run gs =
     fold (\<lambda>i (zs, ze). let l = zero_run gs i
                        in if 2 \<le> l \<and> ze - zs < l then (i, i + l) else (zs, ze))
       [0, 1, 2, 3, 4, 5, 6, 7] (255, 255)"

definition ipv6_string :: "byte list \<Rightarrow> string" where
  "ipv6_string bs =
     (let gs = ip_groups bs; (zs, ze) = longest_zero_run gs
      in if zs = 255 then go_join '':'' (map hex_string gs)
         else go_join '':'' (map hex_string (take zs gs)) @ ''::'' @
              go_join '':'' (map hex_string (drop ze gs)))"

definition IP_String :: "ip \<Rightarrow> string" where
  "IP_String a =
     (if a = [] then ''<nil>''
      else if length a \<noteq> 4 \<and> length a \<noteq> 16 then CHR ''?'' # concat (map (\<lambda>b.
             [hex_char (unat b div 16), hex_char (unat b mod 16)]) a)
      else if To4 a \<noteq> [] then ipv4_string (To4 a)
      else ipv6_string a)"

text \<open>\<^verbatim>\<open>(*IPNet).String\<close>; a mask that is not a prefix prints in hexadecimal.\<close>

definition IPNet_String :: "IPNet \<Rightarrow> string" where
  "IPNet_String n =
     (case networkNumberAndMask n of
        None \<Rightarrow> ''<nil>''
      | Some (nn, m) \<Rightarrow>
          IP_String nn @ ''/'' @
          (case simpleMaskLength m of
             None \<Rightarrow> concat (map (\<lambda>b. [hex_char (unat b div 16), hex_char (unat b mod 16)]) m)
           | Some l \<Rightarrow> nat_string l))"

section \<open>Masks as bit prefixes\<close>

lemma byte_255: "(255 :: byte) = - 1"
  by simp

lemma length_mask_bytes [simp]: "length (mask_bytes l n) = l"
  by (induction l n rule: mask_bytes.induct) auto

lemma byte_and_mask:
  assumes "n < 8"
  shows "byte_bits (b AND NOT (drop_bit n 255)) = take n (byte_bits b) @ replicate (8 - n) False"
proof (rule nth_equalityI)
  fix i assume "i < length (byte_bits (b AND NOT (drop_bit n 255)))"
  then have i: "i < 8" by simp
  then have "byte_bits (b AND NOT (drop_bit n 255)) ! i = (bit b (7 - i) \<and> i < n)"
    using assms by (subst nth_byte_bits, simp) (auto simp: bit_simps byte_255)
  with i assms show "byte_bits (b AND NOT (drop_bit n 255)) ! i =
      (take n (byte_bits b) @ replicate (8 - n) False) ! i"
    by (auto simp: nth_append nth_byte_bits)
qed (use assms in simp)

lemma mask_bits:
  "n \<le> 8 * length a \<Longrightarrow>
     bytes_bits (map2 (AND) a (mask_bytes (length a) n)) =
     take n (bytes_bits a) @ replicate (8 * length a - n) False"
proof (induction a arbitrary: n)
  case (Cons b a)
  show ?case
  proof (cases "8 \<le> n")
    case True
    with Cons show ?thesis by (simp add: byte_255)
  next
    case False
    moreover have "bytes_bits (map2 (AND) a (mask_bytes (length a) 0)) = replicate (8 * length a) False"
      using Cons.IH [of 0] by simp
    ultimately show ?thesis
      by (simp add: byte_and_mask replicate_add [symmetric])
  qed
qed simp

lemma mask_eq_iff_take_bits:
  assumes "length a = l" "length b = l" "n \<le> 8 * l"
  shows "map2 (AND) a (mask_bytes l n) = map2 (AND) b (mask_bytes l n) \<longleftrightarrow>
         take n (bytes_bits a) = take n (bytes_bits b)"
proof -
  have "map2 (AND) a (mask_bytes l n) = map2 (AND) b (mask_bytes l n) \<longleftrightarrow>
        bytes_bits (map2 (AND) a (mask_bytes l n)) = bytes_bits (map2 (AND) b (mask_bytes l n))"
    by (simp only: bytes_bits_inject)
  also have "\<dots> \<longleftrightarrow> take n (bytes_bits a) @ replicate (8 * l - n) False =
                  take n (bytes_bits b) @ replicate (8 * l - n) False"
    using assms mask_bits [of n a] mask_bits [of n b] by (simp only:)
  finally show ?thesis by simp
qed

lemma byte_ones_mask: "n < 8 \<Longrightarrow> byte_ones 8 (NOT (drop_bit n 255)) = Some n"
proof -
  assume "n < 8"
  then have "n = 0 \<or> n = 1 \<or> n = 2 \<or> n = 3 \<or> n = 4 \<or> n = 5 \<or> n = 6 \<or> n = 7" by arith
  then show ?thesis by (elim disjE; hypsubst; code_simp)
qed

lemma mask_bytes_0 [simp]: "mask_bytes l 0 = replicate l 0"
  by (induction l) (auto simp: byte_255)

lemma simpleMaskLength_mask [simp]: "n \<le> 8 * l \<Longrightarrow> simpleMaskLength (mask_bytes l n) = Some n"
proof (induction l arbitrary: n)
  case (Suc l)
  show ?case
  proof (cases "8 \<le> n")
    case True
    with Suc show ?thesis by simp
  next
    case False
    then have "\<not> bit (NOT (drop_bit n (255 :: byte))) 0"
      by (simp add: byte_255 bit_simps)
    moreover have "bit (255 :: byte) 0" by simp
    ultimately have "NOT (drop_bit n 255) \<noteq> (255 :: byte)" by metis
    with False show ?thesis by (simp add: byte_ones_mask)
  qed
qed simp

section \<open>Canonical text parses back: IPv4\<close>

lemma digit_char_0: "digit_char 0 = CHR ''0''"
  by code_simp

lemma digit_char_nonzero: "0 < n \<Longrightarrow> n < 10 \<Longrightarrow> digit_char n \<noteq> CHR ''0''"
proof
  assume n: "0 < n" "n < 10" and "digit_char n = CHR ''0''"
  then have "digit_val (CHR ''0'') = Some n" using digit_val_char [of n] by simp
  with n show False by (simp add: digit_val_def)
qed

lemma nat_string_hd: "0 < n \<Longrightarrow> hd (nat_string n) \<noteq> CHR ''0''"
proof (induction n rule: nat_string.induct)
  case (1 n)
  then show ?case
    by (cases "n < 10") (auto simp: nat_string.simps [of n] digit_char_nonzero)
qed

lemma parse_octet_nat_string [simp]: "parse_octet (nat_string (unat b)) = Some b"
proof (cases "unat b = 0")
  case True
  then have "b = 0" by (simp add: unsigned_eq_0_iff)
  then show ?thesis
    by (simp add: parse_octet_def nat_string.simps digit_char_0 digit_val_def)
next
  case False
  have "unat b \<le> 255" using unsigned_less [of b, where 'a = nat] by simp
  moreover obtain c cs where c: "nat_string (unat b) = c # cs"
    by (cases "nat_string (unat b)") auto
  moreover have "c \<noteq> CHR ''0''" using nat_string_hd [of "unat b"] False c by simp
  moreover have "digits_val 0 (c # cs) = Some (unat b)"
    using digits_val_nat_string [of "unat b"] c by (simp only:)
  ultimately show ?thesis by (simp add: parse_octet_def del: digits_val.simps)
qed

lemma dot_not_digit [simp]:
  "digit_val (CHR ''.'') = None" "digit_val (CHR '':'') = None" "digit_val (CHR ''%'') = None"
  "digit_val (CHR ''/'') = None"
  by (simp_all add: digit_val_def)

lemma those_map_Some: "(\<And>x. x \<in> set xs \<Longrightarrow> f x = Some (g x)) \<Longrightarrow> those (map f xs) = Some (map g xs)"
  by (induction xs) auto

lemma parse_ipv4_string [simp]:
  assumes "length bs = 4" shows "parse_ipv4_fields (ipv4_string bs) = Some bs"
proof -
  let ?ps = "map (\<lambda>b. nat_string (unat b)) bs"
  have "go_split (CHR ''.'') (ipv4_string bs) = ?ps"
    unfolding ipv4_string_def
    using assms by (intro go_split_join) (auto simp: nat_string_not_in)
  moreover have "those (map parse_octet ?ps) = Some bs"
    by (simp add: those_map_Some [where g = id] comp_def)
  ultimately show ?thesis using assms by (simp add: parse_ipv4_fields_def)
qed

lemma dropWhile_prefix_Cons:
  "(\<forall>c \<in> set a. P c) \<Longrightarrow> \<not> P d \<Longrightarrow> dropWhile P (a @ d # b) = d # b"
  by (induction a) auto

lemma ipv4_string_Cons:
  assumes "length bs = 4"
  obtains t where "ipv4_string bs = nat_string (unat (hd bs)) @ CHR ''.'' # t"
  using assms by (auto simp: ipv4_string_def length_Suc_conv numeral_eq_Suc)

lemma ParseAddr_ipv4 [simp]:
  assumes "length bs = 4" shows "ParseAddr (ipv4_string bs) = Some (Addr4 bs)"
proof -
  obtain t where t: "ipv4_string bs = nat_string (unat (hd bs)) @ CHR ''.'' # t"
    using assms by (rule ipv4_string_Cons)
  have "dropWhile (\<lambda>c. c \<noteq> CHR ''.'' \<and> c \<noteq> CHR '':'' \<and> c \<noteq> CHR ''%'') (ipv4_string bs) =
        CHR ''.'' # t"
    unfolding t by (intro dropWhile_prefix_Cons) (auto dest: nat_string_digits)
  with assms show ?thesis by (simp add: ParseAddr_def)
qed

section \<open>Canonical text parses back: IPv6\<close>

lemma hex_char_val [simp]: "d < 16 \<Longrightarrow> hex_val (hex_char d) = Some d"
  by (auto simp: hex_val_def hex_char_def)

lemma hex_digits_val_append:
  "hex_digits_val acc (a @ b) = hex_digits_val (hex_digits_val acc a) b"
  by (induction a arbitrary: acc) auto

lemma hex_digits_val_hex_string [simp]: "hex_digits_val 0 (hex_string g) = g"
proof (induction g rule: hex_string.induct)
  case (1 g)
  then show ?case
    by (cases "g < 16") (simp_all add: hex_string.simps [of g] hex_digits_val_append)
qed

lemma hex_string_is_hex: "c \<in> set (hex_string g) \<Longrightarrow> is_hex c"
proof (induction g rule: hex_string.induct)
  case (1 g)
  then show ?case
    by (cases "g < 16") (auto simp: hex_string.simps [of g] is_hex_def)
qed

lemma hex_string_nonempty [simp]: "hex_string g \<noteq> []"
  by (subst hex_string.simps) simp

lemma length_hex_string: "g < 16 ^ Suc k \<Longrightarrow> length (hex_string g) \<le> Suc k"
proof (induction k arbitrary: g)
  case 0
  then show ?case by (subst hex_string.simps) simp
next
  case (Suc k)
  then have "length (hex_string (g div 16)) \<le> Suc k" by (intro Suc.IH) auto
  then show ?case by (subst hex_string.simps) simp
qed

lemma sep_not_hex [simp]:
  "\<not> is_hex (CHR '':'')" "\<not> is_hex (CHR ''.'')" "\<not> is_hex (CHR ''%'')" "\<not> is_hex (CHR ''/'')"
  by (simp_all add: is_hex_def hex_val_def)

lemma hex_string_Cons:
  obtains c cs where "hex_string g = c # cs" "is_hex c"
proof -
  obtain c cs where "hex_string g = c # cs" by (cases "hex_string g") auto
  with hex_string_is_hex [of c g] show thesis by (auto intro: that)
qed

lemma take_drop_while_hex:
  "rest = [] \<or> \<not> is_hex (hd rest) \<Longrightarrow> takeWhile is_hex (hex_string g @ rest) = hex_string g"
  "rest = [] \<or> \<not> is_hex (hd rest) \<Longrightarrow> dropWhile is_hex (hex_string g @ rest) = rest"
  using hex_string_is_hex [of _ g]
  by (cases rest; simp add: takeWhile_append dropWhile_append)+

lemma while_hex_string [simp]:
  "takeWhile is_hex (hex_string g) = hex_string g" "dropWhile is_hex (hex_string g) = []"
  using take_drop_while_hex [of "[]" g] by (simp_all only: append_Nil2 simp_thms)

text \<open>One step of the loop on a printed group.\<close>

lemma parse6_loop_last:
  assumes "length acc < 16" "g < 65536"
  shows "parse6_loop acc ell (hex_string g) = Some (acc @ group_bytes g, ell, [])"
  using assms length_hex_string [of g 3]
  by (subst parse6_loop.simps) (simp add: Let_def not_le)

lemma parse6_loop_colon:
  assumes "length acc < 16" "g < 65536" "is_hex c"
  shows "parse6_loop acc ell (hex_string g @ CHR '':'' # c # cs) =
         parse6_loop (acc @ group_bytes g) ell (c # cs)"
proof -
  have "c \<noteq> CHR '':''" using assms(3) by auto
  then show ?thesis
    using assms length_hex_string [of g 3] take_drop_while_hex [of "CHR '':'' # c # cs" g]
    by (subst parse6_loop.simps) (simp add: Let_def not_le)
qed

lemma parse6_loop_ellipsis:
  assumes "length acc < 16" "g < 65536"
  shows "parse6_loop acc None (hex_string g @ CHR '':'' # CHR '':'' # t) =
         (let acc' = acc @ group_bytes g
          in if t = [] then Some (acc', Some (length acc'), [])
             else parse6_loop acc' (Some (length acc')) t)"
  using assms length_hex_string [of g 3] take_drop_while_hex [of "CHR '':'' # CHR '':'' # t" g]
  by (subst parse6_loop.simps) (simp add: Let_def not_le)

lemma length_group_bytes [simp]: "length (group_bytes g) = 2"
  by (simp add: group_bytes_def)

lemma parse6_loop_groups:
  assumes "gs \<noteq> []" "\<forall>g \<in> set gs. g < 65536" "length acc + 2 * length gs \<le> 16"
  shows "parse6_loop acc ell (go_join '':'' (map hex_string gs)) =
         Some (acc @ concat (map group_bytes gs), ell, [])"
  using assms
proof (induction gs arbitrary: acc)
  case (Cons g gs)
  show ?case
  proof (cases gs)
    case Nil
    with Cons.prems show ?thesis by (simp add: parse6_loop_last)
  next
    case (Cons h hs)
    then obtain c cs where c: "go_join '':'' (map hex_string gs) = c # cs" "is_hex c"
      by (cases hs; simp) (metis hex_string_Cons append_Cons)+
    have "go_join '':'' (map hex_string (g # gs)) = hex_string g @ CHR '':'' # c # cs"
      using Cons c(1) by (simp add: go_join_Cons)
    moreover have "parse6_loop (acc @ group_bytes g) ell (c # cs) =
        Some ((acc @ group_bytes g) @ concat (map group_bytes gs), ell, [])"
      using Cons.IH [of "acc @ group_bytes g"] Cons.prems Cons c(1) by simp
    ultimately show ?thesis using Cons.prems c(2) by (simp add: parse6_loop_colon)
  qed
qed simp

lemma parse6_loop_groups_ellipsis:
  assumes "gs \<noteq> []" "\<forall>g \<in> set gs. g < 65536" "length acc + 2 * length gs \<le> 16"
  shows "parse6_loop acc None (go_join '':'' (map hex_string gs) @ CHR '':'' # CHR '':'' # t) =
         (let acc' = acc @ concat (map group_bytes gs)
          in if t = [] then Some (acc', Some (length acc'), [])
             else parse6_loop acc' (Some (length acc')) t)"
  using assms
proof (induction gs arbitrary: acc)
  case (Cons g gs)
  show ?case
  proof (cases gs)
    case Nil
    with Cons.prems show ?thesis by (simp add: parse6_loop_ellipsis)
  next
    case (Cons h hs)
    then obtain c cs where c: "go_join '':'' (map hex_string gs) = c # cs" "is_hex c"
      by (cases hs; simp) (metis hex_string_Cons append_Cons)+
    have "go_join '':'' (map hex_string (g # gs)) @ CHR '':'' # CHR '':'' # t =
        hex_string g @ CHR '':'' # c # cs @ CHR '':'' # CHR '':'' # t"
      using Cons c(1) by (simp add: go_join_Cons)
    then show ?thesis
      using Cons.IH [of "acc @ group_bytes g"] Cons.prems Cons c by (simp add: parse6_loop_colon)
  qed
qed simp

lemma ip_groups_bytes: "even (length bs) \<Longrightarrow> concat (map group_bytes (ip_groups bs)) = bs"
proof (induction bs rule: ip_groups.induct)
  case (1 a b r)
  have "unat b < 256" using unsigned_less [of b, where 'a = nat] by simp
  with 1 show ?case by (simp add: group_bytes_def)
qed auto

lemma length_ip_groups: "length (ip_groups bs) = length bs div 2"
  by (induction bs rule: ip_groups.induct) auto

lemma ip_groups_bound: "g \<in> set (ip_groups bs) \<Longrightarrow> g < 65536"
proof (induction bs rule: ip_groups.induct)
  case (1 a b r)
  have "unat a < 256" "unat b < 256"
    using unsigned_less [of a, where 'a = nat] unsigned_less [of b, where 'a = nat] by simp_all
  with 1 show ?case by auto
qed auto

lemma zero_run_split:
  "i \<le> length gs \<Longrightarrow>
     gs = take i gs @ replicate (zero_run gs i) 0 @ drop (i + zero_run gs i) gs"
proof -
  let ?z = "takeWhile (\<lambda>g. g = 0) (drop i gs)"
  have "?z = replicate (length ?z) 0"
    by (rule replicate_eqI [symmetric, THEN sym]) (auto dest: set_takeWhileD)
  moreover have "drop i gs = ?z @ dropWhile (\<lambda>g. g = 0) (drop i gs)" by simp
  moreover have "dropWhile (\<lambda>g. g = 0) (drop i gs) = drop (i + length ?z) gs"
    by (simp add: dropWhile_eq_drop add.commute)
  ultimately show ?thesis unfolding zero_run_def by (metis append_take_drop_id)
qed

lemma zero_run_le: "i \<le> length gs \<Longrightarrow> i + zero_run gs i \<le> length gs"
  unfolding zero_run_def using length_takeWhile_le [of "\<lambda>g. g = 0" "drop i gs"] by simp

definition zero_run_ok :: "nat list \<Rightarrow> nat \<times> nat \<Rightarrow> bool" where
  "zero_run_ok gs p \<longleftrightarrow>
     p = (255, 255) \<or> (fst p < 8 \<and> snd p = fst p + zero_run gs (fst p) \<and> 2 \<le> zero_run gs (fst p))"

lemma fold_invariant_list:
  "(\<And>x s. x \<in> set xs \<Longrightarrow> P s \<Longrightarrow> P (f x s)) \<Longrightarrow> P s \<Longrightarrow> P (fold f xs s)"
  by (induction xs arbitrary: s) auto

lemma longest_zero_run_ok: "zero_run_ok gs (longest_zero_run gs)"
  unfolding longest_zero_run_def
  by (rule fold_invariant_list) (auto simp: zero_run_ok_def Let_def split: if_splits)

lemma concat_replicate_group_zero:
  "concat (replicate n (group_bytes 0)) = replicate (2 * n) 0"
  by (induction n) (auto simp: group_bytes_def)

lemma hex_groups_chars:
  "c \<in> set (go_join '':'' (map hex_string gs)) \<Longrightarrow> is_hex c \<or> c = CHR '':''"
proof (induction gs)
  case (Cons g gs)
  then show ?case
    by (cases gs) (auto simp: go_join_Cons dest: hex_string_is_hex)
qed simp

lemma hex_groups_hd:
  assumes "gs \<noteq> []"
  obtains c cs where "go_join '':'' (map hex_string gs) = c # cs" "is_hex c"
proof (cases gs)
  case (Cons g hs)
  obtain c cs where "hex_string g = c # cs" "is_hex c" by (rule hex_string_Cons)
  with Cons show thesis
    by (cases hs) (auto intro: that)
qed (use assms in simp)

lemma parse_ipv6_plain:
  assumes "length gs = 8" "\<forall>g \<in> set gs. g < 65536"
  shows "parse_ipv6 (go_join '':'' (map hex_string gs)) = Some (concat (map group_bytes gs))"
proof -
  let ?s = "go_join '':'' (map hex_string gs)"
  have ne: "gs \<noteq> []" using assms(1) by auto
  obtain c cs where c: "?s = c # cs" "is_hex c" using hex_groups_hd [OF ne] .
  have "CHR ''%'' \<notin> set ?s" using hex_groups_chars [of "CHR ''%''" gs] by auto
  moreover have "c \<noteq> CHR '':''" using c(2) by auto
  moreover have "length (concat (map group_bytes gs)) = 16"
    using assms(1) by (simp add: length_concat comp_def sum_list_triv)
  ultimately show ?thesis
    using parse6_loop_groups [OF ne assms(2), of "[]" None] assms(1) c(1)
    by (auto simp: parse_ipv6_def Let_def)
qed

text \<open>Two or more zero groups are elided between \<open>pre\<close> and \<open>post\<close>.\<close>

lemma parse_ipv6_elided:
  assumes "length pre + length post \<le> 6" "\<forall>g \<in> set (pre @ post). g < 65536"
  shows "parse_ipv6 (go_join '':'' (map hex_string pre) @ ''::'' @ go_join '':'' (map hex_string post))
       = Some (concat (map group_bytes pre) @ replicate (16 - 2 * (length pre + length post)) 0
               @ concat (map group_bytes post))" (is "parse_ipv6 ?s = _")
proof -
  let ?p = "concat (map group_bytes pre)" and ?q = "concat (map group_bytes post)"
  have len [simp]: "length ?p = 2 * length pre" "length ?q = 2 * length post"
    by (simp_all add: length_concat comp_def sum_list_triv)
  have pct: "CHR ''%'' \<notin> set ?s"
    using hex_groups_chars [of "CHR ''%''" pre] hex_groups_chars [of "CHR ''%''" post] by auto
  have post_loop: "post \<noteq> [] \<Longrightarrow> parse6_loop ?p ell (go_join '':'' (map hex_string post)) =
      Some (?p @ ?q, ell, [])" for ell
    using assms by (intro parse6_loop_groups) auto
  have post_empty: "go_join '':'' (map hex_string post) = [] \<longleftrightarrow> post = []"
  proof (cases "post = []")
    case False
    then obtain c cs where "go_join '':'' (map hex_string post) = c # cs" by (rule hex_groups_hd)
    with False show ?thesis by simp
  qed simp
  show ?thesis
  proof (cases "pre = []")
    case True
    then show ?thesis
      using pct post_loop [of "Some 0"] assms post_empty by (cases "post = []") (auto simp: parse_ipv6_def)
  next
    case False
    then obtain c cs where c: "go_join '':'' (map hex_string pre) = c # cs" "is_hex c"
      using hex_groups_hd by blast
    have "c \<noteq> CHR '':''" using c(2) by auto
    moreover have "parse6_loop [] None ?s = Some (?p @ ?q, Some (length ?p), [])"
      using parse6_loop_groups_ellipsis [OF False, of "[]" "go_join '':'' (map hex_string post)"]
        assms post_loop [of "Some (length ?p)"] post_empty
      by (cases "post = []") (auto simp: Let_def)
    ultimately show ?thesis
      using pct c(1) assms by (auto simp: parse_ipv6_def Let_def)
  qed
qed

lemma parse_ipv6_string:
  assumes "length bs = 16" shows "parse_ipv6 (ipv6_string bs) = Some bs"
proof -
  define gs where "gs = ip_groups bs"
  have gs: "length gs = 8" "\<forall>g \<in> set gs. g < 65536" "concat (map group_bytes gs) = bs"
    using assms ip_groups_bytes [of bs] ip_groups_bound
    by (auto simp: gs_def length_ip_groups)
  obtain zs ze where z: "longest_zero_run gs = (zs, ze)" by fastforce
  show ?thesis
  proof (cases "zs = 255")
    case True
    with z gs show ?thesis
      by (simp add: ipv6_string_def Let_def parse_ipv6_plain flip: gs_def)
  next
    case False
    with longest_zero_run_ok [of gs] z have zz: "zs < 8" "ze = zs + zero_run gs zs" "2 \<le> zero_run gs zs"
      by (auto simp: zero_run_ok_def)
    have le: "ze \<le> 8" using zero_run_le [of zs gs] zz gs(1) by simp
    have split: "gs = take zs gs @ replicate (ze - zs) 0 @ drop ze gs"
      using zero_run_split [of zs gs] zz gs(1) by simp
    have "bs = concat (map group_bytes (take zs gs @ replicate (ze - zs) 0 @ drop ze gs))"
      using gs(3) split by simp
    also have "\<dots> = concat (map group_bytes (take zs gs)) @ replicate (2 * (ze - zs)) 0 @
        concat (map group_bytes (drop ze gs))"
      by (simp add: concat_replicate_group_zero)
    finally have bs: "bs = concat (map group_bytes (take zs gs)) @ replicate (2 * (ze - zs)) 0 @
        concat (map group_bytes (drop ze gs))" .
    have "16 - 2 * (length (take zs gs) + length (drop ze gs)) = 2 * (ze - zs)"
      using zz le gs(1) by simp
    moreover have "\<forall>g \<in> set (take zs gs @ drop ze gs). g < 65536"
      using gs(2) by (auto dest: in_set_takeD in_set_dropD)
    moreover have "length (take zs gs) + length (drop ze gs) \<le> 6"
      using zz le gs(1) by simp
    ultimately have "parse_ipv6 (go_join '':'' (map hex_string (take zs gs)) @ ''::'' @
        go_join '':'' (map hex_string (drop ze gs))) = Some bs"
      using parse_ipv6_elided [of "take zs gs" "drop ze gs"] bs by (metis (no_types, lifting))
    with z False show ?thesis by (simp add: ipv6_string_def Let_def flip: gs_def)
  qed
qed

lemma ipv6_string_Cons:
  assumes "length bs = 16"
  obtains a t where "ipv6_string bs = a @ CHR '':'' # t" "\<forall>c \<in> set a. is_hex c"
    "CHR ''%'' \<notin> set (ipv6_string bs)" "CHR ''/'' \<notin> set (ipv6_string bs)"
proof -
  define gs where "gs = ip_groups bs"
  have len: "length gs = 8" using assms by (simp add: gs_def length_ip_groups)
  obtain zs ze where z: "longest_zero_run gs = (zs, ze)" by fastforce
  have chars: "c \<in> set (ipv6_string bs) \<Longrightarrow> is_hex c \<or> c = CHR '':''" for c
    using z hex_groups_chars by (auto simp: ipv6_string_def Let_def gs_def split: if_splits)
  have "CHR '':'' \<in> set (ipv6_string bs)"
  proof (cases "zs = 255")
    case True
    then have "ipv6_string bs = go_join '':'' (map hex_string gs)"
      using z by (simp add: ipv6_string_def gs_def Let_def)
    moreover from len obtain g h hs where "gs = g # h # hs"
      by (cases gs; cases "tl gs") auto
    ultimately show ?thesis by simp
  next
    case False
    with z show ?thesis by (simp add: ipv6_string_def gs_def Let_def)
  qed
  then obtain a t where "ipv6_string bs = a @ CHR '':'' # t" "CHR '':'' \<notin> set a"
    by (meson split_list_first)
  moreover from this have "\<forall>c \<in> set a. is_hex c" using chars by auto
  moreover have "CHR ''%'' \<notin> set (ipv6_string bs)" "CHR ''/'' \<notin> set (ipv6_string bs)"
    using chars by fastforce+
  ultimately show thesis by (blast intro: that)
qed

lemma ParseAddr_ipv6:
  assumes "length bs = 16" shows "ParseAddr (ipv6_string bs) = Some (Addr6 bs)"
proof -
  obtain a t where t: "ipv6_string bs = a @ CHR '':'' # t" "\<forall>c \<in> set a. is_hex c"
    using ipv6_string_Cons [OF assms] by metis
  have "dropWhile (\<lambda>c. c \<noteq> CHR ''.'' \<and> c \<noteq> CHR '':'' \<and> c \<noteq> CHR ''%'') (ipv6_string bs) =
        CHR '':'' # t"
    unfolding t(1) using t(2) by (intro dropWhile_prefix_Cons) auto
  with parse_ipv6_string [OF assms] show ?thesis by (simp add: ParseAddr_def)
qed

section \<open>Canonical networks\<close>

text \<open>
  A canonical network: an IPv4 network, or an IPv6 network that is not IPv4-mapped, with all
  host bits clear. \<open>net_ones\<close> is its prefix length, \<open>net_prefix\<close> the bit prefix it denotes.
\<close>

definition net_ones :: "IPNet \<Rightarrow> nat" where
  "net_ones n = fst (Mask_Size (net_Mask n))"

definition net_prefix :: "IPNet \<Rightarrow> bool \<times> bool list" where
  "net_prefix n = (length (net_IP n) = 16, take (net_ones n) (bytes_bits (net_IP n)))"

definition canon_net :: "IPNet \<Rightarrow> bool" where
  "canon_net n \<longleftrightarrow>
     (length (net_IP n) = 4 \<or> length (net_IP n) = 16 \<and> To4 (net_IP n) = []) \<and>
     net_ones n \<le> 8 * length (net_IP n) \<and>
     net_Mask n = mask_bytes (length (net_IP n)) (net_ones n) \<and>
     bytes_bits (net_IP n) =
       take (net_ones n) (bytes_bits (net_IP n)) @
       replicate (8 * length (net_IP n) - net_ones n) False"

text \<open>The family and bits of an address after Go's normalisation of IPv4-mapped addresses.\<close>

definition norm_ip :: "ip \<Rightarrow> ip" where
  "norm_ip a = (if To4 a = [] then a else To4 a)"

lemma length_v4InV6Prefix [simp]: "length v4InV6Prefix = 12"
  by (simp add: v4InV6Prefix_def)

lemma length_To4 [simp]: "To4 a \<noteq> [] \<Longrightarrow> length (To4 a) = 4"
  by (auto simp: To4_def split: if_splits)

lemma networkNumberAndMask_canon [simp]:
  "canon_net n \<Longrightarrow> networkNumberAndMask n = Some (net_IP n, net_Mask n)"
  by (auto simp: canon_net_def networkNumberAndMask_def Let_def To4_def dest: arg_cong [where f = length])

lemma length_net_prefix: "canon_net n \<Longrightarrow> length (snd (net_prefix n)) = net_ones n"
  by (auto simp: canon_net_def net_prefix_def)

lemma canon_net_inject:
  assumes "canon_net m" "canon_net n" "net_prefix m = net_prefix n"
  shows "m = n"
proof -
  have "length (net_IP m) = length (net_IP n)"
    using assms by (auto simp: canon_net_def net_prefix_def)
  moreover have "net_ones m = net_ones n"
    using length_net_prefix assms by metis
  ultimately have "bytes_bits (net_IP m) = bytes_bits (net_IP n)" "net_Mask m = net_Mask n"
    using assms unfolding canon_net_def net_prefix_def by (metis snd_conv)+
  then show ?thesis by (simp add: IPNet.equality)
qed

theorem canon_net_contains:
  assumes "canon_net n"
  shows "IPNet_Contains n a \<longleftrightarrow>
         length (norm_ip a) = length (net_IP n) \<and>
         prefix (snd (net_prefix n)) (bytes_bits (norm_ip a))"
proof (cases "length (norm_ip a) = length (net_IP n)")
  case True
  let ?l = "length (net_IP n)"
  have ones: "net_ones n \<le> 8 * ?l" and m: "net_Mask n = mask_bytes ?l (net_ones n)"
    using assms by (auto simp: canon_net_def)
  have "IPNet_Contains n a \<longleftrightarrow>
        map2 (AND) (net_IP n) (net_Mask n) = map2 (AND) (norm_ip a) (net_Mask n)"
    using assms True by (simp add: IPNet_Contains_def norm_ip_def Let_def)
  also have "\<dots> \<longleftrightarrow> take (net_ones n) (bytes_bits (net_IP n)) = take (net_ones n) (bytes_bits (norm_ip a))"
    unfolding m using True ones by (intro mask_eq_iff_take_bits) auto
  also have "\<dots> \<longleftrightarrow> prefix (snd (net_prefix n)) (bytes_bits (norm_ip a))"
    using True ones by (auto simp: net_prefix_def prefix_def take_is_prefix
        intro: exI [of _ "drop (net_ones n) (bytes_bits (norm_ip a))"])
  finally show ?thesis using True by simp
next
  case False
  with assms show ?thesis by (simp add: IPNet_Contains_def norm_ip_def Let_def)
qed

section \<open>Parsing and canonical printing are inverse\<close>

lemma those_length: "those xs = Some ys \<Longrightarrow> length ys = length xs"
  by (induction xs arbitrary: ys) (auto split: option.splits)

lemma parse_ipv4_length: "parse_ipv4_fields s = Some bs \<Longrightarrow> length bs = 4"
  by (auto simp: parse_ipv4_fields_def Let_def dest: those_length split: if_splits)

lemma parse6_loop_length:
  "parse6_loop acc ell s = Some (bs, e, r) \<Longrightarrow> even (length acc) \<Longrightarrow> length acc \<le> 16 \<Longrightarrow>
     length bs \<le> 16"
proof (induction acc ell s rule: parse6_loop.induct)
  case (1 acc ell s)
  show ?case
  proof (cases "16 \<le> length acc")
    case True
    with "1.prems" show ?thesis by (simp add: parse6_loop.simps [of acc ell s])
  next
    case False
    with "1.prems" have "length acc + 2 \<le> 16" by presburger
    with False 1 show ?thesis
      by (auto simp: parse6_loop.simps [of acc ell s] Let_def dest!: parse_ipv4_length
          split: if_splits list.splits option.splits)
  qed
qed

lemma parse_ipv6_length: "parse_ipv6 s = Some bs \<Longrightarrow> length bs = 16"
  by (auto simp: parse_ipv6_def Let_def dest: parse6_loop_length split: if_splits option.splits prod.splits)

lemma map2_mask_id:
  assumes "n \<le> 8 * length a"
    and "bytes_bits a = take n (bytes_bits a) @ replicate (8 * length a - n) False"
  shows "map2 (AND) a (mask_bytes (length a) n) = a"
  using mask_bits [OF assms(1)] assms(2) by (metis bytes_bits_inject)

lemma parse_prefix_len_nat_string [simp]: "parse_prefix_len (nat_string k) = Some k"
  by (simp add: parse_prefix_len_def)

lemma ipv4_string_no_slash: "length bs = 4 \<Longrightarrow> CHR ''/'' \<notin> set (ipv4_string bs)"
  by (auto simp: ipv4_string_def length_Suc_conv numeral_eq_Suc nat_string_not_in)

theorem ParseCIDR_IPNet_String:
  assumes "canon_net n"
  shows "ParseCIDR (IPNet_String n) = Some (To16 (net_IP n), n)"
proof -
  let ?a = "net_IP n" and ?k = "net_ones n"
  have m: "net_Mask n = mask_bytes (length ?a) ?k" and k: "?k \<le> 8 * length ?a"
    and b: "bytes_bits ?a = take ?k (bytes_bits ?a) @ replicate (8 * length ?a - ?k) False"
    using assms by (auto simp: canon_net_def)
  have str: "IPNet_String n = IP_String ?a @ CHR ''/'' # nat_string ?k"
    using assms m k by (simp add: IPNet_String_def)
  have id: "map2 (AND) ?a (mask_bytes (length ?a) ?k) = ?a" using k b by (rule map2_mask_id)
  consider "length ?a = 4" | "length ?a = 16" "To4 ?a = []"
    using assms by (auto simp: canon_net_def)
  then show ?thesis
  proof cases
    case 1
    then have "IP_String ?a = ipv4_string ?a" by (auto simp: IP_String_def To4_def)
    then show ?thesis
      using 1 k m id str
      by (simp add: ParseCIDR_def go_cut_append ipv4_string_no_slash CIDRMask_def IP_Mask_def
          Let_def To16_def)
  next
    case 2
    then have "IP_String ?a = ipv6_string ?a" by (auto simp: IP_String_def)
    moreover have "CHR ''/'' \<notin> set (ipv6_string ?a)" using ipv6_string_Cons [OF 2(1)] by metis
    ultimately show ?thesis
      using 2 k m id str ParseAddr_ipv6 [OF 2(1)]
      by (simp add: ParseCIDR_def go_cut_append CIDRMask_def IP_Mask_def Let_def To16_def)
  qed
qed

text \<open>The canonical form of a parsed network: IPv4-mapped networks become IPv4 networks.\<close>

definition canon_of :: "IPNet \<Rightarrow> IPNet" where
  "canon_of n =
     (case networkNumberAndMask n of
        None \<Rightarrow> n | Some (nn, m) \<Rightarrow> \<lparr>net_IP = nn, net_Mask = m\<rparr>)"

lemma net_ones_mask [simp]:
  "k \<le> 8 * l \<Longrightarrow> net_ones \<lparr>net_IP = a, net_Mask = mask_bytes l k\<rparr> = k"
  by (simp add: net_ones_def Mask_Size_def)

lemma canon_netI:
  assumes "length a = 4 \<or> length a = 16 \<and> To4 a = []" "k \<le> 8 * length a" "length b = length a"
    and "a = map2 (AND) b (mask_bytes (length a) k)"
  shows "canon_net \<lparr>net_IP = a, net_Mask = mask_bytes (length a) k\<rparr>"
proof -
  have "bytes_bits a = take k (bytes_bits b) @ replicate (8 * length a - k) False"
    using mask_bits [of k b] assms by (metis)
  then show ?thesis using assms by (auto simp: canon_net_def)
qed

lemma drop_mask_bytes:
  "8 * j \<le> n \<Longrightarrow> drop j (mask_bytes (j + l) n) = mask_bytes l (n - 8 * j)"
  by (induction j arbitrary: n) auto

lemma mapped_mask_length:
  assumes "length b = 16" "k \<le> 128"
    and "take 12 (map2 (AND) b (mask_bytes 16 k)) = v4InV6Prefix"
  shows "96 \<le> k"
proof (rule ccontr)
  let ?a = "map2 (AND) b (mask_bytes 16 k)"
  assume "\<not> 96 \<le> k"
  moreover have "bytes_bits ?a = take k (bytes_bits b) @ replicate (128 - k) False"
    using mask_bits [of k b] assms by simp
  ultimately have "\<not> bytes_bits ?a ! 95"
    using assms by (simp add: nth_append)
  moreover have "?a ! 11 = v4InV6Prefix ! 11"
    using arg_cong [where f = "\<lambda>xs. xs ! 11", OF assms(3)] by (simp del: nth_map nth_zip)
  ultimately show False
    using assms by (simp add: nth_bytes_bits v4InV6Prefix_def)
qed

theorem canon_net_of_parse:
  assumes "ParseCIDR s = Some (a, n)"
  shows "canon_net (canon_of n)" and "networkNumberAndMask (canon_of n) = networkNumberAndMask n"
proof -
  obtain ad m t k where ad: "go_cut (CHR ''/'') s = Some (t, m)" "ParseAddr t = Some ad"
      "parse_prefix_len m = Some k" "k \<le> BitLen ad"
    and n: "n = \<lparr>net_IP = IP_Mask (As16 ad) (CIDRMask k (BitLen ad)), net_Mask = CIDRMask k (BitLen ad)\<rparr>"
    using assms by (auto simp: ParseCIDR_def Let_def not_less split: option.splits if_splits)
  have "canon_net (canon_of n) \<and> networkNumberAndMask (canon_of n) = networkNumberAndMask n"
  proof (cases ad)
    case (Addr4 b)
    then have b: "length b = 4"
      using ad(2) by (auto simp: ParseAddr_def dest: parse_ipv4_length split: list.splits if_splits)
    then have "n = \<lparr>net_IP = map2 (AND) b (mask_bytes 4 k), net_Mask = mask_bytes 4 k\<rparr>"
      using n Addr4 by (simp add: IP_Mask_def CIDRMask_def Let_def)
    moreover have "canon_net \<lparr>net_IP = map2 (AND) b (mask_bytes 4 k), net_Mask = mask_bytes 4 k\<rparr>"
      using canon_netI [of "map2 (AND) b (mask_bytes 4 k)" k b] b ad(4) Addr4 by simp
    ultimately show ?thesis by (simp add: canon_of_def)
  next
    case (Addr6 b)
    let ?a = "map2 (AND) b (mask_bytes 16 k)"
    have b: "length b = 16"
      using ad(2) Addr6 by (auto simp: ParseAddr_def dest: parse_ipv6_length split: list.splits if_splits)
    then have n': "n = \<lparr>net_IP = ?a, net_Mask = mask_bytes 16 k\<rparr>"
      using n Addr6 by (simp add: IP_Mask_def CIDRMask_def Let_def)
    have k: "k \<le> 128" using ad(4) Addr6 by simp
    show ?thesis
    proof (cases "To4 ?a = []")
      case True
      then have "canon_net n"
        using canon_netI [of ?a k b] b k n' by simp
      then show ?thesis using n' by (simp add: canon_of_def)
    next
      case False
      then have t4: "take 12 ?a = v4InV6Prefix" "To4 ?a = drop 12 ?a"
        using b by (auto simp: To4_def split: if_splits)
      have k96: "96 \<le> k" using mapped_mask_length [OF b k t4(1)] .
      have m12: "drop 12 (mask_bytes 16 k) = mask_bytes 4 (k - 96)"
        using drop_mask_bytes [of 12 k 4] k96 by simp
      have "drop 12 ?a = map2 (AND) (drop 12 b) (mask_bytes 4 (k - 96))"
        by (simp add: drop_map drop_zip m12)
      then have c: "canon_net \<lparr>net_IP = drop 12 ?a, net_Mask = mask_bytes 4 (k - 96)\<rparr>"
        using canon_netI [of "drop 12 ?a" "k - 96" "drop 12 b"] b k by simp
      have "networkNumberAndMask n = Some (drop 12 ?a, mask_bytes 4 (k - 96))"
        using False t4 b n' m12 by (simp add: networkNumberAndMask_def Let_def)
      with c show ?thesis by (simp add: canon_of_def)
    qed
  qed
  then show "canon_net (canon_of n)" and "networkNumberAndMask (canon_of n) = networkNumberAndMask n"
    by auto
qed

lemma canon_of_parse_eqs:
  assumes "ParseCIDR s = Some (a, n)"
  shows "IPNet_String (canon_of n) = IPNet_String n"
    and "IPNet_Contains (canon_of n) x = IPNet_Contains n x"
  using canon_net_of_parse(2) [OF assms] by (simp_all add: IPNet_String_def IPNet_Contains_def)

lemma canon_of_canon [simp]: "canon_net n \<Longrightarrow> canon_of n = n"
  by (simp add: canon_of_def)

text \<open>Printing a parsed network and parsing it again gives its canonical form.\<close>

theorem ParseCIDR_String_parse:
  assumes "ParseCIDR s = Some (a, n)"
  shows "ParseCIDR (IPNet_String n) = Some (To16 (net_IP (canon_of n)), canon_of n)"
  using ParseCIDR_IPNet_String [OF canon_net_of_parse(1) [OF assms]] canon_of_parse_eqs [OF assms]
  by simp

end
