(* ===== verification/Utils.thy ===== *)
theory Utils
  imports Api GoNet
begin

text \<open>
  \<^verbatim>\<open>pkg/utils/utils.go\<close>: protocol numbers, enforcing modes, pod identifiers and pin paths,
  the keys and values of the eBPF maps and the conntrack key formats.
\<close>

section \<open>Constants and enumerations\<close>

definition TCP_PROTOCOL_NUMBER :: int where "TCP_PROTOCOL_NUMBER = 6"
definition UDP_PROTOCOL_NUMBER :: int where "UDP_PROTOCOL_NUMBER = 17"
definition SCTP_PROTOCOL_NUMBER :: int where "SCTP_PROTOCOL_NUMBER = 132"
definition ICMP_PROTOCOL_NUMBER :: int where "ICMP_PROTOCOL_NUMBER = 1"
definition RESERVED_IP_PROTOCOL_NUMBER :: int where "RESERVED_IP_PROTOCOL_NUMBER = 255"
definition ANY_IP_PROTOCOL :: int where "ANY_IP_PROTOCOL = 254"
definition TRIE_KEY_LENGTH :: nat where "TRIE_KEY_LENGTH = 8"
definition TRIE_V6_KEY_LENGTH :: nat where "TRIE_V6_KEY_LENGTH = 20"
definition TRIE_VALUE_LENGTH :: nat where "TRIE_VALUE_LENGTH = 288"
definition ADMIN_TRIE_VALUE_LENGTH :: nat where "ADMIN_TRIE_VALUE_LENGTH = 384"
definition CATCH_ALL_PROTOCOL :: string where "CATCH_ALL_PROTOCOL = ''ANY_IP_PROTOCOL''"
definition DENY_ALL_PROTOCOL :: string where "DENY_ALL_PROTOCOL = ''RESERVED_IP_PROTOCOL_NUMBER''"

text \<open>The protocol names of \<^verbatim>\<open>k8s.io/api/core/v1\<close>.\<close>

definition ProtocolTCP :: string where "ProtocolTCP = ''TCP''"
definition ProtocolUDP :: string where "ProtocolUDP = ''UDP''"
definition ProtocolSCTP :: string where "ProtocolSCTP = ''SCTP''"

lemmas protocol_defs = TCP_PROTOCOL_NUMBER_def UDP_PROTOCOL_NUMBER_def SCTP_PROTOCOL_NUMBER_def
  ICMP_PROTOCOL_NUMBER_def RESERVED_IP_PROTOCOL_NUMBER_def ANY_IP_PROTOCOL_def
  CATCH_ALL_PROTOCOL_def DENY_ALL_PROTOCOL_def ProtocolTCP_def ProtocolUDP_def ProtocolSCTP_def

lemmas length_defs = TRIE_KEY_LENGTH_def TRIE_V6_KEY_LENGTH_def TRIE_VALUE_LENGTH_def
  ADMIN_TRIE_VALUE_LENGTH_def

record L4Rule =
  l4_Info :: Port
  l4_Action :: RuleAction
  l4_Priority :: int

definition Strict :: string where "Strict = ''strict''"
definition Standard :: string where "Standard = ''standard''"

definition IsValidNetworkPolicyEnforcingMode :: "string \<Rightarrow> bool" where
  "IsValidNetworkPolicyEnforcingMode input =
     (let s = go_to_lower input in s = Strict \<or> s = Standard)"

definition IsStrictMode :: "string \<Rightarrow> bool" where
  "IsStrictMode input = (go_to_lower input = Strict)"

definition IsStandardMode :: "string \<Rightarrow> bool" where
  "IsStandardMode input = (go_to_lower input = Standard)"

definition GetProtocol :: "int \<Rightarrow> string" where
  "GetProtocol protocolNum =
     (if protocolNum = TCP_PROTOCOL_NUMBER then ''TCP''
      else if protocolNum = UDP_PROTOCOL_NUMBER then ''UDP''
      else if protocolNum = SCTP_PROTOCOL_NUMBER then ''SCTP''
      else if protocolNum = ICMP_PROTOCOL_NUMBER then ''ICMP''
      else if protocolNum = RESERVED_IP_PROTOCOL_NUMBER then ''RESERVED''
      else if protocolNum = ANY_IP_PROTOCOL then ''ANY PROTOCOL''
      else ''UNKNOWN'')"

datatype VerdictType = DENY | ACCEPT | EXPIRED_DELETED

fun VerdictType_Index :: "VerdictType \<Rightarrow> int" where
  "VerdictType_Index DENY = 0"
| "VerdictType_Index ACCEPT = 1"
| "VerdictType_Index EXPIRED_DELETED = 2"

datatype CPActionType = ActionDeny | ActionAccept | ActionPass

fun CPActionType_Index :: "CPActionType \<Rightarrow> int" where
  "CPActionType_Index ActionDeny = 0"
| "CPActionType_Index ActionAccept = 1"
| "CPActionType_Index ActionPass = 2"

datatype PolicyTier = ERROR_TIER | ADMIN_TIER | NETWORK_POLICY_TIER | BASELINE_TIER | DEFAULT_TIER

fun Tier_Index :: "PolicyTier \<Rightarrow> int" where
  "Tier_Index ERROR_TIER = 0"
| "Tier_Index ADMIN_TIER = 1"
| "Tier_Index NETWORK_POLICY_TIER = 2"
| "Tier_Index BASELINE_TIER = 3"
| "Tier_Index DEFAULT_TIER = 4"

section \<open>Pod identifiers and pin paths\<close>

definition GetPodNamespacedName :: "string \<Rightarrow> string \<Rightarrow> string" where
  "GetPodNamespacedName podName podNamespace = podName @ ''_'' @ podNamespace"

text \<open>The part of a pod name shared by the replicas of one workload.\<close>

definition podIdentifierPrefix :: "string \<Rightarrow> string" where
  "podIdentifierPrefix podName =
     (let name = (if CHR ''.'' \<in> set podName then go_replace (CHR ''.'') (CHR ''_'') podName
                  else podName)
      in if CHR ''-'' \<in> set name
         then go_join ''-'' (butlast (go_split (CHR ''-'') name)) else name)"

definition GetPodIdentifier :: "string \<Rightarrow> string \<Rightarrow> string" where
  "GetPodIdentifier podName podNamespace = podIdentifierPrefix podName @ ''@'' @ podNamespace"

definition LegacyGetPodIdentifier :: "string \<Rightarrow> string \<Rightarrow> string" where
  "LegacyGetPodIdentifier podName podNamespace =
     podIdentifierPrefix podName @ ''-'' @ podNamespace"

definition BPF_PROGRAMS_PIN_PATH_DIRECTORY :: string where
  "BPF_PROGRAMS_PIN_PATH_DIRECTORY = ''/sys/fs/bpf/globals/aws/programs/''"
definition BPF_MAPS_PIN_PATH_DIRECTORY :: string where
  "BPF_MAPS_PIN_PATH_DIRECTORY = ''/sys/fs/bpf/globals/aws/maps/''"
definition TC_INGRESS_PROG :: string where "TC_INGRESS_PROG = ''handle_ingress''"
definition TC_EGRESS_PROG :: string where "TC_EGRESS_PROG = ''handle_egress''"
definition TC_INGRESS_MAP :: string where "TC_INGRESS_MAP = ''ingress_map''"
definition TC_EGRESS_MAP :: string where "TC_EGRESS_MAP = ''egress_map''"
definition TC_CLUSTER_POLICY_INGRESS_MAP :: string where
  "TC_CLUSTER_POLICY_INGRESS_MAP = ''cp_ingress_map''"
definition TC_CLUSTER_POLICY_EGRESS_MAP :: string where
  "TC_CLUSTER_POLICY_EGRESS_MAP = ''cp_egress_map''"
definition TC_INGRESS_POD_STATE_MAP :: string where
  "TC_INGRESS_POD_STATE_MAP = ''ingress_pod_state_map''"
definition TC_EGRESS_POD_STATE_MAP :: string where
  "TC_EGRESS_POD_STATE_MAP = ''egress_pod_state_map''"

lemmas name_defs = BPF_PROGRAMS_PIN_PATH_DIRECTORY_def BPF_MAPS_PIN_PATH_DIRECTORY_def
  TC_INGRESS_PROG_def TC_EGRESS_PROG_def TC_INGRESS_MAP_def TC_EGRESS_MAP_def
  TC_CLUSTER_POLICY_INGRESS_MAP_def TC_CLUSTER_POLICY_EGRESS_MAP_def
  TC_INGRESS_POD_STATE_MAP_def TC_EGRESS_POD_STATE_MAP_def

text \<open>Indexing \<^verbatim>\<open>pinPathName[7]\<close> and the slice \<^verbatim>\<open>parts[:len(parts)-2]\<close> panic out of range.\<close>

definition GetPodIdentifierFromBPFPinPath :: "string \<Rightarrow> go_panic + string \<times> string" where
  "GetPodIdentifierFromBPFPinPath pinPath =
     (let pinPathName = go_split (CHR ''/'') pinPath
      in if length pinPathName \<le> 7 then Inl IndexOutOfRange
         else
           let parts = go_split (CHR ''_'') (pinPathName ! 7)
           in if length parts < 2 then Inl IndexOutOfRange
              else Inr (go_join ''_'' (take (length parts - 2) parts), last parts))"

definition GetBPFPinPathFromPodIdentifier :: "string \<Rightarrow> string \<Rightarrow> string" where
  "GetBPFPinPathFromPodIdentifier podIdentifier direction =
     BPF_PROGRAMS_PIN_PATH_DIRECTORY @ podIdentifier @ ''_'' @
     (if direction = ''egress'' then TC_EGRESS_PROG else TC_INGRESS_PROG)"

definition GetBPFMapPinPathFromPodIdentifier :: "string \<Rightarrow> string \<Rightarrow> string \<times> string" where
  "GetBPFMapPinPathFromPodIdentifier podIdentifier direction =
     (let (mapName, clusterPolicyMapName) =
            (if direction = ''egress'' then (TC_EGRESS_MAP, TC_CLUSTER_POLICY_EGRESS_MAP)
             else (TC_INGRESS_MAP, TC_CLUSTER_POLICY_INGRESS_MAP))
      in (BPF_MAPS_PIN_PATH_DIRECTORY @ podIdentifier @ ''_'' @ mapName,
          BPF_MAPS_PIN_PATH_DIRECTORY @ podIdentifier @ ''_'' @ clusterPolicyMapName))"

definition GetPodStateBPFMapPinPathFromPodIdentifier :: "string \<Rightarrow> string \<Rightarrow> string" where
  "GetPodStateBPFMapPinPathFromPodIdentifier podIdentifier direction =
     BPF_MAPS_PIN_PATH_DIRECTORY @ podIdentifier @ ''_'' @
     (if direction = ''egress'' then TC_EGRESS_POD_STATE_MAP else TC_INGRESS_POD_STATE_MAP)"

definition GetPolicyEndpointIdentifier :: "string \<Rightarrow> string \<Rightarrow> string" where
  "GetPolicyEndpointIdentifier policyEndpointName policyNamespace =
     policyEndpointName @ policyNamespace"

text \<open>\<^verbatim>\<open>s[0:strings.LastIndex(s, "-")]\<close> panics when there is no dash.\<close>

definition GetParentNPNameFromPEName :: "string \<Rightarrow> go_panic + string" where
  "GetParentNPNameFromPEName policyEndpointName =
     (case go_last_index (CHR ''-'') policyEndpointName of
        None \<Rightarrow> Inl IndexOutOfRange
      | Some i \<Rightarrow> Inr (take i policyEndpointName))"

section \<open>Keys and values of the policy maps\<close>

definition ComputeTrieKey :: "IPNet \<Rightarrow> bool \<Rightarrow> byte list" where
  "ComputeTrieKey n isIPv6Enabled =
     (let prefixLen = fst (Mask_Size (net_Mask n));
          len = (if isIPv6Enabled then TRIE_V6_KEY_LENGTH else TRIE_KEY_LENGTH);
          key = put_at 0 (put_le32 (of_nat prefixLen)) (replicate len 0)
      in put_at 4 (take (len - 4) (net_IP n)) key)"

text \<open>
  The loop that writes fixed-width entries into a value buffer and returns early once the
  buffer is full.
\<close>

fun fill_entries :: "nat \<Rightarrow> ('a \<Rightarrow> byte list) \<Rightarrow> 'a list \<Rightarrow> nat \<Rightarrow> byte list \<Rightarrow> byte list" where
  "fill_entries limit enc [] startOffset value = value"
| "fill_entries limit enc (e # es) startOffset value =
     (if limit \<le> startOffset then value
      else fill_entries limit enc es (startOffset + length (enc e)) (put_at startOffset (enc e) value))"

definition go_uint32 :: "int \<Rightarrow> u32" where
  "go_uint32 i = word_of_int i"

definition port_or_zero :: "int32 option \<Rightarrow> int" where
  "port_or_zero p = (case p of None \<Rightarrow> 0 | Some w \<Rightarrow> sint w)"

definition IsL4RuleEmpty :: "L4Rule \<Rightarrow> bool" where
  "IsL4RuleEmpty p \<longleftrightarrow>
     port_Protocol (l4_Info p) = None \<and> port_Port (l4_Info p) = None \<and>
     port_EndPort (l4_Info p) = None"

definition deriveActionValueForCPE :: "RuleAction \<Rightarrow> int" where
  "deriveActionValueForCPE action =
     (if action = ActionDenyName then CPActionType_Index ActionDeny
      else if action = ActionAcceptName then CPActionType_Index ActionAccept
      else if action = ActionPassName then CPActionType_Index ActionPass
      else CPActionType_Index ActionPass)"

definition deriveProtocolValueForCPE :: "Port \<Rightarrow> int" where
  "deriveProtocolValueForCPE l4Info =
     (case ptr_val (port_Protocol l4Info) of
        None \<Rightarrow> TCP_PROTOCOL_NUMBER
      | Some p \<Rightarrow>
          if p = ProtocolUDP then UDP_PROTOCOL_NUMBER
          else if p = ProtocolSCTP then SCTP_PROTOCOL_NUMBER
          else if p = CATCH_ALL_PROTOCOL then ANY_IP_PROTOCOL
          else if p = DENY_ALL_PROTOCOL then RESERVED_IP_PROTOCOL_NUMBER
          else TCP_PROTOCOL_NUMBER)"

definition cpe_entry :: "L4Rule \<Rightarrow> byte list" where
  "cpe_entry l4Entry =
     (let (protocol, startPort, endPort) =
            (if IsL4RuleEmpty l4Entry then (ANY_IP_PROTOCOL, 0, 0)
             else (deriveProtocolValueForCPE (l4_Info l4Entry),
                   port_or_zero (port_Port (l4_Info l4Entry)),
                   port_or_zero (port_EndPort (l4_Info l4Entry))));
          action = deriveActionValueForCPE (l4_Action l4Entry);
          priority = l4_Priority l4Entry * 10 + action
      in put_le32 (go_uint32 protocol) @ put_le32 (go_uint32 priority) @
         put_le32 (go_uint32 startPort) @ put_le32 (go_uint32 endPort))"

definition ComputeTrieValueForCPE :: "L4Rule list \<Rightarrow> byte list" where
  "ComputeTrieValueForCPE l4Info =
     fill_entries ADMIN_TRIE_VALUE_LENGTH cpe_entry l4Info 0 (replicate ADMIN_TRIE_VALUE_LENGTH 0)"

definition deriveProtocolValue :: "Port \<Rightarrow> bool \<Rightarrow> bool \<Rightarrow> int" where
  "deriveProtocolValue l4Info allowAll denyAll =
     (if denyAll then RESERVED_IP_PROTOCOL_NUMBER
      else if allowAll then ANY_IP_PROTOCOL
      else (case ptr_val (port_Protocol l4Info) of
          None \<Rightarrow> ANY_IP_PROTOCOL
        | Some p \<Rightarrow>
            if p = ProtocolTCP then TCP_PROTOCOL_NUMBER
            else if p = ProtocolUDP then UDP_PROTOCOL_NUMBER
            else if p = ProtocolSCTP then SCTP_PROTOCOL_NUMBER
            else if p = CATCH_ALL_PROTOCOL then ANY_IP_PROTOCOL
            else if p = DENY_ALL_PROTOCOL then RESERVED_IP_PROTOCOL_NUMBER
            else ANY_IP_PROTOCOL))"

definition np_entry :: "bool \<Rightarrow> bool \<Rightarrow> Port \<Rightarrow> byte list" where
  "np_entry allowAll denyAll l4Entry =
     put_le32 (go_uint32 (deriveProtocolValue l4Entry allowAll denyAll)) @
     put_le32 (go_uint32 (port_or_zero (port_Port l4Entry))) @
     put_le32 (go_uint32 (port_or_zero (port_EndPort l4Entry)))"

definition empty_port :: Port where
  "empty_port = \<lparr>port_Protocol = None, port_Port = None, port_EndPort = None\<rparr>"

definition ComputeTrieValue :: "Port list \<Rightarrow> bool \<Rightarrow> bool \<Rightarrow> byte list" where
  "ComputeTrieValue l4Info allowAll0 denyAll =
     (let allowAll = (if l4Info = [] then True else allowAll0);
          value = replicate TRIE_VALUE_LENGTH 0;
          (value, startOffset) =
            (if allowAll \<or> denyAll then (put_at 0 (np_entry allowAll denyAll empty_port) value, 12)
             else (value, 0))
      in fill_entries TRIE_VALUE_LENGTH (np_entry allowAll denyAll) l4Info startOffset value)"

section \<open>Error classification\<close>

definition IsFileExistsError :: "string \<Rightarrow> bool" where
  "IsFileExistsError err = (err = ''file exists'')"

definition IsInvalidFilterListError :: "string \<Rightarrow> bool" where
  "IsInvalidFilterListError err = (hd (go_split (CHR '':'') err) = ''failed to get filter list'')"

definition IsMissingFilterError :: "string \<Rightarrow> bool" where
  "IsMissingFilterError err = (hd (go_split (CHR ''-'') err) = ''no active filter to detach'')"

section \<open>Address predicates\<close>

definition IsNodeIP :: "string \<Rightarrow> string \<Rightarrow> bool" where
  "IsNodeIP nodeIP ipCidr =
     IP_Equal (ParseIP nodeIP) (case ParseCIDR ipCidr of None \<Rightarrow> [] | Some (a, _) \<Rightarrow> a)"

definition IsNonHostCIDR :: "string \<Rightarrow> go_panic + bool" where
  "IsNonHostCIDR ipAddr =
     (let ipSplit = go_split (CHR ''/'') ipAddr
      in if length ipSplit < 2 then Inl IndexOutOfRange
         else Inr (ipSplit ! 1 \<noteq> ''32'' \<and> ipSplit ! 1 \<noteq> ''128''))"


section \<open>Host interface names\<close>

text \<open>
  \<^verbatim>\<open>GetHostVethName\<close>: the hexadecimal SHA-1 digest and the netlink lookup (an error text
  when the link does not exist) are parameters. The failure carries the error of every prefix.
\<close>

fun try_prefixes ::
  "(string \<Rightarrow> string option) \<Rightarrow> string \<Rightarrow> string list \<Rightarrow> string list \<Rightarrow> string list + string" where
  "try_prefixes linkError h [] errs = Inl errs"
| "try_prefixes linkError h (pfx # ps) errs =
     (let interfaceName = pfx @ take 11 h
      in case linkError interfaceName of
           None \<Rightarrow> Inr interfaceName
         | Some e \<Rightarrow>
             try_prefixes linkError h ps
               (errs @ [''failed to find link '' @ interfaceName @ '': '' @ e]))"

definition GetHostVethName ::
  "(string \<Rightarrow> string) \<Rightarrow> (string \<Rightarrow> string option) \<Rightarrow> string \<Rightarrow> string \<Rightarrow> nat \<Rightarrow> string list \<Rightarrow>
     string list + string" where
  "GetHostVethName sha1_hex linkError podName podNamespace interfaceIndex interfacePrefixes =
     (let podName' = (if 0 < interfaceIndex then podName @ ''.'' @ nat_string interfaceIndex
                      else podName);
          h = sha1_hex (podNamespace @ ''.'' @ podName')
      in try_prefixes linkError h interfacePrefixes [])"

section \<open>Addresses as integers\<close>

definition ConvIntToIPv4 :: "u32 \<Rightarrow> ip" where
  "ConvIntToIPv4 ipaddr = put_le32 ipaddr"

definition ConvByteArrayToIP :: "u32 \<Rightarrow> string" where
  "ConvByteArrayToIP ipInInt = IP_String (ConvIntToIPv4 ipInInt)"

definition ConvIPv4ToInt :: "ip \<Rightarrow> go_panic + u32" where
  "ConvIPv4ToInt a =
     (if length a < 4 then Inl IndexOutOfRange
      else Inr (push_bit 24 (ucast (a ! 0)) OR push_bit 16 (ucast (a ! 1)) OR
                push_bit 8 (ucast (a ! 2)) OR ucast (a ! 3)))"

definition ConvIntToIPv4NetworkOrder :: "u32 \<Rightarrow> ip" where
  "ConvIntToIPv4NetworkOrder ipaddr = rev (put_le32 ipaddr)"

definition ConvByteToIPv6 :: "byte list \<Rightarrow> ip" where
  "ConvByteToIPv6 ipaddr = ipaddr"

definition ConvIPv6ToByte :: "ip \<Rightarrow> byte list" where
  "ConvIPv6ToByte ipaddr = To16 ipaddr"

section \<open>Conntrack keys and trie keys as bytes\<close>

text \<open>
  The structs are laid out in memory as the C structs of the datapath on a little-endian host;
  the blank padding fields keep whatever bytes were copied into them.
\<close>

record ConntrackKeyV6 =
  ck6_Source_ip :: "byte list"
  ck6_Source_port :: u16
  ck6_pad1 :: u16
  ck6_Dest_ip :: "byte list"
  ck6_Dest_port :: u16
  ck6_Protocol :: u8
  ck6_pad2 :: u8
  ck6_Owner_ip :: "byte list"
  ck6_Ifindex :: u32

record ConntrackKey =
  ck_Source_ip :: u32
  ck_Source_port :: u16
  ck_pad1 :: u16
  ck_Dest_ip :: u32
  ck_Dest_port :: u16
  ck_Protocol :: u8
  ck_pad2 :: u8
  ck_Owner_ip :: u32
  ck_Ifindex :: u32

record ConntrackVal =
  cv_Value :: u64
  cv_LastSeen :: u64

record BPFTrieKeyV6 =
  tk6_PrefixLen :: u32
  tk6_IP :: "byte list"

definition ck6_wf :: "ConntrackKeyV6 \<Rightarrow> bool" where
  "ck6_wf k \<longleftrightarrow> length (ck6_Source_ip k) = 16 \<and> length (ck6_Dest_ip k) = 16 \<and>
              length (ck6_Owner_ip k) = 16"

text \<open>\<^verbatim>\<open>copy(dst[:], src)\<close> into a zeroed array of a given size.\<close>

definition copy_into_zero :: "nat \<Rightarrow> byte list \<Rightarrow> byte list" where
  "copy_into_zero n src = take n src @ replicate (n - length src) 0"

definition ConvConntrackV6ToByte :: "ConntrackKeyV6 \<Rightarrow> byte list" where
  "ConvConntrackV6ToByte k =
     ck6_Source_ip k @ put_le16 (ck6_Source_port k) @ put_le16 (ck6_pad1 k) @
     ck6_Dest_ip k @ put_le16 (ck6_Dest_port k) @ [ck6_Protocol k, ck6_pad2 k] @
     ck6_Owner_ip k @ put_le32 (ck6_Ifindex k)"

definition ConvByteToConntrackV6 :: "byte list \<Rightarrow> ConntrackKeyV6" where
  "ConvByteToConntrackV6 keyByte =
     (let b = copy_into_zero 60 keyByte
      in \<lparr>ck6_Source_ip = get_at 0 16 b, ck6_Source_port = get_le16 (get_at 16 2 b),
          ck6_pad1 = get_le16 (get_at 18 2 b), ck6_Dest_ip = get_at 20 16 b,
          ck6_Dest_port = get_le16 (get_at 36 2 b), ck6_Protocol = b ! 38, ck6_pad2 = b ! 39,
          ck6_Owner_ip = get_at 40 16 b, ck6_Ifindex = get_le32 (get_at 56 4 b)\<rparr>)"

definition CopyV6Bytes :: "byte list \<Rightarrow> byte list \<Rightarrow> byte list" where
  "CopyV6Bytes dest src = fold (\<lambda>i d. d[i := src ! i]) [0..<length src] dest"

definition ConvTrieV6ToByte :: "BPFTrieKeyV6 \<Rightarrow> byte list" where
  "ConvTrieV6ToByte k = put_le32 (tk6_PrefixLen k) @ tk6_IP k"

definition ConvByteToTrieV6 :: "byte list \<Rightarrow> BPFTrieKeyV6" where
  "ConvByteToTrieV6 keyByte =
     (let b = copy_into_zero 20 keyByte
      in \<lparr>tk6_PrefixLen = get_le32 (get_at 0 4 b), tk6_IP = get_at 4 16 b\<rparr>)"

section \<open>Identifiers: injectivity and round trips\<close>

lemma append_sep_inject:
  assumes "(c :: char) \<notin> set a" "c \<notin> set a'"
  shows "a @ c # b = a' @ c # b' \<longleftrightarrow> a = a' \<and> b = b'"
  using assms go_cut_append [of c a b] go_cut_append [of c a' b'] by (metis option.inject prod.inject)

lemma go_join_set: "c \<in> set (go_join sep ps) \<Longrightarrow> c \<in> set sep \<or> (\<exists>p \<in> set ps. c \<in> set p)"
  by (induction sep ps rule: go_join.induct) auto

lemma go_split_set: "p \<in> set (go_split sep s) \<Longrightarrow> set p \<subseteq> set s"
  by (induction s arbitrary: p) (fastforce split: list.splits if_splits)+

lemma podIdentifierPrefix_set:
  assumes "c \<in> set (podIdentifierPrefix n)"
  shows "c \<in> set n \<or> c = CHR ''_''"
proof -
  let ?m = "if CHR ''.'' \<in> set n then go_replace (CHR ''.'') (CHR ''_'') n else n"
  have m: "d \<in> set ?m \<Longrightarrow> d \<in> set n \<or> d = CHR ''_''" for d
    by (auto simp: go_replace_def split: if_splits)
  show ?thesis
  proof (cases "CHR ''-'' \<in> set ?m")
    case True
    then have "c \<in> set (go_join ''-'' (butlast (go_split (CHR ''-'') ?m)))"
      using assms by (simp add: podIdentifierPrefix_def Let_def split del: if_split)
    then consider "c = CHR ''-''" | p where "p \<in> set (go_split (CHR ''-'') ?m)" "c \<in> set p"
      by (auto dest!: go_join_set in_set_butlastD)
    then have "c \<in> set ?m" using True go_split_set by cases (auto split del: if_split)
    then show ?thesis by (rule m)
  next
    case False
    then show ?thesis using assms m by (simp add: podIdentifierPrefix_def Let_def split del: if_split)
  qed
qed

lemma podIdentifierPrefix_no_sep: "CHR ''@'' \<notin> set n \<Longrightarrow> CHR ''@'' \<notin> set (podIdentifierPrefix n)"
  using podIdentifierPrefix_set by fastforce

lemma podIdentifierPrefix_no_slash: "CHR ''/'' \<notin> set n \<Longrightarrow> CHR ''/'' \<notin> set (podIdentifierPrefix n)"
  using podIdentifierPrefix_set by fastforce

text \<open>The path of a program pin splits into the directory components, then the file name.\<close>

lemma pin_path_split:
  assumes "CHR ''/'' \<notin> set f"
  shows "go_split (CHR ''/'') (BPF_PROGRAMS_PIN_PATH_DIRECTORY @ f) =
    [[], ''sys'', ''fs'', ''bpf'', ''globals'', ''aws'', ''programs'', f]"
  using assms by (simp add: BPF_PROGRAMS_PIN_PATH_DIRECTORY_def)

lemma go_split_append_all:
  "go_split sep (a @ sep # b) = go_split sep a @ go_split sep b"
proof (induction a)
  case (Cons c a)
  then show ?case by (cases "go_split sep a") simp_all
qed simp

lemma pin_name_parts:
  assumes "CHR ''_'' \<notin> set d"
  shows "go_split (CHR ''_'') (x @ ''_handle_'' @ d) = go_split (CHR ''_'') x @ [''handle'', d]"
  using go_split_append_all [of "CHR ''_''" x "''handle_'' @ d"] assms by simp

text \<open>Pod identifiers are injective on the workload prefix and the namespace: two pods whose
  names and namespaces have no at-sign (DNS-1123 forbids it) get the same identifier exactly
  when they share the namespace and the workload prefix of the name.\<close>

theorem GetPodIdentifier_inject:
  assumes "CHR ''@'' \<notin> set name1" and "CHR ''@'' \<notin> set name2"
  shows "GetPodIdentifier name1 ns1 = GetPodIdentifier name2 ns2 \<longleftrightarrow>
         podIdentifierPrefix name1 = podIdentifierPrefix name2 \<and> ns1 = ns2"
  using append_sep_inject [OF podIdentifierPrefix_no_sep podIdentifierPrefix_no_sep, OF assms]
  by (simp add: GetPodIdentifier_def)

theorem GetPodIdentifier_inject_witness:
  "GetPodIdentifier ''web-7d4b-x1'' ''prod'' = GetPodIdentifier ''web-7d4b-x2'' ''prod'' \<and>
   GetPodIdentifier ''web-7d4b-x1'' ''prod'' \<noteq> GetPodIdentifier ''web-7d4b-x1'' ''dev''"
  using GetPodIdentifier_inject [of "''web-7d4b-x1''" "''web-7d4b-x2''" "''prod''" "''prod''"]
    GetPodIdentifier_inject [of "''web-7d4b-x1''" "''web-7d4b-x1''" "''prod''" "''dev''"]
  by (simp add: podIdentifierPrefix_def)

text \<open>The identifier format of earlier releases, which joins prefix and namespace with a
  dash, is not injective: a pod of one namespace gets the identifier of a pod of another.\<close>

theorem LegacyGetPodIdentifier_collision:
  "\<exists>n1 s1 n2 s2. LegacyGetPodIdentifier n1 s1 = LegacyGetPodIdentifier n2 s2 \<and> s1 \<noteq> s2 \<and>
     GetPodIdentifier n1 s1 \<noteq> GetPodIdentifier n2 s2"
  by (rule exI [of _ "''web-x1''"], rule exI [of _ "''team-a''"],
      rule exI [of _ "''web-team-x2''"], rule exI [of _ "''a''"])
     (simp add: LegacyGetPodIdentifier_def GetPodIdentifier_def podIdentifierPrefix_def)

lemma pin_path_parse:
  assumes "CHR ''/'' \<notin> set podIdentifier" and "direction \<in> {''ingress'', ''egress''}"
  shows "GetPodIdentifierFromBPFPinPath (GetBPFPinPathFromPodIdentifier podIdentifier direction) =
         Inr (podIdentifier, direction)"
proof -
  let ?f = "podIdentifier @ ''_handle_'' @ direction"
  have "GetBPFPinPathFromPodIdentifier podIdentifier direction =
      BPF_PROGRAMS_PIN_PATH_DIRECTORY @ ?f"
    using assms by (auto simp: GetBPFPinPathFromPodIdentifier_def TC_INGRESS_PROG_def TC_EGRESS_PROG_def)
  moreover have "CHR ''/'' \<notin> set ?f" "CHR ''_'' \<notin> set direction" using assms by auto
  ultimately show ?thesis
    by (simp add: GetPodIdentifierFromBPFPinPath_def Let_def pin_path_split pin_name_parts [simplified])
qed

text \<open>Reading back the pin path of a program gives the pod identifier and the direction it
  was made from, for every identifier without a slash.\<close>

theorem pin_path_roundtrip:
  assumes "CHR ''/'' \<notin> set podIdentifier" and "direction \<in> {''ingress'', ''egress''}"
  shows "GetPodIdentifierFromBPFPinPath (GetBPFPinPathFromPodIdentifier podIdentifier direction) =
         Inr (podIdentifier, direction)"
  using assms by (rule pin_path_parse)

theorem pin_path_roundtrip_witness:
  "GetPodIdentifierFromBPFPinPath
     (GetBPFPinPathFromPodIdentifier (GetPodIdentifier ''my.app-1'' ''prod'') ''egress'') =
   Inr (''my_app@prod'', ''egress'')"
  using pin_path_roundtrip [of "''my_app@prod''" "''egress''"]
  by (simp add: GetPodIdentifier_def podIdentifierPrefix_def go_replace_def)

text \<open>The parent network policy of a policy endpoint named by the controller.\<close>

lemma GetParentNPNameFromPEName_append:
  "CHR ''-'' \<notin> set sfx \<Longrightarrow> GetParentNPNameFromPEName (np @ CHR ''-'' # sfx) = Inr np"
  by (simp add: GetParentNPNameFromPEName_def go_last_index_append)

lemma GetParentNPNameFromPEName_panics:
  "(\<exists>e. GetParentNPNameFromPEName pe = Inl e) \<longleftrightarrow> CHR ''-'' \<notin> set pe"
  by (auto simp: GetParentNPNameFromPEName_def split: option.splits
      simp flip: go_last_index_None_iff)

section \<open>Values of the policy maps: what a reader finds in each slot\<close>

text \<open>
  A buffer of \<open>slots\<close> entries, each \<open>width\<close> bytes wide, filled by \<open>fill_entries\<close>: every slot
  holds the entry written there, or what the buffer held before.
\<close>

definition slot :: "nat \<Rightarrow> nat \<Rightarrow> byte list \<Rightarrow> byte list" where
  "slot width i v = get_at (i * width) width v"

locale entry_buffer =
  fixes enc :: "'a \<Rightarrow> byte list" and width slots :: nat
  assumes enc_width: "length (enc e) = width" and width_pos: "0 < width"
begin

lemma put_slot:
  assumes "j < slots" "i < slots" "length v = slots * width"
  shows "slot width i (put_at (j * width) (enc e) v) = (if i = j then enc e else slot width i v)"
proof -
  have fits: "Suc k * width \<le> slots * width" if "k < slots" for k
    using that by (intro mult_le_mono1) simp
  consider "i = j" | "i < j" | "j < i" by linarith
  then show ?thesis
  proof cases
    case 1
    with fits [of j] assms show ?thesis
      by (simp add: slot_def get_at_put_at_same enc_width)
  next
    case 2
    then have "Suc i * width \<le> j * width" by (intro mult_le_mono1) simp
    with 2 fits [of j] assms show ?thesis
      by (simp add: slot_def get_at_put_at_before enc_width)
  next
    case 3
    then have "Suc j * width \<le> i * width" by (intro mult_le_mono1) simp
    with 3 fits [of j] assms show ?thesis
      by (simp add: slot_def get_at_put_at_after enc_width)
  qed
qed

lemma length_fill:
  "length v = slots * width \<Longrightarrow> length (fill_entries (slots * width) enc es (j * width) v) = slots * width"
proof (induction es arbitrary: j v)
  case (Cons e es)
  show ?case
  proof (cases "slots \<le> j")
    case False
    then have "Suc j * width \<le> slots * width" by (intro mult_le_mono1) simp
    then have "length (put_at (j * width) (enc e) v) = slots * width"
      using Cons.prems by (simp add: enc_width)
    then show ?thesis using False Cons.IH [of _ "Suc j"] width_pos
      by (simp add: enc_width add.commute)
  qed (use Cons.prems in simp)
qed simp

lemma slot_fill:
  assumes "length v = slots * width" "i < slots"
  shows "slot width i (fill_entries (slots * width) enc es (j * width) v) =
     (if j \<le> i \<and> i - j < length es then enc (es ! (i - j)) else slot width i v)"
  using assms
proof (induction es arbitrary: j v)
  case (Cons e es)
  show ?case
  proof (cases "slots \<le> j")
    case True
    with Cons.prems show ?thesis by auto
  next
    case False
    let ?v = "put_at (j * width) (enc e) v"
    from False have "Suc j * width \<le> slots * width" by (intro mult_le_mono1) simp
    then have l: "length ?v = slots * width" using Cons.prems by (simp add: enc_width)
    have "fill_entries (slots * width) enc (e # es) (j * width) v =
        fill_entries (slots * width) enc es (Suc j * width) ?v"
      using False width_pos by (simp add: enc_width add.commute)
    also have "slot width i \<dots> =
        (if Suc j \<le> i \<and> i - Suc j < length es then enc (es ! (i - Suc j)) else slot width i ?v)"
      by (rule Cons.IH [OF l Cons.prems(2)])
    also have "\<dots> = (if j \<le> i \<and> i - j < length (e # es) then enc ((e # es) ! (i - j)) else slot width i v)"
      using put_slot [of j i v e] False Cons.prems
      by (cases "i = j") (auto simp: nth_Cons' Suc_le_eq)
    finally show ?thesis .
  qed
qed simp

lemma slot_zero: "i < slots \<Longrightarrow> slot width i (replicate (slots * width) 0) = replicate width 0"
proof -
  assume "i < slots"
  then have "Suc i * width \<le> slots * width" by (intro mult_le_mono1) simp
  then show ?thesis by (simp add: slot_def get_at_def min_def)
qed

end

lemma length_np_entry [simp]: "length (np_entry aa da p) = 12"
  by (simp add: np_entry_def)

lemma length_cpe_entry [simp]: "length (cpe_entry r) = 16"
  by (simp add: cpe_entry_def Let_def split: prod.splits)

interpretation np_buf: entry_buffer "np_entry aa da" 12 24 for aa da
  by unfold_locales simp_all

interpretation cpe_buf: entry_buffer cpe_entry 16 24
  by unfold_locales simp_all

text \<open>The entries as the eBPF programs and the command line tool read them.\<close>

record BPFTrieVal =
  tv_Protocol :: u32
  tv_StartPort :: u32
  tv_EndPort :: u32

record BPFL4PriorityVal =
  pv_Protocol :: u32
  pv_Priority :: u32
  pv_StartPort :: u32
  pv_EndPort :: u32

definition read_trie_val :: "byte list \<Rightarrow> nat \<Rightarrow> BPFTrieVal" where
  "read_trie_val v i =
     \<lparr>tv_Protocol = get_le32 (get_at 0 4 (slot 12 i v)),
      tv_StartPort = get_le32 (get_at 4 4 (slot 12 i v)),
      tv_EndPort = get_le32 (get_at 8 4 (slot 12 i v))\<rparr>"

definition read_priority_val :: "byte list \<Rightarrow> nat \<Rightarrow> BPFL4PriorityVal" where
  "read_priority_val v i =
     \<lparr>pv_Protocol = get_le32 (get_at 0 4 (slot 16 i v)),
      pv_Priority = get_le32 (get_at 4 4 (slot 16 i v)),
      pv_StartPort = get_le32 (get_at 8 4 (slot 16 i v)),
      pv_EndPort = get_le32 (get_at 12 4 (slot 16 i v))\<rparr>"

text \<open>The entry a port specification stands for, and the unused slot.\<close>

definition port_entry :: "Port \<Rightarrow> BPFTrieVal" where
  "port_entry p =
     \<lparr>tv_Protocol = go_uint32 (deriveProtocolValue p False False),
      tv_StartPort = (case port_Port p of None \<Rightarrow> 0 | Some w \<Rightarrow> w),
      tv_EndPort = (case port_EndPort p of None \<Rightarrow> 0 | Some w \<Rightarrow> w)\<rparr>"

definition zero_trie_val :: BPFTrieVal where
  "zero_trie_val = \<lparr>tv_Protocol = 0, tv_StartPort = 0, tv_EndPort = 0\<rparr>"

definition l4_entry :: "L4Rule \<Rightarrow> BPFL4PriorityVal" where
  "l4_entry r =
     (let p = l4_Info r
      in \<lparr>pv_Protocol = go_uint32 (if IsL4RuleEmpty r then ANY_IP_PROTOCOL
                                   else deriveProtocolValueForCPE p),
          pv_Priority = go_uint32 (l4_Priority r * 10 + deriveActionValueForCPE (l4_Action r)),
          pv_StartPort = (case port_Port p of None \<Rightarrow> 0 | Some w \<Rightarrow> w),
          pv_EndPort = (case port_EndPort p of None \<Rightarrow> 0 | Some w \<Rightarrow> w)\<rparr>)"

definition zero_priority_val :: BPFL4PriorityVal where
  "zero_priority_val = \<lparr>pv_Protocol = 0, pv_Priority = 0, pv_StartPort = 0, pv_EndPort = 0\<rparr>"

lemma go_uint32_sint [simp]: "go_uint32 (sint (w :: int32)) = w"
  by (simp add: go_uint32_def)

lemma go_uint32_0 [simp]: "go_uint32 0 = 0"
  by (simp add: go_uint32_def)

lemma go_uint32_port [simp]: "go_uint32 (port_or_zero p) = (case p of None \<Rightarrow> 0 | Some w \<Rightarrow> w)"
  by (simp add: port_or_zero_def split: option.split)

lemma get_at_append [simp]:
  "length a = off \<Longrightarrow> get_at off n (a @ b) = take n b"
  "off + n \<le> length a \<Longrightarrow> get_at off n (a @ b) = get_at off n a"
  by (auto simp: get_at_def)

lemma get_at_append_skip: "length a \<le> off \<Longrightarrow> get_at off n (a @ b) = get_at (off - length a) n b"
  by (simp add: get_at_def)

lemma read_np_entry:
  "slot 12 i v = np_entry aa da p \<Longrightarrow>
   read_trie_val v i = (port_entry p)\<lparr>tv_Protocol := go_uint32 (deriveProtocolValue p aa da)\<rparr>"
  by (simp add: read_trie_val_def np_entry_def port_entry_def get_at_append_skip)
     (simp add: get_at_def)

lemma get_le32_zero [simp]: "get_le32 [0, 0, 0, 0] = 0"
  by (simp add: get_le32_def)

lemma read_np_zero: "slot 12 i v = replicate 12 0 \<Longrightarrow> read_trie_val v i = zero_trie_val"
  by (simp add: read_trie_val_def zero_trie_val_def get_at_def numeral_eq_Suc)

lemma read_cpe_entry: "slot 16 i v = cpe_entry r \<Longrightarrow> read_priority_val v i = l4_entry r"
  by (cases "IsL4RuleEmpty r")
     (simp_all add: read_priority_val_def cpe_entry_def l4_entry_def get_at_append_skip Let_def,
      simp_all add: get_at_def IsL4RuleEmpty_def)

lemma read_cpe_zero: "slot 16 i v = replicate 16 0 \<Longrightarrow> read_priority_val v i = zero_priority_val"
  by (simp add: read_priority_val_def zero_priority_val_def get_at_def numeral_eq_Suc)

lemma ComputeTrieValue_fill:
  "ps \<noteq> [] \<Longrightarrow> ComputeTrieValue ps False False =
     fill_entries (24 * 12) (np_entry False False) ps (0 * 12) (replicate (24 * 12) 0)"
  by (simp add: ComputeTrieValue_def TRIE_VALUE_LENGTH_def)

lemma ComputeTrieValueForCPE_fill:
  "ComputeTrieValueForCPE rs = fill_entries (24 * 16) cpe_entry rs (0 * 16) (replicate (24 * 16) 0)"
  by (simp add: ComputeTrieValueForCPE_def ADMIN_TRIE_VALUE_LENGTH_def)

lemma ComputeTrieValue_allow_all:
  "ComputeTrieValue [] aa False = put_at (0 * 12) (np_entry True False empty_port) (replicate (24 * 12) 0)"
  by (simp add: ComputeTrieValue_def TRIE_VALUE_LENGTH_def)

definition allow_all_val :: BPFTrieVal where
  "allow_all_val = \<lparr>tv_Protocol = 254, tv_StartPort = 0, tv_EndPort = 0\<rparr>"

lemma read_ports_slot:
  assumes "i < 24" "ports \<noteq> []"
  shows "read_trie_val (ComputeTrieValue ports False False) i =
     (if i < length ports then port_entry (ports ! i) else zero_trie_val)"
proof -
  let ?v = "ComputeTrieValue ports False False"
  have "slot 12 i ?v = (if i < length ports then np_entry False False (ports ! i) else replicate 12 0)"
    unfolding ComputeTrieValue_fill [OF assms(2)]
    using np_buf.slot_fill [of "replicate (24 * 12) 0" i False False ports 0]
      np_buf.slot_zero [of i] assms(1) by simp
  then show ?thesis by (auto simp: read_np_zero port_entry_def dest!: read_np_entry)
qed

lemma read_allow_all_slot:
  assumes "i < 24"
  shows "read_trie_val (ComputeTrieValue [] aa False) i = (if i = 0 then allow_all_val else zero_trie_val)"
proof -
  let ?v = "ComputeTrieValue [] aa False"
  have "slot 12 i ?v = (if i = 0 then np_entry True False empty_port else replicate 12 0)"
    unfolding ComputeTrieValue_allow_all
    using np_buf.put_slot [of 0 i "replicate (24 * 12) 0" True False empty_port]
      np_buf.slot_zero [of i] assms by simp
  then show ?thesis
    by (auto simp: read_np_zero allow_all_val_def port_entry_def empty_port_def
        deriveProtocolValue_def ANY_IP_PROTOCOL_def go_uint32_def dest!: read_np_entry)
qed

lemma length_ComputeTrieValue: "length (ComputeTrieValue ports False False) = TRIE_VALUE_LENGTH"
proof (cases "ports = []")
  case False
  then show ?thesis
    using np_buf.length_fill [of "replicate (24 * 12) 0" False False ports 0]
    by (simp add: ComputeTrieValue_fill TRIE_VALUE_LENGTH_def)
qed (simp add: ComputeTrieValue_allow_all TRIE_VALUE_LENGTH_def)

text \<open>Encoding a list of ports into a map value and reading the 24 slots back gives the ports
  in order, every unused slot zero, and ports beyond the 24th dropped; an empty list is one
  allow-all entry. The value always has the length the map declares.\<close>

theorem ComputeTrieValue_slots:
  assumes "i < 24"
  shows "read_trie_val (ComputeTrieValue ports False False) i =
     (if ports = [] then if i = 0 then allow_all_val else zero_trie_val
      else if i < length ports then port_entry (ports ! i) else zero_trie_val) \<and>
     length (ComputeTrieValue ports False False) = TRIE_VALUE_LENGTH"
  using read_allow_all_slot [OF assms] read_ports_slot [OF assms] length_ComputeTrieValue by simp

theorem ComputeTrieValue_slots_witness:
  "read_trie_val (ComputeTrieValue [\<lparr>port_Protocol = Some (0, ''UDP''), port_Port = Some 53,
      port_EndPort = None\<rparr>] False False) 0 =
   \<lparr>tv_Protocol = 17, tv_StartPort = 53, tv_EndPort = 0\<rparr>"
  using ComputeTrieValue_slots [of 0 "[\<lparr>port_Protocol = Some (0, ''UDP''), port_Port = Some 53,
      port_EndPort = None\<rparr>]"]
  by (simp add: port_entry_def deriveProtocolValue_def ptr_val_def protocol_defs go_uint32_def)

lemma read_cpe_slot:
  assumes "i < 24"
  shows "read_priority_val (ComputeTrieValueForCPE rules) i =
     (if i < length rules then l4_entry (rules ! i) else zero_priority_val) \<and>
     length (ComputeTrieValueForCPE rules) = ADMIN_TRIE_VALUE_LENGTH"
proof -
  let ?v = "ComputeTrieValueForCPE rules"
  have "slot 16 i ?v = (if i < length rules then cpe_entry (rules ! i) else replicate 16 0)"
    unfolding ComputeTrieValueForCPE_fill
    using cpe_buf.slot_fill [of "replicate (24 * 16) 0" i rules 0] cpe_buf.slot_zero [of i] assms
    by simp
  then have "read_priority_val ?v i = (if i < length rules then l4_entry (rules ! i) else zero_priority_val)"
    by (auto simp: read_cpe_zero read_cpe_entry)
  then show ?thesis
    using cpe_buf.length_fill [of "replicate (24 * 16) 0" rules 0]
    by (simp add: ComputeTrieValueForCPE_fill ADMIN_TRIE_VALUE_LENGTH_def)
qed

text \<open>Encoding the prioritised rules of cluster policies and reading the 24 slots back gives
  the rules in order, every unused slot zero, and rules beyond the 24th dropped.\<close>

theorem ComputeTrieValueForCPE_slots:
  assumes "i < 24"
  shows "read_priority_val (ComputeTrieValueForCPE rules) i =
     (if i < length rules then l4_entry (rules ! i) else zero_priority_val) \<and>
     length (ComputeTrieValueForCPE rules) = ADMIN_TRIE_VALUE_LENGTH"
  using read_cpe_slot [OF assms] .

theorem ComputeTrieValueForCPE_slots_witness:
  "pv_Priority (read_priority_val (ComputeTrieValueForCPE
     [\<lparr>l4_Info = empty_port, l4_Action = ''Accept'', l4_Priority = 7\<rparr>]) 0) = 71"
  using ComputeTrieValueForCPE_slots [of 0 "[\<lparr>l4_Info = empty_port, l4_Action = ''Accept'', l4_Priority = 7\<rparr>]"]
  by (simp add: l4_entry_def deriveActionValueForCPE_def ActionDenyName_def ActionAcceptName_def
      go_uint32_def Let_def)

lemma uint_go_uint32: "0 \<le> i \<Longrightarrow> i < 2 ^ 32 \<Longrightarrow> uint (go_uint32 i) = i"
  by (simp add: go_uint32_def uint_word_of_int)

text \<open>The code of an action and the protocol number of a port of a cluster policy, as the datapath
  reads them.\<close>

definition action_code :: "string \<Rightarrow> int" where
  "action_code a = (if a = ''Deny'' then 0 else if a = ''Accept'' then 1 else 2)"

definition cpe_protocol :: "Port \<Rightarrow> int" where
  "cpe_protocol p =
     (if port_Protocol p = None \<and> port_Port p = None \<and> port_EndPort p = None then 254
      else if ptr_val (port_Protocol p) = Some ''UDP'' then 17
      else if ptr_val (port_Protocol p) = Some ''SCTP'' then 132
      else if ptr_val (port_Protocol p) = Some ''ANY_IP_PROTOCOL'' then 254
      else if ptr_val (port_Protocol p) = Some ''RESERVED_IP_PROTOCOL_NUMBER'' then 255
      else 6)"

lemma action_code_range: "0 \<le> action_code a \<and> action_code a \<le> 2"
  by (simp add: action_code_def)

lemma deriveActionValueForCPE_code: "deriveActionValueForCPE a = action_code a"
  by (simp add: deriveActionValueForCPE_def action_code_def ActionDenyName_def ActionAcceptName_def ActionPassName_def)

lemma cpe_protocol_code:
  "(if IsL4RuleEmpty l then ANY_IP_PROTOCOL else deriveProtocolValueForCPE (l4_Info l)) = cpe_protocol (l4_Info l)"
  by (simp add: cpe_protocol_def IsL4RuleEmpty_def deriveProtocolValueForCPE_def protocol_defs split: option.split)

lemma cpe_protocol_range: "0 \<le> cpe_protocol p \<and> cpe_protocol p < 256"
  by (simp add: cpe_protocol_def)

lemma l4_entry_fields:
  "uint (pv_Protocol (l4_entry l)) = cpe_protocol (l4_Info l)"
  "pv_StartPort (l4_entry l) = (case port_Port (l4_Info l) of None \<Rightarrow> 0 | Some w \<Rightarrow> w)"
  "pv_EndPort (l4_entry l) = (case port_EndPort (l4_Info l) of None \<Rightarrow> 0 | Some w \<Rightarrow> w)"
  using cpe_protocol_range [of "l4_Info l"] cpe_protocol_code [of l]
  by (simp_all add: l4_entry_def Let_def uint_go_uint32)

lemma l4_entry_priority:
  assumes "0 \<le> l4_Priority l" "l4_Priority l < 429496729"
  shows "uint (pv_Priority (l4_entry l)) = 10 * l4_Priority l + action_code (l4_Action l)"
  using assms action_code_range [of "l4_Action l"]
  by (simp add: l4_entry_def Let_def uint_go_uint32 deriveActionValueForCPE_code)

text \<open>C39: The value the agent writes for cluster rules, read slot by slot as the datapath does: each of
  the first 24 rules has its own slot, whose combined field divided by ten is the rule's priority and
  whose remainder is the action code (0 for Deny, 1 for Accept, 2 for Pass), without wrap-around for
  every priority below 429496729; the slot has the protocol number of the rule's port (254, any, for a
  port with no field set, TCP when no protocol is given) and its first and last port, 0 when absent.\<close>

theorem cpe_priority_decode:
  assumes "i < 24" "i < length ls" and "0 \<le> l4_Priority (ls ! i)" "l4_Priority (ls ! i) < 429496729"
  defines "v \<equiv> read_priority_val (ComputeTrieValueForCPE ls) i" and "p \<equiv> l4_Info (ls ! i)"
  shows "length (ComputeTrieValueForCPE ls) = 384 \<and>
    uint (pv_Priority v) div 10 = l4_Priority (ls ! i) \<and>
    uint (pv_Priority v) mod 10 = action_code (l4_Action (ls ! i)) \<and>
    uint (pv_Protocol v) = cpe_protocol p \<and>
    pv_StartPort v = (case port_Port p of None \<Rightarrow> 0 | Some w \<Rightarrow> w) \<and>
    pv_EndPort v = (case port_EndPort p of None \<Rightarrow> 0 | Some w \<Rightarrow> w)"
proof -
  note r = read_cpe_slot [OF assms(1), of ls]
  have v: "v = l4_entry (ls ! i)" using r assms(2) by (simp add: v_def)
  have "uint (pv_Priority v) = 10 * l4_Priority (ls ! i) + action_code (l4_Action (ls ! i))"
    unfolding v by (rule l4_entry_priority [OF assms(3, 4)])
  then show ?thesis
    using r action_code_range [of "l4_Action (ls ! i)"] l4_entry_fields [of "ls ! i"] v
    by (auto simp: p_def length_defs)
qed

theorem cpe_priority_decode_witness:
  "let v = read_priority_val (ComputeTrieValueForCPE
        [\<lparr>l4_Info = empty_port, l4_Action = ''Pass'', l4_Priority = 7\<rparr>,
         \<lparr>l4_Info = \<lparr>port_Protocol = Some (1, ''UDP''), port_Port = Some 53, port_EndPort = None\<rparr>,
          l4_Action = ''Accept'', l4_Priority = 3000\<rparr>]) 1
   in uint (pv_Priority v) div 10 = 3000 \<and> uint (pv_Priority v) mod 10 = 1 \<and> uint (pv_Protocol v) = 17 \<and> pv_StartPort v = 53"
  using cpe_priority_decode [of 1 "[\<lparr>l4_Info = empty_port, l4_Action = ''Pass'', l4_Priority = 7\<rparr>,
         \<lparr>l4_Info = \<lparr>port_Protocol = Some (1, ''UDP''), port_Port = Some 53, port_EndPort = None\<rparr>,
          l4_Action = ''Accept'', l4_Priority = 3000\<rparr>]"]
  by (simp add: Let_def action_code_def cpe_protocol_def ptr_val_def)

section \<open>Keys\<close>

definition in_family :: "bool \<Rightarrow> IPNet \<Rightarrow> bool" where
  "in_family v6 n \<longleftrightarrow> length (net_IP n) = (if v6 then 16 else 4)"

lemma ComputeTrieKey_family:
  "in_family v6 n \<Longrightarrow> ComputeTrieKey n v6 = put_le32 (of_nat (net_ones n)) @ net_IP n"
  by (auto simp: ComputeTrieKey_def in_family_def length_defs put_at_def net_ones_def Let_def)

lemma canon_net_ones_bound: "canon_net n \<Longrightarrow> net_ones n < 129"
  by (auto simp: canon_net_def)

lemma unat_of_nat_u32: "a < 129 \<Longrightarrow> unat (of_nat a :: u32) = a"
  by (simp add: unat_of_nat)

lemma of_nat_u32_inject: "a < 129 \<Longrightarrow> b < 129 \<Longrightarrow> (of_nat a :: u32) = of_nat b \<longleftrightarrow> a = b"
  by (metis unat_of_nat_u32)

text \<open>Two canonical networks of the cluster's address family have the same map key exactly
  when they are the same network, so map entries never collide.\<close>

theorem ComputeTrieKey_inject:
  assumes "canon_net m" and "canon_net n" and "in_family v6 m" and "in_family v6 n"
  shows "ComputeTrieKey m v6 = ComputeTrieKey n v6 \<longleftrightarrow> m = n"
proof
  assume "ComputeTrieKey m v6 = ComputeTrieKey n v6"
  then have "(of_nat (net_ones m) :: u32) = of_nat (net_ones n)" and ip: "net_IP m = net_IP n"
    using assms by (auto simp: ComputeTrieKey_family)
  then have "net_ones m = net_ones n"
    using assms of_nat_u32_inject canon_net_ones_bound by blast
  with ip have "net_prefix m = net_prefix n" by (simp add: net_prefix_def)
  then show "m = n" using assms canon_net_inject by blast
qed simp

theorem ComputeTrieKey_inject_witness:
  "ComputeTrieKey \<lparr>net_IP = [10, 0, 0, 0], net_Mask = [255, 0, 0, 0]\<rparr> False \<noteq>
   ComputeTrieKey \<lparr>net_IP = [10, 0, 0, 0], net_Mask = [255, 255, 0, 0]\<rparr> False"
proof -
  have "canon_net \<lparr>net_IP = [10, 0, 0, 0], net_Mask = [255, 0, 0, 0]\<rparr>"
    "canon_net \<lparr>net_IP = [10, 0, 0, 0], net_Mask = [255, 255, 0, 0]\<rparr>"
    "in_family False \<lparr>net_IP = [10, 0, 0, 0], net_Mask = [255, 0, 0, 0]\<rparr>"
    "in_family False \<lparr>net_IP = [10, 0, 0, 0], net_Mask = [255, 255, 0, 0]\<rparr>"
    by code_simp+
  then show ?thesis using ComputeTrieKey_inject by simp
qed

section \<open>Byte images of keys\<close>

lemma length_copy_into_zero [simp]: "length (copy_into_zero n bs) = n"
  by (simp add: copy_into_zero_def)

lemma copy_into_zero_id [simp]: "length bs = n \<Longrightarrow> copy_into_zero n bs = bs"
  by (simp add: copy_into_zero_def)

lemma ConvByte_of_ConntrackV6:
  assumes "ck6_wf key" shows "ConvByteToConntrackV6 (ConvConntrackV6ToByte key) = key"
  using assms
  by (simp add: ck6_wf_def ConvByteToConntrackV6_def ConvConntrackV6ToByte_def Let_def
      get_at_append_skip nth_append)
     (simp add: get_at_def)

lemma ConntrackV6_of_ConvByte:
  assumes "length bs = 60" shows "ConvConntrackV6ToByte (ConvByteToConntrackV6 bs) = bs"
proof -
  have "get_at 0 16 bs @ get_at 16 2 bs @ get_at 18 2 bs @ get_at 20 16 bs @ get_at 36 2 bs @
      [bs ! 38, bs ! 39] @ get_at 40 16 bs @ get_at 56 4 bs = bs"
    using assms by (intro nth_equalityI) (auto simp: get_at_def nth_append nth_Cons' less_Suc_eq
        intro!: arg_cong [where f = "(!) bs"])
  with assms show ?thesis
    by (simp add: ConvByteToConntrackV6_def ConvConntrackV6ToByte_def Let_def get_at_def)
qed

text \<open>The byte image of an IPv6 conntrack key reads back to the key, and every 60-byte
  string is the image of the key read from it.\<close>

theorem ConntrackV6_roundtrip:
  assumes "ck6_wf key" and "length bs = 60"
  shows "ConvByteToConntrackV6 (ConvConntrackV6ToByte key) = key \<and>
         ConvConntrackV6ToByte (ConvByteToConntrackV6 bs) = bs"
  using assms by (simp add: ConvByte_of_ConntrackV6 ConntrackV6_of_ConvByte)

theorem ConntrackV6_roundtrip_witness:
  "ck6_Ifindex (ConvByteToConntrackV6 (ConvConntrackV6ToByte
     \<lparr>ck6_Source_ip = replicate 16 1, ck6_Source_port = 443, ck6_pad1 = 0,
      ck6_Dest_ip = replicate 16 2, ck6_Dest_port = 53, ck6_Protocol = 17, ck6_pad2 = 0,
      ck6_Owner_ip = replicate 16 3, ck6_Ifindex = 7\<rparr>)) = 7"
  using ConntrackV6_roundtrip [of "\<lparr>ck6_Source_ip = replicate 16 1, ck6_Source_port = 443, ck6_pad1 = 0,
      ck6_Dest_ip = replicate 16 2, ck6_Dest_port = 53, ck6_Protocol = 17, ck6_pad2 = 0,
      ck6_Owner_ip = replicate 16 3, ck6_Ifindex = 7\<rparr>" "replicate 60 0"]
  by (simp add: ck6_wf_def)

lemma TrieV6_roundtrip:
  assumes "length (tk6_IP key) = 16"
  shows "ConvByteToTrieV6 (ConvTrieV6ToByte key) = key"
  using assms by (simp add: ConvByteToTrieV6_def ConvTrieV6ToByte_def Let_def) (simp add: get_at_def)

lemma fold_copy: "k \<le> length s \<Longrightarrow> length s = length d \<Longrightarrow>
    fold (\<lambda>i d. d[i := s ! i]) [0..<k] d = take k s @ drop k d"
proof (induction k)
  case (Suc k)
  then have "drop k d = d ! k # drop (Suc k) d" by (simp add: Cons_nth_drop_Suc)
  with Suc show ?case by (simp add: take_Suc_conv_app_nth list_update_append)
qed simp

lemma CopyV6Bytes_spec: "length src = length dest \<Longrightarrow> CopyV6Bytes dest src = src"
  by (simp add: CopyV6Bytes_def fold_copy)

text \<open>
  An address travels to the conntrack map as a big-endian integer and comes back in network
  order; the pair used for conntrack listing agrees, the little-endian reader is its mirror.
\<close>

lemma ConvIPv4_network_order:
  assumes "length a = 4" and "ConvIPv4ToInt a = Inr w"
  shows "ConvIntToIPv4NetworkOrder w = a"
proof -
  obtain p q r s where a: "a = [p, q, r, s]" using assms(1) by (auto simp: numeral_eq_Suc length_Suc_conv)
  then have w: "w = get_le32 [s, r, q, p]"
    using assms(2) by (auto simp: ConvIPv4ToInt_def get_le32_def ac_simps)
  show ?thesis by (simp add: w ConvIntToIPv4NetworkOrder_def a)
qed

end
