(* ===== verification/CidrTrie.thy ===== *)
theory CidrTrie
  imports GoNet
begin

text \<open>
  \<^verbatim>\<open>pkg/fwruleprocessor/cidr_trie.go\<close>: the binary trie of CIDR keys with separate roots for
  the two address families, and its contract: looking an address up gives exactly the keys of
  the inserted networks that contain it, shortest prefix first. The contract is stated as a
  locale over an abstract set of networks, which the trie implements.
\<close>

section \<open>The trie\<close>

text \<open>
  A node pointer: \<open>NilNode\<close> is \<^verbatim>\<open>nil\<close>; a node has the two children and the key. The loops
  only dereference nodes that exist: the roots are allocated by the constructor and a child is
  tested before it is entered.
\<close>

datatype cidrTrieNode = NilNode | Node (child0: cidrTrieNode) (child1: cidrTrieNode) (cidrKey: string)
  where "child0 NilNode = NilNode" | "child1 NilNode = NilNode" | "cidrKey NilNode = []"

record cidrTrie =
  v4Root :: cidrTrieNode
  v6Root :: cidrTrieNode

definition new_node :: cidrTrieNode where
  "new_node = Node NilNode NilNode []"

definition newCIDRTrie :: cidrTrie where
  "newCIDRTrie = \<lparr>v4Root = new_node, v6Root = new_node\<rparr>"

definition normalizeIP :: "ip \<Rightarrow> ip \<times> bool" where
  "normalizeIP a =
     (if To4 a \<noteq> [] then (To4 a, False)
      else if To16 a \<noteq> [] then (To16 a, True)
      else ([], False))"

definition rootFor :: "cidrTrie \<Rightarrow> bool \<Rightarrow> cidrTrieNode" where
  "rootFor t isV6 = (if isV6 then v6Root t else v4Root t)"

definition set_root :: "bool \<Rightarrow> cidrTrieNode \<Rightarrow> cidrTrie \<Rightarrow> cidrTrie" where
  "set_root isV6 n t = (if isV6 then t\<lparr>v6Root := n\<rparr> else t\<lparr>v4Root := n\<rparr>)"

text \<open>\<^verbatim>\<open>(ip[i / 8] >> (7 - i % 8)) & 1\<close>\<close>

definition ip_bit :: "ip \<Rightarrow> nat \<Rightarrow> bool" where
  "ip_bit a i = (drop_bit (7 - i mod 8) (a ! (i div 8)) AND 1 = 1)"

text \<open>
  The insertion loop over the bits of the prefix: a missing child is allocated, then entered;
  the key is stored at the node reached.
\<close>

fun insert_loop :: "bool list \<Rightarrow> string \<Rightarrow> cidrTrieNode \<Rightarrow> cidrTrieNode" where
  "insert_loop [] key n = Node (child0 n) (child1 n) key"
| "insert_loop (b # bs) key n =
     (if b then
        let c = (if child1 n = NilNode then new_node else child1 n)
        in Node (child0 n) (insert_loop bs key c) (cidrKey n)
      else
        let c = (if child0 n = NilNode then new_node else child0 n)
        in Node (insert_loop bs key c) (child1 n) (cidrKey n))"

definition trie_insert :: "string \<Rightarrow> cidrTrie \<Rightarrow> cidrTrie" where
  "trie_insert cidrStr t =
     (case ParseCIDR cidrStr of
        None \<Rightarrow> t
      | Some (_, ipNet) \<Rightarrow>
          let (a, isV6) = normalizeIP (net_IP ipNet)
          in if a = [] then t
             else
               let (ones0, bits) = Mask_Size (net_Mask ipNet)
               in if bits = 0 then t
                  else
                    let ones = (if \<not> isV6 \<and> bits = 128 then int ones0 - 96 else int ones0);
                        maxBits = int (length a * 8)
                    in if ones < 0 \<or> maxBits < ones then t
                       else set_root isV6
                              (insert_loop (map (ip_bit a) [0..<nat ones]) (IPNet_String ipNet)
                                 (rootFor t isV6)) t)"

text \<open>The walk of the lookup: it stops at the first missing child.\<close>

fun find_loop :: "bool list \<Rightarrow> cidrTrieNode \<Rightarrow> string list" where
  "find_loop [] n = []"
| "find_loop (b # bs) n =
     (let c = (if b then child1 n else child0 n)
      in if c = NilNode then []
         else (if cidrKey c \<noteq> [] then [cidrKey c] else []) @ find_loop bs c)"

definition findContainingKeys :: "cidrTrie \<Rightarrow> ip \<Rightarrow> string list" where
  "findContainingKeys t a =
     (let (ipBytes, isV6) = normalizeIP a
      in if ipBytes = [] then []
         else
           let node = rootFor t isV6
           in (if cidrKey node \<noteq> [] then [cidrKey node] else []) @
              find_loop (map (ip_bit ipBytes) [0..<length ipBytes * 8]) node)"

section \<open>Nodes as maps from bit strings to keys\<close>

text \<open>The key stored at the end of a path; the empty string where there is none.\<close>

fun key_at :: "bool list \<Rightarrow> cidrTrieNode \<Rightarrow> string" where
  "key_at [] n = cidrKey n"
| "key_at (b # bs) n = key_at bs (if b then child1 n else child0 n)"

lemma key_at_Nil [simp]: "key_at bs NilNode = []"
  by (induction bs) auto

lemma key_at_new_node [simp]: "key_at bs new_node = []"
  by (cases bs) (simp_all add: new_node_def)

lemma key_at_insert_loop:
  "key_at bs (insert_loop bs' key n) = (if bs = bs' then key else key_at bs n)"
proof (induction bs' arbitrary: bs n)
  case Nil
  then show ?case by (cases bs) auto
next
  case (Cons b bs')
  then show ?case by (cases bs) (auto simp: Let_def)
qed

lemma find_loop_key_at:
  "find_loop bs n = filter (\<lambda>k. k \<noteq> []) (map (\<lambda>i. key_at (take i bs) n) [1..<Suc (length bs)])"
proof (induction bs arbitrary: n)
  case (Cons b bs)
  let ?c = "if b then child1 n else child0 n"
  have "map (\<lambda>i. key_at (take i (b # bs)) n) [1..<Suc (Suc (length bs))] =
        map (\<lambda>i. key_at (take i bs) ?c) [0..<Suc (length bs)]"
    by (simp add: map_Suc_upt [symmetric] comp_def del: upt_Suc)
  also have "\<dots> = cidrKey ?c # map (\<lambda>i. key_at (take i bs) ?c) [1..<Suc (length bs)]"
    by (simp add: upt_conv_Cons del: upt_Suc)
  finally show ?case
    using Cons.IH [of ?c] by (auto simp: Let_def simp del: upt_Suc)
qed simp

lemma ip_bit_bit: "ip_bit a i = bit (a ! (i div 8)) (7 - i mod 8)"
  by (simp add: ip_bit_def and_one_eq bit_iff_odd_drop_bit odd_iff_mod_2_eq_one)

lemma map_ip_bit: "n \<le> 8 * length a \<Longrightarrow> map (ip_bit a) [0..<n] = take n (bytes_bits a)"
  by (rule nth_equalityI) (simp_all add: ip_bit_bit nth_bytes_bits)

lemma length_norm_ip: "normalizeIP a = (b, v6) \<Longrightarrow> b \<noteq> [] \<Longrightarrow>
    b = norm_ip a \<and> length b = (if v6 then 16 else 4)"
  by (auto simp: normalizeIP_def norm_ip_def To16_def To4_def split: if_splits)

lemma normalizeIP_Nil: "normalizeIP a = ([], v6) \<Longrightarrow> length (norm_ip a) \<noteq> 4 \<and> length (norm_ip a) \<noteq> 16"
  by (auto simp: normalizeIP_def norm_ip_def To16_def split: if_splits)

section \<open>The set of networks a trie represents\<close>

definition trie_repr :: "IPNet set \<Rightarrow> cidrTrie \<Rightarrow> bool" where
  "trie_repr S t \<longleftrightarrow>
     (\<forall>n \<in> S. canon_net n) \<and>
     (\<forall>n \<in> S. key_at (snd (net_prefix n)) (rootFor t (fst (net_prefix n))) = IPNet_String n) \<and>
     (\<forall>v6 bits. (v6, bits) \<notin> net_prefix ` S \<longrightarrow> key_at bits (rootFor t v6) = [])"

lemma trie_repr_empty: "trie_repr {} newCIDRTrie"
  by (simp add: trie_repr_def newCIDRTrie_def rootFor_def)

text \<open>The shape of a parsed network: canonical, or an IPv6 network in the IPv4-mapped range.\<close>

lemma ParseCIDR_mask:
  assumes "ParseCIDR s = Some (a, n)"
  obtains k where "net_Mask n = mask_bytes 4 k" "k \<le> 32" "length (net_IP n) = 4"
  | k where "net_Mask n = mask_bytes 16 k" "k \<le> 128" "length (net_IP n) = 16"
      "To4 (net_IP n) \<noteq> [] \<Longrightarrow> 96 \<le> k"
proof -
  obtain ad m t k where ad: "ParseAddr t = Some ad" "k \<le> BitLen ad"
    and n: "n = \<lparr>net_IP = IP_Mask (As16 ad) (CIDRMask k (BitLen ad)), net_Mask = CIDRMask k (BitLen ad)\<rparr>"
    using assms by (auto simp: ParseCIDR_def Let_def not_less split: option.splits if_splits)
  show ?thesis
  proof (cases ad)
    case (Addr4 b)
    then have "length b = 4"
      using ad(1) by (auto simp: ParseAddr_def dest: parse_ipv4_length split: list.splits if_splits)
    then show ?thesis
      using that(1) [of k] n ad Addr4 by (simp add: IP_Mask_def CIDRMask_def Let_def)
  next
    case (Addr6 b)
    then have l16: "length b = 16"
      using ad(1) by (auto simp: ParseAddr_def dest: parse_ipv6_length split: list.splits if_splits)
    with Addr6 n have ip: "net_IP n = map2 (AND) b (mask_bytes 16 k)" and m: "net_Mask n = mask_bytes 16 k"
      by (simp_all add: IP_Mask_def CIDRMask_def Let_def)
    have l: "length b = 16" "k \<le> 128" using l16 ad Addr6 by simp_all
    then have "96 \<le> k" if "To4 (net_IP n) \<noteq> []"
      using that mapped_mask_length [OF l] by (auto simp: To4_def ip split: if_splits)
    with that(2) l ip m show ?thesis by simp
  qed
qed

lemma canon_IPNet_String_nonempty: "canon_net n \<Longrightarrow> IPNet_String n \<noteq> []"
  using ParseCIDR_IPNet_String [of n] by (auto simp: ParseCIDR_def)

lemma IPNet_String_inject:
  "canon_net m \<Longrightarrow> canon_net n \<Longrightarrow> IPNet_String m = IPNet_String n \<longleftrightarrow> m = n"
  by (metis ParseCIDR_IPNet_String option.inject prod.inject)

lemma trie_repr_insert:
  assumes "trie_repr S t" "canon_net n"
  shows "trie_repr (insert n S)
    (set_root (fst (net_prefix n))
      (insert_loop (snd (net_prefix n)) (IPNet_String n) (rootFor t (fst (net_prefix n)))) t)"
    (is "trie_repr _ ?t")
proof -
  have k: "key_at bits (rootFor ?t v6) =
      (if (v6, bits) = net_prefix n then IPNet_String n else key_at bits (rootFor t v6))" for v6 bits
    by (cases "net_prefix n") (auto simp: rootFor_def set_root_def key_at_insert_loop)
  show ?thesis unfolding trie_repr_def
  proof (intro conjI ballI allI impI)
    show "canon_net m" if "m \<in> insert n S" for m using that assms by (auto simp: trie_repr_def)
    show "key_at (snd (net_prefix m)) (rootFor ?t (fst (net_prefix m))) = IPNet_String m"
      if "m \<in> insert n S" for m
      using that assms canon_net_inject [of m n] by (auto simp: k trie_repr_def)
    show "key_at bits (rootFor ?t v6) = []" if "(v6, bits) \<notin> net_prefix ` insert n S" for v6 bits
      using that assms by (auto simp: k trie_repr_def)
  qed
qed

lemma trie_insert_parsed:
  assumes "ParseCIDR s = Some (a, n)"
  shows "trie_insert s t =
    set_root (fst (net_prefix (canon_of n)))
      (insert_loop (snd (net_prefix (canon_of n))) (IPNet_String (canon_of n))
        (rootFor t (fst (net_prefix (canon_of n))))) t"
proof -
  note str = canon_of_parse_eqs(1) [OF assms]
  from assms show ?thesis
  proof (cases rule: ParseCIDR_mask)
    case (1 k)
    then have c: "canon_of n = n" by (simp add: canon_of_def networkNumberAndMask_def To4_def Let_def)
    have "normalizeIP (net_IP n) = (net_IP n, False)" "net_IP n \<noteq> []" "net_ones n = k"
      using 1 by (auto simp: normalizeIP_def To4_def net_ones_def Mask_Size_def)
    with 1 assms c show ?thesis
      by (simp add: trie_insert_def Mask_Size_def net_prefix_def map_ip_bit)
  next
    case (2 k)
    then have ne: "net_IP n \<noteq> []" and o: "net_ones n = k" by (auto simp: net_ones_def Mask_Size_def)
    show ?thesis
    proof (cases "To4 (net_IP n) = []")
      case True
      with 2 have c: "canon_of n = n" by (simp add: canon_of_def networkNumberAndMask_def Let_def)
      have "normalizeIP (net_IP n) = (net_IP n, True)"
        using 2 True ne by (simp add: normalizeIP_def To16_def)
      with 2 assms c ne o show ?thesis
        by (simp add: trie_insert_def Mask_Size_def net_prefix_def map_ip_bit)
    next
      case False
      with 2 have k: "96 \<le> k" and l: "length (To4 (net_IP n)) = 4" by auto
      then have c: "canon_of n = \<lparr>net_IP = To4 (net_IP n), net_Mask = mask_bytes 4 (k - 96)\<rparr>"
        using 2 False drop_mask_bytes [of 12 k 4]
        by (simp add: canon_of_def networkNumberAndMask_def Let_def)
      have "normalizeIP (net_IP n) = (To4 (net_IP n), False)"
        using False by (simp add: normalizeIP_def)
      moreover have "nat (int k - 96) = k - 96" using k by simp
      ultimately show ?thesis
        using 2 assms c l False k str
        by (simp add: trie_insert_def Mask_Size_def net_prefix_def map_ip_bit)
    qed
  qed
qed

lemma trie_repr_trie_insert:
  assumes "trie_repr S t" "ParseCIDR s = Some (a, n)"
  shows "trie_repr (insert (canon_of n) S) (trie_insert s t)"
  using trie_repr_insert [OF assms(1) canon_net_of_parse(1) [OF assms(2)]] trie_insert_parsed [OF assms(2)]
  by simp

lemma trie_insert_unparsed: "ParseCIDR s = None \<Longrightarrow> trie_insert s t = t"
  by (simp add: trie_insert_def)

lemma findContainingKeys_key_at:
  assumes "normalizeIP a = (b, v6)" "b \<noteq> []"
  shows "findContainingKeys t a =
    filter (\<lambda>k. k \<noteq> [])
      (map (\<lambda>i. key_at (take i (bytes_bits b)) (rootFor t v6)) [0..<Suc (8 * length b)])"
proof -
  have "map (ip_bit b) [0..<length b * 8] = bytes_bits b"
    using map_ip_bit [of "8 * length b" b] by (simp add: mult.commute)
  then show ?thesis
    using assms by (simp add: findContainingKeys_def find_loop_key_at upt_conv_Cons [of 0] Let_def del: upt_Suc)
qed

lemma contains_iff_prefix:
  assumes "canon_net n" "normalizeIP a = (b, v6)" "b \<noteq> []"
  shows "IPNet_Contains n a \<longleftrightarrow>
    net_ones n \<le> 8 * length b \<and> net_prefix n = (v6, take (net_ones n) (bytes_bits b))"
proof -
  have b: "b = norm_ip a" "length b = (if v6 then 16 else 4)" using length_norm_ip assms by auto
  have l: "length (snd (net_prefix n)) = net_ones n" using length_net_prefix assms(1) by blast
  have "length b = length (net_IP n) \<longleftrightarrow> fst (net_prefix n) = v6"
    using assms(1) b(2) by (auto simp: canon_net_def net_prefix_def)
  moreover have "prefix (snd (net_prefix n)) (bytes_bits b) \<longleftrightarrow>
      net_ones n \<le> 8 * length b \<and> snd (net_prefix n) = take (net_ones n) (bytes_bits b)"
    using l by (metis length_bytes_bits prefix_length_le take_is_prefix append_eq_conv_conj prefix_def)
  ultimately show ?thesis
    using canon_net_contains [OF assms(1), of a] b(1) by (cases "net_prefix n") auto
qed

lemma trie_repr_key:
  "trie_repr S t \<Longrightarrow> n \<in> S \<Longrightarrow> net_prefix n = (v6, bits) \<Longrightarrow> key_at bits (rootFor t v6) = IPNet_String n"
  unfolding trie_repr_def by (metis fst_conv snd_conv)

lemma trie_repr_no_key:
  "trie_repr S t \<Longrightarrow> \<forall>n \<in> S. net_prefix n \<noteq> (v6, bits) \<Longrightarrow> key_at bits (rootFor t v6) = []"
  unfolding trie_repr_def by (metis imageE)

lemma trie_repr_find:
  assumes "trie_repr S t"
  shows "\<exists>ns. findContainingKeys t a = map IPNet_String ns \<and>
    set ns = {n \<in> S. IPNet_Contains n a} \<and> sorted_wrt (\<lambda>m n. net_ones m < net_ones n) ns"
proof -
  obtain b v6 where nb: "normalizeIP a = (b, v6)" by fastforce
  have canon: "canon_net n" if "n \<in> S" for n using assms that by (auto simp: trie_repr_def)
  show ?thesis
  proof (cases "b = []")
    case True
    have "\<not> IPNet_Contains n a" if "n \<in> S" for n
      using canon_net_contains [OF canon [OF that], of a] normalizeIP_Nil nb True canon [OF that]
      by (auto simp: canon_net_def)
    then show ?thesis using nb True by (intro exI [of _ "[]"]) (simp add: findContainingKeys_def)
  next
    case False
    let ?bits = "bytes_bits b"
    define P where "P i \<longleftrightarrow> (\<exists>n \<in> S. net_prefix n = (v6, take i ?bits))" for i
    define g where "g i = (SOME n. n \<in> S \<and> net_prefix n = (v6, take i ?bits))" for i
    define js where "js = filter P [0..<Suc (8 * length b)]"
    have g: "g i \<in> S" "net_prefix (g i) = (v6, take i ?bits)" if "P i" for i
      using that someI_ex [of "\<lambda>n. n \<in> S \<and> net_prefix n = (v6, take i ?bits)"]
      by (auto simp: P_def g_def)
    have js: "i \<in> set js \<longleftrightarrow> i \<le> 8 * length b \<and> P i" for i
      unfolding js_def by (simp del: upt_Suc add: less_Suc_eq_le)
    have ones: "net_ones (g i) = i" if "i \<in> set js" for i
      using that g [of i] length_net_prefix [OF canon [of "g i"]] by (auto simp: js min_absorb2)
    have key: "key_at (take i ?bits) (rootFor t v6) = (if P i then IPNet_String (g i) else [])" for i
      using trie_repr_key [OF assms g] trie_repr_no_key [OF assms] by (auto simp: P_def)
    have "findContainingKeys t a = map IPNet_String (map g js)"
      using canon_IPNet_String_nonempty [OF canon] g
      by (auto simp: findContainingKeys_key_at [OF nb False] filter_map key js_def comp_def
          simp del: upt_Suc intro!: arg_cong [where f = "map _"] filter_cong)
    moreover have "set (map g js) = {n \<in> S. IPNet_Contains n a}"
    proof (intro set_eqI iffI)
      fix n assume "n \<in> set (map g js)"
      then obtain i where i: "i \<in> set js" "n = g i" by auto
      then show "n \<in> {n \<in> S. IPNet_Contains n a}"
        using g [of i] ones [of i] contains_iff_prefix [OF canon nb False, of n] by (auto simp: js)
    next
      fix n assume "n \<in> {n \<in> S. IPNet_Contains n a}"
      then have n: "n \<in> S" "net_ones n \<le> 8 * length b" "net_prefix n = (v6, take (net_ones n) ?bits)"
        using contains_iff_prefix [OF canon nb False, of n] by auto
      then have p: "P (net_ones n)" by (auto simp: P_def)
      with n g [of "net_ones n"] canon canon_net_inject have "g (net_ones n) = n" by metis
      with p n show "n \<in> set (map g js)" by (force simp: js)
    qed
    moreover have "sorted_wrt (\<lambda>m n. net_ones m < net_ones n) (map g js)"
    proof -
      have "sorted_wrt (<) js" by (simp add: js_def sorted_wrt_filter del: upt_Suc)
      then show ?thesis
        unfolding sorted_wrt_map by (rule sorted_wrt_mono_rel [rotated]) (simp add: ones)
    qed
    ultimately show ?thesis by blast
  qed
qed

section \<open>The contract of a CIDR container\<close>

text \<open>The reference a container is compared with: a linear scan over all inserted networks.\<close>

definition parsed_nets :: "string list \<Rightarrow> IPNet list" where
  "parsed_nets cidrs = List.map_filter (\<lambda>s. map_option (\<lambda>(_, n). canon_of n) (ParseCIDR s)) cidrs"

definition scan_containing :: "string list \<Rightarrow> ip \<Rightarrow> string list" where
  "scan_containing cidrs a =
     map IPNet_String (sort_key net_ones (remdups (filter (\<lambda>n. IPNet_Contains n a) (parsed_nets cidrs))))"

lemma strict_sorted_key_unique:
  fixes f :: "'a \<Rightarrow> nat"
  assumes "sorted_wrt (\<lambda>x y. f x < f y) xs" "sorted (map f ys)" "distinct ys" "set xs = set ys"
  shows "xs = ys"
proof -
  have sx: "sorted_wrt (<) (map f xs)" using assms(1) by (simp add: sorted_wrt_map)
  then have dx: "distinct (map f xs)" and ox: "sorted (map f xs)"
    by (simp_all add: strict_sorted_iff)
  then have inj: "inj_on f (set xs)" by (simp add: distinct_map)
  then have "distinct (map f ys)" using assms by (simp add: distinct_map)
  then have "map f xs = map f ys"
    using sorted_distinct_set_unique [OF ox dx] assms by simp
  then show ?thesis using inj assms(4) by (intro inj_on_map_eq_map [THEN iffD1, of f]) simp_all
qed

locale cidr_container =
  fixes empty :: 't and ins :: "string \<Rightarrow> 't \<Rightarrow> 't" and find :: "'t \<Rightarrow> ip \<Rightarrow> string list"
    and repr :: "IPNet set \<Rightarrow> 't \<Rightarrow> bool"
  assumes repr_empty: "repr {} empty"
    and repr_ins: "repr S t \<Longrightarrow> ParseCIDR s = Some (a, n) \<Longrightarrow> repr (insert (canon_of n) S) (ins s t)"
    and ins_unparsed: "ParseCIDR s = None \<Longrightarrow> ins s t = t"
    and find_repr: "repr S t \<Longrightarrow>
      \<exists>ns. find t x = map IPNet_String ns \<and> set ns = {n \<in> S. IPNet_Contains n x} \<and>
           sorted_wrt (\<lambda>m n. net_ones m < net_ones n) ns"
begin

lemma repr_fold: "repr S t \<Longrightarrow> repr (S \<union> set (parsed_nets cidrs)) (fold ins cidrs t)"
proof (induction cidrs arbitrary: S t)
  case (Cons s cidrs)
  show ?case
  proof (cases "ParseCIDR s")
    case None
    then show ?thesis using Cons by (simp add: parsed_nets_def map_filter_simps ins_unparsed)
  next
    case (Some p)
    then obtain a n where p: "ParseCIDR s = Some (a, n)" by (cases p) auto
    from Cons.IH [OF repr_ins [OF Cons.prems p]] p show ?thesis
      by (simp add: parsed_nets_def map_filter_simps)
  qed
qed (simp add: parsed_nets_def map_filter_simps)

lemma find_eq_scan: "find (fold ins cidrs empty) x = scan_containing cidrs x"
proof -
  have "repr (set (parsed_nets cidrs)) (fold ins cidrs empty)"
    using repr_fold [OF repr_empty] by simp
  then obtain ns where ns: "find (fold ins cidrs empty) x = map IPNet_String ns"
      "set ns = {n \<in> set (parsed_nets cidrs). IPNet_Contains n x}"
      "sorted_wrt (\<lambda>m n. net_ones m < net_ones n) ns"
    using find_repr by blast
  then have "ns = sort_key net_ones (remdups (filter (\<lambda>n. IPNet_Contains n x) (parsed_nets cidrs)))"
    by (intro strict_sorted_key_unique [where f = net_ones]) auto
  then show ?thesis using ns by (simp add: scan_containing_def)
qed

lemma find_key:
  assumes "repr S t" "\<forall>n \<in> S. canon_net n" "canon_net m"
  shows "IPNet_String m \<in> set (find t x) \<longleftrightarrow> m \<in> S \<and> IPNet_Contains m x"
proof -
  obtain ns where "find t x = map IPNet_String ns" "set ns = {n \<in> S. IPNet_Contains n x}"
    using find_repr [OF assms(1)] by blast
  with assms(2,3) show ?thesis by (auto simp: IPNet_String_inject)
qed

end

interpretation trie: cidr_container newCIDRTrie trie_insert findContainingKeys trie_repr
  by unfold_locales
     (simp_all add: trie_repr_empty trie_repr_trie_insert trie_insert_unparsed trie_repr_find)

text \<open>C34: The trie is equivalent to a linear scan: after inserting any list of strings, looking up
  any address returns the canonical texts of exactly those inserted networks that contain it,
  without duplicates and from the shortest prefix to the longest.\<close>

theorem trie_equals_scan:
  "findContainingKeys (fold trie_insert cidrs newCIDRTrie) ip = scan_containing cidrs ip"
  by (rule trie.find_eq_scan)

end
