(* ===== verification/FwRules.thy ===== *)
theory FwRules
  imports Utils CidrTrie
begin

text \<open>
  \<^verbatim>\<open>pkg/fwruleprocessor/fw_rule_processor.go\<close>, the network policy half: rules are sorted by
  prefix length, canonicalised, merged per CIDR, inherit the ports of the broader CIDRs that
  contain them, and are encoded into the entries of the LPM map of a pod.
\<close>

section \<open>Data\<close>

record EbpfFirewallRules =
  fr_Priority :: int
  fr_Action :: RuleAction
  fr_DomainName :: string
  fr_IPCidr :: NetworkAddress
  fr_Except :: "NetworkAddress list"
  fr_L4Info :: "Port list"

record FirewallRuleProcessor =
  fwrp_nodeIP :: string
  fwrp_hostMask :: string
  fwrp_enableIPv6 :: bool

text \<open>The ports that stand for all traffic and for none; their protocols are package variables.\<close>

definition catchAllL4Entry :: Port where
  "catchAllL4Entry = \<lparr>port_Protocol = Some (0, CATCH_ALL_PROTOCOL), port_Port = None, port_EndPort = None\<rparr>"

definition denyAllL4Entry :: Port where
  "denyAllL4Entry = \<lparr>port_Protocol = Some (1, DENY_ALL_PROTOCOL), port_Port = None, port_EndPort = None\<rparr>"

definition addCatchAllL4Entry :: "EbpfFirewallRules \<Rightarrow> EbpfFirewallRules" where
  "addCatchAllL4Entry r = r\<lparr>fr_L4Info := fr_L4Info r @ [catchAllL4Entry]\<rparr>"

definition addDenyAllL4Entry :: "EbpfFirewallRules \<Rightarrow> EbpfFirewallRules" where
  "addDenyAllL4Entry r = r\<lparr>fr_L4Info := fr_L4Info r @ [denyAllL4Entry]\<rparr>"

section \<open>Helpers\<close>

definition isIPv6 :: "string \<Rightarrow> bool" where
  "isIPv6 cidr =
     (let a = (case ParseCIDR cidr of None \<Rightarrow> ParseIP cidr | Some (a, _) \<Rightarrow> a)
      in a \<noteq> [] \<and> To4 a = [])"

definition shouldSkipRule :: "FirewallRuleProcessor \<Rightarrow> string \<Rightarrow> bool" where
  "shouldSkipRule f cidr =
     (if IsNodeIP (fwrp_nodeIP f) cidr then True
      else
        let isIPv6CIDR = isIPv6 cidr
        in if fwrp_enableIPv6 f \<and> \<not> isIPv6CIDR then True
           else if \<not> fwrp_enableIPv6 f \<and> isIPv6CIDR then True
           else False)"

text \<open>The sort key: the written prefix length, or that of the host mask.\<close>

definition written_prefix_len :: "string \<Rightarrow> string \<Rightarrow> int" where
  "written_prefix_len prefixLenStr cidr =
     (if CHR ''/'' \<in> set cidr then go_atoi_or_zero (go_split (CHR ''/'') cidr ! 1)
      else go_atoi_or_zero (go_split (CHR ''/'') prefixLenStr ! 1))"

text \<open>
  \<^verbatim>\<open>sort.SliceStable\<close> with this comparison; each comparison indexes the split host mask, so two
  or more rules panic when the mask has no slash.
\<close>

definition sortFirewallRulesByPrefixLength ::
  "EbpfFirewallRules list \<Rightarrow> string \<Rightarrow> go_panic + EbpfFirewallRules list" where
  "sortFirewallRulesByPrefixLength rules prefixLenStr =
     (if 2 \<le> length rules \<and> length (go_split (CHR ''/'') prefixLenStr) < 2 then Inl IndexOutOfRange
      else Inr (sort_key (\<lambda>r. written_prefix_len prefixLenStr (fr_IPCidr r)) rules))"

text \<open>Whether some except CIDR of a rule contains the address; unparsable ones are ignored.\<close>

definition found_in_except :: "NetworkAddress list \<Rightarrow> ip \<Rightarrow> bool" where
  "found_in_except excepts a =
     (\<exists>e \<in> set excepts. case ParseCIDR e of None \<Rightarrow> False | Some (_, exceptEntry) \<Rightarrow> IPNet_Contains exceptEntry a)"

definition checkAndDeriveL4InfoFromAnyMatchingCIDRsTrie ::
  "string \<Rightarrow> cidrTrie \<Rightarrow> (string \<rightharpoonup> EbpfFirewallRules) \<Rightarrow> Port list" where
  "checkAndDeriveL4InfoFromAnyMatchingCIDRsTrie firewallRule trie nonHostCIDRs =
     (case ParseCIDR firewallRule of
        None \<Rightarrow> []
      | Some (_, ipToCheck) \<Rightarrow>
          concat (map (\<lambda>cidrKey.
            case nonHostCIDRs cidrKey of
              None \<Rightarrow> []
            | Some info \<Rightarrow>
                if found_in_except (fr_Except info) (net_IP ipToCheck) then [] else fr_L4Info info)
            (findContainingKeys trie (net_IP ipToCheck))))"

text \<open>
  The deduplication of ports: the first port of each key is kept in a map (\<open>first_by\<close>); the
  result is in map iteration order.
\<close>

type_synonym portKey = "string \<times> int \<times> int"

definition port_key :: "Port \<Rightarrow> portKey" where
  "port_key p =
     (case ptr_val (port_Protocol p) of None \<Rightarrow> [] | Some s \<Rightarrow> s,
      port_or_zero (port_Port p), port_or_zero (port_EndPort p))"

definition mergeDuplicateL4Info ::
  "((portKey, Port) go_map \<Rightarrow> (portKey, Port) go_map) \<Rightarrow> Port list \<Rightarrow> Port list" where
  "mergeDuplicateL4Info ord ports = map snd (ord (first_by port_key ports))"

section \<open>The map entries of a pod\<close>

record fw_state =
  st_cidrsMap :: "(string, EbpfFirewallRules) go_map"
  st_exceptCidrs :: "(string, unit) go_map"
  st_nonHostCIDRs :: "string \<rightharpoonup> EbpfFirewallRules"
  st_trie :: cidrTrie

definition fw_init :: fw_state where
  "fw_init = \<lparr>st_cidrsMap = [], st_exceptCidrs = [], st_nonHostCIDRs = Map.empty, st_trie = newCIDRTrie\<rparr>"

text \<open>The canonical text of a rule's CIDR, the host mask appended when it has none.\<close>

definition rule_cidr :: "FirewallRuleProcessor \<Rightarrow> NetworkAddress \<Rightarrow> string" where
  "rule_cidr f c =
     (let c0 = (if CHR ''/'' \<in> set c then c else c @ fwrp_hostMask f)
      in case ParseCIDR c0 of None \<Rightarrow> c0 | Some (_, ipNet) \<Rightarrow> IPNet_String ipNet)"

text \<open>One iteration of the loop over the sorted rules.\<close>

definition fw_step :: "FirewallRuleProcessor \<Rightarrow> EbpfFirewallRules \<Rightarrow> fw_state \<Rightarrow> go_panic + fw_state" where
  "fw_step f rule st =
     (let cidr = rule_cidr f (fr_IPCidr rule); rule0 = rule\<lparr>fr_IPCidr := cidr\<rparr>
      in if shouldSkipRule f cidr then Inr st
         else
           let excepts = fold (\<lambda>e m. AList.update e () m) (fr_Except rule) (st_exceptCidrs st);
               rule1 = (if fr_L4Info rule0 = [] then addCatchAllL4Entry rule0 else rule0);
               rule2 =
                 (case map_of (st_cidrsMap st) cidr of
                    Some existing \<Rightarrow>
                      rule1\<lparr>fr_L4Info := fr_L4Info rule1 @ fr_L4Info existing,
                            fr_Except := fr_Except rule1 @ fr_Except existing\<rparr>
                  | None \<Rightarrow>
                      let cidrL4Info =
                            checkAndDeriveL4InfoFromAnyMatchingCIDRsTrie cidr (st_trie st) (st_nonHostCIDRs st)
                      in if cidrL4Info \<noteq> [] then rule1\<lparr>fr_L4Info := fr_L4Info rule1 @ cidrL4Info\<rparr>
                         else rule1);
               st1 = st\<lparr>st_exceptCidrs := excepts, st_cidrsMap := AList.update cidr rule2 (st_cidrsMap st)\<rparr>
           in case IsNonHostCIDR cidr of
                Inl e \<Rightarrow> Inl e
              | Inr False \<Rightarrow> Inr st1
              | Inr True \<Rightarrow>
                  Inr (st1\<lparr>st_nonHostCIDRs := (st_nonHostCIDRs st)(cidr \<mapsto> rule2),
                           st_trie := (if st_nonHostCIDRs st cidr = None
                                       then trie_insert cidr (st_trie st) else st_trie st)\<rparr>))"

definition canonical_except :: "string \<Rightarrow> string" where
  "canonical_except exceptCidr =
     (case ParseCIDR exceptCidr of None \<Rightarrow> exceptCidr | Some (_, ipNet) \<Rightarrow> IPNet_String ipNet)"

text \<open>One iteration of the loop over the except CIDRs.\<close>

definition except_step ::
  "string \<Rightarrow> (string, EbpfFirewallRules) go_map \<Rightarrow> (string, EbpfFirewallRules) go_map" where
  "except_step exceptCidr cidrsMap =
     (let canonicalExcept = canonical_except exceptCidr
      in if map_of cidrsMap canonicalExcept = None
         then AList.update canonicalExcept
                (addDenyAllL4Entry
                   \<lparr>fr_Priority = 0, fr_Action = [], fr_DomainName = [], fr_IPCidr = canonicalExcept,
                    fr_Except = [], fr_L4Info = []\<rparr>) cidrsMap
         else cidrsMap)"

type_synonym bpf_entries = "(byte list, byte list) go_map"

text \<open>The iteration orders of the three maps the function ranges over.\<close>

record fw_orders =
  ord_excepts :: "(string, unit) go_map \<Rightarrow> (string, unit) go_map"
  ord_cidrs :: "(string, EbpfFirewallRules) go_map \<Rightarrow> (string, EbpfFirewallRules) go_map"
  ord_ports :: "string \<Rightarrow> (portKey, Port) go_map \<Rightarrow> (portKey, Port) go_map"

definition orders_ok :: "fw_orders \<Rightarrow> bool" where
  "orders_ok os \<longleftrightarrow> range_order (ord_excepts os) \<and> range_order (ord_cidrs os) \<and>
     (\<forall>c. range_order (ord_ports os c))"

text \<open>One iteration of the encoding loop; dereferencing the key of an unparsable CIDR panics.\<close>

definition encode_step ::
  "fw_orders \<Rightarrow> FirewallRuleProcessor \<Rightarrow> string \<times> EbpfFirewallRules \<Rightarrow> bpf_entries \<Rightarrow> go_panic + bpf_entries" where
  "encode_step os f = (\<lambda>(key, value) firewallMap.
     case ParseCIDR key of
       None \<Rightarrow> Inl NilDereference
     | Some (_, firewallMapKey) \<Rightarrow>
         let firewallKey = ComputeTrieKey firewallMapKey (fwrp_enableIPv6 f);
             l4 = (if fr_L4Info value \<noteq> [] then mergeDuplicateL4Info (ord_ports os key) (fr_L4Info value)
                   else fr_L4Info value)
         in Inr (AList.update firewallKey (ComputeTrieValue l4 False False) firewallMap))"

definition ComputeMapEntriesFromEndpointRules ::
  "fw_orders \<Rightarrow> FirewallRuleProcessor \<Rightarrow> EbpfFirewallRules list \<Rightarrow> go_panic + bpf_entries" where
  "ComputeMapEntriesFromEndpointRules os f firewallRules =
     (case ParseCIDR (fwrp_nodeIP f @ fwrp_hostMask f) of
        None \<Rightarrow> Inl NilDereference
      | Some (_, mapKey) \<Rightarrow>
          let firewallMap = [(ComputeTrieKey mapKey (fwrp_enableIPv6 f), ComputeTrieValue [] True False)]
          in case sortFirewallRulesByPrefixLength firewallRules (fwrp_hostMask f) of
               Inl e \<Rightarrow> Inl e
             | Inr sorted_rules \<Rightarrow>
                 (case fold_panic (fw_step f) sorted_rules fw_init of
                    Inl e \<Rightarrow> Inl e
                  | Inr st \<Rightarrow>
                      let cidrsMap = fold except_step (map fst (ord_excepts os (st_exceptCidrs st)))
                                       (st_cidrsMap st)
                      in fold_panic (encode_step os f) (ord_cidrs os cidrsMap) firewallMap))"

section \<open>Canonical texts\<close>

lemma IPNet_String_canon:
  assumes "canon_net n"
  shows "IPNet_String n = IP_String (net_IP n) @ CHR ''/'' # nat_string (net_ones n)"
    and "CHR ''/'' \<notin> set (IP_String (net_IP n))"
proof -
  show "IPNet_String n = IP_String (net_IP n) @ CHR ''/'' # nat_string (net_ones n)"
    using assms by (simp add: IPNet_String_def) (auto simp: canon_net_def)
  consider "length (net_IP n) = 4" | "length (net_IP n) = 16" "To4 (net_IP n) = []"
    using assms by (auto simp: canon_net_def)
  then show "CHR ''/'' \<notin> set (IP_String (net_IP n))"
  proof cases
    case 1
    then show ?thesis using ipv4_string_no_slash by (auto simp: IP_String_def To4_def)
  next
    case 2
    have "CHR ''/'' \<notin> set (ipv6_string (net_IP n))" using ipv6_string_Cons [OF 2(1)] by metis
    with 2 show ?thesis by (auto simp: IP_String_def)
  qed
qed

definition nonhost :: "IPNet \<Rightarrow> bool" where
  "nonhost n \<longleftrightarrow> net_ones n \<noteq> 32 \<and> net_ones n \<noteq> 128"

lemma nat_string_inject [simp]: "nat_string a = nat_string b \<longleftrightarrow> a = b"
  by (metis digits_val_nat_string option.inject)

lemma nat_string_eval: "nat_string 32 = ''32''" "nat_string 128 = ''128''"
  by code_simp+

lemma IsNonHostCIDR_canon: "canon_net n \<Longrightarrow> IsNonHostCIDR (IPNet_String n) = Inr (nonhost n)"
  using nat_string_inject [of "net_ones n" 32] nat_string_inject [of "net_ones n" 128]
  by (simp add: IPNet_String_canon go_split_append nat_string_not_in IsNonHostCIDR_def Let_def
      nat_string_eval nonhost_def digit_val_def)

text \<open>The canonical network of a rule.\<close>

definition rule_net :: "FirewallRuleProcessor \<Rightarrow> NetworkAddress \<Rightarrow> IPNet option" where
  "rule_net f c =
     (case ParseCIDR (if CHR ''/'' \<in> set c then c else c @ fwrp_hostMask f) of
        None \<Rightarrow> None | Some (_, n) \<Rightarrow> Some (canon_of n))"

lemma rule_net_Some:
  assumes "rule_net f c = Some n"
  shows "rule_cidr f c = IPNet_String n" and "canon_net n"
    and "ParseCIDR (IPNet_String n) = Some (To16 (net_IP n), n)"
proof -
  obtain a n' where p: "ParseCIDR (if CHR ''/'' \<in> set c then c else c @ fwrp_hostMask f) = Some (a, n')"
    and n: "n = canon_of n'"
    using assms by (auto simp: rule_net_def split: option.splits)
  show "rule_cidr f c = IPNet_String n"
    using p canon_of_parse_eqs(1) [OF p] n by (simp add: rule_cidr_def Let_def)
  show c: "canon_net n" using canon_net_of_parse(1) [OF p] n by simp
  show "ParseCIDR (IPNet_String n) = Some (To16 (net_IP n), n)" by (rule ParseCIDR_IPNet_String [OF c])
qed

section \<open>What the ports of a CIDR should be\<close>

definition eff_ports :: "EbpfFirewallRules \<Rightarrow> Port list" where
  "eff_ports r = (if fr_L4Info r = [] then [catchAllL4Entry] else fr_L4Info r)"

abbreviation has_net :: "FirewallRuleProcessor \<Rightarrow> IPNet \<Rightarrow> EbpfFirewallRules \<Rightarrow> bool" where
  "has_net f n r \<equiv> rule_net f (fr_IPCidr r) = Some n"

definition rule_nets :: "FirewallRuleProcessor \<Rightarrow> EbpfFirewallRules list \<Rightarrow> IPNet set" where
  "rule_nets f rs = {n. \<exists>r \<in> set rs. has_net f n r}"

definition excepts_of :: "FirewallRuleProcessor \<Rightarrow> EbpfFirewallRules list \<Rightarrow> IPNet \<Rightarrow> NetworkAddress set" where
  "excepts_of f rs n = (\<Union>r \<in> {r \<in> set rs. has_net f n r}. set (fr_Except r))"

definition excepted :: "NetworkAddress set \<Rightarrow> ip \<Rightarrow> bool" where
  "excepted es a \<longleftrightarrow> (\<exists>e \<in> es. \<exists>b n. ParseCIDR e = Some (b, n) \<and> IPNet_Contains n a)"

lemma excepted_code [code]:
  "excepted es a = (\<exists>e \<in> es. case ParseCIDR e of None \<Rightarrow> False | Some (_, n) \<Rightarrow> IPNet_Contains n a)"
  unfolding excepted_def by (intro bex_cong refl) (simp split: option.split)

lemma found_in_except_set: "found_in_except es a = excepted (set es) a"
  unfolding found_in_except_def excepted_def
  by (intro bex_cong refl) (simp split: option.split)

text \<open>
  The ports enforced for a network: those of its own rules, and those of a strictly broader
  network that contains it and does not except its address.
\<close>

inductive port_for ::
  "FirewallRuleProcessor \<Rightarrow> EbpfFirewallRules list \<Rightarrow> IPNet \<Rightarrow> Port \<Rightarrow> bool" for f rs where
  own: "r \<in> set rs \<Longrightarrow> has_net f n r \<Longrightarrow> p \<in> set (eff_ports r) \<Longrightarrow> port_for f rs n p"
| inherit: "port_for f rs m p \<Longrightarrow> nonhost m \<Longrightarrow> net_ones m < net_ones n \<Longrightarrow>
    IPNet_Contains m (net_IP n) \<Longrightarrow> n \<in> rule_nets f rs \<Longrightarrow>
    \<not> excepted (excepts_of f rs m) (net_IP n) \<Longrightarrow> port_for f rs n p"

inductive_cases port_forE: "port_for f rs n p"

lemma port_for_net: "port_for f rs n p \<Longrightarrow> n \<in> rule_nets f rs"
  by (induction rule: port_for.induct) (auto simp: rule_nets_def)

lemma rule_nets_snoc: "has_net f n r \<Longrightarrow> rule_nets f (rs @ [r]) = insert n (rule_nets f rs)"
  by (auto simp: rule_nets_def)

lemma excepts_of_snoc:
  "has_net f n r \<Longrightarrow> excepts_of f (rs @ [r]) m =
     (if m = n then set (fr_Except r) \<union> excepts_of f rs n else excepts_of f rs m)"
  by (auto simp: excepts_of_def)

lemma port_for_mono_short:
  assumes "has_net f n r" "port_for f (rs @ [r]) m p" "net_ones m \<le> net_ones n" "m \<noteq> n"
  shows "port_for f rs m p"
  using assms(2-4)
proof (induction rule: port_for.induct)
  case (own r' m p)
  then show ?case using assms(1) by (auto intro: port_for.own)
next
  case (inherit l p m)
  have l: "net_ones l < net_ones n" using inherit.hyps inherit.prems by simp
  then have "l \<noteq> n" by auto
  with inherit l assms(1) show ?case
    by (intro port_for.inherit [of f rs l p m])
       (auto simp: rule_nets_snoc excepts_of_snoc)
qed

lemma port_for_snoc_other:
  assumes "has_net f n r" "port_for f rs m p" "\<forall>k \<in> rule_nets f rs. net_ones k \<le> net_ones n"
  shows "port_for f (rs @ [r]) m p"
  using assms(2)
proof (induction rule: port_for.induct)
  case (own r' m p)
  then show ?case by (auto intro: port_for.own)
next
  case (inherit l p m)
  moreover have "net_ones m \<le> net_ones n" using inherit assms(3) by auto
  ultimately have "l \<noteq> n" by auto
  with inherit assms(1) show ?case
    by (intro port_for.inherit [of f "rs @ [r]" l p m])
       (auto simp: rule_nets_snoc excepts_of_snoc)
qed

lemma canon_norm_ip: "canon_net n \<Longrightarrow> norm_ip (net_IP n) = net_IP n"
  by (auto simp: canon_net_def norm_ip_def To4_def)

lemma canon_contains_self: "canon_net n \<Longrightarrow> IPNet_Contains n (net_IP n)"
  by (simp add: canon_net_contains canon_norm_ip) (simp add: net_prefix_def take_is_prefix)

text \<open>Two networks of the same length that share an address are the same.\<close>

lemma contains_same_ones:
  assumes "canon_net m" "canon_net n" "IPNet_Contains m a" "IPNet_Contains n a" "net_ones m = net_ones n"
  shows "m = n"
proof -
  have "length (net_IP m) = length (net_IP n)"
    and "prefix (snd (net_prefix m)) (bytes_bits (norm_ip a))"
    and "prefix (snd (net_prefix n)) (bytes_bits (norm_ip a))"
    using assms by (simp_all add: canon_net_contains)
  moreover have "length (snd (net_prefix m)) = length (snd (net_prefix n))"
    using assms by (simp add: length_net_prefix)
  ultimately have "net_prefix m = net_prefix n"
    by (metis prefix_def append_eq_append_conv net_prefix_def prod.collapse fst_conv)
  then show ?thesis using assms canon_net_inject by blast
qed

lemma port_for_snoc_new:
  assumes "has_net f n r" "\<forall>k \<in> rule_nets f rs. net_ones k \<le> net_ones n"
    "n \<notin> rule_nets f rs" "\<forall>k \<in> insert n (rule_nets f rs). canon_net k"
  shows "port_for f (rs @ [r]) n p \<longleftrightarrow>
    p \<in> set (eff_ports r) \<or>
    (\<exists>m \<in> rule_nets f rs. nonhost m \<and> IPNet_Contains m (net_IP n) \<and>
       \<not> excepted (excepts_of f rs m) (net_IP n) \<and> port_for f rs m p)"
    (is "?l \<longleftrightarrow> ?own \<or> ?inh")
proof
  assume ?l
  then show "?own \<or> ?inh"
  proof (cases rule: port_for.cases)
    case (own r')
    with assms show ?thesis by (auto simp: rule_nets_def)
  next
    case (inherit m)
    then have "m \<noteq> n" by auto
    then have "port_for f rs m p"
      using port_for_mono_short [OF assms(1)] inherit by simp
    with inherit \<open>m \<noteq> n\<close> assms(1) show ?thesis
      by (auto simp: excepts_of_snoc dest: port_for_net)
  qed
next
  assume "?own \<or> ?inh"
  then show ?l
  proof
    assume ?own
    then show ?l using assms(1) by (auto intro: port_for.own)
  next
    assume ?inh
    then obtain m where m: "m \<in> rule_nets f rs" "nonhost m" "IPNet_Contains m (net_IP n)"
        "\<not> excepted (excepts_of f rs m) (net_IP n)" "port_for f rs m p"
      by blast
    have "m \<noteq> n" using m assms by auto
    moreover have "net_ones m \<noteq> net_ones n"
      using contains_same_ones [of m n "net_IP n"] canon_contains_self m assms \<open>m \<noteq> n\<close> by blast
    ultimately show ?l
      using m assms by (intro port_for.inherit [OF port_for_snoc_other [OF assms(1) m(5) assms(2)]])
        (auto simp: rule_nets_snoc excepts_of_snoc order_le_neq_trans)
  qed
qed

lemma port_for_snoc_old:
  assumes "has_net f n r" "\<forall>k \<in> rule_nets f rs. net_ones k \<le> net_ones n" "n \<in> rule_nets f rs"
  shows "port_for f (rs @ [r]) n p \<longleftrightarrow> p \<in> set (eff_ports r) \<or> port_for f rs n p"
proof
  assume "port_for f (rs @ [r]) n p"
  then show "p \<in> set (eff_ports r) \<or> port_for f rs n p"
  proof (cases rule: port_for.cases)
    case (own r')
    then show ?thesis by (auto intro: port_for.own)
  next
    case (inherit m)
    then have "m \<noteq> n" by auto
    then have "port_for f rs m p" using port_for_mono_short [OF assms(1)] inherit by simp
    with inherit \<open>m \<noteq> n\<close> assms show ?thesis
      by (auto simp: excepts_of_snoc intro: port_for.inherit)
  qed
next
  assume "p \<in> set (eff_ports r) \<or> port_for f rs n p"
  then show "port_for f (rs @ [r]) n p"
    using assms by (auto intro: port_for.own port_for_snoc_other)
qed

section \<open>The invariant of the loop over the rules\<close>

definition fw_inv :: "FirewallRuleProcessor \<Rightarrow> EbpfFirewallRules list \<Rightarrow> fw_state \<Rightarrow> bool" where
  "fw_inv f rs st \<longleftrightarrow>
     go_map_wf (st_cidrsMap st) \<and>
     dom (map_of (st_cidrsMap st)) = IPNet_String ` rule_nets f rs \<and>
     (\<forall>n \<in> rule_nets f rs. \<exists>v. map_of (st_cidrsMap st) (IPNet_String n) = Some v \<and>
        set (fr_L4Info v) = {p. port_for f rs n p} \<and> set (fr_Except v) = excepts_of f rs n) \<and>
     (\<forall>n. canon_net n \<longrightarrow> st_nonHostCIDRs st (IPNet_String n) =
        (if nonhost n then map_of (st_cidrsMap st) (IPNet_String n) else None)) \<and>
     trie_repr {n \<in> rule_nets f rs. nonhost n} (st_trie st) \<and>
     fst ` set (st_exceptCidrs st) = (\<Union>r \<in> set rs. set (fr_Except r))"

lemma fw_invD:
  assumes "fw_inv f rs st"
  shows fw_inv_wf: "go_map_wf (st_cidrsMap st)"
    and fw_inv_domain: "dom (map_of (st_cidrsMap st)) = IPNet_String ` rule_nets f rs"
    and fw_inv_rule: "n \<in> rule_nets f rs \<Longrightarrow> \<exists>v. map_of (st_cidrsMap st) (IPNet_String n) = Some v \<and>
        set (fr_L4Info v) = {p. port_for f rs n p} \<and> set (fr_Except v) = excepts_of f rs n"
    and fw_inv_nonHost: "canon_net n \<Longrightarrow> st_nonHostCIDRs st (IPNet_String n) =
        (if nonhost n then map_of (st_cidrsMap st) (IPNet_String n) else None)"
    and fw_inv_trie: "trie_repr {n \<in> rule_nets f rs. nonhost n} (st_trie st)"
    and fw_inv_excepts: "fst ` set (st_exceptCidrs st) = (\<Union>r \<in> set rs. set (fr_Except r))"
  using assms by (simp_all only: fw_inv_def)

lemma fw_inv_init: "fw_inv f [] fw_init"
  by (simp add: fw_inv_def fw_init_def rule_nets_def trie_repr_empty)

lemma fold_update_keys:
  "fst ` set (fold (\<lambda>e m. AList.update e () m) es m) = fst ` set m \<union> set es"
proof (induction es arbitrary: m)
  case (Cons e es)
  have "fst ` set (AList.update e () m) = insert e (fst ` set m)"
    using dom_update [of e "()" m] by (simp add: dom_map_of_conv_image_fst)
  with Cons show ?case by auto
qed simp

lemma derive_ports:
  assumes inv: "fw_inv f rs st" and n: "canon_net n" and canon: "\<forall>k \<in> rule_nets f rs. canon_net k"
  shows "set (checkAndDeriveL4InfoFromAnyMatchingCIDRsTrie (IPNet_String n) (st_trie st) (st_nonHostCIDRs st)) =
    {p. \<exists>m \<in> rule_nets f rs. nonhost m \<and> IPNet_Contains m (net_IP n) \<and>
       \<not> excepted (excepts_of f rs m) (net_IP n) \<and> port_for f rs m p}" (is "?L = ?R")
proof -
  let ?S = "{m \<in> rule_nets f rs. nonhost m}"
  have "trie_repr ?S (st_trie st)" using inv by (simp add: fw_inv_def)
  then obtain ns where ns: "findContainingKeys (st_trie st) (net_IP n) = map IPNet_String ns"
      "set ns = {m \<in> ?S. IPNet_Contains m (net_IP n)}"
    using trie.find_repr by blast
  have v: "\<exists>v. st_nonHostCIDRs st (IPNet_String m) = Some v \<and> set (fr_L4Info v) = {p. port_for f rs m p} \<and>
      set (fr_Except v) = excepts_of f rs m" if "m \<in> set ns" for m
    using that ns inv canon by (fastforce simp: fw_inv_def)
  have "set (case st_nonHostCIDRs st (IPNet_String m) of None \<Rightarrow> []
      | Some info \<Rightarrow> if found_in_except (fr_Except info) (net_IP n) then [] else fr_L4Info info) =
    {p. \<not> excepted (excepts_of f rs m) (net_IP n) \<and> port_for f rs m p}" if "m \<in> set ns" for m
  proof -
    obtain v where "st_nonHostCIDRs st (IPNet_String m) = Some v"
      "set (fr_L4Info v) = {p. port_for f rs m p}" "set (fr_Except v) = excepts_of f rs m"
      using v [OF \<open>m \<in> set ns\<close>] by blast
    then show ?thesis by (simp add: found_in_except_set)
  qed
  then show ?thesis
    using ns by (auto simp: checkAndDeriveL4InfoFromAnyMatchingCIDRsTrie_def ParseCIDR_IPNet_String [OF n])
qed

text \<open>The rule a step stores for its CIDR.\<close>

definition merged_rule :: "string \<Rightarrow> EbpfFirewallRules \<Rightarrow> fw_state \<Rightarrow> EbpfFirewallRules" where
  "merged_rule cidr rule st =
     (let rule1 = rule\<lparr>fr_IPCidr := cidr, fr_L4Info := eff_ports rule\<rparr>
      in case map_of (st_cidrsMap st) cidr of
           Some existing \<Rightarrow>
             rule1\<lparr>fr_L4Info := eff_ports rule @ fr_L4Info existing,
                   fr_Except := fr_Except rule @ fr_Except existing\<rparr>
         | None \<Rightarrow>
             rule1\<lparr>fr_L4Info := eff_ports rule @
               checkAndDeriveL4InfoFromAnyMatchingCIDRsTrie cidr (st_trie st) (st_nonHostCIDRs st)\<rparr>)"

lemma fw_step_active:
  assumes "has_net f n r" "\<not> shouldSkipRule f (rule_cidr f (fr_IPCidr r))"
  shows "fw_step f r st = Inr (let c = IPNet_String n; v = merged_rule c r st in
     st\<lparr>st_exceptCidrs := fold (\<lambda>e m. AList.update e () m) (fr_Except r) (st_exceptCidrs st),
        st_cidrsMap := AList.update c v (st_cidrsMap st),
        st_nonHostCIDRs := (if nonhost n then (st_nonHostCIDRs st)(c \<mapsto> v) else st_nonHostCIDRs st),
        st_trie := (if nonhost n \<and> st_nonHostCIDRs st c = None then trie_insert c (st_trie st)
                    else st_trie st)\<rparr>)"
  using assms rule_net_Some [OF assms(1)]
  by (simp add: fw_step_def IsNonHostCIDR_canon merged_rule_def eff_ports_def addCatchAllL4Entry_def
      Let_def split: option.split)

lemma String_image_iff:
  "canon_net n \<Longrightarrow> \<forall>k \<in> S. canon_net k \<Longrightarrow> IPNet_String n \<in> IPNet_String ` S \<longleftrightarrow> n \<in> S"
  by (auto simp: IPNet_String_inject)

lemma fw_inv_dom:
  assumes "fw_inv f rs st" "canon_net n" "\<forall>k \<in> rule_nets f rs. canon_net k"
  shows "map_of (st_cidrsMap st) (IPNet_String n) = None \<longleftrightarrow> n \<notin> rule_nets f rs"
proof -
  have "dom (map_of (st_cidrsMap st)) = IPNet_String ` rule_nets f rs"
    using assms(1) by (rule fw_inv_domain)
  then show ?thesis using String_image_iff [OF assms(2,3)] by (metis domIff)
qed

lemma merged_rule_ports:
  assumes inv: "fw_inv f rs st" and r: "has_net f n r"
    and canon: "\<forall>k \<in> rule_nets f rs. canon_net k" and srt: "\<forall>k \<in> rule_nets f rs. net_ones k \<le> net_ones n"
  shows "set (fr_L4Info (merged_rule (IPNet_String n) r st)) = {p. port_for f (rs @ [r]) n p}"
    and "set (fr_Except (merged_rule (IPNet_String n) r st)) = excepts_of f (rs @ [r]) n"
proof -
  note n = rule_net_Some(2) [OF r]
  have "set (fr_L4Info (merged_rule (IPNet_String n) r st)) = {p. port_for f (rs @ [r]) n p} \<and>
      set (fr_Except (merged_rule (IPNet_String n) r st)) = excepts_of f (rs @ [r]) n"
  proof (cases "n \<in> rule_nets f rs")
    case True
    then obtain v where v: "map_of (st_cidrsMap st) (IPNet_String n) = Some v"
        "set (fr_L4Info v) = {p. port_for f rs n p}" "set (fr_Except v) = excepts_of f rs n"
      using fw_inv_rule [OF inv] by blast
    with port_for_snoc_old [OF r srt True] excepts_of_snoc [OF r] show ?thesis
      by (auto simp: merged_rule_def)
  next
    case False
    then have "map_of (st_cidrsMap st) (IPNet_String n) = None" using fw_inv_dom [OF inv n canon] by simp
    moreover have "excepts_of f rs n = {}" using False by (auto simp: excepts_of_def rule_nets_def)
    ultimately show ?thesis
      using port_for_snoc_new [OF r srt False] n canon derive_ports [OF inv n canon] excepts_of_snoc [OF r]
      by (auto simp: merged_rule_def)
  qed
  then show "set (fr_L4Info (merged_rule (IPNet_String n) r st)) = {p. port_for f (rs @ [r]) n p}"
    and "set (fr_Except (merged_rule (IPNet_String n) r st)) = excepts_of f (rs @ [r]) n" by auto
qed

lemma port_for_snoc_others:
  assumes "has_net f n r" "\<forall>k \<in> rule_nets f rs. net_ones k \<le> net_ones n" "m \<in> rule_nets f rs" "m \<noteq> n"
  shows "port_for f (rs @ [r]) m p \<longleftrightarrow> port_for f rs m p"
  using port_for_mono_short [OF assms(1)] port_for_snoc_other [OF assms(1) _ assms(2)] assms by blast

lemma fw_step_inv:
  assumes inv: "fw_inv f rs st" and r: "has_net f n r"
    and act: "\<not> shouldSkipRule f (rule_cidr f (fr_IPCidr r))"
    and canon: "\<forall>k \<in> rule_nets f rs. canon_net k" and srt: "\<forall>k \<in> rule_nets f rs. net_ones k \<le> net_ones n"
  shows "\<exists>st'. fw_step f r st = Inr st' \<and> fw_inv f (rs @ [r]) st'"
proof -
  let ?c = "IPNet_String n" and ?v = "merged_rule (IPNet_String n) r st"
  define st' where "st' = (let c = ?c; v = ?v in
     st\<lparr>st_exceptCidrs := fold (\<lambda>e m. AList.update e () m) (fr_Except r) (st_exceptCidrs st),
        st_cidrsMap := AList.update c v (st_cidrsMap st),
        st_nonHostCIDRs := (if nonhost n then (st_nonHostCIDRs st)(c \<mapsto> v) else st_nonHostCIDRs st),
        st_trie := (if nonhost n \<and> st_nonHostCIDRs st c = None then trie_insert c (st_trie st)
                    else st_trie st)\<rparr>)"
  have step: "fw_step f r st = Inr st'" using fw_step_active [OF r act] by (simp add: st'_def)
  note n = rule_net_Some(2,3) [OF r]
  note nets = rule_nets_snoc [OF r, of rs]
  have "fw_inv f (rs @ [r]) st'" unfolding fw_inv_def
  proof (intro conjI ballI allI impI)
    show "go_map_wf (st_cidrsMap st')" using fw_inv_wf [OF inv] by (simp add: st'_def Let_def)
    show "dom (map_of (st_cidrsMap st')) = IPNet_String ` rule_nets f (rs @ [r])"
      using fw_inv_domain [OF inv] by (simp add: st'_def Let_def nets)
    show "fst ` set (st_exceptCidrs st') = (\<Union>r \<in> set (rs @ [r]). set (fr_Except r))"
      using fw_inv_excepts [OF inv] by (simp add: st'_def Let_def fold_update_keys Un_commute)
    show "trie_repr {k \<in> rule_nets f (rs @ [r]). nonhost k} (st_trie st')"
    proof (cases "nonhost n")
      case True
      then have "{k \<in> rule_nets f (rs @ [r]). nonhost k} = insert n {k \<in> rule_nets f rs. nonhost k}"
        by (auto simp: nets)
      moreover have "st_nonHostCIDRs st ?c = None \<longleftrightarrow> n \<notin> rule_nets f rs"
        using fw_inv_nonHost [OF inv n(1)] fw_inv_dom [OF inv n(1) canon] True by simp
      ultimately show ?thesis
        using trie.repr_ins [OF fw_inv_trie [OF inv] n(2)] fw_inv_trie [OF inv] True n(1)
        by (auto simp: st'_def Let_def insert_absorb)
    next
      case False
      then have "{k \<in> rule_nets f (rs @ [r]). nonhost k} = {k \<in> rule_nets f rs. nonhost k}"
        by (auto simp: nets)
      then show ?thesis using fw_inv_trie [OF inv] False by (simp add: st'_def Let_def)
    qed
    show "st_nonHostCIDRs st' (IPNet_String k) =
        (if nonhost k then map_of (st_cidrsMap st') (IPNet_String k) else None)" if "canon_net k" for k
      using fw_inv_nonHost [OF inv that] IPNet_String_inject [OF that n(1)]
      by (auto simp: st'_def Let_def)
    show "\<exists>v. map_of (st_cidrsMap st') (IPNet_String k) = Some v \<and>
        set (fr_L4Info v) = {p. port_for f (rs @ [r]) k p} \<and> set (fr_Except v) = excepts_of f (rs @ [r]) k"
      if k: "k \<in> rule_nets f (rs @ [r])" for k
    proof (cases "k = n")
      case True
      then show ?thesis
        using merged_rule_ports [OF inv r canon srt] by (simp add: st'_def Let_def)
    next
      case False
      then have "k \<in> rule_nets f rs" "IPNet_String k \<noteq> ?c"
        using k nets canon n IPNet_String_inject [of k n] by auto
      with fw_inv_rule [OF inv] port_for_snoc_others [OF r srt] False excepts_of_snoc [OF r]
      show ?thesis by (simp add: st'_def Let_def)
    qed
  qed
  with step show ?thesis by blast
qed

definition active :: "FirewallRuleProcessor \<Rightarrow> EbpfFirewallRules \<Rightarrow> bool" where
  "active f r \<longleftrightarrow> \<not> shouldSkipRule f (rule_cidr f (fr_IPCidr r))"

lemma fold_panic_active: "fold_panic (fw_step f) rs st = fold_panic (fw_step f) (filter (active f) rs) st"
  by (induction rs arbitrary: st) (auto simp: active_def fw_step_def Let_def split: sum.splits)

lemma rule_nets_canon: "\<forall>k \<in> rule_nets f rs. canon_net k"
  by (auto simp: rule_nets_def dest: rule_net_Some(2))

definition net_of :: "FirewallRuleProcessor \<Rightarrow> EbpfFirewallRules \<Rightarrow> IPNet" where
  "net_of f r = the (rule_net f (fr_IPCidr r))"

lemma fw_loop:
  assumes "\<forall>r \<in> set rs. active f r \<and> rule_net f (fr_IPCidr r) \<noteq> None"
    and "sorted (map (\<lambda>r. net_ones (net_of f r)) rs)"
  shows "\<exists>st. fold_panic (fw_step f) rs fw_init = Inr st \<and> fw_inv f rs st"
  using assms
proof (induction rs rule: rev_induct)
  case Nil
  show ?case by (simp add: fw_inv_init)
next
  case (snoc r rs)
  then obtain st where st: "fold_panic (fw_step f) rs fw_init = Inr st" "fw_inv f rs st"
    by (auto simp: sorted_append)
  from snoc.prems have r: "has_net f (net_of f r) r" by (auto simp: net_of_def)
  have "\<forall>k \<in> rule_nets f rs. net_ones k \<le> net_ones (net_of f r)"
    using snoc.prems(2) by (auto simp: rule_nets_def net_of_def sorted_append)
  with fw_step_inv [OF st(2) r _ rule_nets_canon] snoc.prems(1) st(1)
  show ?case by (auto simp: fold_panic_append active_def)
qed

text \<open>A rule whose network is written in the family it belongs to, so that the written prefix
  length is that of the canonical network.\<close>

definition plain_cidr :: "FirewallRuleProcessor \<Rightarrow> NetworkAddress \<Rightarrow> bool" where
  "plain_cidr f c \<longleftrightarrow>
     (case ParseCIDR (if CHR ''/'' \<in> set c then c else c @ fwrp_hostMask f) of
        None \<Rightarrow> False | Some (_, n) \<Rightarrow> canon_net n)"

lemma digits_val_go_atoi:
  assumes "digits_val 0 m = Some k" "m \<noteq> []" "k \<le> 128"
  shows "go_atoi_or_zero m = int k"
proof -
  obtain c cs where m: "m = c # cs" using assms(2) by (cases m) auto
  then have "c \<noteq> CHR ''-''" "c \<noteq> CHR ''+''"
    using assms(1) by (auto simp: digit_val_def split: option.splits)
  with m assms show ?thesis by (simp add: go_atoi_or_zero_def del: digits_val.simps)
qed

lemma digits_no_slash: "digits_val acc m = Some k \<Longrightarrow> CHR ''/'' \<notin> set m"
  by (induction m arbitrary: acc) (auto simp: digit_val_def split: option.splits)

lemma go_split_append_no_sep:
  "sep \<notin> set a \<Longrightarrow> go_split sep (a @ b) = (a @ hd (go_split sep b)) # tl (go_split sep b)"
proof (induction a)
  case (Cons c a)
  then show ?case by auto
qed simp

lemma nth_Suc_0_tl: "tl xs = [m] \<Longrightarrow> xs ! Suc 0 = m"
  by (cases xs) auto

lemma written_prefix_len_plain:
  assumes "plain_cidr f c" "rule_net f c = Some n"
  shows "written_prefix_len (fwrp_hostMask f) c = int (net_ones n)"
proof -
  let ?c0 = "if CHR ''/'' \<in> set c then c else c @ fwrp_hostMask f"
  obtain a where p: "ParseCIDR ?c0 = Some (a, n)"
    using assms by (auto simp: plain_cidr_def rule_net_def split: option.splits)
  then obtain t m ad k where d: "go_cut (CHR ''/'') ?c0 = Some (t, m)" "parse_prefix_len m = Some k"
      "k \<le> BitLen ad" "net_Mask n = CIDRMask k (BitLen ad)"
    by (auto simp: ParseCIDR_def Let_def not_less split: option.splits if_splits)
  have ones: "net_ones n = k"
    using d(3,4) by (cases ad) (simp_all add: net_ones_def Mask_Size_def CIDRMask_def)
  have k: "k \<le> 128" using d(3) by (cases ad) simp_all
  have m: "digits_val 0 m = Some k" "m \<noteq> []" using d(2) by (auto simp: parse_prefix_len_def split: if_splits)
  have "go_split (CHR ''/'') ?c0 = [t, m]"
    using go_cut_Some [OF d(1)] digits_no_slash [OF m(1)] by (simp add: go_split_append)
  then have "written_prefix_len (fwrp_hostMask f) c = go_atoi_or_zero m"
    by (auto simp: written_prefix_len_def go_split_append_no_sep nth_Suc_0_tl split: if_splits)
  then show ?thesis using digits_val_go_atoi [OF m k] ones by simp
qed

section \<open>Deduplication and the encoding of all entries\<close>

lemma mergeDuplicateL4Info_spec:
  assumes "range_order ord"
  shows "distinct (map port_key (mergeDuplicateL4Info ord ports))"
    and "set (mergeDuplicateL4Info ord ports) \<subseteq> set ports"
    and "port_key ` set (mergeDuplicateL4Info ord ports) = port_key ` set ports"
  using first_by_range [OF assms, where key = port_key and xs = ports]
  by (simp_all add: mergeDuplicateL4Info_def image_image)

text \<open>Ports with the same key have the same entry in the map value.\<close>

lemma port_key_entry: "port_key p = port_key q \<Longrightarrow> port_entry p = port_entry q"
proof -
  assume k: "port_key p = port_key q"
  have "(case a of None \<Rightarrow> 0 | Some w \<Rightarrow> w) = go_uint32 (port_or_zero a)" for a by simp
  moreover have "deriveProtocolValue p False False = deriveProtocolValue q False False"
    using k by (auto simp: port_key_def deriveProtocolValue_def protocol_defs split: option.splits)
  ultimately show ?thesis using k unfolding port_entry_def port_key_def by (metis prod.inject)
qed

definition deny_rule :: "string \<Rightarrow> EbpfFirewallRules" where
  "deny_rule c = \<lparr>fr_Priority = 0, fr_Action = [], fr_DomainName = [], fr_IPCidr = c,
     fr_Except = [], fr_L4Info = [denyAllL4Entry]\<rparr>"

lemma except_step_deny:
  "except_step e m = (if map_of m (canonical_except e) = None
     then AList.update (canonical_except e) (deny_rule (canonical_except e)) m else m)"
  by (simp add: except_step_def Let_def addDenyAllL4Entry_def deny_rule_def)

lemma fold_except_step:
  "map_of (fold except_step es m) k =
     (if map_of m k \<noteq> None then map_of m k
      else if k \<in> canonical_except ` set es then Some (deny_rule k) else None)"
  by (induction es arbitrary: m) (auto simp: except_step_deny)

lemma fold_except_step_wf: "go_map_wf m \<Longrightarrow> go_map_wf (fold except_step es m)"
  by (induction es arbitrary: m) (auto simp: except_step_deny)

definition encoded :: "fw_orders \<Rightarrow> string \<Rightarrow> EbpfFirewallRules \<Rightarrow> byte list" where
  "encoded os c v =
     ComputeTrieValue (if fr_L4Info v \<noteq> [] then mergeDuplicateL4Info (ord_ports os c) (fr_L4Info v)
                       else fr_L4Info v) False False"

definition family_net :: "FirewallRuleProcessor \<Rightarrow> IPNet \<Rightarrow> bool" where
  "family_net f n \<longleftrightarrow> canon_net n \<and> in_family (fwrp_enableIPv6 f) n"

abbreviation trie_key :: "FirewallRuleProcessor \<Rightarrow> IPNet \<Rightarrow> byte list" where
  "trie_key f n \<equiv> ComputeTrieKey n (fwrp_enableIPv6 f)"

lemma trie_key_inject: "family_net f m \<Longrightarrow> family_net f n \<Longrightarrow> trie_key f m = trie_key f n \<longleftrightarrow> m = n"
  unfolding family_net_def
  by (metis ComputeTrieKey_family append_eq_append_conv canon_net_inject canon_net_ones_bound
      length_put_le32 net_prefix_def of_nat_u32_inject put_le32_inject)

text \<open>
  A loop that writes one entry per network of the family: what it needs of its body, and what
  the map holds afterwards.
\<close>

locale map_encoder =
  fixes f :: FirewallRuleProcessor and step :: "string \<times> 'v \<Rightarrow> bpf_entries \<Rightarrow> go_panic + bpf_entries"
    and enc :: "string \<Rightarrow> 'v \<Rightarrow> byte list"
  assumes step_family: "family_net f n \<Longrightarrow>
    step (IPNet_String n, v) m = Inr (AList.update (trie_key f n) (enc (IPNet_String n) v) m)"
begin

lemma encode_loop:
  assumes "\<forall>k \<in> fst ` set L. \<exists>n. family_net f n \<and> k = IPNet_String n" "distinct (map fst L)"
  shows "\<exists>m'. fold_panic step L m = Inr m' \<and> (go_map_wf m \<longrightarrow> go_map_wf m') \<and>
    (\<forall>n. family_net f n \<longrightarrow> map_of m' (trie_key f n) =
       (case map_of L (IPNet_String n) of None \<Rightarrow> map_of m (trie_key f n)
        | Some v \<Rightarrow> Some (enc (IPNet_String n) v))) \<and>
    fst ` set m' \<subseteq> fst ` set m \<union> {trie_key f n |n. family_net f n}"
  using assms
proof (induction L arbitrary: m)
  case (Cons kv L)
  obtain n v where n: "kv = (IPNet_String n, v)" "family_net f n" using Cons.prems(1) by (cases kv) auto
  let ?m = "AList.update (trie_key f n) (enc (IPNet_String n) v) m"
  have "\<forall>k \<in> fst ` set L. \<exists>n. family_net f n \<and> k = IPNet_String n" "distinct (map fst L)"
    using Cons.prems by auto
  from Cons.IH [OF this, of ?m] obtain m' where m': "fold_panic step L ?m = Inr m'"
      "go_map_wf ?m \<longrightarrow> go_map_wf m'"
      "\<forall>n. family_net f n \<longrightarrow> map_of m' (trie_key f n) =
         (case map_of L (IPNet_String n) of None \<Rightarrow> map_of ?m (trie_key f n)
          | Some v \<Rightarrow> Some (enc (IPNet_String n) v))"
      "fst ` set m' \<subseteq> fst ` set ?m \<union> {trie_key f n |n. family_net f n}"
    by blast
  have keys: "fst ` set ?m = insert (trie_key f n) (fst ` set m)"
    using dom_update [of "trie_key f n" "enc (IPNet_String n) v" m]
    by (simp add: dom_map_of_conv_image_fst)
  have new: "map_of L (IPNet_String n) = None" using Cons.prems(2) n by (simp add: map_of_eq_None_iff)
  have "map_of m' (trie_key f k) =
      (case map_of (kv # L) (IPNet_String k) of None \<Rightarrow> map_of m (trie_key f k)
       | Some v \<Rightarrow> Some (enc (IPNet_String k) v))" if k: "family_net f k" for k
  proof (cases "k = n")
    case True
    with m'(3) k new n show ?thesis by simp
  next
    case False
    then have "IPNet_String k \<noteq> IPNet_String n" "trie_key f k \<noteq> trie_key f n"
      using k n(2) IPNet_String_inject trie_key_inject by (auto simp: family_net_def)
    with m'(3) k n show ?thesis by (simp split: option.split)
  qed
  with m' n keys step_family [OF n(2)] show ?case by (auto simp: go_map_wf_update)
qed auto

end

interpretation np_enc: map_encoder f "encode_step os f" "encoded os" for f os
  by unfold_locales
     (simp add: encode_step_def family_net_def ParseCIDR_IPNet_String encoded_def Let_def)

section \<open>The entries of the map\<close>

definition fw_config :: "FirewallRuleProcessor \<Rightarrow> IPNet \<Rightarrow> bool" where
  "fw_config f nodeNet \<longleftrightarrow>
     map_option snd (ParseCIDR (fwrp_nodeIP f @ fwrp_hostMask f)) = Some nodeNet \<and>
     family_net f nodeNet \<and> 2 \<le> length (go_split (CHR ''/'') (fwrp_hostMask f))"

definition except_net :: "NetworkAddress \<Rightarrow> IPNet option" where
  "except_net e = map_option (\<lambda>(_, n). canon_of n) (ParseCIDR e)"

definition active_rules :: "FirewallRuleProcessor \<Rightarrow> EbpfFirewallRules list \<Rightarrow> EbpfFirewallRules list" where
  "active_rules f rules = filter (active f) rules"

definition except_nets :: "EbpfFirewallRules list \<Rightarrow> IPNet set" where
  "except_nets rs = {n. \<exists>r \<in> set rs. \<exists>e \<in> set (fr_Except r). except_net e = Some n}"

text \<open>Rules the processor can encode: every CIDR parses and is written in its own family, and
  the except CIDRs of the rules that are not skipped belong to the family of the cluster.\<close>

definition valid_rules :: "FirewallRuleProcessor \<Rightarrow> EbpfFirewallRules list \<Rightarrow> bool" where
  "valid_rules f rules \<longleftrightarrow>
     (\<forall>r \<in> set rules. plain_cidr f (fr_IPCidr r)) \<and>
     (\<forall>r \<in> set rules. active f r \<longrightarrow>
        (\<forall>e \<in> set (fr_Except r). case except_net e of None \<Rightarrow> False | Some n \<Rightarrow> family_net f n))"

lemma plain_rule_net: "plain_cidr f c \<Longrightarrow> \<exists>n. rule_net f c = Some n"
  unfolding plain_cidr_def rule_net_def
  by (cases "CHR ''/'' \<in> set c") (auto split: option.splits)

lemma To4_To16: "length a = 4 \<or> length a = 16 \<Longrightarrow> To4 (To16 a) = To4 a \<and> To16 a \<noteq> []"
  by (auto simp: To4_def To16_def)

lemma canon_To4: "canon_net n \<Longrightarrow> To4 (net_IP n) = [] \<longleftrightarrow> length (net_IP n) = 16"
  by (auto simp: canon_net_def To4_def split: if_splits)

lemma isIPv6_canon: "canon_net n \<Longrightarrow> isIPv6 (IPNet_String n) \<longleftrightarrow> length (net_IP n) = 16"
  using To4_To16 [of "net_IP n"] canon_To4 [of n]
  by (simp add: isIPv6_def ParseCIDR_IPNet_String Let_def) (auto simp: canon_net_def)

lemma active_family: "active f r \<Longrightarrow> has_net f n r \<Longrightarrow> family_net f n"
  using rule_net_Some [of f "fr_IPCidr r" n]
  by (auto simp: active_def shouldSkipRule_def isIPv6_canon family_net_def in_family_def canon_net_def
      Let_def split: if_splits)

lemma except_net_canonical:
  "except_net e = Some n \<Longrightarrow> canonical_except e = IPNet_String n \<and> canon_net n"
  by (auto simp: except_net_def canonical_except_def canon_of_parse_eqs canon_net_of_parse)

lemma port_for_subset: "port_for f rs n p \<Longrightarrow> set rs = set rs' \<Longrightarrow> port_for f rs' n p"
proof (induction rule: port_for.induct)
  case (inherit m p n)
  then have "rule_nets f rs = rule_nets f rs'" "excepts_of f rs m = excepts_of f rs' m"
    by (simp_all add: rule_nets_def excepts_of_def)
  with inherit show ?case by (intro port_for.inherit [of f rs' m p n]) simp_all
qed (auto intro: port_for.own)

lemma port_for_cong: "set rs = set rs' \<Longrightarrow> port_for f rs n p = port_for f rs' n p"
  using port_for_subset by metis

lemma rule_nets_cong: "set rs = set rs' \<Longrightarrow> rule_nets f rs = rule_nets f rs'"
  by (simp add: rule_nets_def)

text \<open>The state after the loop over the sorted rules, in terms of the unsorted ones.\<close>

lemma fw_loop_sorted:
  assumes "valid_rules f rules" "fw_config f N"
  shows "\<exists>srt st. sortFirewallRulesByPrefixLength rules (fwrp_hostMask f) = Inr srt \<and>
    fold_panic (fw_step f) srt fw_init = Inr st \<and> fw_inv f (filter (active f) srt) st \<and>
    set (filter (active f) srt) = set (active_rules f rules)"
proof -
  let ?key = "\<lambda>r. written_prefix_len (fwrp_hostMask f) (fr_IPCidr r)"
  define srt where "srt = sort_key ?key rules"
  have parse: "rule_net f (fr_IPCidr r) = Some (net_of f r)" if "r \<in> set rules" for r
    using that assms(1) plain_rule_net [of f] by (auto simp: valid_rules_def net_of_def)
  have key: "?key r = int (net_ones (net_of f r))" if "r \<in> set rules" for r
    using that assms(1) parse written_prefix_len_plain by (auto simp: valid_rules_def)
  have "sorted (map ?key (filter (active f) srt))"
    unfolding srt_def by (intro sorted_filter) simp
  then have "sorted_wrt (\<lambda>x y. ?key x \<le> ?key y) (filter (active f) srt)"
    by (simp only: sorted_map)
  then have "sorted (map (\<lambda>r. net_ones (net_of f r)) (filter (active f) srt))"
    unfolding sorted_map by (rule sorted_wrt_mono_rel [rotated]) (use key in \<open>auto simp: srt_def\<close>)
  moreover have "\<forall>r \<in> set (filter (active f) srt). active f r \<and> rule_net f (fr_IPCidr r) \<noteq> None"
    using parse by (auto simp: srt_def)
  ultimately obtain st where "fold_panic (fw_step f) srt fw_init = Inr st" "fw_inv f (filter (active f) srt) st"
    using fw_loop fold_panic_active by metis
  moreover have "sortFirewallRulesByPrefixLength rules (fwrp_hostMask f) = Inr srt"
    using assms(2) by (simp add: sortFirewallRulesByPrefixLength_def fw_config_def srt_def)
  ultimately show ?thesis by (auto simp: active_rules_def srt_def)
qed

text \<open>The entry a network should have: the deduplicated ports of its rules and of the networks it
  inherits from, else the deny entry of an except CIDR, else the node's allow-all entry.\<close>

definition entry_spec ::
  "FirewallRuleProcessor \<Rightarrow> EbpfFirewallRules list \<Rightarrow> IPNet \<Rightarrow> IPNet \<Rightarrow> byte list option \<Rightarrow> bool" where
  "entry_spec f rs nodeNet n entry =
     (if n \<in> rule_nets f rs then
        \<exists>ports. entry = Some (ComputeTrieValue ports False False) \<and> ports \<noteq> [] \<and>
          distinct (map port_key ports) \<and>
          (\<forall>p \<in> set ports. port_for f rs n p) \<and>
          (\<forall>p. port_for f rs n p \<longrightarrow> port_key p \<in> port_key ` set ports)
      else if n \<in> except_nets rs then
        entry = Some (ComputeTrieValue [denyAllL4Entry] False False)
      else if n = nodeNet then entry = Some (ComputeTrieValue [] True False)
      else entry = None)"

lemma merge_single: "range_order ord \<Longrightarrow> mergeDuplicateL4Info ord [p] = [p]"
proof -
  assume o: "range_order ord"
  then have "length (ord [(port_key p, p)]) = 1" "set (ord [(port_key p, p)]) = {(port_key p, p)}"
    by (simp_all add: range_order_length range_order_set)
  then have "ord [(port_key p, p)] = [(port_key p, p)]" by (auto simp: length_Suc_conv)
  then show ?thesis by (simp add: mergeDuplicateL4Info_def first_by_def)
qed

lemma rule_nets_port: "n \<in> rule_nets f rs \<Longrightarrow> \<exists>p. port_for f rs n p"
proof -
  assume "n \<in> rule_nets f rs"
  then obtain r where "r \<in> set rs" "has_net f n r" by (auto simp: rule_nets_def)
  moreover have "hd (eff_ports r) \<in> set (eff_ports r)" by (simp add: eff_ports_def)
  ultimately show ?thesis by (blast intro: port_for.own)
qed

lemma valid_except:
  assumes "valid_rules f rules" "r \<in> set (active_rules f rules)" "e \<in> set (fr_Except r)"
  obtains m where "except_net e = Some m" "family_net f m" "canonical_except e = IPNet_String m"
proof -
  have "case except_net e of None \<Rightarrow> False | Some n \<Rightarrow> family_net f n"
    using assms unfolding valid_rules_def active_rules_def by (simp only: set_filter) blast
  then obtain m where "except_net e = Some m" "family_net f m" by (cases "except_net e") auto
  with except_net_canonical that show thesis by blast
qed

lemma except_keys:
  assumes "valid_rules f rules" "canon_net n"
  shows "IPNet_String n \<in> canonical_except ` (\<Union>r \<in> set (active_rules f rules). set (fr_Except r)) \<longleftrightarrow>
    n \<in> except_nets (active_rules f rules)"
proof
  assume "IPNet_String n \<in> canonical_except ` (\<Union>r \<in> set (active_rules f rules). set (fr_Except r))"
  then obtain r e where re: "r \<in> set (active_rules f rules)" "e \<in> set (fr_Except r)"
      "IPNet_String n = canonical_except e" by blast
  then obtain m where m: "except_net e = Some m" "family_net f m" "canonical_except e = IPNet_String m"
    using valid_except [OF assms(1)] by metis
  then have "n = m" using re assms(2) IPNet_String_inject by (metis family_net_def)
  with m re show "n \<in> except_nets (active_rules f rules)" unfolding except_nets_def by blast
next
  assume "n \<in> except_nets (active_rules f rules)"
  then obtain r e where re: "r \<in> set (active_rules f rules)" "e \<in> set (fr_Except r)" "except_net e = Some n"
    unfolding except_nets_def by blast
  then have "canonical_except e = IPNet_String n" using except_net_canonical by blast
  with re show "IPNet_String n \<in> canonical_except ` (\<Union>r \<in> set (active_rules f rules). set (fr_Except r))"
    by force
qed

lemma entry_spec_encoded:
  assumes os: "orders_ok os" and inv: "fw_inv f rs st" and rs: "set rs = set (active_rules f rules)"
    and n: "canon_net n"
    and es: "set es = fst ` set (st_exceptCidrs st)" and val: "valid_rules f rules"
    and node: "nodeVal = (if n = nodeNet then Some (ComputeTrieValue [] True False) else None)"
  shows "entry_spec f (active_rules f rules) nodeNet n
    (case map_of (fold except_step es (st_cidrsMap st)) (IPNet_String n) of
       None \<Rightarrow> nodeVal | Some v \<Rightarrow> Some (encoded os (IPNet_String n) v))"
proof -
  let ?as = "active_rules f rules"
  have nets: "rule_nets f ?as = rule_nets f rs" using rule_nets_cong [OF rs] by simp
  have ord: "range_order (ord_ports os (IPNet_String n))" using os by (simp add: orders_ok_def)
  have "set es = (\<Union>r \<in> set ?as. set (fr_Except r))"
    using es fw_inv_excepts [OF inv] rs by simp
  with except_keys [OF val n]
  have exc: "IPNet_String n \<in> canonical_except ` set es \<longleftrightarrow> n \<in> except_nets (active_rules f rules)" by simp
  show ?thesis
  proof (cases "n \<in> rule_nets f rs")
    case True
    then obtain v where v: "map_of (st_cidrsMap st) (IPNet_String n) = Some v"
        "set (fr_L4Info v) = {p. port_for f rs n p}"
      using fw_inv_rule [OF inv] by blast
    define ports where "ports = mergeDuplicateL4Info (ord_ports os (IPNet_String n)) (fr_L4Info v)"
    note merge = mergeDuplicateL4Info_spec [OF ord, of "fr_L4Info v", folded ports_def]
    have "fr_L4Info v \<noteq> []" using v(2) rule_nets_port [OF True] by auto
    moreover from this merge(3) have "ports \<noteq> []" by auto
    ultimately show ?thesis
      using True nets v merge port_for_cong [OF rs]
      by (auto simp: entry_spec_def fold_except_step encoded_def ports_def intro!: exI [of _ ports])
  next
    case False
    then have "map_of (st_cidrsMap st) (IPNet_String n) = None"
      using fw_inv_dom [OF inv n rule_nets_canon] by simp
    with False nets exc node show ?thesis
      by (simp add: entry_spec_def fold_except_step encoded_def deny_rule_def merge_single [OF ord])
  qed
qed

lemma cidrs_family:
  assumes "valid_rules f rules" "fw_inv f rs st" "set rs = set (active_rules f rules)"
    "set es = fst ` set (st_exceptCidrs st)" "map_of (fold except_step es (st_cidrsMap st)) k \<noteq> None"
  shows "\<exists>n. family_net f n \<and> k = IPNet_String n"
proof (cases "map_of (st_cidrsMap st) k")
  case None
  then have "k \<in> canonical_except ` set es"
    using assms(5) by (simp add: fold_except_step split: if_splits)
  then obtain r e where "r \<in> set (active_rules f rules)" "e \<in> set (fr_Except r)" "k = canonical_except e"
    using assms(3,4) fw_inv_excepts [OF assms(2)] by auto
  with valid_except [OF assms(1)] show ?thesis by metis
next
  case (Some v)
  then have "k \<in> IPNet_String ` rule_nets f (active_rules f rules)"
    using fw_inv_domain [OF assms(2)] rule_nets_cong [OF assms(3)] by auto
  then show ?thesis using active_family by (auto simp: rule_nets_def active_rules_def)
qed

lemma map_entries:
  assumes os: "orders_ok os" and cfg: "fw_config f nodeNet" and val: "valid_rules f rules"
  shows "\<exists>m. ComputeMapEntriesFromEndpointRules os f rules = Inr m \<and> go_map_wf m \<and>
    (\<forall>n. family_net f n \<longrightarrow> entry_spec f (active_rules f rules) nodeNet n (map_of m (trie_key f n))) \<and>
    fst ` set m \<subseteq> {trie_key f n |n. family_net f n}"
proof -
  obtain srt st where srt: "sortFirewallRulesByPrefixLength rules (fwrp_hostMask f) = Inr srt"
      "fold_panic (fw_step f) srt fw_init = Inr st" "fw_inv f (filter (active f) srt) st"
      "set (filter (active f) srt) = set (active_rules f rules)"
    using fw_loop_sorted [OF val cfg] by blast
  define es where "es = map fst (ord_excepts os (st_exceptCidrs st))"
  have es: "set es = fst ` set (st_exceptCidrs st)"
    using os by (simp add: es_def orders_ok_def range_order_set)
  define cm where "cm = fold except_step es (st_cidrsMap st)"
  have cm: "go_map_wf cm" using fold_except_step_wf fw_inv_wf [OF srt(3)] by (simp add: cm_def)
  have oc: "range_order (ord_cidrs os)" using os by (simp add: orders_ok_def)
  then have d: "distinct (map fst (ord_cidrs os cm))" and mo: "map_of (ord_cidrs os cm) = map_of cm"
    using cm range_order_distinct range_order_map_of by (auto simp: go_map_wf_def)
  have "\<exists>n. family_net f n \<and> k = IPNet_String n" if "map_of cm k \<noteq> None" for k
    using cidrs_family [OF val srt(3,4) es] that by (simp add: cm_def)
  then have keys: "\<forall>k \<in> fst ` set (ord_cidrs os cm). \<exists>n. family_net f n \<and> k = IPNet_String n"
    using range_order_set [OF oc] by (metis map_of_eq_None_iff)
  let ?m0 = "[(trie_key f nodeNet, ComputeTrieValue [] True False)]"
  obtain m where m: "fold_panic (encode_step os f) (ord_cidrs os cm) ?m0 = Inr m"
      "go_map_wf ?m0 \<longrightarrow> go_map_wf m"
      "\<forall>n. family_net f n \<longrightarrow> map_of m (trie_key f n) =
         (case map_of cm (IPNet_String n) of None \<Rightarrow> map_of ?m0 (trie_key f n)
          | Some v \<Rightarrow> Some (encoded os (IPNet_String n) v))"
      "fst ` set m \<subseteq> fst ` set ?m0 \<union> {trie_key f n |n. family_net f n}"
    using np_enc.encode_loop [OF keys d, of os ?m0] unfolding mo by blast
  have N: "family_net f nodeNet" using cfg by (simp add: fw_config_def)
  have "entry_spec f (active_rules f rules) nodeNet n (map_of m (trie_key f n))" if n: "family_net f n" for n
  proof -
    have "map_of ?m0 (trie_key f n) = (if n = nodeNet then Some (ComputeTrieValue [] True False) else None)"
      using trie_key_inject [OF n N] by auto
    from entry_spec_encoded [OF os srt(3,4) _ es val this] m(3) n show ?thesis
      by (simp add: cm_def family_net_def)
  qed
  moreover have "ComputeMapEntriesFromEndpointRules os f rules = Inr m"
    using cfg srt(1,2) m(1)
    by (auto simp: ComputeMapEntriesFromEndpointRules_def fw_config_def es_def cm_def)
  moreover have "go_map_wf m" using m(2) by (simp add: go_map_wf_def)
  moreover have "fst ` set m \<subseteq> {trie_key f n |n. family_net f n}" using m(4) N by auto
  ultimately show ?thesis by blast
qed

text \<open>Which rules count, in terms of their networks: the network is of the cluster's family and does not
  start at the node's own address. \<open>nodeNet\<close> is the node's address as a network.\<close>

definition node_config :: "FirewallRuleProcessor \<Rightarrow> IPNet \<Rightarrow> bool" where
  "node_config f nodeNet \<longleftrightarrow> fw_config f nodeNet \<and> ParseIP (fwrp_nodeIP f) = To16 (net_IP nodeNet)"

definition in_scope :: "FirewallRuleProcessor \<Rightarrow> IPNet \<Rightarrow> EbpfFirewallRules \<Rightarrow> bool" where
  "in_scope f nodeNet r \<longleftrightarrow>
     (case rule_net f (fr_IPCidr r) of
        None \<Rightarrow> False
      | Some n \<Rightarrow> length (net_IP n) = (if fwrp_enableIPv6 f then 16 else 4) \<and> net_IP n \<noteq> net_IP nodeNet)"

definition scope_rules :: "FirewallRuleProcessor \<Rightarrow> IPNet \<Rightarrow> EbpfFirewallRules list \<Rightarrow> EbpfFirewallRules list" where
  "scope_rules f nodeNet rules = filter (in_scope f nodeNet) rules"

lemma To16_inject: "length a = length b \<Longrightarrow> length a = 4 \<or> length a = 16 \<Longrightarrow> To16 a = To16 b \<longleftrightarrow> a = b"
  by (auto simp: To16_def)

lemma active_iff_in_scope:
  assumes cfg: "node_config f nodeNet" and net: "has_net f n r"
  shows "active f r \<longleftrightarrow> in_scope f nodeNet r"
proof -
  note n = rule_net_Some [OF net]
  have N: "canon_net nodeNet" "length (net_IP nodeNet) = (if fwrp_enableIPv6 f then 16 else 4)"
    "ParseIP (fwrp_nodeIP f) = To16 (net_IP nodeNet)"
    using cfg by (simp_all add: node_config_def fw_config_def family_net_def in_family_def)
  have len: "length (To16 x) = 16" if "length x = 4 \<or> length x = 16" for x :: ip
    using that by (auto simp: To16_def v4InV6Prefix_def)
  have l: "length (net_IP n) = 4 \<or> length (net_IP n) = 16" using n(2) by (auto simp: canon_net_def)
  have node: "IsNodeIP (fwrp_nodeIP f) (IPNet_String n) \<longleftrightarrow> To16 (net_IP nodeNet) = To16 (net_IP n)"
    using len [OF l] len [of "net_IP nodeNet"] N by (auto simp: IsNodeIP_def n(3) IP_Equal_def split: if_splits)
  have fam: "shouldSkipRule f (IPNet_String n) \<longleftrightarrow> To16 (net_IP nodeNet) = To16 (net_IP n) \<or>
      length (net_IP n) \<noteq> (if fwrp_enableIPv6 f then 16 else 4)"
    using l by (auto simp: shouldSkipRule_def node isIPv6_canon [OF n(2)] Let_def)
  have "To16 (net_IP nodeNet) = To16 (net_IP n) \<longleftrightarrow> net_IP nodeNet = net_IP n"
    if "length (net_IP n) = (if fwrp_enableIPv6 f then 16 else 4)"
    by (rule To16_inject) (use that N(2) in \<open>auto split: if_splits\<close>)
  then show ?thesis unfolding active_def n(1) fam in_scope_def net by auto
qed

lemma active_rules_scope:
  assumes "node_config f nodeNet" "\<And>r. r \<in> set rules \<Longrightarrow> \<exists>n. has_net f n r"
  shows "active_rules f rules = scope_rules f nodeNet rules"
  unfolding active_rules_def scope_rules_def
  by (rule filter_cong [OF refl]) (use assms active_iff_in_scope in blast)

lemma valid_rules_scope:
  "node_config f nodeNet \<Longrightarrow> valid_rules f rules \<Longrightarrow> active_rules f rules = scope_rules f nodeNet rules"
  by (rule active_rules_scope) (auto simp: valid_rules_def dest: plain_rule_net)

text \<open>C3: For every set of valid rules and every map iteration order the processor returns (it does
  not panic), and the map it returns has, for every network of the cluster's family, exactly
  the specified entry: the deduplicated ports of the network's own rules and of the broader
  networks it inherits from; a deny entry for an except CIDR that no rule names; the allow-all
  entry of the node; and nothing else. No key of another shape occurs. The rules that count are
  those whose network is of the cluster's family and does not start at the node's own address;
  rules of the other family are left out, and so is every rule whose network starts at the node's
  address, of whatever prefix length.\<close>

theorem ComputeMapEntries_entries:
  assumes os: "orders_ok os" and cfg: "node_config f nodeNet" and val: "valid_rules f rules"
  shows "\<exists>m. ComputeMapEntriesFromEndpointRules os f rules = Inr m \<and> go_map_wf m \<and>
    (\<forall>n. family_net f n \<longrightarrow> entry_spec f (scope_rules f nodeNet rules) nodeNet n (map_of m (trie_key f n))) \<and>
    fst ` set m \<subseteq> {trie_key f n |n. family_net f n}"
  using map_entries [OF os _ val, of nodeNet] cfg unfolding valid_rules_scope [OF cfg val, symmetric] node_config_def by blast

text \<open>An example used by the witnesses: a /16 rule with an except, and a host inside the /16.\<close>

definition example_processor :: FirewallRuleProcessor where
  "example_processor = \<lparr>fwrp_nodeIP = ''10.0.0.1'', fwrp_hostMask = ''/32'', fwrp_enableIPv6 = False\<rparr>"

definition tcp_port :: "int32 \<Rightarrow> Port" where
  "tcp_port p = \<lparr>port_Protocol = Some (2, ProtocolTCP), port_Port = Some p, port_EndPort = None\<rparr>"

definition rule_of :: "string \<Rightarrow> string list \<Rightarrow> Port list \<Rightarrow> EbpfFirewallRules" where
  "rule_of cidr excepts ports = \<lparr>fr_Priority = 0, fr_Action = [], fr_DomainName = [], fr_IPCidr = cidr,
     fr_Except = excepts, fr_L4Info = ports\<rparr>"

definition example_rules :: "EbpfFirewallRules list" where
  "example_rules = [rule_of ''10.1.3.4'' [] [tcp_port 443],
                    rule_of ''10.1.0.0/16'' [''10.1.2.0/24''] [tcp_port 80]]"

definition example_orders :: fw_orders where
  "example_orders = \<lparr>ord_excepts = id, ord_cidrs = rev, ord_ports = \<lambda>_. rev\<rparr>"

definition example_node :: IPNet where
  "example_node = \<lparr>net_IP = [10, 0, 0, 1], net_Mask = [255, 255, 255, 255]\<rparr>"

lemma example_ok:
  "orders_ok example_orders" "node_config example_processor example_node"
  "valid_rules example_processor example_rules"
proof -
  show "orders_ok example_orders" by (simp add: orders_ok_def example_orders_def)
  show "node_config example_processor example_node" by code_simp
  show "valid_rules example_processor example_rules" by code_simp
qed

lemma example_config: "fw_config example_processor example_node"
  using example_ok(2) by (simp add: node_config_def)

theorem ComputeMapEntries_entries_witness:
  "\<exists>m. ComputeMapEntriesFromEndpointRules example_orders example_processor example_rules = Inr m \<and>
     entry_spec example_processor (scope_rules example_processor example_node example_rules) example_node example_node
       (map_of m (trie_key example_processor example_node))"
proof -
  have "family_net example_processor example_node" using example_ok(2) by (simp add: node_config_def fw_config_def)
  then show ?thesis using ComputeMapEntries_entries [OF example_ok] by blast
qed

section \<open>Malformed CIDRs\<close>

lemma fold_panic_stuck:
  "x \<in> set xs \<Longrightarrow> (\<And>s. \<exists>e. g x s = Inl e) \<Longrightarrow> \<exists>e. fold_panic g xs s = Inl e"
proof (induction xs arbitrary: s)
  case (Cons y xs)
  show ?case
  proof (cases "g y s")
    case (Inr s')
    then have "x \<in> set xs" using Cons.prems by (metis Inl_Inr_False set_ConsD)
    with Cons Inr show ?thesis by auto
  qed auto
qed simp

lemma fw_step_keys:
  assumes "fw_step f r st = Inr st'"
  shows "dom (map_of (st_cidrsMap st)) \<subseteq> dom (map_of (st_cidrsMap st'))"
    and "active f r \<Longrightarrow> rule_cidr f (fr_IPCidr r) \<in> dom (map_of (st_cidrsMap st'))"
  using assms by (auto simp: fw_step_def active_def Let_def split: if_splits sum.splits bool.splits)

lemma fw_loop_keys:
  "fold_panic (fw_step f) rs st = Inr st' \<Longrightarrow>
     dom (map_of (st_cidrsMap st)) \<subseteq> dom (map_of (st_cidrsMap st')) \<and>
     (\<forall>r \<in> set rs. active f r \<longrightarrow> rule_cidr f (fr_IPCidr r) \<in> dom (map_of (st_cidrsMap st')))"
proof (induction rs arbitrary: st)
  case (Cons r rs)
  then obtain st1 where st1: "fw_step f r st = Inr st1" "fold_panic (fw_step f) rs st1 = Inr st'"
    by (auto split: sum.splits)
  from Cons.IH [OF st1(2)] fw_step_keys [OF st1(1)] show ?case unfolding list.set by blast
qed simp

text \<open>C40: A rule whose CIDR does not parse and that is not skipped is not rejected as an error: computing
  the map entries panics, whatever the other rules are and in every iteration order.\<close>

theorem unparsable_cidr_panics:
  assumes "range_order (ord_cidrs os)" and r: "r \<in> set rules" "active f r" "rule_net f (fr_IPCidr r) = None"
  shows "\<exists>e. ComputeMapEntriesFromEndpointRules os f rules = Inl e"
proof (cases "ParseCIDR (fwrp_nodeIP f @ fwrp_hostMask f)")
  case None
  then show ?thesis by (simp add: ComputeMapEntriesFromEndpointRules_def)
next
  case (Some p)
  show ?thesis
  proof (cases "sortFirewallRulesByPrefixLength rules (fwrp_hostMask f)")
    case (Inl e)
    with Some show ?thesis by (auto simp: ComputeMapEntriesFromEndpointRules_def)
  next
    case (Inr srt)
    then have "r \<in> set srt"
      using r(1) by (auto simp: sortFirewallRulesByPrefixLength_def split: if_splits)
    show ?thesis
    proof (cases "fold_panic (fw_step f) srt fw_init")
      case (Inl e)
      with Some Inr show ?thesis by (auto simp: ComputeMapEntriesFromEndpointRules_def)
    next
      case st: (Inr st)
      let ?c = "rule_cidr f (fr_IPCidr r)"
      let ?cm = "fold except_step (map fst (ord_excepts os (st_exceptCidrs st))) (st_cidrsMap st)"
      have "map_of (st_cidrsMap st) ?c \<noteq> None"
        using fw_loop_keys [OF st] \<open>r \<in> set srt\<close> r(2) by blast
      then have "map_of ?cm ?c \<noteq> None" by (simp add: fold_except_step)
      then obtain v where v: "(?c, v) \<in> set (ord_cidrs os ?cm)"
        using range_order_set [OF assms(1)] map_of_SomeD by fastforce
      have "ParseCIDR ?c = None"
        using r(3) by (auto simp: rule_cidr_def rule_net_def Let_def split: option.splits)
      then have "\<exists>e. encode_step os f (?c, v) m = Inl e" for m by (simp add: encode_step_def)
      from fold_panic_stuck [where g = "encode_step os f", OF v this] Some Inr st show ?thesis
        by (cases p) (simp add: ComputeMapEntriesFromEndpointRules_def)
    qed
  qed
qed

theorem unparsable_cidr_panics_witness:
  "\<exists>e. ComputeMapEntriesFromEndpointRules example_orders example_processor
     [rule_of ''10.1.0.0/16'' [] [], rule_of ''10.1.2.300'' [] [tcp_port 80]] = Inl e"
proof -
  have "active example_processor (rule_of ''10.1.2.300'' [] [tcp_port 80])"
    "rule_net example_processor (fr_IPCidr (rule_of ''10.1.2.300'' [] [tcp_port 80])) = None"
    by code_simp+
  with unparsable_cidr_panics [of example_orders "rule_of ''10.1.2.300'' [] [tcp_port 80]"]
  show ?thesis by (simp add: example_orders_def)
qed

end
