(* ===== verification/Datapath.thy ===== *)
theory Datapath
  imports FwRules
begin

text \<open>
  The eBPF programs \<^verbatim>\<open>pkg/ebpf/c/tc.v4ingress.bpf.c\<close> and \<^verbatim>\<open>tc.v4egress.bpf.c\<close> from the point
  where the headers are parsed: lookup of the cluster and network policy maps, the tier
  evaluation, conntrack and the policy events. The programs read what the rule processor
  writes; the lookup of the kernel's LPM maps is a parameter. Eviction from the conntrack map
  and loss of events in the ring buffer are not modelled.
\<close>

section \<open>Constants and data\<close>

definition POLICIES_APPLIED :: u8 where "POLICIES_APPLIED = 0"
definition DEFAULT_ALLOW :: u8 where "DEFAULT_ALLOW = 1"
definition DEFAULT_DENY :: u8 where "DEFAULT_DENY = 2"
definition MAX_RULE_PRIORITY :: u32 where "MAX_RULE_PRIORITY = 65536"
definition ADMIN_TIER_PRIORITY_LIMIT :: u32 where "ADMIN_TIER_PRIORITY_LIMIT = 1000"
definition ACTION_DENY :: u32 where "ACTION_DENY = 0"
definition ACTION_ALLOW :: u32 where "ACTION_ALLOW = 1"
definition ACTION_PASS :: u32 where "ACTION_PASS = 2"

lemmas dp_consts = POLICIES_APPLIED_def DEFAULT_ALLOW_def DEFAULT_DENY_def MAX_RULE_PRIORITY_def
  ADMIN_TIER_PRIORITY_LIMIT_def ACTION_DENY_def ACTION_ALLOW_def ACTION_PASS_def

definition GET_CT_VAL :: "u8 \<Rightarrow> u8 \<Rightarrow> u64" where
  "GET_CT_VAL a b =
     (if a = DEFAULT_ALLOW \<and> b = DEFAULT_ALLOW then 2
      else if a = DEFAULT_ALLOW \<and> b = DEFAULT_DENY then 3
      else if a = DEFAULT_ALLOW \<and> b = POLICIES_APPLIED then 4
      else if a = POLICIES_APPLIED \<and> b = DEFAULT_ALLOW then 5
      else if a = POLICIES_APPLIED \<and> b = DEFAULT_DENY then 6
      else if a = POLICIES_APPLIED \<and> b = POLICIES_APPLIED then 7
      else 7)"

datatype tc_verdict = BPF_OK | BPF_DROP

record data_t =
  ev_src_ip :: u32
  ev_src_port :: u32
  ev_dest_ip :: u32
  ev_dest_port :: u32
  ev_protocol :: u32
  ev_verdict :: u32
  ev_packet_sz :: u32
  ev_is_egress :: u8
  ev_tier :: PolicyTier

section \<open>Evaluation of the two maps\<close>

definition MAX_PORT_PROTOCOL :: nat where "MAX_PORT_PROTOCOL = 24"

text \<open>The port comparison both programs use; an unset start port is \<open>ANY_PORT\<close>.\<close>

definition np_port_match :: "BPFTrieVal \<Rightarrow> u16 \<Rightarrow> bool" where
  "np_port_match v dest_port \<longleftrightarrow>
     tv_StartPort v = 0 \<or> ucast dest_port = tv_StartPort v \<or>
     ucast dest_port > tv_StartPort v \<and> ucast dest_port \<le> tv_EndPort v"

fun np_loop :: "BPFTrieVal list \<Rightarrow> u8 \<Rightarrow> u16 \<Rightarrow> u32" where
  "np_loop [] protocol dest_port = ACTION_DENY"
| "np_loop (v # vs) protocol dest_port =
     (if tv_Protocol v = 255 then ACTION_DENY
      else if tv_Protocol v = 254 \<and> np_port_match v dest_port \<or>
              tv_Protocol v = ucast protocol \<and> np_port_match v dest_port
      then ACTION_ALLOW
      else np_loop vs protocol dest_port)"

definition evaluateNamespacePolicyByLookUp ::
  "byte list option \<Rightarrow> u8 \<Rightarrow> u16 \<Rightarrow> u8 \<Rightarrow> u32" where
  "evaluateNamespacePolicyByLookUp trie_val protocol dest_port pod_state =
     (case trie_val of
        None \<Rightarrow> if pod_state \<noteq> POLICIES_APPLIED then ACTION_PASS else ACTION_DENY
      | Some v \<Rightarrow> np_loop (map (read_trie_val v) [0..<MAX_PORT_PROTOCOL]) protocol dest_port)"

record cp_result =
  admin_tier_action :: u32
  admin_tier_priority :: u32
  baseline_tier_action :: u32
  baseline_tier_priority :: u32

definition cp_default :: cp_result where
  "cp_default = \<lparr>admin_tier_action = ACTION_PASS, admin_tier_priority = MAX_RULE_PRIORITY,
     baseline_tier_action = ACTION_PASS, baseline_tier_priority = MAX_RULE_PRIORITY\<rparr>"

definition cp_match :: "BPFL4PriorityVal \<Rightarrow> u8 \<Rightarrow> u16 \<Rightarrow> bool" where
  "cp_match v protocol dest_port \<longleftrightarrow>
     pv_Protocol v = 254 \<or>
     pv_Protocol v = ucast protocol \<and>
       (pv_StartPort v = 0 \<or> ucast dest_port = pv_StartPort v \<or>
        pv_EndPort v > 0 \<and> ucast dest_port \<ge> pv_StartPort v \<and> ucast dest_port \<le> pv_EndPort v)"

definition cp_step :: "u8 \<Rightarrow> u16 \<Rightarrow> BPFL4PriorityVal \<Rightarrow> cp_result \<Rightarrow> cp_result" where
  "cp_step protocol dest_port v r =
     (let priority = pv_Priority v div 10; action = pv_Priority v mod 10
      in if cp_match v protocol dest_port then
           let r1 = (if priority < admin_tier_priority r \<or>
                        priority = admin_tier_priority r \<and> action < admin_tier_action r
                     then r\<lparr>admin_tier_priority := priority, admin_tier_action := action\<rparr> else r)
           in if priority > ADMIN_TIER_PRIORITY_LIMIT \<and>
                 (priority < baseline_tier_priority r1 \<or>
                  priority = baseline_tier_priority r1 \<and> action < baseline_tier_action r1)
              then r1\<lparr>baseline_tier_priority := priority, baseline_tier_action := action\<rparr>
              else r1
         else r)"

definition evaluateClusterPolicyByLookUp ::
  "byte list option \<Rightarrow> u8 \<Rightarrow> u16 \<Rightarrow> cp_result" where
  "evaluateClusterPolicyByLookUp trie_val protocol dest_port =
     (case trie_val of
        None \<Rightarrow> cp_default
      | Some v \<Rightarrow>
          fold (cp_step protocol dest_port) (map (read_priority_val v) [0..<MAX_PORT_PROTOCOL]) cp_default)"

section \<open>The flow of a packet\<close>

record dp_state =
  dp_conntrack :: "ConntrackKey \<rightharpoonup> ConntrackVal"
  dp_events :: "data_t list"

definition emit :: "data_t \<Rightarrow> u32 \<Rightarrow> PolicyTier \<Rightarrow> dp_state \<Rightarrow> dp_state" where
  "emit evt verdict tier s = s\<lparr>dp_events := dp_events s @ [evt\<lparr>ev_verdict := verdict, ev_tier := tier\<rparr>]\<rparr>"

definition deny :: "PolicyTier \<Rightarrow> data_t \<Rightarrow> dp_state \<Rightarrow> tc_verdict \<times> dp_state" where
  "deny tier evt s = (BPF_DROP, emit evt 0 tier s)"

definition allow ::
  "PolicyTier \<Rightarrow> ConntrackKey \<Rightarrow> ConntrackVal \<Rightarrow> data_t \<Rightarrow> dp_state \<Rightarrow> tc_verdict \<times> dp_state" where
  "allow tier flow_key flow_val evt s =
     (BPF_OK, emit evt 1 tier (s\<lparr>dp_conntrack := (dp_conntrack s)(flow_key \<mapsto> flow_val)\<rparr>))"

text \<open>
  The tier evaluation; \<open>cp_entry\<close> and \<open>np_entry'\<close> are the results of the two map lookups,
  \<open>now\<close> the monotonic clock.
\<close>

definition evaluateFlow ::
  "byte list option \<Rightarrow> byte list option \<Rightarrow> u64 \<Rightarrow> ConntrackKey \<Rightarrow> u64 \<Rightarrow> data_t \<Rightarrow> u8 \<Rightarrow> dp_state \<Rightarrow>
     tc_verdict \<times> dp_state" where
  "evaluateFlow cp_val np_val now flow_key pod_state_val evt pod_state s =
     (let flow_val = \<lparr>cv_Value = pod_state_val, cv_LastSeen = now\<rparr>;
          cp = evaluateClusterPolicyByLookUp cp_val (ck_Protocol flow_key) (ck_Dest_port flow_key)
      in if admin_tier_priority cp \<le> ADMIN_TIER_PRIORITY_LIMIT \<and> admin_tier_action cp = ACTION_DENY
         then deny ADMIN_TIER evt s
         else if admin_tier_priority cp \<le> ADMIN_TIER_PRIORITY_LIMIT \<and> admin_tier_action cp = ACTION_ALLOW
         then allow ADMIN_TIER flow_key flow_val evt s
         else
           let verdict = evaluateNamespacePolicyByLookUp np_val (ck_Protocol flow_key)
                           (ck_Dest_port flow_key) pod_state
           in if verdict = ACTION_ALLOW then allow NETWORK_POLICY_TIER flow_key flow_val evt s
              else if verdict = ACTION_DENY then deny NETWORK_POLICY_TIER evt s
              else if verdict = ACTION_PASS then
                (if baseline_tier_action cp = ACTION_DENY then deny BASELINE_TIER evt s
                 else if baseline_tier_action cp = ACTION_ALLOW
                 then allow BASELINE_TIER flow_key flow_val evt s
                 else if baseline_tier_action cp = ACTION_PASS then
                   (if pod_state = DEFAULT_ALLOW then allow DEFAULT_TIER flow_key flow_val evt s
                    else if pod_state = DEFAULT_DENY then deny DEFAULT_TIER evt s
                    else (BPF_DROP, s))
                 else (BPF_DROP, s))
              else (BPF_DROP, s))"

text \<open>A parsed IPv4 packet; the ports are 0 unless the protocol is TCP, UDP or SCTP.\<close>

record packet =
  pk_saddr :: u32
  pk_daddr :: u32
  pk_protocol :: u8
  pk_sport :: u16
  pk_dport :: u16
  pk_ifindex :: u32
  pk_len :: u32

definition flow_of :: "bool \<Rightarrow> packet \<Rightarrow> ConntrackKey" where
  "flow_of egress pk =
     \<lparr>ck_Source_ip = pk_saddr pk, ck_Source_port = pk_sport pk, ck_pad1 = 0,
      ck_Dest_ip = pk_daddr pk, ck_Dest_port = pk_dport pk, ck_Protocol = pk_protocol pk, ck_pad2 = 0,
      ck_Owner_ip = (if egress then pk_saddr pk else pk_daddr pk), ck_Ifindex = pk_ifindex pk\<rparr>"

definition reverse_flow_of :: "bool \<Rightarrow> packet \<Rightarrow> ConntrackKey" where
  "reverse_flow_of egress pk =
     \<lparr>ck_Source_ip = pk_daddr pk, ck_Source_port = pk_dport pk, ck_pad1 = 0,
      ck_Dest_ip = pk_saddr pk, ck_Dest_port = pk_sport pk, ck_Protocol = pk_protocol pk, ck_pad2 = 0,
      ck_Owner_ip = (if egress then pk_saddr pk else pk_daddr pk), ck_Ifindex = pk_ifindex pk\<rparr>"

definition event_of :: "bool \<Rightarrow> packet \<Rightarrow> data_t" where
  "event_of egress pk =
     \<lparr>ev_src_ip = pk_saddr pk, ev_src_port = ucast (pk_sport pk), ev_dest_ip = pk_daddr pk,
      ev_dest_port = ucast (pk_dport pk), ev_protocol = ucast (pk_protocol pk), ev_verdict = 0,
      ev_packet_sz = pk_len pk, ev_is_egress = (if egress then 1 else 0), ev_tier = ERROR_TIER\<rparr>"

text \<open>
  The two classifiers: ingress matches on the source address and egress on the destination.
  \<open>cp_lookup\<close> and \<open>np_lookup\<close> look the four address bytes up in the LPM maps; \<open>pst\<close> and
  \<open>clusterpolicy_pst\<close> are the entries of the pod state map.
\<close>

definition handle_packet ::
  "bool \<Rightarrow> (byte list \<Rightarrow> byte list option) \<Rightarrow> (byte list \<Rightarrow> byte list option) \<Rightarrow> u8 option \<Rightarrow> u8 option \<Rightarrow>
     u64 \<Rightarrow> packet \<Rightarrow> dp_state \<Rightarrow> tc_verdict \<times> dp_state" where
  "handle_packet egress cp_lookup np_lookup pst clusterpolicy_pst now pk s =
     (let trie_ip = put_le32 (if egress then pk_daddr pk else pk_saddr pk);
          flow_key = flow_of egress pk; evt = event_of egress pk
      in case (pst, clusterpolicy_pst) of
           (Some st, Some cst) \<Rightarrow>
             let ct_pod_state_val = GET_CT_VAL st cst;
                 eval = evaluateFlow (cp_lookup trie_ip) (np_lookup trie_ip) now flow_key ct_pod_state_val evt st
             in (case dp_conntrack s flow_key of
                   Some flow_val \<Rightarrow>
                     if cv_Value flow_val = ct_pod_state_val then
                       (BPF_OK, s\<lparr>dp_conntrack := (dp_conntrack s)(flow_key \<mapsto> flow_val\<lparr>cv_LastSeen := now\<rparr>)\<rparr>)
                     else
                       (case eval s of
                          (BPF_DROP, s') \<Rightarrow> (BPF_DROP, s'\<lparr>dp_conntrack := (dp_conntrack s')(flow_key := None)\<rparr>)
                        | (BPF_OK, s') \<Rightarrow> (BPF_OK, s'))
                 | None \<Rightarrow>
                     let reverse_flow_key = reverse_flow_of egress pk
                     in (case dp_conntrack s reverse_flow_key of
                           Some v \<Rightarrow>
                             (BPF_OK, s\<lparr>dp_conntrack :=
                                (dp_conntrack s)(reverse_flow_key \<mapsto> v\<lparr>cv_LastSeen := now\<rparr>)\<rparr>)
                         | None \<Rightarrow> eval s))
         | _ \<Rightarrow> deny ERROR_TIER evt s)"

section \<open>Conntrack discipline of a packet\<close>

lemma deny_simps [simp]: "fst (deny t e s) = BPF_DROP" "dp_conntrack (snd (deny t e s)) = dp_conntrack s"
  by (simp_all add: deny_def emit_def)

lemma allow_simps [simp]:
  "fst (allow t k v e s) = BPF_OK" "dp_conntrack (snd (allow t k v e s)) = (dp_conntrack s)(k \<mapsto> v)"
  by (simp_all add: allow_def emit_def)

text \<open>An evaluated flow is recorded exactly when it is allowed, with the current pod state.\<close>

lemma evaluateFlow_conntrack:
  "dp_conntrack (snd (evaluateFlow cp np now k pv evt st s)) =
     (if fst (evaluateFlow cp np now k pv evt st s) = BPF_OK
      then (dp_conntrack s)(k \<mapsto> \<lparr>cv_Value = pv, cv_LastSeen = now\<rparr>) else dp_conntrack s)"
  by (simp add: evaluateFlow_def Let_def)

text \<open>C12: With both pod states present, a dropped packet leaves no conntrack entry for its flow, an
  accepted packet leaves an entry for its flow or for the reverse flow that was last seen now,
  and no entry of any other flow changes.\<close>

theorem handle_packet_conntrack:
  assumes "handle_packet egress cp np (Some st) (Some cst) now pk s = (verdict, s')"
  shows "(verdict = BPF_DROP \<longrightarrow> dp_conntrack s' (flow_of egress pk) = None) \<and>
    (verdict = BPF_OK \<longrightarrow> (\<exists>k \<in> {flow_of egress pk, reverse_flow_of egress pk}. \<exists>v.
       dp_conntrack s' k = Some v \<and> cv_LastSeen v = now)) \<and>
    (\<forall>k. k \<notin> {flow_of egress pk, reverse_flow_of egress pk} \<longrightarrow> dp_conntrack s' k = dp_conntrack s k)"
proof -
  define ev where "ev = evaluateFlow (cp (put_le32 (if egress then pk_daddr pk else pk_saddr pk)))
    (np (put_le32 (if egress then pk_daddr pk else pk_saddr pk))) now (flow_of egress pk)
    (GET_CT_VAL st cst) (event_of egress pk) st s"
  have ct: "dp_conntrack (snd ev) =
     (if fst ev = BPF_OK
      then (dp_conntrack s)(flow_of egress pk \<mapsto> \<lparr>cv_Value = GET_CT_VAL st cst, cv_LastSeen = now\<rparr>)
      else dp_conntrack s)"
    unfolding ev_def by (rule evaluateFlow_conntrack)
  obtain v0 s0 where ev0: "ev = (v0, s0)" by fastforce
  show ?thesis
  proof (cases "dp_conntrack s (flow_of egress pk)")
    case None
    then show ?thesis
      using assms ct ev0
      by (cases "dp_conntrack s (reverse_flow_of egress pk)"; cases v0)
         (auto simp: handle_packet_def Let_def simp flip: ev_def)
  next
    case (Some v)
    then show ?thesis
      using assms ct ev0
      by (cases "cv_Value v = GET_CT_VAL st cst"; cases v0)
         (auto simp: handle_packet_def Let_def simp flip: ev_def)
  qed
qed

theorem handle_packet_conntrack_witness:
  "dp_conntrack (snd (handle_packet False (\<lambda>_. None) (\<lambda>_. None) (Some 2) (Some 1) 9
     \<lparr>pk_saddr = 1, pk_daddr = 2, pk_protocol = 6, pk_sport = 9, pk_dport = 80, pk_ifindex = 3, pk_len = 60\<rparr>
     \<lparr>dp_conntrack = Map.empty, dp_events = []\<rparr>))
     (flow_of False \<lparr>pk_saddr = 1, pk_daddr = 2, pk_protocol = 6, pk_sport = 9, pk_dport = 80,
        pk_ifindex = 3, pk_len = 60\<rparr>) = None"
proof -
  let ?pk = "\<lparr>pk_saddr = 1, pk_daddr = 2, pk_protocol = 6, pk_sport = 9, pk_dport = 80, pk_ifindex = 3,
    pk_len = 60\<rparr>"
  let ?h = "handle_packet False (\<lambda>_. None) (\<lambda>_. None) (Some 2) (Some 1) 9 ?pk
     \<lparr>dp_conntrack = Map.empty, dp_events = []\<rparr>"
  have "fst ?h = BPF_DROP"
    by (simp add: handle_packet_def Let_def evaluateFlow_def evaluateClusterPolicyByLookUp_def
        evaluateNamespacePolicyByLookUp_def cp_default_def dp_consts deny_def)
  then have "?h = (BPF_DROP, snd ?h)" by (metis prod.collapse)
  from handle_packet_conntrack [OF this] show ?thesis by simp
qed

section \<open>Longest-prefix lookup\<close>

definition key_plen :: "byte list \<Rightarrow> nat" where
  "key_plen k = unat (get_le32 (take 4 k))"

definition lpm_match :: "byte list \<Rightarrow> byte list \<Rightarrow> bool" where
  "lpm_match k a \<longleftrightarrow> length k = 4 + length a \<and> key_plen k \<le> 8 * length a \<and>
     take (key_plen k) (bytes_bits (drop 4 k)) = take (key_plen k) (bytes_bits a)"

text \<open>
  The documented behaviour of a \<^verbatim>\<open>BPF_MAP_TYPE_LPM_TRIE\<close> lookup: the value of a matching entry
  with the longest prefix, or nothing when no entry matches.
\<close>

locale lpm_map =
  fixes lookup :: "bpf_entries \<Rightarrow> byte list \<Rightarrow> byte list option"
  assumes lookup_Some: "lookup m a = Some v \<Longrightarrow>
      \<exists>k. map_of m k = Some v \<and> lpm_match k a \<and>
          (\<forall>k' \<in> fst ` set m. lpm_match k' a \<longrightarrow> key_plen k' \<le> key_plen k)"
    and lookup_None: "lookup m a = None \<Longrightarrow> k \<in> fst ` set m \<Longrightarrow> \<not> lpm_match k a"

definition family_addr :: "FirewallRuleProcessor \<Rightarrow> ip \<Rightarrow> bool" where
  "family_addr f a \<longleftrightarrow> length a = (if fwrp_enableIPv6 f then 16 else 4) \<and> norm_ip a = a"

lemma key_plen_family: "family_net f n \<Longrightarrow> key_plen (trie_key f n) = net_ones n"
  using canon_net_ones_bound [of n] unat_of_nat_u32 [of "net_ones n"]
  by (simp add: family_net_def ComputeTrieKey_family key_plen_def)

lemma lpm_match_family:
  assumes n: "family_net f n" and a: "family_addr f a"
  shows "lpm_match (trie_key f n) a \<longleftrightarrow> IPNet_Contains n a"
proof -
  have c: "canon_net n" and l: "length (net_IP n) = length a" and na: "norm_ip a = a"
    using n a by (auto simp: family_net_def family_addr_def in_family_def)
  have ones: "net_ones n \<le> 8 * length a" using c l by (auto simp: canon_net_def)
  have "lpm_match (trie_key f n) a \<longleftrightarrow>
      take (net_ones n) (bytes_bits (net_IP n)) = take (net_ones n) (bytes_bits a)"
    using n l ones key_plen_family [OF n]
    by (simp add: lpm_match_def ComputeTrieKey_family family_net_def)
  also have "\<dots> \<longleftrightarrow> prefix (snd (net_prefix n)) (bytes_bits a)"
    using l ones by (auto simp: net_prefix_def prefix_def take_is_prefix
        intro: exI [of _ "drop (net_ones n) (bytes_bits a)"])
  finally show ?thesis using c l na by (simp add: canon_net_contains)
qed

context lpm_map
begin

text \<open>In a map whose keys are networks of the family, the lookup finds the longest one.\<close>

lemma lookup_family:
  assumes keys: "fst ` set m \<subseteq> {trie_key f n |n. family_net f n}" and a: "family_addr f a"
  shows "(case lookup m a of
      None \<Rightarrow> (\<forall>n. family_net f n \<longrightarrow> map_of m (trie_key f n) \<noteq> None \<longrightarrow> \<not> IPNet_Contains n a)
    | Some v \<Rightarrow> (\<exists>n. family_net f n \<and> map_of m (trie_key f n) = Some v \<and> IPNet_Contains n a \<and>
        (\<forall>n'. family_net f n' \<longrightarrow> map_of m (trie_key f n') \<noteq> None \<longrightarrow> IPNet_Contains n' a \<longrightarrow>
           net_ones n' \<le> net_ones n)))"
proof (cases "lookup m a")
  case None
  have "\<not> IPNet_Contains n a" if "family_net f n" "map_of m (trie_key f n) \<noteq> None" for n
    using lookup_None [OF None, of "trie_key f n"] lpm_match_family [OF that(1) a] that(2)
    by (metis map_of_eq_None_iff)
  then show ?thesis using None by simp
next
  case (Some v)
  then obtain k where k: "map_of m k = Some v" "lpm_match k a"
      "\<forall>k' \<in> fst ` set m. lpm_match k' a \<longrightarrow> key_plen k' \<le> key_plen k"
    using lookup_Some by blast
  then obtain n where n: "family_net f n" "k = trie_key f n"
    using keys map_of_SomeD [OF k(1)] by force
  have "net_ones n' \<le> net_ones n"
    if n': "family_net f n'" "map_of m (trie_key f n') \<noteq> None" "IPNet_Contains n' a" for n'
  proof -
    have "trie_key f n' \<in> fst ` set m" using n'(2) by (simp add: map_of_eq_None_iff)
    with k(3) n lpm_match_family [OF n'(1) a] n' key_plen_family show ?thesis by fastforce
  qed
  with k n lpm_match_family [OF n(1) a] Some show ?thesis by auto
qed

end

text \<open>A linear scan has this behaviour.\<close>

definition lpm_scan :: "bpf_entries \<Rightarrow> byte list \<Rightarrow> byte list option" where
  "lpm_scan m a =
     (case sort_key key_plen (filter (\<lambda>k. lpm_match k a) (map fst m)) of
        [] \<Rightarrow> None | k # ks \<Rightarrow> map_of m (last (k # ks)))"

lemma sorted_last_max: "sorted (map g xs) \<Longrightarrow> x \<in> set xs \<Longrightarrow> g x \<le> g (last xs)"
  by (induction xs) auto

interpretation scan: lpm_map lpm_scan
proof
  fix m :: bpf_entries and a v
  let ?ks = "sort_key key_plen (filter (\<lambda>k. lpm_match k a) (map fst m))"
  have srt: "sorted (map key_plen ?ks)" by simp
  { assume "lpm_scan m a = Some v"
    then have ne: "?ks \<noteq> []" and v: "map_of m (last ?ks) = Some v"
      by (auto simp: lpm_scan_def split: list.splits)
    have "last ?ks \<in> set ?ks" using ne by (rule last_in_set)
    then have "lpm_match (last ?ks) a" by simp
    moreover have "key_plen k' \<le> key_plen (last ?ks)" if "k' \<in> fst ` set m" "lpm_match k' a" for k'
      using that by (intro sorted_last_max [OF srt]) simp
    ultimately show "\<exists>k. map_of m k = Some v \<and> lpm_match k a \<and>
        (\<forall>k' \<in> fst ` set m. lpm_match k' a \<longrightarrow> key_plen k' \<le> key_plen k)"
      using v by blast }
  { fix k assume none: "lpm_scan m a = None" and k: "k \<in> fst ` set m"
    show "\<not> lpm_match k a"
    proof
      assume "lpm_match k a"
      then have "k \<in> set ?ks" using k by simp
      then have ne: "?ks \<noteq> []" by (cases ?ks) auto
      then have "last ?ks \<in> fst ` set m" using last_in_set [OF ne] by auto
      then have "map_of m (last ?ks) \<noteq> None" by (simp add: map_of_eq_None_iff)
      with none ne show False by (auto simp: lpm_scan_def split: list.splits)
    qed }
qed

section \<open>What a map value permits\<close>

definition entry_matches :: "BPFTrieVal \<Rightarrow> u8 \<Rightarrow> u16 \<Rightarrow> bool" where
  "entry_matches v protocol dest_port \<longleftrightarrow>
     (tv_Protocol v = 254 \<or> tv_Protocol v = ucast protocol) \<and> np_port_match v dest_port"

lemma np_loop_allow:
  "\<forall>v \<in> set vs. tv_Protocol v \<noteq> 255 \<Longrightarrow>
   np_loop vs protocol dest_port =
     (if \<exists>v \<in> set vs. entry_matches v protocol dest_port then ACTION_ALLOW else ACTION_DENY)"
  by (induction vs) (auto simp: entry_matches_def)

text \<open>The traffic a port specification permits: its protocol, and the port or the port range.\<close>

definition port_permits :: "Port \<Rightarrow> u8 \<Rightarrow> u16 \<Rightarrow> bool" where
  "port_permits p protocol dest_port \<longleftrightarrow>
     (case ptr_val (port_Protocol p) of
        None \<Rightarrow> True
      | Some s \<Rightarrow> if s = ProtocolTCP then protocol = 6 else if s = ProtocolUDP then protocol = 17
                else if s = ProtocolSCTP then protocol = 132 else True) \<and>
     (case port_Port p of
        None \<Rightarrow> True
      | Some w \<Rightarrow> w = 0 \<or> uint w \<le> uint dest_port \<and>
                uint dest_port \<le> max (uint w) (case port_EndPort p of None \<Rightarrow> 0 | Some e \<Rightarrow> uint e))"

definition not_reserved :: "Port \<Rightarrow> bool" where
  "not_reserved p \<longleftrightarrow> ptr_val (port_Protocol p) \<noteq> Some DENY_ALL_PROTOCOL"

lemma uint_ucast_u16: "uint (ucast (w :: u16) :: u32) = uint w"
  by (simp add: uint_up_ucast is_up)

lemma ucast_u16_order:
  "ucast (d :: u16) = (w :: u32) \<longleftrightarrow> uint d = uint w"
  "w < ucast d \<longleftrightarrow> uint w < uint d" "ucast d \<le> w \<longleftrightarrow> uint d \<le> uint w"
  by (simp_all add: word_uint_eq_iff word_less_def word_le_def uint_ucast_u16)

lemma np_port_match_permits:
  "np_port_match (port_entry p) d \<longleftrightarrow>
     (case port_Port p of
        None \<Rightarrow> True
      | Some w \<Rightarrow> w = 0 \<or> uint w \<le> uint d \<and>
                uint d \<le> max (uint w) (case port_EndPort p of None \<Rightarrow> 0 | Some e \<Rightarrow> uint e))"
  by (auto simp: np_port_match_def port_entry_def ucast_u16_order split: option.splits)

lemma ucast_u8_eq:
  "(6 :: u32) = ucast (q :: u8) \<longleftrightarrow> q = 6" "(17 :: u32) = ucast q \<longleftrightarrow> q = 17"
  "(132 :: u32) = ucast q \<longleftrightarrow> q = 132" "(0 :: u32) = ucast q \<longleftrightarrow> q = 0"
proof -
  have u: "uint (ucast q :: u32) = uint q" by (simp add: uint_up_ucast is_up)
  show "(6 :: u32) = ucast q \<longleftrightarrow> q = 6" "(17 :: u32) = ucast q \<longleftrightarrow> q = 17"
    "(132 :: u32) = ucast q \<longleftrightarrow> q = 132" "(0 :: u32) = ucast q \<longleftrightarrow> q = 0"
    by (auto simp: word_uint_eq_iff u)
qed

lemma go_uint32_protocols [simp]:
  "go_uint32 6 = 6" "go_uint32 17 = 17" "go_uint32 132 = 132" "go_uint32 254 = 254" "go_uint32 255 = 255"
  by (simp_all add: go_uint32_def)

lemma entry_matches_permits:
  assumes "not_reserved p"
  shows "entry_matches (port_entry p) q d \<longleftrightarrow> port_permits p q d"
    and "tv_Protocol (port_entry p) \<noteq> 255"
proof -
  have "tv_Protocol (port_entry p) =
    (case ptr_val (port_Protocol p) of None \<Rightarrow> 254
     | Some s \<Rightarrow> if s = ProtocolTCP then 6 else if s = ProtocolUDP then 17
               else if s = ProtocolSCTP then 132 else 254)"
    using assms by (auto simp: port_entry_def deriveProtocolValue_def protocol_defs not_reserved_def
        split: option.split)
  then show "entry_matches (port_entry p) q d \<longleftrightarrow> port_permits p q d"
    and "tv_Protocol (port_entry p) \<noteq> 255"
    by (auto simp: entry_matches_def port_permits_def np_port_match_permits ucast_u8_eq split: option.splits)
qed

lemma value_slots:
  assumes "ports \<noteq> []" "length ports \<le> 24"
  shows "map (read_trie_val (ComputeTrieValue ports False False)) [0..<24] =
    map port_entry ports @ replicate (24 - length ports) zero_trie_val"
proof (rule nth_equalityI)
  fix i assume "i < length (map (read_trie_val (ComputeTrieValue ports False False)) [0..<24])"
  then have i: "i < 24" by simp
  with read_ports_slot [OF i assms(1)] assms show "map (read_trie_val (ComputeTrieValue ports False False)) [0..<24] ! i =
      (map port_entry ports @ replicate (24 - length ports) zero_trie_val) ! i"
    by (simp add: nth_append)
qed (use assms in simp)

lemma evaluate_ports:
  assumes "ports \<noteq> []" "length ports \<le> 24" "\<forall>p \<in> set ports. not_reserved p" "q \<noteq> 0"
  shows "evaluateNamespacePolicyByLookUp (Some (ComputeTrieValue ports False False)) q d st =
    (if \<exists>p \<in> set ports. port_permits p q d then ACTION_ALLOW else ACTION_DENY)"
proof -
  let ?vs = "map port_entry ports @ replicate (24 - length ports) zero_trie_val"
  have z: "\<not> entry_matches zero_trie_val q d" "tv_Protocol zero_trie_val \<noteq> 255"
    using assms(4) by (auto simp: entry_matches_def zero_trie_val_def ucast_u8_eq)
  have "evaluateNamespacePolicyByLookUp (Some (ComputeTrieValue ports False False)) q d st = np_loop ?vs q d"
    by (simp add: evaluateNamespacePolicyByLookUp_def MAX_PORT_PROTOCOL_def value_slots [OF assms(1,2)])
  also have "\<dots> = (if \<exists>v \<in> set ?vs. entry_matches v q d then ACTION_ALLOW else ACTION_DENY)"
    using assms(3) z entry_matches_permits(2) by (intro np_loop_allow) auto
  also have "(\<exists>v \<in> set ?vs. entry_matches v q d) \<longleftrightarrow> (\<exists>p \<in> set ports. port_permits p q d)"
    using assms(3) z entry_matches_permits(1) by (auto simp: bex_Un)
  finally show ?thesis .
qed

lemma evaluate_deny:
  "evaluateNamespacePolicyByLookUp (Some (ComputeTrieValue [denyAllL4Entry] False False)) q d st = ACTION_DENY"
proof -
  have "tv_Protocol (port_entry denyAllL4Entry) = 255"
    by (simp add: port_entry_def denyAllL4Entry_def deriveProtocolValue_def ptr_val_def protocol_defs)
  then show ?thesis
    using value_slots [of "[denyAllL4Entry]"]
    by (simp add: evaluateNamespacePolicyByLookUp_def MAX_PORT_PROTOCOL_def)
qed

text \<open>Ports with the same key permit the same traffic.\<close>

lemma port_key_permits: "port_key p = port_key r \<Longrightarrow> not_reserved p \<Longrightarrow> not_reserved r \<Longrightarrow>
    port_permits p q d = port_permits r q d"
  using port_key_entry entry_matches_permits(1) by metis

section \<open>Nested networks\<close>

lemma contains_nested:
  assumes "canon_net m" "canon_net n" "IPNet_Contains m a" "IPNet_Contains n a" "net_ones m \<le> net_ones n"
  shows "IPNet_Contains m (net_IP n)"
proof -
  let ?pm = "snd (net_prefix m)" and ?pn = "snd (net_prefix n)" and ?b = "bytes_bits (norm_ip a)"
  have l: "length (net_IP m) = length (net_IP n)" and p: "prefix ?pm ?b" "prefix ?pn ?b"
    using assms by (auto simp: canon_net_contains)
  have "length ?pm \<le> length ?pn" using assms by (simp add: length_net_prefix)
  then have "prefix ?pm ?pn" using p prefix_length_prefix by blast
  moreover have "prefix ?pn (bytes_bits (net_IP n))" by (simp add: net_prefix_def take_is_prefix)
  ultimately have "prefix ?pm (bytes_bits (net_IP n))" by (rule prefix_order.trans)
  then show ?thesis using assms(1,2) l by (simp add: canon_net_contains canon_norm_ip)
qed

lemma contains_trans:
  assumes "canon_net m" "canon_net n" "IPNet_Contains m (net_IP n)" "IPNet_Contains n a" "net_ones m \<le> net_ones n"
  shows "IPNet_Contains m a"
proof -
  let ?pm = "snd (net_prefix m)" and ?pn = "snd (net_prefix n)"
  have l: "length (net_IP m) = length (net_IP n)" "length (norm_ip a) = length (net_IP n)"
    and p: "prefix ?pm (bytes_bits (net_IP n))" "prefix ?pn (bytes_bits (norm_ip a))"
    using assms by (auto simp: canon_net_contains canon_norm_ip)
  have "prefix ?pn (bytes_bits (net_IP n))" by (simp add: net_prefix_def take_is_prefix)
  moreover have "length ?pm \<le> length ?pn" using assms by (simp add: length_net_prefix)
  ultimately have "prefix ?pm ?pn" using p(1) prefix_length_prefix by blast
  then have "prefix ?pm (bytes_bits (norm_ip a))" using p(2) prefix_order.trans by blast
  then show ?thesis using assms(1) l by (simp add: canon_net_contains)
qed

section \<open>Enforcement of network policies, end to end\<close>

definition covers :: "FirewallRuleProcessor \<Rightarrow> EbpfFirewallRules \<Rightarrow> ip \<Rightarrow> bool" where
  "covers f r a \<longleftrightarrow> (case rule_net f (fr_IPCidr r) of None \<Rightarrow> False | Some n \<Rightarrow> IPNet_Contains n a)"

text \<open>The meaning of a network policy rule: it allows the traffic from an address in its CIDR, not
  in one of its excepts, on one of its ports.\<close>

definition rule_allows :: "FirewallRuleProcessor \<Rightarrow> EbpfFirewallRules \<Rightarrow> ip \<Rightarrow> u8 \<Rightarrow> u16 \<Rightarrow> bool" where
  "rule_allows f r a q d \<longleftrightarrow> covers f r a \<and> \<not> excepted (set (fr_Except r)) a \<and>
     (\<exists>p \<in> set (eff_ports r). port_permits p q d)"

text \<open>No rule names a network, other than the node's own address, that starts at the node's address.\<close>

definition node_apart :: "FirewallRuleProcessor \<Rightarrow> IPNet \<Rightarrow> EbpfFirewallRules list \<Rightarrow> bool" where
  "node_apart f nodeNet rules \<longleftrightarrow>
     (\<forall>r \<in> set rules. case rule_net f (fr_IPCidr r) of
        None \<Rightarrow> True | Some n \<Rightarrow> net_IP n = net_IP nodeNet \<longrightarrow> n = nodeNet)"

text \<open>Every except CIDR lies strictly inside its rule's CIDR and meets no other rule's CIDR; rules
  with the same CIDR have the same excepts.\<close>

definition excepts_separate :: "FirewallRuleProcessor \<Rightarrow> EbpfFirewallRules list \<Rightarrow> bool" where
  "excepts_separate f rs \<longleftrightarrow>
     (\<forall>r \<in> set rs. \<forall>e \<in> set (fr_Except r).
        case except_net e of
          None \<Rightarrow> False
        | Some en \<Rightarrow>
            net_ones (net_of f r) < net_ones en \<and> IPNet_Contains (net_of f r) (net_IP en) \<and>
            (\<forall>s \<in> set rs.
               if net_of f s = net_of f r then set (fr_Except s) = set (fr_Except r)
               else \<not> IPNet_Contains (net_of f s) (net_IP en) \<and> \<not> IPNet_Contains en (net_IP (net_of f s))))"

text \<open>Networks that contain another rule's network are not taken for hosts (an IPv6 /32 is).\<close>

definition inherits_ok :: "FirewallRuleProcessor \<Rightarrow> EbpfFirewallRules list \<Rightarrow> bool" where
  "inherits_ok f rs \<longleftrightarrow>
     (\<forall>r \<in> set rs. \<forall>s \<in> set rs.
        net_ones (net_of f r) < net_ones (net_of f s) \<and> IPNet_Contains (net_of f r) (net_IP (net_of f s)) \<longrightarrow>
        nonhost (net_of f r))"

text \<open>At most 24 distinct port specifications apply to an address.\<close>

definition few_ports :: "FirewallRuleProcessor \<Rightarrow> EbpfFirewallRules list \<Rightarrow> ip \<Rightarrow> bool" where
  "few_ports f rs a \<longleftrightarrow>
     length (remdups (map port_key (concat (map eff_ports (filter (\<lambda>r. covers f r a) rs))))) \<le> 24"

definition ports_ok :: "EbpfFirewallRules list \<Rightarrow> bool" where
  "ports_ok rules \<longleftrightarrow> (\<forall>r \<in> set rules. \<forall>p \<in> set (fr_L4Info r). not_reserved p)"

text \<open>A rule that covers an address of the cluster's family outside the node is not skipped.\<close>

lemma covering_active:
  assumes cfg: "node_config f nodeNet" and apart: "node_apart f nodeNet rules"
    and a: "family_addr f a" "\<not> IPNet_Contains nodeNet a"
    and r: "r \<in> set rules" "covers f r a"
  shows "r \<in> set (active_rules f rules)"
proof -
  obtain n where n: "has_net f n r" "IPNet_Contains n a" using r(2) by (auto simp: covers_def split: option.splits)
  have "length (net_IP n) = length a"
    using n rule_net_Some(2) [OF n(1)] a(1) by (auto simp: canon_net_contains family_addr_def)
  moreover have "net_IP n \<noteq> net_IP nodeNet"
    using apart r(1) n a(2) by (auto simp: node_apart_def split: option.splits)
  ultimately have "in_scope f nodeNet r" using n(1) a(1) by (simp add: in_scope_def family_addr_def)
  then show ?thesis using active_iff_in_scope [OF cfg n(1)] r(1) by (simp add: active_rules_def)
qed

lemma allows_active:
  assumes "node_config f nodeNet" "node_apart f nodeNet rules" "family_addr f a" "\<not> IPNet_Contains nodeNet a"
  shows "(\<exists>r \<in> set rules. rule_allows f r a q d) \<longleftrightarrow> (\<exists>r \<in> set (active_rules f rules). rule_allows f r a q d)"
  using covering_active [OF assms] by (auto simp: rule_allows_def active_rules_def)

lemma rule_net_of: "valid_rules f rules \<Longrightarrow> r \<in> set (active_rules f rules) \<Longrightarrow> has_net f (net_of f r) r"
  using plain_rule_net [of f "fr_IPCidr r"] by (auto simp: valid_rules_def active_rules_def net_of_def)

lemma rule_nets_net_of:
  "valid_rules f rules \<Longrightarrow> rule_nets f (active_rules f rules) = net_of f ` set (active_rules f rules)"
proof -
  assume val: "valid_rules f rules"
  have "net_of f r \<in> rule_nets f (active_rules f rules)" if "r \<in> set (active_rules f rules)" for r
    using rule_net_of [OF val that] that unfolding rule_nets_def by blast
  moreover have "n \<in> net_of f ` set (active_rules f rules)" if "n \<in> rule_nets f (active_rules f rules)" for n
    using that by (force simp: rule_nets_def net_of_def)
  ultimately show ?thesis by blast
qed

lemma port_for_covering:
  assumes "port_for f rs n p" "IPNet_Contains n a"
  shows "\<exists>r \<in> set rs. covers f r a \<and> p \<in> set (eff_ports r)"
  using assms
proof (induction rule: port_for.induct)
  case (own r n p)
  then have "covers f r a" by (simp add: covers_def)
  with own show ?case by blast
next
  case (inherit m p n)
  have "canon_net m" "canon_net n"
    using inherit.hyps port_for_net rule_nets_canon by blast+
  then have "IPNet_Contains m a" using inherit by (intro contains_trans [of m n a]) auto
  then show ?case by (rule inherit.IH)
qed

lemma covering_port_for:
  assumes val: "valid_rules f rules" and inh: "inherits_ok f (active_rules f rules)"
    and C: "C \<in> rule_nets f (active_rules f rules)" "IPNet_Contains C a"
    and longest: "\<forall>n \<in> rule_nets f (active_rules f rules). IPNet_Contains n a \<longrightarrow> net_ones n \<le> net_ones C"
    and clear: "\<forall>r \<in> set (active_rules f rules). net_of f r \<noteq> C \<longrightarrow>
      \<not> excepted (excepts_of f (active_rules f rules) (net_of f r)) (net_IP C)"
    and r: "r \<in> set (active_rules f rules)" "covers f r a" "p \<in> set (eff_ports r)"
  shows "port_for f (active_rules f rules) C p"
proof -
  let ?as = "active_rules f rules" and ?m = "net_of f r"
  note m = rule_net_of [OF val r(1)]
  have own: "port_for f ?as ?m p" using r(1) m r(3) by (rule port_for.own)
  have mC: "canon_net ?m" "canon_net C" "IPNet_Contains ?m a"
    using m C r(2) rule_nets_canon port_for_net [OF own] by (auto simp: covers_def)
  have le: "net_ones ?m \<le> net_ones C" using longest port_for_net [OF own] mC(3) by blast
  show ?thesis
  proof (cases "?m = C")
    case True
    with own show ?thesis by simp
  next
    case False
    then have lt: "net_ones ?m < net_ones C"
      using contains_same_ones [OF mC C(2)] le by (metis le_neq_implies_less)
    have con: "IPNet_Contains ?m (net_IP C)" using contains_nested [OF mC C(2) le] .
    obtain s where "s \<in> set ?as" "C = net_of f s" using C(1) rule_nets_net_of [OF val] by auto
    then have "nonhost ?m" using inh r(1) lt con by (auto simp: inherits_ok_def)
    with own lt con C(1) clear r(1) False show ?thesis by (blast intro: port_for.inherit)
  qed
qed

text \<open>The network the lookup finds in the map of valid rules.\<close>

definition has_entry :: "FirewallRuleProcessor \<Rightarrow> EbpfFirewallRules list \<Rightarrow> IPNet \<Rightarrow> IPNet \<Rightarrow> bool" where
  "has_entry f rules nodeNet n \<longleftrightarrow>
     n \<in> rule_nets f (active_rules f rules) \<or> n \<in> except_nets (active_rules f rules) \<or> n = nodeNet"

lemma entry_spec_None: "entry_spec f (active_rules f rules) nodeNet n entry \<Longrightarrow> entry = None \<longleftrightarrow> \<not> has_entry f rules nodeNet n"
  by (auto simp: entry_spec_def has_entry_def split: if_splits)

lemma covers_net_of:
  "valid_rules f rules \<Longrightarrow> r \<in> set (active_rules f rules) \<Longrightarrow> covers f r a \<longleftrightarrow> IPNet_Contains (net_of f r) a"
  using rule_net_of [of f rules r] by (simp add: covers_def)

lemma excepted_iff:
  assumes "valid_rules f rules" "r \<in> set (active_rules f rules)"
  shows "excepted (set (fr_Except r)) a \<longleftrightarrow>
    (\<exists>e \<in> set (fr_Except r). \<exists>en. except_net e = Some en \<and> IPNet_Contains en a)"
  by (force simp: excepted_def except_net_def canon_of_parse_eqs split: option.splits)

lemma separateD:
  assumes "excepts_separate f (active_rules f rules)" "r \<in> set (active_rules f rules)" "e \<in> set (fr_Except r)"
    "except_net e = Some en"
  shows "net_ones (net_of f r) < net_ones en" "IPNet_Contains (net_of f r) (net_IP en)"
    and "s \<in> set (active_rules f rules) \<Longrightarrow> net_of f s = net_of f r \<Longrightarrow> set (fr_Except s) = set (fr_Except r)"
    and "s \<in> set (active_rules f rules) \<Longrightarrow> net_of f s \<noteq> net_of f r \<Longrightarrow>
      \<not> IPNet_Contains (net_of f s) (net_IP en) \<and> \<not> IPNet_Contains en (net_IP (net_of f s))"
proof -
  have "case except_net e of None \<Rightarrow> False
    | Some en \<Rightarrow> net_ones (net_of f r) < net_ones en \<and> IPNet_Contains (net_of f r) (net_IP en) \<and>
        (\<forall>s \<in> set (active_rules f rules).
           if net_of f s = net_of f r then set (fr_Except s) = set (fr_Except r)
           else \<not> IPNet_Contains (net_of f s) (net_IP en) \<and> \<not> IPNet_Contains en (net_IP (net_of f s)))"
    using assms(1-3) unfolding excepts_separate_def by blast
  then have *: "net_ones (net_of f r) < net_ones en \<and> IPNet_Contains (net_of f r) (net_IP en) \<and>
        (\<forall>s \<in> set (active_rules f rules).
           if net_of f s = net_of f r then set (fr_Except s) = set (fr_Except r)
           else \<not> IPNet_Contains (net_of f s) (net_IP en) \<and> \<not> IPNet_Contains en (net_IP (net_of f s)))"
    using assms(4) by simp
  then show "net_ones (net_of f r) < net_ones en" "IPNet_Contains (net_of f r) (net_IP en)" by auto
  show "s \<in> set (active_rules f rules) \<Longrightarrow> net_of f s = net_of f r \<Longrightarrow> set (fr_Except s) = set (fr_Except r)"
    using * by metis
  show "s \<in> set (active_rules f rules) \<Longrightarrow> net_of f s \<noteq> net_of f r \<Longrightarrow>
      \<not> IPNet_Contains (net_of f s) (net_IP en) \<and> \<not> IPNet_Contains en (net_IP (net_of f s))"
    using * by metis
qed

text \<open>A rule's network that shares an address with an except of another rule is that rule's.\<close>

lemma separate_same_net:
  assumes "valid_rules f rules" "excepts_separate f (active_rules f rules)" "r \<in> set (active_rules f rules)"
    "e \<in> set (fr_Except r)" "except_net e = Some en" "IPNet_Contains en a"
    "s \<in> set (active_rules f rules)" "IPNet_Contains (net_of f s) a"
  shows "net_of f s = net_of f r"
proof (rule ccontr)
  assume ne: "net_of f s \<noteq> net_of f r"
  have c: "canon_net en" "canon_net (net_of f s)"
    using except_net_canonical [OF assms(5)] rule_net_Some(2) [OF rule_net_of [OF assms(1,7)]] by auto
  have "IPNet_Contains (net_of f s) (net_IP en) \<or> IPNet_Contains en (net_IP (net_of f s))"
    using contains_nested [OF c assms(6,8)] contains_nested [OF c(2,1) assms(8,6)] by linarith
  with separateD(4) [OF assms(2-5,7) ne] show False by blast
qed

lemma enforcement_excepted:
  assumes val: "valid_rules f rules" and sep: "excepts_separate f (active_rules f rules)"
    and r: "r \<in> set (active_rules f rules)" "e \<in> set (fr_Except r)" "except_net e = Some en" "IPNet_Contains en a"
    and C: "has_entry f rules nodeNet C" "IPNet_Contains C a" "C \<noteq> nodeNet" "canon_net C"
    and longest: "has_entry f rules nodeNet en \<Longrightarrow> net_ones en \<le> net_ones C"
  shows "C \<notin> rule_nets f (active_rules f rules)" "\<not> (\<exists>s \<in> set (active_rules f rules). rule_allows f s a q d)"
proof -
  have "has_entry f rules nodeNet en" using r unfolding has_entry_def except_nets_def by blast
  then have le: "net_ones en \<le> net_ones C" by (rule longest)
  show "C \<notin> rule_nets f (active_rules f rules)"
  proof
    assume "C \<in> rule_nets f (active_rules f rules)"
    then obtain s where s: "s \<in> set (active_rules f rules)" "C = net_of f s"
      using rule_nets_net_of [OF val] by auto
    then have "C = net_of f r" using separate_same_net [OF val sep r s(1)] C(2) by simp
    with separateD(1) [OF sep r(1-3)] le show False by simp
  qed
  show "\<not> (\<exists>s \<in> set (active_rules f rules). rule_allows f s a q d)"
  proof
    assume "\<exists>s \<in> set (active_rules f rules). rule_allows f s a q d"
    then obtain s where s: "s \<in> set (active_rules f rules)" "rule_allows f s a q d"
      by (auto simp: rule_allows_def active_rules_def)
    then have "IPNet_Contains (net_of f s) a"
      using covers_net_of [OF val s(1)] by (simp add: rule_allows_def)
    then have "net_of f s = net_of f r" by (rule separate_same_net [OF val sep r s(1)])
    then have "set (fr_Except s) = set (fr_Except r)" by (rule separateD(3) [OF sep r(1-3) s(1)])
    then have "excepted (set (fr_Except s)) a" using excepted_iff [OF val r(1)] r by auto
    with s(2) show False by (simp add: rule_allows_def)
  qed
qed

lemma excepted_excepts_of:
  "excepted (excepts_of f rs n) a \<longleftrightarrow> (\<exists>t \<in> set rs. has_net f n t \<and> excepted (set (fr_Except t)) a)"
  unfolding excepted_def excepts_of_def by blast

text \<open>Where no except covers the address, the ports of the longest network are those of all
  rules that cover the address.\<close>

lemma enforcement_ports:
  assumes val: "valid_rules f rules" and sep: "excepts_separate f (active_rules f rules)" and inh: "inherits_ok f (active_rules f rules)"
    and C: "C \<in> rule_nets f (active_rules f rules)" "IPNet_Contains C a"
    and longest: "\<forall>n \<in> rule_nets f (active_rules f rules). IPNet_Contains n a \<longrightarrow> net_ones n \<le> net_ones C"
  shows "port_for f (active_rules f rules) C p \<longleftrightarrow>
    (\<exists>r \<in> set (active_rules f rules). covers f r a \<and> p \<in> set (eff_ports r))"
proof
  let ?as = "active_rules f rules"
  obtain s where s: "s \<in> set ?as" "C = net_of f s" using C(1) rule_nets_net_of [OF val] by auto
  have "\<not> excepted (excepts_of f ?as (net_of f r)) (net_IP C)" if r: "r \<in> set ?as" "net_of f r \<noteq> C" for r
  proof
    assume "excepted (excepts_of f ?as (net_of f r)) (net_IP C)"
    then obtain t where t: "t \<in> set ?as" "net_of f t = net_of f r" "excepted (set (fr_Except t)) (net_IP C)"
      using excepted_excepts_of [of f ?as "net_of f r" "net_IP C"] by (auto simp: net_of_def)
    then obtain e en where "e \<in> set (fr_Except t)" "except_net e = Some en" "IPNet_Contains en (net_IP C)"
      using excepted_iff [OF val] by blast
    with separateD(4) [OF sep t(1) _ _ s(1)] s t r show False by auto
  qed
  then show "\<exists>r \<in> set ?as. covers f r a \<and> p \<in> set (eff_ports r) \<Longrightarrow> port_for f ?as C p"
    using covering_port_for [OF val inh C longest] by blast
qed (rule port_for_covering [OF _ C(2)])

lemma few_ports_length:
  assumes "few_ports f (active_rules f rules) a" "distinct (map port_key ports)"
    "\<forall>p \<in> set ports. \<exists>r \<in> set (active_rules f rules). covers f r a \<and> p \<in> set (eff_ports r)"
  shows "length ports \<le> 24"
proof -
  let ?ks = "map port_key (concat (map eff_ports (filter (\<lambda>r. covers f r a) (active_rules f rules))))"
  have "set (map port_key ports) \<subseteq> set ?ks" using assms(3) by fastforce
  then have "card (set (map port_key ports)) \<le> card (set ?ks)" by (intro card_mono) auto
  then show ?thesis
    using assms(1,2) by (simp add: few_ports_def distinct_card length_remdups_card_conv
        del: set_map set_concat)
qed

lemma eff_ports_not_reserved:
  "ports_ok rules \<Longrightarrow> r \<in> set rules \<Longrightarrow> p \<in> set (eff_ports r) \<Longrightarrow> not_reserved p"
  by (auto simp: ports_ok_def eff_ports_def catchAllL4Entry_def not_reserved_def ptr_val_def protocol_defs
      split: if_splits)

lemma evaluate_rule_entry:
  assumes val: "valid_rules f rules" and sep: "excepts_separate f (active_rules f rules)" and inh: "inherits_ok f (active_rules f rules)"
    and few: "few_ports f (active_rules f rules) a" and ok: "ports_ok rules" and q: "q \<noteq> 0"
    and C: "C \<in> rule_nets f (active_rules f rules)" "IPNet_Contains C a"
    and longest: "\<forall>n \<in> rule_nets f (active_rules f rules). IPNet_Contains n a \<longrightarrow> net_ones n \<le> net_ones C"
    and clear: "\<not> (\<exists>r \<in> set (active_rules f rules). excepted (set (fr_Except r)) a)"
    and v: "entry_spec f (active_rules f rules) nodeNet C (Some v)"
  shows "evaluateNamespacePolicyByLookUp (Some v) q d st =
    (if \<exists>r \<in> set (active_rules f rules). rule_allows f r a q d then ACTION_ALLOW else ACTION_DENY)"
proof -
  let ?as = "active_rules f rules"
  note pf = enforcement_ports [OF val sep inh C longest]
  obtain ports where v': "v = ComputeTrieValue ports False False" "ports \<noteq> []" "distinct (map port_key ports)"
      "\<forall>p \<in> set ports. port_for f ?as C p"
      "\<forall>p. port_for f ?as C p \<longrightarrow> port_key p \<in> port_key ` set ports"
    using v C(1) by (auto simp: entry_spec_def)
  have nr: "not_reserved p" if "port_for f ?as C p" for p
    using that pf eff_ports_not_reserved [OF ok] by (auto simp: active_rules_def)
  have len: "length ports \<le> 24" using few_ports_length [OF few v'(3)] v'(4) pf by blast
  have "(\<exists>p \<in> set ports. port_permits p q d) \<longleftrightarrow> (\<exists>p. port_for f ?as C p \<and> port_permits p q d)"
  proof
    assume "\<exists>p. port_for f ?as C p \<and> port_permits p q d"
    then obtain p where p: "port_for f ?as C p" "port_permits p q d" by blast
    then obtain p' where "p' \<in> set ports" "port_key p' = port_key p" using v'(5) by fastforce
    with p port_key_permits [of p' p q d] nr v'(4) show "\<exists>p \<in> set ports. port_permits p q d" by blast
  qed (use v'(4) in blast)
  also have "\<dots> \<longleftrightarrow> (\<exists>r \<in> set (active_rules f rules). rule_allows f r a q d)"
    using pf clear by (auto simp: rule_allows_def active_rules_def)
  finally show ?thesis
    using evaluate_ports [OF v'(2) len _ q, of d st] nr v'(1,4) by simp
qed

lemma rule_nets_family: "n \<in> rule_nets f (active_rules f rules) \<Longrightarrow> family_net f n"
  using active_family by (auto simp: rule_nets_def active_rules_def)

lemma enforcement_found:
  assumes val: "valid_rules f rules" and sep: "excepts_separate f (active_rules f rules)" and inh: "inherits_ok f (active_rules f rules)"
    and few: "few_ports f (active_rules f rules) a" and ok: "ports_ok rules" and q: "q \<noteq> 0"
    and C: "family_net f C" "IPNet_Contains C a" "entry_spec f (active_rules f rules) nodeNet C (Some v)"
    and node: "\<not> IPNet_Contains nodeNet a"
    and longest: "\<forall>n. family_net f n \<longrightarrow> has_entry f rules nodeNet n \<longrightarrow> IPNet_Contains n a \<longrightarrow> net_ones n \<le> net_ones C"
  shows "evaluateNamespacePolicyByLookUp (Some v) q d st =
    (if \<exists>r \<in> set (active_rules f rules). rule_allows f r a q d then ACTION_ALLOW else ACTION_DENY)"
proof -
  let ?as = "active_rules f rules"
  have hasC: "has_entry f rules nodeNet C" using entry_spec_None [OF C(3)] by simp
  have ne: "C \<noteq> nodeNet" using C(2) node by auto
  show ?thesis
  proof (cases "\<exists>r \<in> set ?as. excepted (set (fr_Except r)) a")
    case True
    then obtain r e en where r: "r \<in> set ?as" "e \<in> set (fr_Except r)" "except_net e = Some en" "IPNet_Contains en a"
      using excepted_iff [OF val] by blast
    have "family_net f en" using valid_except [OF val r(1,2)] r(3) by auto
    then have le: "has_entry f rules nodeNet en \<Longrightarrow> net_ones en \<le> net_ones C" using longest r(4) by blast
    have "canon_net C" using C(1) by (simp add: family_net_def)
    note ex = enforcement_excepted [OF val sep r hasC C(2) ne this le]
    then have "v = ComputeTrieValue [denyAllL4Entry] False False"
      using C(3) hasC ne by (auto simp: entry_spec_def has_entry_def split: if_splits)
    with ex(2) show ?thesis by (simp add: evaluate_deny)
  next
    case False
    have "C \<notin> except_nets (active_rules f rules)"
    proof
      assume "C \<in> except_nets (active_rules f rules)"
      then obtain r e where "r \<in> set ?as" "e \<in> set (fr_Except r)" "except_net e = Some C"
        by (auto simp: except_nets_def)
      with excepted_iff [OF val] C(2) False show False by blast
    qed
    then have "C \<in> rule_nets f ?as" using hasC ne by (simp add: has_entry_def)
    moreover have "\<forall>n \<in> rule_nets f ?as. IPNet_Contains n a \<longrightarrow> net_ones n \<le> net_ones C"
      using longest rule_nets_family by (simp add: has_entry_def)
    ultimately show ?thesis using evaluate_rule_entry [OF val sep inh few ok q _ C(2) _ False C(3)] by simp
  qed
qed

lemma policy_lookup:
  assumes lpm: "lpm_map lookup" and os: "orders_ok os" and cfg: "fw_config f nodeNet"
    and val: "valid_rules f rules" and sep: "excepts_separate f (active_rules f rules)" and inh: "inherits_ok f (active_rules f rules)"
    and few: "few_ports f (active_rules f rules) a" and ok: "ports_ok rules"
    and m: "ComputeMapEntriesFromEndpointRules os f rules = Inr m"
    and a: "family_addr f a" "\<not> IPNet_Contains nodeNet a" and q: "q \<noteq> 0"
  shows "evaluateNamespacePolicyByLookUp (lookup m a) q d POLICIES_APPLIED =
    (if \<exists>r \<in> set (active_rules f rules). rule_allows f r a q d then ACTION_ALLOW else ACTION_DENY)"
proof -
  let ?as = "active_rules f rules"
  have spec: "\<And>n. family_net f n \<Longrightarrow> entry_spec f (active_rules f rules) nodeNet n (map_of m (trie_key f n))"
    and keys: "fst ` set m \<subseteq> {trie_key f n |n. family_net f n}"
    using map_entries [OF os cfg val] m by auto
  have entry: "map_of m (trie_key f n) \<noteq> None \<longleftrightarrow> has_entry f rules nodeNet n" if "family_net f n" for n
    using entry_spec_None [OF spec [OF that]] by simp
  note L = lpm_map.lookup_family [OF lpm keys a(1)]
  show ?thesis
  proof (cases "lookup m a")
    case None
    have "\<not> covers f r a" if "r \<in> set ?as" for r
    proof -
      have n: "net_of f r \<in> rule_nets f ?as" using rule_nets_net_of [OF val] that by auto
      then have "has_entry f rules nodeNet (net_of f r)" by (simp add: has_entry_def)
      then show ?thesis
        using L None entry rule_nets_family [OF n] covers_net_of [OF val that] by auto
    qed
    then have "\<not> (\<exists>r \<in> set ?as. rule_allows f r a q d)"
      by (auto simp: rule_allows_def active_rules_def)
    then show ?thesis using None by (simp add: evaluateNamespacePolicyByLookUp_def)
  next
    case (Some v)
    then obtain C where C: "family_net f C" "map_of m (trie_key f C) = Some v" "IPNet_Contains C a"
        "\<forall>n. family_net f n \<longrightarrow> map_of m (trie_key f n) \<noteq> None \<longrightarrow> IPNet_Contains n a \<longrightarrow> net_ones n \<le> net_ones C"
      using L by auto
    then have "entry_spec f (active_rules f rules) nodeNet C (Some v)" using spec [OF C(1)] by simp
    with C entry Some show ?thesis
      using enforcement_found [OF val sep inh few ok q C(1,3) _ a(2)] by simp
  qed
qed

text \<open>C1: End to end, a network policy is enforced as it is written. Take valid rules and the map the
  agent computes for them, installed in an LPM map. A packet of another address than the node's, with
  an IP protocol other than 0, is allowed by the network policy tier exactly when some rule covers its
  address outside the rule's excepts and permits its protocol and port. This holds of rules with: no
  network but the node's own address that starts at the node's address; every except CIDR strictly
  inside its rule's CIDR, apart from the CIDRs of the other rules, and the same excepts for the same
  CIDR; no IPv6 /32 that contains another rule's network; at most 24 distinct ports that apply to the
  address; and no port whose protocol is the reserved code. Outside these conditions the code can decide
  otherwise; \<open>node_network_ignored\<close> and \<open>protocol_zero_allowed\<close> below show two such cases.\<close>

theorem network_policy_enforced:
  assumes lpm: "lpm_map lookup" and os: "orders_ok os" and cfg: "node_config f nodeNet"
    and val: "valid_rules f rules" and apart: "node_apart f nodeNet rules"
    and sep: "excepts_separate f (scope_rules f nodeNet rules)" and inh: "inherits_ok f (scope_rules f nodeNet rules)"
    and few: "few_ports f (scope_rules f nodeNet rules) a" and ok: "ports_ok rules"
    and m: "ComputeMapEntriesFromEndpointRules os f rules = Inr m"
    and a: "family_addr f a" "\<not> IPNet_Contains nodeNet a" and q: "q \<noteq> 0"
  shows "evaluateNamespacePolicyByLookUp (lookup m a) q d POLICIES_APPLIED =
    (if \<exists>r \<in> set rules. rule_allows f r a q d then ACTION_ALLOW else ACTION_DENY)"
  using policy_lookup [OF lpm os _ val _ _ _ ok m a q, of d] cfg sep inh few
  unfolding allows_active [OF cfg apart a] valid_rules_scope [OF cfg val, symmetric] node_config_def by blast

theorem network_policy_enforced_witness:
  "\<exists>m. ComputeMapEntriesFromEndpointRules example_orders example_processor example_rules = Inr m \<and>
     evaluateNamespacePolicyByLookUp (lpm_scan m [10, 1, 3, 4]) 6 80 POLICIES_APPLIED = ACTION_ALLOW \<and>
     evaluateNamespacePolicyByLookUp (lpm_scan m [10, 1, 2, 9]) 6 80 POLICIES_APPLIED = ACTION_DENY"
proof -
  let ?f = example_processor and ?rs = example_rules
  obtain m where m: "ComputeMapEntriesFromEndpointRules example_orders ?f ?rs = Inr m"
    using map_entries [OF example_ok(1) example_config example_ok(3)] by blast
  let ?sc = "scope_rules ?f example_node ?rs"
  have ok: "excepts_separate ?f ?sc" "inherits_ok ?f ?sc" "ports_ok ?rs"
    "few_ports ?f ?sc [10, 1, 3, 4]" "few_ports ?f ?sc [10, 1, 2, 9]"
    "family_addr ?f [10, 1, 3, 4]" "family_addr ?f [10, 1, 2, 9]"
    "\<not> IPNet_Contains example_node [10, 1, 3, 4]" "\<not> IPNet_Contains example_node [10, 1, 2, 9]"
    "node_apart ?f example_node ?rs"
    by code_simp+
  have sem: "\<exists>r \<in> set ?rs. rule_allows ?f r [10, 1, 3, 4] 6 80"
    "\<not> (\<exists>r \<in> set ?rs. rule_allows ?f r [10, 1, 2, 9] 6 80)"
    by code_simp+
  note enf = network_policy_enforced [OF scan.lpm_map_axioms example_ok ok(10) ok(1,2) _ ok(3) m]
  show ?thesis
    using m enf [OF ok(4,6,8), of 6 80] enf [OF ok(5,7,9), of 6 80] sem by auto
qed

section \<open>Deviations\<close>

text \<open>A rule whose network starts at the node's address is ignored whatever its prefix length is: a
  packet that only such rules cover is denied.\<close>

theorem node_network_ignored:
  assumes lpm: "lpm_map lookup" and os: "orders_ok os" and cfg: "node_config f nodeNet" and val: "valid_rules f rules"
    and m: "ComputeMapEntriesFromEndpointRules os f rules = Inr m"
    and a: "family_addr f a" "\<not> IPNet_Contains nodeNet a"
    and only: "\<forall>r \<in> set rules. covers f r a \<longrightarrow> net_IP (net_of f r) = net_IP nodeNet"
  shows "evaluateNamespacePolicyByLookUp (lookup m a) q d POLICIES_APPLIED = ACTION_DENY"
proof -
  have cfg': "fw_config f nodeNet" using cfg by (simp add: node_config_def)
  have spec: "\<And>n. family_net f n \<Longrightarrow> entry_spec f (active_rules f rules) nodeNet n (map_of m (trie_key f n))"
    and keys: "fst ` set m \<subseteq> {trie_key f n |n. family_net f n}"
    using map_entries [OF os cfg' val] m by auto
  have out: "\<not> IPNet_Contains n a" if net: "n \<in> rule_nets f (active_rules f rules)" for n
  proof
    assume c: "IPNet_Contains n a"
    obtain r where r: "r \<in> set rules" "active f r" "has_net f n r"
      using net by (auto simp: rule_nets_def active_rules_def)
    with c only have "net_IP n = net_IP nodeNet" by (auto simp: covers_def net_of_def)
    with active_iff_in_scope [OF cfg r(3)] r(2, 3) show False by (simp add: in_scope_def)
  qed
  show ?thesis
  proof (cases "lookup m a")
    case (Some v)
    then obtain C where C: "family_net f C" "map_of m (trie_key f C) = Some v" "IPNet_Contains C a"
      using lpm_map.lookup_family [OF lpm keys a(1)] by auto
    have "C \<notin> rule_nets f (active_rules f rules)" "C \<noteq> nodeNet" using out C(3) a(2) by auto
    with spec [OF C(1)] C(2) have "v = ComputeTrieValue [denyAllL4Entry] False False"
      by (auto simp: entry_spec_def split: if_splits)
    with Some show ?thesis by (simp add: evaluate_deny)
  qed (simp add: evaluateNamespacePolicyByLookUp_def)
qed

text \<open>The node 10.0.0.16 and a rule for the network 10.0.0.16/28.\<close>

theorem node_network_ignored_witness:
  "let f = \<lparr>fwrp_nodeIP = ''10.0.0.16'', fwrp_hostMask = ''/32'', fwrp_enableIPv6 = False\<rparr>;
       r = rule_of ''10.0.0.16/28'' [] [tcp_port 80]
   in \<exists>m. ComputeMapEntriesFromEndpointRules example_orders f [r] = Inr m \<and> rule_allows f r [10, 0, 0, 17] 6 80 \<and>
        evaluateNamespacePolicyByLookUp (lpm_scan m [10, 0, 0, 17]) 6 80 POLICIES_APPLIED = ACTION_DENY"
proof -
  let ?f = "\<lparr>fwrp_nodeIP = ''10.0.0.16'', fwrp_hostMask = ''/32'', fwrp_enableIPv6 = False\<rparr>"
  let ?r = "rule_of ''10.0.0.16/28'' [] [tcp_port 80]"
  let ?n = "\<lparr>net_IP = [10, 0, 0, 16], net_Mask = [255, 255, 255, 255]\<rparr>"
  have ok: "node_config ?f ?n" "valid_rules ?f [?r]" "family_addr ?f [10, 0, 0, 17]" "\<not> IPNet_Contains ?n [10, 0, 0, 17]"
    "\<forall>r \<in> set [?r]. covers ?f r [10, 0, 0, 17] \<longrightarrow> net_IP (net_of ?f r) = net_IP ?n" "rule_allows ?f ?r [10, 0, 0, 17] 6 80"
    by code_simp+
  have "fw_config ?f ?n" using ok(1) by (simp add: node_config_def)
  then obtain m where m: "ComputeMapEntriesFromEndpointRules example_orders ?f [?r] = Inr m"
    using map_entries [OF example_ok(1) _ ok(2)] by blast
  from node_network_ignored [OF scan.lpm_map_axioms example_ok(1) ok(1, 2) m ok(3-5), of 6 80] m ok(6)
  show ?thesis by (simp add: Let_def)
qed

text \<open>IP protocol 0: the unused slots of a value are zero, and the datapath takes such a slot for one of
  protocol 0 with any port. Every value with less than 24 ports, none of them reserved, allows all
  traffic of protocol 0, whatever its ports are.\<close>

theorem protocol_zero_allowed:
  assumes "ports \<noteq> []" "length ports < 24" "\<forall>p \<in> set ports. not_reserved p"
  shows "evaluateNamespacePolicyByLookUp (Some (ComputeTrieValue ports False False)) 0 d st = ACTION_ALLOW"
proof -
  let ?vs = "map port_entry ports @ replicate (24 - length ports) zero_trie_val"
  have z: "entry_matches zero_trie_val 0 d" "tv_Protocol zero_trie_val \<noteq> 255"
    by (simp_all add: entry_matches_def np_port_match_def zero_trie_val_def)
  have "zero_trie_val \<in> set ?vs" using assms(2) by simp
  with z(1) have "\<exists>v \<in> set ?vs. entry_matches v 0 d" by blast
  moreover have "np_loop ?vs 0 d = (if \<exists>v \<in> set ?vs. entry_matches v 0 d then ACTION_ALLOW else ACTION_DENY)"
    using assms(3) z(2) entry_matches_permits(2) by (intro np_loop_allow) auto
  ultimately show ?thesis
    using value_slots [OF assms(1)] assms(2) by (simp add: evaluateNamespacePolicyByLookUp_def MAX_PORT_PROTOCOL_def)
qed

theorem protocol_zero_allowed_witness:
  "evaluateNamespacePolicyByLookUp (Some (ComputeTrieValue [tcp_port 80] False False)) 0 53 POLICIES_APPLIED = ACTION_ALLOW \<and>
   \<not> port_permits (tcp_port 80) 0 53"
proof -
  have "not_reserved (tcp_port 80)" "\<not> port_permits (tcp_port 80) 0 53" by code_simp+
  then show ?thesis using protocol_zero_allowed [of "[tcp_port 80]"] by simp
qed

end
