(* ===== verification/FwCluster.thy ===== *)
theory FwCluster
  imports Datapath
begin

text \<open>
  \<^verbatim>\<open>pkg/fwruleprocessor/fw_rule_processor.go\<close>, the cluster policy half: rules sorted by prefix
  length collect the rules of the most specific broader CIDR, are deduplicated and encoded with
  priority and action. The theorems relate the map to what the tier evaluation of the datapath
  finds for a packet.
\<close>

section \<open>The processor\<close>

definition normalizeCIDR :: "FirewallRuleProcessor \<Rightarrow> string \<Rightarrow> string" where
  "normalizeCIDR f cidr =
     (let cidr = (if CHR ''/'' \<in> set cidr then cidr else cidr @ fwrp_hostMask f)
      in case ParseCIDR cidr of Some (_, ipNet) \<Rightarrow> IPNet_String ipNet | None \<Rightarrow> cidr)"

definition getPrefixLength :: "string \<Rightarrow> int" where
  "getPrefixLength cidr =
     (let parts = go_split (CHR ''/'') cidr
      in if length parts \<noteq> 2 then 32 else go_atoi_or_zero (parts ! 1))"

definition sortByCIDRLength ::
  "FirewallRuleProcessor \<Rightarrow> EbpfFirewallRules list \<Rightarrow> EbpfFirewallRules list" where
  "sortByCIDRLength f rules = sort_key (\<lambda>r. getPrefixLength (normalizeCIDR f (fr_IPCidr r))) rules"

text \<open>
  The search from the last processed CIDR to the first; \<^verbatim>\<open>Contains\<close> on a nil network and the
  address of a nil network panic. The empty string means that none contains the current CIDR.
\<close>

fun find_overlap_loop :: "(ip \<times> IPNet) option \<Rightarrow> string list \<Rightarrow> go_panic + string" where
  "find_overlap_loop currentNet [] = Inr []"
| "find_overlap_loop currentNet (processedCIDR # rest) =
     (case (ParseCIDR processedCIDR, currentNet) of
        (Some (_, processedNet), Some (_, cur)) \<Rightarrow>
          if IPNet_Contains processedNet (net_IP cur) then Inr processedCIDR
          else find_overlap_loop currentNet rest
      | _ \<Rightarrow> Inl NilDereference)"

definition findMostSpecificOverlap :: "string \<Rightarrow> string list \<Rightarrow> go_panic + string" where
  "findMostSpecificOverlap currentCIDR processedCIDRs =
     find_overlap_loop (ParseCIDR currentCIDR) (rev processedCIDRs)"

text \<open>The key of the deduplication: \<^verbatim>\<open>%v\<close> of a non-nil protocol pointer prints its address.\<close>

definition l4_key :: "L4Rule \<Rightarrow> string" where
  "l4_key p =
     (let port = port_or_zero (port_Port (l4_Info p)); endPort = port_or_zero (port_EndPort (l4_Info p));
          proto = (case port_Protocol (l4_Info p) of
                     None \<Rightarrow> ''TCP'' | Some (addr, _) \<Rightarrow> ''0x'' @ hex_string addr)
      in go_join ''-'' [proto, int_string port, int_string endPort, int_string (l4_Priority p), l4_Action p])"

definition removeDuplicateL4Rules ::
  "((string, L4Rule) go_map \<Rightarrow> (string, L4Rule) go_map) \<Rightarrow> L4Rule list \<Rightarrow> L4Rule list" where
  "removeDuplicateL4Rules ord l4Rules =
     map snd (ord (first_by l4_key l4Rules))"

record cp_state =
  cp_cidrL4Rules :: "(string, L4Rule list) go_map"
  cp_processed :: "string list"

definition l4_of :: "(string, L4Rule list) go_map \<Rightarrow> string \<Rightarrow> L4Rule list" where
  "l4_of m c = (case map_of m c of None \<Rightarrow> [] | Some l \<Rightarrow> l)"

text \<open>The rules of one policy rule: one per port, or one that matches everything.\<close>

definition own_l4 :: "EbpfFirewallRules \<Rightarrow> L4Rule list" where
  "own_l4 rule =
     (if fr_L4Info rule = []
      then [\<lparr>l4_Info = empty_port, l4_Action = fr_Action rule, l4_Priority = fr_Priority rule\<rparr>]
      else map (\<lambda>port. \<lparr>l4_Info = port, l4_Action = fr_Action rule, l4_Priority = fr_Priority rule\<rparr>)
             (fr_L4Info rule))"

text \<open>One iteration of the loop over the sorted rules.\<close>

definition cluster_step :: "FirewallRuleProcessor \<Rightarrow> EbpfFirewallRules \<Rightarrow> cp_state \<Rightarrow> go_panic + cp_state" where
  "cluster_step f rule st =
     (let cidr = normalizeCIDR f (fr_IPCidr rule)
      in if shouldSkipRule f cidr then Inr st
         else
           (case findMostSpecificOverlap cidr (cp_processed st) of
              Inl e \<Rightarrow> Inl e
            | Inr overlappingCIDR \<Rightarrow>
                let m = cp_cidrL4Rules st;
                    m1 = (if overlappingCIDR \<noteq> []
                          then AList.update cidr (l4_of m cidr @ l4_of m overlappingCIDR) m else m);
                    m2 = AList.update cidr (l4_of m1 cidr @ own_l4 rule) m1
                in Inr \<lparr>cp_cidrL4Rules = m2, cp_processed = cp_processed st @ [cidr]\<rparr>))"

definition nodeIPL4Rule :: "L4Rule list" where
  "nodeIPL4Rule = [\<lparr>l4_Info = empty_port, l4_Action = ''Accept'', l4_Priority = 0\<rparr>]"

record cp_orders =
  ord_cp_cidrs :: "(string, L4Rule list) go_map \<Rightarrow> (string, L4Rule list) go_map"
  ord_cp_rules :: "string \<Rightarrow> (string, L4Rule) go_map \<Rightarrow> (string, L4Rule) go_map"

definition cp_encode_step ::
  "cp_orders \<Rightarrow> FirewallRuleProcessor \<Rightarrow> string \<times> L4Rule list \<Rightarrow> bpf_entries \<Rightarrow> go_panic + bpf_entries" where
  "cp_encode_step os f = (\<lambda>(cidr, l4Rules) firewallMap.
     let resolvedL4Rules = removeDuplicateL4Rules (ord_cp_rules os cidr) l4Rules
     in case ParseCIDR cidr of
          None \<Rightarrow> Inl NilDereference
        | Some (_, firewallMapKey) \<Rightarrow>
            Inr (AList.update (ComputeTrieKey firewallMapKey (fwrp_enableIPv6 f))
                   (ComputeTrieValueForCPE resolvedL4Rules) firewallMap))"

definition ComputeClusterPolicyMapEntriesFromEndpointRules ::
  "cp_orders \<Rightarrow> FirewallRuleProcessor \<Rightarrow> EbpfFirewallRules list \<Rightarrow> go_panic + bpf_entries" where
  "ComputeClusterPolicyMapEntriesFromEndpointRules os f firewallRules =
     (case ParseCIDR (fwrp_nodeIP f @ fwrp_hostMask f) of
        None \<Rightarrow> Inl NilDereference
      | Some (_, mapKey) \<Rightarrow>
          (case fold_panic (cluster_step f) (sortByCIDRLength f firewallRules)
                  \<lparr>cp_cidrL4Rules = [], cp_processed = []\<rparr> of
             Inl e \<Rightarrow> Inl e
           | Inr st \<Rightarrow>
               fold_panic (cp_encode_step os f) (ord_cp_cidrs os (cp_cidrL4Rules st))
                 [(ComputeTrieKey mapKey (fwrp_enableIPv6 f), ComputeTrieValueForCPE nodeIPL4Rule)]))"

section \<open>The rules collected for a network\<close>

text \<open>All rules whose network contains a network.\<close>

definition l4_for :: "FirewallRuleProcessor \<Rightarrow> EbpfFirewallRules list \<Rightarrow> IPNet \<Rightarrow> L4Rule set" where
  "l4_for f rs n = (\<Union>r \<in> {r \<in> set rs. net_ones (net_of f r) \<le> net_ones n \<and> IPNet_Contains (net_of f r) (net_IP n)}.
     set (own_l4 r))"

definition cp_inv :: "FirewallRuleProcessor \<Rightarrow> EbpfFirewallRules list \<Rightarrow> cp_state \<Rightarrow> bool" where
  "cp_inv f rs st \<longleftrightarrow>
     cp_processed st = map (\<lambda>r. IPNet_String (net_of f r)) rs \<and>
     go_map_wf (cp_cidrL4Rules st) \<and>
     dom (map_of (cp_cidrL4Rules st)) = IPNet_String ` net_of f ` set rs \<and>
     (\<forall>n \<in> net_of f ` set rs. set (l4_of (cp_cidrL4Rules st) (IPNet_String n)) = l4_for f rs n)"

lemma cp_invD:
  assumes "cp_inv f rs st"
  shows cp_inv_processed: "cp_processed st = map (\<lambda>r. IPNet_String (net_of f r)) rs"
    and cp_inv_wf: "go_map_wf (cp_cidrL4Rules st)"
    and cp_inv_domain: "dom (map_of (cp_cidrL4Rules st)) = IPNet_String ` net_of f ` set rs"
    and cp_inv_l4: "n \<in> net_of f ` set rs \<Longrightarrow> set (l4_of (cp_cidrL4Rules st) (IPNet_String n)) = l4_for f rs n"
  using assms by (simp_all only: cp_inv_def)

lemma normalizeCIDR_eq: "normalizeCIDR f c = rule_cidr f c"
  by (auto simp: normalizeCIDR_def rule_cidr_def Let_def split: option.splits)

lemma find_overlap_canon:
  assumes "canon_net n" "\<forall>k \<in> set ks. canon_net k"
  shows "find_overlap_loop (Some (b, n)) (map IPNet_String ks) =
    Inr (case List.find (\<lambda>k. IPNet_Contains k (net_IP n)) ks of None \<Rightarrow> [] | Some k \<Rightarrow> IPNet_String k)"
  using assms(2) by (induction ks) (simp_all add: ParseCIDR_IPNet_String)

text \<open>The search gives the longest processed network that contains the current one.\<close>

lemma find_rev_longest:
  assumes "sorted (map net_ones ks)" "List.find P (rev ks) = Some k" "k' \<in> set ks" "P k'"
  shows "net_ones k' \<le> net_ones k"
  using assms
proof (induction ks rule: rev_induct)
  case (snoc x xs)
  then show ?case by (cases "P x") (auto simp: sorted_append)
qed simp

lemma find_Some_in: "List.find P xs = Some x \<Longrightarrow> x \<in> set xs \<and> P x"
  by (induction xs) (auto split: if_splits)

lemma l4_for_longest:
  assumes "canon_net n" "canon_net k" "\<forall>r \<in> set rs. canon_net (net_of f r)"
    "IPNet_Contains k (net_IP n)" "net_ones k \<le> net_ones n"
    "\<forall>r \<in> set rs. IPNet_Contains (net_of f r) (net_IP n) \<longrightarrow> net_ones (net_of f r) \<le> net_ones k"
  shows "l4_for f rs k = l4_for f rs n"
proof -
  have "net_ones (net_of f r) \<le> net_ones k \<and> IPNet_Contains (net_of f r) (net_IP k) \<longleftrightarrow>
      net_ones (net_of f r) \<le> net_ones n \<and> IPNet_Contains (net_of f r) (net_IP n)" if r: "r \<in> set rs" for r
    using assms r contains_trans [of "net_of f r" k "net_IP n"] contains_nested [of "net_of f r" k "net_IP n"]
    by (meson le_trans)
  then show ?thesis unfolding l4_for_def by (intro SUP_cong) auto
qed

lemma l4_for_snoc:
  assumes "canon_net k" "canon_net (net_of f r)"
  shows "l4_for f (rs @ [r]) k = l4_for f rs k \<union>
    (if net_ones (net_of f r) \<le> net_ones k \<and> IPNet_Contains (net_of f r) (net_IP k) then set (own_l4 r) else {})"
  by (auto simp: l4_for_def)

lemma l4_of_update: "l4_of (AList.update c v m) c' = (if c' = c then v else l4_of m c')"
  by (simp add: l4_of_def)

definition overlap_net :: "FirewallRuleProcessor \<Rightarrow> EbpfFirewallRules list \<Rightarrow> IPNet \<Rightarrow> IPNet option" where
  "overlap_net f rs n = List.find (\<lambda>k. IPNet_Contains k (net_IP n)) (rev (map (net_of f) rs))"

definition collected ::
  "FirewallRuleProcessor \<Rightarrow> EbpfFirewallRules list \<Rightarrow> IPNet \<Rightarrow> (string, L4Rule list) go_map \<Rightarrow> L4Rule list" where
  "collected f rs n m =
     (case overlap_net f rs n of
        None \<Rightarrow> l4_of m (IPNet_String n)
      | Some k \<Rightarrow> l4_of m (IPNet_String n) @ l4_of m (IPNet_String k))"

lemma collected_set:
  assumes inv: "cp_inv f rs st" and n: "canon_net n" and canon: "\<forall>s \<in> set rs. canon_net (net_of f s)"
    and le: "\<forall>s \<in> set rs. net_ones (net_of f s) \<le> net_ones n"
    and srt: "sorted (map (\<lambda>s. net_ones (net_of f s)) rs)"
  shows "set (collected f rs n (cp_cidrL4Rules st)) = l4_for f rs n"
proof -
  let ?m = "cp_cidrL4Rules st" and ?c = "IPNet_String n"
  have absent: "l4_of ?m ?c = []" if "n \<notin> net_of f ` set rs"
    using that cp_inv_domain [OF inv] String_image_iff [of n "net_of f ` set rs"] n canon
    by (auto simp: l4_of_def split: option.splits)
  show ?thesis
  proof (cases "overlap_net f rs n")
    case None
    then have no: "\<not> IPNet_Contains (net_of f s) (net_IP n)" if "s \<in> set rs" for s
      using that by (auto simp: find_None_iff overlap_net_def)
    then have "n \<notin> net_of f ` set rs" using canon_contains_self [OF n] by auto
    then show ?thesis using no None absent by (auto simp: collected_def l4_for_def)
  next
    case (Some k)
    note Some' = Some [unfolded overlap_net_def]
    have k: "k \<in> net_of f ` set rs" "IPNet_Contains k (net_IP n)" using find_Some_in [OF Some'] by auto
    have longest: "\<forall>s \<in> set rs. IPNet_Contains (net_of f s) (net_IP n) \<longrightarrow> net_ones (net_of f s) \<le> net_ones k"
      using find_rev_longest [OF _ Some'] srt by (simp add: comp_def)
    have ck: "canon_net k" "net_ones k \<le> net_ones n" using k(1) canon le by auto
    have "set (l4_of ?m (IPNet_String k)) = l4_for f rs n"
      using cp_inv_l4 [OF inv k(1)] l4_for_longest [OF n ck(1) canon k(2) ck(2) longest] by simp
    moreover have "set (l4_of ?m ?c) \<subseteq> l4_for f rs n"
      using absent cp_inv_l4 [OF inv, of n] by (cases "n \<in> net_of f ` set rs") auto
    ultimately show ?thesis using Some by (auto simp: collected_def)
  qed
qed

lemma cluster_step_active:
  assumes inv: "cp_inv f rs st" and r: "has_net f n r" and act: "active f r"
    and canon: "\<forall>s \<in> set rs. canon_net (net_of f s)"
  shows "cluster_step f r st = Inr \<lparr>cp_cidrL4Rules =
      AList.update (IPNet_String n) (collected f rs n (cp_cidrL4Rules st) @ own_l4 r) (cp_cidrL4Rules st),
    cp_processed = cp_processed st @ [IPNet_String n]\<rparr>"
proof -
  note n = rule_net_Some [OF r]
  let ?ks = "map (net_of f) rs"
  have "findMostSpecificOverlap (IPNet_String n) (cp_processed st) =
      Inr (case overlap_net f rs n of None \<Rightarrow> [] | Some k \<Rightarrow> IPNet_String k)"
    using find_overlap_canon [OF n(2), of "rev ?ks"] canon cp_inv_processed [OF inv] n(3)
    by (simp add: findMostSpecificOverlap_def overlap_net_def rev_map comp_def)
  moreover have "IPNet_String k \<noteq> []" if "overlap_net f rs n = Some k" for k
    using find_Some_in [OF that [unfolded overlap_net_def]] canon canon_IPNet_String_nonempty by auto
  ultimately show ?thesis
    using act n(1)
    by (auto simp: cluster_step_def normalizeCIDR_eq active_def collected_def l4_of_update Let_def
        split: option.splits)
qed

lemma cluster_step_inv:
  assumes inv: "cp_inv f rs st" and r: "has_net f n r" and act: "active f r"
    and canon: "\<forall>s \<in> set rs. canon_net (net_of f s)"
    and srt: "sorted (map (\<lambda>s. net_ones (net_of f s)) (rs @ [r]))"
  shows "\<exists>st'. cluster_step f r st = Inr st' \<and> cp_inv f (rs @ [r]) st'"
proof -
  have n: "net_of f r = n" "canon_net n" using rule_net_Some [OF r] r by (simp_all add: net_of_def)
  have le: "\<forall>s \<in> set rs. net_ones (net_of f s) \<le> net_ones n" using srt n(1) by (auto simp: sorted_append)
  define st' where "st' = \<lparr>cp_cidrL4Rules =
      AList.update (IPNet_String n) (collected f rs n (cp_cidrL4Rules st) @ own_l4 r) (cp_cidrL4Rules st),
    cp_processed = cp_processed st @ [IPNet_String n]\<rparr>"
  have old: "set (collected f rs n (cp_cidrL4Rules st)) = l4_for f rs n"
    using collected_set [OF inv n(2) canon le] srt by (simp add: sorted_append)
  have "set (l4_of (cp_cidrL4Rules st') (IPNet_String k)) = l4_for f (rs @ [r]) k"
    if k: "k \<in> net_of f ` set (rs @ [r])" for k
  proof (cases "k = n")
    case True
    then show ?thesis
      using old l4_for_snoc [of n f r rs] n canon_contains_self [OF n(2)] by (simp add: st'_def l4_of_update)
  next
    case False
    then have k': "k \<in> net_of f ` set rs" "canon_net k" "net_ones k \<le> net_ones n" using k n(1) canon le by auto
    have "\<not> (net_ones n \<le> net_ones k \<and> IPNet_Contains n (net_IP k))"
      using contains_same_ones [of n k "net_IP k"] canon_contains_self [OF k'(2)] k' False n(2) by auto
    then show ?thesis
      using cp_inv_l4 [OF inv k'(1)] l4_for_snoc [OF k'(2), of f r rs] n False
        IPNet_String_inject [OF k'(2) n(2)] by (auto simp: st'_def l4_of_update)
  qed
  then have "cp_inv f (rs @ [r]) st'"
    using cp_invD(1-3) [OF inv] n(1) by (simp add: cp_inv_def st'_def)
  with cluster_step_active [OF inv r act canon] show ?thesis unfolding st'_def by blast
qed

section \<open>The deduplication keeps the entries\<close>

text \<open>
  Rules as the controller produces them: ports and priorities are not negative, a port that is
  set is not 0, and the protocol pointers point into one heap.
\<close>

definition l4_ok :: "(nat \<Rightarrow> string) \<Rightarrow> L4Rule \<Rightarrow> bool" where
  "l4_ok heap l \<longleftrightarrow>
     (case port_Protocol (l4_Info l) of None \<Rightarrow> True | Some (a, s) \<Rightarrow> s = heap a) \<and>
     (case port_Port (l4_Info l) of None \<Rightarrow> True | Some w \<Rightarrow> 0 < sint w) \<and>
     (case port_EndPort (l4_Info l) of None \<Rightarrow> True | Some w \<Rightarrow> 0 < sint w) \<and>
     0 \<le> l4_Priority l \<and> l4_Action l \<in> {ActionAcceptName, ActionDenyName, ActionPassName}"

definition proto_key :: "L4Rule \<Rightarrow> string" where
  "proto_key l = (case port_Protocol (l4_Info l) of None \<Rightarrow> ''TCP'' | Some (addr, _) \<Rightarrow> ''0x'' @ hex_string addr)"

lemma hex_string_inject: "hex_string a = hex_string b \<longleftrightarrow> a = b"
  by (metis hex_digits_val_hex_string)

lemma int_string_dash: "0 \<le> i \<Longrightarrow> CHR ''-'' \<notin> set (int_string i)"
  by (simp add: int_string_def nat_string_not_in digit_val_def)

lemma int_string_inject: "0 \<le> i \<Longrightarrow> 0 \<le> j \<Longrightarrow> int_string i = int_string j \<longleftrightarrow> i = j"
  by (simp add: int_string_def eq_nat_nat_iff)

lemma port_or_zero_ok:
  "(case p of None \<Rightarrow> True | Some w \<Rightarrow> 0 < sint w) \<Longrightarrow> 0 \<le> port_or_zero p"
  "(case p of None \<Rightarrow> True | Some w \<Rightarrow> 0 < sint w) \<Longrightarrow> (case p' of None \<Rightarrow> True | Some w \<Rightarrow> 0 < sint w) \<Longrightarrow>
     port_or_zero p = port_or_zero p' \<Longrightarrow> p = p'"
  by (auto simp: port_or_zero_def signed_word_eqI split: option.splits)

lemma proto_key_dash: "CHR ''-'' \<notin> set (proto_key l)"
  using hex_string_is_hex by (fastforce simp: proto_key_def is_hex_def hex_val_def split: option.splits)

lemma l4_key_parts:
  assumes "l4_ok heap l"
  shows "go_split (CHR ''-'') (l4_key l) =
    [proto_key l, int_string (port_or_zero (port_Port (l4_Info l))),
     int_string (port_or_zero (port_EndPort (l4_Info l))), int_string (l4_Priority l), l4_Action l]"
  unfolding l4_key_def Let_def proto_key_def [symmetric]
  using assms proto_key_dash port_or_zero_ok(1) int_string_dash
  by (subst go_split_join) (auto simp: l4_ok_def ActionAcceptName_def ActionDenyName_def ActionPassName_def)

lemma proto_key_inject:
  "l4_ok heap l \<Longrightarrow> l4_ok heap l' \<Longrightarrow> proto_key l = proto_key l' \<Longrightarrow>
     port_Protocol (l4_Info l) = port_Protocol (l4_Info l')"
  by (auto simp: proto_key_def l4_ok_def hex_string_inject split: option.splits prod.splits)

lemma l4_key_inject:
  assumes "l4_ok heap l" "l4_ok heap l'" "l4_key l = l4_key l'"
  shows "l = l'"
proof -
  note eqs = l4_key_parts [OF assms(1)] l4_key_parts [OF assms(2)] assms(3)
  have "proto_key l = proto_key l'" "l4_Action l = l4_Action l'"
    "port_or_zero (port_Port (l4_Info l)) = port_or_zero (port_Port (l4_Info l'))"
    "port_or_zero (port_EndPort (l4_Info l)) = port_or_zero (port_EndPort (l4_Info l'))"
    "l4_Priority l = l4_Priority l'"
    using eqs assms(1,2) int_string_inject port_or_zero_ok(1) by (auto simp: l4_ok_def)
  moreover from this assms(1,2) have "port_Port (l4_Info l) = port_Port (l4_Info l')"
      "port_EndPort (l4_Info l) = port_EndPort (l4_Info l')"
      "port_Protocol (l4_Info l) = port_Protocol (l4_Info l')"
    using port_or_zero_ok(2) proto_key_inject by (auto simp: l4_ok_def)
  ultimately show ?thesis by (simp add: L4Rule.equality Port.equality)
qed

lemma removeDuplicateL4Rules_set:
  assumes "range_order ord" "\<forall>l \<in> set ls. l4_ok heap l"
  shows "set (removeDuplicateL4Rules ord ls) = set ls" "distinct (removeDuplicateL4Rules ord ls)"
proof -
  note r = first_by_range [OF assms(1), where key = l4_key and xs = ls]
  have "inj_on l4_key (set ls)" using assms(2) l4_key_inject unfolding inj_on_def by blast
  with r(2,3) show "set (removeDuplicateL4Rules ord ls) = set ls"
    by (simp add: removeDuplicateL4Rules_def inj_on_image_eq_iff)
  show "distinct (removeDuplicateL4Rules ord ls)"
    using distinct_map [THEN iffD1, OF r(1)] unfolding removeDuplicateL4Rules_def by blast
qed

section \<open>The cluster policy map\<close>

definition cp_valid :: "FirewallRuleProcessor \<Rightarrow> EbpfFirewallRules list \<Rightarrow> bool" where
  "cp_valid f rules \<longleftrightarrow> (\<forall>r \<in> set rules. active f r \<longrightarrow> rule_net f (fr_IPCidr r) \<noteq> None)"

definition cp_orders_ok :: "cp_orders \<Rightarrow> bool" where
  "cp_orders_ok os \<longleftrightarrow> range_order (ord_cp_cidrs os) \<and> (\<forall>c. range_order (ord_cp_rules os c))"

lemma getPrefixLength_canon: "canon_net n \<Longrightarrow> getPrefixLength (IPNet_String n) = int (net_ones n)"
  using canon_net_ones_bound [of n]
  by (simp add: getPrefixLength_def IPNet_String_canon go_split_append nat_string_not_in digit_val_def
      Let_def digits_val_go_atoi)

lemma cp_valid_net: "cp_valid f rules \<Longrightarrow> r \<in> set (active_rules f rules) \<Longrightarrow> has_net f (net_of f r) r"
  by (auto simp: cp_valid_def active_rules_def net_of_def)

lemma cluster_loop:
  assumes "\<forall>r \<in> set rs. active f r \<and> has_net f (net_of f r) r"
    and "sorted (map (\<lambda>r. net_ones (net_of f r)) rs)"
  shows "\<exists>st. fold_panic (cluster_step f) rs \<lparr>cp_cidrL4Rules = [], cp_processed = []\<rparr> = Inr st \<and> cp_inv f rs st"
  using assms
proof (induction rs rule: rev_induct)
  case Nil
  show ?case by (simp add: cp_inv_def)
next
  case (snoc r rs)
  then obtain st where st: "fold_panic (cluster_step f) rs \<lparr>cp_cidrL4Rules = [], cp_processed = []\<rparr> = Inr st"
      "cp_inv f rs st"
    by (auto simp: sorted_append)
  have "\<forall>s \<in> set rs. canon_net (net_of f s)" using snoc.prems(1) rule_net_Some(2) by auto
  with cluster_step_inv [OF st(2) _ _ _ snoc.prems(2)] snoc.prems(1) st(1)
  show ?case by (auto simp: fold_panic_append)
qed

lemma cluster_skip:
  "fold_panic (cluster_step f) rs st = fold_panic (cluster_step f) (filter (active f) rs) st"
  by (induction rs arbitrary: st)
     (auto simp: active_def cluster_step_def normalizeCIDR_eq Let_def split: sum.splits)

lemma cluster_loop_sorted:
  assumes "cp_valid f rules"
  shows "\<exists>st rs. fold_panic (cluster_step f) (sortByCIDRLength f rules) \<lparr>cp_cidrL4Rules = [], cp_processed = []\<rparr> = Inr st \<and>
    cp_inv f rs st \<and> set rs = set (active_rules f rules)"
proof -
  let ?key = "\<lambda>r. getPrefixLength (normalizeCIDR f (fr_IPCidr r))"
  let ?srt = "filter (active f) (sortByCIDRLength f rules)"
  have set: "set ?srt = set (active_rules f rules)" by (simp add: sortByCIDRLength_def active_rules_def)
  have net: "has_net f (net_of f r) r" if "r \<in> set ?srt" for r using that cp_valid_net [OF assms] set by blast
  have key: "?key r = int (net_ones (net_of f r))" if "r \<in> set ?srt" for r
    using rule_net_Some [OF net [OF that]] by (simp add: normalizeCIDR_eq getPrefixLength_canon)
  have "sorted (map ?key ?srt)" unfolding sortByCIDRLength_def by (intro sorted_filter) simp
  then have "sorted_wrt (\<lambda>x y. ?key x \<le> ?key y) ?srt" by (simp only: sorted_map)
  then have "sorted (map (\<lambda>r. net_ones (net_of f r)) ?srt)"
    unfolding sorted_map by (rule sorted_wrt_mono_rel [rotated]) (simp only: key of_nat_le_iff)
  moreover have "\<forall>r \<in> set ?srt. active f r \<and> has_net f (net_of f r) r" using net by auto
  ultimately obtain st where "fold_panic (cluster_step f) ?srt \<lparr>cp_cidrL4Rules = [], cp_processed = []\<rparr> = Inr st"
      "cp_inv f ?srt st"
    using cluster_loop by blast
  with set cluster_skip show ?thesis by metis
qed

definition cp_encoded :: "cp_orders \<Rightarrow> string \<Rightarrow> L4Rule list \<Rightarrow> byte list" where
  "cp_encoded os c ls = ComputeTrieValueForCPE (removeDuplicateL4Rules (ord_cp_rules os c) ls)"

interpretation cp_enc: map_encoder f "cp_encode_step os f" "cp_encoded os" for f os
  by unfold_locales
     (simp add: cp_encode_step_def family_net_def ParseCIDR_IPNet_String cp_encoded_def Let_def)

definition l4_rules_ok :: "(nat \<Rightarrow> string) \<Rightarrow> EbpfFirewallRules list \<Rightarrow> bool" where
  "l4_rules_ok heap rules \<longleftrightarrow> (\<forall>r \<in> set rules. \<forall>l \<in> set (own_l4 r). l4_ok heap l)"

definition cp_entry_spec ::
  "FirewallRuleProcessor \<Rightarrow> EbpfFirewallRules list \<Rightarrow> IPNet \<Rightarrow> IPNet \<Rightarrow> byte list option \<Rightarrow> bool" where
  "cp_entry_spec f rules nodeNet n entry =
     (if n \<in> rule_nets f (active_rules f rules) then
        \<exists>ls. entry = Some (ComputeTrieValueForCPE ls) \<and> distinct ls \<and> set ls = l4_for f (active_rules f rules) n
      else entry = (if n = nodeNet then Some (ComputeTrieValueForCPE nodeIPL4Rule) else None))"

lemma l4_for_cong: "set rs = set rs' \<Longrightarrow> l4_for f rs n = l4_for f rs' n"
  by (simp add: l4_for_def)

lemma l4_for_ok: "l4_rules_ok heap rules \<Longrightarrow> l \<in> l4_for f (active_rules f rules) n \<Longrightarrow> l4_ok heap l"
  by (auto simp: l4_for_def l4_rules_ok_def active_rules_def)

lemma cp_rule_nets: "cp_valid f rules \<Longrightarrow> rule_nets f (active_rules f rules) = net_of f ` set (active_rules f rules)"
proof -
  assume v: "cp_valid f rules"
  have "net_of f r \<in> rule_nets f (active_rules f rules)" if "r \<in> set (active_rules f rules)" for r
    using cp_valid_net [OF v that] that unfolding rule_nets_def by blast
  moreover have "n \<in> net_of f ` set (active_rules f rules)" if "n \<in> rule_nets f (active_rules f rules)" for n
    using that by (force simp: rule_nets_def net_of_def)
  ultimately show ?thesis by blast
qed

lemma cp_map_entries:
  assumes os: "cp_orders_ok os" and cfg: "fw_config f nodeNet" and val: "cp_valid f rules"
    and ok: "l4_rules_ok heap rules"
  shows "\<exists>m. ComputeClusterPolicyMapEntriesFromEndpointRules os f rules = Inr m \<and> go_map_wf m \<and>
    (\<forall>n. family_net f n \<longrightarrow> cp_entry_spec f rules nodeNet n (map_of m (trie_key f n))) \<and>
    fst ` set m \<subseteq> {trie_key f n |n. family_net f n}"
proof -
  let ?as = "active_rules f rules"
  obtain st rs where st: "fold_panic (cluster_step f) (sortByCIDRLength f rules)
      \<lparr>cp_cidrL4Rules = [], cp_processed = []\<rparr> = Inr st" "cp_inv f rs st" "set rs = set ?as"
    using cluster_loop_sorted [OF val] by blast
  let ?cm = "cp_cidrL4Rules st"
  have oc: "range_order (ord_cp_cidrs os)" using os by (simp add: cp_orders_ok_def)
  then have d: "distinct (map fst (ord_cp_cidrs os ?cm))" and mo: "map_of (ord_cp_cidrs os ?cm) = map_of ?cm"
    using cp_inv_wf [OF st(2)] range_order_distinct range_order_map_of by (auto simp: go_map_wf_def)
  have dom: "dom (map_of ?cm) = IPNet_String ` rule_nets f ?as"
    using cp_inv_domain [OF st(2)] st(3) cp_rule_nets [OF val] by simp
  then have "fst ` set (ord_cp_cidrs os ?cm) = IPNet_String ` rule_nets f ?as"
    using range_order_set [OF oc, of ?cm] by (simp add: dom_map_of_conv_image_fst)
  then have keys: "\<forall>k \<in> fst ` set (ord_cp_cidrs os ?cm). \<exists>n. family_net f n \<and> k = IPNet_String n"
    using rule_nets_family by blast
  let ?m0 = "[(trie_key f nodeNet, ComputeTrieValueForCPE nodeIPL4Rule)]"
  obtain m where m: "fold_panic (cp_encode_step os f) (ord_cp_cidrs os ?cm) ?m0 = Inr m"
      "go_map_wf ?m0 \<longrightarrow> go_map_wf m"
      "\<forall>n. family_net f n \<longrightarrow> map_of m (trie_key f n) =
         (case map_of ?cm (IPNet_String n) of None \<Rightarrow> map_of ?m0 (trie_key f n)
          | Some v \<Rightarrow> Some (cp_encoded os (IPNet_String n) v))"
      "fst ` set m \<subseteq> fst ` set ?m0 \<union> {trie_key f n |n. family_net f n}"
    using cp_enc.encode_loop [OF keys d, of os ?m0] unfolding mo by blast
  have N: "family_net f nodeNet" using cfg by (simp add: fw_config_def)
  have "cp_entry_spec f rules nodeNet n (map_of m (trie_key f n))" if n: "family_net f n" for n
  proof (cases "n \<in> rule_nets f ?as")
    case True
    then obtain v where v: "map_of ?cm (IPNet_String n) = Some v" using dom by blast
    have "n \<in> net_of f ` set rs" using True cp_rule_nets [OF val] st(3) by simp
    moreover have "l4_of ?cm (IPNet_String n) = v" using v by (simp add: l4_of_def)
    ultimately have "set v = l4_for f ?as n"
      using cp_inv_l4 [OF st(2), of n] l4_for_cong [OF st(3)] by simp
    moreover from this have "\<forall>l \<in> set v. l4_ok heap l" using l4_for_ok [OF ok] by simp
    moreover have "range_order (ord_cp_rules os (IPNet_String n))" using os by (simp add: cp_orders_ok_def)
    ultimately show ?thesis
      using removeDuplicateL4Rules_set v m(3) n True by (auto simp: cp_entry_spec_def cp_encoded_def)
  next
    case False
    then have "map_of ?cm (IPNet_String n) = None"
      using dom String_image_iff [OF _ rule_nets_canon, of n f ?as] n by (metis domIff family_net_def)
    then show ?thesis using False m(3) n trie_key_inject [OF n N] by (auto simp: cp_entry_spec_def)
  qed
  moreover have "ComputeClusterPolicyMapEntriesFromEndpointRules os f rules = Inr m"
    using cfg st(1) m(1) by (auto simp: ComputeClusterPolicyMapEntriesFromEndpointRules_def fw_config_def)
  moreover have "go_map_wf m" using m(2) by (simp add: go_map_wf_def)
  moreover have "fst ` set m \<subseteq> {trie_key f n |n. family_net f n}" using m(4) N by auto
  ultimately show ?thesis by blast
qed

section \<open>Tier evaluation as a minimum\<close>

text \<open>The pair of priority and action of a tier as the combined number the map stores.\<close>

definition admin_code :: "cp_result \<Rightarrow> nat" where
  "admin_code r = unat (admin_tier_priority r) * 10 + unat (admin_tier_action r)"

definition baseline_code :: "cp_result \<Rightarrow> nat" where
  "baseline_code r = unat (baseline_tier_priority r) * 10 + unat (baseline_tier_action r)"

definition digits_ok :: "cp_result \<Rightarrow> bool" where
  "digits_ok r \<longleftrightarrow> unat (admin_tier_action r) < 10 \<and> unat (baseline_tier_action r) < 10"

abbreviation val_code :: "BPFL4PriorityVal \<Rightarrow> nat" where
  "val_code v \<equiv> unat (pv_Priority v)"

lemma unat_div_mod_10: "unat (w div 10) = unat (w :: u32) div 10" "unat (w mod 10) = unat w mod 10"
  by (simp_all add: unat_div unat_mod)

lemma lex_less: "a < 10 \<Longrightarrow> b < 10 \<Longrightarrow> p < (q :: nat) \<or> p = q \<and> a < b \<longleftrightarrow> p * 10 + a < q * 10 + b"
  by auto

lemma cp_step_codes:
  assumes "digits_ok r"
  shows "digits_ok (cp_step q d v r)"
    and "admin_code (cp_step q d v r) = (if cp_match v q d then min (admin_code r) (val_code v) else admin_code r)"
    and "baseline_code (cp_step q d v r) =
      (if cp_match v q d \<and> val_code v div 10 > 1000 then min (baseline_code r) (val_code v) else baseline_code r)"
proof -
  let ?p = "pv_Priority v div 10" and ?a = "pv_Priority v mod 10"
  have a: "unat ?a < 10" and code: "unat ?p * 10 + unat ?a = val_code v" by (simp_all add: unat_div_mod_10)
  have adm: "(?p < admin_tier_priority r \<or> ?p = admin_tier_priority r \<and> ?a < admin_tier_action r) \<longleftrightarrow>
      val_code v < admin_code r"
    using lex_less [OF a, of "unat (admin_tier_action r)" "unat ?p" "unat (admin_tier_priority r)"] assms code
    by (auto simp: word_less_nat_alt word_unat_eq_iff admin_code_def digits_ok_def)
  have bas: "(?p < baseline_tier_priority r \<or> ?p = baseline_tier_priority r \<and> ?a < baseline_tier_action r) \<longleftrightarrow>
      val_code v < baseline_code r"
    using lex_less [OF a, of "unat (baseline_tier_action r)" "unat ?p" "unat (baseline_tier_priority r)"] assms code
    by (auto simp: word_less_nat_alt word_unat_eq_iff baseline_code_def digits_ok_def)
  have lim: "?p > ADMIN_TIER_PRIORITY_LIMIT \<longleftrightarrow> val_code v div 10 > 1000"
    by (simp add: word_less_nat_alt unat_div_mod_10 ADMIN_TIER_PRIORITY_LIMIT_def)
  have step: "cp_step q d v r =
    (if cp_match v q d then
       (if val_code v < admin_code r then r\<lparr>admin_tier_priority := ?p, admin_tier_action := ?a\<rparr> else r)
       \<lparr>baseline_tier_priority := (if val_code v div 10 > 1000 \<and> val_code v < baseline_code r then ?p
          else baseline_tier_priority r),
        baseline_tier_action := (if val_code v div 10 > 1000 \<and> val_code v < baseline_code r then ?a
          else baseline_tier_action r)\<rparr>
     else r)"
    using adm bas lim
    by (cases r; cases "val_code v < admin_code r"; cases "val_code v < baseline_code r"; cases "cp_match v q d")
       (auto simp: cp_step_def Let_def)
  show "digits_ok (cp_step q d v r)" using assms a by (simp add: step digits_ok_def)
  show "admin_code (cp_step q d v r) = (if cp_match v q d then min (admin_code r) (val_code v) else admin_code r)"
    using code by (simp add: step) (simp add: admin_code_def)
  show "baseline_code (cp_step q d v r) =
      (if cp_match v q d \<and> val_code v div 10 > 1000 then min (baseline_code r) (val_code v) else baseline_code r)"
    using code by (simp add: step) (simp add: baseline_code_def)
qed

lemma Min_insert_min: "finite A \<Longrightarrow> Min (insert (min x y) A) = Min (insert x (insert y (A :: nat set)))"
  by (cases "A = {}") (simp_all add: min.assoc)

lemma cp_fold_codes:
  assumes "digits_ok r"
  shows "admin_code (fold (cp_step q d) vs r) = Min (insert (admin_code r) {val_code v |v. v \<in> set vs \<and> cp_match v q d})
    \<and> baseline_code (fold (cp_step q d) vs r) =
      Min (insert (baseline_code r) {val_code v |v. v \<in> set vs \<and> cp_match v q d \<and> val_code v div 10 > 1000})"
  using assms
proof (induction vs arbitrary: r)
  case (Cons v vs)
  let ?A = "{val_code u |u. u \<in> set vs \<and> cp_match u q d}"
  let ?B = "{val_code u |u. u \<in> set vs \<and> cp_match u q d \<and> val_code u div 10 > 1000}"
  have fin: "finite ?A" "finite ?B" by simp_all
  have A: "{val_code u |u. u \<in> set (v # vs) \<and> cp_match u q d} =
      (if cp_match v q d then insert (val_code v) ?A else ?A)" by auto
  have B: "{val_code u |u. u \<in> set (v # vs) \<and> cp_match u q d \<and> val_code u div 10 > 1000} =
      (if cp_match v q d \<and> val_code v div 10 > 1000 then insert (val_code v) ?B else ?B)" by auto
  note IH = Cons.IH [OF cp_step_codes(1) [OF Cons.prems, of q d v]]
  show ?case
    unfolding A B fold_Cons comp_apply using IH fin cp_step_codes(2,3) [OF Cons.prems, of q d v]
    by (auto simp: Min_insert_min)
qed simp

lemma cp_value_slots:
  assumes "length ls \<le> 24"
  shows "map (read_priority_val (ComputeTrieValueForCPE ls)) [0..<24] =
    map l4_entry ls @ replicate (24 - length ls) zero_priority_val"
proof (rule nth_equalityI)
  fix i assume "i < length (map (read_priority_val (ComputeTrieValueForCPE ls)) [0..<24])"
  then have "i < 24" by simp
  then show "map (read_priority_val (ComputeTrieValueForCPE ls)) [0..<24] ! i =
      (map l4_entry ls @ replicate (24 - length ls) zero_priority_val) ! i"
    using read_cpe_slot [of i ls] by (simp add: nth_append)
qed (use assms in simp)

lemma zero_priority_no_match: "q \<noteq> 0 \<Longrightarrow> \<not> cp_match zero_priority_val q d"
  by (simp add: cp_match_def zero_priority_val_def ucast_u8_eq)

lemma cp_default_codes: "digits_ok cp_default" "admin_code cp_default = 655362" "baseline_code cp_default = 655362"
  by (simp_all add: digits_ok_def admin_code_def baseline_code_def cp_default_def dp_consts)

lemma evaluate_cluster_codes:
  assumes "length ls \<le> 24" "q \<noteq> 0"
    and res: "res = evaluateClusterPolicyByLookUp (Some (ComputeTrieValueForCPE ls)) q d"
  shows "admin_code res = Min (insert 655362 {val_code (l4_entry l) |l. l \<in> set ls \<and> cp_match (l4_entry l) q d}) \<and>
    baseline_code res = Min (insert 655362 {val_code (l4_entry l) |l. l \<in> set ls \<and> cp_match (l4_entry l) q d \<and>
      val_code (l4_entry l) div 10 > 1000})"
proof -
  let ?vs = "map l4_entry ls @ replicate (24 - length ls) zero_priority_val"
  have z: "v \<in> set ?vs \<and> cp_match v q d \<longleftrightarrow> (\<exists>l \<in> set ls. v = l4_entry l) \<and> cp_match v q d" for v
    using zero_priority_no_match [OF assms(2)] by auto
  have res': "res = fold (cp_step q d) ?vs cp_default"
    by (simp add: res evaluateClusterPolicyByLookUp_def MAX_PORT_PROTOCOL_def cp_value_slots [OF assms(1)])
  have "{val_code v |v. v \<in> set ?vs \<and> cp_match v q d} =
      {val_code (l4_entry l) |l. l \<in> set ls \<and> cp_match (l4_entry l) q d}"
    by (intro Collect_cong) (metis z)
  moreover have "{val_code v |v. v \<in> set ?vs \<and> cp_match v q d \<and> val_code v div 10 > 1000} =
      {val_code (l4_entry l) |l. l \<in> set ls \<and> cp_match (l4_entry l) q d \<and> val_code (l4_entry l) div 10 > 1000}"
    by (intro Collect_cong) (metis z)
  ultimately show ?thesis
    using cp_fold_codes [OF cp_default_codes(1), of q d ?vs] unfolding res' cp_default_codes(2,3) by simp
qed

section \<open>Enforcement of cluster policies, end to end\<close>

text \<open>The traffic a port of a cluster policy stands for: everything when no field is set or the protocol
  is the catch-all; otherwise its protocol (TCP when none is given), and its port or port range.\<close>

definition cp_permits :: "Port \<Rightarrow> u8 \<Rightarrow> u16 \<Rightarrow> bool" where
  "cp_permits p q d \<longleftrightarrow> cpe_protocol p = 254 \<or>
     uint q = cpe_protocol p \<and>
     (case port_Port p of
        None \<Rightarrow> True
      | Some w \<Rightarrow> w = 0 \<or> uint w \<le> uint d \<and> uint d \<le> max (uint w) (case port_EndPort p of None \<Rightarrow> 0 | Some e \<Rightarrow> uint e))"

text \<open>The combined numbers (ten times the priority, plus the action code) of all rules that cover an
  address and match a protocol and port; a rule without ports matches every packet.\<close>

definition matching_codes ::
  "FirewallRuleProcessor \<Rightarrow> EbpfFirewallRules list \<Rightarrow> ip \<Rightarrow> u8 \<Rightarrow> u16 \<Rightarrow> nat set" where
  "matching_codes f rules a q d =
     (\<lambda>r. nat (10 * fr_Priority r + action_code (fr_Action r))) `
       {r \<in> set rules. covers f r a \<and> (fr_L4Info r = [] \<or> (\<exists>p \<in> set (fr_L4Info r). cp_permits p q d))}"

definition prios_ok :: "EbpfFirewallRules list \<Rightarrow> bool" where
  "prios_ok rules \<longleftrightarrow> (\<forall>r \<in> set rules. 0 \<le> fr_Priority r \<and> fr_Priority r < 429496729)"

definition cp_few :: "FirewallRuleProcessor \<Rightarrow> EbpfFirewallRules list \<Rightarrow> ip \<Rightarrow> bool" where
  "cp_few f rs a \<longleftrightarrow> length (remdups (concat (map own_l4 (filter (\<lambda>r. covers f r a) rs)))) \<le> 24"

lemma cp_match_permits: "cp_match (l4_entry l) q d \<longleftrightarrow> cp_permits (l4_Info l) q d"
proof -
  have p: "pv_Protocol (l4_entry l) = 254 \<longleftrightarrow> cpe_protocol (l4_Info l) = 254"
    "pv_Protocol (l4_entry l) = ucast q \<longleftrightarrow> uint q = cpe_protocol (l4_Info l)"
    by (auto simp: word_uint_eq_iff l4_entry_fields uint_up_ucast is_up)
  have pos: "uint a \<le> uint d \<Longrightarrow> uint d \<noteq> uint a \<Longrightarrow> uint d \<le> uint e \<Longrightarrow> 0 < uint e" for a e :: u32
    using uint_nonnegative [of a] by linarith
  show ?thesis
    unfolding cp_match_def cp_permits_def p
    by (cases "port_Port (l4_Info l)"; cases "port_EndPort (l4_Info l)")
      (auto simp: l4_entry_fields ucast_u16_order word_uint_eq_iff [of "0 :: u32"] word_less_def word_le_def uint_ucast_u16 max_def intro: pos)
qed

lemma cp_valid_scope:
  assumes "node_config f nodeNet" "cp_valid f rules"
  shows "active_rules f rules = scope_rules f nodeNet rules"
proof -
  have "active f r \<longleftrightarrow> in_scope f nodeNet r" if r: "r \<in> set rules" for r
  proof (cases "rule_net f (fr_IPCidr r)")
    case None
    then show ?thesis using assms(2) r by (auto simp: cp_valid_def in_scope_def)
  next
    case (Some n)
    then show ?thesis by (rule active_iff_in_scope [OF assms(1)])
  qed
  then show ?thesis unfolding active_rules_def scope_rules_def by (rule filter_cong [OF refl])
qed

lemma l4_for_covering:
  assumes val: "cp_valid f rules" and C: "canon_net C" "IPNet_Contains C a"
    and longest: "\<forall>n \<in> rule_nets f (active_rules f rules). IPNet_Contains n a \<longrightarrow> net_ones n \<le> net_ones C"
  shows "l4_for f (active_rules f rules) C = set (concat (map own_l4 (filter (\<lambda>r. covers f r a) (active_rules f rules))))"
proof -
  have "net_ones (net_of f r) \<le> net_ones C \<and> IPNet_Contains (net_of f r) (net_IP C) \<longleftrightarrow> covers f r a"
    if r: "r \<in> set (active_rules f rules)" for r
  proof -
    note n = cp_valid_net [OF val r]
    have c: "canon_net (net_of f r)" "net_of f r \<in> rule_nets f (active_rules f rules)"
      using rule_net_Some(2) [OF n] cp_rule_nets [OF val] r by auto
    have "covers f r a \<longleftrightarrow> IPNet_Contains (net_of f r) a" using n by (simp add: covers_def)
    then show ?thesis
      using contains_trans [OF c(1) C(1) _ C(2)] contains_nested [OF c(1) C(1) _ C(2)] longest c(2) by blast
  qed
  then show ?thesis by (auto simp: l4_for_def)
qed

lemma matching_codes_covering:
  assumes act: "\<And>r. r \<in> set rules \<Longrightarrow> covers f r a \<Longrightarrow> r \<in> set (active_rules f rules)" and pr: "prios_ok rules"
  shows "matching_codes f rules a q d = {val_code (l4_entry l) |l.
     l \<in> set (concat (map own_l4 (filter (\<lambda>r. covers f r a) (active_rules f rules)))) \<and> cp_match (l4_entry l) q d}"
proof -
  have code: "val_code (l4_entry l) = nat (10 * fr_Priority r + action_code (fr_Action r))"
    if "r \<in> set rules" "l \<in> set (own_l4 r)" for r l
  proof -
    have "l4_Priority l = fr_Priority r" "l4_Action l = fr_Action r" using that(2) by (auto simp: own_l4_def split: if_splits)
    then have "uint (pv_Priority (l4_entry l)) = 10 * fr_Priority r + action_code (fr_Action r)"
      using l4_entry_priority [of l] that(1) pr by (simp add: prios_ok_def)
    from arg_cong [OF this, of nat] show ?thesis by simp
  qed
  have "cp_permits empty_port q d" by (simp add: cp_permits_def cpe_protocol_def empty_port_def)
  then have match: "(\<exists>l \<in> set (own_l4 r). cp_permits (l4_Info l) q d) \<longleftrightarrow>
      fr_L4Info r = [] \<or> (\<exists>p \<in> set (fr_L4Info r). cp_permits p q d)" for r
    by (simp add: own_l4_def)
  have "c \<in> matching_codes f rules a q d \<longleftrightarrow>
      (\<exists>r \<in> set rules. covers f r a \<and> (\<exists>l \<in> set (own_l4 r). cp_permits (l4_Info l) q d \<and> c = val_code (l4_entry l)))" for c
  proof -
    have "c \<in> matching_codes f rules a q d \<longleftrightarrow> (\<exists>r \<in> set rules. covers f r a \<and>
        (\<exists>l \<in> set (own_l4 r). cp_permits (l4_Info l) q d \<and> c = nat (10 * fr_Priority r + action_code (fr_Action r))))"
      unfolding matching_codes_def match [symmetric] by blast
    then show ?thesis using code by (metis (lifting))
  qed
  moreover have "c \<in> {val_code (l4_entry l) |l.
     l \<in> set (concat (map own_l4 (filter (\<lambda>r. covers f r a) (active_rules f rules)))) \<and> cp_match (l4_entry l) q d} \<longleftrightarrow>
      (\<exists>r \<in> set rules. covers f r a \<and> (\<exists>l \<in> set (own_l4 r). cp_permits (l4_Info l) q d \<and> c = val_code (l4_entry l)))" for c
    unfolding cp_match_permits using act by (simp add: active_rules_def) blast
  ultimately show ?thesis by blast
qed

text \<open>C2: End to end, cluster policies are evaluated by priority. Take rules of which those that are not
  skipped have a CIDR that parses, and the map the agent computes for them, installed in an LPM map. For
  a packet of another address than the node's, with an IP protocol other than 0, the admin tier finds the
  least combined priority and action (ten times the priority plus 0 for Deny, 1 for Accept, 2 for Pass)
  among all rules that cover the address and match the packet (the default is priority 65536, pass), and
  the baseline tier the least among those with a priority over 1000. This holds of rules with: no network
  but the node's own address that starts at the node's address; priorities from 0 to 429496728 and one of
  the three actions; ports and end ports that are absent or positive (and memory in which an address holds one
  string, since the deduplication compares addresses of protocol strings); and at most 24 distinct port rules for the
  address. For protocol 0 the code deviates, see \<open>protocol_zero_cluster_deny\<close>.\<close>

theorem cluster_policy_enforced:
  assumes lpm: "lpm_map lookup" and os: "cp_orders_ok os" and node: "node_config f nodeNet"
    and val: "cp_valid f rules" and apart: "node_apart f nodeNet rules" and pr: "prios_ok rules"
    and ok: "l4_rules_ok heap rules" and few: "cp_few f (scope_rules f nodeNet rules) a"
    and m: "ComputeClusterPolicyMapEntriesFromEndpointRules os f rules = Inr m"
    and a: "family_addr f a" "\<not> IPNet_Contains nodeNet a" and q: "q \<noteq> 0"
    and res: "res = evaluateClusterPolicyByLookUp (lookup m a) q d"
  shows "admin_code res = Min (insert 655362 (matching_codes f rules a q d)) \<and>
    baseline_code res = Min (insert 655362 {c \<in> matching_codes f rules a q d. c div 10 > 1000})"
proof -
  have cfg: "fw_config f nodeNet" using node by (simp add: node_config_def)
  note act = covering_active [OF node apart a]
  note few = few [folded cp_valid_scope [OF node val]]
  have codes: "matching_codes f rules a q d = {val_code (l4_entry l) |l.
     l \<in> set (concat (map own_l4 (filter (\<lambda>r. covers f r a) (active_rules f rules)))) \<and> cp_match (l4_entry l) q d}"
    by (rule matching_codes_covering [OF act pr])
  let ?as = "active_rules f rules" and ?cov = "concat (map own_l4 (filter (\<lambda>r. covers f r a) (active_rules f rules)))"
  have spec: "\<And>n. family_net f n \<Longrightarrow> cp_entry_spec f rules nodeNet n (map_of m (trie_key f n))"
    and keys: "fst ` set m \<subseteq> {trie_key f n |n. family_net f n}"
    using cp_map_entries [OF os cfg val ok] m by auto
  have entry: "map_of m (trie_key f n) \<noteq> None" if "n \<in> rule_nets f ?as" for n
    using spec [OF rule_nets_family [OF that]] that by (auto simp: cp_entry_spec_def)
  note L = lpm_map.lookup_family [OF lpm keys a(1)]
  show ?thesis
  proof (cases "lookup m a")
    case None
    have "\<not> covers f r a" if r: "r \<in> set ?as" for r
    proof -
      have n: "net_of f r \<in> rule_nets f ?as" using cp_rule_nets [OF val] r by auto
      then show ?thesis
        using L None entry [OF n] rule_nets_family [OF n] cp_valid_net [OF val r] by (auto simp: covers_def)
    qed
    then have "matching_codes f rules a q d = {}" unfolding codes by auto
    then show ?thesis using None res by (simp add: evaluateClusterPolicyByLookUp_def cp_default_codes)
  next
    case (Some v)
    then obtain C where C: "family_net f C" "map_of m (trie_key f C) = Some v" "IPNet_Contains C a"
        "\<forall>n. family_net f n \<longrightarrow> map_of m (trie_key f n) \<noteq> None \<longrightarrow> IPNet_Contains n a \<longrightarrow> net_ones n \<le> net_ones C"
      using L by auto
    then obtain ls where ls: "v = ComputeTrieValueForCPE ls" "distinct ls" "set ls = l4_for f ?as C"
      using spec [OF C(1)] a(2) by (auto simp: cp_entry_spec_def split: if_splits)
    have "\<forall>n \<in> rule_nets f ?as. IPNet_Contains n a \<longrightarrow> net_ones n \<le> net_ones C"
      using C(4) entry rule_nets_family by blast
    then have cov: "set ls = set ?cov"
      using l4_for_covering [OF val _ C(3)] C(1) ls(3) by (simp add: family_net_def)
    then have "length ls \<le> 24"
      using few distinct_card [OF ls(2)] by (simp add: cp_few_def length_remdups_card_conv del: set_concat)
    from evaluate_cluster_codes [OF this q, of res d] res Some ls(1) show ?thesis
      unfolding codes cov [symmetric] by (auto intro!: arg_cong [where f = "\<lambda>A. Min (insert _ A)"])
  qed
qed

theorem cluster_policy_enforced_witness:
  "\<exists>m. ComputeClusterPolicyMapEntriesFromEndpointRules \<lparr>ord_cp_cidrs = rev, ord_cp_rules = \<lambda>_. id\<rparr> example_processor
       [\<lparr>fr_Priority = 10, fr_Action = ''Deny'', fr_DomainName = [], fr_IPCidr = ''10.0.0.0/8'', fr_Except = [],
         fr_L4Info = []\<rparr>,
        \<lparr>fr_Priority = 5, fr_Action = ''Accept'', fr_DomainName = [], fr_IPCidr = ''10.1.0.0/16'', fr_Except = [],
         fr_L4Info = [tcp_port 443]\<rparr>] = Inr m \<and>
     admin_code (evaluateClusterPolicyByLookUp (lpm_scan m [10, 1, 0, 9]) 6 443) = 51"
proof -
  let ?f = example_processor and ?os = "\<lparr>ord_cp_cidrs = rev, ord_cp_rules = \<lambda>_. id\<rparr>"
  let ?rs = "[\<lparr>fr_Priority = 10, fr_Action = ''Deny'', fr_DomainName = [], fr_IPCidr = ''10.0.0.0/8'', fr_Except = [],
         fr_L4Info = []\<rparr>,
        \<lparr>fr_Priority = 5, fr_Action = ''Accept'', fr_DomainName = [], fr_IPCidr = ''10.1.0.0/16'', fr_Except = [],
         fr_L4Info = [tcp_port 443]\<rparr>]"
  have os: "cp_orders_ok ?os" by (simp add: cp_orders_ok_def)
  have ok: "cp_valid ?f ?rs" "l4_rules_ok (\<lambda>_. ProtocolTCP) ?rs" "cp_few ?f (scope_rules ?f example_node ?rs) [10, 1, 0, 9]"
    "family_addr ?f [10, 1, 0, 9]" "\<not> IPNet_Contains example_node [10, 1, 0, 9]"
    "node_apart ?f example_node ?rs" "prios_ok ?rs"
    by code_simp+
  obtain m where m: "ComputeClusterPolicyMapEntriesFromEndpointRules ?os ?f ?rs = Inr m"
    using cp_map_entries [OF os example_config ok(1,2)] by blast
  have cov: "\<forall>r \<in> set ?rs. covers ?f r [10, 1, 0, 9]" "cp_permits (tcp_port 443) 6 443" by code_simp+
  have "matching_codes ?f ?rs [10, 1, 0, 9] 6 443 = {100, 51}"
  proof -
    have "matching_codes ?f ?rs [10, 1, 0, 9] 6 443 = (\<lambda>r. nat (10 * fr_Priority r + action_code (fr_Action r))) ` set ?rs"
      unfolding matching_codes_def by (rule arg_cong [where f = "image _"]) (use cov in auto)
    also have "\<dots> = {100, 51}" by (simp add: action_code_def)
    finally show ?thesis .
  qed
  then have "Min (insert 655362 (matching_codes ?f ?rs [10, 1, 0, 9] 6 443)) = 51" by simp
  then show ?thesis
    using m cluster_policy_enforced [OF scan.lpm_map_axioms os example_ok(2) ok(1,6,7,2,3) m ok(4,5) _ refl, of 6 443] by simp
qed

text \<open>IP protocol 0: the datapath takes a zero, unused slot for a rule of protocol 0 with priority 0 and
  action Deny. Every value with less than 24 rules denies all traffic of protocol 0 in the admin tier.\<close>

theorem protocol_zero_cluster_deny:
  assumes "length ls < 24"
  shows "admin_code (evaluateClusterPolicyByLookUp (Some (ComputeTrieValueForCPE ls)) 0 d) = 0"
proof -
  let ?vs = "map l4_entry ls @ replicate (24 - length ls) zero_priority_val"
  have r: "evaluateClusterPolicyByLookUp (Some (ComputeTrieValueForCPE ls)) 0 d = fold (cp_step 0 d) ?vs cp_default"
    using cp_value_slots [of ls] assms by (simp add: evaluateClusterPolicyByLookUp_def MAX_PORT_PROTOCOL_def)
  have "cp_match zero_priority_val 0 d" "val_code zero_priority_val = 0" "zero_priority_val \<in> set ?vs"
    using assms by (simp_all add: cp_match_def zero_priority_val_def)
  then have "0 \<in> {val_code v |v. v \<in> set ?vs \<and> cp_match v 0 d}" by force
  then have "Min (insert 655362 {val_code v |v. v \<in> set ?vs \<and> cp_match v 0 d}) = 0"
    using Min_le [of "insert 655362 {val_code v |v. v \<in> set ?vs \<and> cp_match v 0 d}" 0] by simp
  then show ?thesis using cp_fold_codes [OF cp_default_codes(1), of 0 d ?vs] by (simp only: r cp_default_codes(2))
qed

theorem protocol_zero_cluster_deny_witness:
  "admin_code (evaluateClusterPolicyByLookUp (Some (ComputeTrieValueForCPE
     [\<lparr>l4_Info = tcp_port 443, l4_Action = ''Accept'', l4_Priority = 5\<rparr>])) 0 443) = 0"
  by (rule protocol_zero_cluster_deny) simp

section \<open>Repeated CIDRs\<close>

lemma overlap_net_same:
  assumes "canon_net n" "rs \<noteq> []" "\<forall>r \<in> set rs. net_of f r = n"
  shows "overlap_net f rs n = Some n"
proof -
  obtain rs' r where "rs = rs' @ [r]" using assms(2) by (cases rs rule: rev_cases) auto
  then show ?thesis using assms canon_contains_self [OF assms(1)] by (simp add: overlap_net_def)
qed

text \<open>Rules that name the same CIDR double the collected list each time, since the most specific
  processed CIDR is the CIDR itself: k rules of one port each leave 2 to the k, minus one, entries
  to deduplicate.\<close>

theorem repeated_cidr_doubles:
  assumes "\<forall>r \<in> set rs. active f r \<and> has_net f n r \<and> length (own_l4 r) = 1" and "rs \<noteq> []"
  shows "\<exists>st. fold_panic (cluster_step f) rs \<lparr>cp_cidrL4Rules = [], cp_processed = []\<rparr> = Inr st \<and>
    length (l4_of (cp_cidrL4Rules st) (IPNet_String n)) + 1 = 2 ^ length rs"
  using assms
proof (induction rs rule: rev_induct)
  case (snoc r rs)
  let ?s0 = "\<lparr>cp_cidrL4Rules = [], cp_processed = []\<rparr>"
  have net: "\<forall>s \<in> set (rs @ [r]). net_of f s = n" using snoc.prems(1) by (auto simp: net_of_def)
  have n: "canon_net n" using snoc.prems(1) rule_net_Some(2) by auto
  have "sorted (map (\<lambda>s. net_ones (net_of f s)) rs)"
    using net by (induction rs) auto
  then obtain st where st: "fold_panic (cluster_step f) rs ?s0 = Inr st" "cp_inv f rs st"
    using cluster_loop [of rs f] snoc.prems(1) by (auto simp: net_of_def)
  have len: "length (collected f rs n (cp_cidrL4Rules st)) + 2 = 2 ^ Suc (length rs)"
  proof (cases "rs = []")
    case True
    then show ?thesis using st(1) by (auto simp: collected_def overlap_net_def l4_of_def)
  next
    case False
    have "length (l4_of (cp_cidrL4Rules st) (IPNet_String n)) + 1 = 2 ^ length rs"
      using snoc.IH [OF _ False] snoc.prems(1) st(1) by auto
    moreover have "overlap_net f rs n = Some n" using overlap_net_same [OF n False] net by auto
    ultimately show ?thesis by (simp add: collected_def)
  qed
  have "cluster_step f r st = Inr \<lparr>cp_cidrL4Rules =
      AList.update (IPNet_String n) (collected f rs n (cp_cidrL4Rules st) @ own_l4 r) (cp_cidrL4Rules st),
    cp_processed = cp_processed st @ [IPNet_String n]\<rparr>"
    using snoc.prems(1) net n by (intro cluster_step_active [OF st(2)]) auto
  then show ?case using st(1) snoc.prems(1) len by (auto simp: fold_panic_append l4_of_update)
qed simp

theorem repeated_cidr_doubles_witness:
  "\<exists>st. fold_panic (cluster_step example_processor) (replicate 20 (rule_of ''0.0.0.0/0'' [] []))
     \<lparr>cp_cidrL4Rules = [], cp_processed = []\<rparr> = Inr st \<and>
     length (l4_of (cp_cidrL4Rules st) (IPNet_String \<lparr>net_IP = [0, 0, 0, 0], net_Mask = [0, 0, 0, 0]\<rparr>)) = 1048575"
proof -
  let ?r = "rule_of ''0.0.0.0/0'' [] []" and ?n = "\<lparr>net_IP = [0, 0, 0, 0], net_Mask = [0, 0, 0, 0]\<rparr> :: IPNet"
  have "active example_processor ?r" "has_net example_processor ?n ?r" "length (own_l4 ?r) = 1"
    by code_simp+
  then show ?thesis using repeated_cidr_doubles [of "replicate 20 ?r" example_processor ?n] by auto
qed

end
