(* ===== verification/PolicyUtils.thy ===== *)
theory PolicyUtils
  imports Utils
begin

text \<open>
  \<^verbatim>\<open>pkg/utils/policy_utils.go\<close>: the index from pod identifiers to the policy endpoints that
  select them, kept by both reconcilers, and the two comparisons of old and new pod sets.
  A \<^verbatim>\<open>sync.Map\<close> is a HOL map; each function holds the mutex passed to it for its whole body,
  so it is one atomic step on that map. The index is shown to implement a finite relation
  between pod identifiers and policy endpoints, for every sequence of operations.
\<close>

section \<open>Operations\<close>

definition GetPodListToBeCleanedUp :: "Pod list \<Rightarrow> Pod list \<Rightarrow> (string \<rightharpoonup> bool) \<Rightarrow> Pod list" where
  "GetPodListToBeCleanedUp oldPodSet newPodSet podIdentifiers =
     filter (\<lambda>oldPod.
       let oldPodIdentifier = GetPodIdentifier (nn_Name (pod_NamespacedName oldPod))
                                (nn_Namespace (pod_NamespacedName oldPod))
       in oldPod \<notin> set newPodSet \<and> podIdentifiers oldPodIdentifier \<noteq> Some True) oldPodSet"

definition DeriveStalePodIdentifiers ::
  "(string \<rightharpoonup> string list) \<Rightarrow> string \<Rightarrow> string list \<Rightarrow> go_panic + string list" where
  "DeriveStalePodIdentifiers networkPolicyToPodIdentifierMap resourceName targetPodIdentifiers =
     (case GetParentNPNameFromPEName resourceName of
        Inl e \<Rightarrow> Inl e
      | Inr np \<Rightarrow> Inr (case networkPolicyToPodIdentifierMap np of
            None \<Rightarrow> []
          | Some currentPodIdentifiers \<Rightarrow>
              filter (\<lambda>podIdentifier. podIdentifier \<notin> set targetPodIdentifiers) currentPodIdentifiers))"

type_synonym pe_index = "string \<rightharpoonup> string list"

definition DeletePolicyEndpointFromPodIdentifierMap :: "pe_index \<Rightarrow> string \<Rightarrow> string \<Rightarrow> pe_index" where
  "DeletePolicyEndpointFromPodIdentifierMap m podIdentifier policyEndpoint =
     (case m podIdentifier of
        None \<Rightarrow> m
      | Some policyEndpointList \<Rightarrow>
          let currentList = filter (\<lambda>name. name \<noteq> policyEndpoint) policyEndpointList
          in if length currentList = 0 then m(podIdentifier := None)
             else m(podIdentifier \<mapsto> currentList))"

definition UpdatePodIdentifierToPolicyEndpointMap :: "pe_index \<Rightarrow> string \<Rightarrow> string list \<Rightarrow> pe_index" where
  "UpdatePodIdentifierToPolicyEndpointMap m podIdentifier policyEndpointList =
     m(podIdentifier \<mapsto>
        (case m podIdentifier of
           Some currentSet \<Rightarrow>
             fold (\<lambda>name policyEndpoints.
                     if name \<notin> set policyEndpoints then policyEndpoints @ [name] else policyEndpoints)
               policyEndpointList currentSet
         | None \<Rightarrow> policyEndpointList))"

section \<open>The index as a relation\<close>

text \<open>What a reader of the index sees; an absent identifier reads as no policy.\<close>

definition policies_of :: "pe_index \<Rightarrow> string \<Rightarrow> string list" where
  "policies_of m podIdentifier = (case m podIdentifier of None \<Rightarrow> [] | Some ps \<Rightarrow> ps)"

definition index_rel :: "pe_index \<Rightarrow> (string \<times> string) set" where
  "index_rel m = {(i, p). p \<in> set (policies_of m i)}"

text \<open>Calls of the reconcilers on the index, and their effect on the relation.\<close>

datatype index_op = AddPEs string "string list" | DelPE string string

fun index_step :: "index_op \<Rightarrow> pe_index \<Rightarrow> pe_index" where
  "index_step (AddPEs i ps) m = UpdatePodIdentifierToPolicyEndpointMap m i ps"
| "index_step (DelPE i p) m = DeletePolicyEndpointFromPodIdentifierMap m i p"

fun rel_step :: "index_op \<Rightarrow> (string \<times> string) set \<Rightarrow> (string \<times> string) set" where
  "rel_step (AddPEs i ps) r = r \<union> {i} \<times> set ps"
| "rel_step (DelPE i p) r = r - {(i, p)}"

fun op_distinct :: "index_op \<Rightarrow> bool" where
  "op_distinct (AddPEs i ps) = (distinct ps \<and> ps \<noteq> [])"
| "op_distinct (DelPE i p) = True"

text \<open>No identifier is kept with an empty list, and no list has a name twice.\<close>

definition index_ok :: "pe_index \<Rightarrow> bool" where
  "index_ok m \<longleftrightarrow> (\<forall>i ps. m i = Some ps \<longrightarrow> ps \<noteq> [] \<and> distinct ps)"

lemma append_new_set:
  "set (fold (\<lambda>x acc. if x \<notin> set acc then acc @ [x] else acc) xs acc) = set acc \<union> set xs"
  by (induction xs arbitrary: acc) auto

lemma append_new_distinct:
  "distinct acc \<Longrightarrow> distinct (fold (\<lambda>x acc. if x \<notin> set acc then acc @ [x] else acc) xs acc)"
  by (induction xs arbitrary: acc) auto

lemma append_new_prefix:
  "\<exists>ys. fold (\<lambda>x acc. if x \<notin> set acc then acc @ [x] else acc) xs acc = acc @ ys"
proof (induction xs arbitrary: acc)
  case (Cons x xs)
  from Cons.IH [of "if x \<notin> set acc then acc @ [x] else acc"] show ?case by (auto split: if_splits)
qed simp

lemma policies_of_Update:
  "set (policies_of (UpdatePodIdentifierToPolicyEndpointMap m i ps) j) =
     set (policies_of m j) \<union> (if i = j then set ps else {})"
  by (auto simp: policies_of_def UpdatePodIdentifierToPolicyEndpointMap_def append_new_set
      split: option.splits)

lemma policies_of_Delete:
  "policies_of (DeletePolicyEndpointFromPodIdentifierMap m i p) j =
     (if i = j then filter (\<lambda>q. q \<noteq> p) (policies_of m j) else policies_of m j)"
  by (auto simp: policies_of_def DeletePolicyEndpointFromPodIdentifierMap_def Let_def
      split: option.splits)

lemma index_rel_step: "index_rel (index_step x m) = rel_step x (index_rel m)"
  by (cases x) (auto simp: index_rel_def policies_of_Update policies_of_Delete split: if_splits)

lemma index_ok_step: "index_ok m \<Longrightarrow> op_distinct x \<Longrightarrow> index_ok (index_step x m)"
proof (cases x)
  case (AddPEs i ps)
  assume m: "index_ok m" and x: "op_distinct x"
  { fix qs assume q: "m i = Some qs"
    then have "qs \<noteq> []" "distinct qs" using m by (auto simp: index_ok_def)
    with append_new_prefix [of ps qs] append_new_distinct [of qs ps]
    have "fold (\<lambda>x acc. if x \<notin> set acc then acc @ [x] else acc) ps qs \<noteq> [] \<and>
        distinct (fold (\<lambda>x acc. if x \<notin> set acc then acc @ [x] else acc) ps qs)" by auto }
  with m x AddPEs show ?thesis
    by (auto simp: index_ok_def UpdatePodIdentifierToPolicyEndpointMap_def split: option.splits if_splits)
next
  case (DelPE i p)
  assume "index_ok m"
  with DelPE show ?thesis
    by (auto simp: index_ok_def DeletePolicyEndpointFromPodIdentifierMap_def Let_def
        split: option.splits if_splits)
qed

lemma index_rel_run: "index_rel (fold index_step xs m) = fold rel_step xs (index_rel m)"
  by (induction xs arbitrary: m) (auto simp: index_rel_step)

lemma index_ok_run: "index_ok m \<Longrightarrow> (\<forall>x \<in> set xs. op_distinct x) \<Longrightarrow> index_ok (fold index_step xs m)"
  by (induction xs arbitrary: m) (auto simp: index_ok_step)

lemma index_dom:
  assumes "index_ok m" shows "i \<in> dom m \<longleftrightarrow> (\<exists>p. (i, p) \<in> index_rel m)"
proof
  assume "i \<in> dom m"
  then obtain ps where ps: "m i = Some ps" by auto
  with assms have "ps \<noteq> []" by (auto simp: index_ok_def)
  then obtain p where "p \<in> set ps" by (cases ps) auto
  with ps show "\<exists>p. (i, p) \<in> index_rel m" by (auto simp: index_rel_def policies_of_def)
next
  assume "\<exists>p. (i, p) \<in> index_rel m"
  then show "i \<in> dom m" by (cases "m i") (auto simp: index_rel_def policies_of_def)
qed

text \<open>C35: Started empty and driven by any sequence of updates and deletions, of which each update names at
  least one policy and none twice, the index from pod identifiers to policy endpoints implements the
  relation that adds and removes the same pairs, lists no policy twice, and an identifier is present
  exactly when some policy still selects it. (The first of these holds without the condition, see
  \<open>index_rel_run\<close>.)\<close>
theorem policy_index_refines:
  assumes "\<forall>x \<in> set ops. op_distinct x"
  shows "index_rel (fold index_step ops (\<lambda>_. None)) = fold rel_step ops {} \<and>
    dom (fold index_step ops (\<lambda>_. None)) = fst ` fold rel_step ops {} \<and>
    (\<forall>i. distinct (policies_of (fold index_step ops (\<lambda>_. None)) i))"
proof -
  let ?m = "fold index_step ops (\<lambda>_. None)"
  have e: "index_rel (\<lambda>_. None) = {}" "index_ok (\<lambda>_. None)"
    by (auto simp: index_rel_def policies_of_def index_ok_def)
  have r: "index_rel ?m = fold rel_step ops {}"
    unfolding index_rel_run e ..
  have ok: "index_ok ?m" by (rule index_ok_run [OF e(2) assms(1)])
  have "dom ?m = fst ` fold rel_step ops {}"
    unfolding r [symmetric] using index_dom [OF ok] by force
  with r ok show ?thesis by (auto simp: index_ok_def policies_of_def split: option.splits)
qed

theorem policy_index_refines_witness:
  "dom (fold index_step [AddPEs ''web@ns'' [''a'', ''b''], DelPE ''web@ns'' ''a'', AddPEs ''db@ns'' [''a''],
      DelPE ''db@ns'' ''a''] (\<lambda>_. None)) = {''web@ns''}"
  using policy_index_refines [of "[AddPEs ''web@ns'' [''a'', ''b''], DelPE ''web@ns'' ''a'',
      AddPEs ''db@ns'' [''a''], DelPE ''db@ns'' ''a'']"] by auto

section \<open>Comparisons of pod sets\<close>

lemma GetPodListToBeCleanedUp_set:
  "set (GetPodListToBeCleanedUp old new ids) =
     {p \<in> set old. p \<notin> set new \<and>
        ids (GetPodIdentifier (nn_Name (pod_NamespacedName p)) (nn_Namespace (pod_NamespacedName p))) \<noteq> Some True}"
  by (auto simp: GetPodListToBeCleanedUp_def Let_def)

lemma DeriveStalePodIdentifiers_set:
  assumes "DeriveStalePodIdentifiers m pe targets = Inr s" "GetParentNPNameFromPEName pe = Inr np"
  shows "set s = set (case m np of None \<Rightarrow> [] | Some c \<Rightarrow> c) - set targets"
  using assms by (auto simp: DeriveStalePodIdentifiers_def split: option.splits)

end
