(* ===== verification/MemMap.thy ===== *)
theory MemMap
  imports Prelude
begin

text \<open>
  \<^verbatim>\<open>pkg/ebpf/bpf_mem_map.go\<close>: the in-memory copy (shadow) of a kernel map and the bulk
  refresh that changes the kernel map through it. The kernel map operations belong to the eBPF
  SDK; they are parameters on a kernel state \<open>'k\<close>, with their documented behaviour collected in
  \<open>sdk_laws\<close>. The lock of the shadow map makes each method one step. The lemmas show that the
  shadow always equals the kernel map, whatever calls fail, and that a refresh that returns
  without error installs the new contents.
\<close>

section \<open>State and operations\<close>

text \<open>The part of the SDK's \<^verbatim>\<open>BpfMap\<close> the agent reads.\<close>

record BpfMap =
  MapID :: nat
  MapFD :: nat
  ValueSize :: nat

datatype failure = Panic go_panic | Err string

record 'k map_sdk =
  GetAllMapKeys :: "BpfMap \<Rightarrow> 'k \<Rightarrow> string + byte list list"
  GetMapEntry :: "BpfMap \<Rightarrow> byte list \<Rightarrow> 'k \<Rightarrow> string + byte list"
  UpdateMapEntry :: "BpfMap \<Rightarrow> byte list \<Rightarrow> byte list \<Rightarrow> 'k \<Rightarrow> string option \<times> 'k"
  DeleteMapEntry :: "BpfMap \<Rightarrow> byte list \<Rightarrow> 'k \<Rightarrow> string option \<times> 'k"

record InMemoryBpfMap =
  bpfMap :: BpfMap
  contents :: "(byte list, byte list) go_map"

text \<open>Taking the address of the first element of an empty slice panics.\<close>

fun load_entries ::
  "'k map_sdk \<Rightarrow> BpfMap \<Rightarrow> 'k \<Rightarrow> byte list list \<Rightarrow> (byte list, byte list) go_map \<Rightarrow>
     failure + (byte list, byte list) go_map" where
  "load_entries sdk bm k [] acc = Inr acc"
| "load_entries sdk bm k (key # keys) acc =
     (if key = [] \<or> ValueSize bm = 0 then Inl (Panic IndexOutOfRange)
      else (case GetMapEntry sdk bm key k of
              Inl e \<Rightarrow> Inl (Err e)
            | Inr v \<Rightarrow> load_entries sdk bm k keys (AList.update key v acc)))"

definition loadFromKernel :: "'k map_sdk \<Rightarrow> BpfMap \<Rightarrow> 'k \<Rightarrow> failure + (byte list, byte list) go_map" where
  "loadFromKernel sdk bm k =
     (case GetAllMapKeys sdk bm k of
        Inl e \<Rightarrow> Inl (Err e)
      | Inr keys \<Rightarrow> load_entries sdk bm k keys [])"

definition NewInMemoryBpfMap :: "'k map_sdk \<Rightarrow> BpfMap \<Rightarrow> 'k \<Rightarrow> failure + InMemoryBpfMap" where
  "NewInMemoryBpfMap sdk bm k =
     (case loadFromKernel sdk bm k of
        Inl e \<Rightarrow> Inl e
      | Inr c \<Rightarrow> Inr \<lparr>bpfMap = bm, contents = c\<rparr>)"

text \<open>The two loops of \<^verbatim>\<open>BulkRefresh\<close> over the kernel map; the first stops at an error, the
  second skips the entries whose deletion fails.\<close>

fun apply_updates ::
  "'k map_sdk \<Rightarrow> (byte list \<times> byte list) list \<Rightarrow> InMemoryBpfMap \<Rightarrow> 'k \<Rightarrow>
     failure option \<times> InMemoryBpfMap \<times> 'k" where
  "apply_updates sdk [] m k = (None, m, k)"
| "apply_updates sdk ((key, v) # toAdd) m k =
     (if key = [] \<or> v = [] then (Some (Panic IndexOutOfRange), m, k)
      else (case UpdateMapEntry sdk (bpfMap m) key v k of
              (Some e, k') \<Rightarrow> (Some (Err e), m, k')
            | (None, k') \<Rightarrow> apply_updates sdk toAdd (m\<lparr>contents := AList.update key v (contents m)\<rparr>) k'))"

fun apply_deletes ::
  "'k map_sdk \<Rightarrow> byte list list \<Rightarrow> InMemoryBpfMap \<Rightarrow> 'k \<Rightarrow> failure option \<times> InMemoryBpfMap \<times> 'k" where
  "apply_deletes sdk [] m k = (None, m, k)"
| "apply_deletes sdk (key # toDelete) m k =
     (if key = [] then (Some (Panic IndexOutOfRange), m, k)
      else (case DeleteMapEntry sdk (bpfMap m) key k of
              (Some e, k') \<Rightarrow> apply_deletes sdk toDelete m k'
            | (None, k') \<Rightarrow> apply_deletes sdk toDelete (m\<lparr>contents := AList.delete key (contents m)\<rparr>) k'))"

text \<open>\<open>ordA\<close> and \<open>ordC\<close> are the orders in which the runtime visits the entries to add and the
  present contents.\<close>

definition to_add ::
  "(byte list, byte list) go_map \<Rightarrow> (byte list, byte list) go_map \<Rightarrow> (byte list, byte list) go_map" where
  "to_add cur newMapContents = filter (\<lambda>(k, v). map_of cur k \<noteq> Some v) newMapContents"

definition to_delete :: "(byte list, byte list) go_map \<Rightarrow> (byte list, byte list) go_map \<Rightarrow> byte list list" where
  "to_delete cur newMapContents = map fst (filter (\<lambda>(k, v). map_of newMapContents k = None) cur)"

type_synonym entry_order = "(byte list \<times> byte list) list \<Rightarrow> (byte list \<times> byte list) list"

definition BulkRefresh ::
  "'k map_sdk \<Rightarrow> entry_order \<Rightarrow> entry_order \<Rightarrow> (byte list, byte list) go_map \<Rightarrow> InMemoryBpfMap \<Rightarrow> 'k \<Rightarrow>
     failure option \<times> InMemoryBpfMap \<times> 'k" where
  "BulkRefresh sdk ordA ordC newMapContents m k =
     (let toAdd = to_add (contents m) newMapContents;
          toDelete = to_delete (ordC (contents m)) newMapContents
      in case apply_updates sdk (ordA toAdd) m k of
           (Some e, m', k') \<Rightarrow> (Some e, m', k')
         | (None, m', k') \<Rightarrow> apply_deletes sdk toDelete m' k')"

definition GetUnderlyingMap :: "InMemoryBpfMap \<Rightarrow> BpfMap" where
  "GetUnderlyingMap m = bpfMap m"

section \<open>What the SDK promises\<close>

text \<open>
  \<open>view k bm\<close> is what the kernel map \<open>bm\<close> holds in state \<open>k\<close>. A call either reports an error and
  changes nothing, or does what it says to that map and leaves the others alone.
\<close>

definition sdk_laws :: "'k map_sdk \<Rightarrow> ('k \<Rightarrow> nat \<Rightarrow> byte list \<rightharpoonup> byte list) \<Rightarrow> bool" where
  "sdk_laws sdk view \<longleftrightarrow>
     (\<forall>bm k keys. GetAllMapKeys sdk bm k = Inr keys \<longrightarrow> set keys = dom (view k (MapID bm))) \<and>
     (\<forall>bm key k v. GetMapEntry sdk bm key k = Inr v \<longrightarrow> view k (MapID bm) key = Some v) \<and>
     (\<forall>bm key v k e k'. UpdateMapEntry sdk bm key v k = (Some e, k') \<longrightarrow> view k' = view k) \<and>
     (\<forall>bm key v k k'. UpdateMapEntry sdk bm key v k = (None, k') \<longrightarrow>
         view k' = (view k)(MapID bm := (view k (MapID bm))(key \<mapsto> v))) \<and>
     (\<forall>bm key k e k'. DeleteMapEntry sdk bm key k = (Some e, k') \<longrightarrow> view k' = view k) \<and>
     (\<forall>bm key k k'. DeleteMapEntry sdk bm key k = (None, k') \<longrightarrow>
         view k' = (view k)(MapID bm := (view k (MapID bm))(key := None)))"

lemma sdk_lawsD:
  assumes "sdk_laws sdk view"
  shows "GetAllMapKeys sdk bm k = Inr keys \<Longrightarrow> set keys = dom (view k (MapID bm))"
    and "GetMapEntry sdk bm key k = Inr v \<Longrightarrow> view k (MapID bm) key = Some v"
    and "UpdateMapEntry sdk bm key v k = (Some e, k') \<Longrightarrow> view k' = view k"
    and "UpdateMapEntry sdk bm key v k = (None, k') \<Longrightarrow>
      view k' = (view k)(MapID bm := (view k (MapID bm))(key \<mapsto> v))"
    and "DeleteMapEntry sdk bm key k = (Some e, k') \<Longrightarrow> view k' = view k"
    and "DeleteMapEntry sdk bm key k = (None, k') \<Longrightarrow>
      view k' = (view k)(MapID bm := (view k (MapID bm))(key := None))"
  using assms unfolding sdk_laws_def by (elim conjE, metis)+

text \<open>The shadow agrees with the kernel map.\<close>

definition in_sync :: "('k \<Rightarrow> nat \<Rightarrow> byte list \<rightharpoonup> byte list) \<Rightarrow> InMemoryBpfMap \<Rightarrow> 'k \<Rightarrow> bool" where
  "in_sync view m k \<longleftrightarrow> go_map_wf (contents m) \<and> map_of (contents m) = view k (MapID (bpfMap m))"

section \<open>Loading\<close>

lemma load_entries_spec:
  assumes "sdk_laws sdk view" and "load_entries sdk bm k keys acc = Inr c" and "go_map_wf acc"
  shows "go_map_wf c \<and>
    map_of c = (\<lambda>x. if x \<in> set keys then view k (MapID bm) x else map_of acc x)"
  using assms(2, 3)
proof (induction keys arbitrary: acc)
  case (Cons key keys)
  then obtain v where v: "GetMapEntry sdk bm key k = Inr v"
    and l: "load_entries sdk bm k keys (AList.update key v acc) = Inr c"
    by (auto split: if_splits sum.splits)
  from Cons.IH [OF l] Cons.prems(2) sdk_lawsD(2) [OF assms(1) v] show ?case by auto
qed auto

lemma New_in_sync:
  assumes "sdk_laws sdk view" and "NewInMemoryBpfMap sdk bm k = Inr m"
  shows "in_sync view m k \<and> bpfMap m = bm"
proof -
  from assms(2) obtain keys c where keys: "GetAllMapKeys sdk bm k = Inr keys"
    and c: "load_entries sdk bm k keys [] = Inr c" and m: "m = \<lparr>bpfMap = bm, contents = c\<rparr>"
    by (auto simp: NewInMemoryBpfMap_def loadFromKernel_def split: sum.splits)
  from load_entries_spec [OF assms(1) c] sdk_lawsD(1) [OF assms(1) keys] m
  show ?thesis by (auto simp: in_sync_def fun_eq_iff domIff)
qed

section \<open>Refreshing\<close>

lemma apply_updates_spec:
  assumes "sdk_laws sdk view" and "apply_updates sdk toAdd m k = (r, m', k')" and "in_sync view m k"
  shows "in_sync view m' k' \<and> bpfMap m' = bpfMap m \<and>
    (\<forall>i. i \<noteq> MapID (bpfMap m) \<longrightarrow> view k' i = view k i) \<and>
    (r = None \<longrightarrow> view k' (MapID (bpfMap m)) = view k (MapID (bpfMap m)) ++ map_of (rev toAdd)) \<and>
    (\<forall>x. view k' (MapID (bpfMap m)) x \<noteq> view k (MapID (bpfMap m)) x \<longrightarrow>
       (\<exists>v. (x, v) \<in> set toAdd \<and> view k' (MapID (bpfMap m)) x = Some v))"
  using assms(2, 3)
proof (induction toAdd arbitrary: m k)
  case (Cons a toAdd)
  obtain key v where a: "a = (key, v)" by force
  show ?case
  proof (cases "key = [] \<or> v = [] \<or> (\<exists>e k1. UpdateMapEntry sdk (bpfMap m) key v k = (Some e, k1))")
    case True
    then have "m' = m \<and> view k' = view k \<and> r \<noteq> None"
      using Cons.prems(1) a sdk_lawsD(3) [OF assms(1)] by (auto split: if_splits prod.splits option.splits)
    with Cons.prems(2) show ?thesis by (auto simp: in_sync_def)
  next
    case False
    obtain o' k1 where u: "UpdateMapEntry sdk (bpfMap m) key v k = (o', k1)" by force
    with False have u: "UpdateMapEntry sdk (bpfMap m) key v k = (None, k1)" by (cases o') auto
    let ?m = "m\<lparr>contents := AList.update key v (contents m)\<rparr>"
    have s: "in_sync view ?m k1"
      using Cons.prems(2) sdk_lawsD(4) [OF assms(1) u] by (simp add: in_sync_def)
    have "apply_updates sdk toAdd ?m k1 = (r, m', k')"
      using Cons.prems(1) a False u by simp
    note ih = Cons.IH [OF this s]
    let ?i = "MapID (bpfMap m)"
    have v1: "view k1 ?i = (view k ?i)(key \<mapsto> v)" "i \<noteq> ?i \<Longrightarrow> view k1 i = view k i" for i
      using sdk_lawsD(4) [OF assms(1) u] by simp_all
    have "view k' ?i x \<noteq> view k ?i x \<Longrightarrow> \<exists>v. (x, v) \<in> set (a # toAdd) \<and> view k' ?i x = Some v" for x
      using ih v1(1) a by (cases "view k' ?i x = view k1 ?i x") (auto split: if_splits)
    moreover have "r = None \<longrightarrow> view k' ?i = view k ?i ++ map_of (rev (a # toAdd))"
      using ih v1(1) a by (simp add: map_add_upd_left fun_upd_def [symmetric])
    ultimately show ?thesis using ih v1(2) by simp
  qed
qed auto

text \<open>The keys of a run of the deletion loop whose deletion the kernel refused in that run.\<close>

fun refused_deletes :: "'k map_sdk \<Rightarrow> BpfMap \<Rightarrow> byte list list \<Rightarrow> 'k \<Rightarrow> byte list set" where
  "refused_deletes sdk b [] k = {}"
| "refused_deletes sdk b (key # keys) k =
     (case DeleteMapEntry sdk b key k of
        (Some e, k') \<Rightarrow> insert key (refused_deletes sdk b keys k')
      | (None, k') \<Rightarrow> refused_deletes sdk b keys k')"

text \<open>The keys whose deletion was refused in a run of \<^verbatim>\<open>BulkRefresh\<close>: its updates come first, then
  the deletions of the keys that are in the shadow and not in the new contents.\<close>

definition refused_in ::
  "'k map_sdk \<Rightarrow> entry_order \<Rightarrow> entry_order \<Rightarrow> (byte list, byte list) go_map \<Rightarrow> InMemoryBpfMap \<Rightarrow> 'k \<Rightarrow>
     byte list set" where
  "refused_in sdk ordA ordC new m k =
     refused_deletes sdk (bpfMap m) (filter (\<lambda>x. x \<notin> fst ` set new) (map fst (ordC (contents m))))
       (snd (snd (apply_updates sdk (ordA (to_add (contents m) new)) m k)))"

lemma refused_deletes_subset: "refused_deletes sdk b keys k \<subseteq> set keys"
  by (induction keys arbitrary: k) (auto split: prod.splits option.splits)

lemma to_delete_keys: "to_delete cur new = filter (\<lambda>x. x \<notin> fst ` set new) (map fst cur)"
  by (simp add: to_delete_def map_of_eq_None_iff filter_map comp_def case_prod_unfold)

lemma apply_deletes_spec:
  assumes "sdk_laws sdk view" and "apply_deletes sdk toDelete m k = (r, m', k')" and "in_sync view m k"
  shows "in_sync view m' k' \<and> bpfMap m' = bpfMap m \<and>
    (\<forall>i. i \<noteq> MapID (bpfMap m) \<longrightarrow> view k' i = view k i) \<and>
    (\<forall>x. view k' (MapID (bpfMap m)) x = view k (MapID (bpfMap m)) x \<or>
       x \<in> set toDelete \<and> view k' (MapID (bpfMap m)) x = None) \<and>
    (r = None \<longrightarrow> (\<forall>x \<in> set toDelete. x \<notin> refused_deletes sdk (bpfMap m) toDelete k \<longrightarrow>
       view k' (MapID (bpfMap m)) x = None)) \<and>
    (distinct toDelete \<longrightarrow> (\<forall>x \<in> refused_deletes sdk (bpfMap m) toDelete k.
       view k' (MapID (bpfMap m)) x = view k (MapID (bpfMap m)) x))"
  using assms(2, 3)
proof (induction toDelete arbitrary: m k)
  case (Cons key toDelete)
  obtain o' k1 where u: "DeleteMapEntry sdk (bpfMap m) key k = (o', k1)" by force
  consider (panic) "key = []" | (skip) e where "key \<noteq> []" "o' = Some e" | (del) "key \<noteq> []" "o' = None"
    by (cases o') auto
  then show ?case
  proof cases
    case panic
    with Cons.prems show ?thesis by auto
  next
    case skip
    then have v: "view k1 = view k" using sdk_lawsD(5) [OF assms(1)] u by blast
    have "in_sync view m k1" using Cons.prems(2) v by (simp add: in_sync_def)
    moreover have "apply_deletes sdk toDelete m k1 = (r, m', k')" using Cons.prems(1) skip u by simp
    ultimately have ih: "in_sync view m' k' \<and> bpfMap m' = bpfMap m \<and>
      (\<forall>i. i \<noteq> MapID (bpfMap m) \<longrightarrow> view k' i = view k i) \<and>
      (\<forall>x. view k' (MapID (bpfMap m)) x = view k (MapID (bpfMap m)) x \<or>
         x \<in> set toDelete \<and> view k' (MapID (bpfMap m)) x = None) \<and>
      (r = None \<longrightarrow> (\<forall>x \<in> set toDelete. x \<notin> refused_deletes sdk (bpfMap m) toDelete k1 \<longrightarrow>
         view k' (MapID (bpfMap m)) x = None)) \<and>
      (distinct toDelete \<longrightarrow> (\<forall>x \<in> refused_deletes sdk (bpfMap m) toDelete k1.
         view k' (MapID (bpfMap m)) x = view k (MapID (bpfMap m)) x))" using Cons.IH [of m k1] v by simp
    have "refused_deletes sdk (bpfMap m) (key # toDelete) k = insert key (refused_deletes sdk (bpfMap m) toDelete k1)"
      using u skip by simp
    with ih show ?thesis by auto
  next
    case del
    let ?m = "m\<lparr>contents := AList.delete key (contents m)\<rparr>"
    have v: "view k1 = (view k)(MapID (bpfMap m) := (view k (MapID (bpfMap m)))(key := None))"
      using sdk_lawsD(6) [OF assms(1)] u del by blast
    have s: "in_sync view ?m k1"
      using Cons.prems(2) v by (simp add: in_sync_def go_map_wf_def distinct_delete delete_conv')
    have "apply_deletes sdk toDelete ?m k1 = (r, m', k')" using Cons.prems(1) del u by simp
    note ih = Cons.IH [OF this s]
    have ref: "refused_deletes sdk (bpfMap m) (key # toDelete) k = refused_deletes sdk (bpfMap m) toDelete k1"
      using u del by simp
    have "distinct (key # toDelete) \<longrightarrow> (\<forall>x \<in> refused_deletes sdk (bpfMap m) (key # toDelete) k.
         view k' (MapID (bpfMap m)) x = view k (MapID (bpfMap m)) x)"
      using ih v refused_deletes_subset [of sdk "bpfMap m" toDelete k1] unfolding ref by fastforce
    moreover have "view k' (MapID (bpfMap m)) key = None" using ih v by (auto dest: spec [of _ key])
    moreover have "view k' (MapID (bpfMap m)) x = view k1 (MapID (bpfMap m)) x \<or>
        x \<in> set toDelete \<and> view k' (MapID (bpfMap m)) x = None" for x using ih by simp
    then have "\<forall>x. view k' (MapID (bpfMap m)) x = view k (MapID (bpfMap m)) x \<or>
         x \<in> set (key # toDelete) \<and> view k' (MapID (bpfMap m)) x = None" unfolding v by (metis calculation(2) fun_upd_apply list.set_intros)
    moreover have "\<forall>i. i \<noteq> MapID (bpfMap m) \<longrightarrow> view k' i = view k i" using ih v by simp
    ultimately show ?thesis using ih unfolding ref by simp
  qed
qed auto

lemma to_add_map:
  assumes "go_map_wf new" "range_order ordA"
  shows "map_of (rev (ordA (to_add cur new))) x =
    (case map_of new x of None \<Rightarrow> None | Some v \<Rightarrow> if map_of cur x = Some v then None else Some v)"
proof -
  have d: "distinct (map fst (to_add cur new))"
    using assms(1) by (auto simp: to_add_def go_map_wf_def distinct_map inj_on_def)
  have "map_of (rev (ordA (to_add cur new))) = map_of (to_add cur new)"
    using d range_order_distinct [OF assms(2)] range_order_set [OF assms(2)]
    by (intro map_of_inject_set [THEN iffD2]) (auto simp flip: rev_map)
  moreover have "map_of (to_add cur new) x =
    (case map_of new x of None \<Rightarrow> None | Some v \<Rightarrow> if map_of cur x = Some v then None else Some v)"
    using assms(1) unfolding to_add_def go_map_wf_def
    by (induction new) (auto split: option.splits simp: map_of_eq_None_iff dest: map_of_SomeD)
  ultimately show ?thesis by simp
qed

lemma to_delete_set: "range_order ordC \<Longrightarrow> set (to_delete (ordC cur) new) = fst ` set cur - fst ` set new"
  by (force simp: to_delete_def range_order_set map_of_eq_None_iff)

lemma BulkRefresh_cases:
  assumes "BulkRefresh sdk ordA ordC new m k = (r, m', k')"
  obtains (failed) e where "r = Some e" "apply_updates sdk (ordA (to_add (contents m) new)) m k = (Some e, m', k')"
  | (updated) m1 k1 where "apply_updates sdk (ordA (to_add (contents m) new)) m k = (None, m1, k1)"
      "apply_deletes sdk (to_delete (ordC (contents m)) new) m1 k1 = (r, m', k')"
proof -
  obtain r1 m1 k1 where "apply_updates sdk (ordA (to_add (contents m) new)) m k = (r1, m1, k1)"
    using prod_cases3 by blast
  with assms failed updated show ?thesis
    by (cases r1) (auto simp: BulkRefresh_def Let_def)
qed

lemma BulkRefresh_sync:
  assumes laws: "sdk_laws sdk view" and sync: "in_sync view m k"
    and ord: "range_order ordA" "range_order ordC" and new: "go_map_wf new"
    and run: "BulkRefresh sdk ordA ordC new m k = (r, m', k')"
  shows "in_sync view m' k' \<and> (\<forall>i. i \<noteq> MapID (bpfMap m) \<longrightarrow> view k' i = view k i) \<and>
    (\<forall>x. view k' (MapID (bpfMap m)) x \<in> {view k (MapID (bpfMap m)) x, map_of new x})"
  using run
proof (cases rule: BulkRefresh_cases)
  case (failed e)
  have "(x, v) \<in> set (ordA (to_add (contents m) new)) \<Longrightarrow> map_of new x = Some v" for x v
    using new by (auto simp: range_order_set [OF ord(1)] to_add_def go_map_wf_def)
  with apply_updates_spec [OF laws failed(2) sync] show ?thesis by (metis insertCI)
next
  case (updated m1 k1)
  note u = apply_updates_spec [OF laws updated(1) sync]
  have "(x, v) \<in> set (ordA (to_add (contents m) new)) \<Longrightarrow> map_of new x = Some v" for x v
    using new by (auto simp: range_order_set [OF ord(1)] to_add_def go_map_wf_def)
  with u have a: "view k1 (MapID (bpfMap m)) x \<in> {view k (MapID (bpfMap m)) x, map_of new x}" for x
    by (metis insertCI)
  note d = apply_deletes_spec [OF laws updated(2), OF conjunct1 [OF u]]
  have "x \<in> set (to_delete (ordC (contents m)) new) \<Longrightarrow> map_of new x = None" for x
    by (auto simp: to_delete_set [OF ord(2)] map_of_eq_None_iff)
  then have "view k' (MapID (bpfMap m)) x \<in> {view k (MapID (bpfMap m)) x, map_of new x}" for x
    using d a [of x] u by (metis insertCI)
  with d u show ?thesis by simp
qed

lemma BulkRefresh_installs:
  assumes laws: "sdk_laws sdk view" and sync: "in_sync view m k"
    and ord: "range_order ordA" "range_order ordC" and new: "go_map_wf new"
    and run: "BulkRefresh sdk ordA ordC new m k = (None, m', k')"
  shows "view k' (MapID (bpfMap m)) = map_of new ++ view k (MapID (bpfMap m)) |` refused_in sdk ordA ordC new m k"
    and "refused_in sdk ordA ordC new m k \<subseteq> dom (view k (MapID (bpfMap m))) - dom (map_of new)"
proof -
  let ?i = "MapID (bpfMap m)"
  from run obtain m1 k1 where u1: "apply_updates sdk (ordA (to_add (contents m) new)) m k = (None, m1, k1)"
    and d1: "apply_deletes sdk (to_delete (ordC (contents m)) new) m1 k1 = (None, m', k')"
    by (cases rule: BulkRefresh_cases) auto
  note u = apply_updates_spec [OF laws u1 sync]
  note d = apply_deletes_spec [OF laws d1, OF conjunct1 [OF u]]
  have cur: "map_of (contents m) = view k ?i" using sync by (simp add: in_sync_def)
  have v1: "view k1 ?i x = (case map_of new x of None \<Rightarrow> view k ?i x | Some v \<Rightarrow> Some v)" for x
    using u to_add_map [OF new ord(1), of "contents m" x] cur
    by (auto simp: map_add_def split: option.splits)
  have td: "x \<in> set (to_delete (ordC (contents m)) new) \<longleftrightarrow> view k ?i x \<noteq> None \<and> map_of new x = None" for x
    by (auto simp: to_delete_set [OF ord(2)] map_of_eq_None_iff simp flip: cur)
  have ref: "refused_in sdk ordA ordC new m k =
      refused_deletes sdk (bpfMap m1) (to_delete (ordC (contents m)) new) k1"
    using u u1 by (simp add: refused_in_def to_delete_keys)
  show sub: "refused_in sdk ordA ordC new m k \<subseteq> dom (view k ?i) - dom (map_of new)"
    unfolding ref using refused_deletes_subset [of sdk "bpfMap m1" _ k1] td by fastforce
  have dist: "distinct (to_delete (ordC (contents m)) new)"
    using sync range_order_distinct [OF ord(2)] by (simp add: in_sync_def go_map_wf_def to_delete_keys)
  have bm: "bpfMap m1 = bpfMap m" using u by simp
  have kept: "x \<in> refused_in sdk ordA ordC new m k \<Longrightarrow> view k' ?i x = view k1 ?i x" for x
    using d dist unfolding ref bm by blast
  have gone: "x \<notin> refused_in sdk ordA ordC new m k \<Longrightarrow> view k ?i x \<noteq> None \<Longrightarrow> map_of new x = None \<Longrightarrow> view k' ?i x = None" for x
    using d td [of x] unfolding ref bm by blast
  have other: "view k' ?i x = view k1 ?i x \<or> x \<in> set (to_delete (ordC (contents m)) new) \<and> view k' ?i x = None" for x
    using d unfolding bm by blast
  show "view k' ?i = map_of new ++ view k ?i |` refused_in sdk ordA ordC new m k"
  proof
    fix x
    show "view k' ?i x = (map_of new ++ view k ?i |` refused_in sdk ordA ordC new m k) x"
    proof (cases "x \<in> refused_in sdk ordA ordC new m k")
      case True
      then have "map_of new x = None" using sub by auto
      with kept [OF True] v1 [of x] True show ?thesis by (simp add: map_add_def split: option.splits)
    next
      case False
      then show ?thesis using gone [OF False] other [of x] v1 [of x] td [of x]
        by (auto simp: map_add_def restrict_map_def split: option.splits)
    qed
  qed
qed

lemma BulkRefresh_exact:
  assumes laws: "sdk_laws sdk view" and sync: "in_sync view m k"
    and ord: "range_order ordA" "range_order ordC" and new: "go_map_wf new"
    and run: "BulkRefresh sdk ordA ordC new m k = (None, m', k')"
  shows "map_of new \<subseteq>\<^sub>m view k' (MapID (bpfMap m))"
    and "dom (view k' (MapID (bpfMap m))) - dom (map_of new) = refused_in sdk ordA ordC new m k"
proof -
  let ?s = "refused_in sdk ordA ordC new m k"
  note i = BulkRefresh_installs [OF assms]
  have "map_of new x \<noteq> None \<Longrightarrow> x \<notin> ?s" "x \<in> ?s \<Longrightarrow> view k (MapID (bpfMap m)) x \<noteq> None \<and> map_of new x = None" for x
    using i(2) by auto
  then show "map_of new \<subseteq>\<^sub>m view k' (MapID (bpfMap m))" "dom (view k' (MapID (bpfMap m))) - dom (map_of new) = ?s"
    unfolding i(1) by (auto simp: map_le_def map_add_def restrict_map_def split: option.splits if_splits)
qed

section \<open>Contract\<close>

text \<open>An SDK over association lists that refuses the keys \<open>bad\<close> holds of; it satisfies the laws.\<close>

definition list_sdk :: "(byte list \<Rightarrow> bool) \<Rightarrow> (nat \<Rightarrow> (byte list, byte list) go_map) map_sdk" where
  "list_sdk bad = \<lparr>
     GetAllMapKeys = (\<lambda>bm k. Inr (map fst (k (MapID bm)))),
     GetMapEntry = (\<lambda>bm key k. case map_of (k (MapID bm)) key of None \<Rightarrow> Inl ''no such key'' | Some v \<Rightarrow> Inr v),
     UpdateMapEntry = (\<lambda>bm key v k. if bad key then (Some ''refused'', k)
        else (None, k(MapID bm := AList.update key v (k (MapID bm))))),
     DeleteMapEntry = (\<lambda>bm key k. if bad key then (Some ''refused'', k)
        else (None, k(MapID bm := AList.delete key (k (MapID bm)))))\<rparr>"

lemma list_sdk_laws: "sdk_laws (list_sdk bad) (\<lambda>k i. map_of (k i))"
  unfolding sdk_laws_def list_sdk_def
  by (simp add: dom_map_of_conv_image_fst split: option.splits if_splits)
    (auto simp: fun_eq_iff delete_conv' split: if_splits)

text \<open>C4: A bulk refresh of a shadow that agrees with its kernel map keeps them equal whatever
  kernel calls fail and whatever the iteration orders, never touches another kernel map, and leaves
  each key with its old value or what the new contents say of it. When it returns no error the kernel
  map is the new contents together with the old entries whose deletion the kernel refused in this
  very run (the code goes on after such a refusal and returns no error): exactly the new contents
  when no deletion of this run was refused.\<close>
theorem BulkRefresh_correct:
  assumes "sdk_laws sdk view" and "in_sync view m k"
    and "range_order ordA" and "range_order ordC" and "go_map_wf new"
    and "BulkRefresh sdk ordA ordC new m k = (r, m', k')"
  shows "in_sync view m' k' \<and> (\<forall>i. i \<noteq> MapID (bpfMap m) \<longrightarrow> view k' i = view k i) \<and>
    (\<forall>x. view k' (MapID (bpfMap m)) x \<in> {view k (MapID (bpfMap m)) x, map_of new x}) \<and>
    (r = None \<longrightarrow> map_of new \<subseteq>\<^sub>m view k' (MapID (bpfMap m)) \<and>
       view k' (MapID (bpfMap m)) = map_of new ++ view k (MapID (bpfMap m)) |` refused_in sdk ordA ordC new m k \<and>
       refused_in sdk ordA ordC new m k \<subseteq> dom (view k (MapID (bpfMap m))) - dom (map_of new)) \<and>
    (r = None \<and> refused_in sdk ordA ordC new m k = {} \<longrightarrow> view k' (MapID (bpfMap m)) = map_of new)"
  using BulkRefresh_sync [OF assms] BulkRefresh_installs [OF assms(1-5)] BulkRefresh_exact(1) [OF assms(1-5)] assms(6)
  by (cases r) simp_all

definition example_shadow :: InMemoryBpfMap where
  "example_shadow = \<lparr>bpfMap = \<lparr>MapID = 7, MapFD = 3, ValueSize = 1\<rparr>, contents = [([1], [1]), ([2], [2])]\<rparr>"

theorem BulkRefresh_correct_witness:
  "let k = (\<lambda>i. if i = 7 then [([1], [1]), ([2], [2])] else []);
       (r, m', k') = BulkRefresh (list_sdk (\<lambda>x. x = [5])) rev id [([1], [9]), ([3], [3])] example_shadow k;
       (r1, m1, k1) = BulkRefresh (list_sdk (\<lambda>x. x = [2])) rev id [([1], [9]), ([3], [3])] example_shadow k;
       (r2, m2, k2) = BulkRefresh (list_sdk (\<lambda>x. x = [3])) rev id [([1], [9]), ([3], [3])] example_shadow k
   in map_of (k' 7) = [[1] \<mapsto> [9], [3] \<mapsto> [3]] \<and>
      r1 = None \<and> map_of (k1 7) = [[1] \<mapsto> [9], [3] \<mapsto> [3], [2] \<mapsto> [2]] \<and>
      r2 = Some (Err ''refused'') \<and> map_of (contents m2) = map_of (k2 7)"
proof -
  let ?k = "\<lambda>i :: nat. if i = 7 then [([1], [1]), ([2], [2])] else [] :: (byte list, byte list) go_map"
  let ?new = "[([1], [9]), ([3], [3])] :: (byte list, byte list) go_map"
  have s: "in_sync (\<lambda>k i. map_of (k i)) example_shadow ?k"
    by (simp add: in_sync_def example_shadow_def go_map_wf_def)
  have n: "go_map_wf ?new" by (simp add: go_map_wf_def)
  note eval = BulkRefresh_def to_add_def to_delete_def example_shadow_def list_sdk_def Let_def refused_in_def
  obtain r m' k' where r: "BulkRefresh (list_sdk (\<lambda>x. x = [5])) rev id ?new example_shadow ?k = (r, m', k')"
    using prod_cases3 by blast
  obtain r1 m1 k1 where r1: "BulkRefresh (list_sdk (\<lambda>x. x = [2])) rev id ?new example_shadow ?k = (r1, m1, k1)"
    using prod_cases3 by blast
  obtain r2 m2 k2 where r2: "BulkRefresh (list_sdk (\<lambda>x. x = [3])) rev id ?new example_shadow ?k = (r2, m2, k2)"
    using prod_cases3 by blast
  have "r = None" using r by (auto simp: eval)
  moreover have "refused_in (list_sdk (\<lambda>x. x = [5])) rev id ?new example_shadow ?k = {}" by (simp add: eval)
  ultimately have "map_of (k' 7) = map_of ?new"
    using BulkRefresh_correct [OF list_sdk_laws s range_order_rev range_order_id(1) n r]
    by (simp add: example_shadow_def)
  moreover have r1n: "r1 = None" using r1 by (auto simp: eval)
  moreover have "refused_in (list_sdk (\<lambda>x. x = [2])) rev id ?new example_shadow ?k = {[2]}" by (simp add: eval)
  then have "map_of (k1 7) = [[1] \<mapsto> [9], [3] \<mapsto> [3], [2] \<mapsto> [2]]"
    using BulkRefresh_correct [OF list_sdk_laws s range_order_rev range_order_id(1) n r1] r1n
    by (auto simp: example_shadow_def fun_eq_iff map_add_def restrict_map_def)
  moreover have "r2 = Some (Err ''refused'') \<and> bpfMap m2 = bpfMap example_shadow"
    using r2 by (auto simp: eval)
  moreover have "map_of (contents m2) = map_of (k2 7)"
    using BulkRefresh_correct [OF list_sdk_laws s range_order_rev range_order_id(1) n r2] calculation
    by (simp add: example_shadow_def in_sync_def)
  ultimately show ?thesis using r r1 r2 by (auto simp: Let_def fun_eq_iff)
qed

end
