(* ===== verification/BpfClient.thy ===== *)
theory BpfClient
  imports FwCluster PolicyUtils MemMap
begin

text \<open>
  \<^verbatim>\<open>pkg/ebpf/bpf_client.go\<close>: the client that loads the TC programs of a pod identifier,
  attaches them to the pods' interfaces, keeps the caches between pods and programs, and writes
  policies and pod states into the kernel maps. Each exported method holds the identifier's lock
  (theory \<open>PodLock\<close>), so it is one step on the client and the kernel.

  The fields of the Go struct that come in an ingress and an egress copy are one field indexed by
  \<open>dir\<close> here: \<open>podToProgMap Ingress\<close> is \<^verbatim>\<open>ingressPodToProgMap\<close>, and so on; the four
  shadow-map caches are \<open>inMemoryMap\<close> indexed by the kind of map and the direction. The eBPF SDK,
  the TC client, netlink and SHA-1 are the parameter \<open>bpf_env\<close> over a kernel state \<open>'k\<close>; the
  orders in which the runtime visits Go maps are the parameter \<open>go_orders\<close>.
\<close>

section \<open>State\<close>

datatype dir = Ingress | Egress
datatype map_kind = PolicyMap | ClusterPolicyMap

record BpfProgram =
  ProgID :: int
  ProgFD :: int

record BpfData =
  Program :: BpfProgram
  Maps :: "(string, BpfMap) go_map"

record BPFContext =
  pgmInfo :: "dir \<Rightarrow> BpfData"
  conntrackMapInfo :: BpfMap

text \<open>Go's zero values: what a read of an absent map entry yields.\<close>

definition zero_map :: BpfMap where
  "zero_map = \<lparr>MapID = 0, MapFD = 0, ValueSize = 0\<rparr>"

definition zero_data :: BpfData where
  "zero_data = \<lparr>Program = \<lparr>ProgID = 0, ProgFD = 0\<rparr>, Maps = []\<rparr>"

definition zero_context :: BPFContext where
  "zero_context = \<lparr>pgmInfo = (\<lambda>_. zero_data), conntrackMapInfo = zero_map\<rparr>"

record bpfClient =
  policyEndpointeBPFContext :: "string \<rightharpoonup> BPFContext"
  podToProgMap :: "dir \<Rightarrow> string \<rightharpoonup> int"
  progToPodsMap :: "dir \<Rightarrow> int \<rightharpoonup> string set"
  globalMaps :: "string \<rightharpoonup> BpfMap"
  probeBinary :: "dir \<Rightarrow> string"
  hostMask :: string
  interfaceNametoPinPath :: "dir \<Rightarrow> (string, string) go_map"
  networkPolicyMode :: string
  isMultiNICEnabled :: bool
  podNameToInterfaceCount :: "string \<rightharpoonup> int"
  fwRuleProcessor :: FirewallRuleProcessor
  inMemoryMap :: "map_kind \<Rightarrow> dir \<Rightarrow> string \<rightharpoonup> InMemoryBpfMap"
  deletedPods :: "string \<rightharpoonup> int"

record 'k bpf_env =
  map_api :: "'k map_sdk"
  CreateMapEntry :: "BpfMap \<Rightarrow> byte list \<Rightarrow> byte list \<Rightarrow> 'k \<Rightarrow> string option \<times> 'k"
  CreateUpdateMapEntry :: "BpfMap \<Rightarrow> byte list \<Rightarrow> byte list \<Rightarrow> 'k \<Rightarrow> string option \<times> 'k"
  LoadBpfFile :: "string \<Rightarrow> string \<Rightarrow> 'k \<Rightarrow> (string + (string \<rightharpoonup> BpfData)) \<times> 'k"
  TCIngressAttach :: "string \<Rightarrow> int \<Rightarrow> string \<Rightarrow> 'k \<Rightarrow> string option \<times> 'k"
  TCEgressAttach :: "string \<Rightarrow> int \<Rightarrow> string \<Rightarrow> 'k \<Rightarrow> string option \<times> 'k"
  TCIngressDetach :: "string \<Rightarrow> 'k \<Rightarrow> string option \<times> 'k"
  TCEgressDetach :: "string \<Rightarrow> 'k \<Rightarrow> string option \<times> 'k"
  UnPinProg :: "BpfProgram \<Rightarrow> string \<Rightarrow> 'k \<Rightarrow> string option \<times> 'k"
  UnPinMap :: "BpfMap \<Rightarrow> string \<Rightarrow> 'k \<Rightarrow> string option \<times> 'k"
  linkError :: "string \<Rightarrow> 'k \<Rightarrow> string option"
  sha1_hex :: "string \<Rightarrow> string"

record go_orders =
  ordFw :: "dir \<Rightarrow> fw_orders"
  ordCp :: "dir \<Rightarrow> cp_orders"
  ordAdd :: "dir \<Rightarrow> entry_order"
  ordCur :: "dir \<Rightarrow> entry_order"

section \<open>Names by direction\<close>

fun dirName :: "dir \<Rightarrow> string" where
  "dirName Ingress = ''ingress''"
| "dirName Egress = ''egress''"

fun progName :: "dir \<Rightarrow> string" where
  "progName Ingress = TC_INGRESS_PROG"
| "progName Egress = TC_EGRESS_PROG"

fun mapName :: "map_kind \<Rightarrow> dir \<Rightarrow> string" where
  "mapName PolicyMap Ingress = TC_INGRESS_MAP"
| "mapName PolicyMap Egress = TC_EGRESS_MAP"
| "mapName ClusterPolicyMap Ingress = TC_CLUSTER_POLICY_INGRESS_MAP"
| "mapName ClusterPolicyMap Egress = TC_CLUSTER_POLICY_EGRESS_MAP"

fun podStateMapName :: "dir \<Rightarrow> string" where
  "podStateMapName Ingress = TC_INGRESS_POD_STATE_MAP"
| "podStateMapName Egress = TC_EGRESS_POD_STATE_MAP"

text \<open>Traffic into the pod leaves the host's end of its interface, so the ingress program is
  attached to the TC egress hook and the egress program to the TC ingress hook.\<close>

fun tcAttach :: "'k bpf_env \<Rightarrow> dir \<Rightarrow> string \<Rightarrow> int \<Rightarrow> 'k \<Rightarrow> string option \<times> 'k" where
  "tcAttach env Ingress veth fd = TCEgressAttach env veth fd (progName Ingress)"
| "tcAttach env Egress veth fd = TCIngressAttach env veth fd (progName Egress)"

fun tcDetach :: "'k bpf_env \<Rightarrow> dir \<Rightarrow> string \<Rightarrow> 'k \<Rightarrow> string option \<times> 'k" where
  "tcDetach env Ingress veth = TCEgressDetach env veth"
| "tcDetach env Egress veth = TCIngressDetach env veth"

definition map_at :: "BpfData \<Rightarrow> string \<Rightarrow> BpfMap" where
  "map_at data name = (case map_of (Maps data) name of None \<Rightarrow> zero_map | Some m \<Rightarrow> m)"

definition context_of :: "bpfClient \<Rightarrow> string \<Rightarrow> BPFContext" where
  "context_of l podIdentifier =
     (case policyEndpointeBPFContext l podIdentifier of None \<Rightarrow> zero_context | Some c \<Rightarrow> c)"

definition prog_fd :: "BPFContext \<Rightarrow> dir \<Rightarrow> int" where
  "prog_fd c d = ProgFD (Program (pgmInfo c d))"

text \<open>Package constants.\<close>

definition POD_VETH_PREFIX :: string where "POD_VETH_PREFIX = ''eni''"
definition BRANCH_ENI_VETH_PREFIX :: string where "BRANCH_ENI_VETH_PREFIX = ''vlan''"
definition POD_STATE_MAP_KEY :: int where "POD_STATE_MAP_KEY = 0"
definition CLUSTER_POLICY_POD_STATE_MAP_KEY :: int where "CLUSTER_POLICY_POD_STATE_MAP_KEY = 1"
definition INTERFACE_COUNT_UNKNOWN :: int where "INTERFACE_COUNT_UNKNOWN = -1"
definition INTERFACE_COUNT_DEFAULT :: int where "INTERFACE_COUNT_DEFAULT = 1"
definition deletedPodsMinAge :: int where "deletedPodsMinAge = 5 * 60 * 1000000000"

section \<open>Loading and attaching\<close>

definition loadBPFProgram ::
  "'k bpf_env \<Rightarrow> string \<Rightarrow> string \<Rightarrow> string \<Rightarrow> 'k \<Rightarrow> (string + (string \<rightharpoonup> BpfData) \<times> int) \<times> 'k" where
  "loadBPFProgram env fileName direction podIdentifier k =
     (case LoadBpfFile env fileName podIdentifier k of
        (Inl e, k') \<Rightarrow> (Inl e, k')
      | (Inr progInfo, k') \<Rightarrow>
          let pinPath = GetBPFPinPathFromPodIdentifier podIdentifier direction
          in case progInfo pinPath of
               None \<Rightarrow> (Inl (''no program data found at pinPath '' @ pinPath @ '' for pod '' @
                         podIdentifier @ '' direction '' @ direction), k')
             | Some bpfData \<Rightarrow>
                 let progFD = ProgFD (Program bpfData)
                 in if progFD = 0 then
                      (Inl (''program loaded with invalid FD 0 for pod '' @ podIdentifier @
                        '' direction '' @ direction), k')
                    else if Maps bpfData = [] then
                      (Inl (''program loaded but has no associated maps for pod '' @ podIdentifier @
                        '' direction '' @ direction @ '' progFD '' @ int_string progFD), k')
                    else (Inr (progInfo, progFD), k'))"

text \<open>The program of a direction: the one the identifier's context has, or a freshly loaded one.\<close>

definition program_for ::
  "'k bpf_env \<Rightarrow> dir \<Rightarrow> string \<Rightarrow> bpfClient \<Rightarrow> 'k \<Rightarrow> (string + int) \<times> bpfClient \<times> 'k" where
  "program_for env d podIdentifier l k =
     (let peBPFContext = context_of l podIdentifier
      in if prog_fd peBPFContext d \<noteq> 0 then (Inr (prog_fd peBPFContext d), l, k)
         else (case loadBPFProgram env (probeBinary l d) (dirName d) podIdentifier k of
                 (Inl e, k') \<Rightarrow> (Inl e, l, k')
               | (Inr (progInfo, progFD), k') \<Rightarrow>
                   let pinPath = GetBPFPinPathFromPodIdentifier podIdentifier (dirName d);
                       data = (case progInfo pinPath of None \<Rightarrow> zero_data | Some x \<Rightarrow> x);
                       c = peBPFContext\<lparr>pgmInfo := (pgmInfo peBPFContext)(d := data)\<rparr>
                   in (Inr progFD,
                       l\<lparr>policyEndpointeBPFContext := (policyEndpointeBPFContext l)(podIdentifier \<mapsto> c)\<rparr>, k')))"

definition tc_attach_retry :: "'k bpf_env \<Rightarrow> dir \<Rightarrow> string \<Rightarrow> int \<Rightarrow> 'k \<Rightarrow> string option \<times> 'k" where
  "tc_attach_retry env d hostVethName progFD k =
     (case tcAttach env d hostVethName progFD k of
        (None, k1) \<Rightarrow> (None, k1)
      | (Some e, k1) \<Rightarrow>
          if IsFileExistsError e then
            (case tcDetach env d hostVethName k1 of
               (Some e', k2) \<Rightarrow> (Some e', k2)
             | (None, k2) \<Rightarrow> tcAttach env d hostVethName progFD k2)
          else (Some e, k1))"

definition attach_probe ::
  "'k bpf_env \<Rightarrow> dir \<Rightarrow> string \<Rightarrow> string \<Rightarrow> bpfClient \<Rightarrow> 'k \<Rightarrow> (string + int) \<times> bpfClient \<times> 'k" where
  "attach_probe env d hostVethName podIdentifier l k =
     (case program_for env d podIdentifier l k of
        (Inl e, l', k') \<Rightarrow> (Inl e, l', k')
      | (Inr progFD, l', k') \<Rightarrow>
          (case tc_attach_retry env d hostVethName progFD k' of
             (Some e, k'') \<Rightarrow> (Inl e, l', k'')
           | (None, k'') \<Rightarrow> (Inr progFD, l', k'')))"

definition attachIngressBPFProbe ::
  "'k bpf_env \<Rightarrow> string \<Rightarrow> string \<Rightarrow> bpfClient \<Rightarrow> 'k \<Rightarrow> (string + int) \<times> bpfClient \<times> 'k" where
  "attachIngressBPFProbe env hostVethName podIdentifier l k =
     attach_probe env Ingress hostVethName podIdentifier l k"

definition attachEgressBPFProbe ::
  "'k bpf_env \<Rightarrow> string \<Rightarrow> string \<Rightarrow> bpfClient \<Rightarrow> 'k \<Rightarrow> (string + int) \<times> bpfClient \<times> 'k" where
  "attachEgressBPFProbe env hostVethName podIdentifier l k =
     attach_probe env Egress hostVethName podIdentifier l k"

definition getInterfaceCountFromBackupFile :: "bpfClient \<Rightarrow> NamespacedName \<Rightarrow> string + int" where
  "getInterfaceCountFromBackupFile l pod =
     (case podNameToInterfaceCount l (GetPodNamespacedName (nn_Name pod) (nn_Namespace pod)) of
        Some n \<Rightarrow> Inr n
      | None \<Rightarrow> Inl ''interface count not found in podNameToInterfaceCount cache'')"

definition getInterfaceCountForPod :: "bpfClient \<Rightarrow> NamespacedName \<Rightarrow> int \<Rightarrow> string + int" where
  "getInterfaceCountForPod l pod providedCount =
     (if providedCount > 0 then Inr providedCount
      else if \<not> isMultiNICEnabled l then Inr INTERFACE_COUNT_DEFAULT
      else (case getInterfaceCountFromBackupFile l pod of
              Inr backupInterfaceCount \<Rightarrow>
                if backupInterfaceCount > 0 then Inr backupInterfaceCount
                else Inl ''Skipping probe attach: multiNIC enabled and interface count is unknown''
            | Inl _ \<Rightarrow> Inl ''Skipping probe attach: multiNIC enabled and interface count is unknown''))"

definition isEBPFProbeAttached :: "bpfClient \<Rightarrow> string \<Rightarrow> string \<Rightarrow> dir \<Rightarrow> bool" where
  "isEBPFProbeAttached l podName podNamespace d =
     (podToProgMap l d (GetPodNamespacedName podName podNamespace) \<noteq> None)"

definition isFirstPodInPodIdentifierLocked :: "bpfClient \<Rightarrow> string \<Rightarrow> bool" where
  "isFirstPodInPodIdentifierLocked l podIdentifier =
     (case policyEndpointeBPFContext l podIdentifier of
        None \<Rightarrow> True
      | Some peBPFContext \<Rightarrow> prog_fd peBPFContext Ingress = 0 \<or> prog_fd peBPFContext Egress = 0)"

text \<open>The loop over the pod's interfaces; \<open>attached\<close> says which directions were attached before,
  \<open>fds\<close> holds the variables \<^verbatim>\<open>ingressProgFD\<close> and \<^verbatim>\<open>egressProgFD\<close>.\<close>

definition attach_unless ::
  "bool \<Rightarrow> 'k bpf_env \<Rightarrow> dir \<Rightarrow> string \<Rightarrow> string \<Rightarrow> (dir \<Rightarrow> int) \<Rightarrow> bpfClient \<Rightarrow> 'k \<Rightarrow>
     (string + (dir \<Rightarrow> int)) \<times> bpfClient \<times> 'k" where
  "attach_unless attached env d hostVethName podIdentifier fds l k =
     (if attached then (Inr fds, l, k)
      else (case attach_probe env d hostVethName podIdentifier l k of
              (Inl e, l', k') \<Rightarrow> (Inl e, l', k')
            | (Inr fd, l', k') \<Rightarrow> (Inr (fds(d := fd)), l', k')))"

fun attach_loop ::
  "'k bpf_env \<Rightarrow> NamespacedName \<Rightarrow> string \<Rightarrow> (dir \<Rightarrow> bool) \<Rightarrow> nat list \<Rightarrow> (dir \<Rightarrow> int) \<Rightarrow> bpfClient \<Rightarrow> 'k \<Rightarrow>
     (string + (dir \<Rightarrow> int)) \<times> bpfClient \<times> 'k" where
  "attach_loop env pod podIdentifier attached [] fds l k = (Inr fds, l, k)"
| "attach_loop env pod podIdentifier attached (index # indices) fds l k =
     (case GetHostVethName (sha1_hex env) (\<lambda>x. linkError env x k) (nn_Name pod) (nn_Namespace pod) index
             [POD_VETH_PREFIX, BRANCH_ENI_VETH_PREFIX] of
        Inl errs \<Rightarrow> (Inl (go_join [CHR 0x0A] errs), l, k)
      | Inr hostVethName \<Rightarrow>
          (case attach_unless (attached Ingress) env Ingress hostVethName podIdentifier fds l k of
             (Inl e, l1, k1) \<Rightarrow> (Inl e, l1, k1)
           | (Inr fds1, l1, k1) \<Rightarrow>
               (case attach_unless (attached Egress) env Egress hostVethName podIdentifier fds1 l1 k1 of
                  (Inl e, l2, k2) \<Rightarrow> (Inl e, l2, k2)
                | (Inr fds2, l2, k2) \<Rightarrow> attach_loop env pod podIdentifier attached indices fds2 l2 k2)))"

definition register_pod :: "bool \<Rightarrow> dir \<Rightarrow> string \<Rightarrow> int \<Rightarrow> bpfClient \<Rightarrow> bpfClient" where
  "register_pod attached d podNamespacedName progFD l =
     (if attached then l
      else
        let currentPodSet = (case progToPodsMap l d progFD of None \<Rightarrow> {} | Some s \<Rightarrow> s)
        in l\<lparr>podToProgMap := (podToProgMap l)(d := (podToProgMap l d)(podNamespacedName \<mapsto> progFD)),
             progToPodsMap := (progToPodsMap l)(d := (progToPodsMap l d)(progFD \<mapsto>
                insert podNamespacedName currentPodSet))\<rparr>)"

definition AttacheBPFProbes ::
  "'k bpf_env \<Rightarrow> NamespacedName \<Rightarrow> string \<Rightarrow> int \<Rightarrow> bool \<Rightarrow> bpfClient \<Rightarrow> 'k \<Rightarrow>
     (string + bool) \<times> bpfClient \<times> 'k" where
  "AttacheBPFProbes env pod podIdentifier numInterfaces podConfirmedLive l k =
     (let podNamespacedName = GetPodNamespacedName (nn_Name pod) (nn_Namespace pod)
      in if \<not> podConfirmedLive \<and> deletedPods l podNamespacedName \<noteq> None then (Inr False, l, k)
         else
           let l1 = (if podConfirmedLive then l\<lparr>deletedPods := (deletedPods l)(podNamespacedName := None)\<rparr> else l);
               firstPodInPodIdentifier = isFirstPodInPodIdentifierLocked l1 podIdentifier;
               attached = isEBPFProbeAttached l1 (nn_Name pod) (nn_Namespace pod)
           in if attached Ingress \<and> attached Egress then (Inr firstPodInPodIdentifier, l1, k)
              else (case getInterfaceCountForPod l1 pod numInterfaces of
                      Inl e \<Rightarrow> (Inl e, l1, k)
                    | Inr n \<Rightarrow>
                        (case attach_loop env pod podIdentifier attached [0..<nat n] (\<lambda>_. 0) l1 k of
                           (Inl e, l2, k2) \<Rightarrow> (Inl e, l2, k2)
                         | (Inr fds, l2, k2) \<Rightarrow>
                             (Inr firstPodInPodIdentifier,
                              register_pod (attached Egress) Egress podNamespacedName (fds Egress)
                                (register_pod (attached Ingress) Ingress podNamespacedName (fds Ingress) l2), k2))))"

definition HasBPFContext :: "bpfClient \<Rightarrow> string \<Rightarrow> bool" where
  "HasBPFContext l podIdentifier = (policyEndpointeBPFContext l podIdentifier \<noteq> None)"

definition GetNetworkPolicyMode :: "bpfClient \<Rightarrow> string" where
  "GetNetworkPolicyMode l = networkPolicyMode l"

section \<open>Deleting\<close>

definition isProgFdShared :: "bpfClient \<Rightarrow> string \<Rightarrow> string \<Rightarrow> string + bool" where
  "isProgFdShared l targetPodName targetPodNamespace =
     (let p = GetPodNamespacedName targetPodName targetPodNamespace;
          shared = (\<lambda>d. case podToProgMap l d p of
                          None \<Rightarrow> None
                        | Some targetProgFD \<Rightarrow> map_option (\<lambda>s. card s > 1) (progToPodsMap l d targetProgFD))
      in case shared Ingress of
           Some b \<Rightarrow> Inr b
         | None \<Rightarrow>
             (case shared Egress of
                Some b \<Rightarrow> Inr b
              | None \<Rightarrow> Inl (''pod not found in either IngressPodToProgMap or EgressPodToProgMap: '' @ p)))"

definition delete_pod_caches :: "dir \<Rightarrow> string \<Rightarrow> string \<Rightarrow> bpfClient \<Rightarrow> bpfClient" where
  "delete_pod_caches d podName podNamespace l =
     (let podNamespacedName = GetPodNamespacedName podName podNamespace
      in case podToProgMap l d podNamespacedName of
           None \<Rightarrow> l
         | Some progFD \<Rightarrow>
             let l1 = l\<lparr>podToProgMap := (podToProgMap l)(d := (podToProgMap l d)(podNamespacedName := None))\<rparr>
             in case progToPodsMap l d progFD of
                  None \<Rightarrow> l1
                | Some currentSet \<Rightarrow>
                    let set' = currentSet - {podNamespacedName}
                    in l1\<lparr>progToPodsMap := (progToPodsMap l)(d := (progToPodsMap l d)(progFD :=
                         (if set' = {} then None else Some set')))\<rparr>)"

definition deletePodFromIngressProgPodCaches :: "string \<Rightarrow> string \<Rightarrow> bpfClient \<Rightarrow> bpfClient" where
  "deletePodFromIngressProgPodCaches podName podNamespace l = delete_pod_caches Ingress podName podNamespace l"

definition deletePodFromEgressProgPodCaches :: "string \<Rightarrow> string \<Rightarrow> bpfClient \<Rightarrow> bpfClient" where
  "deletePodFromEgressProgPodCaches podName podNamespace l = delete_pod_caches Egress podName podNamespace l"

text \<open>Errors of the unpin calls are logged and dropped.\<close>

definition deleteBPFProgramAndMaps ::
  "'k bpf_env \<Rightarrow> string \<Rightarrow> dir \<Rightarrow> bpfClient \<Rightarrow> 'k \<Rightarrow> 'k" where
  "deleteBPFProgramAndMaps env podIdentifier d l k =
     (let info = pgmInfo (context_of l podIdentifier) d;
          (mapPinpath, clusterPolicyMapPinpath) = GetBPFMapPinPathFromPodIdentifier podIdentifier (dirName d)
      in if ProgFD (Program info) \<noteq> 0 then
           let k1 = snd (UnPinProg env (Program info) (GetBPFPinPathFromPodIdentifier podIdentifier (dirName d)) k);
               k2 = snd (UnPinMap env (map_at info (mapName PolicyMap d)) mapPinpath k1);
               k3 = snd (UnPinMap env (map_at info (podStateMapName d))
                      (GetPodStateBPFMapPinPathFromPodIdentifier podIdentifier (dirName d)) k2)
           in snd (UnPinMap env (map_at info (mapName ClusterPolicyMap d)) clusterPolicyMapPinpath k3)
         else k)"

definition deleteBPFProbes :: "'k bpf_env \<Rightarrow> string \<Rightarrow> bpfClient \<Rightarrow> 'k \<Rightarrow> bpfClient \<times> 'k" where
  "deleteBPFProbes env podIdentifier l k =
     (let k1 = deleteBPFProgramAndMaps env podIdentifier Ingress l k;
          k2 = deleteBPFProgramAndMaps env podIdentifier Egress l k1
      in (l\<lparr>inMemoryMap := (\<lambda>kd d. (inMemoryMap l kd d)(podIdentifier := None)),
            policyEndpointeBPFContext := (policyEndpointeBPFContext l)(podIdentifier := None)\<rparr>, k2))"

definition DeleteBPFProbes ::
  "'k bpf_env \<Rightarrow> int \<Rightarrow> NamespacedName \<Rightarrow> string \<Rightarrow> bpfClient \<Rightarrow> 'k \<Rightarrow> bpfClient \<times> 'k" where
  "DeleteBPFProbes env now pod podIdentifier l k =
     (let shared = isProgFdShared l (nn_Name pod) (nn_Namespace pod);
          l1 = deletePodFromIngressProgPodCaches (nn_Name pod) (nn_Namespace pod) l;
          l2 = deletePodFromEgressProgPodCaches (nn_Name pod) (nn_Namespace pod) l1;
          l3 = l2\<lparr>deletedPods := (deletedPods l2)(GetPodNamespacedName (nn_Name pod) (nn_Namespace pod) \<mapsto> now)\<rparr>
      in if shared = Inr False then deleteBPFProbes env podIdentifier l3 k else (l3, k))"

definition cleanupDeletedPodsIfNeeded :: "int \<Rightarrow> bpfClient \<Rightarrow> bpfClient" where
  "cleanupDeletedPodsIfNeeded now l =
     l\<lparr>deletedPods := (\<lambda>p. case deletedPods l p of
         None \<Rightarrow> None
       | Some ts \<Rightarrow> if now - ts > deletedPodsMinAge then None else Some ts)\<rparr>"

section \<open>Writing the maps\<close>

definition shadowMapForLocked ::
  "'k map_sdk \<Rightarrow> (string \<rightharpoonup> InMemoryBpfMap) \<Rightarrow> string \<Rightarrow> BpfMap \<Rightarrow> 'k \<Rightarrow>
     failure + InMemoryBpfMap \<times> (string \<rightharpoonup> InMemoryBpfMap)" where
  "shadowMapForLocked sdk cache podIdentifier bm k =
     (case cache podIdentifier of
        Some inMemMap \<Rightarrow> Inr (inMemMap, cache)
      | None \<Rightarrow>
          (case NewInMemoryBpfMap sdk bm k of
             Inl (Err e) \<Rightarrow> Inl (Err (''hydrate: '' @ e))
           | Inl e \<Rightarrow> Inl e
           | Inr inMemMap \<Rightarrow> Inr (inMemMap, cache(podIdentifier \<mapsto> inMemMap))))"

definition refreshShadowMap ::
  "'k map_sdk \<Rightarrow> entry_order \<Rightarrow> entry_order \<Rightarrow> bpf_entries \<Rightarrow> string option \<Rightarrow> InMemoryBpfMap \<Rightarrow> 'k \<Rightarrow>
     failure option \<times> InMemoryBpfMap \<times> 'k" where
  "refreshShadowMap sdk ordA ordC mapEntries computeErr inMemMap k =
     (case computeErr of
        Some e \<Rightarrow> (Some (Err e), inMemMap, k)
      | None \<Rightarrow> BulkRefresh sdk ordA ordC mapEntries inMemMap k)"

text \<open>The part of \<^verbatim>\<open>UpdateEbpfMaps\<close> and \<^verbatim>\<open>UpdateClusterPolicyEbpfMaps\<close> for one direction.
  The result is a panic or the error of the direction, if any.\<close>

fun err_prefix :: "map_kind \<Rightarrow> dir \<Rightarrow> string" where
  "err_prefix PolicyMap d = dirName d"
| "err_prefix ClusterPolicyMap d = ''cluster policy '' @ dirName d"

definition store_shadow :: "map_kind \<Rightarrow> dir \<Rightarrow> (string \<rightharpoonup> InMemoryBpfMap) \<Rightarrow> bpfClient \<Rightarrow> bpfClient" where
  "store_shadow kd d cache l = l\<lparr>inMemoryMap := (inMemoryMap l)(kd := (inMemoryMap l kd)(d := cache))\<rparr>"

definition update_map ::
  "'k bpf_env \<Rightarrow> go_orders \<Rightarrow> map_kind \<Rightarrow> dir \<Rightarrow> string \<Rightarrow> BpfData \<Rightarrow> bpf_entries \<Rightarrow> bpfClient \<Rightarrow> 'k \<Rightarrow>
     (go_panic + string option) \<times> bpfClient \<times> 'k" where
  "update_map env os kd d podIdentifier progInfo entries l k =
     (if ProgFD (Program progInfo) = 0 then (Inr None, l, k)
      else (case shadowMapForLocked (map_api env) (inMemoryMap l kd d) podIdentifier
                   (map_at progInfo (mapName kd d)) k of
              Inl (Panic p) \<Rightarrow> (Inl p, l, k)
            | Inl (Err e) \<Rightarrow> (Inr (Some (err_prefix kd d @ '' in-mem map: '' @ e)), l, k)
            | Inr (inMemMap, cache) \<Rightarrow>
                (case refreshShadowMap (map_api env) (ordAdd os d) (ordCur os d) entries None inMemMap k of
                   (r, m', k') \<Rightarrow>
                     ((case r of
                         None \<Rightarrow> Inr None
                       | Some (Panic p) \<Rightarrow> Inl p
                       | Some (Err e) \<Rightarrow> Inr (Some (err_prefix kd d @ '' map write: '' @ e))),
                      store_shadow kd d (cache(podIdentifier \<mapsto> m')) l, k'))))"

text \<open>\<^verbatim>\<open>errors.Join\<close>: the errors that are not nil, in order; none of them is nil.\<close>

definition errors_Join :: "string option list \<Rightarrow> string list" where
  "errors_Join es = List.map_filter id es"

definition update_both ::
  "'k bpf_env \<Rightarrow> go_orders \<Rightarrow> map_kind \<Rightarrow> string \<Rightarrow> (dir \<Rightarrow> bpf_entries) \<Rightarrow> bpfClient \<Rightarrow> 'k \<Rightarrow>
     (go_panic + string list) \<times> bpfClient \<times> 'k" where
  "update_both env os kd podIdentifier entries l k =
     (case policyEndpointeBPFContext l podIdentifier of
        None \<Rightarrow> (Inr [''no bpf context registered for pod '' @ podIdentifier], l, k)
      | Some peBPFContext \<Rightarrow>
          (case update_map env os kd Ingress podIdentifier (pgmInfo peBPFContext Ingress) (entries Ingress) l k of
             (Inl p, l1, k1) \<Rightarrow> (Inl p, l1, k1)
           | (Inr ingressErr, l1, k1) \<Rightarrow>
               (case update_map env os kd Egress podIdentifier (pgmInfo peBPFContext Egress) (entries Egress) l1 k1 of
                  (Inl p, l2, k2) \<Rightarrow> (Inl p, l2, k2)
                | (Inr egressErr, l2, k2) \<Rightarrow> (Inr (errors_Join [ingressErr, egressErr]), l2, k2))))"

definition UpdateEbpfMaps ::
  "'k bpf_env \<Rightarrow> go_orders \<Rightarrow> string \<Rightarrow> EbpfFirewallRules list \<Rightarrow> EbpfFirewallRules list \<Rightarrow> bpfClient \<Rightarrow> 'k \<Rightarrow>
     (go_panic + string list) \<times> bpfClient \<times> 'k" where
  "UpdateEbpfMaps env os podIdentifier ingressFirewallRules egressFirewallRules l k =
     (case ComputeMapEntriesFromEndpointRules (ordFw os Ingress) (fwRuleProcessor l) ingressFirewallRules of
        Inl p \<Rightarrow> (Inl p, l, k)
      | Inr ingressEntries \<Rightarrow>
          (case ComputeMapEntriesFromEndpointRules (ordFw os Egress) (fwRuleProcessor l) egressFirewallRules of
             Inl p \<Rightarrow> (Inl p, l, k)
           | Inr egressEntries \<Rightarrow>
               update_both env os PolicyMap podIdentifier
                 (\<lambda>d. case d of Ingress \<Rightarrow> ingressEntries | Egress \<Rightarrow> egressEntries) l k))"

definition UpdateClusterPolicyEbpfMaps ::
  "'k bpf_env \<Rightarrow> go_orders \<Rightarrow> string \<Rightarrow> EbpfFirewallRules list \<Rightarrow> EbpfFirewallRules list \<Rightarrow> bpfClient \<Rightarrow> 'k \<Rightarrow>
     (go_panic + string list) \<times> bpfClient \<times> 'k" where
  "UpdateClusterPolicyEbpfMaps env os podIdentifier ingressFirewallRules egressFirewallRules l k =
     (case ComputeClusterPolicyMapEntriesFromEndpointRules (ordCp os Ingress) (fwRuleProcessor l) ingressFirewallRules of
        Inl p \<Rightarrow> (Inl p, l, k)
      | Inr ingressEntries \<Rightarrow>
          (case ComputeClusterPolicyMapEntriesFromEndpointRules (ordCp os Egress) (fwRuleProcessor l) egressFirewallRules of
             Inl p \<Rightarrow> (Inl p, l, k)
           | Inr egressEntries \<Rightarrow>
               update_both env os ClusterPolicyMap podIdentifier
                 (\<lambda>d. case d of Ingress \<Rightarrow> ingressEntries | Egress \<Rightarrow> egressEntries) l k))"

text \<open>A \<^verbatim>\<open>uint32\<close> key and the one-byte \<^verbatim>\<open>pod_state\<close> struct in memory.\<close>

definition pod_state_key :: "int \<Rightarrow> byte list" where
  "pod_state_key key = put_le32 (word_of_int key)"

definition pod_state_val :: "int \<Rightarrow> byte list" where
  "pod_state_val state = [word_of_int state]"

definition write_state ::
  "(BpfMap \<Rightarrow> byte list \<Rightarrow> byte list \<Rightarrow> 'k \<Rightarrow> string option \<times> 'k) \<Rightarrow> string \<Rightarrow> bool \<Rightarrow> dir \<Rightarrow> BPFContext \<Rightarrow>
     int \<Rightarrow> int \<Rightarrow> 'k \<Rightarrow> string option \<times> 'k" where
  "write_state call what enabled d c key state k =
     (if enabled \<and> prog_fd c d \<noteq> 0 then
        (case call (map_at (pgmInfo c d) (podStateMapName d)) (pod_state_key key) (pod_state_val state) k of
           (None, k') \<Rightarrow> (None, k')
         | (Some e, k') \<Rightarrow> (Some (dirName d @ '' pod state '' @ what @ '': '' @ e), k'))
      else (None, k))"

definition CreatePodStateEbpfEntryIfNotExists ::
  "'k bpf_env \<Rightarrow> string \<Rightarrow> int \<Rightarrow> int \<Rightarrow> bpfClient \<Rightarrow> 'k \<Rightarrow> string list \<times> 'k" where
  "CreatePodStateEbpfEntryIfNotExists env podIdentifier key state l k =
     (case policyEndpointeBPFContext l podIdentifier of
        None \<Rightarrow> ([''no bpf context registered for pod '' @ podIdentifier], k)
      | Some c \<Rightarrow>
          let (ingressErr, k1) = write_state (CreateMapEntry env) ''entry create'' True Ingress c key state k;
              (egressErr, k2) = write_state (CreateMapEntry env) ''entry create'' True Egress c key state k1
          in (errors_Join [ingressErr, egressErr], k2))"

definition UpdatePodStateEbpfMaps ::
  "'k bpf_env \<Rightarrow> string \<Rightarrow> int \<Rightarrow> int \<Rightarrow> bool \<Rightarrow> bool \<Rightarrow> bpfClient \<Rightarrow> 'k \<Rightarrow> string list \<times> 'k" where
  "UpdatePodStateEbpfMaps env podIdentifier key state updateIngress updateEgress l k =
     (case policyEndpointeBPFContext l podIdentifier of
        None \<Rightarrow> ([''no bpf context registered for pod '' @ podIdentifier], k)
      | Some c \<Rightarrow>
          let (ingressErr, k1) = write_state (CreateUpdateMapEntry env) ''map write'' updateIngress Ingress c key state k;
              (egressErr, k2) = write_state (CreateUpdateMapEntry env) ''map write'' updateEgress Egress c key state k1
          in (errors_Join [ingressErr, egressErr], k2))"

end
