(* ===== verification/BpfInvariant.thy ===== *)
theory BpfInvariant
  imports BpfClient
begin

text \<open>
  The invariant of the eBPF client and its preservation by every operation: the caches between
  pods and programs are inverse to each other, every attached pod uses the programs of its own
  identifier's context, no two identifiers share a program or a policy map, every shadow map
  equals its kernel map, and a pod with a deletion marker is attached nowhere. What the kernel and
  the SDK promise is collected in \<open>env_laws\<close>.
\<close>

section \<open>What the environment promises\<close>

text \<open>Contents of the kernel maps by map ID, the map IDs in use, the open program FDs, and the history
  of the deletions of map entries that the kernel refused, as pairs of map ID and key.\<close>

record 'k kernel_view =
  kv_maps :: "'k \<Rightarrow> nat \<Rightarrow> byte list \<rightharpoonup> byte list"
  kv_ids :: "'k \<Rightarrow> nat set"
  kv_fds :: "'k \<Rightarrow> int set"
  kv_refused :: "'k \<Rightarrow> (nat \<times> byte list) set"

text \<open>Everything but the maps \<open>I\<close> and the programs \<open>F\<close> is as it was.\<close>

definition keeps :: "'k kernel_view \<Rightarrow> nat set \<Rightarrow> int set \<Rightarrow> 'k \<Rightarrow> 'k \<Rightarrow> bool" where
  "keeps kv I F k k' \<longleftrightarrow>
     (\<forall>i \<in> kv_ids kv k - I. i \<in> kv_ids kv k' \<and> kv_maps kv k' i = kv_maps kv k i) \<and>
     kv_fds kv k - F \<subseteq> kv_fds kv k' \<and> kv_refused kv k' = kv_refused kv k"

definition policy_maps :: "dir \<Rightarrow> string set" where
  "policy_maps d = {mapName PolicyMap d, mapName ClusterPolicyMap d, podStateMapName d}"

text \<open>A program that was loaded for an identifier has an FD and maps that nobody had before, and
  the program pinned for a direction comes with the three maps of that direction.\<close>

definition fresh_program :: "'k kernel_view \<Rightarrow> 'k \<Rightarrow> 'k \<Rightarrow> BpfData \<Rightarrow> bool" where
  "fresh_program kv k k' data \<longleftrightarrow>
     ProgFD (Program data) \<notin> kv_fds kv k \<and> ProgFD (Program data) \<in> kv_fds kv k' \<and>
     (\<forall>d. \<forall>n \<in> policy_maps d. \<forall>b. map_of (Maps data) n = Some b \<longrightarrow>
        MapID b \<notin> kv_ids kv k \<and> MapID b \<in> kv_ids kv k') \<and>
     (\<forall>d n n' b b'. n \<in> policy_maps d \<longrightarrow> n' \<in> policy_maps d \<longrightarrow> map_of (Maps data) n = Some b \<longrightarrow>
        map_of (Maps data) n' = Some b' \<longrightarrow> MapID b = MapID b' \<longrightarrow> n = n')"

definition load_laws :: "'k bpf_env \<Rightarrow> 'k kernel_view \<Rightarrow> bool" where
  "load_laws env kv \<longleftrightarrow>
     (\<forall>f i k r k'. LoadBpfFile env f i k = (r, k') \<longrightarrow> keeps kv {} {} k k') \<and>
     (\<forall>f i k info k' pin data. LoadBpfFile env f i k = (Inr info, k') \<longrightarrow> info pin = Some data \<longrightarrow>
        ProgFD (Program data) \<noteq> 0 \<longrightarrow> fresh_program kv k k' data) \<and>
     (\<forall>f i k info k' d data. LoadBpfFile env f i k = (Inr info, k') \<longrightarrow>
        info (GetBPFPinPathFromPodIdentifier i (dirName d)) = Some data \<longrightarrow>
        policy_maps d \<subseteq> dom (map_of (Maps data)))"

definition tc_laws :: "'k bpf_env \<Rightarrow> 'k kernel_view \<Rightarrow> bool" where
  "tc_laws env kv \<longleftrightarrow>
     (\<forall>d v fd k r k'. tcAttach env d v fd k = (r, k') \<longrightarrow> keeps kv {} {} k k') \<and>
     (\<forall>d v k r k'. tcDetach env d v k = (r, k') \<longrightarrow> keeps kv {} {} k k') \<and>
     (\<forall>p pin k r k'. UnPinProg env p pin k = (r, k') \<longrightarrow> keeps kv {} {ProgFD p} k k') \<and>
     (\<forall>b pin k r k'. UnPinMap env b pin k = (r, k') \<longrightarrow> keeps kv {MapID b} {} k k')"

definition same_ids :: "'k kernel_view \<Rightarrow> 'k \<Rightarrow> 'k \<Rightarrow> bool" where
  "same_ids kv k k' \<longleftrightarrow> kv_ids kv k' = kv_ids kv k \<and> kv_fds kv k' = kv_fds kv k \<and>
     kv_refused kv k \<subseteq> kv_refused kv k'"

text \<open>What one call on a pod state map may do: fail and change nothing, or set the entry.\<close>

definition state_call ::
  "'k kernel_view \<Rightarrow> (BpfMap \<Rightarrow> byte list \<Rightarrow> byte list \<Rightarrow> 'k \<Rightarrow> string option \<times> 'k) \<Rightarrow>
     (byte list \<Rightarrow> byte list option \<Rightarrow> byte list) \<Rightarrow> bool" where
  "state_call kv call f \<longleftrightarrow> (\<forall>b key v k r k'. call b key v k = (r, k') \<longrightarrow> same_ids kv k k' \<and>
     kv_refused kv k' = kv_refused kv k \<and>
     kv_maps kv k' = (if r = None then (kv_maps kv k)(MapID b := (kv_maps kv k (MapID b))(key \<mapsto>
        f v (kv_maps kv k (MapID b) key))) else kv_maps kv k))"

text \<open>\<^verbatim>\<open>CreateMapEntry\<close> leaves an entry that exists as it is and reports success;
  \<^verbatim>\<open>CreateUpdateMapEntry\<close> overwrites.\<close>

definition state_laws :: "'k bpf_env \<Rightarrow> 'k kernel_view \<Rightarrow> bool" where
  "state_laws env kv \<longleftrightarrow>
     state_call kv (CreateMapEntry env) (\<lambda>v x. case x of None \<Rightarrow> v | Some w \<Rightarrow> w) \<and>
     state_call kv (CreateUpdateMapEntry env) (\<lambda>v x. v)"

text \<open>The history grows by exactly the deletions that fail.\<close>

definition ids_laws :: "'k bpf_env \<Rightarrow> 'k kernel_view \<Rightarrow> bool" where
  "ids_laws env kv \<longleftrightarrow>
     (\<forall>b key v k r k'. UpdateMapEntry (map_api env) b key v k = (r, k') \<longrightarrow> same_ids kv k k' \<and>
        kv_refused kv k' = kv_refused kv k) \<and>
     (\<forall>b key k r k'. DeleteMapEntry (map_api env) b key k = (r, k') \<longrightarrow> same_ids kv k k' \<and>
        kv_refused kv k' = (if r = None then kv_refused kv k else insert (MapID b, key) (kv_refused kv k)))"

definition env_laws :: "'k bpf_env \<Rightarrow> 'k kernel_view \<Rightarrow> bool" where
  "env_laws env kv \<longleftrightarrow> sdk_laws (map_api env) (kv_maps kv) \<and> load_laws env kv \<and> tc_laws env kv \<and>
     state_laws env kv \<and> ids_laws env kv"

lemma env_lawsD:
  assumes "env_laws env kv"
  shows "sdk_laws (map_api env) (kv_maps kv)" "load_laws env kv" "tc_laws env kv" "state_laws env kv"
    "ids_laws env kv"
  using assms by (simp_all add: env_laws_def)

lemma keeps_refl [simp]: "keeps kv I F k k"
  by (simp add: keeps_def)

lemma keeps_trans:
  "keeps kv I F k k1 \<Longrightarrow> keeps kv J G k1 k2 \<Longrightarrow> keeps kv (I \<union> J) (F \<union> G) k k2"
  unfolding keeps_def by auto

lemma keeps_trans_empty: "keeps kv {} {} k k1 \<Longrightarrow> keeps kv {} {} k1 k2 \<Longrightarrow> keeps kv {} {} k k2"
  using keeps_trans [of kv "{}" "{}" k k1 "{}" "{}" k2] by simp

lemma tc_attach_retry_keeps:
  assumes "tc_laws env kv" "tc_attach_retry env d v fd k = (r, k')" shows "keeps kv {} {} k k'"
proof -
  have a: "tcAttach env d v fd k = (r, k') \<Longrightarrow> keeps kv {} {} k k'" for v fd k r k'
    using assms(1) unfolding tc_laws_def by metis
  have t: "tcDetach env d v k = (r, k') \<Longrightarrow> keeps kv {} {} k k'" for v k r k'
    using assms(1) unfolding tc_laws_def by metis
  from assms(2) show ?thesis
    by (auto simp: tc_attach_retry_def split: prod.splits option.splits if_splits
        dest!: a t intro: keeps_trans_empty)
qed

section \<open>The invariant\<close>

definition owns_fd :: "bpfClient \<Rightarrow> string \<Rightarrow> dir \<Rightarrow> int \<Rightarrow> bool" where
  "owns_fd l i d fd \<longleftrightarrow> (\<exists>c. policyEndpointeBPFContext l i = Some c \<and> prog_fd c d = fd \<and> fd \<noteq> 0)"

definition owns_map :: "bpfClient \<Rightarrow> string \<Rightarrow> dir \<Rightarrow> string \<Rightarrow> BpfMap \<Rightarrow> bool" where
  "owns_map l i d n b \<longleftrightarrow>
     (\<exists>c. policyEndpointeBPFContext l i = Some c \<and> n \<in> policy_maps d \<and> map_of (Maps (pgmInfo c d)) n = Some b)"

definition progs_ok :: "'k kernel_view \<Rightarrow> bpfClient \<Rightarrow> 'k \<Rightarrow> bool" where
  "progs_ok kv l k \<longleftrightarrow>
     (\<forall>i d fd. owns_fd l i d fd \<longrightarrow> fd \<in> kv_fds kv k) \<and>
     (\<forall>i d i' d' fd. owns_fd l i d fd \<longrightarrow> owns_fd l i' d' fd \<longrightarrow> i = i' \<and> d = d') \<and>
     (\<forall>i d fd n. owns_fd l i d fd \<longrightarrow> n \<in> policy_maps d \<longrightarrow> (\<exists>b. owns_map l i d n b)) \<and>
     (\<forall>i d n b. owns_map l i d n b \<longrightarrow> MapID b \<in> kv_ids kv k) \<and>
     (\<forall>i d n b i' d' n' b'. owns_map l i d n b \<longrightarrow> owns_map l i' d' n' b' \<longrightarrow> MapID b = MapID b' \<longrightarrow>
        i = i' \<and> d = d' \<and> n = n')"

definition shadows_ok :: "'k kernel_view \<Rightarrow> bpfClient \<Rightarrow> 'k \<Rightarrow> bool" where
  "shadows_ok kv l k \<longleftrightarrow>
     (\<forall>kd d i m. inMemoryMap l kd d i = Some m \<longrightarrow> in_sync (kv_maps kv) m k \<and>
        owns_map l i d (mapName kd d) (bpfMap m) \<and> (\<exists>fd. owns_fd l i d fd))"

definition caches_ok :: "bpfClient \<Rightarrow> bool" where
  "caches_ok l \<longleftrightarrow>
     (\<forall>d p fd. podToProgMap l d p = Some fd \<longleftrightarrow> (\<exists>s. progToPodsMap l d fd = Some s \<and> p \<in> s)) \<and>
     (\<forall>d fd s. progToPodsMap l d fd = Some s \<longrightarrow> finite s \<and> s \<noteq> {}) \<and>
     (\<forall>p. podToProgMap l Ingress p = None \<longleftrightarrow> podToProgMap l Egress p = None) \<and>
     (\<forall>d p. deletedPods l p \<noteq> None \<longrightarrow> podToProgMap l d p = None)"

text \<open>The identifier of a pod read back from its namespaced name.\<close>

definition pod_ident :: "string \<Rightarrow> string" where
  "pod_ident p = (case go_last_index (CHR ''_'') p of
      None \<Rightarrow> GetPodIdentifier p []
    | Some i \<Rightarrow> GetPodIdentifier (take i p) (drop (Suc i) p))"

definition pods_ok :: "bpfClient \<Rightarrow> bool" where
  "pods_ok l \<longleftrightarrow> (\<forall>d p fd. podToProgMap l d p = Some fd \<longrightarrow> owns_fd l (pod_ident p) d fd)"

definition client_inv :: "'k kernel_view \<Rightarrow> bpfClient \<Rightarrow> 'k \<Rightarrow> bool" where
  "client_inv kv l k \<longleftrightarrow> caches_ok l \<and> pods_ok l \<and> progs_ok kv l k \<and> shadows_ok kv l k"

lemma pod_ident_name:
  "CHR ''_'' \<notin> set ns \<Longrightarrow> pod_ident (GetPodNamespacedName n ns) = GetPodIdentifier n ns"
  using go_last_index_append [of "CHR ''_''" ns n]
  by (simp add: pod_ident_def GetPodNamespacedName_def)

lemma progs_okD:
  assumes "progs_ok kv l k"
  shows "owns_fd l i d fd \<Longrightarrow> fd \<in> kv_fds kv k"
    and "owns_fd l i d fd \<Longrightarrow> owns_fd l i' d' fd \<Longrightarrow> i = i' \<and> d = d'"
    and "owns_fd l i d fd \<Longrightarrow> n \<in> policy_maps d \<Longrightarrow> \<exists>b. owns_map l i d n b"
    and "owns_map l i d n b \<Longrightarrow> MapID b \<in> kv_ids kv k"
    and "owns_map l i d n b \<Longrightarrow> owns_map l i' d' n' b' \<Longrightarrow> MapID b = MapID b' \<Longrightarrow> i = i' \<and> d = d' \<and> n = n'"
  using assms unfolding progs_ok_def by ((elim conjE)?, metis)+

lemma shadows_okD:
  assumes "shadows_ok kv l k" "inMemoryMap l kd d i = Some m"
  shows "in_sync (kv_maps kv) m k" "owns_map l i d (mapName kd d) (bpfMap m)" "\<exists>fd. owns_fd l i d fd"
  using assms unfolding shadows_ok_def by blast+

lemma caches_okD:
  assumes "caches_ok l"
  shows "podToProgMap l d p = Some fd \<longleftrightarrow> (\<exists>s. progToPodsMap l d fd = Some s \<and> p \<in> s)"
    and "progToPodsMap l d fd = Some s \<Longrightarrow> finite s" "progToPodsMap l d fd = Some s \<Longrightarrow> s \<noteq> {}"
    and "podToProgMap l Ingress p = None \<longleftrightarrow> podToProgMap l Egress p = None"
    and "deletedPods l p \<noteq> None \<Longrightarrow> podToProgMap l d p = None"
  using assms unfolding caches_ok_def by ((elim conjE)?, metis)+

lemma client_invD:
  assumes "client_inv kv l k"
  shows "caches_ok l" "pods_ok l" "progs_ok kv l k" "shadows_ok kv l k"
  using assms by (simp_all add: client_inv_def)

text \<open>Kernel steps that keep the owned maps and programs keep the invariant.\<close>

lemma progs_ok_keeps:
  assumes "progs_ok kv l k" and k: "keeps kv I F k k'"
    and "\<And>i d n b. owns_map l i d n b \<Longrightarrow> MapID b \<notin> I" "\<And>i d fd. owns_fd l i d fd \<Longrightarrow> fd \<notin> F"
  shows "progs_ok kv l k'"
proof -
  have "owns_fd l i d fd \<Longrightarrow> fd \<in> kv_fds kv k'" for i d fd
    using progs_okD(1) [OF assms(1)] assms(4) k unfolding keeps_def by blast
  moreover have "owns_map l i d n b \<Longrightarrow> MapID b \<in> kv_ids kv k'" for i d n b
    using progs_okD(4) [OF assms(1)] assms(3) k unfolding keeps_def by blast
  ultimately show ?thesis
    using assms(1) unfolding progs_ok_def by ((elim conjE)?, intro conjI) blast+
qed

lemma shadows_ok_keeps:
  assumes "shadows_ok kv l k" "progs_ok kv l k" and k: "keeps kv I F k k'"
    and "\<And>i d n b. owns_map l i d n b \<Longrightarrow> MapID b \<notin> I"
  shows "shadows_ok kv l k'"
proof -
  have "in_sync (kv_maps kv) m k'" if "inMemoryMap l kd d i = Some m" for kd d i m
  proof -
    note s = shadows_okD [OF assms(1) that]
    have "MapID (bpfMap m) \<in> kv_ids kv k - I" using progs_okD(4) [OF assms(2) s(2)] assms(4) [OF s(2)] by blast
    then have "kv_maps kv k' (MapID (bpfMap m)) = kv_maps kv k (MapID (bpfMap m))"
      using k unfolding keeps_def by blast
    with s(1) show ?thesis by (simp add: in_sync_def)
  qed
  then show ?thesis using assms(1) unfolding shadows_ok_def by blast
qed

lemma client_inv_keeps: "client_inv kv l k \<Longrightarrow> keeps kv {} {} k k' \<Longrightarrow> client_inv kv l k'"
  unfolding client_inv_def by (meson empty_iff progs_ok_keeps shadows_ok_keeps)

section \<open>Attaching\<close>

text \<open>The caches and the deletion markers do not depend on the contexts.\<close>

definition same_caches :: "bpfClient \<Rightarrow> bpfClient \<Rightarrow> bool" where
  "same_caches l l' \<longleftrightarrow> podToProgMap l' = podToProgMap l \<and> progToPodsMap l' = progToPodsMap l \<and>
     deletedPods l' = deletedPods l \<and> fwRuleProcessor l' = fwRuleProcessor l"

text \<open>Contexts only gain programs.\<close>

definition ctx_grows :: "bpfClient \<Rightarrow> string \<Rightarrow> bpfClient \<Rightarrow> bool" where
  "ctx_grows l i l' \<longleftrightarrow> (\<forall>j d fd. owns_fd l j d fd \<longrightarrow> owns_fd l' j d fd) \<and>
     (\<forall>j. j \<noteq> i \<longrightarrow> policyEndpointeBPFContext l' j = policyEndpointeBPFContext l j)"

lemma same_caches_refl [simp]: "same_caches l l"
  by (simp add: same_caches_def)

lemma same_caches_trans: "same_caches l l1 \<Longrightarrow> same_caches l1 l2 \<Longrightarrow> same_caches l l2"
  by (simp add: same_caches_def)

lemma ctx_grows_refl [simp]: "ctx_grows l i l"
  by (simp add: ctx_grows_def)

lemma ctx_grows_trans: "ctx_grows l i l1 \<Longrightarrow> ctx_grows l1 i l2 \<Longrightarrow> ctx_grows l i l2"
  by (simp add: ctx_grows_def)

lemma caches_ok_same: "same_caches l l' \<Longrightarrow> caches_ok l \<Longrightarrow> caches_ok l'"
  by (simp add: same_caches_def caches_ok_def)

lemma pods_ok_grows: "same_caches l l' \<Longrightarrow> ctx_grows l i l' \<Longrightarrow> pods_ok l \<Longrightarrow> pods_ok l'"
  by (simp add: same_caches_def ctx_grows_def pods_ok_def)

lemma loadBPFProgram_spec:
  assumes "load_laws env kv" "loadBPFProgram env f (dirName d) i k = (r, k')"
  shows "keeps kv {} {} k k'"
    and "r = Inr (info, fd) \<Longrightarrow> \<exists>data. info (GetBPFPinPathFromPodIdentifier i (dirName d)) = Some data \<and>
       ProgFD (Program data) = fd \<and> fd \<noteq> 0 \<and> fresh_program kv k k' data \<and> policy_maps d \<subseteq> dom (map_of (Maps data))"
proof -
  obtain q k1 where q: "LoadBpfFile env f i k = (q, k1)" by force
  with assms(2) have k1: "k1 = k'"
    by (cases q) (auto simp: loadBPFProgram_def Let_def split: option.splits if_splits)
  with q assms(1) show "keeps kv {} {} k k'" unfolding load_laws_def by blast
  assume "r = Inr (info, fd)"
  with assms(2) q k1 obtain data where "q = Inr info"
      and d: "info (GetBPFPinPathFromPodIdentifier i (dirName d)) = Some data" "ProgFD (Program data) = fd" "fd \<noteq> 0"
    by (cases q) (auto simp: loadBPFProgram_def Let_def split: option.splits if_splits)
  with q k1 have "LoadBpfFile env f i k = (Inr info, k')" by simp
  with assms(1) d have "fresh_program kv k k' data \<and> policy_maps d \<subseteq> dom (map_of (Maps data))"
    unfolding load_laws_def by metis
  with d show "\<exists>data. info (GetBPFPinPathFromPodIdentifier i (dirName d)) = Some data \<and>
       ProgFD (Program data) = fd \<and> fd \<noteq> 0 \<and> fresh_program kv k k' data \<and> policy_maps d \<subseteq> dom (map_of (Maps data))"
    by blast
qed

text \<open>Adding a freshly loaded program to the context of an identifier.\<close>

definition with_program :: "bpfClient \<Rightarrow> string \<Rightarrow> dir \<Rightarrow> BpfData \<Rightarrow> bpfClient" where
  "with_program l i d data = l\<lparr>policyEndpointeBPFContext := (policyEndpointeBPFContext l)(i \<mapsto>
     (context_of l i)\<lparr>pgmInfo := (pgmInfo (context_of l i))(d := data)\<rparr>)\<rparr>"

lemma owns_with_program:
  "owns_fd (with_program l i d data) j e fd \<longleftrightarrow>
     (if j = i \<and> e = d then fd = ProgFD (Program data) \<and> fd \<noteq> 0 else owns_fd l j e fd)"
  "owns_map (with_program l i d data) j e n b \<longleftrightarrow>
     (if j = i \<and> e = d then n \<in> policy_maps d \<and> map_of (Maps data) n = Some b else owns_map l j e n b)"
  by (auto simp: owns_fd_def owns_map_def with_program_def prog_fd_def context_of_def zero_context_def
      zero_data_def split: option.splits if_splits)

lemma with_program_inv:
  assumes inv: "client_inv kv l k" and keep: "keeps kv {} {} k k'"
    and none: "prog_fd (context_of l i) d = 0" and fd: "ProgFD (Program data) \<noteq> 0"
    and fresh: "fresh_program kv k k' data" and maps: "policy_maps d \<subseteq> dom (map_of (Maps data))"
  shows "client_inv kv (with_program l i d data) k'"
proof -
  let ?l = "with_program l i d data"
  note inv' = client_invD [OF client_inv_keeps [OF inv keep]]
  have no: "\<not> owns_fd l i d fd" for fd using none by (auto simp: owns_fd_def context_of_def)
  have sc: "same_caches l ?l" "inMemoryMap ?l = inMemoryMap l" by (simp_all add: same_caches_def with_program_def)
  have gr: "ctx_grows l i ?l"
    using no by (auto simp: ctx_grows_def owns_with_program) (auto simp: with_program_def)
  have nf: "\<not> owns_fd l j e (ProgFD (Program data))" for j e
    using fresh progs_okD(1) [OF client_invD(3) [OF inv]] unfolding fresh_program_def by blast
  have nm: "map_of (Maps data) n = Some b \<Longrightarrow> n \<in> policy_maps d \<Longrightarrow> owns_map l j e n' b' \<Longrightarrow> MapID b' \<noteq> MapID b" for j e n n' b b'
    using fresh progs_okD(4) [OF client_invD(3) [OF inv]] unfolding fresh_program_def by metis
  have "progs_ok kv ?l k'"
    unfolding progs_ok_def
  proof (intro conjI allI impI)
    fix j e fd' assume "owns_fd ?l j e fd'"
    then show "fd' \<in> kv_fds kv k'"
      using progs_okD(1) [OF inv'(3)] fresh by (auto simp: owns_with_program fresh_program_def split: if_splits)
  next
    fix j e j' e' fd' assume "owns_fd ?l j e fd'" "owns_fd ?l j' e' fd'"
    then have "j = j' \<and> e = e'"
      using nf progs_okD(2) [OF inv'(3)] by (auto simp: owns_with_program split: if_splits)
    then show "j = j'" "e = e'" by simp_all
  next
    fix j e fd' n assume "owns_fd ?l j e fd'" "n \<in> policy_maps e"
    then show "\<exists>b. owns_map ?l j e n b"
      using progs_okD(3) [OF inv'(3)] maps by (auto simp: owns_with_program split: if_splits)
  next
    fix j e n b assume "owns_map ?l j e n b"
    then show "MapID b \<in> kv_ids kv k'"
      using progs_okD(4) [OF inv'(3)] fresh by (auto simp: owns_with_program fresh_program_def split: if_splits)
  next
    fix j e n b j' e' n' b' assume o: "owns_map ?l j e n b" "owns_map ?l j' e' n' b'" "MapID b = MapID b'"
    have "j = j' \<and> e = e' \<and> n = n'"
    proof (cases "j = i \<and> e = d"; cases "j' = i \<and> e' = d")
      assume "j = i \<and> e = d" "j' = i \<and> e' = d"
      with o fresh show ?thesis unfolding fresh_program_def owns_with_program by (simp; metis)
    next
      assume "j = i \<and> e = d" "\<not> (j' = i \<and> e' = d)"
      with o have "n \<in> policy_maps d" "map_of (Maps data) n = Some b" "owns_map l j' e' n' b'"
        unfolding owns_with_program by simp_all
      with o(3) nm show ?thesis by metis
    next
      assume "\<not> (j = i \<and> e = d)" "j' = i \<and> e' = d"
      with o have "n' \<in> policy_maps d" "map_of (Maps data) n' = Some b'" "owns_map l j e n b"
        unfolding owns_with_program by simp_all
      with o(3) nm show ?thesis by metis
    next
      assume "\<not> (j = i \<and> e = d)" "\<not> (j' = i \<and> e' = d)"
      with o have "owns_map l j' e' n' b'" "owns_map l j e n b" unfolding owns_with_program by simp_all
      with o(3) progs_okD(5) [OF inv'(3)] show ?thesis by blast
    qed
    then show "j = j'" "e = e'" "n = n'" by simp_all
  qed
  moreover have "shadows_ok kv ?l k'"
    unfolding shadows_ok_def
  proof (intro allI impI)
    fix kd e j m assume "inMemoryMap ?l kd e j = Some m"
    with sc(2) have s: "inMemoryMap l kd e j = Some m" by simp
    note s' = shadows_okD [OF inv'(4) s]
    with no have "\<not> (j = i \<and> e = d)" by blast
    with s' show "in_sync (kv_maps kv) m k' \<and> owns_map ?l j e (mapName kd e) (bpfMap m) \<and> (\<exists>fd. owns_fd ?l j e fd)"
      by (auto simp: owns_with_program)
  qed
  ultimately show ?thesis
    using caches_ok_same [OF sc(1) inv'(1)] pods_ok_grows [OF sc(1) gr inv'(2)] by (simp add: client_inv_def)
qed

lemma program_for_spec:
  assumes laws: "env_laws env kv" and inv: "client_inv kv l k" and run: "program_for env d i l k = (r, l', k')"
  shows "client_inv kv l' k' \<and> same_caches l l' \<and> ctx_grows l i l' \<and> (\<forall>fd. r = Inr fd \<longrightarrow> owns_fd l' i d fd)"
proof (cases "prog_fd (context_of l i) d = 0")
  case False
  then have "owns_fd l i d (prog_fd (context_of l i) d)"
    by (auto simp: owns_fd_def context_of_def zero_context_def zero_data_def prog_fd_def split: option.splits)
  with False run inv show ?thesis by (auto simp: program_for_def Let_def)
next
  case True
  obtain q k1 where q: "loadBPFProgram env (probeBinary l d) (dirName d) i k = (q, k1)" by force
  note ls = loadBPFProgram_spec [OF env_lawsD(2) [OF laws] q]
  show ?thesis
  proof (cases q)
    case (Inl e)
    with True run q have "r = Inl e \<and> l' = l \<and> k' = k1" by (simp add: program_for_def Let_def)
    with client_inv_keeps [OF inv ls(1)] show ?thesis by simp
  next
    case (Inr p)
    obtain info fd where p: "q = Inr (info, fd)" using Inr by (cases p) auto
    from ls(2) [OF p] obtain data where data: "info (GetBPFPinPathFromPodIdentifier i (dirName d)) = Some data"
       "ProgFD (Program data) = fd" "fd \<noteq> 0" "fresh_program kv k k1 data" "policy_maps d \<subseteq> dom (map_of (Maps data))" by blast
    with True run q p have r: "r = Inr fd" "l' = with_program l i d data" "k' = k1"
      by (simp_all add: program_for_def with_program_def Let_def)
    have "client_inv kv l' k'"
      unfolding r using with_program_inv [OF inv ls(1) True _ data(4) data(5)] data by simp
    moreover have "\<not> owns_fd l i d fd'" for fd' using True by (auto simp: owns_fd_def context_of_def)
    ultimately show ?thesis
      using data unfolding r by (auto simp: ctx_grows_def owns_with_program) (auto simp: same_caches_def with_program_def)
  qed
qed

lemma attach_probe_spec:
  assumes laws: "env_laws env kv" and inv: "client_inv kv l k" and run: "attach_probe env d v i l k = (r, l', k')"
  shows "client_inv kv l' k' \<and> same_caches l l' \<and> ctx_grows l i l' \<and> (\<forall>fd. r = Inr fd \<longrightarrow> owns_fd l' i d fd)"
proof -
  obtain q l1 k1 where q: "program_for env d i l k = (q, l1, k1)" using prod_cases3 by blast
  note s = program_for_spec [OF laws inv q]
  show ?thesis
  proof (cases q)
    case (Inl e)
    with run q s show ?thesis by (simp add: attach_probe_def)
  next
    case (Inr fd)
    obtain t k2 where t: "tc_attach_retry env d v fd k1 = (t, k2)" by force
    have "keeps kv {} {} k1 k2" by (rule tc_attach_retry_keeps [OF env_lawsD(3) [OF laws] t])
    then have "client_inv kv l1 k2" by (rule client_inv_keeps [OF conjunct1 [OF s]])
    moreover have "l' = l1 \<and> k' = k2 \<and> (r = Inr fd \<or> (\<exists>e. r = Inl e))"
      using run q Inr t by (auto simp: attach_probe_def split: option.splits)
    ultimately show ?thesis using s Inr by auto
  qed
qed

lemma attach_unless_spec:
  assumes laws: "env_laws env kv" and inv: "client_inv kv l k"
    and run: "attach_unless att env d v i fds l k = (r, l', k')"
  shows "client_inv kv l' k' \<and> same_caches l l' \<and> ctx_grows l i l' \<and>
    (\<forall>fds'. r = Inr fds' \<longrightarrow> (\<forall>e. e \<noteq> d \<longrightarrow> fds' e = fds e) \<and> (\<not> att \<longrightarrow> owns_fd l' i d (fds' d)))"
proof (cases att)
  case True
  with run inv show ?thesis by (auto simp: attach_unless_def)
next
  case False
  obtain q l1 k1 where q: "attach_probe env d v i l k = (q, l1, k1)" using prod_cases3 by blast
  with False run attach_probe_spec [OF laws inv q] show ?thesis
    by (cases q) (auto simp: attach_unless_def)
qed

lemma attach_loop_spec:
  assumes laws: "env_laws env kv" and "client_inv kv l k"
    and "attach_loop env pod i att idxs fds l k = (r, l', k')"
  shows "client_inv kv l' k' \<and> same_caches l l' \<and> ctx_grows l i l' \<and>
    (\<forall>fds'. r = Inr fds' \<longrightarrow> (\<forall>d. \<not> att d \<longrightarrow> idxs \<noteq> [] \<or> owns_fd l i d (fds d) \<longrightarrow> owns_fd l' i d (fds' d)))"
  using assms(2, 3)
proof (induction idxs arbitrary: fds l k)
  case (Cons x xs)
  show ?case
  proof (cases "GetHostVethName (sha1_hex env) (\<lambda>x. linkError env x k) (nn_Name pod) (nn_Namespace pod) x
      [POD_VETH_PREFIX, BRANCH_ENI_VETH_PREFIX]")
    case (Inl errs)
    with Cons.prems show ?thesis by auto
  next
    case (Inr v)
    obtain q1 l1 k1 where q1: "attach_unless (att Ingress) env Ingress v i fds l k = (q1, l1, k1)"
      using prod_cases3 by blast
    note s1 = attach_unless_spec [OF laws Cons.prems(1) q1]
    show ?thesis
    proof (cases q1)
      case (Inl e)
      with Cons.prems Inr q1 s1 show ?thesis by auto
    next
      case (Inr fds1)
      obtain q2 l2 k2 where q2: "attach_unless (att Egress) env Egress v i fds1 l1 k1 = (q2, l2, k2)"
        using prod_cases3 by blast
      note s2 = attach_unless_spec [OF laws conjunct1 [OF s1] q2]
      have g: "same_caches l l2" "ctx_grows l i l2"
        using s1 s2 same_caches_trans ctx_grows_trans by blast+
      show ?thesis
      proof (cases q2)
        case (Inl e)
        with Cons.prems \<open>GetHostVethName _ _ _ _ _ _ = Inr v\<close> q1 Inr q2 s2 g show ?thesis by auto
      next
        case (Inr fds2)
        have o: "owns_fd l2 i d (fds2 d)" if "\<not> att d" for d
        proof (cases d)
          case Ingress
          with s1 that \<open>q1 = Inr fds1\<close> have "owns_fd l1 i Ingress (fds1 Ingress)" by auto
          with s2 Inr have "owns_fd l2 i Ingress (fds1 Ingress)" by (simp add: ctx_grows_def)
          with s2 Inr Ingress show ?thesis by simp
        next
          case Egress
          with s2 that Inr show ?thesis by auto
        qed
        have "attach_loop env pod i att xs fds2 l2 k2 = (r, l', k')"
          using Cons.prems \<open>GetHostVethName _ _ _ _ _ _ = Inr v\<close> q1 \<open>q1 = Inr fds1\<close> q2 Inr by simp
        from Cons.IH [OF conjunct1 [OF s2] this] o show ?thesis
          using g same_caches_trans ctx_grows_trans by blast
      qed
    qed
  qed
qed auto

lemma getInterfaceCountForPod_pos: "getInterfaceCountForPod l pod n = Inr m \<Longrightarrow> m > 0"
  by (auto simp: getInterfaceCountForPod_def INTERFACE_COUNT_DEFAULT_def split: if_splits sum.splits)

text \<open>Recording an attached pod in the caches of both directions.\<close>

definition register_both :: "string \<Rightarrow> (dir \<Rightarrow> int) \<Rightarrow> bpfClient \<Rightarrow> bpfClient" where
  "register_both p fds l = register_pod False Egress p (fds Egress) (register_pod False Ingress p (fds Ingress) l)"

lemma register_both_fields:
  "podToProgMap (register_both p fds l) d = (podToProgMap l d)(p \<mapsto> fds d)"
  "progToPodsMap (register_both p fds l) d = (progToPodsMap l d)(fds d \<mapsto>
     insert p (case progToPodsMap l d (fds d) of None \<Rightarrow> {} | Some s \<Rightarrow> s))"
  "deletedPods (register_both p fds l) = deletedPods l"
  "inMemoryMap (register_both p fds l) = inMemoryMap l"
  "policyEndpointeBPFContext (register_both p fds l) = policyEndpointeBPFContext l"
  by (cases d; simp add: register_both_def register_pod_def Let_def)+

lemma register_both_inv:
  assumes inv: "client_inv kv l k" and new: "\<And>d. podToProgMap l d p = None" "deletedPods l p = None"
    and own: "\<And>d. owns_fd l (pod_ident p) d (fds d)"
  shows "client_inv kv (register_both p fds l) k"
proof -
  let ?l = "register_both p fds l"
  have o: "owns_fd ?l = owns_fd l" "owns_map ?l = owns_map l"
    by (auto simp: fun_eq_iff owns_fd_def owns_map_def register_both_fields)
  note c = caches_okD [OF client_invD(1) [OF inv]]
  have np: "progToPodsMap l d fd = Some s \<Longrightarrow> p \<notin> s" for d fd s using new c(1) by (metis option.distinct(1))
  have "caches_ok ?l"
    unfolding caches_ok_def register_both_fields
  proof (intro conjI allI impI)
    fix d q fd
    show "((podToProgMap l d)(p \<mapsto> fds d)) q = Some fd \<longleftrightarrow>
      (\<exists>s. ((progToPodsMap l d)(fds d \<mapsto> insert p (case progToPodsMap l d (fds d) of None \<Rightarrow> {} | Some s \<Rightarrow> s))) fd
         = Some s \<and> q \<in> s)"
      using c(1) [of d q fd] np [of d fd] by (auto split: option.splits)
  next
    fix d fd s
    assume "((progToPodsMap l d)(fds d \<mapsto> insert p (case progToPodsMap l d (fds d) of None \<Rightarrow> {} | Some s \<Rightarrow> s))) fd = Some s"
    then show "finite s" "s \<noteq> {}" using c(2, 3) [of d fd] by (auto split: if_splits option.splits)
  next
    fix q show "((podToProgMap l Ingress)(p \<mapsto> fds Ingress)) q = None \<longleftrightarrow> ((podToProgMap l Egress)(p \<mapsto> fds Egress)) q = None"
      using c(4) by simp
  next
    fix d q assume "deletedPods l q \<noteq> None"
    then show "((podToProgMap l d)(p \<mapsto> fds d)) q = None" using c(5) new(2) by auto
  qed
  moreover have "pods_ok ?l"
    using client_invD(2) [OF inv] own by (auto simp: pods_ok_def o register_both_fields)
  moreover have "progs_ok kv ?l k" "shadows_ok kv ?l k"
    using client_invD(3, 4) [OF inv] by (simp_all add: progs_ok_def shadows_ok_def o register_both_fields)
  ultimately show ?thesis by (simp add: client_inv_def)
qed

definition pod_name :: "NamespacedName \<Rightarrow> string" where
  "pod_name pod = GetPodNamespacedName (nn_Name pod) (nn_Namespace pod)"

text \<open>A CNI ADD clears the deletion marker of the pod.\<close>

definition unmark :: "bool \<Rightarrow> string \<Rightarrow> bpfClient \<Rightarrow> bpfClient" where
  "unmark live p l = (if live then l\<lparr>deletedPods := (deletedPods l)(p := None)\<rparr> else l)"

lemma unmark_simps [simp]:
  "podToProgMap (unmark live p l) = podToProgMap l" "progToPodsMap (unmark live p l) = progToPodsMap l"
  "policyEndpointeBPFContext (unmark live p l) = policyEndpointeBPFContext l"
  "inMemoryMap (unmark live p l) = inMemoryMap l" "fwRuleProcessor (unmark live p l) = fwRuleProcessor l"
  "deletedPods (unmark live p l) = (if live then (deletedPods l)(p := None) else deletedPods l)"
  by (simp_all add: unmark_def)

lemma unmark_inv: "client_inv kv l k \<Longrightarrow> client_inv kv (unmark live p l) k"
  unfolding client_inv_def caches_ok_def pods_ok_def progs_ok_def shadows_ok_def owns_fd_def owns_map_def
  by simp

lemma AttacheBPFProbes_unfold:
  assumes "podToProgMap l Ingress (pod_name pod) = None \<longleftrightarrow> podToProgMap l Egress (pod_name pod) = None"
  shows "AttacheBPFProbes env pod i n live l k =
    (if \<not> live \<and> deletedPods l (pod_name pod) \<noteq> None then (Inr False, l, k)
     else if podToProgMap l Ingress (pod_name pod) \<noteq> None
     then (Inr (isFirstPodInPodIdentifierLocked l i), unmark live (pod_name pod) l, k)
     else (case getInterfaceCountForPod (unmark live (pod_name pod) l) pod n of
             Inl e \<Rightarrow> (Inl e, unmark live (pod_name pod) l, k)
           | Inr m \<Rightarrow>
               (case attach_loop env pod i (\<lambda>_. False) [0..<nat m] (\<lambda>_. 0) (unmark live (pod_name pod) l) k of
                  (Inl e, l2, k2) \<Rightarrow> (Inl e, l2, k2)
                | (Inr fds, l2, k2) \<Rightarrow>
                    (Inr (isFirstPodInPodIdentifierLocked l i), register_both (pod_name pod) fds l2, k2))))"
    (is "_ = ?rhs")
proof -
  let ?l = "unmark live (pod_name pod) l"
  have f: "isFirstPodInPodIdentifierLocked ?l i = isFirstPodInPodIdentifierLocked l i"
    by (simp add: isFirstPodInPodIdentifierLocked_def)
  have a: "isEBPFProbeAttached ?l (nn_Name pod) (nn_Namespace pod) = (\<lambda>d. podToProgMap l d (pod_name pod) \<noteq> None)"
    by (simp add: fun_eq_iff isEBPFProbeAttached_def pod_name_def)
  have n: "podToProgMap l Ingress (pod_name pod) = None \<Longrightarrow>
      (\<lambda>d. podToProgMap l d (pod_name pod) \<noteq> None) = (\<lambda>_. False)"
  proof (rule ext)
    fix d assume "podToProgMap l Ingress (pod_name pod) = None"
    with assms show "(podToProgMap l d (pod_name pod) \<noteq> None) = False" by (cases d) simp_all
  qed
  show ?thesis
  proof (cases "podToProgMap l Ingress (pod_name pod) = None")
    case True
    show ?thesis
      unfolding AttacheBPFProbes_def Let_def unmark_def [symmetric] pod_name_def [symmetric] f a n [OF True] True
        register_both_def simp_thms if_False ..
  next
    case False
    with assms have "podToProgMap l Egress (pod_name pod) \<noteq> None" by simp
    with False show ?thesis
      unfolding AttacheBPFProbes_def Let_def unmark_def [symmetric] pod_name_def [symmetric] f a by simp
  qed
qed

text \<open>What an attach does: skip a deleted pod, find the pod attached, fail without registering
  it, or attach it to the programs of its identifier in both directions.\<close>

lemma AttacheBPFProbes_cases:
  assumes laws: "env_laws env kv" and inv: "client_inv kv l k"
    and run: "AttacheBPFProbes env pod i n live l k = (r, l', k')"
  obtains (skipped) "\<not> live" "deletedPods l (pod_name pod) \<noteq> None" "r = Inr False" "l' = l" "k' = k"
  | (present) "\<And>d. podToProgMap l d (pod_name pod) \<noteq> None" "l' = unmark live (pod_name pod) l" "k' = k"
      "r = Inr (isFirstPodInPodIdentifierLocked l i)"
  | (failed) e where "live \<or> deletedPods l (pod_name pod) = None" "\<And>d. podToProgMap l d (pod_name pod) = None"
      "r = Inl e" "client_inv kv l' k'" "same_caches (unmark live (pod_name pod) l) l'"
      "ctx_grows (unmark live (pod_name pod) l) i l'"
  | (attached) l2 fds where "live \<or> deletedPods l (pod_name pod) = None" "\<And>d. podToProgMap l d (pod_name pod) = None"
      "r = Inr (isFirstPodInPodIdentifierLocked l i)" "client_inv kv l2 k'"
      "same_caches (unmark live (pod_name pod) l) l2" "ctx_grows (unmark live (pod_name pod) l) i l2"
      "\<And>d. owns_fd l2 i d (fds d)" "l' = register_both (pod_name pod) fds l2"
proof -
  let ?p = "pod_name pod" and ?l = "unmark live (pod_name pod) l"
  have both: "podToProgMap l Ingress ?p = None \<longleftrightarrow> podToProgMap l Egress ?p = None"
    by (rule caches_okD(4) [OF client_invD(1) [OF inv]])
  note unf = run [unfolded AttacheBPFProbes_unfold [OF both]]
  have all: "podToProgMap l d ?p = None \<longleftrightarrow> podToProgMap l Ingress ?p = None" for d
    using both by (cases d) auto
  consider (a) "\<not> live \<and> deletedPods l ?p \<noteq> None"
    | (b) "\<not> (\<not> live \<and> deletedPods l ?p \<noteq> None)" "podToProgMap l Ingress ?p \<noteq> None"
    | (c) "\<not> (\<not> live \<and> deletedPods l ?p \<noteq> None)" "podToProgMap l Ingress ?p = None" by blast
  then show thesis
  proof cases
    case a
    then have "r = Inr False" "l' = l" "k' = k" using unf by simp_all
    with a show thesis by (intro skipped) auto
  next
    case b
    then have "r = Inr (isFirstPodInPodIdentifierLocked l i)" "l' = ?l" "k' = k" using unf by auto
    moreover have "podToProgMap l d ?p \<noteq> None" for d using b(2) all [of d] by simp
    ultimately show thesis by (intro present)
  next
    case c
    then have c': "live \<or> deletedPods l ?p = None" "\<And>d. podToProgMap l d ?p = None" using all by auto
    show thesis
    proof (cases "getInterfaceCountForPod ?l pod n")
      case (Inl e)
      with unf c have "r = Inl e" "l' = ?l" "k' = k" by auto
      with c' unmark_inv [OF inv] show thesis by (intro failed) simp_all
    next
      case (Inr m)
      obtain q l2 k2 where q: "attach_loop env pod i (\<lambda>d. False) [0..<nat m] (\<lambda>_. 0) ?l k = (q, l2, k2)"
        using prod_cases3 by blast
      note s = attach_loop_spec [OF laws unmark_inv [OF inv] q]
      have ne: "[0..<nat m] \<noteq> []" using getInterfaceCountForPod_pos [OF Inr] by simp
      note rw = unf [unfolded Inr sum.case q prod.case]
      show thesis
      proof (cases q)
        case (Inl e)
        with rw c have "r = Inl e" "l' = l2" "k' = k2" by auto
        with c' s show thesis by (intro failed) simp_all
      next
        case (Inr fds)
        with rw c have "r = Inr (isFirstPodInPodIdentifierLocked l i)" "l' = register_both ?p fds l2" "k' = k2" by auto
        with c' s Inr ne show thesis by (intro attached) simp_all
      qed
    qed
  qed
qed

lemma AttacheBPFProbes_inv:
  assumes laws: "env_laws env kv" and inv: "client_inv kv l k" and id: "pod_ident (pod_name pod) = i"
    and run: "AttacheBPFProbes env pod i n live l k = (r, l', k')"
  shows "client_inv kv l' k'"
  using laws inv run
proof (cases rule: AttacheBPFProbes_cases)
  case (attached l2 fds)
  have "podToProgMap l2 d (pod_name pod) = None" for d
    using attached(2, 5) by (simp add: same_caches_def)
  moreover have "deletedPods l2 (pod_name pod) = None"
    using attached(1, 5) by (auto simp: same_caches_def)
  ultimately show ?thesis
    unfolding attached(8) using attached(4, 7) id by (intro register_both_inv) simp_all
qed (use unmark_inv [OF inv] inv in simp_all)

section \<open>Deleting\<close>

definition attached_pods :: "bpfClient \<Rightarrow> string \<Rightarrow> string set" where
  "attached_pods l i = {q. podToProgMap l Ingress q \<noteq> None \<and> pod_ident q = i}"

lemma owns_fd_unique: "owns_fd l i d fd \<Longrightarrow> owns_fd l i d fd' \<Longrightarrow> fd = fd'"
  by (auto simp: owns_fd_def)

lemma owns_map_unique: "owns_map l i d n b \<Longrightarrow> owns_map l i d n b' \<Longrightarrow> b = b'"
  by (auto simp: owns_map_def)

lemma attached_pods_fd:
  assumes inv: "client_inv kv l k" and fd: "podToProgMap l Ingress p = Some fd"
  shows "progToPodsMap l Ingress fd = Some (attached_pods l (pod_ident p))"
proof -
  note c = caches_okD [OF client_invD(1) [OF inv]]
  obtain s where s: "progToPodsMap l Ingress fd = Some s" using c(1) fd by blast
  have own: "podToProgMap l Ingress q = Some f \<Longrightarrow> owns_fd l (pod_ident q) Ingress f" for q f
    using client_invD(2) [OF inv] by (simp add: pods_ok_def)
  have "s = attached_pods l (pod_ident p)"
  proof (intro set_eqI iffI)
    fix q assume "q \<in> s"
    then have q: "podToProgMap l Ingress q = Some fd" using c(1) s by blast
    then show "q \<in> attached_pods l (pod_ident p)"
      using progs_okD(2) [OF client_invD(3) [OF inv] own own, OF q fd] by (simp add: attached_pods_def)
  next
    fix q assume "q \<in> attached_pods l (pod_ident p)"
    then obtain f where q: "podToProgMap l Ingress q = Some f" "pod_ident q = pod_ident p"
      by (auto simp: attached_pods_def)
    with own [OF q(1)] own [OF fd] have "f = fd" using owns_fd_unique by metis
    with q(1) c(1) s show "q \<in> s" by fastforce
  qed
  with s show ?thesis by simp
qed

lemma isProgFdShared_iff:
  assumes inv: "client_inv kv l k"
  shows "isProgFdShared l (nn_Name pod) (nn_Namespace pod) = Inr False \<longleftrightarrow>
    attached_pods l (pod_ident (pod_name pod)) = {pod_name pod}"
proof (cases "podToProgMap l Ingress (pod_name pod)")
  case None
  then have "podToProgMap l Egress (pod_name pod) = None"
    using caches_okD(4) [OF client_invD(1) [OF inv]] by blast
  with None have "isProgFdShared l (nn_Name pod) (nn_Namespace pod) \<noteq> Inr False"
    by (simp add: isProgFdShared_def Let_def flip: pod_name_def)
  moreover have "pod_name pod \<notin> attached_pods l (pod_ident (pod_name pod))"
    using None by (simp add: attached_pods_def)
  ultimately show ?thesis by blast
next
  case (Some fd)
  let ?s = "attached_pods l (pod_ident (pod_name pod))"
  note s = attached_pods_fd [OF inv Some]
  have "finite ?s" by (rule caches_okD(2) [OF client_invD(1) [OF inv] s])
  moreover have "pod_name pod \<in> ?s" using Some by (simp add: attached_pods_def)
  ultimately have "card ?s > 1 \<longleftrightarrow> ?s \<noteq> {pod_name pod}"
    by (metis card_1_singletonE card_gt_0_iff empty_iff less_one linorder_neqE_nat singletonD card.empty is_singletonI' is_singleton_altdef)
  with Some s show ?thesis by (simp add: isProgFdShared_def Let_def flip: pod_name_def)
qed

definition forget_pod :: "NamespacedName \<Rightarrow> int \<Rightarrow> bpfClient \<Rightarrow> bpfClient" where
  "forget_pod pod now l =
     (let l2 = deletePodFromEgressProgPodCaches (nn_Name pod) (nn_Namespace pod)
                 (deletePodFromIngressProgPodCaches (nn_Name pod) (nn_Namespace pod) l)
      in l2\<lparr>deletedPods := (deletedPods l2)(pod_name pod \<mapsto> now)\<rparr>)"

lemma DeleteBPFProbes_unfold:
  "DeleteBPFProbes env now pod i l k =
     (if isProgFdShared l (nn_Name pod) (nn_Namespace pod) = Inr False
      then deleteBPFProbes env i (forget_pod pod now l) k else (forget_pod pod now l, k))"
  by (simp add: DeleteBPFProbes_def forget_pod_def Let_def pod_name_def)

definition drop_pod :: "string \<Rightarrow> string set option \<Rightarrow> string set option" where
  "drop_pod p x = (case x of None \<Rightarrow> None | Some s \<Rightarrow> if s - {p} = {} then None else Some (s - {p}))"

lemma delete_pod_caches_fields:
  assumes c: "\<And>fd s. progToPodsMap l d fd = Some s \<Longrightarrow> s \<noteq> {} \<and> (p \<in> s \<longrightarrow> podToProgMap l d p = Some fd)"
    and p: "p = GetPodNamespacedName n ns"
  shows "podToProgMap (delete_pod_caches d n ns l) = (podToProgMap l)(d := (podToProgMap l d)(p := None))"
    "progToPodsMap (delete_pod_caches d n ns l) = (progToPodsMap l)(d := (\<lambda>fd. drop_pod p (progToPodsMap l d fd)))"
    "deletedPods (delete_pod_caches d n ns l) = deletedPods l"
    "policyEndpointeBPFContext (delete_pod_caches d n ns l) = policyEndpointeBPFContext l"
    "inMemoryMap (delete_pod_caches d n ns l) = inMemoryMap l"
proof -
  show "podToProgMap (delete_pod_caches d n ns l) = (podToProgMap l)(d := (podToProgMap l d)(p := None))"
    by (auto simp: delete_pod_caches_def Let_def p [symmetric] fun_eq_iff split: option.splits)
  have keep: "drop_pod p (progToPodsMap l d fd) = progToPodsMap l d fd" if "podToProgMap l d p \<noteq> Some fd" for fd
    using c [of fd] that by (auto simp: drop_pod_def split: option.splits)
  show "progToPodsMap (delete_pod_caches d n ns l) = (progToPodsMap l)(d := (\<lambda>fd. drop_pod p (progToPodsMap l d fd)))"
  proof (cases "podToProgMap l d p")
    case None
    then have "(\<lambda>fd. drop_pod p (progToPodsMap l d fd)) = progToPodsMap l d" using keep by (auto simp: fun_eq_iff)
    with None show ?thesis by (simp add: delete_pod_caches_def Let_def p [symmetric])
  next
    case (Some x)
    then have "(\<lambda>fd. drop_pod p (progToPodsMap l d fd)) = (progToPodsMap l d)(x := drop_pod p (progToPodsMap l d x))"
      using keep by (auto simp: fun_eq_iff)
    with Some show ?thesis
      by (cases "progToPodsMap l d x")
        (simp_all add: delete_pod_caches_def Let_def p [symmetric] drop_pod_def fun_upd_idem)
  qed
qed (simp_all add: delete_pod_caches_def Let_def split: option.splits)

lemma forget_pod_fields:
  assumes "caches_ok l"
  shows "podToProgMap (forget_pod pod now l) d = (podToProgMap l d)(pod_name pod := None)"
    "progToPodsMap (forget_pod pod now l) d = (\<lambda>fd. drop_pod (pod_name pod) (progToPodsMap l d fd))"
    "deletedPods (forget_pod pod now l) = (deletedPods l)(pod_name pod \<mapsto> now)"
    "policyEndpointeBPFContext (forget_pod pod now l) = policyEndpointeBPFContext l"
    "inMemoryMap (forget_pod pod now l) = inMemoryMap l"
proof -
  let ?p = "pod_name pod"
  let ?l1 = "delete_pod_caches Ingress (nn_Name pod) (nn_Namespace pod) l"
  have c: "progToPodsMap l d fd = Some s \<Longrightarrow> s \<noteq> {} \<and> (?p \<in> s \<longrightarrow> podToProgMap l d ?p = Some fd)" for d fd s
    using caches_okD [OF assms] by blast
  note f1 = delete_pod_caches_fields [of l Ingress ?p, OF c pod_name_def]
  have c2: "progToPodsMap ?l1 Egress fd = Some s \<Longrightarrow> s \<noteq> {} \<and> (?p \<in> s \<longrightarrow> podToProgMap ?l1 Egress ?p = Some fd)" for fd s
    using c [of Egress] by (simp add: f1)
  note f2 = delete_pod_caches_fields [of ?l1 Egress ?p, OF c2 pod_name_def]
  have u: "forget_pod pod now l = (delete_pod_caches Egress (nn_Name pod) (nn_Namespace pod) ?l1)
      \<lparr>deletedPods := (deletedPods l)(?p \<mapsto> now)\<rparr>"
    by (simp add: forget_pod_def Let_def deletePodFromEgressProgPodCaches_def
        deletePodFromIngressProgPodCaches_def f1(3) f2(3))
  show "podToProgMap (forget_pod pod now l) d = (podToProgMap l d)(?p := None)"
    unfolding u by (cases d) (simp_all add: f1(1) f2(1))
  show "progToPodsMap (forget_pod pod now l) d = (\<lambda>fd. drop_pod ?p (progToPodsMap l d fd))"
    unfolding u using f1(2) f2(2) by (cases d) simp_all
  show "deletedPods (forget_pod pod now l) = (deletedPods l)(?p \<mapsto> now)"
    unfolding u by simp
  show "policyEndpointeBPFContext (forget_pod pod now l) = policyEndpointeBPFContext l"
    unfolding u by (simp add: f1(4) f2(4))
  show "inMemoryMap (forget_pod pod now l) = inMemoryMap l"
    unfolding u by (simp add: f1(5) f2(5))
qed

lemma forget_pod_inv:
  assumes inv: "client_inv kv l k" shows "client_inv kv (forget_pod pod now l) k"
proof -
  note f = forget_pod_fields [OF client_invD(1) [OF inv]]
  have o: "owns_fd (forget_pod pod now l) = owns_fd l" "owns_map (forget_pod pod now l) = owns_map l"
    by (auto simp: fun_eq_iff owns_fd_def owns_map_def f)
  note c = caches_okD [OF client_invD(1) [OF inv]]
  have "caches_ok (forget_pod pod now l)"
    unfolding caches_ok_def f
  proof (intro conjI allI impI)
    fix d p fd
    show "((podToProgMap l d)(pod_name pod := None)) p = Some fd \<longleftrightarrow>
      (\<exists>s. drop_pod (pod_name pod) (progToPodsMap l d fd) = Some s \<and> p \<in> s)"
      using c(1) [of d p fd] by (auto simp: drop_pod_def split: option.splits if_splits)
  next
    fix d fd s assume "drop_pod (pod_name pod) (progToPodsMap l d fd) = Some s"
    then show "finite s" "s \<noteq> {}" using c(2) [of d fd] by (auto simp: drop_pod_def split: option.splits if_splits)
  next
    fix p show "((podToProgMap l Ingress)(pod_name pod := None)) p = None \<longleftrightarrow>
       ((podToProgMap l Egress)(pod_name pod := None)) p = None" using c(4) by simp
  next
    fix d p assume "((deletedPods l)(pod_name pod \<mapsto> now)) p \<noteq> None"
    then show "((podToProgMap l d)(pod_name pod := None)) p = None" using c(5) by (auto split: if_splits)
  qed
  with inv show ?thesis
    unfolding client_inv_def pods_ok_def progs_ok_def shadows_ok_def o f by (auto split: if_splits)
qed

lemma keeps_mono: "keeps kv I F k k' \<Longrightarrow> I \<subseteq> J \<Longrightarrow> F \<subseteq> G \<Longrightarrow> keeps kv J G k k'"
  unfolding keeps_def by blast

lemma deleteBPFProgramAndMaps_keeps:
  assumes laws: "env_laws env kv" and ok: "progs_ok kv l k0"
  shows "keeps kv {MapID b | n b. owns_map l i d n b} {fd. owns_fd l i d fd} k (deleteBPFProgramAndMaps env i d l k)"
proof (cases "prog_fd (context_of l i) d = 0")
  case True
  then show ?thesis by (simp add: deleteBPFProgramAndMaps_def Let_def prog_fd_def split: prod.splits)
next
  case False
  then obtain c where c: "policyEndpointeBPFContext l i = Some c"
    by (auto simp: context_of_def prog_fd_def zero_context_def zero_data_def split: option.splits)
  let ?info = "pgmInfo c d"
  have own: "owns_fd l i d (ProgFD (Program ?info))"
    using False c by (simp add: owns_fd_def prog_fd_def context_of_def)
  have m: "\<exists>n. owns_map l i d n (map_at ?info n')" if n: "n' \<in> policy_maps d" for n'
  proof -
    obtain b where b: "owns_map l i d n' b" using progs_okD(3) [OF ok own n] by blast
    then have "map_at ?info n' = b" using c by (auto simp: owns_map_def map_at_def)
    with b show ?thesis by blast
  qed
  have up: "keeps kv {MapID b} {} k (snd (UnPinMap env b pin k))" for b pin k
    using env_lawsD(3) [OF laws] unfolding tc_laws_def by (metis prod.collapse)
  have un: "keeps kv {} {ProgFD p} k (snd (UnPinProg env p pin k))" for p pin k
    using env_lawsD(3) [OF laws] unfolding tc_laws_def by (metis prod.collapse)
  let ?I = "{MapID b | n b. owns_map l i d n b}" and ?F = "{fd. owns_fd l i d fd}"
  have um: "n' \<in> policy_maps d \<Longrightarrow> keeps kv ?I ?F k (snd (UnPinMap env (map_at ?info n') pin k))" for n' pin k
    by (rule keeps_mono [OF up]) (use m in blast)+
  have uf: "keeps kv ?I ?F k (snd (UnPinProg env (Program ?info) pin k))" for pin k
    by (rule keeps_mono [OF un]) (use own in auto)
  have tr: "keeps kv ?I ?F a b \<Longrightarrow> keeps kv ?I ?F b c' \<Longrightarrow> keeps kv ?I ?F a c'" for a b c'
    using keeps_trans [of kv ?I ?F a b ?I ?F c'] by (simp only: Un_absorb)
  have names: "mapName PolicyMap d \<in> policy_maps d" "mapName ClusterPolicyMap d \<in> policy_maps d"
    "podStateMapName d \<in> policy_maps d" by (simp_all add: policy_maps_def)
  have nz: "ProgFD (Program ?info) \<noteq> 0" "context_of l i = c"
    using False c by (simp_all add: prog_fd_def context_of_def)
  show ?thesis
    unfolding deleteBPFProgramAndMaps_def Let_def nz(2) using nz(1)
    by (simp add: case_prod_unfold) (intro tr [OF tr [OF tr [OF uf um] um] um] names)
qed

lemma deleteBPFProbes_inv:
  assumes laws: "env_laws env kv" and inv: "client_inv kv l k" and none: "attached_pods l i = {}"
    and run: "deleteBPFProbes env i l k = (l', k')"
  shows "client_inv kv l' k'"
proof -
  let ?l = "l\<lparr>inMemoryMap := (\<lambda>kd d. (inMemoryMap l kd d)(i := None)),
    policyEndpointeBPFContext := (policyEndpointeBPFContext l)(i := None)\<rparr>"
  let ?k1 = "deleteBPFProgramAndMaps env i Ingress l k"
  have l': "l' = ?l" and k': "k' = deleteBPFProgramAndMaps env i Egress l ?k1"
    using run by (simp_all add: deleteBPFProbes_def Let_def)
  note ok = client_invD(3) [OF inv]
  let ?I = "\<lambda>d. {MapID b | n b. owns_map l i d n b}" and ?F = "\<lambda>d. {fd. owns_fd l i d fd}"
  have keep: "keeps kv (?I Ingress \<union> ?I Egress) (?F Ingress \<union> ?F Egress) k k'"
    unfolding k' by (rule keeps_trans [OF deleteBPFProgramAndMaps_keeps [OF laws ok]
        deleteBPFProgramAndMaps_keeps [OF laws ok]])
  have of: "owns_fd ?l j d fd \<longleftrightarrow> j \<noteq> i \<and> owns_fd l j d fd" for j d fd by (auto simp: owns_fd_def)
  have om: "owns_map ?l j d n b \<longleftrightarrow> j \<noteq> i \<and> owns_map l j d n b" for j d n b by (auto simp: owns_map_def)
  have pk: "progs_ok kv ?l k"
    unfolding progs_ok_def of om
    by (intro conjI allI impI; elim conjE; use progs_okD [OF ok] in metis)
  have sk: "shadows_ok kv ?l k"
    using client_invD(4) [OF inv] unfolding shadows_ok_def of om by (auto split: if_splits)
  have nI: "owns_map ?l j d n b \<Longrightarrow> MapID b \<notin> ?I Ingress \<union> ?I Egress" for j d n b
    using progs_okD(5) [OF ok] unfolding om by blast
  have nF: "owns_fd ?l j d fd \<Longrightarrow> fd \<notin> ?F Ingress \<union> ?F Egress" for j d fd
    using progs_okD(2) [OF ok] unfolding of by blast
  have "progs_ok kv ?l k'" by (rule progs_ok_keeps [OF pk keep nI nF])
  moreover have "shadows_ok kv ?l k'" by (rule shadows_ok_keeps [OF sk pk keep nI])
  moreover have "caches_ok ?l" using client_invD(1) [OF inv] by (simp add: caches_ok_def)
  moreover have "pods_ok ?l"
    unfolding pods_ok_def
  proof (intro allI impI)
    fix d p fd assume "podToProgMap ?l d p = Some fd"
    then have p: "podToProgMap l d p = Some fd" by simp
    then have "podToProgMap l Ingress p \<noteq> None"
      using caches_okD(4) [OF client_invD(1) [OF inv], of p] by (cases d) auto
    with none have "pod_ident p \<noteq> i" unfolding attached_pods_def by blast
    with p client_invD(2) [OF inv] show "owns_fd ?l (pod_ident p) d fd" unfolding of by (simp add: pods_ok_def)
  qed
  ultimately show ?thesis unfolding l' client_inv_def by blast
qed

lemma forget_attached:
  assumes "client_inv kv l k"
  shows "attached_pods (forget_pod pod now l) i = attached_pods l i - {pod_name pod}"
  by (auto simp: attached_pods_def forget_pod_fields(1) [OF client_invD(1) [OF assms]])

lemma DeleteBPFProbes_inv:
  assumes laws: "env_laws env kv" and inv: "client_inv kv l k" and id: "pod_ident (pod_name pod) = i"
    and run: "DeleteBPFProbes env now pod i l k = (l', k')"
  shows "client_inv kv l' k'"
proof (cases "isProgFdShared l (nn_Name pod) (nn_Namespace pod) = Inr False")
  case True
  with isProgFdShared_iff [OF inv] id have "attached_pods l i = {pod_name pod}" by simp
  with forget_attached [OF inv] have "attached_pods (forget_pod pod now l) i = {}" by simp
  with True run show ?thesis
    using deleteBPFProbes_inv [OF laws forget_pod_inv [OF inv]] by (simp add: DeleteBPFProbes_unfold)
next
  case False
  with run forget_pod_inv [OF inv] show ?thesis by (auto simp: DeleteBPFProbes_unfold)
qed

section \<open>Writing the maps\<close>

lemma BulkRefresh_bpfMap:
  assumes "sdk_laws sdk view" "in_sync view m k" "BulkRefresh sdk ordA ordC new m k = (r, m', k')"
  shows "bpfMap m' = bpfMap m"
  using assms(3)
proof (cases rule: BulkRefresh_cases)
  case (failed e)
  with apply_updates_spec [OF assms(1) failed(2) assms(2)] show ?thesis by simp
next
  case (updated m1 k1)
  note u = apply_updates_spec [OF assms(1) updated(1) assms(2)]
  with apply_deletes_spec [OF assms(1) updated(2) conjunct1 [OF u]] show ?thesis by simp
qed

lemma same_ids_refl [simp]: "same_ids kv k k"
  by (simp add: same_ids_def)

lemma same_ids_trans: "same_ids kv k k1 \<Longrightarrow> same_ids kv k1 k2 \<Longrightarrow> same_ids kv k k2"
  by (auto simp: same_ids_def)

lemma apply_updates_ids:
  assumes "ids_laws env kv" "apply_updates (map_api env) xs m k = (r, m', k')" shows "same_ids kv k k'"
  using assms(2)
proof (induction xs arbitrary: m k)
  case (Cons x xs)
  obtain key v where x: "x = (key, v)" by force
  obtain q k1 where q: "UpdateMapEntry (map_api env) (bpfMap m) key v k = (q, k1)" by force
  then have "same_ids kv k k1" using assms(1) unfolding ids_laws_def by metis
  with Cons q x show ?case by (cases q) (auto split: if_splits intro: same_ids_trans)
qed simp

lemma apply_deletes_ids:
  assumes "ids_laws env kv" "apply_deletes (map_api env) xs m k = (r, m', k')" shows "same_ids kv k k'"
  using assms(2)
proof (induction xs arbitrary: m k)
  case (Cons key xs)
  obtain q k1 where q: "DeleteMapEntry (map_api env) (bpfMap m) key k = (q, k1)" by force
  then have "same_ids kv k k1" using assms(1) unfolding ids_laws_def by metis
  with Cons q show ?case by (cases q) (auto split: if_splits intro: same_ids_trans)
qed simp

lemma BulkRefresh_ids:
  assumes "ids_laws env kv" "BulkRefresh (map_api env) ordA ordC new m k = (r, m', k')" shows "same_ids kv k k'"
  using assms(2)
proof (cases rule: BulkRefresh_cases)
  case (failed e)
  with apply_updates_ids [OF assms(1)] show ?thesis by blast
next
  case (updated m1 k1)
  then show ?thesis
    using same_ids_trans [OF apply_updates_ids [OF assms(1)] apply_deletes_ids [OF assms(1)]] by blast
qed

text \<open>A deletion that fails in a run of the refresh is in the history after it.\<close>

lemma apply_deletes_refused:
  assumes "ids_laws env kv" "apply_deletes (map_api env) xs m k = (None, m', k')"
  shows "Pair (MapID (bpfMap m)) ` refused_deletes (map_api env) (bpfMap m) xs k \<subseteq> kv_refused kv k'"
  using assms(2)
proof (induction xs arbitrary: m k)
  case (Cons key xs)
  obtain q k1 where q: "DeleteMapEntry (map_api env) (bpfMap m) key k = (q, k1)" by force
  then have h: "q \<noteq> None \<Longrightarrow> (MapID (bpfMap m), key) \<in> kv_refused kv k1"
    using assms(1) unfolding ids_laws_def by (metis insertCI)
  show ?case
  proof (cases q)
    case None
    with Cons.prems q have "apply_deletes (map_api env) xs (m\<lparr>contents := AList.delete key (contents m)\<rparr>) k1 = (None, m', k')"
      by (auto split: if_splits)
    from Cons.IH [OF this] None q show ?thesis by simp
  next
    case (Some e)
    with Cons.prems q have a: "apply_deletes (map_api env) xs m k1 = (None, m', k')" by (auto split: if_splits)
    then have "kv_refused kv k1 \<subseteq> kv_refused kv k'" using apply_deletes_ids [OF assms(1)] by (auto simp: same_ids_def)
    with Cons.IH [OF a] h q Some show ?thesis by auto
  qed
qed simp

lemma BulkRefresh_refused:
  assumes "sdk_laws (map_api env) (kv_maps kv)" "ids_laws env kv" "in_sync (kv_maps kv) m k"
    "BulkRefresh (map_api env) ordA ordC new m k = (None, m', k')"
  shows "Pair (MapID (bpfMap m)) ` refused_in (map_api env) ordA ordC new m k \<subseteq> kv_refused kv k'"
  using assms(4)
proof (cases rule: BulkRefresh_cases)
  case (updated m1 k1)
  have "bpfMap m1 = bpfMap m" using apply_updates_spec [OF assms(1) updated(1) assms(3)] by simp
  with apply_deletes_refused [OF assms(2) updated(2)] updated(1) show ?thesis
    by (simp add: refused_in_def to_delete_keys)
qed (use assms(4) in simp)

definition orders_range :: "go_orders \<Rightarrow> bool" where
  "orders_range os \<longleftrightarrow> (\<forall>d. range_order (ordAdd os d) \<and> range_order (ordCur os d))"

text \<open>Rewriting one owned map through its shadow.\<close>

lemma store_shadow_fields [simp]:
  "podToProgMap (store_shadow kd d x l) = podToProgMap l" "progToPodsMap (store_shadow kd d x l) = progToPodsMap l"
  "policyEndpointeBPFContext (store_shadow kd d x l) = policyEndpointeBPFContext l"
  "deletedPods (store_shadow kd d x l) = deletedPods l" "fwRuleProcessor (store_shadow kd d x l) = fwRuleProcessor l"
  "inMemoryMap (store_shadow kd d x l) = (inMemoryMap l)(kd := (inMemoryMap l kd)(d := x))"
  by (simp_all add: store_shadow_def)

lemma mapName_inject: "mapName kd d = mapName kd' d \<Longrightarrow> kd = kd'"
  by (cases kd; cases kd'; cases d) (simp_all add: name_defs)

lemma mapName_policy [simp]: "mapName kd d \<in> policy_maps d"
  by (cases kd) (simp_all add: policy_maps_def)

lemma shadow_write_inv:
  assumes inv: "client_inv kv l k" and own: "owns_map l i d (mapName kd d) (bpfMap m')" "\<exists>fd. owns_fd l i d fd"
    and sync: "in_sync (kv_maps kv) m' k'" and ids: "same_ids kv k k'"
    and others: "\<And>j. j \<noteq> MapID (bpfMap m') \<Longrightarrow> kv_maps kv k' j = kv_maps kv k j"
  shows "client_inv kv (store_shadow kd d ((inMemoryMap l kd d)(i \<mapsto> m')) l) k'"
proof -
  let ?l = "store_shadow kd d ((inMemoryMap l kd d)(i \<mapsto> m')) l"
  have o: "owns_fd ?l = owns_fd l" "owns_map ?l = owns_map l"
    by (auto simp: fun_eq_iff owns_fd_def owns_map_def)
  note ok = client_invD(3) [OF inv]
  have "shadows_ok kv ?l k'"
    unfolding shadows_ok_def o
  proof (intro allI impI)
    fix kd' d' j m assume a: "inMemoryMap ?l kd' d' j = Some m"
    show "in_sync (kv_maps kv) m k' \<and> owns_map l j d' (mapName kd' d') (bpfMap m) \<and> (\<exists>fd. owns_fd l j d' fd)"
    proof (cases "kd' = kd \<and> d' = d \<and> j = i")
      case True
      with a own sync show ?thesis by simp
    next
      case False
      with a have m: "inMemoryMap l kd' d' j = Some m" by (auto split: if_splits)
      note s = shadows_okD [OF client_invD(4) [OF inv] m]
      have "MapID (bpfMap m) \<noteq> MapID (bpfMap m')"
        using progs_okD(5) [OF ok s(2) own(1)] mapName_inject False by blast
      with others s show ?thesis by (simp add: in_sync_def)
    qed
  qed
  moreover have "progs_ok kv ?l k'"
    using ok ids unfolding progs_ok_def o same_ids_def by simp
  ultimately show ?thesis
    using client_invD(1, 2) [OF inv] by (simp add: client_inv_def caches_ok_def pods_ok_def o)
qed

lemma owned_map_at:
  assumes "client_inv kv l k" "policyEndpointeBPFContext l i = Some c" "prog_fd c d \<noteq> 0" "n \<in> policy_maps d"
  shows "owns_map l i d n (map_at (pgmInfo c d) n)"
proof -
  have "owns_fd l i d (prog_fd c d)" using assms(2, 3) by (simp add: owns_fd_def)
  then obtain b where "owns_map l i d n b" using progs_okD(3) [OF client_invD(3) [OF assms(1)] _ assms(4)] by blast
  moreover from this assms(2) have "map_at (pgmInfo c d) n = b" by (simp add: owns_map_def map_at_def)
  ultimately show ?thesis by simp
qed

text \<open>A kernel map holds the entries it should, and nothing else but entries whose deletion the
  kernel has refused.\<close>

definition map_holds :: "'k kernel_view \<Rightarrow> 'k \<Rightarrow> BpfMap \<Rightarrow> bpf_entries \<Rightarrow> bool" where
  "map_holds kv k b entries \<longleftrightarrow> map_of entries \<subseteq>\<^sub>m kv_maps kv k (MapID b) \<and>
     (\<forall>key \<in> dom (kv_maps kv k (MapID b)). key \<in> dom (map_of entries) \<or> (MapID b, key) \<in> kv_refused kv k)"

lemma map_holds_refresh:
  assumes "map_of entries \<subseteq>\<^sub>m kv_maps kv k (MapID b)" "dom (kv_maps kv k (MapID b)) - dom (map_of entries) = S"
    "Pair (MapID b) ` S \<subseteq> kv_refused kv k"
  shows "map_holds kv k b entries"
  using assms unfolding map_holds_def by (metis DiffI image_subset_iff)

lemma map_holds_mono:
  "map_holds kv k b entries \<Longrightarrow> kv_maps kv k' (MapID b) = kv_maps kv k (MapID b) \<Longrightarrow>
     kv_refused kv k \<subseteq> kv_refused kv k' \<Longrightarrow> map_holds kv k' b entries"
  unfolding map_holds_def by auto

lemma map_holds_exact:
  assumes "map_holds kv k b entries" and none: "\<And>key. (MapID b, key) \<notin> kv_refused kv k"
  shows "kv_maps kv k (MapID b) = map_of entries"
proof
  fix x
  have "x \<in> dom (kv_maps kv k (MapID b)) \<Longrightarrow> x \<in> dom (map_of entries)"
    using assms(1) none [of x] unfolding map_holds_def by blast
  moreover have "x \<in> dom (map_of entries) \<Longrightarrow> map_of entries x = kv_maps kv k (MapID b) x"
    using assms(1) unfolding map_holds_def map_le_def by blast
  ultimately show "kv_maps kv k (MapID b) x = map_of entries x"
    by (metis domIff)
qed

text \<open>Updating the map of one direction keeps the invariant; when it reports no error the kernel
  map holds the entries.\<close>

lemma shadowMap_sync:
  assumes laws: "env_laws env kv" and inv: "client_inv kv l k" and ob: "owns_map l i d (mapName kd d) b"
    and p: "shadowMapForLocked (map_api env) (inMemoryMap l kd d) i b k = Inr (m, cache)"
  shows "in_sync (kv_maps kv) m k \<and> bpfMap m = b \<and> (\<forall>x. cache(i \<mapsto> x) = (inMemoryMap l kd d)(i \<mapsto> x))"
proof (cases "inMemoryMap l kd d i")
  case None
  with p New_in_sync [OF env_lawsD(1) [OF laws], of b k] show ?thesis
    by (auto simp: shadowMapForLocked_def split: sum.splits failure.splits)
next
  case (Some m0)
  note s = shadows_okD [OF client_invD(4) [OF inv] Some]
  from Some p have "m = m0" "cache = inMemoryMap l kd d" by (auto simp: shadowMapForLocked_def)
  with s ob owns_map_unique show ?thesis by blast
qed

lemma update_map_spec:
  assumes laws: "env_laws env kv" and inv: "client_inv kv l k" and os: "orders_range os"
    and wf: "go_map_wf entries" and c: "policyEndpointeBPFContext l i = Some c"
    and run: "update_map env os kd d i (pgmInfo c d) entries l k = (r, l', k')"
  shows "client_inv kv l' k' \<and> policyEndpointeBPFContext l' = policyEndpointeBPFContext l \<and> same_caches l l' \<and>
    (\<forall>j. j \<noteq> MapID (map_at (pgmInfo c d) (mapName kd d)) \<longrightarrow> kv_maps kv k' j = kv_maps kv k j) \<and>
    (r = Inr None \<longrightarrow> prog_fd c d \<noteq> 0 \<longrightarrow>
       map_holds kv k' (map_at (pgmInfo c d) (mapName kd d)) entries)"
proof (cases "prog_fd c d = 0")
  case True
  with run inv show ?thesis by (simp add: update_map_def prog_fd_def)
next
  case False
  let ?b = "map_at (pgmInfo c d) (mapName kd d)"
  have fd: "owns_fd l i d (prog_fd c d)" using c False by (simp add: owns_fd_def)
  have ob: "owns_map l i d (mapName kd d) ?b" by (rule owned_map_at [OF inv c False mapName_policy])
  let ?q = "shadowMapForLocked (map_api env) (inMemoryMap l kd d) i ?b k"
  show ?thesis
  proof (cases ?q)
    case (Inl e)
    with run False inv show ?thesis by (cases e) (auto simp: update_map_def prog_fd_def)
  next
    case (Inr p)
    obtain m cache where p: "?q = Inr (m, cache)" using Inr by (cases p) auto
    note sm = shadowMap_sync [OF laws inv ob p]
    have m: "in_sync (kv_maps kv) m k" "bpfMap m = ?b" and cache: "cache(i \<mapsto> x) = (inMemoryMap l kd d)(i \<mapsto> x)" for x
      using sm by simp_all
    obtain q m' k1 where q: "BulkRefresh (map_api env) (ordAdd os d) (ordCur os d) entries m k = (q, m', k1)"
      using prod_cases3 by blast
    from run False p q have k1: "k1 = k'" and l': "l' = store_shadow kd d ((inMemoryMap l kd d)(i \<mapsto> m')) l"
      and r: "r = Inr None \<Longrightarrow> q = None"
      by (auto simp: update_map_def prog_fd_def refreshShadowMap_def cache split: option.splits failure.splits)
    have ro: "range_order (ordAdd os d)" "range_order (ordCur os d)" using os by (simp_all add: orders_range_def)
    note sync = BulkRefresh_sync [OF env_lawsD(1) [OF laws] m(1) ro wf q]
    have b': "bpfMap m' = ?b" using BulkRefresh_bpfMap [OF env_lawsD(1) [OF laws] m(1) q] m(2) by simp
    have "client_inv kv l' k'"
      unfolding l' by (rule shadow_write_inv [OF inv]) (use ob fd sync BulkRefresh_ids [OF env_lawsD(5) [OF laws] q] b' m(2) k1 in auto)
    moreover have "map_holds kv k' ?b entries" if "r = Inr None"
      by (rule map_holds_refresh)
        (use BulkRefresh_exact [OF env_lawsD(1) [OF laws] m(1) ro wf q [unfolded r [OF that]]]
          BulkRefresh_refused [OF env_lawsD(1, 5) [OF laws] m(1) q [unfolded r [OF that]]] in \<open>simp_all add: m(2) k1\<close>)
    moreover have "\<forall>j. j \<noteq> MapID ?b \<longrightarrow> kv_maps kv k' j = kv_maps kv k j" using sync m(2) k1 by simp
    ultimately show ?thesis unfolding l' by (simp add: same_caches_def)
  qed
qed

lemma errors_Join_Nil [simp]: "errors_Join [a, b] = [] \<longleftrightarrow> a = None \<and> b = None"
  by (cases a; cases b) (simp_all add: errors_Join_def List.map_filter_def)

lemma update_map_ids:
  assumes "ids_laws env kv" "update_map env os kd d i pg entries l k = (r, l', k')" shows "same_ids kv k k'"
proof -
  have "refreshShadowMap (map_api env) A C n m s k = (x, y, k1) \<Longrightarrow> same_ids kv k k1" for A C n m s x y k1
    using BulkRefresh_ids [OF assms(1)]
    by (auto simp: refreshShadowMap_def split: prod.splits option.splits failure.splits)
  with assms(2) show ?thesis
    by (auto simp: update_map_def split: if_splits sum.splits failure.splits prod.splits option.splits)
qed

lemma update_both_ids:
  assumes "ids_laws env kv" "update_both env os kd i entries l k = (r, l', k')" shows "same_ids kv k k'"
  using assms(2) update_map_ids [OF assms(1)] same_ids_trans
  by (fastforce simp: update_both_def split: option.splits prod.splits sum.splits)

lemma update_both_spec:
  assumes laws: "env_laws env kv" and inv: "client_inv kv l k" and os: "orders_range os"
    and wf: "\<And>d. go_map_wf (entries d)" and run: "update_both env os kd i entries l k = (r, l', k')"
  shows "client_inv kv l' k' \<and> same_caches l l' \<and> policyEndpointeBPFContext l' = policyEndpointeBPFContext l \<and>
    (r = Inr [] \<longrightarrow> (\<exists>c. policyEndpointeBPFContext l i = Some c \<and>
       (\<forall>d. prog_fd c d \<noteq> 0 \<longrightarrow> map_holds kv k' (map_at (pgmInfo c d) (mapName kd d)) (entries d))))"
proof (cases "policyEndpointeBPFContext l i")
  case None
  with run inv show ?thesis by (auto simp: update_both_def)
next
  case (Some c)
  obtain r1 l1 k1 where u1: "update_map env os kd Ingress i (pgmInfo c Ingress) (entries Ingress) l k = (r1, l1, k1)"
    using prod_cases3 by blast
  note s1 = update_map_spec [OF laws inv os wf Some u1]
  show ?thesis
  proof (cases r1)
    case (Inl p)
    with run Some u1 s1 show ?thesis by (auto simp: update_both_def)
  next
    case (Inr e1)
    have c1: "policyEndpointeBPFContext l1 i = Some c" using s1 Some by simp
    obtain r2 l2 k2 where u2: "update_map env os kd Egress i (pgmInfo c Egress) (entries Egress) l1 k1 = (r2, l2, k2)"
      using prod_cases3 by blast
    note s2 = update_map_spec [OF laws conjunct1 [OF s1] os wf c1 u2]
    have l': "l' = l2" "k' = k2" and r: "r = Inr [] \<Longrightarrow> r1 = Inr None \<and> r2 = Inr None"
      using run Some u1 Inr u2 by (auto simp: update_both_def split: sum.splits)
    have "map_holds kv k' (map_at (pgmInfo c d) (mapName kd d)) (entries d)"
      if r0: "r = Inr []" and fd: "prog_fd c d \<noteq> 0" for d
    proof (cases d)
      case Egress
      with s2 r [OF r0] fd show ?thesis unfolding l' by blast
    next
      case Ingress
      let ?b = "\<lambda>d. map_at (pgmInfo c d) (mapName kd d)"
      have "kv_maps kv k2 (MapID (?b Ingress)) = kv_maps kv k1 (MapID (?b Ingress))"
      proof (cases "prog_fd c Egress = 0")
        case True
        with u2 show ?thesis by (simp add: update_map_def prog_fd_def)
      next
        case False
        have "owns_map l i e (mapName kd e) (?b e)" for e
          by (rule owned_map_at [OF inv Some _ mapName_policy]) (use False fd Ingress in \<open>cases e; simp\<close>)
        with progs_okD(5) [OF client_invD(3) [OF inv]] have "MapID (?b Ingress) \<noteq> MapID (?b Egress)"
          by (metis dir.distinct(1))
        with s2 show ?thesis by blast
      qed
      moreover have "kv_refused kv k1 \<subseteq> kv_refused kv k2"
        using update_map_ids [OF env_lawsD(5) [OF laws] u2] by (simp add: same_ids_def)
      moreover have "map_holds kv k1 (?b Ingress) (entries Ingress)" using s1 r [OF r0] fd Ingress by blast
      ultimately show ?thesis unfolding l' Ingress by (rule map_holds_mono [rotated])
    qed
    with s1 s2 Some show ?thesis unfolding l' by (auto intro: same_caches_trans)
  qed
qed

text \<open>The entries the rule processor returns have distinct keys.\<close>

lemma ComputeMapEntries_wf:
  assumes "ComputeMapEntriesFromEndpointRules os f rules = Inr m" shows "go_map_wf m"
proof -
  have step: "encode_step os f x a = Inr b \<Longrightarrow> go_map_wf a \<Longrightarrow> go_map_wf b" for x a b
    by (cases x) (auto simp: encode_step_def Let_def split: option.splits)
  from assms obtain a xs where "fold_panic (encode_step os f) xs [a] = Inr m"
    by (auto simp: ComputeMapEntriesFromEndpointRules_def Let_def split: option.splits sum.splits)
  from fold_panic_invariant [of xs go_map_wf, OF _ _ this] step show ?thesis
    by (simp add: go_map_wf_def)
qed

lemma ComputeClusterPolicyMapEntries_wf:
  assumes "ComputeClusterPolicyMapEntriesFromEndpointRules os f rules = Inr m" shows "go_map_wf m"
proof -
  have step: "cp_encode_step os f x a = Inr b \<Longrightarrow> go_map_wf a \<Longrightarrow> go_map_wf b" for x a b
    by (cases x) (auto simp: cp_encode_step_def Let_def split: option.splits)
  from assms obtain a xs where "fold_panic (cp_encode_step os f) xs [a] = Inr m"
    by (auto simp: ComputeClusterPolicyMapEntriesFromEndpointRules_def Let_def split: option.splits sum.splits)
  from fold_panic_invariant [of xs go_map_wf, OF _ _ this] step show ?thesis
    by (simp add: go_map_wf_def)
qed

lemma UpdateEbpfMaps_spec:
  assumes laws: "env_laws env kv" and inv: "client_inv kv l k" and os: "orders_range os"
    and run: "UpdateEbpfMaps env os i ing eg l k = (r, l', k')"
  shows "client_inv kv l' k' \<and> same_caches l l' \<and> policyEndpointeBPFContext l' = policyEndpointeBPFContext l \<and>
    (r = Inr [] \<longrightarrow> (\<exists>c. policyEndpointeBPFContext l i = Some c \<and>
       (\<forall>d. prog_fd c d \<noteq> 0 \<longrightarrow> (\<exists>m.
          ComputeMapEntriesFromEndpointRules (ordFw os d) (fwRuleProcessor l) (case d of Ingress \<Rightarrow> ing | Egress \<Rightarrow> eg) = Inr m \<and>
          map_holds kv k' (map_at (pgmInfo c d) (mapName PolicyMap d)) m))))"
proof -
  let ?c = "\<lambda>d. ComputeMapEntriesFromEndpointRules (ordFw os d) (fwRuleProcessor l) (case d of Ingress \<Rightarrow> ing | Egress \<Rightarrow> eg)"
  show ?thesis
  proof (cases "\<exists>e d. ?c d = Inl e")
    case True
    then obtain e d where "?c d = Inl e" by blast
    with run have "l' = l \<and> k' = k \<and> r \<noteq> Inr []"
      by (cases d) (auto simp: UpdateEbpfMaps_def split: sum.splits)
    with inv show ?thesis by simp
  next
    case False
    then have "\<forall>d. \<exists>m. ?c d = Inr m" by (metis sum.exhaust)
    then obtain m where m: "\<And>d. ?c d = Inr (m d)" by metis
    have e: "(\<lambda>d. case d of Ingress \<Rightarrow> m Ingress | Egress \<Rightarrow> m Egress) = m" by (auto simp: fun_eq_iff split: dir.splits)
    have u: "update_both env os PolicyMap i m l k = (r, l', k')"
      using run m [of Ingress] m [of Egress] by (simp add: UpdateEbpfMaps_def e)
    from update_both_spec [OF laws inv os ComputeMapEntries_wf [OF m] u] m show ?thesis by blast
  qed
qed

lemma UpdateClusterPolicyEbpfMaps_spec:
  assumes laws: "env_laws env kv" and inv: "client_inv kv l k" and os: "orders_range os"
    and run: "UpdateClusterPolicyEbpfMaps env os i ing eg l k = (r, l', k')"
  shows "client_inv kv l' k' \<and> same_caches l l' \<and> policyEndpointeBPFContext l' = policyEndpointeBPFContext l \<and>
    (r = Inr [] \<longrightarrow> (\<exists>c. policyEndpointeBPFContext l i = Some c \<and>
       (\<forall>d. prog_fd c d \<noteq> 0 \<longrightarrow> (\<exists>m.
          ComputeClusterPolicyMapEntriesFromEndpointRules (ordCp os d) (fwRuleProcessor l) (case d of Ingress \<Rightarrow> ing | Egress \<Rightarrow> eg) = Inr m \<and>
          map_holds kv k' (map_at (pgmInfo c d) (mapName ClusterPolicyMap d)) m))))"
proof -
  let ?c = "\<lambda>d. ComputeClusterPolicyMapEntriesFromEndpointRules (ordCp os d) (fwRuleProcessor l) (case d of Ingress \<Rightarrow> ing | Egress \<Rightarrow> eg)"
  show ?thesis
  proof (cases "\<exists>e d. ?c d = Inl e")
    case True
    then obtain e d where "?c d = Inl e" by blast
    with run have "l' = l \<and> k' = k \<and> r \<noteq> Inr []"
      by (cases d) (auto simp: UpdateClusterPolicyEbpfMaps_def split: sum.splits)
    with inv show ?thesis by simp
  next
    case False
    then have "\<forall>d. \<exists>m. ?c d = Inr m" by (metis sum.exhaust)
    then obtain m where m: "\<And>d. ?c d = Inr (m d)" by metis
    have e: "(\<lambda>d. case d of Ingress \<Rightarrow> m Ingress | Egress \<Rightarrow> m Egress) = m" by (auto simp: fun_eq_iff split: dir.splits)
    have u: "update_both env os ClusterPolicyMap i m l k = (r, l', k')"
      using run m [of Ingress] m [of Egress] by (simp add: UpdateClusterPolicyEbpfMaps_def e)
    from update_both_spec [OF laws inv os ComputeClusterPolicyMapEntries_wf [OF m] u] m show ?thesis by blast
  qed
qed

lemma podStateMapName_policy [simp]: "podStateMapName d \<in> policy_maps d"
  by (simp add: policy_maps_def)

lemma podStateMapName_neq [simp]: "podStateMapName d \<noteq> mapName kd d"
  by (cases d; cases kd) (simp_all add: name_defs)

text \<open>Writing a pod state map never disturbs a policy map.\<close>

lemma state_write_inv:
  assumes inv: "client_inv kv l k" and own: "owns_map l i d (podStateMapName d) b" and ids: "same_ids kv k k'"
    and others: "\<And>j. j \<noteq> MapID b \<Longrightarrow> kv_maps kv k' j = kv_maps kv k j"
  shows "client_inv kv l k'"
proof -
  note ok = client_invD(3) [OF inv]
  have "shadows_ok kv l k'"
    unfolding shadows_ok_def
  proof (intro allI impI)
    fix kd e j m assume m: "inMemoryMap l kd e j = Some m"
    note s = shadows_okD [OF client_invD(4) [OF inv] m]
    have "MapID (bpfMap m) \<noteq> MapID b" using progs_okD(5) [OF ok s(2) own] podStateMapName_neq by metis
    with others s show "in_sync (kv_maps kv) m k' \<and> owns_map l j e (mapName kd e) (bpfMap m) \<and> (\<exists>fd. owns_fd l j e fd)"
      by (simp add: in_sync_def)
  qed
  moreover have "progs_ok kv l k'" using ok ids by (simp add: progs_ok_def same_ids_def)
  ultimately show ?thesis using client_invD(1, 2) [OF inv] by (simp add: client_inv_def)
qed

lemma state_calls:
  assumes "env_laws env kv"
  shows "state_call kv (CreateMapEntry env) (\<lambda>v x. case x of None \<Rightarrow> v | Some w \<Rightarrow> w)"
    and "state_call kv (CreateUpdateMapEntry env) (\<lambda>v x. v)"
  using env_lawsD(4) [OF assms] by (simp_all add: state_laws_def)

lemma write_state_spec:
  assumes inv: "client_inv kv l k" and call: "state_call kv call f" and c: "policyEndpointeBPFContext l i = Some c"
    and run: "write_state call what enabled d c key state k = (r, k')"
  shows "client_inv kv l k' \<and>
    (\<forall>j. j \<noteq> MapID (map_at (pgmInfo c d) (podStateMapName d)) \<longrightarrow> kv_maps kv k' j = kv_maps kv k j) \<and>
    (r = None \<longrightarrow> enabled \<longrightarrow> prog_fd c d \<noteq> 0 \<longrightarrow>
       kv_maps kv k' (MapID (map_at (pgmInfo c d) (podStateMapName d))) (pod_state_key key) =
         Some (f (pod_state_val state) (kv_maps kv k (MapID (map_at (pgmInfo c d) (podStateMapName d))) (pod_state_key key))))"
proof (cases "enabled \<and> prog_fd c d \<noteq> 0")
  case False
  with run inv show ?thesis by (auto simp: write_state_def)
next
  case True
  let ?b = "map_at (pgmInfo c d) (podStateMapName d)"
  have own: "owns_map l i d (podStateMapName d) ?b" by (rule owned_map_at [OF inv c]) (use True in simp_all)
  obtain q k1 where q: "call ?b (pod_state_key key) (pod_state_val state) k = (q, k1)" by force
  with run True have k1: "k1 = k'" "r = None \<longleftrightarrow> q = None" by (auto simp: write_state_def split: option.splits)
  have s: "same_ids kv k k'" "kv_maps kv k' = (if q = None then (kv_maps kv k)(MapID ?b := (kv_maps kv k (MapID ?b))
      (pod_state_key key \<mapsto> f (pod_state_val state) (kv_maps kv k (MapID ?b) (pod_state_key key)))) else kv_maps kv k)"
    using call q unfolding state_call_def k1(1) by (metis, metis)
  then have o: "j \<noteq> MapID ?b \<Longrightarrow> kv_maps kv k' j = kv_maps kv k j" for j by simp
  from state_write_inv [OF inv own s(1) o] o s(2) k1(2) True show ?thesis by simp
qed

text \<open>Both pod state operations, one direction after the other.\<close>

definition write_states ::
  "(BpfMap \<Rightarrow> byte list \<Rightarrow> byte list \<Rightarrow> 'k \<Rightarrow> string option \<times> 'k) \<Rightarrow> string \<Rightarrow> (dir \<Rightarrow> bool) \<Rightarrow> string \<Rightarrow> int \<Rightarrow> int \<Rightarrow>
     bpfClient \<Rightarrow> 'k \<Rightarrow> string list \<times> 'k" where
  "write_states call what enabled i key state l k =
     (case policyEndpointeBPFContext l i of
        None \<Rightarrow> ([''no bpf context registered for pod '' @ i], k)
      | Some c \<Rightarrow>
          let (e1, k1) = write_state call what (enabled Ingress) Ingress c key state k;
              (e2, k2) = write_state call what (enabled Egress) Egress c key state k1
          in (errors_Join [e1, e2], k2))"

lemma pod_state_ops:
  "CreatePodStateEbpfEntryIfNotExists env i key state l k =
     write_states (CreateMapEntry env) ''entry create'' (\<lambda>_. True) i key state l k"
  "UpdatePodStateEbpfMaps env i key state ui ue l k =
     write_states (CreateUpdateMapEntry env) ''map write'' (\<lambda>d. case d of Ingress \<Rightarrow> ui | Egress \<Rightarrow> ue) i key state l k"
  unfolding CreatePodStateEbpfEntryIfNotExists_def UpdatePodStateEbpfMaps_def write_states_def dir.case
  by (rule refl)+

lemma write_states_spec:
  assumes inv: "client_inv kv l k" and call: "state_call kv call f"
    and run: "write_states call what enabled i key state l k = (r, k')"
  shows "client_inv kv l k' \<and> (r = [] \<longrightarrow> (\<exists>c. policyEndpointeBPFContext l i = Some c \<and>
    (\<forall>d. enabled d \<longrightarrow> prog_fd c d \<noteq> 0 \<longrightarrow>
       kv_maps kv k' (MapID (map_at (pgmInfo c d) (podStateMapName d))) (pod_state_key key) =
         Some (f (pod_state_val state) (kv_maps kv k (MapID (map_at (pgmInfo c d) (podStateMapName d))) (pod_state_key key))))))"
proof (cases "policyEndpointeBPFContext l i")
  case None
  with run inv show ?thesis by (auto simp: write_states_def)
next
  case (Some c)
  let ?b = "\<lambda>d. map_at (pgmInfo c d) (podStateMapName d)"
  obtain e1 k1 where w1: "write_state call what (enabled Ingress) Ingress c key state k = (e1, k1)" by force
  obtain e2 k2 where w2: "write_state call what (enabled Egress) Egress c key state k1 = (e2, k2)" by force
  note s1 = write_state_spec [OF inv call Some w1]
  note s2 = write_state_spec [OF conjunct1 [OF s1] call Some w2]
  have k': "k' = k2" and r: "r = [] \<Longrightarrow> e1 = None \<and> e2 = None"
    using run Some w1 w2 by (auto simp: write_states_def)
  have neq: "MapID (?b Ingress) \<noteq> MapID (?b Egress)" if "prog_fd c Ingress \<noteq> 0" "prog_fd c Egress \<noteq> 0"
    using progs_okD(5) [OF client_invD(3) [OF inv] owned_map_at [OF inv Some that(1) podStateMapName_policy]
        owned_map_at [OF inv Some that(2) podStateMapName_policy]] by auto
  have "kv_maps kv k' (MapID (?b d)) (pod_state_key key) =
      Some (f (pod_state_val state) (kv_maps kv k (MapID (?b d)) (pod_state_key key)))"
    if r0: "r = []" and d: "enabled d" "prog_fd c d \<noteq> 0" for d
  proof (cases d)
    case Ingress
    have "kv_maps kv k2 (MapID (?b Ingress)) = kv_maps kv k1 (MapID (?b Ingress))"
    proof (cases "prog_fd c Egress = 0")
      case True
      with w2 show ?thesis by (simp add: write_state_def)
    next
      case False
      with neq d Ingress s2 show ?thesis by blast
    qed
    with s1 r [OF r0] d Ingress show ?thesis unfolding k' by simp
  next
    case Egress
    have "kv_maps kv k1 (MapID (?b Egress)) = kv_maps kv k (MapID (?b Egress))"
    proof (cases "prog_fd c Ingress = 0")
      case True
      with w1 show ?thesis by (simp add: write_state_def)
    next
      case False
      with neq d Egress s1 show ?thesis by metis
    qed
    with s2 r [OF r0] d Egress show ?thesis unfolding k' by simp
  qed
  with s2 Some show ?thesis unfolding k' by blast
qed

lemma cleanup_inv: "client_inv kv l k \<Longrightarrow> client_inv kv (cleanupDeletedPodsIfNeeded now l) k"
  unfolding client_inv_def caches_ok_def pods_ok_def progs_ok_def shadows_ok_def owns_fd_def owns_map_def
    cleanupDeletedPodsIfNeeded_def
  by (simp split: option.splits)

section \<open>Runs of the client\<close>

text \<open>The calls the RPC server, the reconcilers and the cleanup routine make. A pod is always
  passed with the identifier derived from its name and namespace.\<close>

datatype client_op =
    Attach NamespacedName int bool
  | Delete int NamespacedName
  | UpdateMaps go_orders string "EbpfFirewallRules list" "EbpfFirewallRules list"
  | UpdateClusterMaps go_orders string "EbpfFirewallRules list" "EbpfFirewallRules list"
  | CreateState string int int
  | UpdateState string int int bool bool
  | Cleanup int

definition ident_of :: "NamespacedName \<Rightarrow> string" where
  "ident_of pod = GetPodIdentifier (nn_Name pod) (nn_Namespace pod)"

fun client_step :: "'k bpf_env \<Rightarrow> client_op \<Rightarrow> bpfClient \<times> 'k \<Rightarrow> bpfClient \<times> 'k" where
  "client_step env (Attach pod n live) (l, k) = snd (AttacheBPFProbes env pod (ident_of pod) n live l k)"
| "client_step env (Delete now pod) (l, k) = DeleteBPFProbes env now pod (ident_of pod) l k"
| "client_step env (UpdateMaps os i ing eg) (l, k) = snd (UpdateEbpfMaps env os i ing eg l k)"
| "client_step env (UpdateClusterMaps os i ing eg) (l, k) = snd (UpdateClusterPolicyEbpfMaps env os i ing eg l k)"
| "client_step env (CreateState i key state) (l, k) = (l, snd (CreatePodStateEbpfEntryIfNotExists env i key state l k))"
| "client_step env (UpdateState i key state ui ue) (l, k) = (l, snd (UpdatePodStateEbpfMaps env i key state ui ue l k))"
| "client_step env (Cleanup now) (l, k) = (cleanupDeletedPodsIfNeeded now l, k)"

fun valid_op :: "client_op \<Rightarrow> bool" where
  "valid_op (Attach pod n live) = (CHR ''_'' \<notin> set (nn_Namespace pod))"
| "valid_op (Delete now pod) = (CHR ''_'' \<notin> set (nn_Namespace pod))"
| "valid_op (UpdateMaps os i ing eg) = orders_range os"
| "valid_op (UpdateClusterMaps os i ing eg) = orders_range os"
| "valid_op _ = True"

definition client_run :: "'k bpf_env \<Rightarrow> client_op list \<Rightarrow> bpfClient \<times> 'k \<Rightarrow> bpfClient \<times> 'k" where
  "client_run env ops s = fold (client_step env) ops s"

text \<open>A client whose maps are all empty, as \<^verbatim>\<open>NewBpfClient\<close> creates it on a node with nothing to
  recover.\<close>

definition new_client :: "FirewallRuleProcessor \<Rightarrow> (dir \<Rightarrow> string) \<Rightarrow> string \<Rightarrow> bool \<Rightarrow> bpfClient" where
  "new_client f binary mode multiNIC = \<lparr>policyEndpointeBPFContext = (\<lambda>_. None), podToProgMap = (\<lambda>_ _. None),
     progToPodsMap = (\<lambda>_ _. None), globalMaps = (\<lambda>_. None), probeBinary = binary, hostMask = fwrp_hostMask f,
     interfaceNametoPinPath = (\<lambda>_. []), networkPolicyMode = mode, isMultiNICEnabled = multiNIC,
     podNameToInterfaceCount = (\<lambda>_. None), fwRuleProcessor = f, inMemoryMap = (\<lambda>_ _ _. None),
     deletedPods = (\<lambda>_. None)\<rparr>"

lemma new_client_inv: "client_inv kv (new_client f binary mode multiNIC) k"
  by (simp add: client_inv_def caches_ok_def pods_ok_def progs_ok_def shadows_ok_def owns_fd_def owns_map_def
      new_client_def)

lemma pod_ident_of: "CHR ''_'' \<notin> set (nn_Namespace pod) \<Longrightarrow> pod_ident (pod_name pod) = ident_of pod"
  by (simp add: pod_name_def ident_of_def pod_ident_name)

lemma client_step_inv:
  assumes laws: "env_laws env kv" and op: "valid_op x" and inv: "client_inv kv l k"
    and run: "client_step env x (l, k) = (l', k')"
  shows "client_inv kv l' k'"
proof (cases x)
  case (Attach pod n live)
  with op run AttacheBPFProbes_inv [OF laws inv pod_ident_of] show ?thesis
    by (cases "AttacheBPFProbes env pod (ident_of pod) n live l k") auto
next
  case (Delete now pod)
  with op run DeleteBPFProbes_inv [OF laws inv pod_ident_of] show ?thesis by auto
next
  case (UpdateMaps os i ing eg)
  with op run UpdateEbpfMaps_spec [OF laws inv] show ?thesis
    by (cases "UpdateEbpfMaps env os i ing eg l k") auto
next
  case (UpdateClusterMaps os i ing eg)
  with op run UpdateClusterPolicyEbpfMaps_spec [OF laws inv] show ?thesis
    by (cases "UpdateClusterPolicyEbpfMaps env os i ing eg l k") auto
next
  case (CreateState i key state)
  with run show ?thesis
    using write_states_spec [OF inv state_calls(1) [OF laws]] by (auto simp: pod_state_ops) (metis prod.collapse)
next
  case (UpdateState i key state ui ue)
  with run show ?thesis
    using write_states_spec [OF inv state_calls(2) [OF laws]] by (auto simp: pod_state_ops) (metis prod.collapse)
next
  case (Cleanup now)
  with run cleanup_inv [OF inv] show ?thesis by auto
qed

lemma client_run_inv:
  assumes laws: "env_laws env kv" and "\<forall>x \<in> set ops. valid_op x" and "client_inv kv l k"
    and "client_run env ops (l, k) = (l', k')"
  shows "client_inv kv l' k'"
  using assms(2-)
proof (induction ops arbitrary: l k)
  case (Cons x xs)
  obtain l1 k1 where s: "client_step env x (l, k) = (l1, k1)" by force
  with Cons client_step_inv [OF laws _ _ s] show ?case by (simp add: client_run_def)
qed (simp add: client_run_def)

end
