(* ===== verification/BpfSafety.thy ===== *)
theory BpfSafety
  imports BpfInvariant
begin

text \<open>
  What the eBPF client guarantees on every run: the theorems on the client's state machine, and
  a simulated kernel that satisfies the laws the theorems assume.
\<close>

section \<open>A simulated kernel\<close>

text \<open>Maps are association lists; IDs and FDs are handed out in order; TC calls always succeed; the
  paths that were unpinned are recorded.\<close>

record sim_kernel =
  sim_maps :: "nat \<Rightarrow> (byte list, byte list) go_map"
  sim_next :: nat
  sim_unpinned :: "string list"

definition sim_view :: "sim_kernel kernel_view" where
  "sim_view = \<lparr>kv_maps = (\<lambda>k i. map_of (sim_maps k i)), kv_ids = (\<lambda>k. {..<sim_next k}),
     kv_fds = (\<lambda>k. {1..int (sim_next k)}), kv_refused = (\<lambda>k. {})\<rparr>"

definition sim_set :: "BpfMap \<Rightarrow> (byte list, byte list) go_map \<Rightarrow> sim_kernel \<Rightarrow> sim_kernel" where
  "sim_set b c k = k\<lparr>sim_maps := (sim_maps k)(MapID b := c)\<rparr>"

definition sim_sdk :: "sim_kernel map_sdk" where
  "sim_sdk = \<lparr>
     GetAllMapKeys = (\<lambda>b k. Inr (map fst (sim_maps k (MapID b)))),
     GetMapEntry = (\<lambda>b key k. case map_of (sim_maps k (MapID b)) key of None \<Rightarrow> Inl ''no such key'' | Some v \<Rightarrow> Inr v),
     UpdateMapEntry = (\<lambda>b key v k. (None, sim_set b (AList.update key v (sim_maps k (MapID b))) k)),
     DeleteMapEntry = (\<lambda>b key k. (None, sim_set b (AList.delete key (sim_maps k (MapID b))) k))\<rparr>"

definition sim_map :: "nat \<Rightarrow> BpfMap" where
  "sim_map i = \<lparr>MapID = i, MapFD = i + 3, ValueSize = 1\<rparr>"

definition sim_data :: "nat \<Rightarrow> BpfData" where
  "sim_data n = \<lparr>Program = \<lparr>ProgID = int n + 1, ProgFD = int n + 1\<rparr>,
     Maps = [(TC_INGRESS_MAP, sim_map n), (TC_EGRESS_MAP, sim_map (n + 1)),
       (TC_CLUSTER_POLICY_INGRESS_MAP, sim_map (n + 2)), (TC_CLUSTER_POLICY_EGRESS_MAP, sim_map (n + 3)),
       (TC_INGRESS_POD_STATE_MAP, sim_map (n + 4)), (TC_EGRESS_POD_STATE_MAP, sim_map (n + 5))]\<rparr>"

definition sim_env :: "sim_kernel bpf_env" where
  "sim_env = \<lparr>map_api = sim_sdk,
     CreateMapEntry = (\<lambda>b key v k. (None, sim_set b (AList.update key
        (case map_of (sim_maps k (MapID b)) key of None \<Rightarrow> v | Some w \<Rightarrow> w) (sim_maps k (MapID b))) k)),
     CreateUpdateMapEntry = (\<lambda>b key v k. (None, sim_set b (AList.update key v (sim_maps k (MapID b))) k)),
     LoadBpfFile = (\<lambda>f i k. (Inr (\<lambda>pin. Some (sim_data (sim_next k))), k\<lparr>sim_next := sim_next k + 6\<rparr>)),
     TCIngressAttach = (\<lambda>v fd n k. (None, k)), TCEgressAttach = (\<lambda>v fd n k. (None, k)),
     TCIngressDetach = (\<lambda>v k. (None, k)), TCEgressDetach = (\<lambda>v k. (None, k)),
     UnPinProg = (\<lambda>p pin k. (None, k\<lparr>sim_unpinned := pin # sim_unpinned k\<rparr>)),
     UnPinMap = (\<lambda>b pin k. (None, k\<lparr>sim_unpinned := pin # sim_unpinned k\<rparr>)),
     linkError = (\<lambda>v k. None), sha1_hex = (\<lambda>s. s)\<rparr>"

lemma sim_sdk_laws: "sdk_laws (map_api sim_env) (kv_maps sim_view)"
  unfolding sdk_laws_def sim_env_def sim_sdk_def sim_view_def sim_set_def
  by (simp add: dom_map_of_conv_image_fst split: option.splits)
    (auto simp: fun_eq_iff delete_conv')

lemma sim_state_laws: "state_laws sim_env sim_view"
  by (auto simp: state_laws_def state_call_def sim_env_def sim_view_def sim_set_def same_ids_def fun_eq_iff)

lemma sim_ids_laws: "ids_laws sim_env sim_view"
  by (simp add: ids_laws_def sim_env_def sim_view_def sim_set_def same_ids_def sim_sdk_def)

lemma sim_tc_laws: "tc_laws sim_env sim_view"
proof -
  have "tcAttach sim_env d v fd k = (None, k)" "tcDetach sim_env d v k = (None, k)" for d v fd k
    by (cases d; simp add: sim_env_def)+
  then show ?thesis by (simp add: tc_laws_def) (simp add: sim_env_def keeps_def sim_view_def)
qed

lemma sim_load_laws: "load_laws sim_env sim_view"
proof -
  have "policy_maps d \<subseteq> dom (map_of (Maps (sim_data n)))" for d n
    by (cases d) (auto simp: policy_maps_def sim_data_def name_defs)
  moreover have "keeps sim_view {} {} k (k\<lparr>sim_next := sim_next k + 6\<rparr>)" for k
    by (auto simp: keeps_def sim_view_def)
  moreover have "fresh_program sim_view k (k\<lparr>sim_next := sim_next k + 6\<rparr>) (sim_data (sim_next k))" for k
    by (auto simp: fresh_program_def sim_view_def sim_data_def sim_map_def name_defs split: if_splits)
  ultimately show ?thesis by (auto simp: load_laws_def sim_env_def)
qed

lemma sim_env_laws: "env_laws sim_env sim_view"
  using sim_sdk_laws sim_state_laws sim_ids_laws sim_tc_laws sim_load_laws by (simp add: env_laws_def)

section \<open>Reachable states\<close>

definition client_reachable :: "'k bpf_env \<Rightarrow> bpfClient \<Rightarrow> 'k \<Rightarrow> bool" where
  "client_reachable env l k \<longleftrightarrow> (\<exists>f binary mode multiNIC k0 ops. (\<forall>x \<in> set ops. valid_op x) \<and>
     client_run env ops (new_client f binary mode multiNIC, k0) = (l, k))"

lemma client_reachable_inv: "env_laws env kv \<Longrightarrow> client_reachable env l k \<Longrightarrow> client_inv kv l k"
  unfolding client_reachable_def using client_run_inv new_client_inv by metis

lemma client_reachable_run:
  assumes "client_reachable env l k" "\<forall>x \<in> set ops. valid_op x" "client_run env ops (l, k) = (l', k')"
  shows "client_reachable env l' k'"
proof -
  obtain f b m n k0 xs where "\<forall>x \<in> set xs. valid_op x" "client_run env xs (new_client f b m n, k0) = (l, k)"
    using assms(1) unfolding client_reachable_def by blast
  with assms(2, 3) have "(\<forall>x \<in> set (xs @ ops). valid_op x) \<and> client_run env (xs @ ops) (new_client f b m n, k0) = (l', k')"
    by (auto simp: client_run_def)
  then show ?thesis unfolding client_reachable_def by blast
qed

text \<open>The state the witnesses start from: two pods of one deployment attached by the CNI.\<close>

definition example_pod :: "string \<Rightarrow> NamespacedName" where
  "example_pod s = \<lparr>nn_Name = ''web-7d-'' @ s, nn_Namespace = ''shop''\<rparr>"

definition example_client :: bpfClient where
  "example_client = new_client example_processor (\<lambda>_. ''tc.bpf.o'') ''standard'' False"

definition example_kernel :: sim_kernel where
  "example_kernel = \<lparr>sim_maps = (\<lambda>_. []), sim_next = 1, sim_unpinned = []\<rparr>"

definition example_state :: "bpfClient \<times> sim_kernel" where
  "example_state = client_run sim_env [Attach (example_pod ''a'') 1 True, Attach (example_pod ''b'') 1 True]
     (example_client, example_kernel)"

lemma example_reachable: "client_reachable sim_env (fst example_state) (snd example_state)"
  unfolding client_reachable_def example_state_def example_client_def
  by (rule exI, rule exI, rule exI, rule exI, rule exI, rule exI, rule conjI [rotated], rule prod.collapse [symmetric])
    (simp add: example_pod_def)

text \<open>Attaching a pod on the simulated kernel.\<close>

lemma sim_program_for:
  "program_for sim_env d i l k =
     (if prog_fd (context_of l i) d \<noteq> 0 then (Inr (prog_fd (context_of l i) d), l, k)
      else (Inr (int (sim_next k) + 1), with_program l i d (sim_data (sim_next k)), k\<lparr>sim_next := sim_next k + 6\<rparr>))"
  by (auto simp: program_for_def loadBPFProgram_def sim_env_def Let_def sim_data_def with_program_def)

lemma sim_attach_probe: "attach_probe sim_env d v i l k = program_for sim_env d i l k"
  by (cases d) (auto simp: attach_probe_def tc_attach_retry_def sim_env_def split: prod.splits sum.splits)

lemma sim_veth:
  "GetHostVethName (sha1_hex sim_env) (\<lambda>x. linkError sim_env x k) n ns i (p # ps) =
     Inr (p @ take 11 (ns @ ''.'' @ (if 0 < i then n @ ''.'' @ nat_string i else n)))"
  by (simp add: GetHostVethName_def sim_env_def Let_def)

lemma with_program_fields [simp]:
  "prog_fd (context_of (with_program l i d data) j) e =
     (if i = j \<and> d = e then ProgFD (Program data) else prog_fd (context_of l j) e)"
  "podToProgMap (with_program l i d data) = podToProgMap l"
  "prog_fd (context_of (register_both p f l) j) e = prog_fd (context_of l j) e"
  "prog_fd (context_of (unmark x p l) j) e = prog_fd (context_of l j) e"
  by (auto simp: with_program_def context_of_def prog_fd_def register_both_fields)

lemma sim_attach_first:
  assumes "podToProgMap l Ingress (pod_name pod) = None" "podToProgMap l Egress (pod_name pod) = None"
    "prog_fd (context_of l i) Ingress = 0" "prog_fd (context_of l i) Egress = 0"
  shows "snd (AttacheBPFProbes sim_env pod i 1 True l k) =
    (register_both (pod_name pod) ((\<lambda>_. 0)(Ingress := int (sim_next k) + 1, Egress := 7 + int (sim_next k)))
      (with_program (with_program (unmark True (pod_name pod) l) i Ingress (sim_data (sim_next k)))
         i Egress (sim_data (sim_next k + 6))), k\<lparr>sim_next := sim_next k + 12\<rparr>)"
  using assms by (simp add: AttacheBPFProbes_unfold getInterfaceCountForPod_def attach_unless_def sim_veth
      sim_attach_probe sim_program_for)

lemma sim_attach_again:
  assumes "podToProgMap l Ingress (pod_name pod) = None" "podToProgMap l Egress (pod_name pod) = None"
    "prog_fd (context_of l i) Ingress \<noteq> 0" "prog_fd (context_of l i) Egress \<noteq> 0"
  shows "snd (AttacheBPFProbes sim_env pod i 1 True l k) =
    (register_both (pod_name pod) ((\<lambda>_. 0)(Ingress := prog_fd (context_of l i) Ingress,
        Egress := prog_fd (context_of l i) Egress)) (unmark True (pod_name pod) l), k)"
  using assms by (simp add: AttacheBPFProbes_unfold getInterfaceCountForPod_def attach_unless_def sim_veth
      sim_attach_probe sim_program_for)

lemma example_client_fields [simp]:
  "prog_fd (context_of example_client j) e = 0" "podToProgMap example_client = (\<lambda>_ _. None)"
  by (auto simp: example_client_def new_client_def context_of_def zero_context_def zero_data_def prog_fd_def)

lemma example_ident:
  "ident_of (example_pod ''a'') = ''web-7d@shop''" "ident_of (example_pod ''b'') = ''web-7d@shop''"
  by code_simp+

lemma example_name: "pod_name (example_pod ''a'') \<noteq> pod_name (example_pod ''b'')"
  by (simp add: pod_name_def example_pod_def GetPodNamespacedName_def)

lemma example_attached:
  "podToProgMap (fst example_state) Ingress = [pod_name (example_pod ''a'') \<mapsto> 2, pod_name (example_pod ''b'') \<mapsto> 2]"
  using example_name
  by (simp add: example_state_def client_run_def sim_attach_first sim_attach_again example_ident
      register_both_fields example_kernel_def sim_data_def)

lemma example_attached_pods:
  "attached_pods (fst example_state) ''web-7d@shop'' = {pod_name (example_pod ''a''), pod_name (example_pod ''b'')}"
proof -
  have "pod_ident (pod_name (example_pod ''a'')) = ''web-7d@shop''" "pod_ident (pod_name (example_pod ''b'')) = ''web-7d@shop''"
    using example_ident by (simp_all add: pod_ident_of example_pod_def)
  then show ?thesis by (auto simp: attached_pods_def example_attached split: if_splits)
qed

section \<open>Theorems\<close>

text \<open>C5: On every run of the client from start, whatever calls of the kernel fail: the caches from
  pods to programs and from programs to pods are inverse to each other and agree on both directions,
  every attached pod uses the program of its own identifier, no two identifiers (or directions) share
  a program, every in-memory map equals the kernel map it shadows, and a pod with a deletion marker is
  not attached.\<close>
theorem client_run_invariant:
  assumes "env_laws env kv" and "\<forall>x \<in> set ops. valid_op x"
    and "client_run env ops (new_client f binary mode multiNIC, k0) = (l, k)"
  shows "(\<forall>d p fd. podToProgMap l d p = Some fd \<longleftrightarrow> (\<exists>s. progToPodsMap l d fd = Some s \<and> p \<in> s)) \<and>
    (\<forall>p. podToProgMap l Ingress p = None \<longleftrightarrow> podToProgMap l Egress p = None) \<and>
    (\<forall>d p fd. podToProgMap l d p = Some fd \<longrightarrow> owns_fd l (pod_ident p) d fd) \<and>
    (\<forall>i d i' d' fd. owns_fd l i d fd \<longrightarrow> owns_fd l i' d' fd \<longrightarrow> i = i' \<and> d = d') \<and>
    (\<forall>kd d i m. inMemoryMap l kd d i = Some m \<longrightarrow> map_of (contents m) = kv_maps kv k (MapID (bpfMap m))) \<and>
    (\<forall>d p. deletedPods l p \<noteq> None \<longrightarrow> podToProgMap l d p = None)"
proof -
  have inv: "client_inv kv l k" by (rule client_run_inv [OF assms(1, 2) new_client_inv assms(3)])
  note c = caches_okD [OF client_invD(1) [OF inv]]
  have sh: "\<forall>kd d i m. inMemoryMap l kd d i = Some m \<longrightarrow> map_of (contents m) = kv_maps kv k (MapID (bpfMap m))"
    using shadows_okD(1) [OF client_invD(4) [OF inv]] by (simp add: in_sync_def)
  have ow: "\<forall>d p fd. podToProgMap l d p = Some fd \<longrightarrow> owns_fd l (pod_ident p) d fd"
    using client_invD(2) [OF inv] by (simp add: pods_ok_def)
  have un: "\<forall>i d i' d' fd. owns_fd l i d fd \<longrightarrow> owns_fd l i' d' fd \<longrightarrow> i = i' \<and> d = d'"
    using client_invD(3) [OF inv] unfolding progs_ok_def by (elim conjE)
  show ?thesis
    using client_invD(1) [OF inv] ow un sh unfolding caches_ok_def by (elim conjE, intro conjI)
qed

theorem client_run_invariant_witness:
  "let (l, k) = client_run sim_env [Attach (example_pod ''a'') 1 True, Delete 5 (example_pod ''a'')]
         (example_client, example_kernel)
   in deletedPods l (pod_name (example_pod ''a'')) \<noteq> None \<and> podToProgMap l Egress (pod_name (example_pod ''a'')) = None"
proof -
  let ?ops = "[Attach (example_pod ''a'') 1 True, Delete 5 (example_pod ''a'')]"
  obtain l k where r: "client_run sim_env ?ops (example_client, example_kernel) = (l, k)" by force
  have v: "\<forall>x \<in> set ?ops. valid_op x" by (simp add: example_pod_def)
  obtain l1 k1 where s: "client_step sim_env (Attach (example_pod ''a'') 1 True) (example_client, example_kernel) = (l1, k1)"
    by force
  have i1: "client_inv sim_view l1 k1"
    using client_step_inv [OF sim_env_laws _ _ s] by (simp add: example_pod_def example_client_def new_client_inv)
  have "DeleteBPFProbes sim_env 5 (example_pod ''a'') (ident_of (example_pod ''a'')) l1 k1 = (l, k)"
    using r s by (simp add: client_run_def)
  then have "deletedPods l (pod_name (example_pod ''a'')) = Some 5"
    using forget_pod_fields(3) [OF client_invD(1) [OF i1]]
    by (auto simp: DeleteBPFProbes_unfold deleteBPFProbes_def Let_def split: if_splits)
  with client_run_invariant [OF sim_env_laws v r [unfolded example_client_def]] show ?thesis
    unfolding r by simp
qed

text \<open>What unpinning does: \<open>pins k\<close> are the paths pinned in the BPF file system. A call removes no other
  path and adds none, and the path is gone when it reports no error.\<close>

definition unpins :: "('k \<Rightarrow> string set) \<Rightarrow> string \<Rightarrow> ('k \<Rightarrow> string option \<times> 'k) \<Rightarrow> bool" where
  "unpins pins path call \<longleftrightarrow> (\<forall>k r k'. call k = (r, k') \<longrightarrow>
     pins k' \<subseteq> pins k \<and> pins k - {path} \<subseteq> pins k' \<and> (r = None \<longrightarrow> path \<notin> pins k'))"

definition pin_laws :: "'k bpf_env \<Rightarrow> ('k \<Rightarrow> string set) \<Rightarrow> bool" where
  "pin_laws env pins \<longleftrightarrow> (\<forall>p path. unpins pins path (UnPinProg env p path)) \<and>
     (\<forall>b path. unpins pins path (UnPinMap env b path))"

text \<open>A sequence of unpin calls, each with its path, and what each reported.\<close>

fun run_unpins :: "(string \<times> ('k \<Rightarrow> string option \<times> 'k)) list \<Rightarrow> 'k \<Rightarrow> (string \<times> string option) list \<times> 'k" where
  "run_unpins [] k = ([], k)"
| "run_unpins ((path, call) # calls) k =
     (let (r, k1) = call k; (rs, k2) = run_unpins calls k1 in ((path, r) # rs, k2))"

text \<open>The four pins of an identifier in one direction (program, policy map, pod state map and cluster
  policy map), and the calls that remove them.\<close>

definition probe_unpins ::
  "'k bpf_env \<Rightarrow> string \<Rightarrow> BPFContext \<Rightarrow> dir \<Rightarrow> (string \<times> ('k \<Rightarrow> string option \<times> 'k)) list" where
  "probe_unpins env i c d =
     (let prog = BPF_PROGRAMS_PIN_PATH_DIRECTORY @ i @ ''_handle_'' @ dirName d;
          pinned = (\<lambda>n. BPF_MAPS_PIN_PATH_DIRECTORY @ i @ ''_'' @ n);
          unmap = (\<lambda>n. (pinned n, UnPinMap env (map_at (pgmInfo c d) n) (pinned n)))
      in [(prog, UnPinProg env (Program (pgmInfo c d)) prog), unmap (mapName PolicyMap d), unmap (podStateMapName d),
          unmap (mapName ClusterPolicyMap d)])"

lemma run_unpins_append:
  "run_unpins (xs @ ys) k = (let (rs, k1) = run_unpins xs k; (rs', k2) = run_unpins ys k1 in (rs @ rs', k2))"
  by (induction xs k rule: run_unpins.induct) (auto simp: Let_def split: prod.splits)

lemma run_unpins_spec:
  assumes "\<forall>(path, call) \<in> set calls. unpins pins path call" and "run_unpins calls k = (rs, k')"
  shows "map fst rs = map fst calls \<and> pins k' \<subseteq> pins k \<and> pins k - fst ` set calls \<subseteq> pins k' \<and>
    (\<forall>path. (path, None) \<in> set rs \<longrightarrow> path \<notin> pins k')"
  using assms
proof (induction calls k arbitrary: rs rule: run_unpins.induct)
  case (2 path call calls k)
  obtain r k1 rs1 where c: "call k = (r, k1)" and r: "run_unpins calls k1 = (rs1, k')" "rs = (path, r) # rs1"
    using "2.prems"(2) by (auto simp: Let_def split: prod.splits)
  have "pins k1 \<subseteq> pins k" "pins k - {path} \<subseteq> pins k1" "r = None \<longrightarrow> path \<notin> pins k1"
    using "2.prems"(1) c by (auto simp: unpins_def)
  moreover note "2.IH" [OF c [symmetric] refl _ r(1)]
  ultimately show ?case using "2.prems"(1) r(2) by auto
qed simp

lemma probe_unpins_run:
  assumes "policyEndpointeBPFContext l i = Some c" "prog_fd c d \<noteq> 0"
  shows "deleteBPFProgramAndMaps env i d l k = snd (run_unpins (probe_unpins env i c d) k)"
  using assms
  by (cases d) (auto simp: deleteBPFProgramAndMaps_def probe_unpins_def Let_def context_of_def prog_fd_def name_defs
      GetBPFPinPathFromPodIdentifier_def GetBPFMapPinPathFromPodIdentifier_def GetPodStateBPFMapPinPathFromPodIdentifier_def
      TC_INGRESS_PROG_def TC_EGRESS_PROG_def split: prod.splits)

lemma probe_unpins_laws: "pin_laws env pins \<Longrightarrow> \<forall>(path, call) \<in> set (probe_unpins env i c d). unpins pins path call"
  by (simp add: pin_laws_def probe_unpins_def Let_def)

lemma deleteBPFProbes_calls:
  assumes "policyEndpointeBPFContext l i = Some c" "\<And>d. prog_fd c d \<noteq> 0" "deleteBPFProbes env i l k = (l', k')"
  shows "k' = snd (run_unpins (probe_unpins env i c Ingress @ probe_unpins env i c Egress) k) \<and>
    inMemoryMap l' = (\<lambda>kd d. (inMemoryMap l kd d)(i := None))"
  using assms(3)
  by (auto simp: deleteBPFProbes_def run_unpins_append probe_unpins_run [OF assms(1, 2)] Let_def split: prod.splits)

lemma attached_loaded:
  assumes inv: "client_inv kv l k" and p: "p \<in> attached_pods l i"
  shows "\<exists>c. policyEndpointeBPFContext l i = Some c \<and> (\<forall>d. prog_fd c d \<noteq> 0)"
proof -
  have "podToProgMap l d p \<noteq> None" for d
    using p caches_okD(4) [OF client_invD(1) [OF inv], of p] by (cases d) (auto simp: attached_pods_def)
  then have "\<exists>fd. owns_fd l i d fd" for d
    using client_invD(2) [OF inv] p unfolding pods_ok_def attached_pods_def by blast
  then show ?thesis unfolding owns_fd_def by (metis option.inject)
qed

text \<open>C7: Deleting a pod's probes removes the programs, maps and shadow maps of its identifier exactly
  when it is the last pod of the identifier that is attached on the node. Then the context and the four
  shadow maps of the identifier are gone, the kernel is touched by exactly the eight calls that unpin the
  identifier's two programs and six maps, each of these pins is gone unless its own call failed in this
  run (the code logs such an error and goes on), and no other pin is touched. Otherwise every context,
  every shadow map and the kernel are left as they are. In both cases only this pod leaves the caches and
  its deletion is recorded. The pod's namespace has no underscore, as Kubernetes demands.\<close>
theorem delete_last_pod_only:
  assumes laws: "env_laws env kv" and reach: "client_reachable env l k" and pin: "pin_laws env pins"
    and ns: "CHR ''_'' \<notin> set (nn_Namespace pod)"
    and run: "DeleteBPFProbes env now pod (ident_of pod) l k = (l', k')"
  defines "i \<equiv> ident_of pod"
  shows "(if attached_pods l i = {pod_name pod}
     then policyEndpointeBPFContext l' = (policyEndpointeBPFContext l)(i := None) \<and>
       (\<forall>kd d. inMemoryMap l' kd d = (inMemoryMap l kd d)(i := None)) \<and>
       (\<exists>c rs. policyEndpointeBPFContext l i = Some c \<and>
          run_unpins (probe_unpins env i c Ingress @ probe_unpins env i c Egress) k = (rs, k') \<and> length rs = 8 \<and>
          (\<forall>(path, r) \<in> set rs. r = None \<longrightarrow> path \<notin> pins k') \<and>
          pins k - fst ` set rs \<subseteq> pins k' \<and> pins k' \<subseteq> pins k)
     else policyEndpointeBPFContext l' = policyEndpointeBPFContext l \<and> inMemoryMap l' = inMemoryMap l \<and> k' = k) \<and>
    (\<forall>j. attached_pods l' j = attached_pods l j - {pod_name pod}) \<and>
    deletedPods l' = (deletedPods l)(pod_name pod \<mapsto> now)"
proof -
  have inv: "client_inv kv l k" by (rule client_reachable_inv [OF laws reach])
  note sh = isProgFdShared_iff [OF inv, of pod, unfolded pod_ident_of [OF ns], folded i_def]
  note f = forget_pod_fields [OF client_invD(1) [OF inv], of pod now]
  note a = forget_attached [OF inv, of pod now]
  show ?thesis
  proof (cases "attached_pods l i = {pod_name pod}")
    case True
    let ?l = "forget_pod pod now l"
    from True sh run have d: "deleteBPFProbes env i ?l k = (l', k')" by (simp add: DeleteBPFProbes_unfold i_def)
    then have l': "l' = ?l\<lparr>inMemoryMap := (\<lambda>kd d. (inMemoryMap ?l kd d)(i := None)),
        policyEndpointeBPFContext := (policyEndpointeBPFContext ?l)(i := None)\<rparr>"
      by (auto simp: deleteBPFProbes_def Let_def)
    obtain c where c: "policyEndpointeBPFContext l i = Some c" "\<And>d. prog_fd c d \<noteq> 0"
      using attached_loaded [OF inv, of "pod_name pod" i] True by blast
    then have "policyEndpointeBPFContext ?l i = Some c" using f(4) by simp
    from deleteBPFProbes_calls [OF this c(2) d]
    obtain rs where rs: "run_unpins (probe_unpins env i c Ingress @ probe_unpins env i c Egress) k = (rs, k')"
      by (metis prod.collapse)
    have "\<forall>(path, call) \<in> set (probe_unpins env i c Ingress @ probe_unpins env i c Egress). unpins pins path call"
      using probe_unpins_laws [OF pin, of i c Ingress] probe_unpins_laws [OF pin, of i c Egress] by (simp add: ball_Un)
    note u = run_unpins_spec [OF this rs]
    have keys: "fst ` set rs = fst ` set (probe_unpins env i c Ingress @ probe_unpins env i c Egress)"
      using u by (metis set_map)
    have "length (map fst rs) = 8" using u by (simp add: probe_unpins_def Let_def)
    then have "length rs = 8" by simp
    moreover have "\<forall>(path, r) \<in> set rs. r = None \<longrightarrow> path \<notin> pins k'" using u by blast
    moreover have "pins k - fst ` set rs \<subseteq> pins k'" "pins k' \<subseteq> pins k" using u keys by simp_all
    ultimately show ?thesis using True f(3, 4, 5) a c(1) rs l' by (simp add: attached_pods_def)
  next
    case False
    with sh run have "l' = forget_pod pod now l \<and> k' = k" by (simp add: DeleteBPFProbes_unfold i_def)
    then show ?thesis using False f(3, 4, 5) a by simp
  qed
qed

text \<open>On the simulated kernel every path counts as pinned until it is unpinned.\<close>

definition sim_pins :: "sim_kernel \<Rightarrow> string set" where
  "sim_pins k = - set (sim_unpinned k)"

lemma sim_pin_laws: "pin_laws sim_env sim_pins"
  by (auto simp: pin_laws_def unpins_def sim_env_def sim_pins_def)

theorem delete_last_pod_only_witness:
  "let (l1, k1) = DeleteBPFProbes sim_env 9 (example_pod ''b'') (ident_of (example_pod ''b'')) (fst example_state) (snd example_state);
       (l2, k2) = DeleteBPFProbes sim_env 9 (example_pod ''a'') (ident_of (example_pod ''a'')) l1 k1
   in policyEndpointeBPFContext l1 = policyEndpointeBPFContext (fst example_state) \<and> k1 = snd example_state \<and>
      attached_pods l1 ''web-7d@shop'' = {pod_name (example_pod ''a'')} \<and>
      policyEndpointeBPFContext l2 ''web-7d@shop'' = None \<and> inMemoryMap l2 PolicyMap Ingress ''web-7d@shop'' = None \<and>
      attached_pods l2 ''web-7d@shop'' = {} \<and> ''/sys/fs/bpf/globals/aws/programs/web-7d@shop_handle_ingress'' \<notin> sim_pins k2"
proof -
  obtain l1 k1 where r1: "DeleteBPFProbes sim_env 9 (example_pod ''b'') (ident_of (example_pod ''b''))
         (fst example_state) (snd example_state) = (l1, k1)" by force
  obtain l2 k2 where r2: "DeleteBPFProbes sim_env 9 (example_pod ''a'') (ident_of (example_pod ''a'')) l1 k1 = (l2, k2)" by force
  have ns: "CHR ''_'' \<notin> set (nn_Namespace (example_pod x))" for x by (simp add: example_pod_def)
  note w1 = delete_last_pod_only [OF sim_env_laws example_reachable sim_pin_laws ns r1]
  have a1: "attached_pods l1 ''web-7d@shop'' = {pod_name (example_pod ''a'')}"
    using w1 example_name by (auto simp: example_attached_pods)
  have c1: "policyEndpointeBPFContext l1 = policyEndpointeBPFContext (fst example_state) \<and> k1 = snd example_state"
    using w1 example_name by (auto simp: example_ident example_attached_pods split: if_splits)
  have "client_run sim_env [Delete 9 (example_pod ''b'')] (fst example_state, snd example_state) = (l1, k1)"
    using r1 by (simp only: client_run_def fold_simps comp_apply id_apply client_step.simps)
  from client_reachable_run [OF example_reachable _ this] ns have "client_reachable sim_env l1 k1" by simp
  note w2 = delete_last_pod_only [OF sim_env_laws this sim_pin_laws ns r2, unfolded example_ident if_P [OF a1]]
  obtain c rs where rs: "run_unpins (probe_unpins sim_env ''web-7d@shop'' c Ingress @ probe_unpins sim_env ''web-7d@shop'' c Egress) k1 = (rs, k2)"
    "\<forall>(path, r) \<in> set rs. r = None \<longrightarrow> path \<notin> sim_pins k2"
    using conjunct2 [OF conjunct2 [OF conjunct1 [OF w2]]] by (elim exE conjE) (rule that)
  have "(''/sys/fs/bpf/globals/aws/programs/web-7d@shop_handle_ingress'', None) \<in> set rs"
    using rs(1) by (auto simp: probe_unpins_def sim_env_def BPF_PROGRAMS_PIN_PATH_DIRECTORY_def Let_def split: prod.splits)
  then have "''/sys/fs/bpf/globals/aws/programs/web-7d@shop_handle_ingress'' \<notin> sim_pins k2" using rs(2) by blast
  with w2 a1 c1 r1 r2 show ?thesis by (simp add: example_ident)
qed

lemma attach_spec:
  assumes laws: "env_laws env kv" and reach: "client_reachable env l k"
    and ns: "CHR ''_'' \<notin> set (nn_Namespace pod)"
    and run: "AttacheBPFProbes env pod (ident_of pod) n live l k = (r, l', k')"
  shows "if \<not> live \<and> deletedPods l (pod_name pod) \<noteq> None then r = Inr False \<and> l' = l \<and> k' = k
    else deletedPods l' (pod_name pod) = None \<and>
      (case r of
         Inl e \<Rightarrow> \<forall>d. podToProgMap l' d (pod_name pod) = None
       | Inr first \<Rightarrow> first = (\<not> (\<forall>d. \<exists>fd. owns_fd l (ident_of pod) d fd)) \<and>
           (\<forall>d. \<exists>fd. podToProgMap l' d (pod_name pod) = Some fd \<and> owns_fd l' (ident_of pod) d fd))"
proof -
  have inv: "client_inv kv l k" by (rule client_reachable_inv [OF laws reach])
  have id: "pod_ident (pod_name pod) = ident_of pod" by (rule pod_ident_of [OF ns])
  have first: "isFirstPodInPodIdentifierLocked l i = (\<not> (\<forall>d. \<exists>fd. owns_fd l i d fd))" for i
    by (auto simp: isFirstPodInPodIdentifierLocked_def owns_fd_def split: option.splits) (metis dir.exhaust)
  from laws inv run show ?thesis
  proof (cases rule: AttacheBPFProbes_cases)
    case skipped
    then show ?thesis by simp
  next
    case present
    have d: "deletedPods l (pod_name pod) = None"
      using caches_okD(5) [OF client_invD(1) [OF inv]] present(1) by blast
    have o: "owns_fd l' = owns_fd l" "podToProgMap l' = podToProgMap l"
      using present(2) by (auto simp: fun_eq_iff owns_fd_def)
    have "\<exists>fd. podToProgMap l' d (pod_name pod) = Some fd \<and> owns_fd l' (ident_of pod) d fd" for d
      using present(1) [of d] client_invD(2) [OF inv] id unfolding o pods_ok_def by (metis not_None_eq)
    with d present first show ?thesis by simp
  next
    case (failed e)
    then show ?thesis by (auto simp: same_caches_def)
  next
    case (attached l2 fds)
    have "owns_fd (register_both (pod_name pod) fds l2) = owns_fd l2"
      by (auto simp: fun_eq_iff owns_fd_def register_both_fields)
    with attached first show ?thesis by (auto simp: same_caches_def register_both_fields)
  qed
qed

text \<open>C8: A successful attach that is not skipped leaves the pod registered in both directions with
  the programs of its identifier, clears its deletion marker, and reports whether the identifier had no
  complete pair of programs before, so that the caller fills the maps. A failed attach never registers the pod.
  A pod known to be deleted is left alone unless the CNI just added it.\<close>
theorem attach_outcome:
  assumes laws: "env_laws env kv" and reach: "client_reachable env l k"
    and ns: "CHR ''_'' \<notin> set (nn_Namespace pod)"
    and run: "AttacheBPFProbes env pod (ident_of pod) n live l k = (r, l', k')"
  shows "if \<not> live \<and> deletedPods l (pod_name pod) \<noteq> None then r = Inr False \<and> l' = l \<and> k' = k
    else deletedPods l' (pod_name pod) = None \<and>
      (case r of
         Inl e \<Rightarrow> \<forall>d. podToProgMap l' d (pod_name pod) = None
       | Inr first \<Rightarrow> first = (\<not> (\<forall>d. \<exists>fd. owns_fd l (ident_of pod) d fd)) \<and>
           (\<forall>d. \<exists>fd. podToProgMap l' d (pod_name pod) = Some fd \<and> owns_fd l' (ident_of pod) d fd))"
  by (rule attach_spec [OF assms])

theorem attach_outcome_witness:
  "\<exists>l' k'. AttacheBPFProbes sim_env (example_pod ''b'') (ident_of (example_pod ''b'')) 1 True
      (fst example_state) (snd example_state) = (Inr False, l', k') \<and>
    (\<exists>fd. podToProgMap l' Egress (pod_name (example_pod ''b'')) = Some fd)"
proof -
  let ?l = "fst example_state" and ?k = "snd example_state" and ?p = "example_pod ''b''"
  have inv: "client_inv sim_view ?l ?k" by (rule client_reachable_inv [OF sim_env_laws example_reachable])
  obtain r l' k' where run: "AttacheBPFProbes sim_env ?p (ident_of ?p) 1 True ?l ?k = (r, l', k')"
    using prod_cases3 by blast
  have ns: "CHR ''_'' \<notin> set (nn_Namespace ?p)" by (simp add: example_pod_def)
  have at: "podToProgMap ?l Ingress (pod_name ?p) = Some 2" by (simp add: example_attached)
  have both: "podToProgMap ?l Ingress (pod_name ?p) = None \<longleftrightarrow> podToProgMap ?l Egress (pod_name ?p) = None"
    by (rule caches_okD(4) [OF client_invD(1) [OF inv]])
  then have "\<exists>fd. podToProgMap ?l d (pod_name ?p) = Some fd" for d using at by (cases d) auto
  then have ow: "\<exists>fd. owns_fd ?l (ident_of ?p) d fd" for d
    using client_invD(2) [OF inv] pod_ident_of [OF ns] unfolding pods_ok_def by metis
  have "\<exists>b. r = Inr b" using run at both by (auto simp: AttacheBPFProbes_unfold)
  with attach_outcome [OF sim_env_laws example_reachable ns run] ow run show ?thesis by auto blast
qed

text \<open>Steps that do not touch a pod's deletion marker, recorded at time \<open>t\<close>: anything but a CNI ADD
  of that pod and a cleanup more than five minutes later.\<close>

fun keeps_marker :: "string \<Rightarrow> int \<Rightarrow> client_op \<Rightarrow> bool" where
  "keeps_marker p t (Attach pod n live) = (live \<longrightarrow> pod_name pod \<noteq> p)"
| "keeps_marker p t (Delete now pod) = (pod_name pod = p \<longrightarrow> t \<le> now)"
| "keeps_marker p t (Cleanup now) = (now - t \<le> deletedPodsMinAge)"
| "keeps_marker p t _ = True"

lemma marker_step:
  assumes laws: "env_laws env kv" and inv: "client_inv kv l k" and op: "valid_op x" "keeps_marker p t x"
    and m: "\<exists>t' \<ge> t. deletedPods l p = Some t'" and run: "client_step env x (l, k) = (l', k')"
  shows "\<exists>t' \<ge> t. deletedPods l' p = Some t'"
proof (cases x)
  case (Attach pod n live)
  obtain r where "AttacheBPFProbes env pod (ident_of pod) n live l k = (r, l', k')"
    using run Attach by (cases "AttacheBPFProbes env pod (ident_of pod) n live l k") auto
  from laws inv this show ?thesis
  proof (cases rule: AttacheBPFProbes_cases)
    case present
    then show ?thesis using m op Attach by auto
  next
    case (failed e)
    then show ?thesis using m op Attach by (auto simp: same_caches_def split: if_splits)
  next
    case (attached l2 fds)
    then show ?thesis using m op Attach by (auto simp: same_caches_def register_both_fields split: if_splits)
  qed (use m in simp)
next
  case (Delete now pod)
  then have "deletedPods l' = (deletedPods l)(pod_name pod \<mapsto> now)"
    using run forget_pod_fields(3) [OF client_invD(1) [OF inv], of pod now]
    by (auto simp: DeleteBPFProbes_unfold deleteBPFProbes_def Let_def split: if_splits)
  then show ?thesis using m op Delete by auto
next
  case (UpdateMaps os i ing eg)
  then obtain r where "UpdateEbpfMaps env os i ing eg l k = (r, l', k')"
    using run by (cases "UpdateEbpfMaps env os i ing eg l k") auto
  with UpdateEbpfMaps_spec [OF laws inv _ this] op UpdateMaps m show ?thesis by (simp add: same_caches_def)
next
  case (UpdateClusterMaps os i ing eg)
  then obtain r where "UpdateClusterPolicyEbpfMaps env os i ing eg l k = (r, l', k')"
    using run by (cases "UpdateClusterPolicyEbpfMaps env os i ing eg l k") auto
  with UpdateClusterPolicyEbpfMaps_spec [OF laws inv _ this] op UpdateClusterMaps m show ?thesis
    by (simp add: same_caches_def)
next
  case (Cleanup now)
  with run op m show ?thesis by (auto simp: cleanupDeletedPodsIfNeeded_def)
qed (use run m in auto)

lemma marker_run:
  assumes laws: "env_laws env kv" and "client_inv kv l k" and "\<forall>x \<in> set ops. valid_op x \<and> keeps_marker p t x"
    and "\<exists>t' \<ge> t. deletedPods l p = Some t'" and "client_run env ops (l, k) = (l', k')"
  shows "\<exists>t' \<ge> t. deletedPods l' p = Some t'"
  using assms(2-)
proof (induction ops arbitrary: l k)
  case (Cons x xs)
  obtain l1 k1 where s: "client_step env x (l, k) = (l1, k1)" by force
  have v: "valid_op x" "keeps_marker p t x" using Cons.prems(2) by simp_all
  show ?case
    using Cons.IH [OF client_step_inv [OF laws v(1) Cons.prems(1) s] _ marker_step [OF laws Cons.prems(1) v Cons.prems(3) s]]
      Cons.prems(2, 4) s by (simp add: client_run_def)
qed (simp add: client_run_def)

text \<open>C9: After a pod is deleted, no sequence of calls attaches it again, whatever reconcilers
  working from stale policies ask for, until the CNI adds a pod of that name or the five-minute
  cleanup drops the marker.\<close>
theorem deleted_pod_stays_detached:
  assumes laws: "env_laws env kv" and reach: "client_reachable env l k"
    and ns: "CHR ''_'' \<notin> set (nn_Namespace pod)"
    and ops: "\<forall>x \<in> set ops. valid_op x \<and> keeps_marker (pod_name pod) t x"
    and run: "client_run env (Delete t pod # ops) (l, k) = (l', k')"
  shows "podToProgMap l' d (pod_name pod) = None"
proof -
  have inv: "client_inv kv l k" by (rule client_reachable_inv [OF laws reach])
  obtain l1 k1 where s: "client_step env (Delete t pod) (l, k) = (l1, k1)" by force
  have v: "valid_op (Delete t pod)" using ns by simp
  have i1: "client_inv kv l1 k1" by (rule client_step_inv [OF laws v inv s])
  have "deletedPods l1 = (deletedPods l)(pod_name pod \<mapsto> t)"
    using s forget_pod_fields(3) [OF client_invD(1) [OF inv], of pod t]
    by (auto simp: DeleteBPFProbes_unfold deleteBPFProbes_def Let_def split: if_splits)
  then have m: "\<exists>t' \<ge> t. deletedPods l1 (pod_name pod) = Some t'" by simp
  have r: "client_run env ops (l1, k1) = (l', k')" using run s by (simp add: client_run_def)
  have "deletedPods l' (pod_name pod) \<noteq> None" using marker_run [OF laws i1 ops m r] by auto
  then show ?thesis
    using caches_okD(5) [OF client_invD(1) [OF client_run_inv [OF laws _ i1 r]]] ops by blast
qed

theorem deleted_pod_stays_detached_witness:
  "podToProgMap (fst (client_run sim_env [Delete 100 (example_pod ''a''), Attach (example_pod ''a'') 1 False, Cleanup 200]
      example_state)) Ingress (pod_name (example_pod ''a'')) = None"
proof -
  let ?ops = "[Attach (example_pod ''a'') 1 False, Cleanup 200]"
  obtain l' k' where r: "client_run sim_env (Delete 100 (example_pod ''a'') # ?ops) (fst example_state, snd example_state) = (l', k')"
    by force
  have "\<forall>x \<in> set ?ops. valid_op x \<and> keeps_marker (pod_name (example_pod ''a'')) 100 x"
    by (simp add: example_pod_def deletedPodsMinAge_def)
  from deleted_pod_stays_detached [OF sim_env_laws example_reachable _ this r] r show ?thesis
    by (simp add: example_pod_def)
qed

lemma UpdateEbpfMaps_no_context:
  assumes "policyEndpointeBPFContext l i = None"
  shows "\<exists>r. UpdateEbpfMaps env os i ing eg l k = (r, l, k) \<and> r \<noteq> Inr []"
  using assms
  by (cases "ComputeMapEntriesFromEndpointRules (ordFw os Ingress) (fwRuleProcessor l) ing";
      cases "ComputeMapEntriesFromEndpointRules (ordFw os Egress) (fwRuleProcessor l) eg")
    (simp_all add: UpdateEbpfMaps_def update_both_def)

text \<open>When writing the network policy rules of an identifier reports no error, the kernel map of
  each loaded direction holds every entry computed from that direction's rules, and exactly those
  entries if no deletion was refused. Without a context the call fails and changes nothing.\<close>
theorem UpdateEbpfMaps_installs:
  assumes laws: "env_laws env kv" and reach: "client_reachable env l k" and os: "orders_range os"
    and run: "UpdateEbpfMaps env os i ing eg l k = (r, l', k')"
  shows "(r = Inr [] \<longrightarrow> (\<exists>c. policyEndpointeBPFContext l i = Some c \<and>
       (\<forall>d. prog_fd c d \<noteq> 0 \<longrightarrow> (\<exists>m.
          ComputeMapEntriesFromEndpointRules (ordFw os d) (fwRuleProcessor l) (case d of Ingress \<Rightarrow> ing | Egress \<Rightarrow> eg) = Inr m \<and>
          map_holds kv k' (map_at (pgmInfo c d) (mapName PolicyMap d)) m)))) \<and>
    (\<not> HasBPFContext l i \<longrightarrow> r \<noteq> Inr [] \<and> l' = l \<and> k' = k)"
  using UpdateEbpfMaps_spec [OF laws client_reachable_inv [OF laws reach] os run]
    UpdateEbpfMaps_no_context [of l i env os ing eg k] run
  by (auto simp: HasBPFContext_def)

definition example_go_orders :: go_orders where
  "example_go_orders = \<lparr>ordFw = (\<lambda>_. example_orders), ordCp = (\<lambda>_. \<lparr>ord_cp_cidrs = id, ord_cp_rules = (\<lambda>_. rev)\<rparr>),
     ordAdd = (\<lambda>_. rev), ordCur = (\<lambda>_. id)\<rparr>"

lemma example_go_orders_range: "orders_range example_go_orders"
  by (simp add: orders_range_def example_go_orders_def)

lemma example_update:
  "fst (UpdateEbpfMaps sim_env example_go_orders ''web-7d@shop'' [] [] (fst example_state) (snd example_state)) = Inr []"
  by code_simp

lemma example_context:
  "case policyEndpointeBPFContext (fst example_state) ''web-7d@shop'' of None \<Rightarrow> False
   | Some c \<Rightarrow> prog_fd c Ingress \<noteq> 0 \<and> prog_fd c Egress \<noteq> 0"
  by code_simp

theorem UpdateEbpfMaps_installs_witness:
  "\<exists>c m k'. policyEndpointeBPFContext (fst example_state) ''web-7d@shop'' = Some c \<and>
     k' = snd (snd (UpdateEbpfMaps sim_env example_go_orders ''web-7d@shop'' [] [] (fst example_state) (snd example_state))) \<and>
     map_holds sim_view k' (map_at (pgmInfo c Ingress) TC_INGRESS_MAP) m"
proof -
  obtain r l' k' where r: "UpdateEbpfMaps sim_env example_go_orders ''web-7d@shop'' [] [] (fst example_state) (snd example_state) = (r, l', k')"
    using prod_cases3 by blast
  then have "r = Inr []" using example_update by simp
  with UpdateEbpfMaps_installs [OF sim_env_laws example_reachable example_go_orders_range r]
  obtain c where c: "policyEndpointeBPFContext (fst example_state) ''web-7d@shop'' = Some c"
    and h: "\<forall>d. prog_fd c d \<noteq> 0 \<longrightarrow> (\<exists>m. ComputeMapEntriesFromEndpointRules (ordFw example_go_orders d)
        (fwRuleProcessor (fst example_state)) (case d of Ingress \<Rightarrow> [] | Egress \<Rightarrow> []) = Inr m \<and>
        map_holds sim_view k' (map_at (pgmInfo c d) (mapName PolicyMap d)) m)" by blast
  have "prog_fd c Ingress \<noteq> 0" using example_context c by simp
  with h [rule_format, of Ingress] obtain m where "map_holds sim_view k' (map_at (pgmInfo c Ingress) TC_INGRESS_MAP) m"
    by auto
  with c r show ?thesis by auto
qed

text \<open>Pod state entries: seeding keeps an entry that is already there and otherwise writes the
  given state, so seeding twice is the same as seeding once; updating overwrites. Both report success
  only when every requested direction that has a program was written.\<close>
theorem pod_state_written:
  assumes laws: "env_laws env kv" and reach: "client_reachable env l k"
    and ctx: "policyEndpointeBPFContext l i = Some c" and fd: "prog_fd c d \<noteq> 0"
  shows "(case CreatePodStateEbpfEntryIfNotExists env i key state l k of (r, k') \<Rightarrow> r = [] \<longrightarrow>
       kv_maps kv k' (MapID (map_at (pgmInfo c d) (podStateMapName d))) (pod_state_key key) =
         Some (case kv_maps kv k (MapID (map_at (pgmInfo c d) (podStateMapName d))) (pod_state_key key) of
                 None \<Rightarrow> pod_state_val state | Some v \<Rightarrow> v)) \<and>
    (case UpdatePodStateEbpfMaps env i key state ui ue l k of (r, k') \<Rightarrow>
       r = [] \<and> (case d of Ingress \<Rightarrow> ui | Egress \<Rightarrow> ue) \<longrightarrow>
       kv_maps kv k' (MapID (map_at (pgmInfo c d) (podStateMapName d))) (pod_state_key key) = Some (pod_state_val state))"
proof -
  have inv: "client_inv kv l k" by (rule client_reachable_inv [OF laws reach])
  obtain r1 k1 where c1: "CreatePodStateEbpfEntryIfNotExists env i key state l k = (r1, k1)" by force
  obtain r2 k2 where c2: "UpdatePodStateEbpfMaps env i key state ui ue l k = (r2, k2)" by force
  note s1 = write_states_spec [OF inv state_calls(1) [OF laws] c1 [unfolded pod_state_ops]]
  note s2 = write_states_spec [OF inv state_calls(2) [OF laws] c2 [unfolded pod_state_ops]]
  from s1 s2 ctx fd show ?thesis unfolding c1 c2 by auto
qed

lemma example_state_update:
  "fst (UpdatePodStateEbpfMaps sim_env ''web-7d@shop'' 0 2 False True (fst example_state) (snd example_state)) = []"
  by code_simp

theorem pod_state_written_witness:
  "\<exists>c k'. policyEndpointeBPFContext (fst example_state) ''web-7d@shop'' = Some c \<and>
     UpdatePodStateEbpfMaps sim_env ''web-7d@shop'' 0 2 False True (fst example_state) (snd example_state) = ([], k') \<and>
     kv_maps sim_view k' (MapID (map_at (pgmInfo c Egress) TC_EGRESS_POD_STATE_MAP)) (pod_state_key 0) = Some [2]"
proof -
  obtain c where c: "policyEndpointeBPFContext (fst example_state) ''web-7d@shop'' = Some c" "prog_fd c Egress \<noteq> 0"
    using example_context by (auto split: option.splits)
  obtain k' where k': "UpdatePodStateEbpfMaps sim_env ''web-7d@shop'' 0 2 False True (fst example_state) (snd example_state) = ([], k')"
    using example_state_update by (metis prod.collapse)
  with c pod_state_written [OF sim_env_laws example_reachable c, of 0 2 False True] show ?thesis
    by (auto simp: pod_state_val_def)
qed

end
