(* ===== verification/Tiers.thy ===== *)
theory Tiers
  imports BpfSafety
begin

text \<open>
  What the two reconcilers share when they program an identifier through the eBPF client: write the
  entries of one kind of policy map, set the pod state of that tier, and seed the pod state of the
  other tier. The locale \<open>policy_tier\<close> states what a tier needs of its map update; inside it, a write
  that reports no error leaves the rules in force, and a write with any outcome leaves the other tier
  and the other identifiers as they were.
\<close>

section \<open>Calls that may fail\<close>

text \<open>A call that may panic or return an error, on the state of the client and the kernel; the
  next statement runs only after nil.\<close>

type_synonym 's outcome = "(go_panic + string list) \<times> 's"

definition on_ok :: "'s outcome \<Rightarrow> ('s \<Rightarrow> 's outcome) \<Rightarrow> 's outcome" where
  "on_ok rs f = (case rs of (r, s) \<Rightarrow> if r = Inr [] then f s else (r, s))"

section \<open>Effects on the client\<close>

text \<open>Every effect of the reconciler on the client is a sequence of the client's operations.\<close>

definition client_reaches :: "'k bpf_env \<Rightarrow> bpfClient \<times> 'k \<Rightarrow> bpfClient \<times> 'k \<Rightarrow> bool" where
  "client_reaches env s s' \<longleftrightarrow> (\<exists>ops. (\<forall>x \<in> set ops. valid_op x) \<and> client_run env ops s = s')"

lemma client_reaches_refl [simp]: "client_reaches env s s"
  unfolding client_reaches_def by (rule exI [of _ "[]"]) (simp add: client_run_def)

lemma client_reaches_trans:
  assumes "client_reaches env s s1" "client_reaches env s1 s2" shows "client_reaches env s s2"
proof -
  obtain a b where "\<forall>x \<in> set a. valid_op x" "client_run env a s = s1" "\<forall>x \<in> set b. valid_op x" "client_run env b s1 = s2"
    using assms unfolding client_reaches_def by blast
  then show ?thesis unfolding client_reaches_def by (intro exI [of _ "a @ b"]) (auto simp: client_run_def)
qed

lemma client_reaches_step: "valid_op x \<Longrightarrow> client_step env x s = s' \<Longrightarrow> client_reaches env s s'"
  unfolding client_reaches_def by (intro exI [of _ "[x]"]) (auto simp: client_run_def)

lemma client_reaches_reachable:
  "client_reaches env (l, k) (l', k') \<Longrightarrow> client_reachable env l k \<Longrightarrow> client_reachable env l' k'"
  unfolding client_reaches_def using client_reachable_run by metis

text \<open>A property of the effects on the client that attaching pods has and that composes; the
  reconcilers extend it by the map updates they use.\<close>

locale client_effect =
  fixes env :: "'k bpf_env" and R :: "bpfClient \<times> 'k \<Rightarrow> bpfClient \<times> 'k \<Rightarrow> bool"
  assumes effect_refl: "R s s"
    and effect_trans: "R s s1 \<Longrightarrow> R s1 s2 \<Longrightarrow> R s s2"
    and effect_attach: "CHR ''_'' \<notin> set (nn_Namespace pod) \<Longrightarrow> R (l, k) (snd (AttacheBPFProbes env pod (ident_of pod) n live l k))"
begin

lemma on_ok_effect:
  assumes "R s (snd a)" "\<And>s1. R s1 (snd (f s1))"
  shows "R s (snd (on_ok a f))"
  using effect_trans [OF assms(1) assms(2) [of "snd a"]] assms(1) by (cases a) (auto simp: on_ok_def)

end

interpretation reach: client_effect env "client_reaches env" for env
proof
  show "client_reaches env (l, k) (snd (AttacheBPFProbes env pod (ident_of pod) n live l k))"
    if "CHR ''_'' \<notin> set (nn_Namespace pod)" for env :: "'k bpf_env" and pod n live l k
    by (rule client_reaches_step [of "Attach pod n live"]) (simp_all add: that)
qed (auto intro: client_reaches_trans)

lemma update_calls_reach:
  "orders_range os \<Longrightarrow> client_reaches env (l, k) (snd (UpdateEbpfMaps env os i ing eg l k))"
  "orders_range os \<Longrightarrow> client_reaches env (l, k) (snd (UpdateClusterPolicyEbpfMaps env os i ing eg l k))"
  "client_reaches env (l, k) (l, snd (UpdatePodStateEbpfMaps env i key st ui ue l k))"
  "client_reaches env (l, k) (l, snd (CreatePodStateEbpfEntryIfNotExists env i key st l k))"
  by (rule client_reaches_step [of "UpdateMaps os i ing eg"], simp_all)
    (rule client_reaches_step [of "UpdateClusterMaps os i ing eg"], simp_all,
     rule client_reaches_step [of "UpdateState i key st ui ue"], simp_all,
     rule client_reaches_step [of "CreateState i key st"], simp_all)

lemma lift_reaches: "client_reaches env s (l, snd x) \<Longrightarrow> client_reaches env s (snd (case x of (e, k') \<Rightarrow> (Inr e, l, k')))"
  by (cases x) simp

section \<open>What programming leaves in the kernel\<close>

lemma write_state_frame:
  assumes call: "state_call kv call f" and run: "write_state call what enabled d c key state k = (r, k')"
    and "kv_maps kv k' j x \<noteq> kv_maps kv k j x"
  shows "j = MapID (map_at (pgmInfo c d) (podStateMapName d)) \<and> x = pod_state_key key \<and> prog_fd c d \<noteq> 0"
proof -
  let ?b = "map_at (pgmInfo c d) (podStateMapName d)"
  obtain q k1 where q: "call ?b (pod_state_key key) (pod_state_val state) k = (q, k1)" by force
  have "kv_maps kv k1 = (if q = None then (kv_maps kv k)(MapID ?b := (kv_maps kv k (MapID ?b))
      (pod_state_key key \<mapsto> f (pod_state_val state) (kv_maps kv k (MapID ?b) (pod_state_key key)))) else kv_maps kv k)"
    using call q unfolding state_call_def by metis
  with run q assms(3) show ?thesis by (auto simp: write_state_def split: if_splits option.splits)
qed

lemma write_states_frame:
  assumes call: "state_call kv call f" and c: "policyEndpointeBPFContext l i = Some c"
    and run: "write_states call what enabled i key state l k = (r, k')" and ne: "kv_maps kv k' j x \<noteq> kv_maps kv k j x"
  shows "\<exists>d. j = MapID (map_at (pgmInfo c d) (podStateMapName d)) \<and> x = pod_state_key key \<and> prog_fd c d \<noteq> 0"
proof -
  obtain e1 k1 where w1: "write_state call what (enabled Ingress) Ingress c key state k = (e1, k1)" by force
  obtain e2 k2 where w2: "write_state call what (enabled Egress) Egress c key state k1 = (e2, k2)" by force
  have "k' = k2" using run c w1 w2 by (auto simp: write_states_def)
  with ne have "kv_maps kv k2 j x \<noteq> kv_maps kv k1 j x \<or> kv_maps kv k1 j x \<noteq> kv_maps kv k j x" by metis
  with write_state_frame [OF call w1] write_state_frame [OF call w2] show ?thesis by blast
qed

text \<open>Policy maps are not pod state maps, so writing pod states leaves them.\<close>

lemma write_states_policy_maps:
  assumes inv: "client_inv kv l k" and call: "state_call kv call f" and c: "policyEndpointeBPFContext l i = Some c"
    and run: "write_states call what enabled i key state l k = (r, k')" and fd: "prog_fd c d \<noteq> 0"
  shows "kv_maps kv k' (MapID (map_at (pgmInfo c d) (mapName kd d))) = kv_maps kv k (MapID (map_at (pgmInfo c d) (mapName kd d)))"
proof (rule ccontr)
  assume "\<not> ?thesis"
  then obtain x where "kv_maps kv k' (MapID (map_at (pgmInfo c d) (mapName kd d))) x \<noteq>
      kv_maps kv k (MapID (map_at (pgmInfo c d) (mapName kd d))) x" by (auto simp: fun_eq_iff)
  from write_states_frame [OF call c run this]
  obtain e where e: "MapID (map_at (pgmInfo c d) (mapName kd d)) = MapID (map_at (pgmInfo c e) (podStateMapName e))"
    and fe: "prog_fd c e \<noteq> 0" by blast
  have "d = e \<and> mapName kd d = podStateMapName e"
    using progs_okD(5) [OF client_invD(3) [OF inv] owned_map_at [OF inv c fd mapName_policy]
        owned_map_at [OF inv c fe podStateMapName_policy] e] by (elim conjE) (intro conjI)
  then show False using podStateMapName_neq [of d kd] by metis
qed

lemma pod_state_keys [simp]: "pod_state_key POD_STATE_MAP_KEY \<noteq> pod_state_key CLUSTER_POLICY_POD_STATE_MAP_KEY"
  by (simp add: pod_state_key_def POD_STATE_MAP_KEY_def CLUSTER_POLICY_POD_STATE_MAP_KEY_def)

lemma on_ok_success: "on_ok a f = (Inr [], s') \<longleftrightarrow> (\<exists>s. a = (Inr [], s) \<and> f s = (Inr [], s'))"
  by (cases a) (auto simp: on_ok_def)

lemma lift_success: "(case x of (e, k') \<Rightarrow> (Inr e, l, k')) = (Inr [], s) \<longleftrightarrow> (\<exists>k1. x = ([], k1) \<and> s = (l, k1))"
  by (cases x) auto

section \<open>Frames of the writes\<close>

lemma update_both_frame:
  assumes laws: "env_laws env kv" and inv: "client_inv kv l k" and os: "orders_range os"
    and wf: "\<And>d. go_map_wf (entries d)" and run: "update_both env os kd i entries l k = (r, l', k')"
    and ne: "kv_maps kv k' j \<noteq> kv_maps kv k j"
  shows "\<exists>c d. policyEndpointeBPFContext l i = Some c \<and> prog_fd c d \<noteq> 0 \<and> j = MapID (map_at (pgmInfo c d) (mapName kd d))"
proof (cases "policyEndpointeBPFContext l i")
  case None
  with run ne show ?thesis by (simp add: update_both_def)
next
  case (Some c)
  obtain r1 l1 k1 where u1: "update_map env os kd Ingress i (pgmInfo c Ingress) (entries Ingress) l k = (r1, l1, k1)"
    using prod_cases3 by blast
  obtain r2 l2 k2 where u2: "update_map env os kd Egress i (pgmInfo c Egress) (entries Egress) l1 k1 = (r2, l2, k2)"
    using prod_cases3 by blast
  note s1 = update_map_spec [OF laws inv os wf Some u1]
  then have c1: "policyEndpointeBPFContext l1 i = Some c" using Some by simp
  note s2 = update_map_spec [OF laws conjunct1 [OF s1] os wf c1 u2]
  have z: "prog_fd c d = 0 \<Longrightarrow> update_map env os kd d i (pgmInfo c d) e l0 k0 = (Inr None, l0, k0)" for d e l0 k0
    by (simp add: update_map_def prog_fd_def)
  have "k' = k1 \<or> k' = k2" using run Some u1 u2 by (auto simp: update_both_def split: sum.splits)
  then have "kv_maps kv k1 j \<noteq> kv_maps kv k j \<or> kv_maps kv k2 j \<noteq> kv_maps kv k1 j" using ne by metis
  then show ?thesis
  proof
    assume a: "kv_maps kv k1 j \<noteq> kv_maps kv k j"
    with z [of Ingress "entries Ingress" l k] u1 have "prog_fd c Ingress \<noteq> 0" by auto
    moreover have "j = MapID (map_at (pgmInfo c Ingress) (mapName kd Ingress))" using s1 a by blast
    ultimately show ?thesis using Some by blast
  next
    assume a: "kv_maps kv k2 j \<noteq> kv_maps kv k1 j"
    with z [of Egress "entries Egress" l1 k1] u2 have "prog_fd c Egress \<noteq> 0" by auto
    moreover have "j = MapID (map_at (pgmInfo c Egress) (mapName kd Egress))" using s2 a by blast
    ultimately show ?thesis using Some by blast
  qed
qed

lemma write_state_grows:
  assumes call: "state_call kv call f" and run: "write_state call what enabled d c key state k = (r, k')"
    and w: "kv_maps kv k j x = Some w"
  shows "\<exists>w'. kv_maps kv k' j x = Some w' \<and> ((\<forall>v. f v (Some w) = w) \<longrightarrow> w' = w)"
proof -
  let ?b = "map_at (pgmInfo c d) (podStateMapName d)"
  obtain q k1 where q: "call ?b (pod_state_key key) (pod_state_val state) k = (q, k1)" by force
  have "kv_maps kv k1 = (if q = None then (kv_maps kv k)(MapID ?b := (kv_maps kv k (MapID ?b))
      (pod_state_key key \<mapsto> f (pod_state_val state) (kv_maps kv k (MapID ?b) (pod_state_key key)))) else kv_maps kv k)"
    using call q unfolding state_call_def by metis
  with run q w show ?thesis by (auto simp: write_state_def split: if_splits option.splits)
qed

lemma write_states_grows:
  assumes call: "state_call kv call f" and run: "write_states call what enabled i key state l k = (r, k')"
    and w: "kv_maps kv k j x = Some w"
  shows "\<exists>w'. kv_maps kv k' j x = Some w' \<and> ((\<forall>v. f v (Some w) = w) \<longrightarrow> w' = w)"
proof (cases "policyEndpointeBPFContext l i")
  case None
  with run w show ?thesis by (simp add: write_states_def)
next
  case (Some c)
  obtain e1 k1 where w1: "write_state call what (enabled Ingress) Ingress c key state k = (e1, k1)" by force
  obtain e2 k2 where w2: "write_state call what (enabled Egress) Egress c key state k1 = (e2, k2)" by force
  have k': "k' = k2" using run Some w1 w2 by (auto simp: write_states_def)
  obtain w1' where "kv_maps kv k1 j x = Some w1'" "(\<forall>v. f v (Some w) = w) \<longrightarrow> w1' = w" using write_state_grows [OF call w1 w] by blast
  with write_state_grows [OF call w2] show ?thesis unfolding k' by metis
qed

lemma write_states_log:
  assumes call: "state_call kv call f" and run: "write_states call what enabled i key state l k = (r, k')"
  shows "kv_refused kv k' = kv_refused kv k"
proof -
  have "call b key v k = (q, k1) \<Longrightarrow> kv_refused kv k1 = kv_refused kv k" for b key v k q k1
    using call unfolding state_call_def by metis
  then have "write_state call what e d c key state k = (q, k1) \<Longrightarrow> kv_refused kv k1 = kv_refused kv k" for e d c k q k1
    by (force simp: write_state_def split: if_splits option.splits prod.splits)
  with run show ?thesis by (force simp: write_states_def split: option.splits prod.splits)
qed

section \<open>A tier in force\<close>

text \<open>What is in force for an identifier: in each direction with a program, the policy map of the tier
  holds the entries, the tier's pod state is \<open>state\<close>, and the other tier's pod state is set.\<close>

definition tier_in_force ::
  "'k kernel_view \<Rightarrow> bpfClient \<Rightarrow> 'k \<Rightarrow> string \<Rightarrow> map_kind \<Rightarrow> int \<Rightarrow> int \<Rightarrow> (dir \<Rightarrow> go_panic + bpf_entries) \<Rightarrow>
     int \<Rightarrow> bool" where
  "tier_in_force kv l k i kind key other entries state \<longleftrightarrow> (\<exists>c. policyEndpointeBPFContext l i = Some c \<and>
     (\<forall>d. prog_fd c d \<noteq> 0 \<longrightarrow>
        (\<exists>m. entries d = Inr m \<and> map_holds kv k (map_at (pgmInfo c d) (mapName kind d)) m) \<and>
        kv_maps kv k (MapID (map_at (pgmInfo c d) (podStateMapName d))) (pod_state_key key) = Some (pod_state_val state) \<and>
        kv_maps kv k (MapID (map_at (pgmInfo c d) (podStateMapName d))) (pod_state_key other) \<noteq> None))"

lemma tier_in_force_mono:
  assumes "tier_in_force kv l k i kind key other entries state"
    and "policyEndpointeBPFContext l' i = policyEndpointeBPFContext l i"
    and "kv_refused kv k \<subseteq> kv_refused kv k'"
    and "\<And>c d. policyEndpointeBPFContext l i = Some c \<Longrightarrow> prog_fd c d \<noteq> 0 \<Longrightarrow>
      kv_maps kv k' (MapID (map_at (pgmInfo c d) (mapName kind d))) = kv_maps kv k (MapID (map_at (pgmInfo c d) (mapName kind d)))"
    and "\<And>c d w. policyEndpointeBPFContext l i = Some c \<Longrightarrow> prog_fd c d \<noteq> 0 \<Longrightarrow>
      kv_maps kv k (MapID (map_at (pgmInfo c d) (podStateMapName d))) (pod_state_key key) = Some w \<Longrightarrow>
      kv_maps kv k' (MapID (map_at (pgmInfo c d) (podStateMapName d))) (pod_state_key key) = Some w"
    and "\<And>c d w. policyEndpointeBPFContext l i = Some c \<Longrightarrow> prog_fd c d \<noteq> 0 \<Longrightarrow>
      kv_maps kv k (MapID (map_at (pgmInfo c d) (podStateMapName d))) (pod_state_key other) = Some w \<Longrightarrow>
      kv_maps kv k' (MapID (map_at (pgmInfo c d) (podStateMapName d))) (pod_state_key other) \<noteq> None"
  shows "tier_in_force kv l' k' i kind key other entries state"
proof -
  obtain c where c: "policyEndpointeBPFContext l i = Some c" and h: "\<And>d. prog_fd c d \<noteq> 0 \<Longrightarrow>
        (\<exists>m. entries d = Inr m \<and> map_holds kv k (map_at (pgmInfo c d) (mapName kind d)) m) \<and>
        kv_maps kv k (MapID (map_at (pgmInfo c d) (podStateMapName d))) (pod_state_key key) = Some (pod_state_val state) \<and>
        kv_maps kv k (MapID (map_at (pgmInfo c d) (podStateMapName d))) (pod_state_key other) \<noteq> None"
    using assms(1) unfolding tier_in_force_def by blast
  have "(\<exists>m. entries d = Inr m \<and> map_holds kv k' (map_at (pgmInfo c d) (mapName kind d)) m) \<and>
        kv_maps kv k' (MapID (map_at (pgmInfo c d) (podStateMapName d))) (pod_state_key key) = Some (pod_state_val state) \<and>
        kv_maps kv k' (MapID (map_at (pgmInfo c d) (podStateMapName d))) (pod_state_key other) \<noteq> None"
    if fd: "prog_fd c d \<noteq> 0" for d
    using h [OF fd] map_holds_mono [OF _ assms(4) [OF c fd] assms(3)] assms(5, 6) [OF c fd] by blast
  with c assms(2) show ?thesis unfolding tier_in_force_def by auto
qed

text \<open>Pod state writes leave every tier of every identifier, except the written key.\<close>

lemma write_states_tier:
  assumes inv: "client_inv kv l k" and call: "state_call kv call f"
    and run: "write_states call what enabled i0 key0 state0 l k = (r, k')"
    and diff: "i \<noteq> i0 \<or> pod_state_key key \<noteq> pod_state_key key0 \<or> (\<forall>v w. f v (Some w) = w)"
    and t: "tier_in_force kv l k i kind key other entries state"
  shows "tier_in_force kv l k' i kind key other entries state"
proof (rule tier_in_force_mono [OF t])
  show "kv_refused kv k \<subseteq> kv_refused kv k'" using write_states_log [OF call run] by simp
  note unique = progs_okD(5) [OF client_invD(3) [OF inv]]
  fix c d assume c: "policyEndpointeBPFContext l i = Some c" and fd: "prog_fd c d \<noteq> 0"
  have at: "\<exists>c0 d0. policyEndpointeBPFContext l i0 = Some c0 \<and> prog_fd c0 d0 \<noteq> 0 \<and>
      j = MapID (map_at (pgmInfo c0 d0) (podStateMapName d0)) \<and> x = pod_state_key key0" if "kv_maps kv k' j x \<noteq> kv_maps kv k j x" for j x
  proof (cases "policyEndpointeBPFContext l i0")
    case None
    with run that show ?thesis by (simp add: write_states_def)
  next
    case (Some c0)
    with write_states_frame [OF call Some run that] show ?thesis by blast
  qed
  let ?p = "map_at (pgmInfo c d) (mapName kind d)" and ?s = "map_at (pgmInfo c d) (podStateMapName d)"
  have os: "owns_map l i d (podStateMapName d) ?s" and op: "owns_map l i d (mapName kind d) ?p"
    by (rule owned_map_at [OF inv c fd podStateMapName_policy], rule owned_map_at [OF inv c fd mapName_policy])
  show "kv_maps kv k' (MapID ?p) = kv_maps kv k (MapID ?p)"
  proof (rule ccontr)
    assume "\<not> ?thesis"
    then obtain x where "kv_maps kv k' (MapID ?p) x \<noteq> kv_maps kv k (MapID ?p) x" by (auto simp: fun_eq_iff)
    from at [OF this] obtain c0 d0 where "policyEndpointeBPFContext l i0 = Some c0" "prog_fd c0 d0 \<noteq> 0"
      "MapID ?p = MapID (map_at (pgmInfo c0 d0) (podStateMapName d0))" by blast
    from unique [OF op owned_map_at [OF inv this(1, 2) podStateMapName_policy] this(3)] show False
      using podStateMapName_neq [of d kind] by metis
  qed
  fix w
  show "kv_maps kv k' (MapID ?s) (pod_state_key other) \<noteq> None" if "kv_maps kv k (MapID ?s) (pod_state_key other) = Some w"
    using write_states_grows [OF call run that] by auto
  assume w: "kv_maps kv k (MapID ?s) (pod_state_key key) = Some w"
  show "kv_maps kv k' (MapID ?s) (pod_state_key key) = Some w"
  proof (rule ccontr)
    assume n: "\<not> ?thesis"
    then have "kv_maps kv k' (MapID ?s) (pod_state_key key) \<noteq> kv_maps kv k (MapID ?s) (pod_state_key key)" using w by simp
    from at [OF this] obtain c0 d0 where a: "policyEndpointeBPFContext l i0 = Some c0" "prog_fd c0 d0 \<noteq> 0"
      "MapID ?s = MapID (map_at (pgmInfo c0 d0) (podStateMapName d0))" "pod_state_key key = pod_state_key key0" by blast
    have "i = i0" using unique [OF os owned_map_at [OF inv a(1, 2) podStateMapName_policy] a(3)] by blast
    with diff a(4) have "\<forall>v w. f v (Some w) = w" by blast
    with write_states_grows [OF call run w] n show False by auto
  qed
qed simp

section \<open>Programming a tier\<close>

type_synonym 'k map_update =
  "'k bpf_env \<Rightarrow> go_orders \<Rightarrow> string \<Rightarrow> EbpfFirewallRules list \<Rightarrow> EbpfFirewallRules list \<Rightarrow> bpfClient \<Rightarrow> 'k \<Rightarrow>
     (bpfClient \<times> 'k) outcome"

definition program_tier ::
  "'k map_update \<Rightarrow> int \<Rightarrow> int \<Rightarrow> (bpfClient \<Rightarrow> int) \<Rightarrow> 'k bpf_env \<Rightarrow> go_orders \<Rightarrow> string \<Rightarrow> EbpfFirewallRules list \<Rightarrow>
     EbpfFirewallRules list \<Rightarrow> int \<Rightarrow> bpfClient \<times> 'k \<Rightarrow> (bpfClient \<times> 'k) outcome" where
  "program_tier update key other seed env os i ing eg state s =
     on_ok (update env os i ing eg (fst s) (snd s)) (\<lambda>(l, k).
     on_ok (case UpdatePodStateEbpfMaps env i key state True True l k of (e, k') \<Rightarrow> (Inr e, l, k')) (\<lambda>(l, k).
       case CreatePodStateEbpfEntryIfNotExists env i other (seed l) l k of (e, k') \<Rightarrow> (Inr e, l, k')))"

lemma program_tier_stages:
  assumes "program_tier update key other seed env os i ing eg state (l, k) = (r, l', k')"
  shows "\<exists>r1 k1 r2 k2 r3 k3. update env os i ing eg l k = (r1, l', k1) \<and>
    UpdatePodStateEbpfMaps env i key state True True l' k1 = (r2, k2) \<and>
    CreatePodStateEbpfEntryIfNotExists env i other (seed l') l' k2 = (r3, k3) \<and>
    (k' = k1 \<or> k' = k2 \<or> k' = k3) \<and> (r = Inr [] \<longrightarrow> r1 = Inr [] \<and> r2 = [] \<and> r3 = [] \<and> k' = k3)"
proof -
  obtain r1 l1 k1 where 1: "update env os i ing eg l k = (r1, l1, k1)" using prod_cases3 by blast
  obtain r2 k2 where 2: "UpdatePodStateEbpfMaps env i key state True True l1 k1 = (r2, k2)" by force
  obtain r3 k3 where 3: "CreatePodStateEbpfEntryIfNotExists env i other (seed l1) l1 k2 = (r3, k3)" by force
  have "l' = l1" using assms 1 2 3 by (auto simp: program_tier_def on_ok_def split: if_splits)
  moreover have "(k' = k1 \<or> k' = k2 \<or> k' = k3) \<and> (r = Inr [] \<longrightarrow> r1 = Inr [] \<and> r2 = [] \<and> r3 = [] \<and> k' = k3)"
    using assms 1 2 3 by (auto simp: program_tier_def on_ok_def split: if_splits)
  ultimately show ?thesis using 1 2 3 by blast
qed

text \<open>The laws of the map update of a tier: it keeps the client's invariant and its contexts, writes
  only the identifier's policy maps of its kind, and after no error these hold the computed entries.\<close>

locale policy_tier =
  fixes kind :: map_kind and key other :: int and seed :: "bpfClient \<Rightarrow> int"
    and compute :: "go_orders \<Rightarrow> dir \<Rightarrow> FirewallRuleProcessor \<Rightarrow> EbpfFirewallRules list \<Rightarrow> go_panic + bpf_entries"
    and update :: "'k map_update"
  assumes keys: "pod_state_key key \<noteq> pod_state_key other"
    and update_reaches: "orders_range os \<Longrightarrow> client_reaches env (l, k) (snd (update env os i ing eg l k))"
    and update_spec: "env_laws env kv \<Longrightarrow> client_inv kv l k \<Longrightarrow> orders_range os \<Longrightarrow> update env os i ing eg l k = (r, l', k') \<Longrightarrow>
      client_inv kv l' k' \<and> same_caches l l' \<and> policyEndpointeBPFContext l' = policyEndpointeBPFContext l \<and>
      (r = Inr [] \<longrightarrow> (\<exists>c. policyEndpointeBPFContext l i = Some c \<and> (\<forall>d. prog_fd c d \<noteq> 0 \<longrightarrow>
         (\<exists>m. compute os d (fwRuleProcessor l) (case d of Ingress \<Rightarrow> ing | Egress \<Rightarrow> eg) = Inr m \<and>
            map_holds kv k' (map_at (pgmInfo c d) (mapName kind d)) m))))"
    and update_log: "env_laws env kv \<Longrightarrow> update env os i ing eg l k = (r, l', k') \<Longrightarrow> kv_refused kv k \<subseteq> kv_refused kv k'"
    and update_frame: "env_laws env kv \<Longrightarrow> client_inv kv l k \<Longrightarrow> orders_range os \<Longrightarrow> update env os i ing eg l k = (r, l', k') \<Longrightarrow>
      kv_maps kv k' j \<noteq> kv_maps kv k j \<Longrightarrow>
      \<exists>c d. policyEndpointeBPFContext l i = Some c \<and> prog_fd c d \<noteq> 0 \<and> j = MapID (map_at (pgmInfo c d) (mapName kind d))"
begin

lemma program_reaches:
  assumes "orders_range os"
  shows "client_reaches env s (snd (program_tier update key other seed env os i ing eg state s))"
proof (cases s)
  case (Pair l k)
  have 3: "client_reaches env s1 (snd (case s1 of (l, k) \<Rightarrow>
      case CreatePodStateEbpfEntryIfNotExists env i other (seed l) l k of (e, k') \<Rightarrow> (Inr e, l, k')))" for s1
    by (cases s1) (simp add: lift_reaches update_calls_reach)
  show ?thesis
    unfolding program_tier_def
  proof (rule reach.on_ok_effect)
    show "client_reaches env s (snd (update env os i ing eg (fst s) (snd s)))"
      using update_reaches [OF assms] Pair by simp
  qed (auto simp: update_calls_reach intro!: reach.on_ok_effect lift_reaches 3 split del: if_split)
qed

lemma program_in_force:
  assumes laws: "env_laws env kv" and inv: "client_inv kv l k" and os: "orders_range os"
    and run: "program_tier update key other seed env os i ing eg state (l, k) = (Inr [], l', k')"
  shows "tier_in_force kv l' k' i kind key other
    (\<lambda>d. compute os d (fwRuleProcessor l') (case d of Ingress \<Rightarrow> ing | Egress \<Rightarrow> eg)) state"
proof -
  obtain k1 k2 where 1: "update env os i ing eg l k = (Inr [], l', k1)"
    and 2: "UpdatePodStateEbpfMaps env i key state True True l' k1 = ([], k2)"
    and 3: "CreatePodStateEbpfEntryIfNotExists env i other (seed l') l' k2 = ([], k')"
    using program_tier_stages [OF run] by auto
  note s1 = update_spec [OF laws inv os 1]
  then have inv1: "client_inv kv l' k1" and fw: "fwRuleProcessor l' = fwRuleProcessor l"
      and ctx: "policyEndpointeBPFContext l' = policyEndpointeBPFContext l" by (simp_all add: same_caches_def)
  obtain c where c: "policyEndpointeBPFContext l' i = Some c" and h: "\<And>d. prog_fd c d \<noteq> 0 \<Longrightarrow> \<exists>m.
      compute os d (fwRuleProcessor l') (case d of Ingress \<Rightarrow> ing | Egress \<Rightarrow> eg) = Inr m \<and>
      map_holds kv k1 (map_at (pgmInfo c d) (mapName kind d)) m"
    using s1 by (auto simp: ctx fw)
  note sc = state_calls [OF laws]
  note w2 = write_states_spec [OF inv1 sc(2) 2 [unfolded pod_state_ops]]
  then have inv2: "client_inv kv l' k2" by simp
  note w3 = write_states_spec [OF inv2 sc(1) 3 [unfolded pod_state_ops]]
  have pm: "kv_maps kv k' (MapID (map_at (pgmInfo c d) (mapName kind d))) = kv_maps kv k1 (MapID (map_at (pgmInfo c d) (mapName kind d)))"
    if "prog_fd c d \<noteq> 0" for d
    using write_states_policy_maps [OF inv1 sc(2) c 2 [unfolded pod_state_ops] that]
      write_states_policy_maps [OF inv2 sc(1) c 3 [unfolded pod_state_ops] that] by metis
  have log: "kv_refused kv k1 \<subseteq> kv_refused kv k'"
    using write_states_log [OF sc(2) 2 [unfolded pod_state_ops]] write_states_log [OF sc(1) 3 [unfolded pod_state_ops]] by simp
  have st: "kv_maps kv k' j (pod_state_key key) = kv_maps kv k2 j (pod_state_key key)" for j
    using write_states_frame [OF sc(1) c 3 [unfolded pod_state_ops], of j "pod_state_key key"] keys by metis
  have "(\<exists>m. compute os d (fwRuleProcessor l') (case d of Ingress \<Rightarrow> ing | Egress \<Rightarrow> eg) = Inr m \<and>
        map_holds kv k' (map_at (pgmInfo c d) (mapName kind d)) m) \<and>
      kv_maps kv k' (MapID (map_at (pgmInfo c d) (podStateMapName d))) (pod_state_key key) = Some (pod_state_val state) \<and>
      kv_maps kv k' (MapID (map_at (pgmInfo c d) (podStateMapName d))) (pod_state_key other) \<noteq> None"
    if fd: "prog_fd c d \<noteq> 0" for d
  proof (intro conjI)
    show "\<exists>m. compute os d (fwRuleProcessor l') (case d of Ingress \<Rightarrow> ing | Egress \<Rightarrow> eg) = Inr m \<and>
        map_holds kv k' (map_at (pgmInfo c d) (mapName kind d)) m"
      using h [OF fd] map_holds_mono [OF _ pm [OF fd]] log by blast
    show "kv_maps kv k' (MapID (map_at (pgmInfo c d) (podStateMapName d))) (pod_state_key key) = Some (pod_state_val state)"
      using w2 c fd st [of "MapID (map_at (pgmInfo c d) (podStateMapName d))"] by (force split: dir.splits)
    show "kv_maps kv k' (MapID (map_at (pgmInfo c d) (podStateMapName d))) (pod_state_key other) \<noteq> None"
      using w3 c fd by auto
  qed
  with c show ?thesis unfolding tier_in_force_def by blast
qed

text \<open>The map update leaves the other kind of map, and other identifiers.\<close>

lemma update_keeps_map:
  assumes laws: "env_laws env kv" and inv: "client_inv kv l k" and os: "orders_range os"
    and run: "update env os i0 ing eg l k = (r, l', k')"
    and c: "policyEndpointeBPFContext l i = Some c" and fd: "prog_fd c d \<noteq> 0"
    and n: "n \<in> policy_maps d" "i \<noteq> i0 \<or> n \<noteq> mapName kind d"
  shows "kv_maps kv k' (MapID (map_at (pgmInfo c d) n)) = kv_maps kv k (MapID (map_at (pgmInfo c d) n))"
proof (rule ccontr)
  assume "\<not> ?thesis"
  from update_frame [OF laws inv os run this] obtain c0 d0 where a: "policyEndpointeBPFContext l i0 = Some c0" "prog_fd c0 d0 \<noteq> 0"
    "MapID (map_at (pgmInfo c d) n) = MapID (map_at (pgmInfo c0 d0) (mapName kind d0))" by blast
  have "i = i0 \<and> d = d0 \<and> n = mapName kind d0"
    using progs_okD(5) [OF client_invD(3) [OF inv] owned_map_at [OF inv c fd n(1)] owned_map_at [OF inv a(1, 2) mapName_policy] a(3)] by metis
  with n(2) show False by blast
qed

lemma update_tier:
  assumes laws: "env_laws env kv" and inv: "client_inv kv l k" and os: "orders_range os"
    and run: "update env os i0 ing eg l k = (r, l', k')" and diff: "i \<noteq> i0 \<or> kind' \<noteq> kind"
    and t: "tier_in_force kv l k i kind' key' other' entries state"
  shows "tier_in_force kv l' k' i kind' key' other' entries state"
proof (rule tier_in_force_mono [OF t])
  show "policyEndpointeBPFContext l' i = policyEndpointeBPFContext l i" using update_spec [OF laws inv os run] by simp
  show "kv_refused kv k \<subseteq> kv_refused kv k'" by (rule update_log [OF laws run])
  fix c d assume c: "policyEndpointeBPFContext l i = Some c" and fd: "prog_fd c d \<noteq> 0"
  note keep = update_keeps_map [OF laws inv os run c fd]
  have "i \<noteq> i0 \<or> mapName kind' d \<noteq> mapName kind d" using diff mapName_inject by blast
  with keep show "kv_maps kv k' (MapID (map_at (pgmInfo c d) (mapName kind' d))) = kv_maps kv k (MapID (map_at (pgmInfo c d) (mapName kind' d)))"
    using mapName_policy by blast
  have st: "kv_maps kv k' (MapID (map_at (pgmInfo c d) (podStateMapName d))) = kv_maps kv k (MapID (map_at (pgmInfo c d) (podStateMapName d)))"
    using keep [OF podStateMapName_policy] podStateMapName_neq [of d kind] by metis
  fix w
  show "kv_maps kv k' (MapID (map_at (pgmInfo c d) (podStateMapName d))) (pod_state_key key') = Some w"
    if "kv_maps kv k (MapID (map_at (pgmInfo c d) (podStateMapName d))) (pod_state_key key') = Some w" using that st by simp
  show "kv_maps kv k' (MapID (map_at (pgmInfo c d) (podStateMapName d))) (pod_state_key other') \<noteq> None"
    if "kv_maps kv k (MapID (map_at (pgmInfo c d) (podStateMapName d))) (pod_state_key other') = Some w" using that st by simp
qed

text \<open>Programming one tier of one identifier, with any outcome, leaves the other tier of the
  identifier and both tiers of every other identifier in force.\<close>

lemma program_keeps:
  assumes laws: "env_laws env kv" and inv: "client_inv kv l k" and os: "orders_range os"
    and run: "program_tier update key other seed env os i0 ing eg state0 (l, k) = (r, l', k')"
    and diff: "i \<noteq> i0 \<or> kind' \<noteq> kind \<and> key' = other"
    and t: "tier_in_force kv l k i kind' key' other' entries state"
  shows "tier_in_force kv l' k' i kind' key' other' entries state"
proof -
  obtain r1 k1 r2 k2 r3 k3 where 1: "update env os i0 ing eg l k = (r1, l', k1)"
    and 2: "UpdatePodStateEbpfMaps env i0 key state0 True True l' k1 = (r2, k2)"
    and 3: "CreatePodStateEbpfEntryIfNotExists env i0 other (seed l') l' k2 = (r3, k3)"
    and k': "k' = k1 \<or> k' = k2 \<or> k' = k3"
    using program_tier_stages [OF run] by blast
  note sc = state_calls [OF laws]
  have inv1: "client_inv kv l' k1" using update_spec [OF laws inv os 1] by simp
  have inv2: "client_inv kv l' k2" using write_states_spec [OF inv1 sc(2) 2 [unfolded pod_state_ops]] by simp
  have t1: "tier_in_force kv l' k1 i kind' key' other' entries state"
    using update_tier [OF laws inv os 1 _ t] diff by blast
  have t2: "tier_in_force kv l' k2 i kind' key' other' entries state"
    using write_states_tier [OF inv1 sc(2) 2 [unfolded pod_state_ops] _ t1] diff keys by metis
  have t3: "tier_in_force kv l' k3 i kind' key' other' entries state"
    by (rule write_states_tier [OF inv2 sc(1) 3 [unfolded pod_state_ops] _ t2]) simp
  from k' t1 t2 t3 show ?thesis by blast
qed

end

section \<open>The two tiers of the client\<close>

text \<open>Both map updates compute the entries of the two directions and write them.\<close>

lemma both_updates:
  assumes "UpdateEbpfMaps env os i ing eg l k = (r, l', k') \<and> kind = PolicyMap \<or>
    UpdateClusterPolicyEbpfMaps env os i ing eg l k = (r, l', k') \<and> kind = ClusterPolicyMap"
  shows "l' = l \<and> k' = k \<or> (\<exists>entries. (\<forall>d. go_map_wf (entries d)) \<and> update_both env os kind i entries l k = (r, l', k'))"
proof (cases kind)
  case PolicyMap
  then have run: "UpdateEbpfMaps env os i ing eg l k = (r, l', k')" using assms by simp
  show ?thesis
  proof (cases "l' = l \<and> k' = k")
    case False
    then obtain a b where "ComputeMapEntriesFromEndpointRules (ordFw os Ingress) (fwRuleProcessor l) ing = Inr a"
        "ComputeMapEntriesFromEndpointRules (ordFw os Egress) (fwRuleProcessor l) eg = Inr b"
        "update_both env os PolicyMap i (\<lambda>d. case d of Ingress \<Rightarrow> a | Egress \<Rightarrow> b) l k = (r, l', k')"
      using run by (auto simp: UpdateEbpfMaps_def split: sum.splits)
    with ComputeMapEntries_wf PolicyMap show ?thesis
      by (intro disjI2 exI [of _ "\<lambda>d. case d of Ingress \<Rightarrow> a | Egress \<Rightarrow> b"]) (auto split: dir.splits)
  qed simp
next
  case ClusterPolicyMap
  then have run: "UpdateClusterPolicyEbpfMaps env os i ing eg l k = (r, l', k')" using assms by simp
  show ?thesis
  proof (cases "l' = l \<and> k' = k")
    case False
    then obtain a b where "ComputeClusterPolicyMapEntriesFromEndpointRules (ordCp os Ingress) (fwRuleProcessor l) ing = Inr a"
        "ComputeClusterPolicyMapEntriesFromEndpointRules (ordCp os Egress) (fwRuleProcessor l) eg = Inr b"
        "update_both env os ClusterPolicyMap i (\<lambda>d. case d of Ingress \<Rightarrow> a | Egress \<Rightarrow> b) l k = (r, l', k')"
      using run by (auto simp: UpdateClusterPolicyEbpfMaps_def split: sum.splits)
    with ComputeClusterPolicyMapEntries_wf ClusterPolicyMap show ?thesis
      by (intro disjI2 exI [of _ "\<lambda>d. case d of Ingress \<Rightarrow> a | Egress \<Rightarrow> b"]) (auto split: dir.splits)
  qed simp
qed

lemma both_updates_frame:
  assumes laws: "env_laws env kv" and inv: "client_inv kv l k" and os: "orders_range os"
    and run: "UpdateEbpfMaps env os i ing eg l k = (r, l', k') \<and> kind = PolicyMap \<or>
      UpdateClusterPolicyEbpfMaps env os i ing eg l k = (r, l', k') \<and> kind = ClusterPolicyMap"
    and ne: "kv_maps kv k' j \<noteq> kv_maps kv k j"
  shows "\<exists>c d. policyEndpointeBPFContext l i = Some c \<and> prog_fd c d \<noteq> 0 \<and> j = MapID (map_at (pgmInfo c d) (mapName kind d))"
  using both_updates [OF run] ne update_both_frame [OF laws inv os] by metis

lemma both_updates_log:
  assumes laws: "env_laws env kv"
    and run: "UpdateEbpfMaps env os i ing eg l k = (r, l', k') \<and> kind = PolicyMap \<or>
      UpdateClusterPolicyEbpfMaps env os i ing eg l k = (r, l', k') \<and> kind = ClusterPolicyMap"
  shows "kv_refused kv k \<subseteq> kv_refused kv k'"
  using both_updates [OF run] update_both_ids [OF env_lawsD(5) [OF laws]] unfolding same_ids_def by blast

definition np_entries :: "go_orders \<Rightarrow> dir \<Rightarrow> FirewallRuleProcessor \<Rightarrow> EbpfFirewallRules list \<Rightarrow> go_panic + bpf_entries" where
  "np_entries os d f rules = ComputeMapEntriesFromEndpointRules (ordFw os d) f rules"

definition cp_entries :: "go_orders \<Rightarrow> dir \<Rightarrow> FirewallRuleProcessor \<Rightarrow> EbpfFirewallRules list \<Rightarrow> go_panic + bpf_entries" where
  "cp_entries os d f rules = ComputeClusterPolicyMapEntriesFromEndpointRules (ordCp os d) f rules"

interpretation np_tier: policy_tier PolicyMap POD_STATE_MAP_KEY CLUSTER_POLICY_POD_STATE_MAP_KEY seed np_entries UpdateEbpfMaps
  for seed
proof
  show "pod_state_key POD_STATE_MAP_KEY \<noteq> pod_state_key CLUSTER_POLICY_POD_STATE_MAP_KEY" by simp
qed (rule update_calls_reach, assumption, unfold np_entries_def, rule UpdateEbpfMaps_spec, assumption+,
  rule both_updates_log, assumption, blast, rule both_updates_frame, assumption+, blast, assumption)

interpretation cp_tier: policy_tier ClusterPolicyMap CLUSTER_POLICY_POD_STATE_MAP_KEY POD_STATE_MAP_KEY seed cp_entries
  UpdateClusterPolicyEbpfMaps for seed
proof
  show "pod_state_key CLUSTER_POLICY_POD_STATE_MAP_KEY \<noteq> pod_state_key POD_STATE_MAP_KEY" using pod_state_keys by metis
qed (rule update_calls_reach, assumption, unfold cp_entries_def, rule UpdateClusterPolicyEbpfMaps_spec, assumption+,
  rule both_updates_log, assumption, blast, rule both_updates_frame, assumption+, blast, assumption)

text \<open>The network policies of an identifier are in force, and its cluster policies.\<close>

definition in_force ::
  "'k kernel_view \<Rightarrow> go_orders \<Rightarrow> bpfClient \<Rightarrow> 'k \<Rightarrow> string \<Rightarrow> (dir \<Rightarrow> EbpfFirewallRules list) \<Rightarrow> int \<Rightarrow> bool" where
  "in_force kv os l k i rules state \<longleftrightarrow> tier_in_force kv l k i PolicyMap POD_STATE_MAP_KEY CLUSTER_POLICY_POD_STATE_MAP_KEY
     (\<lambda>d. np_entries os d (fwRuleProcessor l) (rules d)) state"

definition cluster_in_force ::
  "'k kernel_view \<Rightarrow> go_orders \<Rightarrow> bpfClient \<Rightarrow> 'k \<Rightarrow> string \<Rightarrow> (dir \<Rightarrow> EbpfFirewallRules list) \<Rightarrow> int \<Rightarrow> bool" where
  "cluster_in_force kv os l k i rules state \<longleftrightarrow> tier_in_force kv l k i ClusterPolicyMap
     CLUSTER_POLICY_POD_STATE_MAP_KEY POD_STATE_MAP_KEY (\<lambda>d. cp_entries os d (fwRuleProcessor l) (rules d)) state"

section \<open>Effects that leave a tier in force\<close>

text \<open>The programs of both directions are loaded.\<close>

definition loaded :: "bpfClient \<Rightarrow> string \<Rightarrow> bool" where
  "loaded l i \<longleftrightarrow> (\<exists>c. policyEndpointeBPFContext l i = Some c \<and> (\<forall>d. prog_fd c d \<noteq> 0))"

text \<open>Attaching pods changes no map and no context that is loaded.\<close>

definition quiet :: "'k kernel_view \<Rightarrow> bpfClient \<times> 'k \<Rightarrow> bpfClient \<times> 'k \<Rightarrow> bool" where
  "quiet kv s s' \<longleftrightarrow> keeps kv {} {} (snd s) (snd s') \<and> fwRuleProcessor (fst s') = fwRuleProcessor (fst s) \<and>
     (\<forall>i. loaded (fst s) i \<longrightarrow> policyEndpointeBPFContext (fst s') i = policyEndpointeBPFContext (fst s) i)"

lemma quiet_refl [simp]: "quiet kv s s"
  by (simp add: quiet_def)

lemma quiet_trans: "quiet kv s s1 \<Longrightarrow> quiet kv s1 s2 \<Longrightarrow> quiet kv s s2"
  by (auto simp: quiet_def loaded_def intro: keeps_trans_empty)

lemma program_for_quiet:
  assumes "load_laws env kv" "program_for env d i l k = (r, l', k')" shows "quiet kv (l, k) (l', k')"
proof (cases "prog_fd (context_of l i) d = 0")
  case True
  obtain q k1 where q: "loadBPFProgram env (probeBinary l d) (dirName d) i k = (q, k1)" by force
  have "\<not> loaded l i" using True by (auto simp: loaded_def context_of_def)
  with assms(2) True q loadBPFProgram_spec(1) [OF assms(1) q] show ?thesis
    by (auto simp: program_for_def Let_def quiet_def split: sum.splits)
qed (use assms(2) in \<open>simp add: program_for_def Let_def\<close>)

lemma register_pod_fields [simp]:
  "policyEndpointeBPFContext (register_pod a d p fd l) = policyEndpointeBPFContext l"
  "fwRuleProcessor (register_pod a d p fd l) = fwRuleProcessor l"
  by (simp_all add: register_pod_def Let_def)

text \<open>What holds of loading a program and of attaching it to an interface, and does not depend on the caches,
  holds of attaching a pod.\<close>

locale attaching =
  fixes env :: "'k bpf_env" and R :: "bpfClient \<times> 'k \<Rightarrow> bpfClient \<times> 'k \<Rightarrow> bool"
  assumes attaching_refl: "R s s"
    and attaching_trans: "R s s1 \<Longrightarrow> R s1 s2 \<Longrightarrow> R s s2"
    and attaching_program: "program_for env d i l k = (r, l', k') \<Longrightarrow> R (l, k) (l', k')"
    and attaching_tc: "tc_attach_retry env d v fd k = (e, k') \<Longrightarrow> R (l, k) (l, k')"
    and attaching_register: "R s (l, k) \<Longrightarrow> R s (register_pod a d p fd l, k)"
    and attaching_unmark: "R (l, k) (l\<lparr>deletedPods := x\<rparr>, k)"
begin

lemma attach_unless_effect:
  assumes run: "attach_unless att env d v i fds l k = (r, l', k')"
  shows "R (l, k) (l', k')"
proof -
  obtain q l1 k1 where p: "program_for env d i l k = (q, l1, k1)" using prod_cases3 by blast
  note 1 = attaching_program [OF p]
  from run p 1 attaching_trans [OF 1 attaching_tc] attaching_refl show ?thesis
    by (auto simp: attach_unless_def attach_probe_def split: if_splits sum.splits prod.splits option.splits)
qed

lemma attach_loop_effect:
  assumes "attach_loop env pod i att idxs fds l k = (r, l', k')"
  shows "R (l, k) (l', k')"
  using assms
proof (induction idxs arbitrary: fds l k)
  case (Cons x xs)
  show ?case
  proof (cases "GetHostVethName (sha1_hex env) (\<lambda>x. linkError env x k) (nn_Name pod) (nn_Namespace pod) x
      [POD_VETH_PREFIX, BRANCH_ENI_VETH_PREFIX]")
    case (Inr v)
    obtain q1 l1 k1 where q1: "attach_unless (att Ingress) env Ingress v i fds l k = (q1, l1, k1)" using prod_cases3 by blast
    note 1 = attach_unless_effect [OF q1]
    have 2: "attach_unless (att Egress) env Egress v i fds1 l1 k1 = (q2, l2, k2) \<Longrightarrow> R (l, k) (l2, k2)" for fds1 q2 l2 k2
      using attach_unless_effect attaching_trans [OF 1] by blast
    from Cons Inr q1 1 2 show ?thesis
      by (auto split: sum.splits prod.splits) (meson attaching_trans)+
  qed (use Cons.prems attaching_refl in auto)
qed (simp add: attaching_refl)

lemma attach_effect: "R (l, k) (snd (AttacheBPFProbes env pod i n live l k))"
proof -
  let ?l = "if live then l\<lparr>deletedPods := (deletedPods l)(GetPodNamespacedName (nn_Name pod) (nn_Namespace pod) := None)\<rparr> else l"
  have 0: "R (l, k) (?l, k)" by (simp add: attaching_refl attaching_unmark)
  have 1: "R (l, k) (l2, k2)" if "attach_loop env pod i att idxs fds ?l k = (q, l2, k2)" for att idxs fds q l2 k2
    using attach_loop_effect [OF that] attaching_trans [OF 0] by blast
  obtain l1 where l1: "l1 = ?l" by blast
  show ?thesis
    using 0 1 unfolding AttacheBPFProbes_def Let_def l1 [symmetric]
    by (auto simp: attaching_refl split: sum.splits prod.splits intro!: attaching_register)
qed

end

lemma quiet_register: "quiet kv s (l, k) \<Longrightarrow> quiet kv s (register_pod a d p fd l, k)"
  by (simp add: quiet_def)

lemma quiet_unmark: "quiet kv (l, k) (l\<lparr>deletedPods := x\<rparr>, k)"
  by (simp add: quiet_def)

lemma tc_quiet: "env_laws env kv \<Longrightarrow> tc_attach_retry env d v fd k = (e, k') \<Longrightarrow> quiet kv (l, k) (l, k')"
  using tc_attach_retry_keeps [OF env_lawsD(3)] by (simp add: quiet_def)

interpretation quiet_attach: attaching env "\<lambda>s s'. env_laws env kv \<longrightarrow> quiet kv s s'" for env kv
  by unfold_locales
    (blast intro: quiet_refl quiet_trans quiet_register quiet_unmark tc_quiet program_for_quiet env_lawsD(2))+

lemma AttacheBPFProbes_quiet:
  "env_laws env kv \<Longrightarrow> quiet kv (l, k) (snd (AttacheBPFProbes env pod i n live l k))"
  by (rule quiet_attach.attach_effect [rule_format])

text \<open>An effect on the client that leaves one tier in force for every loaded identifier.\<close>

definition tier_safe :: "'k bpf_env \<Rightarrow> 'k kernel_view \<Rightarrow> map_kind \<Rightarrow> int \<Rightarrow> int \<Rightarrow> bpfClient \<times> 'k \<Rightarrow> bpfClient \<times> 'k \<Rightarrow> bool" where
  "tier_safe env kv kind key other s s' \<longleftrightarrow> client_reaches env s s' \<and>
     (env_laws env kv \<longrightarrow> client_inv kv (fst s) (snd s) \<longrightarrow> fwRuleProcessor (fst s') = fwRuleProcessor (fst s) \<and>
        (\<forall>i entries state. loaded (fst s) i \<longrightarrow> tier_in_force kv (fst s) (snd s) i kind key other entries state \<longrightarrow>
           loaded (fst s') i \<and> tier_in_force kv (fst s') (snd s') i kind key other entries state))"

lemma client_reaches_inv:
  assumes "env_laws env kv" "client_inv kv (fst s) (snd s)" "client_reaches env s s'"
  shows "client_inv kv (fst s') (snd s')"
  using client_run_inv [OF assms(1) _ assms(2)] assms(3) unfolding client_reaches_def by (metis prod.collapse)

lemma tier_safe_trans:
  assumes a: "tier_safe env kv kind key other s s1" and b: "tier_safe env kv kind key other s1 s2"
  shows "tier_safe env kv kind key other s s2"
  unfolding tier_safe_def
proof (intro conjI impI)
  show "client_reaches env s s2" using a b client_reaches_trans unfolding tier_safe_def by blast
  assume l: "env_laws env kv" and i: "client_inv kv (fst s) (snd s)"
  have i1: "client_inv kv (fst s1) (snd s1)" using client_reaches_inv [OF l i] a unfolding tier_safe_def by blast
  show "fwRuleProcessor (fst s2) = fwRuleProcessor (fst s)" using a b l i i1 unfolding tier_safe_def by simp
  show "\<forall>i entries state. loaded (fst s) i \<longrightarrow> tier_in_force kv (fst s) (snd s) i kind key other entries state \<longrightarrow>
           loaded (fst s2) i \<and> tier_in_force kv (fst s2) (snd s2) i kind key other entries state"
    using a b l i i1 unfolding tier_safe_def by blast
qed

lemma tier_safe_refl: "tier_safe env kv kind key other s s"
  by (simp add: tier_safe_def)

lemma quiet_tier_safe:
  assumes reach: "client_reaches env s s'" and q: "env_laws env kv \<Longrightarrow> quiet kv s s'"
  shows "tier_safe env kv kind key other s s'"
  unfolding tier_safe_def
proof (intro conjI impI allI)
  assume laws: "env_laws env kv" and inv: "client_inv kv (fst s) (snd s)"
  note q = q [OF laws]
  show "fwRuleProcessor (fst s') = fwRuleProcessor (fst s)" using q by (simp add: quiet_def)
  fix i entries state assume ld: "loaded (fst s) i" and t: "tier_in_force kv (fst s) (snd s) i kind key other entries state"
  have ctx: "policyEndpointeBPFContext (fst s') i = policyEndpointeBPFContext (fst s) i" using q ld by (simp add: quiet_def)
  show "loaded (fst s') i" using ld ctx by (simp add: loaded_def)
  have same: "kv_maps kv (snd s') (MapID (map_at (pgmInfo c d) n)) = kv_maps kv (snd s) (MapID (map_at (pgmInfo c d) n))"
    if "policyEndpointeBPFContext (fst s) i = Some c" "prog_fd c d \<noteq> 0" "n \<in> policy_maps d" for c d n
    using progs_okD(4) [OF client_invD(3) [OF inv] owned_map_at [OF inv that]] q by (simp add: quiet_def keeps_def)
  show "tier_in_force kv (fst s') (snd s') i kind key other entries state"
    by (rule tier_in_force_mono [OF t ctx]) (use q in \<open>simp_all add: same podStateMapName_policy quiet_def keeps_def\<close>)
qed (rule reach)

interpretation safe: client_effect env "tier_safe env kv kind key other" for env kv kind key other
proof
  show "tier_safe env kv kind key other (l, k) (snd (AttacheBPFProbes env pod (ident_of pod) n live l k))"
    if "CHR ''_'' \<notin> set (nn_Namespace pod)" for env :: "'k bpf_env" and kv kind key other pod n live l k
    by (rule quiet_tier_safe [OF reach.effect_attach [OF that] AttacheBPFProbes_quiet])
qed (rule tier_safe_refl, rule tier_safe_trans)

text \<open>Programming one tier is safe for the other tier.\<close>

context policy_tier
begin

lemma program_contexts:
  assumes laws: "env_laws env kv" and inv: "client_inv kv l k" and os: "orders_range os"
    and run: "program_tier update key other seed env os i ing eg state (l, k) = (r, l', k')"
  shows "fwRuleProcessor l' = fwRuleProcessor l" "policyEndpointeBPFContext l' = policyEndpointeBPFContext l"
proof -
  obtain r1 k1 where "update env os i ing eg l k = (r1, l', k1)" using program_tier_stages [OF run] by blast
  from update_spec [OF laws inv os this]
  show "fwRuleProcessor l' = fwRuleProcessor l" "policyEndpointeBPFContext l' = policyEndpointeBPFContext l"
    by (simp_all add: same_caches_def)
qed

lemma program_safe:
  assumes os: "orders_range os" and diff: "kind' \<noteq> kind" "key' = other"
  shows "tier_safe env kv kind' key' other' s (snd (program_tier update key other seed env os i ing eg state s))"
proof (cases s)
  case (Pair l k)
  obtain r l' k' where run: "program_tier update key other seed env os i ing eg state (l, k) = (r, l', k')"
    using prod_cases3 by blast
  with program_contexts [OF _ _ os run] program_reaches [OF os, of env s i ing eg state] program_keeps [OF _ _ os run] Pair diff
  show ?thesis unfolding tier_safe_def by (auto simp: loaded_def)
qed

end

end
