(* ===== verification/MapTypes.thy ===== *)
theory MapTypes
  imports Tiers
begin

text \<open>
  The kernel maps have declared key and value sizes, and the datapath and the command line tool read an
  entry as an array of structs of these sizes. This theory shows that the agent only ever writes entries
  of the declared sizes: the firewall rule processor produces none other, and every operation of the
  client keeps the policy maps of every identifier well typed, whatever calls fail.
\<close>

section \<open>Sizes of the entries\<close>

definition key_size :: "bool \<Rightarrow> nat" where
  "key_size v6 = (if v6 then TRIE_V6_KEY_LENGTH else TRIE_KEY_LENGTH)"

fun value_size :: "map_kind \<Rightarrow> nat" where
  "value_size PolicyMap = TRIE_VALUE_LENGTH"
| "value_size ClusterPolicyMap = ADMIN_TRIE_VALUE_LENGTH"

definition sized :: "nat \<Rightarrow> nat \<Rightarrow> (byte list, byte list) go_map \<Rightarrow> bool" where
  "sized n w es \<longleftrightarrow> (\<forall>(key, v) \<in> set es. length key = n \<and> length v = w)"

definition typed_map :: "nat \<Rightarrow> nat \<Rightarrow> (byte list \<rightharpoonup> byte list) \<Rightarrow> bool" where
  "typed_map n w m \<longleftrightarrow> (\<forall>key v. m key = Some v \<longrightarrow> length key = n \<and> length v = w)"

lemma sized_typed: "sized n w es \<Longrightarrow> typed_map n w (map_of es)"
  by (auto simp: sized_def typed_map_def dest!: map_of_SomeD)

lemma sized_update: "sized n w es \<Longrightarrow> length key = n \<Longrightarrow> length v = w \<Longrightarrow> sized n w (AList.update key v es)"
  by (induction es) (auto simp: sized_def)

lemma length_ComputeTrieKey: "length (ComputeTrieKey n v6) = key_size v6"
  by (simp add: ComputeTrieKey_def key_size_def TRIE_V6_KEY_LENGTH_def TRIE_KEY_LENGTH_def Let_def)

lemma length_ComputeTrieValueForCPE: "length (ComputeTrieValueForCPE rs) = ADMIN_TRIE_VALUE_LENGTH"
  using read_cpe_slot [of 0 rs] by simp

lemma length_node_value: "length (ComputeTrieValue [] True False) = TRIE_VALUE_LENGTH"
  by (simp add: ComputeTrieValue_allow_all TRIE_VALUE_LENGTH_def)

lemma np_entries_sized:
  assumes "ComputeMapEntriesFromEndpointRules os f rules = Inr m"
  shows "sized (key_size (fwrp_enableIPv6 f)) TRIE_VALUE_LENGTH m"
proof -
  let ?P = "sized (key_size (fwrp_enableIPv6 f)) TRIE_VALUE_LENGTH"
  have step: "?P m'" if "encode_step os f x m = Inr m'" "?P m" for x m m'
    using that by (auto simp: encode_step_def Let_def length_ComputeTrieKey length_ComputeTrieValue intro!: sized_update
        split: prod.splits option.splits)
  have seed: "?P [(ComputeTrieKey n (fwrp_enableIPv6 f), ComputeTrieValue [] True False)]" for n
    by (simp add: sized_def length_ComputeTrieKey length_node_value)
  have "?P m'" if "fold_panic (encode_step os f) xs [(ComputeTrieKey n (fwrp_enableIPv6 f), ComputeTrieValue [] True False)] = Inr m'"
    for xs n m' by (rule fold_panic_invariant [where P = ?P, OF _ seed that]) (rule step)
  with assms show ?thesis
    by (auto simp: ComputeMapEntriesFromEndpointRules_def Let_def split: option.splits sum.splits prod.splits)
qed

lemma cp_entries_sized:
  assumes "ComputeClusterPolicyMapEntriesFromEndpointRules os f rules = Inr m"
  shows "sized (key_size (fwrp_enableIPv6 f)) ADMIN_TRIE_VALUE_LENGTH m" and "m \<noteq> []"
proof -
  let ?P = "\<lambda>m. sized (key_size (fwrp_enableIPv6 f)) ADMIN_TRIE_VALUE_LENGTH m \<and> m \<noteq> []"
  have step: "?P m'" if "cp_encode_step os f x m = Inr m'" "?P m" for x m m'
    using that by (auto simp: cp_encode_step_def Let_def length_ComputeTrieKey length_ComputeTrieValueForCPE intro!: sized_update
        split: prod.splits option.splits)
  have seed: "?P [(ComputeTrieKey n (fwrp_enableIPv6 f), ComputeTrieValueForCPE r)]" for n r
    by (simp add: sized_def length_ComputeTrieKey length_ComputeTrieValueForCPE)
  have "?P m'" if "fold_panic (cp_encode_step os f) xs [(ComputeTrieKey n (fwrp_enableIPv6 f), ComputeTrieValueForCPE r)] = Inr m'"
    for xs n r m' by (rule fold_panic_invariant [where P = ?P, OF _ seed that]) (rule step)
  with assms have "?P m"
    by (auto simp: ComputeClusterPolicyMapEntriesFromEndpointRules_def Let_def split: option.splits sum.splits prod.splits)
  then show "sized (key_size (fwrp_enableIPv6 f)) ADMIN_TRIE_VALUE_LENGTH m" "m \<noteq> []" by simp_all
qed

section \<open>Typed clients\<close>

text \<open>Every policy map of an identifier has a known ID and holds only entries of the declared sizes.\<close>

definition maps_typed :: "'k kernel_view \<Rightarrow> bpfClient \<Rightarrow> 'k \<Rightarrow> bool" where
  "maps_typed kv l k \<longleftrightarrow> (\<forall>i d kd b. owns_map l i d (mapName kd d) b \<longrightarrow>
     MapID b \<in> kv_ids kv k \<and>
     typed_map (key_size (fwrp_enableIPv6 (fwRuleProcessor l))) (value_size kd) (kv_maps kv k (MapID b)))"

text \<open>The kernel creates maps empty.\<close>

definition empty_laws :: "'k bpf_env \<Rightarrow> 'k kernel_view \<Rightarrow> bool" where
  "empty_laws env kv \<longleftrightarrow> (\<forall>f i k info k' pin data n b. LoadBpfFile env f i k = (Inr info, k') \<longrightarrow>
     info pin = Some data \<longrightarrow> map_of (Maps data) n = Some b \<longrightarrow> kv_maps kv k' (MapID b) = Map.empty)"

lemma maps_typedD:
  assumes "maps_typed kv l k" "owns_map l i d (mapName kd d) b"
  shows "MapID b \<in> kv_ids kv k"
    and "typed_map (key_size (fwrp_enableIPv6 (fwRuleProcessor l))) (value_size kd) (kv_maps kv k (MapID b))"
  using assms unfolding maps_typed_def by blast+

lemma maps_typedI:
  assumes "\<And>i d kd b. owns_map l i d (mapName kd d) b \<Longrightarrow> MapID b \<in> kv_ids kv k \<and>
    typed_map (key_size (fwrp_enableIPv6 (fwRuleProcessor l))) (value_size kd) (kv_maps kv k (MapID b))"
  shows "maps_typed kv l k"
  unfolding maps_typed_def by (intro allI impI) (rule assms)

lemma maps_typed_keeps:
  assumes t: "maps_typed kv l k" and "keeps kv I F k k'" and "\<And>i d kd b. owns_map l i d (mapName kd d) b \<Longrightarrow> MapID b \<notin> I"
  shows "maps_typed kv l k'"
proof (rule maps_typedI)
  fix i d kd b assume o: "owns_map l i d (mapName kd d) b"
  have "MapID b \<in> kv_ids kv k' \<and> kv_maps kv k' (MapID b) = kv_maps kv k (MapID b)"
    using maps_typedD(1) [OF t o] assms(2) assms(3) [OF o] unfolding keeps_def by blast
  with maps_typedD(2) [OF t o] show "MapID b \<in> kv_ids kv k' \<and>
      typed_map (key_size (fwrp_enableIPv6 (fwRuleProcessor l))) (value_size kd) (kv_maps kv k' (MapID b))" by simp
qed

lemma maps_typed_context:
  "maps_typed kv (register_pod a d p fd l) k \<longleftrightarrow> maps_typed kv l k"
  "maps_typed kv (l\<lparr>deletedPods := x\<rparr>) k \<longleftrightarrow> maps_typed kv l k"
  by (simp_all add: maps_typed_def owns_map_def)

lemma owns_map_mapName:
  assumes "client_inv kv l k" and "owns_map l i d (mapName kd d) b" "owns_map l j e (mapName kd' e) b'" "MapID b = MapID b'"
  shows "i = j \<and> d = e \<and> kd = kd'"
proof -
  note p = progs_okD(5) [OF client_invD(3) [OF assms(1)] assms(2-4)]
  have "i = j" "d = e" using p by simp_all
  moreover have "mapName kd d = mapName kd' e" using conjunct2 [OF conjunct2 [OF p]] .
  ultimately show ?thesis using mapName_inject [of kd d kd'] by simp
qed

section \<open>Every operation keeps the types\<close>

subsection \<open>Attaching\<close>

lemma program_for_typed:
  assumes laws: "env_laws env kv" "empty_laws env kv" and t: "maps_typed kv l k" and run: "program_for env d i l k = (r, l', k')"
  shows "maps_typed kv l' k'"
proof (cases "prog_fd (context_of l i) d = 0")
  case False
  with run t show ?thesis by (simp add: program_for_def Let_def)
next
  case True
  obtain q k1 where q: "loadBPFProgram env (probeBinary l d) (dirName d) i k = (q, k1)" by force
  note ls = loadBPFProgram_spec [OF env_lawsD(2) [OF laws(1)] q]
  have t1: "maps_typed kv l k1" using maps_typed_keeps [OF t ls(1)] by blast
  show ?thesis
  proof (cases q)
    case (Inl e)
    with True run q t1 show ?thesis by (simp add: program_for_def Let_def)
  next
    case (Inr p)
    obtain info fd where p: "q = Inr (info, fd)" using Inr by (cases p) auto
    from ls(2) [OF p] obtain data where data: "info (GetBPFPinPathFromPodIdentifier i (dirName d)) = Some data"
      "fresh_program kv k k1 data" by blast
    with True run q p have r: "l' = with_program l i d data" "k' = k1"
      by (simp_all add: program_for_def with_program_def Let_def)
    have "LoadBpfFile env (probeBinary l d) i k = (Inr info, k1)"
      using q p by (auto simp: loadBPFProgram_def Let_def split: sum.splits prod.splits option.splits if_splits)
    then have e: "kv_maps kv k1 (MapID b) = Map.empty" if "map_of (Maps data) n = Some b" for n b
      using laws(2) data(1) that unfolding empty_laws_def by blast
    have fp: "fwRuleProcessor l' = fwRuleProcessor l" by (simp add: r with_program_def)
    show ?thesis
    proof (rule maps_typedI, unfold fp)
      fix j e' kd b assume o: "owns_map l' j e' (mapName kd e') b"
      show "MapID b \<in> kv_ids kv k' \<and>
        typed_map (key_size (fwrp_enableIPv6 (fwRuleProcessor l))) (value_size kd) (kv_maps kv k' (MapID b))"
      proof (cases "j = i \<and> e' = d")
        case True
        with o have "map_of (Maps data) (mapName kd d) = Some b" by (simp add: r owns_with_program)
        then have "kv_maps kv k1 (MapID b) = Map.empty" "MapID b \<in> kv_ids kv k1"
          using e data(2) mapName_policy [of kd d] unfolding fresh_program_def by blast+
        then show ?thesis by (simp add: r typed_map_def)
      next
        case False
        with o have "owns_map l j e' (mapName kd e') b" by (auto simp: r owns_with_program split: if_splits)
        with maps_typedD [OF t1] show ?thesis by (simp add: r)
      qed
    qed
  qed
qed

interpretation typed_attach: attaching env
    "\<lambda>s s'. env_laws env kv \<longrightarrow> empty_laws env kv \<longrightarrow> maps_typed kv (fst s) (snd s) \<longrightarrow> maps_typed kv (fst s') (snd s')" for env kv
proof
  show "env_laws env kv \<longrightarrow> empty_laws env kv \<longrightarrow> maps_typed kv (fst (l, k)) (snd (l, k)) \<longrightarrow> maps_typed kv (fst (l', k')) (snd (l', k'))"
    if "program_for env d i l k = (r, l', k')" for env :: "'k bpf_env" and kv d i l k r l' k'
    using program_for_typed [OF _ _ _ that] by simp
  show "env_laws env kv \<longrightarrow> empty_laws env kv \<longrightarrow> maps_typed kv (fst (l, k)) (snd (l, k)) \<longrightarrow> maps_typed kv (fst (l, k')) (snd (l, k'))"
    if "tc_attach_retry env d v fd k = (e, k')" for env :: "'k bpf_env" and kv d v fd k e l k'
    using maps_typed_keeps [OF _ tc_attach_retry_keeps [OF env_lawsD(3) that]] by auto
qed (simp_all add: maps_typed_context)

subsection \<open>Deleting\<close>

lemma DeleteBPFProbes_typed:
  assumes laws: "env_laws env kv" and inv: "client_inv kv l k" and t: "maps_typed kv l k"
    and run: "DeleteBPFProbes env now pod i l k = (l', k')"
  shows "maps_typed kv l' k'"
proof -
  let ?l = "forget_pod pod now l"
  have ctx: "policyEndpointeBPFContext ?l = policyEndpointeBPFContext l" "fwRuleProcessor ?l = fwRuleProcessor l"
    by (rule forget_pod_fields(4) [OF client_invD(1) [OF inv]])
      (simp add: forget_pod_def deletePodFromIngressProgPodCaches_def deletePodFromEgressProgPodCaches_def delete_pod_caches_def Let_def split: option.splits)
  then have tf: "maps_typed kv ?l k" using t by (simp add: maps_typed_def owns_map_def)
  show ?thesis
  proof (cases "isProgFdShared l (nn_Name pod) (nn_Namespace pod) = Inr False")
    case True
    have ok: "progs_ok kv ?l k" using client_invD(3) [OF forget_pod_inv [OF inv]] .
    let ?l2 = "?l\<lparr>inMemoryMap := (\<lambda>kd d. (inMemoryMap ?l kd d)(i := None)), policyEndpointeBPFContext := (policyEndpointeBPFContext ?l)(i := None)\<rparr>"
    let ?I = "\<lambda>d. {MapID b | n b. owns_map ?l i d n b}" and ?F = "\<lambda>d. {fd. owns_fd ?l i d fd}"
    have r: "l' = ?l2" "k' = deleteBPFProgramAndMaps env i Egress ?l (deleteBPFProgramAndMaps env i Ingress ?l k)"
      using run True by (simp_all add: DeleteBPFProbes_unfold deleteBPFProbes_def Let_def)
    have keep: "keeps kv (?I Ingress \<union> ?I Egress) (?F Ingress \<union> ?F Egress) k k'"
      unfolding r by (rule keeps_trans [OF deleteBPFProgramAndMaps_keeps [OF laws ok] deleteBPFProgramAndMaps_keeps [OF laws ok]])
    have om: "owns_map ?l2 j d n b \<longleftrightarrow> j \<noteq> i \<and> owns_map ?l j d n b" for j d n b by (auto simp: owns_map_def)
    have "maps_typed kv ?l2 k"
    proof (rule maps_typedI)
      fix j d kd b assume "owns_map ?l2 j d (mapName kd d) b"
      then have o: "owns_map ?l j d (mapName kd d) b" by (simp add: om)
      show "MapID b \<in> kv_ids kv k \<and> typed_map (key_size (fwrp_enableIPv6 (fwRuleProcessor ?l2))) (value_size kd) (kv_maps kv k (MapID b))"
        using maps_typedD [OF tf o] by simp
    qed
    then show ?thesis unfolding r(1)
      by (rule maps_typed_keeps [OF _ keep]) (use progs_okD(5) [OF ok] om in blast)
  qed (use run tf in \<open>simp add: DeleteBPFProbes_unfold\<close>)
qed

subsection \<open>Writing\<close>

text \<open>An update of one map leaves every key with its old value or that of the new entries.\<close>

lemma update_map_between:
  assumes laws: "env_laws env kv" and inv: "client_inv kv l k" and os: "orders_range os"
    and wf: "go_map_wf entries" and c: "policyEndpointeBPFContext l i = Some c"
    and run: "update_map env os kd d i (pgmInfo c d) entries l k = (r, l', k')"
  shows "kv_maps kv k' (MapID (map_at (pgmInfo c d) (mapName kd d))) x \<in>
    {kv_maps kv k (MapID (map_at (pgmInfo c d) (mapName kd d))) x, map_of entries x}"
proof (cases "k' = k")
  case False
  let ?b = "map_at (pgmInfo c d) (mapName kd d)"
  have fd: "prog_fd c d \<noteq> 0" using run False by (auto simp: update_map_def prog_fd_def)
  have ob: "owns_map l i d (mapName kd d) ?b" by (rule owned_map_at [OF inv c fd mapName_policy])
  obtain m cache where p: "shadowMapForLocked (map_api env) (inMemoryMap l kd d) i ?b k = Inr (m, cache)"
    using run False by (auto simp: update_map_def split: if_splits sum.splits failure.splits)
  note m = shadowMap_sync [OF laws inv ob p]
  obtain q m' k1 where q: "BulkRefresh (map_api env) (ordAdd os d) (ordCur os d) entries m k = (q, m', k1)"
    using prod_cases3 by blast
  have "k1 = k'" using run fd p q by (auto simp: update_map_def prog_fd_def refreshShadowMap_def)
  with BulkRefresh_sync [OF env_lawsD(1) [OF laws] conjunct1 [OF m] _ _ wf q] os m show ?thesis
    by (simp add: orders_range_def)
qed simp

lemma typed_between:
  "typed_map n w m \<Longrightarrow> typed_map n w m' \<Longrightarrow> (\<And>x. m'' x \<in> {m x, m' x}) \<Longrightarrow> typed_map n w m''"
  unfolding typed_map_def by (metis empty_iff insert_iff)

lemma update_map_typed:
  assumes laws: "env_laws env kv" and inv: "client_inv kv l k" and os: "orders_range os" and t: "maps_typed kv l k"
    and wf: "go_map_wf entries" and c: "policyEndpointeBPFContext l i = Some c"
    and sz: "sized (key_size (fwrp_enableIPv6 (fwRuleProcessor l))) (value_size kd) entries"
    and run: "update_map env os kd d i (pgmInfo c d) entries l k = (r, l', k')"
  shows "maps_typed kv l' k' \<and> fwRuleProcessor l' = fwRuleProcessor l"
proof -
  note s = update_map_spec [OF laws inv os wf c run]
  have f: "fwRuleProcessor l' = fwRuleProcessor l"
    using run by (auto simp: update_map_def store_shadow_def split: if_splits sum.splits failure.splits prod.splits)
  have inv': "client_inv kv l' k'" using s by (rule conjunct1)
  have own: "owns_map l' j e n b \<longleftrightarrow> owns_map l j e n b" for j e n b using s by (simp add: owns_map_def)
  show ?thesis
  proof (intro conjI f maps_typedI, unfold f own)
    fix j e kd' b assume o: "owns_map l j e (mapName kd' e) b"
    then show "MapID b \<in> kv_ids kv k'" using progs_okD(4) [OF client_invD(3) [OF inv']] own by blast
    let ?b = "map_at (pgmInfo c d) (mapName kd d)"
    let ?t = "typed_map (key_size (fwrp_enableIPv6 (fwRuleProcessor l)))"
    show "?t (value_size kd') (kv_maps kv k' (MapID b))"
    proof (cases "kv_maps kv k' (MapID b) = kv_maps kv k (MapID b)")
      case True
      with maps_typedD(2) [OF t o] show ?thesis by simp
    next
      case False
      then have id: "MapID b = MapID ?b" using s by metis
      have fd: "prog_fd c d \<noteq> 0" using run False by (auto simp: update_map_def prog_fd_def)
      have ob: "owns_map l i d (mapName kd d) ?b" by (rule owned_map_at [OF inv c fd mapName_policy])
      have "kd' = kd" using owns_map_mapName [OF inv o ob id] by simp
      moreover have "?t (value_size kd) (kv_maps kv k' (MapID b))"
        unfolding id by (rule typed_between [OF maps_typedD(2) [OF t ob] sized_typed [OF sz] update_map_between [OF laws inv os wf c run]])
      ultimately show ?thesis by simp
    qed
  qed
qed

lemma update_both_typed:
  assumes laws: "env_laws env kv" and inv: "client_inv kv l k" and os: "orders_range os" and t: "maps_typed kv l k"
    and wf: "\<And>d. go_map_wf (entries d)"
    and sz: "\<And>d. sized (key_size (fwrp_enableIPv6 (fwRuleProcessor l))) (value_size kd) (entries d)"
    and run: "update_both env os kd i entries l k = (r, l', k')"
  shows "maps_typed kv l' k'"
proof (cases "policyEndpointeBPFContext l i")
  case None
  with run t show ?thesis by (simp add: update_both_def)
next
  case (Some c)
  obtain r1 l1 k1 where u1: "update_map env os kd Ingress i (pgmInfo c Ingress) (entries Ingress) l k = (r1, l1, k1)"
    using prod_cases3 by blast
  obtain r2 l2 k2 where u2: "update_map env os kd Egress i (pgmInfo c Egress) (entries Egress) l1 k1 = (r2, l2, k2)"
    using prod_cases3 by blast
  note s1 = update_map_spec [OF laws inv os wf Some u1]
  note t1 = update_map_typed [OF laws inv os t wf Some sz u1]
  have c1: "policyEndpointeBPFContext l1 i = Some c" using s1 Some by simp
  have sz1: "sized (key_size (fwrp_enableIPv6 (fwRuleProcessor l1))) (value_size kd) (entries Egress)" using t1 sz by simp
  note t2 = update_map_typed [OF laws conjunct1 [OF s1] os conjunct1 [OF t1] wf c1 sz1 u2]
  have "l' = l1 \<and> k' = k1 \<or> l' = l2 \<and> k' = k2"
    using run Some u1 u2 by (auto simp: update_both_def split: sum.splits)
  with t1 t2 show ?thesis by auto
qed

lemma UpdateEbpfMaps_typed:
  assumes laws: "env_laws env kv" and inv: "client_inv kv l k" and os: "orders_range os" and t: "maps_typed kv l k"
    and run: "UpdateEbpfMaps env os i ing eg l k = (r, l', k')"
  shows "maps_typed kv l' k'"
proof (cases "l' = l \<and> k' = k")
  case False
  then obtain a b where e: "ComputeMapEntriesFromEndpointRules (ordFw os Ingress) (fwRuleProcessor l) ing = Inr a"
      "ComputeMapEntriesFromEndpointRules (ordFw os Egress) (fwRuleProcessor l) eg = Inr b"
      "update_both env os PolicyMap i (\<lambda>d. case d of Ingress \<Rightarrow> a | Egress \<Rightarrow> b) l k = (r, l', k')"
    using run by (auto simp: UpdateEbpfMaps_def split: sum.splits)
  show ?thesis
    by (rule update_both_typed [OF laws inv os t _ _ e(3)])
      (use ComputeMapEntries_wf e np_entries_sized [OF e(1)] np_entries_sized [OF e(2)] in \<open>auto split: dir.splits\<close>)
qed (use t in simp)

lemma UpdateClusterPolicyEbpfMaps_typed:
  assumes laws: "env_laws env kv" and inv: "client_inv kv l k" and os: "orders_range os" and t: "maps_typed kv l k"
    and run: "UpdateClusterPolicyEbpfMaps env os i ing eg l k = (r, l', k')"
  shows "maps_typed kv l' k'"
proof (cases "l' = l \<and> k' = k")
  case False
  then obtain a b where e: "ComputeClusterPolicyMapEntriesFromEndpointRules (ordCp os Ingress) (fwRuleProcessor l) ing = Inr a"
      "ComputeClusterPolicyMapEntriesFromEndpointRules (ordCp os Egress) (fwRuleProcessor l) eg = Inr b"
      "update_both env os ClusterPolicyMap i (\<lambda>d. case d of Ingress \<Rightarrow> a | Egress \<Rightarrow> b) l k = (r, l', k')"
    using run by (auto simp: UpdateClusterPolicyEbpfMaps_def split: sum.splits)
  show ?thesis
    by (rule update_both_typed [OF laws inv os t _ _ e(3)])
      (use ComputeClusterPolicyMapEntries_wf e cp_entries_sized(1) [OF e(1)] cp_entries_sized(1) [OF e(2)] in \<open>auto split: dir.splits\<close>)
qed (use t in simp)

text \<open>Pod states go into maps of their own.\<close>

lemma write_states_typed:
  assumes inv: "client_inv kv l k" and call: "state_call kv call f" and t: "maps_typed kv l k"
    and run: "write_states call what enabled i key state l k = (r, k')"
  shows "maps_typed kv l k'"
proof (rule maps_typedI)
  fix j d kd b assume o: "owns_map l j d (mapName kd d) b"
  have inv': "client_inv kv l k'" using write_states_spec [OF inv call run] by blast
  have "kv_maps kv k' (MapID b) = kv_maps kv k (MapID b)"
  proof (rule ccontr)
    assume "\<not> ?thesis"
    then obtain x where x: "kv_maps kv k' (MapID b) x \<noteq> kv_maps kv k (MapID b) x" by (auto simp: fun_eq_iff)
    then obtain c where c: "policyEndpointeBPFContext l i = Some c"
      using run by (cases "policyEndpointeBPFContext l i") (auto simp: write_states_def)
    obtain e where e: "MapID b = MapID (map_at (pgmInfo c e) (podStateMapName e))" "prog_fd c e \<noteq> 0"
      using write_states_frame [OF call c run x] by blast
    have "mapName kd d = podStateMapName e \<and> d = e"
      using progs_okD(5) [OF client_invD(3) [OF inv] o owned_map_at [OF inv c e(2) podStateMapName_policy] e(1)] by (elim conjE) (intro conjI)
    then show False using podStateMapName_neq [of d kd] by metis
  qed
  with maps_typedD [OF t o] progs_okD(4) [OF client_invD(3) [OF inv'] o]
  show "MapID b \<in> kv_ids kv k' \<and> typed_map (key_size (fwrp_enableIPv6 (fwRuleProcessor l))) (value_size kd) (kv_maps kv k' (MapID b))"
    by simp
qed

section \<open>Runs\<close>

lemma client_step_typed:
  assumes laws: "env_laws env kv" "empty_laws env kv" and op: "valid_op x" and inv: "client_inv kv l k" and t: "maps_typed kv l k"
    and run: "client_step env x (l, k) = (l', k')"
  shows "maps_typed kv l' k'"
proof (cases x)
  case (Attach pod n live)
  with run typed_attach.attach_effect [rule_format, OF laws, of l k pod "ident_of pod" n live] t show ?thesis by simp
next
  case (Delete now pod)
  with run DeleteBPFProbes_typed [OF laws(1) inv t] show ?thesis by simp
next
  case (UpdateMaps os i ing eg)
  with op run UpdateEbpfMaps_typed [OF laws(1) inv _ t] show ?thesis
    by (cases "UpdateEbpfMaps env os i ing eg l k") auto
next
  case (UpdateClusterMaps os i ing eg)
  with op run UpdateClusterPolicyEbpfMaps_typed [OF laws(1) inv _ t] show ?thesis
    by (cases "UpdateClusterPolicyEbpfMaps env os i ing eg l k") auto
next
  case (CreateState i key state)
  with run show ?thesis
    using write_states_typed [OF inv state_calls(1) [OF laws(1)] t] by (auto simp: pod_state_ops) (metis prod.collapse)
next
  case (UpdateState i key state ui ue)
  with run show ?thesis
    using write_states_typed [OF inv state_calls(2) [OF laws(1)] t] by (auto simp: pod_state_ops) (metis prod.collapse)
next
  case (Cleanup now)
  with run t show ?thesis by (auto simp: cleanupDeletedPodsIfNeeded_def maps_typed_context)
qed

lemma client_run_typed:
  assumes laws: "env_laws env kv" "empty_laws env kv" and "\<forall>x \<in> set ops. valid_op x" and "client_inv kv l k" and "maps_typed kv l k"
    and "client_run env ops (l, k) = (l', k')"
  shows "maps_typed kv l' k'"
  using assms(3-)
proof (induction ops arbitrary: l k)
  case (Cons x xs)
  obtain l1 k1 where s: "client_step env x (l, k) = (l1, k1)" by force
  with Cons client_step_inv [OF laws(1) _ _ s] client_step_typed [OF laws _ _ _ s] show ?case by (simp add: client_run_def)
qed (simp add: client_run_def)

text \<open>C6: Type soundness of the policy maps. On every run of the client, whatever calls fail, every policy map
  of every identifier holds only entries of the declared sizes: 8 or 20 byte keys by the address family, and
  288 byte values in the network policy maps, 384 byte values in the cluster policy maps.\<close>
theorem policy_maps_typed:
  assumes laws: "env_laws env kv" "empty_laws env kv" and ops: "\<forall>x \<in> set ops. valid_op x"
    and run: "client_run env ops (new_client f binary mode multiNIC, k0) = (l, k)"
    and own: "owns_map l i d (mapName kd d) b" and entry: "kv_maps kv k (MapID b) key = Some v"
  shows "length key = (if fwrp_enableIPv6 (fwRuleProcessor l) then 20 else 8) \<and>
    length v = (case kd of PolicyMap \<Rightarrow> 288 | ClusterPolicyMap \<Rightarrow> 384)"
proof -
  have "maps_typed kv (new_client f binary mode multiNIC) k0" by (simp add: maps_typed_def owns_map_def new_client_def)
  from client_run_typed [OF laws ops new_client_inv this run]
  have "typed_map (key_size (fwrp_enableIPv6 (fwRuleProcessor l))) (value_size kd) (kv_maps kv k (MapID b))"
    by (rule maps_typedD(2) [OF _ own])
  with entry show ?thesis
    by (cases kd) (simp_all add: typed_map_def key_size_def TRIE_V6_KEY_LENGTH_def TRIE_KEY_LENGTH_def
        TRIE_VALUE_LENGTH_def ADMIN_TRIE_VALUE_LENGTH_def)
qed

text \<open>The simulated kernel with maps that are created empty.\<close>

definition fresh_env :: "sim_kernel bpf_env" where
  "fresh_env = sim_env\<lparr>LoadBpfFile := (\<lambda>f i k. (Inr (\<lambda>pin. Some (sim_data (sim_next k))),
     k\<lparr>sim_maps := (\<lambda>j. if sim_next k \<le> j then [] else sim_maps k j), sim_next := sim_next k + 6\<rparr>))\<rparr>"

lemma fresh_env_laws: "env_laws fresh_env sim_view" "empty_laws fresh_env sim_view"
proof -
  let ?k = "\<lambda>k. k\<lparr>sim_maps := (\<lambda>j. if sim_next k \<le> j then [] else sim_maps k j), sim_next := sim_next k + 6\<rparr>"
  have "policy_maps d \<subseteq> dom (map_of (Maps (sim_data n)))" for d n
    by (cases d) (auto simp: policy_maps_def sim_data_def name_defs)
  moreover have "keeps sim_view {} {} k (?k k)" for k by (auto simp: keeps_def sim_view_def)
  moreover have "fresh_program sim_view k (?k k) (sim_data (sim_next k))" for k
    by (auto simp: fresh_program_def sim_view_def sim_data_def sim_map_def name_defs split: if_splits)
  ultimately have "load_laws fresh_env sim_view" by (auto simp: load_laws_def fresh_env_def)
  moreover have "tc_laws fresh_env sim_view"
  proof -
    have "tcAttach fresh_env d v fd k = tcAttach sim_env d v fd k" "tcDetach fresh_env d v k = tcDetach sim_env d v k" for d v fd k
      by (cases d; simp add: fresh_env_def)+
    then show ?thesis using sim_tc_laws by (simp add: tc_laws_def) (simp add: fresh_env_def)
  qed
  moreover have "sdk_laws (map_api fresh_env) (kv_maps sim_view)" "state_laws fresh_env sim_view" "ids_laws fresh_env sim_view"
    using sim_sdk_laws sim_state_laws sim_ids_laws by (simp_all add: state_laws_def ids_laws_def fresh_env_def)
  ultimately show "env_laws fresh_env sim_view" by (simp add: env_laws_def)
  have "sim_next k \<le> MapID b" if "map_of (Maps (sim_data (sim_next k))) n = Some b" for k n b
    using that by (auto simp: sim_data_def sim_map_def split: if_splits)
  then show "empty_laws fresh_env sim_view" by (auto simp: empty_laws_def fresh_env_def sim_view_def)
qed

theorem policy_maps_typed_witness:
  "\<exists>l k key v. client_run fresh_env [Attach (example_pod ''a'') 1 True, UpdateMaps example_go_orders ''web-7d@shop'' [] []]
       (example_client, example_kernel) = (l, k) \<and>
     map_of (sim_maps k 1) key = Some v \<and> length key = 8 \<and> length v = 288"
proof -
  let ?ops = "[Attach (example_pod ''a'') 1 True, UpdateMaps example_go_orders ''web-7d@shop'' [] []]"
  obtain l k where r: "client_run fresh_env ?ops (example_client, example_kernel) = (l, k)" by force
  have "case client_run fresh_env ?ops (example_client, example_kernel) of (l, k) \<Rightarrow>
      map_of (sim_maps k 1) (fst (hd (sim_maps k 1))) \<noteq> None \<and> \<not> fwrp_enableIPv6 (fwRuleProcessor l) \<and>
      (case policyEndpointeBPFContext l ''web-7d@shop'' of None \<Rightarrow> False
       | Some c \<Rightarrow> map_of (Maps (pgmInfo c Ingress)) (mapName PolicyMap Ingress) = Some (sim_map 1))"
    by code_simp
  then obtain key v where e: "map_of (sim_maps k 1) key = Some v" "\<not> fwrp_enableIPv6 (fwRuleProcessor l)"
    and o: "owns_map l ''web-7d@shop'' Ingress (mapName PolicyMap Ingress) (sim_map 1)"
    unfolding r by (auto simp: owns_map_def policy_maps_def split: option.splits)
  have v: "\<forall>x \<in> set ?ops. valid_op x" using example_go_orders_range by (simp add: example_pod_def)
  from policy_maps_typed [OF fresh_env_laws v r [unfolded example_client_def] o, of key v] e
  show ?thesis using r by (auto simp: sim_view_def sim_map_def)
qed

end
