(* ===== verification/Conntrack.thy ===== *)
theory Conntrack
  imports Datapath MemMap
begin

text \<open>
  \<^verbatim>\<open>pkg/ebpf/conntrack/conntrack_client.go\<close>: the collector of stale entries of the datapath's
  conntrack map. It runs in two alternating cycles: one copies the keys of the map into a local
  cache, the next compares the cache with the kernel's own conntrack table and deletes the entries
  no live flow accounts for, unless the datapath used them since the cycle began.

  The eBPF SDK, netlink and the clock are the parameter \<open>ct_env\<close> over a state \<open>'k\<close>. Every call
  returns the state after it, because the datapath runs concurrently. The type \<open>'q\<close> is what
  the map's key pointer points to: the key struct for IPv4, its bytes for IPv6.
\<close>

section \<open>State and parameters\<close>

datatype errno = ENOENT | Errno string

datatype address_family = AF_INET | AF_INET6

record ip_tuple =
  SrcIP :: ip
  SrcPort :: u16
  DstIP :: ip
  DstPort :: u16
  Protocol :: u8

record conntrack_flow =
  Forward :: ip_tuple
  Reverse :: ip_tuple

record ('q, 'k) ct_env =
  GetMapFromPinPath :: "string \<Rightarrow> 'k \<Rightarrow> (string + nat) \<times> 'k"
  GetFirstMapEntryByID :: "nat \<Rightarrow> 'k \<Rightarrow> (errno + 'q) \<times> 'k"
  GetMapEntryByID :: "nat \<Rightarrow> 'q \<Rightarrow> 'k \<Rightarrow> (errno + ConntrackVal) \<times> 'k"
  GetNextMapEntryByID :: "nat \<Rightarrow> 'q \<Rightarrow> 'k \<Rightarrow> (errno + 'q) \<times> 'k"
  ReadMapEntry :: "BpfMap \<Rightarrow> 'q \<Rightarrow> 'k \<Rightarrow> (string + ConntrackVal) \<times> 'k"
  RemoveMapEntry :: "BpfMap \<Rightarrow> 'q \<Rightarrow> 'k \<Rightarrow> string option \<times> 'k"
  ClockGettime :: "'k \<Rightarrow> (string + int \<times> int) \<times> 'k"
  ConntrackTableList :: "address_family \<Rightarrow> 'k \<Rightarrow> (string + conntrack_flow list) \<times> 'k"

text \<open>A cache is a Go map, or nil until it is made.\<close>

record conntrackClient =
  conntrackMap :: BpfMap
  enableIPv6 :: bool
  hydratelocalConntrack :: bool
  localConntrackV4Cache :: "(ConntrackKey, bool) go_map option"
  localConntrackV6Cache :: "(ConntrackKeyV6, bool) go_map option"

definition CONNTRACK_MAP_PIN_PATH :: string where
  "CONNTRACK_MAP_PIN_PATH = ''/sys/fs/bpf/globals/aws/maps/global_aws_conntrack_map''"

section \<open>Operations\<close>

text \<open>The clock in nanoseconds: seconds and nanoseconds as one unsigned 64-bit number.\<close>

definition KtimeGetNs :: "('q, 'k) ct_env \<Rightarrow> 'k \<Rightarrow> (string + u64) \<times> 'k" where
  "KtimeGetNs env k =
     (case ClockGettime env k of
        (Inl e, k') \<Rightarrow> (Inl e, k')
      | (Inr (sec, nsec), k') \<Rightarrow> (Inr (word_of_int (sec * 1000000000 + nsec)), k'))"

definition entryActiveFromRead :: "ConntrackVal option \<Rightarrow> u64 \<Rightarrow> bool" where
  "entryActiveFromRead cur gcStart =
     (case cur of None \<Rightarrow> True | Some v \<Rightarrow> gcStart \<le> cv_LastSeen v)"

definition isEntryActive :: "('q, 'k) ct_env \<Rightarrow> BpfMap \<Rightarrow> 'q \<Rightarrow> u64 \<Rightarrow> 'k \<Rightarrow> bool \<times> 'k" where
  "isEntryActive env m key gcStart k =
     (case ReadMapEntry env m key k of
        (Inl e, k') \<Rightarrow> (entryActiveFromRead None gcStart, k')
      | (Inr cur, k') \<Rightarrow> (entryActiveFromRead (Some cur) gcStart, k'))"

definition NewConntrackClient :: "BpfMap \<Rightarrow> bool \<Rightarrow> conntrackClient" where
  "NewConntrackClient m v6 = \<lparr>conntrackMap = m, enableIPv6 = v6, hydratelocalConntrack = True,
     localConntrackV4Cache = None, localConntrackV6Cache = None\<rparr>"

definition InitializeLocalCache :: "conntrackClient \<Rightarrow> conntrackClient" where
  "InitializeLocalCache c =
     (if enableIPv6 c then c\<lparr>localConntrackV6Cache := Some []\<rparr> else c\<lparr>localConntrackV4Cache := Some []\<rparr>)"

text \<open>
  The loop that copies the keys of the map into the cache; \<open>newKey\<close> makes the cached key from the
  key read. The map may change under the loop, so nothing bounds it in general: it returns
  \<open>None\<close> when it runs forever. It ends normally, or returns from the whole cycle (\<open>Abandoned\<close>), or
  panics because the cache is nil.
\<close>

datatype hydrate_end = Hydrated | Abandoned | Crashed go_panic

partial_function (option) hydrate_loop ::
  "('q, 'k) ct_env \<Rightarrow> ('q \<Rightarrow> 'c) \<Rightarrow> nat \<Rightarrow> 'q \<Rightarrow> ('c, bool) go_map option \<Rightarrow> 'k \<Rightarrow>
     (hydrate_end \<times> ('c, bool) go_map option \<times> 'k) option" where
  "hydrate_loop env newKey mapID iterKey cache k =
     (case GetMapEntryByID env mapID iterKey k of
        (Inl e, k1) \<Rightarrow> Some (if e = ENOENT then Hydrated else Abandoned, cache, k1)
      | (Inr _, k1) \<Rightarrow>
          (case cache of
             None \<Rightarrow> Some (Crashed NilMapWrite, cache, k1)
           | Some c \<Rightarrow>
               let cache' = Some (AList.update (newKey iterKey) True c)
               in case GetNextMapEntryByID env mapID iterKey k1 of
                    (Inl e, k2) \<Rightarrow> Some (Hydrated, cache', k2)
                  | (Inr iterNextKey, k2) \<Rightarrow> hydrate_loop env newKey mapID iterNextKey cache' k2))"

declare hydrate_loop.simps [code]

text \<open>The loop over the cache: \<open>lookupKey\<close> makes the key compared with the kernel's flows, \<open>enc\<close> is
  the key as the map has it. A failed deletion is ignored.\<close>

fun gc_loop ::
  "('q, 'k) ct_env \<Rightarrow> BpfMap \<Rightarrow> ('c \<Rightarrow> go_panic + 'c) \<Rightarrow> ('c \<Rightarrow> 'q) \<Rightarrow> ('c, bool) go_map \<Rightarrow> u64 \<Rightarrow> 'c list \<Rightarrow> 'k \<Rightarrow>
     go_panic option \<times> 'k" where
  "gc_loop env m lookupKey enc kernelCache gcStart [] k = (None, k)"
| "gc_loop env m lookupKey enc kernelCache gcStart (e # es) k =
     (case lookupKey e of
        Inl p \<Rightarrow> (Some p, k)
      | Inr key \<Rightarrow>
          if map_of kernelCache key \<noteq> None then gc_loop env m lookupKey enc kernelCache gcStart es k
          else (case isEntryActive env m (enc e) gcStart k of
                  (True, k1) \<Rightarrow> gc_loop env m lookupKey enc kernelCache gcStart es k1
                | (False, k1) \<Rightarrow>
                    gc_loop env m lookupKey enc kernelCache gcStart es (snd (RemoveMapEntry env m (enc e) k1))))"

subsection \<open>IPv4\<close>

text \<open>The cached copy of a key: all named fields, padding cleared.\<close>

definition newKeyV4 :: "ConntrackKey \<Rightarrow> ConntrackKey" where
  "newKeyV4 iterKey =
     \<lparr>ck_Source_ip = ck_Source_ip iterKey, ck_Source_port = ck_Source_port iterKey, ck_pad1 = 0,
      ck_Dest_ip = ck_Dest_ip iterKey, ck_Dest_port = ck_Dest_port iterKey,
      ck_Protocol = ck_Protocol iterKey, ck_pad2 = 0, ck_Owner_ip = ck_Owner_ip iterKey,
      ck_Ifindex = ck_Ifindex iterKey\<rparr>"

definition flowKeyV4 :: "u32 \<Rightarrow> u16 \<Rightarrow> u32 \<Rightarrow> u16 \<Rightarrow> u8 \<Rightarrow> u32 \<Rightarrow> ConntrackKey" where
  "flowKeyV4 sip sport dip dport proto owner =
     \<lparr>ck_Source_ip = sip, ck_Source_port = sport, ck_pad1 = 0, ck_Dest_ip = dip, ck_Dest_port = dport,
      ck_Protocol = proto, ck_pad2 = 0, ck_Owner_ip = owner, ck_Ifindex = 0\<rparr>"

text \<open>The keys of one flow of the kernel's table: with the source and with the destination as owner,
  and the same for the translated destination when the flow goes to a virtual address.\<close>

definition addFlowV4 :: "conntrack_flow \<Rightarrow> (ConntrackKey, bool) go_map \<Rightarrow> go_panic + (ConntrackKey, bool) go_map" where
  "addFlowV4 f cache =
     (let fwd = Forward f; rv = Reverse f
      in case ConvIPv4ToInt (SrcIP fwd) of
           Inl p \<Rightarrow> Inl p
         | Inr sip \<Rightarrow>
             (case ConvIPv4ToInt (DstIP fwd) of
                Inl p \<Rightarrow> Inl p
              | Inr dip \<Rightarrow>
                  let fwdFlowWithSIP = flowKeyV4 sip (SrcPort fwd) dip (DstPort fwd) (Protocol fwd) sip;
                      fwdFlowWithDIP = flowKeyV4 sip (SrcPort fwd) dip (DstPort fwd) (Protocol fwd) dip;
                      cache1 = AList.update fwdFlowWithDIP True (AList.update fwdFlowWithSIP True cache);
                      destIP = ParseIP (IP_String (DstIP fwd));
                      revDestIP = ParseIP (IP_String (SrcIP rv))
                  in if IP_Equal destIP revDestIP then Inr cache1
                     else (case ConvIPv4ToInt (SrcIP rv) of
                             Inl p \<Rightarrow> Inl p
                           | Inr rip \<Rightarrow>
                               let revFlowWithSIP = flowKeyV4 sip (SrcPort fwd) rip (SrcPort rv) (Protocol fwd) sip;
                                   revFlowWithDIP = flowKeyV4 sip (SrcPort fwd) rip (SrcPort rv) (Protocol fwd) rip
                               in Inr (AList.update revFlowWithDIP True (AList.update revFlowWithSIP True cache1)))))"

definition lookupKeyV4 :: "ConntrackKey \<Rightarrow> go_panic + ConntrackKey" where
  "lookupKeyV4 e =
     (case ConvIPv4ToInt (ConvIntToIPv4 (ck_Source_ip e)) of
        Inl p \<Rightarrow> Inl p
      | Inr sip \<Rightarrow>
          (case ConvIPv4ToInt (ConvIntToIPv4 (ck_Dest_ip e)) of
             Inl p \<Rightarrow> Inl p
           | Inr dip \<Rightarrow>
               (case ConvIPv4ToInt (ConvIntToIPv4 (ck_Owner_ip e)) of
                  Inl p \<Rightarrow> Inl p
                | Inr owner \<Rightarrow> Inr (flowKeyV4 sip (ck_Source_port e) dip (ck_Dest_port e) (ck_Protocol e) owner))))"

definition CleanupConntrackMap ::
  "(ConntrackKey, 'k) ct_env \<Rightarrow> (ConntrackKey list \<Rightarrow> ConntrackKey list) \<Rightarrow> conntrackClient \<Rightarrow> 'k \<Rightarrow>
     (go_panic option \<times> conntrackClient \<times> 'k) option" where
  "CleanupConntrackMap env ord c k =
     (case GetMapFromPinPath env CONNTRACK_MAP_PIN_PATH k of
        (Inl e, k1) \<Rightarrow> Some (None, c, k1)
      | (Inr mapID, k1) \<Rightarrow>
          if hydratelocalConntrack c then
            let c1 = InitializeLocalCache c
            in case GetFirstMapEntryByID env mapID k1 of
                 (Inl e, k2) \<Rightarrow> Some (None, c1, k2)
               | (Inr iterKey, k2) \<Rightarrow>
                   map_option (\<lambda>(r, cache, k3).
                       (case r of Crashed p \<Rightarrow> Some p | _ \<Rightarrow> None,
                        c1\<lparr>localConntrackV4Cache := cache, hydratelocalConntrack := (r \<noteq> Hydrated)\<rparr>, k3))
                     (hydrate_loop env newKeyV4 mapID iterKey (localConntrackV4Cache c1) k2)
          else
            (case KtimeGetNs env k1 of
               (Inl e, k2) \<Rightarrow> Some (None, c\<lparr>hydratelocalConntrack := True\<rparr>, k2)
             | (Inr gcStart, k2) \<Rightarrow>
                 (case ConntrackTableList env AF_INET k2 of
                    (Inl e, k3) \<Rightarrow> Some (None, c, k3)
                  | (Inr conntrackFlows, k3) \<Rightarrow>
                      (case fold_panic addFlowV4 conntrackFlows [] of
                         Inl p \<Rightarrow> Some (Some p, c, k3)
                       | Inr kernelConntrackV4Cache \<Rightarrow>
                           let keys = (case localConntrackV4Cache c of None \<Rightarrow> [] | Some m \<Rightarrow> map fst m)
                           in case gc_loop env (conntrackMap c) lookupKeyV4 (\<lambda>e. e) kernelConntrackV4Cache gcStart
                                     (ord keys) k3 of
                                (Some p, k4) \<Rightarrow> Some (Some p, c, k4)
                              | (None, k4) \<Rightarrow> Some (None, c\<lparr>hydratelocalConntrack := True\<rparr>, k4)))))"

subsection \<open>IPv6\<close>

definition zero16 :: "byte list" where "zero16 = replicate 16 0"

definition newKeyV6 :: "byte list \<Rightarrow> ConntrackKeyV6" where
  "newKeyV6 byteSlice =
     (let connKey = ConvByteToConntrackV6 byteSlice
      in \<lparr>ck6_Source_ip = CopyV6Bytes zero16 (ck6_Source_ip connKey), ck6_Source_port = ck6_Source_port connKey,
          ck6_pad1 = 0, ck6_Dest_ip = CopyV6Bytes zero16 (ck6_Dest_ip connKey),
          ck6_Dest_port = ck6_Dest_port connKey, ck6_Protocol = ck6_Protocol connKey, ck6_pad2 = 0,
          ck6_Owner_ip = CopyV6Bytes zero16 (ck6_Owner_ip connKey), ck6_Ifindex = ck6_Ifindex connKey\<rparr>)"

definition flowKeyV6 :: "byte list \<Rightarrow> u16 \<Rightarrow> byte list \<Rightarrow> u16 \<Rightarrow> u8 \<Rightarrow> byte list \<Rightarrow> ConntrackKeyV6" where
  "flowKeyV6 sip sport dip dport proto owner =
     \<lparr>ck6_Source_ip = copy_into_zero 16 sip, ck6_Source_port = sport, ck6_pad1 = 0,
      ck6_Dest_ip = copy_into_zero 16 dip, ck6_Dest_port = dport, ck6_Protocol = proto, ck6_pad2 = 0,
      ck6_Owner_ip = copy_into_zero 16 owner, ck6_Ifindex = 0\<rparr>"

definition addFlowV6 :: "conntrack_flow \<Rightarrow> (ConntrackKeyV6, bool) go_map \<Rightarrow> go_panic + (ConntrackKeyV6, bool) go_map" where
  "addFlowV6 f cache =
     (let fwd = Forward f; rv = Reverse f;
          sip = ConvIPv6ToByte (SrcIP fwd); dip = ConvIPv6ToByte (DstIP fwd); rip = ConvIPv6ToByte (SrcIP rv);
          fwdFlowWithSIP = flowKeyV6 sip (SrcPort fwd) dip (DstPort fwd) (Protocol fwd) sip;
          fwdFlowWithDIP = flowKeyV6 sip (SrcPort fwd) dip (DstPort fwd) (Protocol fwd) dip;
          cache1 = AList.update fwdFlowWithDIP True (AList.update fwdFlowWithSIP True cache);
          destIP = ParseIP (IP_String (DstIP fwd));
          revDestIP = ParseIP (IP_String (SrcIP rv))
      in if IP_Equal destIP revDestIP then Inr cache1
         else
           let revFlowWithSIP = flowKeyV6 sip (SrcPort fwd) rip (SrcPort rv) (Protocol fwd) sip;
               revFlowWithDIP = flowKeyV6 sip (SrcPort fwd) rip (SrcPort rv) (Protocol fwd) rip
           in Inr (AList.update revFlowWithDIP True (AList.update revFlowWithSIP True cache1)))"

definition lookupKeyV6 :: "ConntrackKeyV6 \<Rightarrow> go_panic + ConntrackKeyV6" where
  "lookupKeyV6 e = Inr (e\<lparr>ck6_Ifindex := 0\<rparr>)"

definition Cleanupv6ConntrackMap ::
  "(byte list, 'k) ct_env \<Rightarrow> (ConntrackKeyV6 list \<Rightarrow> ConntrackKeyV6 list) \<Rightarrow> conntrackClient \<Rightarrow> 'k \<Rightarrow>
     (go_panic option \<times> conntrackClient \<times> 'k) option" where
  "Cleanupv6ConntrackMap env ord c k =
     (case GetMapFromPinPath env CONNTRACK_MAP_PIN_PATH k of
        (Inl e, k1) \<Rightarrow> Some (None, c, k1)
      | (Inr mapID, k1) \<Rightarrow>
          if hydratelocalConntrack c then
            let c1 = InitializeLocalCache c
            in case GetFirstMapEntryByID env mapID k1 of
                 (Inl e, k2) \<Rightarrow> Some (None, c1, k2)
               | (Inr byteSlice, k2) \<Rightarrow>
                   map_option (\<lambda>(r, cache, k3).
                       (case r of Crashed p \<Rightarrow> Some p | _ \<Rightarrow> None,
                        c1\<lparr>localConntrackV6Cache := cache, hydratelocalConntrack := (r \<noteq> Hydrated)\<rparr>, k3))
                     (hydrate_loop env newKeyV6 mapID byteSlice (localConntrackV6Cache c1) k2)
          else
            (case KtimeGetNs env k1 of
               (Inl e, k2) \<Rightarrow> Some (None, c\<lparr>hydratelocalConntrack := True\<rparr>, k2)
             | (Inr gcStart, k2) \<Rightarrow>
                 (case ConntrackTableList env AF_INET6 k2 of
                    (Inl e, k3) \<Rightarrow> Some (None, c, k3)
                  | (Inr conntrackFlows, k3) \<Rightarrow>
                      (case fold_panic addFlowV6 conntrackFlows [] of
                         Inl p \<Rightarrow> Some (Some p, c, k3)
                       | Inr kernelConntrackV6Cache \<Rightarrow>
                           let keys = (case localConntrackV6Cache c of None \<Rightarrow> [] | Some m \<Rightarrow> map fst m)
                           in case gc_loop env (conntrackMap c) lookupKeyV6 ConvConntrackV6ToByte
                                     kernelConntrackV6Cache gcStart (ord keys) k3 of
                                (Some p, k4) \<Rightarrow> Some (Some p, c, k4)
                              | (None, k4) \<Rightarrow>
                                  Some (None, c\<lparr>localConntrackV6Cache := Some [], hydratelocalConntrack := True\<rparr>, k4)))))"

section \<open>Which entries a flow accounts for\<close>

text \<open>Netlink reports IPv4 addresses as four bytes and IPv6 addresses as sixteen.\<close>

definition flow_wf :: "nat \<Rightarrow> conntrack_flow \<Rightarrow> bool" where
  "flow_wf n f \<longleftrightarrow> length (SrcIP (Forward f)) = n \<and> length (DstIP (Forward f)) = n \<and> length (SrcIP (Reverse f)) = n"

text \<open>
  The entry's source is the flow's source; its destination is the flow's destination or, for a flow to a
  virtual address, the host that answers; its owner is one of the two ends. The interface is ignored.
\<close>

definition flow_accounts ::
  "conntrack_flow \<Rightarrow> byte list \<Rightarrow> u16 \<Rightarrow> byte list \<Rightarrow> u16 \<Rightarrow> u8 \<Rightarrow> byte list \<Rightarrow> bool" where
  "flow_accounts f sip sport dip dport proto owner \<longleftrightarrow>
     sip = SrcIP (Forward f) \<and> sport = SrcPort (Forward f) \<and> proto = Protocol (Forward f) \<and>
     (dip = DstIP (Forward f) \<and> dport = DstPort (Forward f) \<or>
      SrcIP (Reverse f) \<noteq> DstIP (Forward f) \<and> dip = SrcIP (Reverse f) \<and> dport = SrcPort (Reverse f)) \<and>
     (owner = sip \<or> owner = dip)"

definition liveV4 :: "conntrack_flow \<Rightarrow> ConntrackKey \<Rightarrow> bool" where
  "liveV4 f e = flow_accounts f (put_le32 (ck_Source_ip e)) (ck_Source_port e) (put_le32 (ck_Dest_ip e))
     (ck_Dest_port e) (ck_Protocol e) (put_le32 (ck_Owner_ip e))"

definition liveV6 :: "conntrack_flow \<Rightarrow> ConntrackKeyV6 \<Rightarrow> bool" where
  "liveV6 f e = flow_accounts f (ck6_Source_ip e) (ck6_Source_port e) (ck6_Dest_ip e)
     (ck6_Dest_port e) (ck6_Protocol e) (ck6_Owner_ip e)"

lemma ParseIP_IP_String:
  assumes "length a = 4 \<or> length a = 16" shows "ParseIP (IP_String a) = To16 a"
proof (cases "To4 a = []")
  case True
  with assms have "length a = 16" by (auto simp: To4_def)
  with True show ?thesis by (auto simp: IP_String_def ParseIP_def ParseAddr_ipv6 To16_def)
next
  case False
  then have "length (To4 a) = 4" by (rule length_To4)
  moreover have "v4InV6Prefix @ To4 a = To16 a"
    using assms False by (auto simp: To4_def To16_def split: if_splits) (metis append_take_drop_id)
  moreover have "a \<noteq> []" using assms by auto
  ultimately show ?thesis using assms False by (auto simp: IP_String_def ParseIP_def)
qed

lemma same_dest:
  assumes "length a = n" and "length b = n" and "n = 4 \<or> n = 16"
  shows "IP_Equal (ParseIP (IP_String a)) (ParseIP (IP_String b)) \<longleftrightarrow> a = b"
  using assms by (auto simp: ParseIP_IP_String To16_def IP_Equal_def)

lemma ConvIPv4ToInt_Inr: "length a = 4 \<Longrightarrow> ConvIPv4ToInt a = Inr (get_le32 (rev a))"
proof -
  assume "length a = 4"
  then obtain p q r s where "a = [p, q, r, s]" by (auto simp: numeral_eq_Suc length_Suc_conv)
  then show ?thesis by (auto simp: ConvIPv4ToInt_def get_le32_def ac_simps)
qed

lemma get_le32_rev_inject:
  assumes "length a = 4" and "length b = 4"
  shows "get_le32 (rev a) = get_le32 (rev b) \<longleftrightarrow> a = b"
  using assms by (metis length_rev put_get_le32 rev_rev_ident)

section \<open>The two families\<close>

text \<open>What the loops need of a family's keys: the key compared with the kernel's flows exists, a flow
  adds exactly the entries it accounts for, and distinct cached keys are distinct map keys.\<close>

locale gc_family =
  fixes lookupKey :: "'c \<Rightarrow> go_panic + 'c"
    and addFlow :: "conntrack_flow \<Rightarrow> ('c, bool) go_map \<Rightarrow> go_panic + ('c, bool) go_map"
    and enc :: "'c \<Rightarrow> 'q" and newKey :: "'q \<Rightarrow> 'c"
    and key_wf :: "'c \<Rightarrow> bool" and fl_wf :: "conntrack_flow \<Rightarrow> bool"
    and live :: "conntrack_flow \<Rightarrow> 'c \<Rightarrow> bool"
  assumes lookupKey_total: "key_wf e \<Longrightarrow> \<exists>key. lookupKey e = Inr key"
    and addFlow_total: "fl_wf f \<Longrightarrow> \<exists>cache'. addFlow f cache = Inr cache'"
    and addFlow_adds: "fl_wf f \<Longrightarrow> addFlow f cache = Inr cache' \<Longrightarrow> key_wf e \<Longrightarrow> lookupKey e = Inr key \<Longrightarrow>
          map_of cache' key \<noteq> None \<longleftrightarrow> map_of cache key \<noteq> None \<or> live f e"
    and enc_inject: "key_wf e \<Longrightarrow> key_wf e' \<Longrightarrow> enc e = enc e' \<Longrightarrow> e = e'"
    and newKey_wf: "key_wf (newKey q)"
begin

lemma flows_cached:
  assumes "\<forall>f \<in> set flows. fl_wf f" and "key_wf e" and "lookupKey e = Inr key"
  shows "\<exists>kc. fold_panic addFlow flows cache = Inr kc \<and>
    (map_of kc key \<noteq> None \<longleftrightarrow> map_of cache key \<noteq> None \<or> (\<exists>f \<in> set flows. live f e))"
  using assms(1)
proof (induction flows arbitrary: cache)
  case (Cons f flows)
  then obtain cache' where c: "addFlow f cache = Inr cache'" using addFlow_total [of f cache] by auto
  moreover have "map_of cache' key \<noteq> None \<longleftrightarrow> map_of cache key \<noteq> None \<or> live f e"
    using addFlow_adds [OF _ c assms(2, 3)] Cons.prems by simp
  moreover obtain kc where "fold_panic addFlow flows cache' = Inr kc"
    "map_of kc key \<noteq> None \<longleftrightarrow> map_of cache' key \<noteq> None \<or> (\<exists>f \<in> set flows. live f e)"
    using Cons.IH [of cache'] Cons.prems by auto
  ultimately show ?case by simp
qed simp

lemma flows_total:
  assumes "\<forall>f \<in> set flows. fl_wf f" shows "\<exists>kc. fold_panic addFlow flows cache = Inr kc"
  using assms
proof (induction flows arbitrary: cache)
  case (Cons f flows)
  then obtain cache' where "addFlow f cache = Inr cache'" using addFlow_total [of f cache] by auto
  with Cons show ?case by simp
qed simp

end

interpretation v4: gc_family lookupKeyV4 addFlowV4 "\<lambda>e. e" newKeyV4 "\<lambda>_. True" "flow_wf 4" liveV4
proof
  show "\<exists>key. lookupKeyV4 e = Inr key" for e
    by (simp add: lookupKeyV4_def ConvIntToIPv4_def ConvIPv4ToInt_Inr)
next
  fix f cache assume f: "flow_wf 4 f"
  show "\<exists>cache'. addFlowV4 f cache = Inr cache'"
    using f by (simp add: addFlowV4_def flow_wf_def ConvIPv4ToInt_Inr Let_def)
  fix cache' e key
  assume a: "addFlowV4 f cache = Inr cache'" and l: "lookupKeyV4 e = Inr key"
  show "map_of cache' key \<noteq> None \<longleftrightarrow> map_of cache key \<noteq> None \<or> liveV4 f e"
    using a l f
    by (auto simp: addFlowV4_def flow_wf_def ConvIPv4ToInt_Inr Let_def lookupKeyV4_def ConvIntToIPv4_def
        same_dest [where n = 4] liveV4_def flow_accounts_def flowKeyV4_def get_le32_rev_inject simp del: put_le32_inject split: if_splits)
qed (simp_all)

interpretation v6: gc_family lookupKeyV6 addFlowV6 ConvConntrackV6ToByte newKeyV6
  "\<lambda>e. ck6_wf e \<and> ck6_pad1 e = 0 \<and> ck6_pad2 e = 0" "flow_wf 16" liveV6
proof
  show "\<exists>key. lookupKeyV6 e = Inr key" for e by (simp add: lookupKeyV6_def)
next
  fix f cache assume f: "flow_wf 16 f"
  show "\<exists>cache'. addFlowV6 f cache = Inr cache'" by (simp add: addFlowV6_def Let_def)
  fix cache' e key
  assume a: "addFlowV6 f cache = Inr cache'" and l: "lookupKeyV6 e = Inr key"
    and e: "ck6_wf e \<and> ck6_pad1 e = 0 \<and> ck6_pad2 e = 0"
  show "map_of cache' key \<noteq> None \<longleftrightarrow> map_of cache key \<noteq> None \<or> liveV6 f e"
    using a l f e
    by (cases e) (auto simp: addFlowV6_def flow_wf_def Let_def lookupKeyV6_def ConvIPv6ToByte_def To16_def
        same_dest [where n = 16] liveV6_def flow_accounts_def flowKeyV6_def split: if_splits)
next
  show "e = e'" if "ck6_wf e \<and> ck6_pad1 e = 0 \<and> ck6_pad2 e = 0" and "ck6_wf e' \<and> ck6_pad1 e' = 0 \<and> ck6_pad2 e' = 0"
    and "ConvConntrackV6ToByte e = ConvConntrackV6ToByte e'" for e e'
    using that ConvByte_of_ConntrackV6 by metis
next
  show "ck6_wf (newKeyV6 q) \<and> ck6_pad1 (newKeyV6 q) = 0 \<and> ck6_pad2 (newKeyV6 q) = 0" for q
    by (simp add: newKeyV6_def Let_def ck6_wf_def ConvByteToConntrackV6_def CopyV6Bytes_spec zero16_def get_at_def)
qed

section \<open>The kernel while the datapath runs\<close>

text \<open>
  \<open>tbl k\<close> is the conntrack map in state \<open>k\<close>, \<open>clk k\<close> the monotonic clock and \<open>gone k\<close> the history of the
  keys that calls of \<open>RemoveMapEntry\<close> have deleted, the newest first. While the datapath runs, packet by
  packet, it inserts entries and stamps the ones it uses with the time, and it deletes entries; the
  kernel evicts entries of a full map.
\<close>

definition datapath_runs ::
  "('k \<Rightarrow> 'q \<rightharpoonup> ConntrackVal) \<Rightarrow> ('k \<Rightarrow> u64) \<Rightarrow> ('k \<Rightarrow> 'q list) \<Rightarrow> 'k \<Rightarrow> 'k \<Rightarrow> bool" where
  "datapath_runs tbl clk gone k k' \<longleftrightarrow> clk k \<le> clk k' \<and> gone k' = gone k \<and>
     (\<forall>q. tbl k' q = tbl k q \<or> tbl k' q = None \<or> (\<exists>v. tbl k' q = Some v \<and> clk k \<le> cv_LastSeen v))"

text \<open>What the calls do, with the datapath running before and after each: the clock returns a time that
  has come, a read returns the entry's value, a deletion removes the entry and enters the history, or fails.\<close>

definition ct_laws ::
  "('q, 'k) ct_env \<Rightarrow> BpfMap \<Rightarrow> ('k \<Rightarrow> 'q \<rightharpoonup> ConntrackVal) \<Rightarrow> ('k \<Rightarrow> u64) \<Rightarrow> ('k \<Rightarrow> 'q list) \<Rightarrow> bool" where
  "ct_laws env m tbl clk gone \<longleftrightarrow>
     (\<forall>k r k'. KtimeGetNs env k = (r, k') \<longrightarrow> datapath_runs tbl clk gone k k' \<and> (\<forall>t. r = Inr t \<longrightarrow> t \<le> clk k')) \<and>
     (\<forall>af k r k'. ConntrackTableList env af k = (r, k') \<longrightarrow> datapath_runs tbl clk gone k k') \<and>
     (\<forall>p k r k'. GetMapFromPinPath env p k = (r, k') \<longrightarrow> datapath_runs tbl clk gone k k') \<and>
     (\<forall>q k r k'. ReadMapEntry env m q k = (r, k') \<longrightarrow>
        (\<exists>k1. datapath_runs tbl clk gone k k1 \<and> (\<forall>v. r = Inr v \<longrightarrow> tbl k1 q = Some v) \<and> datapath_runs tbl clk gone k1 k')) \<and>
     (\<forall>q k r k'. RemoveMapEntry env m q k = (r, k') \<longrightarrow>
        (\<exists>k1 k2. datapath_runs tbl clk gone k k1 \<and> clk k2 = clk k1 \<and>
           tbl k2 = (if r = None then (tbl k1)(q := None) else tbl k1) \<and>
           gone k2 = (if r = None then q # gone k1 else gone k1) \<and> datapath_runs tbl clk gone k2 k'))"

lemma ct_lawsD:
  assumes "ct_laws env m tbl clk gone"
  shows "KtimeGetNs env k = (t', k') \<Longrightarrow> datapath_runs tbl clk gone k k' \<and> (\<forall>t. t' = Inr t \<longrightarrow> t \<le> clk k')"
    and "ConntrackTableList env af k = (r', k') \<Longrightarrow> datapath_runs tbl clk gone k k'"
    and "ReadMapEntry env m q k = (r'', k') \<Longrightarrow>
          \<exists>k1. datapath_runs tbl clk gone k k1 \<and> (\<forall>v. r'' = Inr v \<longrightarrow> tbl k1 q = Some v) \<and> datapath_runs tbl clk gone k1 k'"
    and "RemoveMapEntry env m q k = (e, k') \<Longrightarrow>
          \<exists>k1 k2. datapath_runs tbl clk gone k k1 \<and> clk k2 = clk k1 \<and>
           tbl k2 = (if e = None then (tbl k1)(q := None) else tbl k1) \<and>
           gone k2 = (if e = None then q # gone k1 else gone k1) \<and> datapath_runs tbl clk gone k2 k'"
    and "GetMapFromPinPath env p k = (i, k') \<Longrightarrow> datapath_runs tbl clk gone k k'"
  using assms unfolding ct_laws_def by metis+

text \<open>An entry whose stamp is older than \<open>t\<close> has been there unchanged since a state at time \<open>t\<close> or later:
  whatever the datapath writes after \<open>t\<close> it stamps.\<close>

definition old_kept :: "('k \<Rightarrow> 'q \<rightharpoonup> ConntrackVal) \<Rightarrow> ('k \<Rightarrow> u64) \<Rightarrow> u64 \<Rightarrow> 'k \<Rightarrow> 'k \<Rightarrow> bool" where
  "old_kept tbl clk t k k' \<longleftrightarrow> t \<le> clk k' \<and>
     (\<forall>q v. tbl k' q = Some v \<longrightarrow> cv_LastSeen v < t \<longrightarrow> tbl k q = Some v)"

lemma old_kept_refl: "t \<le> clk k \<Longrightarrow> old_kept tbl clk t k k"
  by (simp add: old_kept_def)

lemma old_kept_runs:
  assumes "old_kept tbl clk t k k1" "datapath_runs tbl clk gone k1 k2"
  shows "old_kept tbl clk t k k2"
proof -
  have "tbl k1 q = Some v" if "tbl k2 q = Some v" "cv_LastSeen v < t" for q v
    using assms that unfolding old_kept_def datapath_runs_def
    by (metis leD option.distinct(1) option.inject order_trans)
  with assms show ?thesis unfolding old_kept_def datapath_runs_def by (meson order_trans)
qed

lemma isEntryActive_old:
  assumes laws: "ct_laws env m tbl clk gone" and o: "old_kept tbl clk t k0 k"
    and a: "isEntryActive env m q t k = (inUse, k')"
  shows "old_kept tbl clk t k0 k' \<and> gone k' = gone k \<and> (\<not> inUse \<longrightarrow> (\<exists>v. tbl k0 q = Some v \<and> cv_LastSeen v < t))"
proof -
  obtain r where r: "ReadMapEntry env m q k = (r, k')" and act: "inUse = (case r of Inl _ \<Rightarrow> True | Inr v \<Rightarrow> t \<le> cv_LastSeen v)"
    using a by (auto simp: isEntryActive_def entryActiveFromRead_def split: prod.splits sum.splits)
  obtain k1 where k1: "datapath_runs tbl clk gone k k1" "\<forall>v. r = Inr v \<longrightarrow> tbl k1 q = Some v" "datapath_runs tbl clk gone k1 k'"
    using ct_lawsD(3) [OF laws r] by auto
  have o1: "old_kept tbl clk t k0 k1" by (rule old_kept_runs [OF o k1(1)])
  have "\<exists>v. tbl k0 q = Some v \<and> cv_LastSeen v < t" if "\<not> inUse"
    using that k1(2) o1 by (cases r) (auto simp: act old_kept_def not_le)
  moreover have "gone k' = gone k" using k1(1, 3) by (simp add: datapath_runs_def)
  ultimately show ?thesis using old_kept_runs [OF o1 k1(3)] by blast
qed

lemma RemoveMapEntry_old:
  assumes laws: "ct_laws env m tbl clk gone" and o: "old_kept tbl clk t k0 k" and r: "RemoveMapEntry env m q k = (e, k')"
  shows "old_kept tbl clk t k0 k' \<and> gone k' = (if e = None then q # gone k else gone k)"
proof -
  obtain k1 k2 where k: "datapath_runs tbl clk gone k k1" "clk k2 = clk k1"
      "tbl k2 = (if e = None then (tbl k1)(q := None) else tbl k1)"
      "gone k2 = (if e = None then q # gone k1 else gone k1)" "datapath_runs tbl clk gone k2 k'"
    using ct_lawsD(4) [OF laws r] by (elim exE conjE)
  have "old_kept tbl clk t k0 k1" by (rule old_kept_runs [OF o k(1)])
  then have "old_kept tbl clk t k0 k2" using k(2, 3) by (auto simp: old_kept_def split: if_splits)
  then have "old_kept tbl clk t k0 k'" by (rule old_kept_runs [OF _ k(5)])
  moreover have "gone k' = (if e = None then q # gone k else gone k)" using k(1, 4, 5) by (simp add: datapath_runs_def)
  ultimately show ?thesis ..
qed

text \<open>What the loop deletes: cached keys that the kernel's flows do not have, whose entry was there
  when the loop began with a stamp older than \<open>t\<close>.\<close>

lemma gc_loop_deletes:
  assumes laws: "ct_laws env m tbl clk gone" and o: "old_kept tbl clk t k0 k"
  shows "\<exists>new. gone (snd (gc_loop env m lookupKey enc kc t es k)) = new @ gone k \<and>
    (\<forall>q \<in> set new. (\<exists>e \<in> set es. \<exists>key. q = enc e \<and> lookupKey e = Inr key \<and> map_of kc key = None) \<and>
       (\<exists>v. tbl k0 q = Some v \<and> cv_LastSeen v < t))"
  using o
proof (induction es arbitrary: k)
  case (Cons e es)
  let ?P = "\<lambda>es q. (\<exists>e \<in> set es. \<exists>key. q = enc e \<and> lookupKey e = Inr key \<and> map_of kc key = None) \<and>
       (\<exists>v. tbl k0 q = Some v \<and> cv_LastSeen v < t)"
  have later: "\<exists>new. gone (snd (gc_loop env m lookupKey enc kc t es k1)) = new @ gone k1 \<and> (\<forall>q \<in> set new. ?P (e # es) q)"
    if "old_kept tbl clk t k0 k1" for k1 using Cons.IH [OF that] by fastforce
  show ?case
  proof (cases "\<exists>key. lookupKey e = Inr key \<and> map_of kc key = None")
    case True
    then obtain key where key: "lookupKey e = Inr key" "map_of kc key = None" by blast
    obtain inUse k1 where a: "isEntryActive env m (enc e) t k = (inUse, k1)" by force
    note act = isEntryActive_old [OF laws Cons.prems a]
    show ?thesis
    proof (cases inUse)
      case False
      obtain er k2 where r: "RemoveMapEntry env m (enc e) k1 = (er, k2)" by force
      note rem = RemoveMapEntry_old [OF laws conjunct1 [OF act] r]
      obtain new where new: "gone (snd (gc_loop env m lookupKey enc kc t es k2)) = new @ gone k2" "\<forall>q \<in> set new. ?P (e # es) q"
        using later [OF conjunct1 [OF rem]] by blast
      have "?P (e # es) (enc e)" using key act False by auto
      then have "\<forall>q \<in> set (new @ (if er = None then [enc e] else [])). ?P (e # es) q" using new(2) by auto
      moreover have "gone (snd (gc_loop env m lookupKey enc kc t (e # es) k)) =
          (new @ (if er = None then [enc e] else [])) @ gone k"
        using new(1) rem act key a r False by simp
      ultimately show ?thesis by blast
    next
      case True
      then show ?thesis using later [OF conjunct1 [OF act]] act key a by simp
    qed
  next
    case False
    then show ?thesis using later [OF Cons.prems] by (cases "lookupKey e") auto
  qed
qed simp

lemma gc_loop_no_panic:
  "\<forall>e \<in> set es. \<exists>key. lookupKey e = Inr key \<Longrightarrow> fst (gc_loop env m lookupKey enc kc gcStart es k) = None"
  by (induction es arbitrary: k) (auto split: prod.splits bool.splits)

section \<open>A quiet kernel\<close>

text \<open>The kernel when neither the datapath nor netlink changes anything during the calls and every call
  succeeds: \<open>mapID\<close> is the pinned map, \<open>keys k\<close> its keys in the order the kernel iterates them,
  \<open>table k\<close> the kernel's flows.\<close>

definition ct_quiet ::
  "('q, 'k) ct_env \<Rightarrow> BpfMap \<Rightarrow> nat \<Rightarrow> ('k \<Rightarrow> 'q \<rightharpoonup> ConntrackVal) \<Rightarrow> ('k \<Rightarrow> 'q list) \<Rightarrow> ('k \<Rightarrow> conntrack_flow list) \<Rightarrow> bool" where
  "ct_quiet env m mapID tbl keys table \<longleftrightarrow>
     (\<forall>k. distinct (keys k) \<and> set (keys k) = dom (tbl k)) \<and>
     (\<forall>k. \<exists>k'. GetMapFromPinPath env CONNTRACK_MAP_PIN_PATH k = (Inr mapID, k') \<and> (tbl k', keys k', table k') = (tbl k, keys k, table k)) \<and>
     (\<forall>k. \<exists>k'. GetFirstMapEntryByID env mapID k = (case keys k of [] \<Rightarrow> Inl ENOENT | q # _ \<Rightarrow> Inr q, k') \<and>
        (tbl k', keys k', table k') = (tbl k, keys k, table k)) \<and>
     (\<forall>k q. \<exists>k'. GetMapEntryByID env mapID q k = (case tbl k q of None \<Rightarrow> Inl ENOENT | Some v \<Rightarrow> Inr v, k') \<and>
        (tbl k', keys k', table k') = (tbl k, keys k, table k)) \<and>
     (\<forall>k i. i < length (keys k) \<longrightarrow> (\<exists>k'. GetNextMapEntryByID env mapID (keys k ! i) k =
          (if Suc i < length (keys k) then Inr (keys k ! Suc i) else Inl ENOENT, k') \<and>
        (tbl k', keys k', table k') = (tbl k, keys k, table k))) \<and>
     (\<forall>k. \<exists>t k'. KtimeGetNs env k = (Inr t, k') \<and> (tbl k', keys k', table k') = (tbl k, keys k, table k)) \<and>
     (\<forall>k af. \<exists>k'. ConntrackTableList env af k = (Inr (table k), k') \<and> (tbl k', keys k', table k') = (tbl k, keys k, table k)) \<and>
     (\<forall>k q. \<exists>e k'. ReadMapEntry env m q k = (case tbl k q of None \<Rightarrow> Inl e | Some v \<Rightarrow> Inr v, k') \<and> tbl k' = tbl k) \<and>
     (\<forall>k q. \<exists>k'. RemoveMapEntry env m q k = (None, k') \<and> tbl k' = (tbl k)(q := None))"

lemma ct_quietD:
  assumes "ct_quiet env m mapID tbl keys table"
  shows "distinct (keys k)" and "set (keys k) = dom (tbl k)"
    and "\<exists>k'. GetMapFromPinPath env CONNTRACK_MAP_PIN_PATH k = (Inr mapID, k') \<and> (tbl k', keys k', table k') = (tbl k, keys k, table k)"
    and "\<exists>k'. GetFirstMapEntryByID env mapID k = (case keys k of [] \<Rightarrow> Inl ENOENT | q # _ \<Rightarrow> Inr q, k') \<and>
        (tbl k', keys k', table k') = (tbl k, keys k, table k)"
    and "\<exists>k'. GetMapEntryByID env mapID q k = (case tbl k q of None \<Rightarrow> Inl ENOENT | Some v \<Rightarrow> Inr v, k') \<and>
        (tbl k', keys k', table k') = (tbl k, keys k, table k)"
    and "i < length (keys k) \<Longrightarrow> \<exists>k'. GetNextMapEntryByID env mapID (keys k ! i) k =
          (if Suc i < length (keys k) then Inr (keys k ! Suc i) else Inl ENOENT, k') \<and>
        (tbl k', keys k', table k') = (tbl k, keys k, table k)"
    and "\<exists>t k'. KtimeGetNs env k = (Inr t, k') \<and> (tbl k', keys k', table k') = (tbl k, keys k, table k)"
    and "\<exists>k'. ConntrackTableList env af k = (Inr (table k), k') \<and> (tbl k', keys k', table k') = (tbl k, keys k, table k)"
    and "\<exists>e k'. ReadMapEntry env m q k = (case tbl k q of None \<Rightarrow> Inl e | Some v \<Rightarrow> Inr v, k') \<and> tbl k' = tbl k"
    and "\<exists>k'. RemoveMapEntry env m q k = (None, k') \<and> tbl k' = (tbl k)(q := None)"
  using assms unfolding ct_quiet_def by blast+

lemma hydrate_loop_quiet:
  assumes q: "ct_quiet env m mapID tbl keys table" and i: "i < length (keys k)"
  shows "\<exists>c' k'. hydrate_loop env newKey mapID (keys k ! i) (Some c) k = Some (Hydrated, Some c', k') \<and>
    fst ` set c' = fst ` set c \<union> newKey ` set (drop i (keys k)) \<and> (tbl k', keys k', table k') = (tbl k, keys k, table k)"
  using i
proof (induction "length (keys k) - i" arbitrary: i c k rule: less_induct)
  case less
  have "keys k ! i \<in> dom (tbl k)" using ct_quietD(2) [OF q, of k] nth_mem [OF less.prems] by simp
  then obtain v k1 where v: "GetMapEntryByID env mapID (keys k ! i) k = (Inr v, k1)"
      "tbl k1 = tbl k" "keys k1 = keys k" "table k1 = table k"
    using ct_quietD(5) [OF q, of "keys k ! i" k] by auto
  obtain k2 where n: "GetNextMapEntryByID env mapID (keys k ! i) k1 =
        (if Suc i < length (keys k) then Inr (keys k ! Suc i) else Inl ENOENT, k2)"
      "tbl k2 = tbl k" "keys k2 = keys k" "table k2 = table k"
    using ct_quietD(6) [OF q, of i k1] less.prems v by auto
  let ?c = "AList.update (newKey (keys k ! i)) True c"
  have dr: "drop i (keys k) = keys k ! i # drop (Suc i) (keys k)" using less.prems by (simp add: Cons_nth_drop_Suc)
  have im: "fst ` set ?c = insert (newKey (keys k ! i)) (fst ` set c)"
    using dom_map_of_conv_image_fst [of ?c] dom_map_of_conv_image_fst [of c] by auto
  show ?case
  proof (cases "Suc i < length (keys k)")
    case True
    then have "\<exists>c' k'. hydrate_loop env newKey mapID (keys k2 ! Suc i) (Some ?c) k2 = Some (Hydrated, Some c', k') \<and>
        fst ` set c' = fst ` set ?c \<union> newKey ` set (drop (Suc i) (keys k2)) \<and>
        (tbl k', keys k', table k') = (tbl k2, keys k2, table k2)"
      using less.hyps [of k2 "Suc i" ?c] n less.prems by auto
    with True v n dr im show ?thesis
      by (subst hydrate_loop.simps) (auto simp: Let_def)
  next
    case False
    then have "drop (Suc i) (keys k) = []" by simp
    with False v n dr im show ?thesis by (subst hydrate_loop.simps) (auto simp: Let_def)
  qed
qed

definition unaccounted :: "('c \<Rightarrow> go_panic + 'c) \<Rightarrow> ('c \<Rightarrow> 'q) \<Rightarrow> ('c, bool) go_map \<Rightarrow> 'c list \<Rightarrow> 'q set" where
  "unaccounted lookupKey enc kc es = enc ` {e \<in> set es. \<exists>key. lookupKey e = Inr key \<and> map_of kc key = None}"

definition seen_before :: "u64 \<Rightarrow> ConntrackVal option \<Rightarrow> bool" where
  "seen_before t cv \<longleftrightarrow> (\<exists>v. cv = Some v \<and> cv_LastSeen v < t)"

lemma seen_before_None [simp]: "\<not> seen_before t None"
  by (simp add: seen_before_def)

lemma unaccounted_simps:
  "unaccounted lookupKey enc kc [] = {}"
  "lookupKey e = Inr key \<Longrightarrow> unaccounted lookupKey enc kc (e # es) =
     (if map_of kc key = None then insert (enc e) (unaccounted lookupKey enc kc es) else unaccounted lookupKey enc kc es)"
  by (auto simp: unaccounted_def)

lemma gc_loop_quiet:
  assumes q: "ct_quiet env m mapID tbl keys table"
    and total: "\<forall>e \<in> set es. \<exists>key. lookupKey e = Inr key"
  shows "\<exists>k'. gc_loop env m lookupKey enc kc gcStart es k = (None, k') \<and>
    tbl k' = (\<lambda>x. if x \<in> unaccounted lookupKey enc kc es \<and> seen_before gcStart (tbl k x) then None else tbl k x)"
  using total
proof (induction es arbitrary: k)
  case (Cons e es)
  obtain key where key: "lookupKey e = Inr key" using Cons.prems by auto
  obtain er k1 where r: "ReadMapEntry env m (enc e) k = (case tbl k (enc e) of None \<Rightarrow> Inl er | Some v \<Rightarrow> Inr v, k1)"
      "tbl k1 = tbl k" using ct_quietD(9) [OF q] by metis
  obtain k2 where d: "RemoveMapEntry env m (enc e) k1 = (None, k2)" "tbl k2 = (tbl k)(enc e := None)"
    using ct_quietD(10) [OF q, of "enc e" k1] r(2) by auto
  let ?k = "if map_of kc key \<noteq> None then k else if seen_before gcStart (tbl k (enc e)) then k2 else k1"
  have step: "gc_loop env m lookupKey enc kc gcStart (e # es) k = gc_loop env m lookupKey enc kc gcStart es ?k"
    using key r d
    by (auto simp: isEntryActive_def entryActiveFromRead_def seen_before_def not_le split: option.splits bool.splits)
  have tb: "tbl ?k = (if map_of kc key = None \<and> seen_before gcStart (tbl k (enc e)) then (tbl k)(enc e := None) else tbl k)"
    using r(2) d(2) by simp
  have "\<forall>e \<in> set es. \<exists>key. lookupKey e = Inr key" using Cons.prems by simp
  from Cons.IH [OF this, of ?k] obtain k' where k': "gc_loop env m lookupKey enc kc gcStart es ?k = (None, k')"
    "tbl k' = (\<lambda>x. if x \<in> unaccounted lookupKey enc kc es \<and> seen_before gcStart (tbl ?k x) then None else tbl ?k x)"
    by (elim exE conjE)
  have "tbl k' x = (if x \<in> unaccounted lookupKey enc kc (e # es) \<and> seen_before gcStart (tbl k x) then None else tbl k x)" for x
    unfolding k'(2) tb unaccounted_simps(2) [of lookupKey e key, OF key] by (cases "map_of kc key"; cases "x = enc e") auto
  with step k'(1) show ?case by auto
qed (simp add: unaccounted_simps)

section \<open>A cycle of either family\<close>

context gc_family
begin

lemma collect_deletes:
  assumes laws: "ct_laws env m tbl clk gone" and fl: "\<forall>f \<in> set flows. fl_wf f" and es: "\<forall>e \<in> set es. key_wf e"
    and kc: "fold_panic addFlow flows [] = Inr kc" and t: "t \<le> clk k"
  shows "\<exists>new. gone (snd (gc_loop env m lookupKey enc kc t es k)) = new @ gone k \<and>
    (\<forall>q \<in> set new. (\<exists>e \<in> set es. q = enc e \<and> (\<forall>f \<in> set flows. \<not> live f e)) \<and>
       (\<exists>v. tbl k q = Some v \<and> cv_LastSeen v < t))"
proof -
  have "\<forall>f \<in> set flows. \<not> live f e" if "e \<in> set es" "lookupKey e = Inr key" "map_of kc key = None" for e key
    using flows_cached [OF fl _ that(2), of "[]"] kc es that(1, 3) by auto
  with gc_loop_deletes [OF laws old_kept_refl [of t clk k tbl, OF t], of lookupKey enc kc es] show ?thesis by meson
qed

lemma collect_quiet:
  assumes q: "ct_quiet env m mapID tbl keys table" and fl: "\<forall>f \<in> set flows. fl_wf f" and es: "\<forall>e \<in> set es. key_wf e"
  shows "\<exists>kc k'. fold_panic addFlow flows [] = Inr kc \<and> gc_loop env m lookupKey enc kc t es k = (None, k') \<and>
    tbl k' = (\<lambda>x. if x \<in> enc ` {e \<in> set es. \<forall>f \<in> set flows. \<not> live f e} \<and> seen_before t (tbl k x)
                  then None else tbl k x)"
proof -
  obtain kc where kc: "fold_panic addFlow flows [] = Inr kc" using flows_total [OF fl] by blast
  have tot: "\<forall>e \<in> set es. \<exists>key. lookupKey e = Inr key" using es lookupKey_total by blast
  have un: "map_of kc key = None \<longleftrightarrow> (\<forall>f \<in> set flows. \<not> live f e)" if "e \<in> set es" "lookupKey e = Inr key" for e key
    using flows_cached [OF fl _ that(2), of "[]"] kc es that(1) by auto
  have "unaccounted lookupKey enc kc es = enc ` {e \<in> set es. \<forall>f \<in> set flows. \<not> live f e}"
    unfolding unaccounted_def using un tot by (intro arg_cong [where f = "(`) enc"]) auto
  with gc_loop_quiet [OF q tot, of enc kc t k] kc show ?thesis by auto
qed

end

text \<open>C13: A collecting cycle of the IPv4 map, with the datapath running all the while, inserting, using
  and deleting entries, and the kernel evicting some: the cycle ends without a panic and switches back to
  caching, and every entry it deletes was in the local cache, is one that no flow of the kernel's table
  accounts for, and was in the map when that table had been read with a last use before the cycle began.\<close>
theorem conntrack_gc_safe:
  assumes laws: "ct_laws env (conntrackMap c) tbl clk gone" and ord: "range_order ord"
    and flag: "\<not> hydratelocalConntrack c" and cache: "localConntrackV4Cache c = Some cache"
    and pin: "GetMapFromPinPath env CONNTRACK_MAP_PIN_PATH k = (Inr mapID, k1)"
    and clock: "KtimeGetNs env k1 = (Inr gcStart, k2)"
    and table: "ConntrackTableList env AF_INET k2 = (Inr flows, k3)" and fl: "\<forall>f \<in> set flows. flow_wf 4 f"
    and run: "CleanupConntrackMap env ord c k = Some (r, c', k')"
  shows "r = None \<and> hydratelocalConntrack c' \<and>
    (\<exists>new. gone k' = new @ gone k \<and>
       (\<forall>e \<in> set new. e \<in> fst ` set cache \<and> (\<forall>f \<in> set flows. \<not> liveV4 f e) \<and>
          (\<exists>v. tbl k3 e = Some v \<and> cv_LastSeen v < gcStart)))"
proof -
  obtain kc where kc: "fold_panic addFlowV4 flows [] = Inr kc" using v4.flows_total [OF fl] by blast
  let ?gc = "gc_loop env (conntrackMap c) lookupKeyV4 (\<lambda>e. e) kc gcStart (ord (map fst cache)) k3"
  have nopanic: "fst ?gc = None" by (rule gc_loop_no_panic) (simp add: v4.lookupKey_total)
  have t: "gcStart \<le> clk k3" and g: "gone k3 = gone k"
    using ct_lawsD(1) [OF laws clock] ct_lawsD(2) [OF laws table] ct_lawsD(5) [OF laws pin] by (auto simp: datapath_runs_def)
  have k': "k' = snd ?gc" and "r = None" "hydratelocalConntrack c'"
    using run nopanic
    by (auto simp: CleanupConntrackMap_def pin flag clock table kc cache Let_def split: prod.splits option.splits)
  with v4.collect_deletes [OF laws fl _ kc t, of "ord (map fst cache)"] show ?thesis
    by (simp add: range_order_set [OF ord] g)
qed

lemma hydrate_quiet:
  assumes q: "ct_quiet env m mapID tbl keys table" and ne: "tbl k \<noteq> Map.empty"
  shows "\<exists>k1 iterKey k2 c k3. GetMapFromPinPath env CONNTRACK_MAP_PIN_PATH k = (Inr mapID, k1) \<and>
    GetFirstMapEntryByID env mapID k1 = (Inr iterKey, k2) \<and>
    hydrate_loop env newKey mapID iterKey (Some []) k2 = Some (Hydrated, Some c, k3) \<and>
    fst ` set c = newKey ` dom (tbl k) \<and> (tbl k3, keys k3, table k3) = (tbl k, keys k, table k)"
proof -
  obtain k1 where k1: "GetMapFromPinPath env CONNTRACK_MAP_PIN_PATH k = (Inr mapID, k1)"
      "(tbl k1, keys k1, table k1) = (tbl k, keys k, table k)" using ct_quietD(3) [OF q] by blast
  have "set (keys k) \<noteq> {}" using ne ct_quietD(2) [OF q, of k] by auto
  then have len: "0 < length (keys k1)" using k1(2) by auto
  then obtain k2 where k2: "GetFirstMapEntryByID env mapID k1 = (Inr (keys k1 ! 0), k2)"
      "(tbl k2, keys k2, table k2) = (tbl k1, keys k1, table k1)"
    using ct_quietD(4) [OF q, of k1] by (auto split: list.splits)
  obtain c k3 where k3: "hydrate_loop env newKey mapID (keys k2 ! 0) (Some []) k2 = Some (Hydrated, Some c, k3)"
      "fst ` set c = newKey ` set (keys k2)"
      "(tbl k3, keys k3, table k3) = (tbl k2, keys k2, table k2)"
    using hydrate_loop_quiet [OF q, of 0 k2 newKey "[]"] len k2(2) by auto
  have "fst ` set c = newKey ` dom (tbl k)" and "(tbl k3, keys k3, table k3) = (tbl k, keys k, table k)"
      and "hydrate_loop env newKey mapID (keys k1 ! 0) (Some []) k2 = Some (Hydrated, Some c, k3)"
    using k1(2) k2(2) k3 ct_quietD(2) [OF q, of k] by auto
  with k1(1) k2(1) show ?thesis by blast
qed

lemma collect_calls_quiet:
  assumes q: "ct_quiet env m mapID tbl keys table"
  shows "\<exists>k1 gcStart k2 k3. GetMapFromPinPath env CONNTRACK_MAP_PIN_PATH k = (Inr mapID, k1) \<and>
    KtimeGetNs env k1 = (Inr gcStart, k2) \<and> ConntrackTableList env af k2 = (Inr (table k), k3) \<and>
    tbl k3 = tbl k"
proof -
  obtain k1 where k1: "GetMapFromPinPath env CONNTRACK_MAP_PIN_PATH k = (Inr mapID, k1)"
      "(tbl k1, keys k1, table k1) = (tbl k, keys k, table k)" using ct_quietD(3) [OF q] by blast
  obtain t k2 where k2: "KtimeGetNs env k1 = (Inr t, k2)" "(tbl k2, keys k2, table k2) = (tbl k1, keys k1, table k1)"
    using ct_quietD(7) [OF q] by blast
  obtain k3 where k3: "ConntrackTableList env af k2 = (Inr (table k2), k3)"
      "(tbl k3, keys k3, table k3) = (tbl k2, keys k2, table k2)" using ct_quietD(8) [OF q] by blast
  show ?thesis using k1 k2 k3 by auto
qed

text \<open>C14: When the kernel is quiet, two calls from the start of a round end, and together they remove from
  the IPv4 map exactly the entries that no flow of the kernel accounts for and that the datapath last used
  before the second call; then the next round starts.\<close>
theorem conntrack_gc_exact:
  assumes q: "ct_quiet env (conntrackMap c) mapID tbl keys table" and ord: "range_order ord"
    and flag: "hydratelocalConntrack c" and fam: "\<not> enableIPv6 c" and ne: "tbl k \<noteq> Map.empty"
    and fl: "\<forall>f \<in> set (table k). flow_wf 4 f" and pad: "\<forall>e \<in> dom (tbl k). newKeyV4 e = e"
  shows "\<exists>c1 k1 c2 k2 gcStart kt kt'. CleanupConntrackMap env ord c k = Some (None, c1, k1) \<and> tbl k1 = tbl k \<and>
    CleanupConntrackMap env ord c1 k1 = Some (None, c2, k2) \<and> hydratelocalConntrack c2 \<and>
    GetMapFromPinPath env CONNTRACK_MAP_PIN_PATH k1 = (Inr mapID, kt) \<and> KtimeGetNs env kt = (Inr gcStart, kt') \<and>
    tbl k2 = (\<lambda>e. if (\<forall>f \<in> set (table k). \<not> liveV4 f e) \<and> seen_before gcStart (tbl k e) then None else tbl k e)"
proof -
  obtain h1 iterKey h2 cc k1 where h: "GetMapFromPinPath env CONNTRACK_MAP_PIN_PATH k = (Inr mapID, h1)"
      "GetFirstMapEntryByID env mapID h1 = (Inr iterKey, h2)"
      "hydrate_loop env newKeyV4 mapID iterKey (Some []) h2 = Some (Hydrated, Some cc, k1)"
      "fst ` set cc = newKeyV4 ` dom (tbl k)" "(tbl k1, keys k1, table k1) = (tbl k, keys k, table k)"
    using hydrate_quiet [OF q ne] by metis
  define c1 where "c1 = c\<lparr>localConntrackV4Cache := Some cc, hydratelocalConntrack := False\<rparr>"
  have r1: "CleanupConntrackMap env ord c k = Some (None, c1, k1)"
    using h flag fam by (simp add: CleanupConntrackMap_def InitializeLocalCache_def c1_def)
  have cc: "fst ` set cc = dom (tbl k)" using h(4) pad by (simp add: image_def)
  obtain g1 t g2 g3 where g: "GetMapFromPinPath env CONNTRACK_MAP_PIN_PATH k1 = (Inr mapID, g1)"
      "KtimeGetNs env g1 = (Inr t, g2)" "ConntrackTableList env AF_INET g2 = (Inr (table k1), g3)" "tbl g3 = tbl k1"
    using collect_calls_quiet [OF q] by metis
  obtain kc k2 where k2: "fold_panic addFlowV4 (table k) [] = Inr kc"
      "gc_loop env (conntrackMap c) lookupKeyV4 (\<lambda>e. e) kc t (ord (map fst cc)) g3 = (None, k2)"
      "tbl k2 = (\<lambda>x. if x \<in> (\<lambda>e. e) ` {e \<in> set (ord (map fst cc)). \<forall>f \<in> set (table k). \<not> liveV4 f e} \<and>
          seen_before t (tbl g3 x) then None else tbl g3 x)"
    using v4.collect_quiet [OF q fl, of "ord (map fst cc)" t g3] by auto
  have r2: "CleanupConntrackMap env ord c1 k1 = Some (None, c1\<lparr>hydratelocalConntrack := True\<rparr>, k2)"
    using g h(5) k2(1, 2) by (simp add: CleanupConntrackMap_def c1_def)
  have "tbl k2 = (\<lambda>e. if (\<forall>f \<in> set (table k). \<not> liveV4 f e) \<and> seen_before t (tbl k e) then None else tbl k e)"
    using g(4) h(5) cc unfolding k2(3) by (auto simp: range_order_set [OF ord] seen_before_def fun_eq_iff)
  with r1 r2 g(1, 2) h(5) show ?thesis by fastforce
qed

text \<open>The same for the IPv6 map, whose keys are the bytes of the key struct with its padding cleared.\<close>
theorem conntrack_gc_exact_v6:
  assumes q: "ct_quiet env (conntrackMap c) mapID tbl keys table" and ord: "range_order ord"
    and flag: "hydratelocalConntrack c" and fam: "enableIPv6 c" and ne: "tbl k \<noteq> Map.empty"
    and fl: "\<forall>f \<in> set (table k). flow_wf 16 f"
    and pad: "\<forall>b \<in> dom (tbl k). ConvConntrackV6ToByte (newKeyV6 b) = b"
  shows "\<exists>c1 k1 c2 k2 gcStart kt kt'. Cleanupv6ConntrackMap env ord c k = Some (None, c1, k1) \<and> tbl k1 = tbl k \<and>
    Cleanupv6ConntrackMap env ord c1 k1 = Some (None, c2, k2) \<and> hydratelocalConntrack c2 \<and>
    GetMapFromPinPath env CONNTRACK_MAP_PIN_PATH k1 = (Inr mapID, kt) \<and> KtimeGetNs env kt = (Inr gcStart, kt') \<and>
    tbl k2 = (\<lambda>b. if (\<forall>f \<in> set (table k). \<not> liveV6 f (newKeyV6 b)) \<and> seen_before gcStart (tbl k b)
                  then None else tbl k b)"
proof -
  obtain h1 iterKey h2 cc k1 where h: "GetMapFromPinPath env CONNTRACK_MAP_PIN_PATH k = (Inr mapID, h1)"
      "GetFirstMapEntryByID env mapID h1 = (Inr iterKey, h2)"
      "hydrate_loop env newKeyV6 mapID iterKey (Some []) h2 = Some (Hydrated, Some cc, k1)"
      "fst ` set cc = newKeyV6 ` dom (tbl k)" "(tbl k1, keys k1, table k1) = (tbl k, keys k, table k)"
    using hydrate_quiet [OF q ne] by metis
  define c1 where "c1 = c\<lparr>localConntrackV6Cache := Some cc, hydratelocalConntrack := False\<rparr>"
  have r1: "Cleanupv6ConntrackMap env ord c k = Some (None, c1, k1)"
    using h flag fam by (simp add: Cleanupv6ConntrackMap_def InitializeLocalCache_def c1_def)
  obtain g1 t g2 g3 where g: "GetMapFromPinPath env CONNTRACK_MAP_PIN_PATH k1 = (Inr mapID, g1)"
      "KtimeGetNs env g1 = (Inr t, g2)" "ConntrackTableList env AF_INET6 g2 = (Inr (table k1), g3)" "tbl g3 = tbl k1"
    using collect_calls_quiet [OF q] by metis
  have es: "set (ord (map fst cc)) = newKeyV6 ` dom (tbl k)" using h(4) by (simp add: range_order_set [OF ord])
  then have "\<forall>e \<in> set (ord (map fst cc)). ck6_wf e \<and> ck6_pad1 e = 0 \<and> ck6_pad2 e = 0" using v6.newKey_wf by auto
  from v6.collect_quiet [OF q fl this, of t g3]
  obtain kc k2 where k2: "fold_panic addFlowV6 (table k) [] = Inr kc"
      "gc_loop env (conntrackMap c) lookupKeyV6 ConvConntrackV6ToByte kc t (ord (map fst cc)) g3 = (None, k2)"
      "tbl k2 = (\<lambda>x. if x \<in> ConvConntrackV6ToByte ` {e \<in> set (ord (map fst cc)). \<forall>f \<in> set (table k). \<not> liveV6 f e} \<and>
          seen_before t (tbl g3 x) then None else tbl g3 x)"
    by auto
  have r2: "Cleanupv6ConntrackMap env ord c1 k1 =
      Some (None, c1\<lparr>localConntrackV6Cache := Some [], hydratelocalConntrack := True\<rparr>, k2)"
    using g h(5) k2(1, 2) by (simp add: Cleanupv6ConntrackMap_def c1_def)
  have "x \<in> ConvConntrackV6ToByte ` {e \<in> newKeyV6 ` dom (tbl k). \<forall>f \<in> set (table k). \<not> liveV6 f e} \<longleftrightarrow>
      (\<forall>f \<in> set (table k). \<not> liveV6 f (newKeyV6 x))" if "x \<in> dom (tbl k)" for x
    using pad that by (force simp: image_def)
  then have "tbl k2 = (\<lambda>b. if (\<forall>f \<in> set (table k). \<not> liveV6 f (newKeyV6 b)) \<and> seen_before t (tbl k b)
                  then None else tbl k b)"
    using g(4) h(5) unfolding k2(3) es by (auto simp: seen_before_def fun_eq_iff domI)
  with r1 r2 g(1, 2) h(5) show ?thesis by fastforce
qed

section \<open>A simulated kernel\<close>

record 'q ct_kernel =
  sim_map :: "('q \<times> ConntrackVal) list"
  sim_flows :: "conntrack_flow list"
  sim_now :: u64
  sim_gone :: "'q list"

definition sim_keys :: "'q ct_kernel \<Rightarrow> 'q list" where
  "sim_keys k = remdups (map fst (sim_map k))"

definition sim_ct_env :: "('q, 'q ct_kernel) ct_env" where
  "sim_ct_env =
     \<lparr>GetMapFromPinPath = (\<lambda>p k. (Inr 7, k)),
      GetFirstMapEntryByID = (\<lambda>i k. (case sim_keys k of [] \<Rightarrow> Inl ENOENT | q # _ \<Rightarrow> Inr q, k)),
      GetMapEntryByID = (\<lambda>i q k. (case map_of (sim_map k) q of None \<Rightarrow> Inl ENOENT | Some v \<Rightarrow> Inr v, k)),
      GetNextMapEntryByID = (\<lambda>i q k. (case dropWhile (\<lambda>x. x \<noteq> q) (sim_keys k) of _ # n # _ \<Rightarrow> Inr n | _ \<Rightarrow> Inl ENOENT, k)),
      ReadMapEntry = (\<lambda>m q k. (case map_of (sim_map k) q of None \<Rightarrow> Inl ''no such entry'' | Some v \<Rightarrow> Inr v, k)),
      RemoveMapEntry = (\<lambda>m q k. (None, k\<lparr>sim_map := AList.delete q (sim_map k), sim_gone := q # sim_gone k\<rparr>)),
      ClockGettime = (\<lambda>k. (Inr (0, uint (sim_now k)), k)),
      ConntrackTableList = (\<lambda>af k. (Inr (sim_flows k), k))\<rparr>"

lemma dropWhile_distinct_nth: "distinct xs \<Longrightarrow> i < length xs \<Longrightarrow> dropWhile (\<lambda>x. x \<noteq> xs ! i) xs = drop i xs"
proof (induction xs arbitrary: i)
  case (Cons a xs)
  then show ?case by (cases i) auto
qed simp

lemma sim_ct_quiet: "ct_quiet sim_ct_env m 7 (\<lambda>k. map_of (sim_map k)) sim_keys sim_flows"
proof -
  have nx: "(case drop i (sim_keys k) of _ # n # _ \<Rightarrow> Inr n | _ \<Rightarrow> Inl ENOENT) =
      (if Suc i < length (sim_keys k) then Inr (sim_keys k ! Suc i) else Inl ENOENT)" if "i < length (sim_keys k)"
    for i and k :: "'q ct_kernel"
  proof -
    have "drop i (sim_keys k) = sim_keys k ! i # drop (Suc i) (sim_keys k)" using that by (simp add: Cons_nth_drop_Suc)
    then show ?thesis by (cases "Suc i < length (sim_keys k)") (simp_all add: Cons_nth_drop_Suc [symmetric])
  qed
  have d: "distinct (sim_keys k)" and s: "set (sim_keys k) = dom (map_of (sim_map k))" for k :: "'q ct_kernel"
    by (simp_all add: sim_keys_def dom_map_of_conv_image_fst)
  show ?thesis
    unfolding ct_quiet_def
    by (auto simp: sim_ct_env_def d s dropWhile_distinct_nth nx KtimeGetNs_def delete_conv fun_upd_def)
qed

lemma sim_ct_laws: "ct_laws sim_ct_env m (\<lambda>k. map_of (sim_map k)) sim_now sim_gone"
proof -
  have r: "datapath_runs (\<lambda>k. map_of (sim_map k)) sim_now sim_gone k k" for k :: "'q ct_kernel"
    by (simp add: datapath_runs_def)
  let ?k = "\<lambda>q k. k\<lparr>sim_map := AList.delete q (sim_map k), sim_gone := q # sim_gone k\<rparr>"
  have d: "\<exists>k1 k2. datapath_runs (\<lambda>k. map_of (sim_map k)) sim_now sim_gone k k1 \<and> sim_now k2 = sim_now k1 \<and>
      map_of (sim_map k2) = (map_of (sim_map k1))(q := None) \<and> sim_gone k2 = q # sim_gone k1 \<and>
      datapath_runs (\<lambda>k. map_of (sim_map k)) sim_now sim_gone k2 (?k q k)"
    for k :: "'q ct_kernel" and q
    by (rule exI [of _ k], rule exI [of _ "?k q k"]) (simp add: r fun_eq_iff delete_conv)
  show ?thesis
    unfolding ct_laws_def using r d by (auto simp: sim_ct_env_def KtimeGetNs_def split: option.splits)
qed

definition example_flow :: conntrack_flow where
  "example_flow = \<lparr>Forward = \<lparr>SrcIP = [10, 0, 0, 1], SrcPort = 1000, DstIP = [172, 20, 0, 1], DstPort = 80, Protocol = 6\<rparr>,
     Reverse = \<lparr>SrcIP = [10, 0, 0, 2], SrcPort = 8080, DstIP = [10, 0, 0, 1], DstPort = 1000, Protocol = 6\<rparr>\<rparr>"

text \<open>An entry of the flow's translated destination, an entry of no flow, and one of no flow that was used
  after the clock's time.\<close>

definition example_entry :: "u16 \<Rightarrow> ConntrackKey" where
  "example_entry port = \<lparr>ck_Source_ip = 16777226, ck_Source_port = 1000, ck_pad1 = 0,
     ck_Dest_ip = 33554442, ck_Dest_port = port, ck_Protocol = 6, ck_pad2 = 0,
     ck_Owner_ip = 33554442, ck_Ifindex = 3\<rparr>"

definition example_ct_kernel :: "ConntrackKey ct_kernel" where
  "example_ct_kernel = \<lparr>sim_map = [(example_entry 8080, \<lparr>cv_Value = 1, cv_LastSeen = 5\<rparr>),
     (example_entry 81, \<lparr>cv_Value = 1, cv_LastSeen = 6\<rparr>), (example_entry 82, \<lparr>cv_Value = 1, cv_LastSeen = 101\<rparr>)],
     sim_flows = [example_flow], sim_now = 100, sim_gone = []\<rparr>"

definition example_ct_client :: conntrackClient where
  "example_ct_client = NewConntrackClient \<lparr>MapID = 7, MapFD = 9, ValueSize = 16\<rparr> False"

definition example_ct_cached :: conntrackClient where
  "example_ct_cached = example_ct_client\<lparr>hydratelocalConntrack := False,
     localConntrackV4Cache := Some [(example_entry 8080, True), (example_entry 81, True), (example_entry 82, True)]\<rparr>"

lemma example_hydrated:
  "CleanupConntrackMap sim_ct_env id example_ct_client example_ct_kernel = Some (None, example_ct_cached, example_ct_kernel)"
  by code_simp

lemma example_liveV4: "liveV4 example_flow (example_entry 8080)" "\<not> liveV4 example_flow (example_entry 81)"
  by code_simp+

lemma example_ct_map:
  "map_of (sim_map example_ct_kernel) (example_entry 8080) = Some \<lparr>cv_Value = 1, cv_LastSeen = 5\<rparr>"
  "map_of (sim_map example_ct_kernel) (example_entry 81) = Some \<lparr>cv_Value = 1, cv_LastSeen = 6\<rparr>"
  "map_of (sim_map example_ct_kernel) (example_entry 82) = Some \<lparr>cv_Value = 1, cv_LastSeen = 101\<rparr>"
  "newKeyV4 (example_entry p) = example_entry p" "sim_flows example_ct_kernel = [example_flow]" "flow_wf 4 example_flow"
  by (simp_all add: example_ct_kernel_def example_entry_def newKeyV4_def example_flow_def flow_wf_def)

lemma sim_ct_calls:
  "GetMapFromPinPath sim_ct_env p k = (Inr 7, k)" "KtimeGetNs sim_ct_env k = (Inr (sim_now k), k)"
  "ConntrackTableList sim_ct_env af k = (Inr (sim_flows k), k)"
  by (simp_all add: sim_ct_env_def KtimeGetNs_def)

theorem conntrack_gc_safe_witness:
  "\<exists>r c' k'. CleanupConntrackMap sim_ct_env id example_ct_cached example_ct_kernel = Some (r, c', k') \<and>
     sim_gone k' = [example_entry 81] \<and> example_entry 8080 \<notin> set (sim_gone k') \<and> example_entry 82 \<notin> set (sim_gone k') \<and>
     (\<exists>v. map_of (sim_map example_ct_kernel) (example_entry 81) = Some v \<and> cv_LastSeen v < 100)"
proof -
  have f: "\<not> hydratelocalConntrack example_ct_cached"
      "localConntrackV4Cache example_ct_cached = Some [(example_entry 8080, True), (example_entry 81, True), (example_entry 82, True)]"
    by (simp_all add: example_ct_cached_def)
  have g: "map_option (\<lambda>(_, _, k). sim_gone k) (CleanupConntrackMap sim_ct_env id example_ct_cached example_ct_kernel) = Some [example_entry 81]"
    by code_simp
  then obtain r c' k' where run: "CleanupConntrackMap sim_ct_env id example_ct_cached example_ct_kernel = Some (r, c', k')"
    by auto
  have n: "sim_now example_ct_kernel = 100" "sim_gone example_ct_kernel = []" by (simp_all add: example_ct_kernel_def)
  have wf: "\<forall>f \<in> set (sim_flows example_ct_kernel). flow_wf 4 f" by (simp add: example_ct_map)
  note safe = conntrack_gc_safe [OF sim_ct_laws range_order_id(1) f sim_ct_calls wf run]
  have l: "example_flow \<in> set (sim_flows example_ct_kernel)" by (simp add: example_ct_map)
  from safe have "example_entry 8080 \<notin> set (sim_gone k')" using example_liveV4(1) l by (auto simp: n)
  moreover from safe have old: "\<forall>e \<in> set (sim_gone k'). \<exists>v. map_of (sim_map example_ct_kernel) e = Some v \<and> cv_LastSeen v < 100"
    by (auto simp: n)
  have "example_entry 82 \<notin> set (sim_gone k')" using bspec [OF old, of "example_entry 82"] by (auto simp: example_ct_map(3))
  moreover have k': "sim_gone k' = [example_entry 81]" using g run by simp
  moreover from safe k' have "\<exists>v. map_of (sim_map example_ct_kernel) (example_entry 81) = Some v \<and> cv_LastSeen v < 100"
    by (auto simp: n)
  ultimately show ?thesis using run by blast
qed

theorem conntrack_gc_exact_witness:
  "\<exists>c1 k1 c2 k2. CleanupConntrackMap sim_ct_env id example_ct_client example_ct_kernel = Some (None, c1, k1) \<and>
     CleanupConntrackMap sim_ct_env id c1 k1 = Some (None, c2, k2) \<and>
     map_of (sim_map k2) (example_entry 8080) \<noteq> None \<and> map_of (sim_map k2) (example_entry 81) = None \<and>
     map_of (sim_map k2) (example_entry 82) \<noteq> None"
proof -
  have f: "hydratelocalConntrack example_ct_client" "\<not> enableIPv6 example_ct_client"
    by (simp_all add: example_ct_client_def NewConntrackClient_def)
  have d: "dom (map_of (sim_map example_ct_kernel)) = {example_entry 8080, example_entry 81, example_entry 82}"
    by (auto simp: example_ct_kernel_def)
  have wf: "\<forall>f \<in> set (sim_flows example_ct_kernel). flow_wf 4 f" by (simp add: example_ct_map)
  have ne: "map_of (sim_map example_ct_kernel) \<noteq> Map.empty" using d by auto
  have pad: "\<forall>e \<in> dom (map_of (sim_map example_ct_kernel)). newKeyV4 e = e" by (simp add: d example_ct_map(4))
  have n: "sim_now example_ct_kernel = 100" by (simp add: example_ct_kernel_def)
  from conntrack_gc_exact [OF sim_ct_quiet range_order_id(1) f ne wf pad]
  obtain c1 k1 c2 k2 t kt kt' where r:
      "CleanupConntrackMap sim_ct_env id example_ct_client example_ct_kernel = Some (None, c1, k1)"
      "CleanupConntrackMap sim_ct_env id c1 k1 = Some (None, c2, k2)"
      "GetMapFromPinPath sim_ct_env CONNTRACK_MAP_PIN_PATH k1 = (Inr 7, kt)" "KtimeGetNs sim_ct_env kt = (Inr t, kt')"
      "map_of (sim_map k2) = (\<lambda>e. if (\<forall>f \<in> set (sim_flows example_ct_kernel). \<not> liveV4 f e) \<and>
          seen_before t (map_of (sim_map example_ct_kernel) e) then None else map_of (sim_map example_ct_kernel) e)"
    by blast
  have "t = 100" using r(1, 3, 4) by (simp add: example_hydrated sim_ct_calls n)
  then show ?thesis
    using r(1, 2) r(5) [THEN fun_cong, of "example_entry 8080"] r(5) [THEN fun_cong, of "example_entry 81"]
      r(5) [THEN fun_cong, of "example_entry 82"] example_liveV4
    by (simp add: example_ct_map seen_before_def)
qed

definition example_ct_kernel6 :: "byte list ct_kernel" where
  "example_ct_kernel6 = \<lparr>sim_map = [(replicate 60 0, \<lparr>cv_Value = 1, cv_LastSeen = 5\<rparr>)], sim_flows = [], sim_now = 100, sim_gone = []\<rparr>"

definition example_ct_client6 :: conntrackClient where
  "example_ct_client6 = NewConntrackClient \<lparr>MapID = 7, MapFD = 9, ValueSize = 16\<rparr> True"

theorem conntrack_gc_exact_v6_witness:
  "\<exists>c1 k1 c2 k2. Cleanupv6ConntrackMap sim_ct_env id example_ct_client6 example_ct_kernel6 = Some (None, c1, k1) \<and>
     Cleanupv6ConntrackMap sim_ct_env id c1 k1 = Some (None, c2, k2) \<and> map_of (sim_map k2) (replicate 60 0) = None"
proof -
  have f: "hydratelocalConntrack example_ct_client6" "enableIPv6 example_ct_client6"
    by (simp_all add: example_ct_client6_def NewConntrackClient_def)
  have m: "map_of (sim_map example_ct_kernel6) = [replicate 60 0 \<mapsto> \<lparr>cv_Value = 1, cv_LastSeen = 5\<rparr>]"
      "sim_flows example_ct_kernel6 = []" "sim_now example_ct_kernel6 = 100"
    by (simp_all add: example_ct_kernel6_def)
  have ne: "map_of (sim_map example_ct_kernel6) \<noteq> Map.empty" by (simp add: m)
  have wf: "\<forall>f \<in> set (sim_flows example_ct_kernel6). flow_wf 16 f" by (simp add: m)
  have "ConvConntrackV6ToByte (newKeyV6 (replicate 60 0)) = replicate 60 0" by code_simp
  then have pad: "\<forall>b \<in> dom (map_of (sim_map example_ct_kernel6)). ConvConntrackV6ToByte (newKeyV6 b) = b" by (simp add: m)
  from conntrack_gc_exact_v6 [OF sim_ct_quiet range_order_id(1) f ne wf pad]
  obtain c1 k1 c2 k2 t kt kt' where r:
      "Cleanupv6ConntrackMap sim_ct_env id example_ct_client6 example_ct_kernel6 = Some (None, c1, k1)"
      "Cleanupv6ConntrackMap sim_ct_env id c1 k1 = Some (None, c2, k2)"
      "GetMapFromPinPath sim_ct_env CONNTRACK_MAP_PIN_PATH k1 = (Inr 7, kt)" "KtimeGetNs sim_ct_env kt = (Inr t, kt')"
      "map_of (sim_map k2) = (\<lambda>b. if (\<forall>f \<in> set (sim_flows example_ct_kernel6). \<not> liveV6 f (newKeyV6 b)) \<and>
          seen_before t (map_of (sim_map example_ct_kernel6) b) then None else map_of (sim_map example_ct_kernel6) b)"
    by blast
  have "map_option (\<lambda>(_, _, k). sim_now k) (Cleanupv6ConntrackMap sim_ct_env id example_ct_client6 example_ct_kernel6) = Some 100"
    by code_simp
  with r(1, 3, 4) have "t = 100" by (auto simp: sim_ct_calls)
  then show ?thesis using r(1, 2) r(5) [THEN fun_cong, of "replicate 60 0"] by (simp add: m seen_before_def)
qed

end
