(* ===== verification/CliHelper.thy ===== *)
theory CliHelper
  imports MapTypes Conntrack "HOL-Library.Sublist"
begin

text \<open>
  \<^verbatim>\<open>pkg/clihelper/show.go\<close> and \<^verbatim>\<open>cmd/cli\<close>, \<^verbatim>\<open>cmd/cliv6\<close>: the command line tool that prints the
  loaded programs and maps and the contents of a map. The output is the list of the lines printed; the
  SDK and the clock are the parameter \<open>cli_env\<close> over a kernel state \<open>'k\<close>.

  The kernel writes keys and values into Go structs through unsafe pointers. Such a buffer is a byte list
  of the struct's size here, laid out as on a little-endian host; the kernel writes as many bytes as the
  map's declared key or value has, and a write that is longer than the struct is the result
  \<open>MemoryOverrun\<close>, after which nothing is known of the process. A walk over a map that others change may
  not end, so the walks are partial functions.
\<close>

section \<open>The kernel as the tool sees it\<close>

record map_info =
  mi_Type :: u32
  mi_Id :: u32
  mi_KeySize :: u32
  mi_ValueSize :: u32
  mi_MaxEntries :: u32
  mi_Name :: "byte list"

record prog_info =
  pi_Type :: u32
  pi_ID :: u32
  pi_NrMapIDs :: u32

text \<open>\<open>err_text\<close> is the \<^verbatim>\<open>Error()\<close> of the errors the SDK returns for a map; the three type numbers are the
  SDK's constants; the two orders are those in which the runtime visits Go maps.\<close>

record 'k cli_env =
  cli_GetMapFDFromID :: "int \<Rightarrow> 'k \<Rightarrow> (string + int) \<times> 'k"
  cli_GetBPFmapInfo :: "int \<Rightarrow> 'k \<Rightarrow> (string + map_info) \<times> 'k"
  cli_Close :: "int \<Rightarrow> 'k \<Rightarrow> 'k"
  cli_GetFirst :: "int \<Rightarrow> 'k \<Rightarrow> (errno + byte list) \<times> 'k"
  cli_GetNext :: "int \<Rightarrow> byte list \<Rightarrow> 'k \<Rightarrow> (errno + byte list) \<times> 'k"
  cli_GetEntry :: "int \<Rightarrow> byte list \<Rightarrow> 'k \<Rightarrow> (errno + byte list) \<times> 'k"
  cli_ClockGettime :: "'k \<Rightarrow> (string + int \<times> int) \<times> 'k"
  BpfGetAllProgramInfo :: "'k \<Rightarrow> (string + prog_info list) \<times> 'k"
  BpfGetAllMapInfo :: "'k \<Rightarrow> (string + map_info list) \<times> 'k"
  GetAllBpfProgramsAndMaps :: "'k \<Rightarrow> (string + (string, BpfData) go_map) \<times> 'k"
  err_text :: "errno \<Rightarrow> string"
  TYPE_LPM_TRIE :: u32
  TYPE_LRU_HASH :: u32
  TYPE_HASH :: u32
  ord_state :: "(string \<times> BpfData) list \<Rightarrow> (string \<times> BpfData) list"
  ord_state_maps :: "(string \<times> BpfMap) list \<Rightarrow> (string \<times> BpfMap) list"

datatype cli_end = Returned "string option" | Panicked go_panic | MemoryOverrun

text \<open>The kernel writes \<open>src\<close> to the start of the buffer \<open>dst\<close>.\<close>

definition kernel_copy :: "byte list \<Rightarrow> byte list \<Rightarrow> byte list option" where
  "kernel_copy src dst = (if length src \<le> length dst then Some (src @ drop (length src) dst) else None)"

text \<open>The lookup of a key into a zeroed struct of \<open>width\<close> bytes; \<open>Inr None\<close> is an overrun.\<close>

definition read_value :: "'k cli_env \<Rightarrow> int \<Rightarrow> byte list \<Rightarrow> nat \<Rightarrow> 'k \<Rightarrow> (errno + byte list option) \<times> 'k" where
  "read_value env mapID key width k =
     (case cli_GetEntry env mapID key k of
        (Inl e, k') \<Rightarrow> (Inl e, k')
      | (Inr v, k') \<Rightarrow> (Inr (kernel_copy v (replicate width 0)), k'))"

definition u_text :: "'a::len word \<Rightarrow> string" where
  "u_text w = nat_string (unat w)"

section \<open>Ages\<close>

text \<open>\<^verbatim>\<open>time.Duration\<close>: 64-bit nanoseconds. \<open>Duration_Round\<close> and \<open>Duration_String\<close> are the methods of
  the standard library.\<close>

definition int64 :: "int \<Rightarrow> int" where
  "int64 x = signed_take_bit 63 x"

definition Duration_Round :: "int \<Rightarrow> int \<Rightarrow> int" where
  "Duration_Round d m =
     (if m \<le> 0 then d
      else if d < 0 then
        let r = (- d) mod m
        in if 2 * r < m then d + r
           else let d1 = int64 (d - m + r) in if d1 < d then d1 else - (2 ^ 63)
      else
        let r = d mod m
        in if 2 * r < m then d - r
           else let d1 = int64 (d + m - r) in if d < d1 then d1 else 2 ^ 63 - 1)"

fun fmtFrac :: "nat \<Rightarrow> nat \<Rightarrow> string \<Rightarrow> string \<times> nat" where
  "fmtFrac 0 v acc = (if acc = [] then [] else CHR ''.'' # acc, v)"
| "fmtFrac (Suc prec) v acc =
     fmtFrac prec (v div 10) (if acc \<noteq> [] \<or> v mod 10 \<noteq> 0 then digit_char (v mod 10) # acc else acc)"

definition sub_second :: "nat \<Rightarrow> nat \<Rightarrow> string \<Rightarrow> string" where
  "sub_second prec u unit = (case fmtFrac prec u [] of (fr, n) \<Rightarrow> nat_string n @ fr @ unit)"

definition hms :: "nat \<Rightarrow> string" where
  "hms u =
     (let (fr, s) = fmtFrac 9 u []; secs = nat_string (s mod 60) @ fr @ ''s''; m = s div 60; h = m div 60
      in if m = 0 then secs
         else if h = 0 then nat_string (m mod 60) @ ''m'' @ secs
         else nat_string h @ ''h'' @ nat_string (m mod 60) @ ''m'' @ secs)"

definition micro :: string where
  "micro = [char_of (194 :: nat), char_of (181 :: nat), CHR ''s'']"

definition Duration_String :: "int \<Rightarrow> string" where
  "Duration_String d =
     (let u = nat \<bar>d\<bar>
      in (if d < 0 then ''-'' else []) @
         (if u = 0 then ''0s''
          else if u < 1000 then sub_second 0 u ''ns''
          else if u < 1000000 then sub_second 3 u micro
          else if u < 1000000000 then sub_second 6 u ''ms''
          else hms u))"

definition formatLastSeen :: "u64 \<Rightarrow> u64 \<Rightarrow> string" where
  "formatLastSeen lastSeen now =
     (if lastSeen = 0 then ''never''
      else if now = 0 \<or> now < lastSeen then ''0s ago''
      else Duration_String (Duration_Round (sint (now - lastSeen)) 1000000) @ '' ago'')"

section \<open>Listing programs and maps\<close>

definition rule_line :: string where
  "rule_line = replicate 88 (CHR ''='')"

definition show_map_lines :: "string \<times> BpfMap \<Rightarrow> string list" where
  "show_map_lines = (\<lambda>(k, v). [''Map Name:  '' @ k, ''Map ID:  '' @ nat_string (MapID v)])"

fun show_loop :: "'k cli_env \<Rightarrow> (string \<times> BpfData) list \<Rightarrow> string list \<Rightarrow> cli_end \<times> string list" where
  "show_loop env [] out = (Returned None, out)"
| "show_loop env ((pinPath, bpfEntry) # bpfState) out =
     (case GetPodIdentifierFromBPFPinPath pinPath of
        Inl p \<Rightarrow> (Panicked p, out)
      | Inr (podIdentifier, direction) \<Rightarrow>
          show_loop env bpfState (out @
            [''PinPath:  '' @ pinPath,
             ''Pod Identifier : '' @ podIdentifier @ ''  Direction : '' @ direction @ '' '',
             ''Prog ID:  '' @ int_string (ProgID (Program bpfEntry)),
             ''Associated Maps -> ''] @
            concat (map show_map_lines (ord_state_maps env (Maps bpfEntry))) @ [rule_line]))"

definition Show :: "'k cli_env \<Rightarrow> 'k \<Rightarrow> (cli_end \<times> string list) \<times> 'k" where
  "Show env k =
     (case GetAllBpfProgramsAndMaps env k of
        (Inl e, k') \<Rightarrow> ((Returned (Some e), []), k')
      | (Inr bpfState, k') \<Rightarrow> (show_loop env (ord_state env bpfState) [], k'))"

definition ProgShow :: "'k cli_env \<Rightarrow> 'k \<Rightarrow> (cli_end \<times> string list) \<times> 'k" where
  "ProgShow env k =
     (case BpfGetAllProgramInfo env k of
        (Inl e, k') \<Rightarrow> ((Returned (Some e), []), k')
      | (Inr loadedPgms, k') \<Rightarrow>
          ((Returned None, ''Programs currently loaded : '' #
             concat (map (\<lambda>p. [''Type : '' @ u_text (pi_Type p) @ '' ID : '' @ u_text (pi_ID p) @
                               '' Associated maps count : '' @ u_text (pi_NrMapIDs p), rule_line]) loadedPgms)), k'))"

definition MapShow :: "'k cli_env \<Rightarrow> 'k \<Rightarrow> (cli_end \<times> string list) \<times> 'k" where
  "MapShow env k =
     (case BpfGetAllMapInfo env k of
        (Inl e, k') \<Rightarrow> ((Returned (Some e), []), k')
      | (Inr loadedMaps, k') \<Rightarrow>
          ((Returned None, ''Maps currently loaded : '' #
             concat (map (\<lambda>m. [''Type : '' @ u_text (mi_Type m) @ '' ID : '' @ u_text (mi_Id m),
                               ''Keysize '' @ u_text (mi_KeySize m) @ '' Valuesize '' @ u_text (mi_ValueSize m) @
                                 '' MaxEntries '' @ u_text (mi_MaxEntries m), rule_line]) loadedMaps)), k'))"

section \<open>Entries of policy maps\<close>

definition dash_line :: string where "dash_line = replicate 19 (CHR ''-'')"
definition star_line :: string where "star_line = replicate 31 (CHR ''*'')"

text \<open>The fields of the IPv4 trie key in its buffer.\<close>

record BPFTrieKey =
  tk_PrefixLen :: u32
  tk_IP :: u32

definition read_trie_key :: "byte list \<Rightarrow> BPFTrieKey" where
  "read_trie_key b = \<lparr>tk_PrefixLen = get_le32 (get_at 0 4 b), tk_IP = get_le32 (get_at 4 4 b)\<rparr>"

text \<open>The type parameter of the generic Go function is one of these two.\<close>

datatype policy_val = TrieVal BPFTrieVal | PriorityVal BPFL4PriorityVal

fun policy_val_lines :: "nat \<Rightarrow> policy_val \<Rightarrow> string list" where
  "policy_val_lines i (TrieVal v) =
     (if tv_Protocol v = 0 then []
      else [dash_line, ''Entry '' @ nat_string i @ '':'',
            ''Protocol  - '' @ GetProtocol (uint (tv_Protocol v)),
            ''StartPort - '' @ u_text (tv_StartPort v),
            ''EndPort   - '' @ u_text (tv_EndPort v), dash_line])"
| "policy_val_lines i (PriorityVal v) =
     (if pv_Protocol v = 0 then []
      else [dash_line, ''Entry '' @ nat_string i @ '':'',
            ''Protocol  - '' @ GetProtocol (uint (pv_Protocol v)),
            ''Priority  - '' @ u_text (pv_Priority v),
            ''StartPort - '' @ u_text (pv_StartPort v),
            ''EndPort   - '' @ u_text (pv_EndPort v), dash_line])"

definition key_line :: "BPFTrieKey \<Rightarrow> string" where
  "key_line key = ''Key: '' @ IP_String (ConvIntToIPv4 (tk_IP key)) @ ''/'' @ u_text (tk_PrefixLen key)"

definition printPolicyEntry :: "BPFTrieKey \<Rightarrow> policy_val list \<Rightarrow> string list" where
  "printPolicyEntry key entries =
     key_line key # concat (map (\<lambda>i. policy_val_lines i (entries ! i)) [0..<length entries]) @ [star_line]"

definition trie_vals :: "byte list \<Rightarrow> policy_val list" where
  "trie_vals v = map (\<lambda>i. TrieVal (read_trie_val v i)) [0..<24]"

definition priority_vals :: "byte list \<Rightarrow> policy_val list" where
  "priority_vals v = map (\<lambda>i. PriorityVal (read_priority_val v i)) [0..<24]"

datatype dump = Dumped "string list" | DumpErr string | DumpOverrun

definition dumpClusterPolicyEntry :: "'k cli_env \<Rightarrow> byte list \<Rightarrow> int \<Rightarrow> 'k \<Rightarrow> dump \<times> 'k" where
  "dumpClusterPolicyEntry env key mapID k =
     (case read_value env mapID key 384 k of
        (Inl e, k') \<Rightarrow> (DumpErr (''unable to get map entry: '' @ err_text env e), k')
      | (Inr None, k') \<Rightarrow> (DumpOverrun, k')
      | (Inr (Some v), k') \<Rightarrow>
          (Dumped (key_line (read_trie_key key) # printPolicyEntry (read_trie_key key) (priority_vals v)), k'))"

definition dumpNetworkPolicyEntry :: "'k cli_env \<Rightarrow> byte list \<Rightarrow> int \<Rightarrow> 'k \<Rightarrow> dump \<times> 'k" where
  "dumpNetworkPolicyEntry env key mapID k =
     (case read_value env mapID key 288 k of
        (Inl e, k') \<Rightarrow> (DumpErr (''unable to get map entry: '' @ err_text env e), k')
      | (Inr None, k') \<Rightarrow> (DumpOverrun, k')
      | (Inr (Some v), k') \<Rightarrow> (Dumped (printPolicyEntry (read_trie_key key) (trie_vals v)), k'))"

section \<open>Walking the IPv4 maps\<close>

definition done_text :: string where "done_text = ''Done reading all entries''"
definition failed_text :: string where "failed_text = ''Failed to get next entry Done searching''"
definition empty_text :: string where "empty_text = ''No Entries found, Empty map''"

type_synonym 'k walk = "(cli_end \<times> string list \<times> 'k) option"

text \<open>The loop over an LPM trie, from the key in \<open>iterKey\<close>; \<open>out\<close> is what was printed so far.\<close>

partial_function (option) walk_trie ::
  "'k cli_env \<Rightarrow> int \<Rightarrow> string \<Rightarrow> byte list \<Rightarrow> byte list \<Rightarrow> string list \<Rightarrow> 'k \<Rightarrow> 'k walk" where
  "walk_trie env mapID mapNamePrefix iterKey iterNextKey out k =
     (let (d, k1) = (if sublist ''cp_'' mapNamePrefix then dumpClusterPolicyEntry env iterKey mapID k
                     else dumpNetworkPolicyEntry env iterKey mapID k);
          out1 = out @ (case d of Dumped ls \<Rightarrow> ls
                        | DumpErr e \<Rightarrow> [(if sublist ''cp_'' mapNamePrefix then ''error reading ClusterNetworkPolicy entry: ''
                                         else ''error reading NetworkPolicy entry: '') @ e]
                        | DumpOverrun \<Rightarrow> [])
      in if d = DumpOverrun then Some (MemoryOverrun, out1, k1)
         else (case cli_GetNext env mapID iterKey k1 of
                 (Inl e, k2) \<Rightarrow> Some (Returned None, out1 @ [if e = ENOENT then done_text else failed_text], k2)
               | (Inr key, k2) \<Rightarrow>
                   (case kernel_copy key iterNextKey of
                      None \<Rightarrow> Some (MemoryOverrun, out1, k2)
                    | Some nxt \<Rightarrow> walk_trie env mapID mapNamePrefix nxt nxt out1 k2)))"

declare walk_trie.simps [code]

definition ConntrackKey_of :: "byte list \<Rightarrow> ConntrackKey" where
  "ConntrackKey_of b =
     \<lparr>ck_Source_ip = get_le32 (get_at 0 4 b), ck_Source_port = get_le16 (get_at 4 2 b),
      ck_pad1 = get_le16 (get_at 6 2 b), ck_Dest_ip = get_le32 (get_at 8 4 b),
      ck_Dest_port = get_le16 (get_at 12 2 b), ck_Protocol = b ! 14, ck_pad2 = b ! 15,
      ck_Owner_ip = get_le32 (get_at 16 4 b), ck_Ifindex = get_le32 (get_at 20 4 b)\<rparr>"

definition ConntrackVal_of :: "byte list \<Rightarrow> ConntrackVal" where
  "ConntrackVal_of b = \<lparr>cv_Value = get_le64 (get_at 0 8 b), cv_LastSeen = get_le64 (get_at 8 8 b)\<rparr>"

definition conntrack_key_line :: "ip \<Rightarrow> u16 \<Rightarrow> ip \<Rightarrow> u16 \<Rightarrow> u8 \<Rightarrow> ip \<Rightarrow> u32 \<Rightarrow> string" where
  "conntrack_key_line src sport dst dport proto owner ifindex =
     ''Conntrack Key : Source IP - '' @ IP_String src @ '' Source port - '' @ u_text sport @
     '' Dest IP - '' @ IP_String dst @ '' Dest port - '' @ u_text dport @
     '' Protocol - '' @ u_text proto @ '' Owner IP - '' @ IP_String owner @ '' Ifindex - '' @ u_text ifindex"

definition conntrack_val_lines :: "ConntrackVal \<Rightarrow> u64 \<Rightarrow> string list" where
  "conntrack_val_lines v now =
     [''Value : '', ''Conntrack Val -  '' @ u_text (cv_Value v),
      ''Last Seen (ns) -  '' @ u_text (cv_LastSeen v) @ ''  ('' @ formatLastSeen (cv_LastSeen v) now @ '')'', star_line]"

definition conntrack_lines :: "byte list \<Rightarrow> byte list \<Rightarrow> u64 \<Rightarrow> string list" where
  "conntrack_lines key v now =
     (let c = ConntrackKey_of key
      in conntrack_key_line (ConvIntToIPv4 (ck_Source_ip c)) (ck_Source_port c) (ConvIntToIPv4 (ck_Dest_ip c))
           (ck_Dest_port c) (ck_Protocol c) (ConvIntToIPv4 (ck_Owner_ip c)) (ck_Ifindex c) #
         conntrack_val_lines (ConntrackVal_of v) now)"

partial_function (option) walk_conntrack ::
  "'k cli_env \<Rightarrow> int \<Rightarrow> u64 \<Rightarrow> byte list \<Rightarrow> byte list \<Rightarrow> string list \<Rightarrow> 'k \<Rightarrow> 'k walk" where
  "walk_conntrack env mapID dumpNow iterKey iterNextKey out k =
     (case read_value env mapID iterKey 16 k of
        (Inl e, k1) \<Rightarrow> Some (Returned (Some (''Unable to get map entry: '' @ err_text env e)), out, k1)
      | (Inr None, k1) \<Rightarrow> Some (MemoryOverrun, out, k1)
      | (Inr (Some v), k1) \<Rightarrow>
          let out1 = out @ conntrack_lines iterKey v dumpNow
          in case cli_GetNext env mapID iterKey k1 of
               (Inl e, k2) \<Rightarrow> Some (Returned None, out1 @ [if e = ENOENT then done_text else failed_text], k2)
             | (Inr key, k2) \<Rightarrow>
                 (case kernel_copy key iterNextKey of
                    None \<Rightarrow> Some (MemoryOverrun, out1, k2)
                  | Some nxt \<Rightarrow> walk_conntrack env mapID dumpNow nxt nxt out1 k2))"

declare walk_conntrack.simps [code]

text \<open>The state is a struct of one byte.\<close>

record PodState =
  ps_State :: u8

definition pod_state_lines :: "byte list \<Rightarrow> PodState \<Rightarrow> string list" where
  "pod_state_lines key val =
     [''Key :  '' @ u_text (get_le32 key), ''State -  '' @ u_text (ps_State val), star_line]"

partial_function (option) walk_pod_state ::
  "'k cli_env \<Rightarrow> int \<Rightarrow> byte list \<Rightarrow> byte list \<Rightarrow> string list \<Rightarrow> 'k \<Rightarrow> 'k walk" where
  "walk_pod_state env mapID key nextKey out k =
     (case read_value env mapID key 1 k of
        (Inl e, k1) \<Rightarrow> Some (Returned (Some (''unable to get HASH entry for key='' @ u_text (get_le32 key) @
                                '': '' @ err_text env e)), out, k1)
      | (Inr None, k1) \<Rightarrow> Some (MemoryOverrun, out, k1)
      | (Inr (Some v), k1) \<Rightarrow>
          let out1 = out @ pod_state_lines key \<lparr>ps_State = v ! 0\<rparr>
          in case cli_GetNext env mapID key k1 of
               (Inl e, k2) \<Rightarrow> Some (Returned None, out1 @ [if e = ENOENT then ''Done reading all entries in BPF_MAP_TYPE_HASH''
                                                           else ''Failed to get next entry, done searching''], k2)
             | (Inr nk, k2) \<Rightarrow>
                 (case kernel_copy nk nextKey of
                    None \<Rightarrow> Some (MemoryOverrun, out1, k2)
                  | Some nxt \<Rightarrow> walk_pod_state env mapID nxt nxt out1 k2))"

declare walk_pod_state.simps [code]

text \<open>Both walks open the map and check its type in the same way.\<close>

definition map_info_of :: "'k cli_env \<Rightarrow> int \<Rightarrow> 'k \<Rightarrow> (string + map_info) \<times> 'k" where
  "map_info_of env mapID k =
     (if mapID \<le> 0 then (Inl ''Invalid mapID'', k)
      else (case cli_GetMapFDFromID env mapID k of
              (Inl e, k1) \<Rightarrow> (Inl (''failed to get map FD: '' @ e), k1)
            | (Inr mapFD, k1) \<Rightarrow>
                (case cli_GetBPFmapInfo env mapFD k1 of
                   (Inl e, k2) \<Rightarrow> (Inl (''failed to get map info: '' @ e), k2)
                 | (Inr mapInfo, k2) \<Rightarrow>
                     (if mi_Type mapInfo \<in> {TYPE_LPM_TRIE env, TYPE_LRU_HASH env, TYPE_HASH env} then Inr mapInfo
                      else Inl (''unsupported map type: '' @ u_text (mi_Type mapInfo) @
                                '' (expected LPM_TRIE, LRU_HASH, or HASH)''), cli_Close env mapFD k2))))"

text \<open>The clock of a conntrack dump and what is printed when it cannot be read.\<close>

definition dump_clock :: "'k cli_env \<Rightarrow> 'k \<Rightarrow> (u64 \<times> string list) \<times> 'k" where
  "dump_clock env k =
     (case cli_ClockGettime env k of
        (Inl e, k') \<Rightarrow> ((0, [''unable to read monotonic clock, ages will show as 0s: '' @ e]), k')
      | (Inr (sec, nsec), k') \<Rightarrow> ((word_of_int (sec * 1000000000 + nsec), []), k'))"

text \<open>The first key goes into a zeroed struct of \<open>width\<close> bytes, from which \<open>walk\<close> goes on.\<close>

definition start_walk ::
  "'k cli_env \<Rightarrow> int \<Rightarrow> nat \<Rightarrow> string option \<Rightarrow> string \<Rightarrow> string list \<Rightarrow>
     (byte list \<Rightarrow> byte list \<Rightarrow> string list \<Rightarrow> 'k \<Rightarrow> 'k walk) \<Rightarrow> 'k \<Rightarrow> 'k walk" where
  "start_walk env mapID width on_empty failure out walk k =
     (case cli_GetFirst env mapID k of
        (Inl e, k1) \<Rightarrow>
          Some (case (e, on_empty) of
                  (ENOENT, Some t) \<Rightarrow> (Returned None, out @ [t], k1)
                | _ \<Rightarrow> (Returned (Some (failure @ err_text env e)), out, k1))
      | (Inr key, k1) \<Rightarrow>
          (case kernel_copy key (replicate width 0) of
             None \<Rightarrow> Some (MemoryOverrun, out, k1)
           | Some iterKey \<Rightarrow> walk iterKey (replicate width 0) out k1))"

definition MapWalk :: "'k cli_env \<Rightarrow> int \<Rightarrow> string \<Rightarrow> 'k \<Rightarrow> 'k walk" where
  "MapWalk env mapID mapNamePrefix k =
     (case map_info_of env mapID k of
        (Inl e, k1) \<Rightarrow> Some (Returned (Some e), [], k1)
      | (Inr mapInfo, k1) \<Rightarrow>
          if mi_Type mapInfo = TYPE_LPM_TRIE env then
            start_walk env mapID 8 (Some empty_text) ''Unable to get First key: '' []
              (walk_trie env mapID mapNamePrefix) k1
          else if mi_Type mapInfo = TYPE_LRU_HASH env then
            (case dump_clock env k1 of
               ((dumpNow, out), k2) \<Rightarrow>
                 start_walk env mapID 24 (Some empty_text) ''Unable to get First key: '' out
                   (walk_conntrack env mapID dumpNow) k2)
          else
            start_walk env mapID 4 (Some ''No entries found, empty HASH map (pod_state_map?)'')
              ''unable to get first key (HASH): '' [] (walk_pod_state env mapID) k1)"

definition MapWalkCP :: "'k cli_env \<Rightarrow> int \<Rightarrow> 'k \<Rightarrow> 'k walk" where
  "MapWalkCP env mapID k = MapWalk env mapID ''cp_'' k"

section \<open>Walking the IPv6 maps\<close>

definition trie_v6_val_lines :: "nat \<Rightarrow> BPFTrieVal \<Rightarrow> string list" where
  "trie_v6_val_lines i v =
     (if tv_Protocol v = 0 then []
      else [dash_line, ''Value Entry :  '' @ nat_string i,
            ''Protocol -  '' @ GetProtocol (uint (tv_Protocol v)),
            ''StartPort -  '' @ u_text (tv_StartPort v),
            ''Endport -  '' @ u_text (tv_EndPort v), dash_line])"

definition trie_v6_lines :: "byte list \<Rightarrow> byte list \<Rightarrow> string list" where
  "trie_v6_lines byteSlice v =
     (let v6key = ConvByteToTrieV6 byteSlice
      in (''Key : IP/Prefixlen - '' @ IP_String (ConvByteToIPv6 (tk6_IP v6key)) @ ''/'' @ u_text (tk6_PrefixLen v6key) @ '' '') #
         concat (map (\<lambda>i. trie_v6_val_lines i (read_trie_val v i)) [0..<24]) @ [star_line])"

partial_function (option) walk_trie_v6 ::
  "'k cli_env \<Rightarrow> int \<Rightarrow> byte list \<Rightarrow> byte list \<Rightarrow> string list \<Rightarrow> 'k \<Rightarrow> 'k walk" where
  "walk_trie_v6 env mapID byteSlice nextbyteSlice out k =
     (case read_value env mapID byteSlice 288 k of
        (Inl e, k1) \<Rightarrow> Some (Returned (Some (''Unable to get map entry: '' @ err_text env e)), out, k1)
      | (Inr None, k1) \<Rightarrow> Some (MemoryOverrun, out, k1)
      | (Inr (Some v), k1) \<Rightarrow>
          let out1 = out @ trie_v6_lines byteSlice v
          in case cli_GetNext env mapID byteSlice k1 of
               (Inl e, k2) \<Rightarrow> Some (Returned None, out1 @ [if e = ENOENT then done_text else failed_text], k2)
             | (Inr key, k2) \<Rightarrow>
                 (case kernel_copy key nextbyteSlice of
                    None \<Rightarrow> Some (MemoryOverrun, out1, k2)
                  | Some nxt \<Rightarrow> walk_trie_v6 env mapID nxt nxt out1 k2))"

declare walk_trie_v6.simps [code]

definition conntrack_v6_lines :: "byte list \<Rightarrow> byte list \<Rightarrow> u64 \<Rightarrow> string list" where
  "conntrack_v6_lines byteSlice v now =
     (let c = ConvByteToConntrackV6 byteSlice
      in conntrack_key_line (ConvByteToIPv6 (ck6_Source_ip c)) (ck6_Source_port c) (ConvByteToIPv6 (ck6_Dest_ip c))
           (ck6_Dest_port c) (ck6_Protocol c) (ConvByteToIPv6 (ck6_Owner_ip c)) (ck6_Ifindex c) #
         conntrack_val_lines (ConntrackVal_of v) now)"

partial_function (option) walk_conntrack_v6 ::
  "'k cli_env \<Rightarrow> int \<Rightarrow> u64 \<Rightarrow> byte list \<Rightarrow> byte list \<Rightarrow> string list \<Rightarrow> 'k \<Rightarrow> 'k walk" where
  "walk_conntrack_v6 env mapID dumpNow byteSlice nextbyteSlice out k =
     (case read_value env mapID byteSlice 16 k of
        (Inl e, k1) \<Rightarrow> Some (Returned (Some (''Unable to get map entry: '' @ err_text env e)), out, k1)
      | (Inr None, k1) \<Rightarrow> Some (MemoryOverrun, out, k1)
      | (Inr (Some v), k1) \<Rightarrow>
          let out1 = out @ conntrack_v6_lines byteSlice v dumpNow
          in case cli_GetNext env mapID byteSlice k1 of
               (Inl e, k2) \<Rightarrow> Some (Returned None, out1 @ [if e = ENOENT then done_text else failed_text], k2)
             | (Inr key, k2) \<Rightarrow>
                 (case kernel_copy key nextbyteSlice of
                    None \<Rightarrow> Some (MemoryOverrun, out1, k2)
                  | Some nxt \<Rightarrow> walk_conntrack_v6 env mapID dumpNow nxt nxt out1 k2))"

declare walk_conntrack_v6.simps [code]

text \<open>The name of a map without the NUL bytes at its end.\<close>

definition name_text :: "byte list \<Rightarrow> string" where
  "name_text bs = map (\<lambda>b. char_of (unat b)) (rev (dropWhile (\<lambda>b. b = 0) (rev bs)))"

definition walking_line :: "map_info \<Rightarrow> int \<Rightarrow> string" where
  "walking_line info mapID = ''Walking map: '' @ name_text (mi_Name info) @ '' (type='' @ u_text (mi_Type info) @
     '', id='' @ int_string mapID @ '')''"

definition MapWalkv6 :: "'k cli_env \<Rightarrow> int \<Rightarrow> 'k \<Rightarrow> 'k walk" where
  "MapWalkv6 env mapID k =
     (case map_info_of env mapID k of
        (Inl e, k1) \<Rightarrow> Some (Returned (Some e), [], k1)
      | (Inr mapInfo, k1) \<Rightarrow>
          let out = [walking_line mapInfo mapID]
          in if mi_Type mapInfo = TYPE_LPM_TRIE env then
               start_walk env mapID 20 None ''Unable to get First key: '' out (walk_trie_v6 env mapID) k1
             else if mi_Type mapInfo = TYPE_LRU_HASH env then
               (case dump_clock env k1 of
                  ((dumpNow, out1), k2) \<Rightarrow>
                    start_walk env mapID 60 None ''Unable to get First key: '' (out @ out1)
                      (walk_conntrack_v6 env mapID dumpNow) k2)
             else Some (Returned None, out, k1))"

section \<open>The commands\<close>

datatype cli_command = progs | maps | loaded_ebpfdata | dump_maps string | dump_cp_maps string

definition report :: "cli_end \<times> string list \<times> 'k \<Rightarrow> cli_end \<times> string list \<times> 'k" where
  "report = (\<lambda>(r, out, k). case r of
     Returned (Some e) \<Rightarrow> (Returned None, out @ [''Failed to execute the cmd -  '' @ e], k)
   | _ \<Rightarrow> (r, out, k))"

fun run_command :: "'k cli_env \<Rightarrow> cli_command \<Rightarrow> 'k \<Rightarrow> 'k walk" where
  "run_command env progs k = (case ProgShow env k of ((r, out), k') \<Rightarrow> Some (report (r, out, k')))"
| "run_command env maps k = (case MapShow env k of ((r, out), k') \<Rightarrow> Some (report (r, out, k')))"
| "run_command env loaded_ebpfdata k = (case Show env k of ((r, out), k') \<Rightarrow> Some (report (r, out, k')))"
| "run_command env (dump_maps mapID) k = map_option report (MapWalk env (go_atoi_or_zero mapID) [] k)"
| "run_command env (dump_cp_maps mapID) k = map_option report (MapWalkCP env (go_atoi_or_zero mapID) k)"

text \<open>The IPv6 tool has no command for cluster policy maps: \<open>None\<close> is an unknown command.\<close>

fun run_command_v6 :: "'k cli_env \<Rightarrow> cli_command \<Rightarrow> 'k \<Rightarrow> 'k walk option" where
  "run_command_v6 env progs k = (case ProgShow env k of ((r, out), k') \<Rightarrow> Some (Some (report (r, out, k'))))"
| "run_command_v6 env maps k = (case MapShow env k of ((r, out), k') \<Rightarrow> Some (Some (report (r, out, k'))))"
| "run_command_v6 env loaded_ebpfdata k = (case Show env k of ((r, out), k') \<Rightarrow> Some (Some (report (r, out, k'))))"
| "run_command_v6 env (dump_maps mapID) k = Some (map_option report (MapWalkv6 env (go_atoi_or_zero mapID) k))"
| "run_command_v6 env (dump_cp_maps mapID) k = None"

section \<open>A walk over a map that nobody changes\<close>

text \<open>The five loops of the tool have one shape: visit the entry of the key in the buffer, which prints lines
  or ends the walk, then ask for the next key and copy it.\<close>

locale map_walk =
  fixes loop :: "byte list \<Rightarrow> byte list \<Rightarrow> string list \<Rightarrow> 'k \<Rightarrow> 'k walk"
    and visit :: "byte list \<Rightarrow> 'k \<Rightarrow> (cli_end option \<times> string list) \<times> 'k"
    and next_key :: "byte list \<Rightarrow> 'k \<Rightarrow> (errno + byte list) \<times> 'k"
    and end_text :: "errno \<Rightarrow> string"
  assumes loop_unfold: "loop key nxt out k =
     (case visit key k of
        ((Some r, ls), k1) \<Rightarrow> Some (r, out @ ls, k1)
      | ((None, ls), k1) \<Rightarrow>
          (case next_key key k1 of
             (Inl e, k2) \<Rightarrow> Some (Returned None, out @ ls @ [end_text e], k2)
           | (Inr key', k2) \<Rightarrow>
               (case kernel_copy key' nxt of
                  None \<Rightarrow> Some (MemoryOverrun, out @ ls, k2)
                | Some nxt' \<Rightarrow> loop nxt' nxt' (out @ ls) k2)))"

text \<open>\<open>chained\<close> says that asking for the next key leads through the entries in order and then ends, from
  any state of \<open>K\<close> to a state of \<open>K\<close>.\<close>

fun chained :: "(byte list \<Rightarrow> 'k \<Rightarrow> (errno + byte list) \<times> 'k) \<Rightarrow> 'k set \<Rightarrow> (byte list \<times> byte list) list \<Rightarrow> bool" where
  "chained nk K [] = True"
| "chained nk K [(key, v)] = (\<forall>k \<in> K. \<exists>k' \<in> K. nk key k = (Inl ENOENT, k'))"
| "chained nk K ((key, v) # (key', v') # es) =
     ((\<forall>k \<in> K. \<exists>k' \<in> K. nk key k = (Inr key', k')) \<and> chained nk K ((key', v') # es))"

lemma kernel_copy_fits [simp]: "length src = length dst \<Longrightarrow> kernel_copy src dst = Some src"
  by (simp add: kernel_copy_def)

lemma kernel_copy_overrun [simp]: "length dst < length src \<Longrightarrow> kernel_copy src dst = None"
  by (simp add: kernel_copy_def)

context map_walk
begin

lemma walk_all:
  assumes "chained next_key K es" and "es \<noteq> []" and "k \<in> K" and "length nxt = n"
    and "\<forall>(key, v) \<in> set es. length key = n"
    and "\<forall>(key, v) \<in> set es. \<forall>k \<in> K. \<exists>k' \<in> K. visit key k = ((None, shown key v), k')"
  shows "\<exists>k' \<in> K. loop (fst (hd es)) nxt out k =
    Some (Returned None, out @ concat (map (\<lambda>(key, v). shown key v) es) @ [end_text ENOENT], k')"
  using assms
proof (induction es arbitrary: k nxt out)
  case (Cons e es)
  obtain key v where e: "e = (key, v)" by (cases e)
  obtain k1 where k1: "k1 \<in> K" "visit key k = ((None, shown key v), k1)"
    using Cons.prems(3, 6) by (auto simp: e)
  show ?case
  proof (cases es)
    case Nil
    with Cons.prems(1) k1(1) obtain k2 where "k2 \<in> K" "next_key key k1 = (Inl ENOENT, k2)" by (auto simp: e)
    then show ?thesis using k1(2) by (subst loop_unfold) (simp add: e Nil)
  next
    case tail: (Cons e' es')
    obtain key' v' where e': "e' = (key', v')" by (cases e')
    from Cons.prems(1) k1(1) tail obtain k2 where k2: "k2 \<in> K" "next_key key k1 = (Inr key', k2)"
      by (auto simp: e e')
    have l: "length key' = n" using Cons.prems(5) tail by (simp add: e')
    then have "loop key nxt out k = loop key' key' (out @ shown key v) k2"
      using k1(2) k2(2) Cons.prems(4) by (subst loop_unfold) simp
    moreover have "\<exists>k' \<in> K. loop (fst (hd es)) key' (out @ shown key v) k2 =
        Some (Returned None, (out @ shown key v) @ concat (map (\<lambda>(key, v). shown key v) es) @ [end_text ENOENT], k')"
      by (rule Cons.IH) (use Cons.prems tail k2 l in \<open>auto simp: e e'\<close>)
    ultimately show ?thesis by (simp add: e e' tail)
  qed
qed simp

lemma walk_ends: "visit key k = ((Some r, ls), k1) \<Longrightarrow> loop key nxt out k = Some (r, out @ ls, k1)"
  by (subst loop_unfold) simp

end

text \<open>What each loop prints for an entry.\<close>

definition visit_trie :: "'k cli_env \<Rightarrow> int \<Rightarrow> string \<Rightarrow> byte list \<Rightarrow> 'k \<Rightarrow> (cli_end option \<times> string list) \<times> 'k" where
  "visit_trie env mapID mapNamePrefix key k =
     (case (if sublist ''cp_'' mapNamePrefix then dumpClusterPolicyEntry env key mapID k
            else dumpNetworkPolicyEntry env key mapID k) of
        (Dumped ls, k1) \<Rightarrow> ((None, ls), k1)
      | (DumpErr e, k1) \<Rightarrow> ((None, [(if sublist ''cp_'' mapNamePrefix then ''error reading ClusterNetworkPolicy entry: ''
                                    else ''error reading NetworkPolicy entry: '') @ e]), k1)
      | (DumpOverrun, k1) \<Rightarrow> ((Some MemoryOverrun, []), k1))"

definition visit_value ::
  "'k cli_env \<Rightarrow> int \<Rightarrow> nat \<Rightarrow> (byte list \<Rightarrow> string) \<Rightarrow> (byte list \<Rightarrow> byte list \<Rightarrow> string list) \<Rightarrow> byte list \<Rightarrow> 'k \<Rightarrow>
     (cli_end option \<times> string list) \<times> 'k" where
  "visit_value env mapID width failure shown key k =
     (case read_value env mapID key width k of
        (Inl e, k1) \<Rightarrow> ((Some (Returned (Some (failure key @ err_text env e))), []), k1)
      | (Inr None, k1) \<Rightarrow> ((Some MemoryOverrun, []), k1)
      | (Inr (Some v), k1) \<Rightarrow> ((None, shown key v), k1))"

interpretation trie_walk: map_walk "walk_trie env mapID p" "visit_trie env mapID p" "cli_GetNext env mapID"
    "\<lambda>e. if e = ENOENT then done_text else failed_text" for env mapID p
  by unfold_locales
    (subst walk_trie.simps, auto simp: visit_trie_def Let_def split: prod.splits dump.splits sum.splits option.splits)

interpretation conntrack_walk: map_walk "walk_conntrack env mapID now"
    "visit_value env mapID 16 (\<lambda>_. ''Unable to get map entry: '') (\<lambda>key v. conntrack_lines key v now)"
    "cli_GetNext env mapID" "\<lambda>e. if e = ENOENT then done_text else failed_text" for env mapID now
  by unfold_locales
    (subst walk_conntrack.simps, auto simp: visit_value_def Let_def split: prod.splits sum.splits option.splits)

interpretation pod_state_walk: map_walk "walk_pod_state env mapID"
    "visit_value env mapID 1 (\<lambda>key. ''unable to get HASH entry for key='' @ u_text (get_le32 key) @ '': '')
       (\<lambda>key v. pod_state_lines key \<lparr>ps_State = v ! 0\<rparr>)"
    "cli_GetNext env mapID"
    "\<lambda>e. if e = ENOENT then ''Done reading all entries in BPF_MAP_TYPE_HASH'' else ''Failed to get next entry, done searching''"
    for env mapID
  by unfold_locales
    (subst walk_pod_state.simps, auto simp: visit_value_def Let_def split: prod.splits sum.splits option.splits)

interpretation trie_v6_walk: map_walk "walk_trie_v6 env mapID"
    "visit_value env mapID 288 (\<lambda>_. ''Unable to get map entry: '') trie_v6_lines"
    "cli_GetNext env mapID" "\<lambda>e. if e = ENOENT then done_text else failed_text" for env mapID
  by unfold_locales
    (subst walk_trie_v6.simps, auto simp: visit_value_def Let_def split: prod.splits sum.splits option.splits)

interpretation conntrack_v6_walk: map_walk "walk_conntrack_v6 env mapID now"
    "visit_value env mapID 16 (\<lambda>_. ''Unable to get map entry: '') (\<lambda>key v. conntrack_v6_lines key v now)"
    "cli_GetNext env mapID" "\<lambda>e. if e = ENOENT then done_text else failed_text" for env mapID now
  by unfold_locales
    (subst walk_conntrack_v6.simps, auto simp: visit_value_def Let_def split: prod.splits sum.splits option.splits)

text \<open>\<open>quiet_map env mapID es K\<close>: in the states of \<open>K\<close> the map holds the entries \<open>es\<close>, in the order in which
  the kernel hands out the keys, and reading it stays in \<open>K\<close>.\<close>

definition quiet_map :: "'k cli_env \<Rightarrow> int \<Rightarrow> (byte list, byte list) go_map \<Rightarrow> 'k set \<Rightarrow> bool" where
  "quiet_map env mapID es K \<longleftrightarrow> go_map_wf es \<and>
     (\<forall>k \<in> K. \<exists>k' \<in> K. cli_GetFirst env mapID k = (if es = [] then Inl ENOENT else Inr (fst (hd es)), k')) \<and>
     (\<forall>(key, v) \<in> set es. \<forall>k \<in> K. \<exists>k' \<in> K. cli_GetEntry env mapID key k = (Inr v, k')) \<and>
     chained (cli_GetNext env mapID) K es"

lemma quiet_mapD:
  assumes "quiet_map env mapID es K"
  shows "go_map_wf es"
    and "k \<in> K \<Longrightarrow> \<exists>k' \<in> K. cli_GetFirst env mapID k = (if es = [] then Inl ENOENT else Inr (fst (hd es)), k')"
    and "(key, v) \<in> set es \<Longrightarrow> k \<in> K \<Longrightarrow> \<exists>k' \<in> K. cli_GetEntry env mapID key k = (Inr v, k')"
    and "chained (cli_GetNext env mapID) K es"
  using assms unfolding quiet_map_def by blast+

lemma quiet_read:
  assumes "quiet_map env mapID es K" and "(key, v) \<in> set es" and "k \<in> K"
  shows "\<exists>k' \<in> K. read_value env mapID key w k = (Inr (kernel_copy v (replicate w 0)), k')"
  using quiet_mapD(3) [OF assms] by (auto simp: read_value_def)

context map_walk
begin

text \<open>From the first key on: the walk of a quiet map whose keys have the size of the buffer.\<close>

lemma start_all:
  assumes nk: "next_key = cli_GetNext env mapID" and q: "quiet_map env mapID es K" and k: "k \<in> K"
    and sz: "sized n w es"
    and vis: "\<forall>(key, v) \<in> set es. \<forall>k \<in> K. \<exists>k' \<in> K. visit key k = ((None, shown key v), k')"
  shows "\<exists>k' \<in> K. start_walk env mapID n on_empty failure out loop k = Some
    (if es \<noteq> [] then (Returned None, out @ concat (map (\<lambda>(key, v). shown key v) es) @ [end_text ENOENT], k')
     else case on_empty of Some t \<Rightarrow> (Returned None, out @ [t], k')
          | None \<Rightarrow> (Returned (Some (failure @ err_text env ENOENT)), out, k'))"
proof -
  obtain k1 where k1: "k1 \<in> K" "cli_GetFirst env mapID k = (if es = [] then Inl ENOENT else Inr (fst (hd es)), k1)"
    using quiet_mapD(2) [OF q k] by blast
  show ?thesis
  proof (cases "es = []")
    case True
    with k1 show ?thesis by (auto simp: start_walk_def split: option.splits)
  next
    case False
    have l: "\<forall>(key, v) \<in> set es. length key = n" using sz by (auto simp: sized_def)
    with False have "length (fst (hd es)) = n" by (cases es) auto
    with False k1(2) have "start_walk env mapID n on_empty failure out loop k = loop (fst (hd es)) (replicate n 0) out k1"
      by (simp add: start_walk_def)
    with walk_all [OF quiet_mapD(4) [OF q, folded nk] False k1(1) _ l vis, of "replicate n 0" out] False
    show ?thesis by simp
  qed
qed

lemma start_ends:
  assumes q: "quiet_map env mapID es K" and k: "k \<in> K" and es: "es \<noteq> []" and l: "length (fst (hd es)) = n"
    and vis: "\<forall>k \<in> K. \<exists>k' \<in> K. visit (fst (hd es)) k = ((Some r, []), k')"
  shows "\<exists>k' \<in> K. start_walk env mapID n on_empty failure out loop k = Some (r, out, k')"
proof -
  obtain k1 where k1: "k1 \<in> K" "cli_GetFirst env mapID k = (Inr (fst (hd es)), k1)"
    using quiet_mapD(2) [OF q k] es by auto
  with vis obtain k2 where "k2 \<in> K" "visit (fst (hd es)) k1 = ((Some r, []), k2)" by blast
  then show ?thesis using walk_ends [of "fst (hd es)" k1 r "[]" k2] k1(2) l by (auto simp: start_walk_def)
qed

end

lemma visit_value_quiet:
  assumes "quiet_map env mapID es K" and "sized n w es"
  shows "\<forall>(key, v) \<in> set es. \<forall>k \<in> K. \<exists>k' \<in> K. visit_value env mapID w failure shown key k = ((None, shown key v), k')"
proof (clarify)
  fix key v k assume e: "(key, v) \<in> set es" "k \<in> K"
  then have "length v = w" using assms(2) by (auto simp: sized_def)
  with quiet_read [OF assms(1) e, of w]
  show "\<exists>k' \<in> K. visit_value env mapID w failure shown key k = ((None, shown key v), k')"
    by (auto simp: visit_value_def)
qed

text \<open>The lines of an entry of a policy map, as the two kinds of dump print them.\<close>

definition policy_lines :: "bool \<Rightarrow> byte list \<Rightarrow> byte list \<Rightarrow> string list" where
  "policy_lines cluster key v =
     (if cluster then key_line (read_trie_key key) # printPolicyEntry (read_trie_key key) (priority_vals v)
      else printPolicyEntry (read_trie_key key) (trie_vals v))"

lemma visit_trie_quiet:
  assumes "quiet_map env mapID es K" and "sized n (if sublist ''cp_'' p then 384 else 288) es"
  shows "\<forall>(key, v) \<in> set es. \<forall>k \<in> K. \<exists>k' \<in> K. visit_trie env mapID p key k =
    ((None, policy_lines (sublist ''cp_'' p) key v), k')"
proof (clarify)
  fix key v k assume e: "(key, v) \<in> set es" "k \<in> K"
  then have "length v = (if sublist ''cp_'' p then 384 else 288)" using assms(2) by (auto simp: sized_def)
  with quiet_read [OF assms(1) e, of 384] quiet_read [OF assms(1) e, of 288]
  show "\<exists>k' \<in> K. visit_trie env mapID p key k = ((None, policy_lines (sublist ''cp_'' p) key v), k')"
    by (auto simp: visit_trie_def dumpClusterPolicyEntry_def dumpNetworkPolicyEntry_def policy_lines_def)
qed

text \<open>A value that is longer than the struct it is read into.\<close>

lemma visit_overrun:
  assumes "quiet_map env mapID es K" and "es \<noteq> []" and "w < length (snd (hd es))"
  shows "\<forall>k \<in> K. \<exists>k' \<in> K. visit_value env mapID w failure shown (fst (hd es)) k = ((Some MemoryOverrun, []), k')"
    and "w = (if sublist ''cp_'' p then 384 else 288) \<Longrightarrow>
      \<forall>k \<in> K. \<exists>k' \<in> K. visit_trie env mapID p (fst (hd es)) k = ((Some MemoryOverrun, []), k')"
proof -
  have "\<exists>k' \<in> K. read_value env mapID (fst (hd es)) w k = (Inr None, k')" if "k \<in> K" for k
    using quiet_read [OF assms(1) _ that, of "fst (hd es)" "snd (hd es)" w] assms(2, 3) by simp
  then show "\<forall>k \<in> K. \<exists>k' \<in> K. visit_value env mapID w failure shown (fst (hd es)) k = ((Some MemoryOverrun, []), k')"
    and "w = (if sublist ''cp_'' p then 384 else 288) \<Longrightarrow>
      \<forall>k \<in> K. \<exists>k' \<in> K. visit_trie env mapID p (fst (hd es)) k = ((Some MemoryOverrun, []), k')"
    by (force simp: visit_value_def visit_trie_def dumpClusterPolicyEntry_def dumpNetworkPolicyEntry_def)+
qed

section \<open>What the tool shows\<close>

lemma MapWalk_trie:
  assumes q: "quiet_map env mapID es K" and info: "map_info_of env mapID k0 = (Inr info, k)" "k \<in> K"
    and ty: "mi_Type info = TYPE_LPM_TRIE env" and sz: "sized 8 (if sublist ''cp_'' p then 384 else 288) es"
  shows "\<exists>k'. MapWalk env mapID p k0 = Some (Returned None,
    if es = [] then [empty_text]
    else concat (map (\<lambda>(key, v). policy_lines (sublist ''cp_'' p) key v) es) @ [done_text], k')"
  using trie_walk.start_all [OF refl q info(2) sz visit_trie_quiet [OF q sz],
      of "Some empty_text" "''Unable to get First key: ''" "[]"]
  by (auto simp: MapWalk_def info(1) ty)

text \<open>The age of an entry is right to half a millisecond.\<close>

lemma Duration_Round_near:
  assumes "0 \<le> d" "d < 2 ^ 63 - 1000000"
  shows "\<bar>Duration_Round d 1000000 - d\<bar> \<le> 500000"
proof -
  have m: "0 \<le> d mod 1000000" "d mod 1000000 < 1000000" by simp_all
  have "d + 1000000 - d mod 1000000 < 2 ^ 63" "- (2 ^ 63) \<le> d + 1000000 - d mod 1000000" using assms m by linarith+
  then have "int64 (d + 1000000 - d mod 1000000) = d + 1000000 - d mod 1000000"
    by (simp add: int64_def signed_take_bit_int_eq_self)
  then show ?thesis using assms(1) m by (auto simp: Duration_Round_def Let_def)
qed

lemma formatLastSeen_age:
  assumes "0 < lastSeen" "lastSeen \<le> now" "uint now < 2 ^ 63 - 1000000"
  shows "\<exists>d. formatLastSeen lastSeen now = Duration_String d @ '' ago'' \<and> \<bar>d - (uint now - uint lastSeen)\<bar> \<le> 500000"
proof -
  have u: "uint (now - lastSeen) = uint now - uint lastSeen"
    using assms(2) by (simp add: uint_minus_simple_alt [symmetric])
  then have "uint (now - lastSeen) < 2 ^ 63" using assms(3) uint_ge_0 [of lastSeen] by linarith
  then have s: "sint (now - lastSeen) = uint now - uint lastSeen"
    using u uint_ge_0 [of "now - lastSeen"] by (simp add: sint_uint signed_take_bit_int_eq_self)
  have n: "0 < now" using assms(1, 2) by (rule less_le_trans)
  have "0 \<le> uint now - uint lastSeen" "uint now - uint lastSeen < 2 ^ 63 - 1000000"
    using u assms(3) uint_ge_0 [of "now - lastSeen"] uint_ge_0 [of lastSeen] by linarith+
  from Duration_Round_near [OF this] show ?thesis
    using assms(1, 2) n by (auto simp: formatLastSeen_def s intro!: exI)
qed

text \<open>A network and its entries as the tool prints them.\<close>

definition shown_net :: "IPNet \<times> BPFTrieVal list \<Rightarrow> string list" where
  "shown_net = (\<lambda>(n, vs). (''Key: '' @ IPNet_String n) #
     concat (map (\<lambda>i. policy_val_lines i (TrieVal (vs ! i))) [0..<length vs]) @ [star_line])"

text \<open>The 24 slots that belong to a network: the ports of the rules for it, without duplicates; one deny
  entry for an except; one entry that allows all for the node.\<close>

definition slots_of :: "Port list \<Rightarrow> BPFTrieVal list" where
  "slots_of ports = map port_entry (take 24 ports) @ replicate (24 - length ports) zero_trie_val"

definition shown_vals ::
  "FirewallRuleProcessor \<Rightarrow> EbpfFirewallRules list \<Rightarrow> IPNet \<Rightarrow> BPFTrieVal list \<Rightarrow> bool" where
  "shown_vals f rules n vs =
     (if n \<in> rule_nets f (active_rules f rules) then
        \<exists>ports. vs = slots_of ports \<and> ports \<noteq> [] \<and> distinct (map port_key ports) \<and>
          (\<forall>p \<in> set ports. port_for f (active_rules f rules) n p) \<and>
          (\<forall>p. port_for f (active_rules f rules) n p \<longrightarrow> port_key p \<in> port_key ` set ports)
      else if n \<in> except_nets (active_rules f rules) then vs = slots_of [denyAllL4Entry]
      else vs = allow_all_val # replicate 23 zero_trie_val)"

lemma slots_read:
  assumes "ports \<noteq> []"
  shows "map (read_trie_val (ComputeTrieValue ports False False)) [0..<24] = slots_of ports"
  by (rule nth_equalityI) (auto simp: slots_of_def nth_append read_ports_slot assms)

lemma allow_all_read: "map (read_trie_val (ComputeTrieValue [] True False)) [0..<24] = allow_all_val # replicate 23 zero_trie_val"
  by (rule nth_equalityI) (auto simp: nth_Cons' read_allow_all_slot)

lemma length_allow_all_value: "length (ComputeTrieValue [] True False) = TRIE_VALUE_LENGTH"
  by (simp add: ComputeTrieValue_allow_all TRIE_VALUE_LENGTH_def)

lemma shown_vals_entry:
  assumes "entry_spec f (active_rules f rules) nodeNet n (Some v)"
  shows "shown_vals f rules n (map (read_trie_val v) [0..<24])" and "length v = TRIE_VALUE_LENGTH"
  using assms slots_read [of "[denyAllL4Entry]"]
  by (auto simp: entry_spec_def shown_vals_def slots_read allow_all_read length_ComputeTrieValue length_allow_all_value
      split: if_splits)

lemma key_line_net:
  assumes n: "family_net f n" and v4: "\<not> fwrp_enableIPv6 f"
  shows "key_line (read_trie_key (trie_key f n)) = ''Key: '' @ IPNet_String n" and "length (trie_key f n) = 8"
proof -
  have l: "length (net_IP n) = 4" and c: "canon_net n" using n v4 by (auto simp: family_net_def in_family_def)
  have k: "trie_key f n = put_le32 (of_nat (net_ones n)) @ net_IP n"
    using n v4 by (intro ComputeTrieKey_family) (simp add: family_net_def)
  then show "length (trie_key f n) = 8" using l by simp
  show "key_line (read_trie_key (trie_key f n)) = ''Key: '' @ IPNet_String n"
    unfolding k IPNet_String_canon(1) [OF c]
    using l canon_net_ones_bound [OF c]
    by (simp add: key_line_def read_trie_key_def ConvIntToIPv4_def get_at_def u_text_def unat_of_nat_u32)
qed

lemma policy_lines_net:
  assumes "family_net f n" and "\<not> fwrp_enableIPv6 f"
  shows "policy_lines False (trie_key f n) v = shown_net (n, map (read_trie_val v) [0..<24])"
proof -
  have c: "map (\<lambda>i. policy_val_lines i (trie_vals v ! i)) [0..<24] =
      map (\<lambda>i. policy_val_lines i (TrieVal (map (read_trie_val v) [0..<24] ! i))) [0..<24]"
    by (rule map_cong) (auto simp: trie_vals_def)
  have "length (trie_vals v) = 24" by (simp add: trie_vals_def)
  then show ?thesis
    by (simp add: policy_lines_def printPolicyEntry_def shown_net_def key_line_net(1) [OF assms] c
        del: policy_val_lines.simps)
qed

text \<open>C36: What the tool prints for an IPv4 network policy map is the policy. While nobody changes the map the
  agent computed for valid rules, \<^verbatim>\<open>dump-maps\<close> ends without an error and prints one block for every network
  that has an entry, and no other: under the network's CIDR, the ports of the rules for it (the first 24),
  the deny entry of an except, or the entry of the node.\<close>
theorem dump_shows_policy:
  assumes os: "orders_ok os" and cfg: "fw_config f nodeNet" and val: "valid_rules f rules" and v4: "\<not> fwrp_enableIPv6 f"
    and m: "ComputeMapEntriesFromEndpointRules os f rules = Inr m"
    and q: "quiet_map env mapID es K" and es: "set es = set m"
    and info: "map_info_of env mapID k0 = (Inr info, k)" "k \<in> K" "mi_Type info = TYPE_LPM_TRIE env"
  shows "\<exists>blocks k'. MapWalk env mapID [] k0 = Some (Returned None, concat (map shown_net blocks) @ [done_text], k') \<and>
    distinct (map fst blocks) \<and> fst ` set blocks = {n. family_net f n \<and> has_entry f rules nodeNet n} \<and>
    (\<forall>(n, vs) \<in> set blocks. shown_vals f rules n vs)"
proof -
  have wf: "go_map_wf m" and keys: "fst ` set m \<subseteq> {trie_key f n |n. family_net f n}"
    and spec: "\<And>n. family_net f n \<Longrightarrow> entry_spec f (active_rules f rules) nodeNet n (map_of m (trie_key f n))"
    using map_entries [OF os cfg val] m by auto
  have "\<forall>key \<in> fst ` set es. \<exists>n. family_net f n \<and> key = trie_key f n" using keys es by auto
  then obtain net where net: "\<And>key v. (key, v) \<in> set es \<Longrightarrow> family_net f (net key) \<and> trie_key f (net key) = key"
    by (metis (no_types) bchoice fst_conv image_eqI)
  have entry: "entry_spec f (active_rules f rules) nodeNet (net key) (Some v)" if "(key, v) \<in> set es" for key v
    using spec [of "net key"] net [OF that] that es wf by (simp add: go_map_wf_def)
  have line: "policy_lines False key v = shown_net (net key, map (read_trie_val v) [0..<24])" if "(key, v) \<in> set es" for key v
    using policy_lines_net [OF _ v4, of "net key" v] net [OF that] by simp
  have sz: "sized 8 288 es"
    using shown_vals_entry(2) [OF entry] key_line_net(2) [OF _ v4] net by (fastforce simp: sized_def TRIE_VALUE_LENGTH_def)
  have has: "has_entry f rules nodeNet n \<longleftrightarrow> (\<exists>v. (trie_key f n, v) \<in> set es)" if "family_net f n" for n
    using entry_spec_None [OF spec [OF that]] es wf by (auto simp: go_map_wf_def)
  have "family_net f nodeNet" using cfg by (simp add: fw_config_def)
  then have ne: "es \<noteq> []" using has [of nodeNet] by (auto simp: has_entry_def)
  let ?blocks = "map (\<lambda>(key, v). (net key, map (read_trie_val v) [0..<24])) es"
  have lines: "map (\<lambda>(key, v). policy_lines False key v) es = map shown_net ?blocks" using line by auto
  have "\<exists>k'. MapWalk env mapID [] k0 =
      Some (Returned None, concat (map (\<lambda>(key, v). policy_lines False key v) es) @ [done_text], k')"
    using MapWalk_trie [OF q info, of "[]"] sz ne by simp
  then have "\<exists>k'. MapWalk env mapID [] k0 = Some (Returned None, concat (map shown_net ?blocks) @ [done_text], k')"
    unfolding lines .
  moreover have "distinct (map fst ?blocks)"
  proof -
    have "inj_on net (fst ` set es)" by (rule inj_on_inverseI [where g = "trie_key f"]) (use net in auto)
    then show ?thesis using quiet_mapD(1) [OF q]
      by (simp add: go_map_wf_def distinct_map split_def comp_def inj_on_def)
  qed
  moreover have "fst ` set ?blocks = {n. family_net f n \<and> has_entry f rules nodeNet n}"
  proof (intro set_eqI iffI)
    fix n assume "n \<in> {n. family_net f n \<and> has_entry f rules nodeNet n}"
    then obtain v where n: "family_net f n" "(trie_key f n, v) \<in> set es" using has by auto
    then have "net (trie_key f n) = n" using net [OF n(2)] trie_key_inject by blast
    with n(2) show "n \<in> fst ` set ?blocks" by force
  qed (use net has in force)
  moreover have "\<forall>(n, vs) \<in> set ?blocks. shown_vals f rules n vs" using shown_vals_entry(1) [OF entry] by auto
  ultimately show ?thesis by (intro exI [of _ ?blocks]) blast
qed

text \<open>A kernel with one map that nobody changes.\<close>

fun key_after :: "byte list \<Rightarrow> (byte list, byte list) go_map \<Rightarrow> errno + byte list" where
  "key_after key ((a, v) # (b, w) # es) = (if a = key then Inr b else key_after key ((b, w) # es))"
| "key_after key _ = Inl ENOENT"

definition list_cli :: "map_info \<Rightarrow> (byte list, byte list) go_map \<Rightarrow> unit cli_env" where
  "list_cli info es =
     \<lparr>cli_GetMapFDFromID = (\<lambda>_ k. (Inr 3, k)), cli_GetBPFmapInfo = (\<lambda>_ k. (Inr info, k)), cli_Close = (\<lambda>_ k. k),
      cli_GetFirst = (\<lambda>_ k. (if es = [] then Inl ENOENT else Inr (fst (hd es)), k)),
      cli_GetNext = (\<lambda>_ key k. (key_after key es, k)),
      cli_GetEntry = (\<lambda>_ key k. (case map_of es key of None \<Rightarrow> Inl ENOENT | Some v \<Rightarrow> Inr v, k)),
      cli_ClockGettime = (\<lambda>k. (Inr (100, 0), k)), BpfGetAllProgramInfo = (\<lambda>k. (Inr [], k)),
      BpfGetAllMapInfo = (\<lambda>k. (Inr [info], k)), GetAllBpfProgramsAndMaps = (\<lambda>k. (Inr [], k)),
      err_text = (\<lambda>e. case e of ENOENT \<Rightarrow> ''no such file or directory'' | Errno t \<Rightarrow> t),
      TYPE_LPM_TRIE = 11, TYPE_LRU_HASH = 9, TYPE_HASH = 1, ord_state = id, ord_state_maps = id\<rparr>"

definition example_info :: "u32 \<Rightarrow> map_info" where
  "example_info t = \<lparr>mi_Type = t, mi_Id = 7, mi_KeySize = 8, mi_ValueSize = 288, mi_MaxEntries = 65536, mi_Name = []\<rparr>"

lemma key_after_skip:
  "key \<notin> fst ` set pre \<Longrightarrow> es \<noteq> [] \<Longrightarrow> key_after key (pre @ es) = key_after key es"
proof (induction pre)
  case (Cons e pre)
  then show ?case by (cases e; cases "pre @ es") auto
qed simp

lemma chained_list:
  "distinct (map fst (pre @ es)) \<Longrightarrow> chained (\<lambda>key k. (key_after key (pre @ es), k :: 'k)) UNIV es"
proof (induction es arbitrary: pre)
  case (Cons e es)
  obtain key v where e: "e = (key, v)" by (cases e)
  have k: "key_after key (pre @ e # es) = key_after key (e # es)"
    using Cons.prems by (intro key_after_skip) (auto simp: e)
  have "chained (\<lambda>key k. (key_after key (pre @ e # es), k :: 'k)) UNIV es" using Cons.IH [of "pre @ [e]"] Cons.prems by simp
  then show ?case using k by (cases es) (auto simp: e)
qed simp

lemma list_cli_quiet: "go_map_wf es \<Longrightarrow> quiet_map (list_cli info es) mapID es UNIV"
  using chained_list [of "[]" es]
  by (auto simp: quiet_map_def list_cli_def go_map_wf_def split: option.splits)

lemma list_cli_info:
  "0 < mapID \<Longrightarrow> mi_Type info \<in> {11, 9, 1} \<Longrightarrow> map_info_of (list_cli info es) mapID k = (Inr info, k)"
  by (auto simp: map_info_of_def list_cli_def)

theorem dump_shows_policy_witness:
  "\<exists>m out. ComputeMapEntriesFromEndpointRules example_orders example_processor example_rules = Inr m \<and>
     MapWalk (list_cli (example_info 11) m) 7 [] () = Some (Returned None, out, ()) \<and>
     ''Key: 10.1.2.0/24'' \<in> set out"
proof -
  let ?n = "\<lparr>net_IP = [10, 1, 2, 0], net_Mask = [255, 255, 255, 0]\<rparr>"
  obtain m where m: "ComputeMapEntriesFromEndpointRules example_orders example_processor example_rules = Inr m" "go_map_wf m"
    using map_entries [OF example_ok(1) example_config example_ok(3)] by blast
  have v4: "\<not> fwrp_enableIPv6 example_processor" by (simp add: example_processor_def)
  have i: "map_info_of (list_cli (example_info 11) m) 7 () = (Inr (example_info 11), ())"
    by (rule list_cli_info) (simp_all add: example_info_def)
  have t: "mi_Type (example_info 11) = TYPE_LPM_TRIE (list_cli (example_info 11) m)"
    by (simp add: example_info_def list_cli_def)
  obtain blocks where b: "MapWalk (list_cli (example_info 11) m) 7 [] () = Some (Returned None, concat (map shown_net blocks) @ [done_text], ())"
    "fst ` set blocks = {n. family_net example_processor n \<and> has_entry example_processor example_rules example_node n}"
    using dump_shows_policy [OF example_ok(1) example_config example_ok(3) v4 m(1) list_cli_quiet [OF m(2)] refl i UNIV_I t] by auto
  have "list_ex (\<lambda>r. list_ex (\<lambda>e. except_net e = Some ?n) (fr_Except r)) (active_rules example_processor example_rules)"
    "family_net example_processor ?n" by code_simp+
  then have "?n \<in> except_nets (active_rules example_processor example_rules)" "family_net example_processor ?n"
    by (auto simp: except_nets_def list_ex_iff)
  then have "?n \<in> fst ` set blocks" by (simp add: b(2) has_entry_def)
  then obtain vs where vs: "(?n, vs) \<in> set blocks" by auto
  have "IPNet_String ?n = ''10.1.2.0/24''" by code_simp
  then have "''Key: 10.1.2.0/24'' \<in> set (shown_net (?n, vs))" by (simp add: shown_net_def)
  with vs have "''Key: 10.1.2.0/24'' \<in> set (concat (map shown_net blocks) @ [done_text])" by fastforce
  with m(1) b(1) show ?thesis by blast
qed

text \<open>What a walk prints: the text for an empty map, or the lines of all entries and the final text.\<close>

definition dump_lines :: "string \<Rightarrow> (byte list \<Rightarrow> byte list \<Rightarrow> string list) \<Rightarrow> string \<Rightarrow> (byte list, byte list) go_map \<Rightarrow> string list" where
  "dump_lines on_empty shown on_end es =
     (if es = [] then [on_empty] else concat (map (\<lambda>(key, v). shown key v) es) @ [on_end])"

lemma MapWalk_others:
  assumes q: "quiet_map env mapID es K" and info: "map_info_of env mapID k0 = (Inr info, k)"
    and types: "distinct [TYPE_LPM_TRIE env, TYPE_LRU_HASH env, TYPE_HASH env]"
  shows "\<lbrakk>mi_Type info = TYPE_LRU_HASH env; dump_clock env k = ((now, warn), k1); k1 \<in> K; sized 24 16 es\<rbrakk> \<Longrightarrow>
      \<exists>k'. MapWalk env mapID p k0 =
        Some (Returned None, warn @ dump_lines empty_text (\<lambda>key v. conntrack_lines key v now) done_text es, k')"
    and "\<lbrakk>mi_Type info = TYPE_HASH env; k \<in> K; sized 4 1 es\<rbrakk> \<Longrightarrow>
      \<exists>k'. MapWalk env mapID p k0 =
        Some (Returned None, dump_lines ''No entries found, empty HASH map (pod_state_map?)''
          (\<lambda>key v. pod_state_lines key \<lparr>ps_State = v ! 0\<rparr>) ''Done reading all entries in BPF_MAP_TYPE_HASH'' es, k')"
proof -
  assume a: "mi_Type info = TYPE_LRU_HASH env" "dump_clock env k = ((now, warn), k1)" "k1 \<in> K" "sized 24 16 es"
  show "\<exists>k'. MapWalk env mapID p k0 =
      Some (Returned None, warn @ dump_lines empty_text (\<lambda>key v. conntrack_lines key v now) done_text es, k')"
    using conntrack_walk.start_all [where now = now, OF refl q a(3, 4) visit_value_quiet [OF q a(4)],
        of "Some empty_text" "''Unable to get First key: ''" warn] types a(1)
    by (auto simp: MapWalk_def info a(2) dump_lines_def)
next
  assume a: "mi_Type info = TYPE_HASH env" "k \<in> K" "sized 4 1 es"
  show "\<exists>k'. MapWalk env mapID p k0 =
        Some (Returned None, dump_lines ''No entries found, empty HASH map (pod_state_map?)''
          (\<lambda>key v. pod_state_lines key \<lparr>ps_State = v ! 0\<rparr>) ''Done reading all entries in BPF_MAP_TYPE_HASH'' es, k')"
    using pod_state_walk.start_all [OF refl q a(2, 3) visit_value_quiet [OF q a(3)],
        of "Some ''No entries found, empty HASH map (pod_state_map?)''" "''unable to get first key (HASH): ''" "[]"] types a(1)
    by (auto simp: MapWalk_def info dump_lines_def)
qed

text \<open>The IPv6 walks treat an empty map as an error.\<close>

lemma MapWalkv6_quiet:
  assumes q: "quiet_map env mapID es K" and info: "map_info_of env mapID k0 = (Inr info, k)"
    and types: "distinct [TYPE_LPM_TRIE env, TYPE_LRU_HASH env, TYPE_HASH env]" and es: "es \<noteq> []"
  shows "\<lbrakk>mi_Type info = TYPE_LPM_TRIE env; k \<in> K; sized 20 288 es\<rbrakk> \<Longrightarrow>
      \<exists>k'. MapWalkv6 env mapID k0 =
        Some (Returned None, walking_line info mapID # dump_lines [] trie_v6_lines done_text es, k')"
    and "\<lbrakk>mi_Type info = TYPE_LRU_HASH env; dump_clock env k = ((now, warn), k1); k1 \<in> K; sized 60 16 es\<rbrakk> \<Longrightarrow>
      \<exists>k'. MapWalkv6 env mapID k0 =
        Some (Returned None, walking_line info mapID # warn @ dump_lines [] (\<lambda>key v. conntrack_v6_lines key v now) done_text es, k')"
proof -
  assume a: "mi_Type info = TYPE_LPM_TRIE env" "k \<in> K" "sized 20 288 es"
  show "\<exists>k'. MapWalkv6 env mapID k0 =
      Some (Returned None, walking_line info mapID # dump_lines [] trie_v6_lines done_text es, k')"
    using trie_v6_walk.start_all [OF refl q a(2, 3) visit_value_quiet [OF q a(3)],
        of None "''Unable to get First key: ''" "[walking_line info mapID]"] a(1) es
    by (auto simp: MapWalkv6_def info dump_lines_def)
next
  assume a: "mi_Type info = TYPE_LRU_HASH env" "dump_clock env k = ((now, warn), k1)" "k1 \<in> K" "sized 60 16 es"
  show "\<exists>k'. MapWalkv6 env mapID k0 =
      Some (Returned None, walking_line info mapID # warn @ dump_lines [] (\<lambda>key v. conntrack_v6_lines key v now) done_text es, k')"
    using conntrack_v6_walk.start_all [where now = now, OF refl q a(3, 4) visit_value_quiet [OF q a(4)],
        of None "''Unable to get First key: ''" "walking_line info mapID # warn"] types a(1) es
    by (auto simp: MapWalkv6_def info a(2) dump_lines_def)
qed

text \<open>C37: The tool prints every entry once, in the kernel's order, and ends: for a map with at least one entry that
  nobody changes, whose keys and values have the sizes the tool's structs have. This covers the cluster policy, conntrack and pod
  state maps of the IPv4 tool and the network policy and conntrack maps of the IPv6 tool.\<close>
theorem dumps_complete:
  assumes q: "quiet_map env mapID es K" and info: "map_info_of env mapID k0 = (Inr info, k)" "k \<in> K"
    and types: "distinct [TYPE_LPM_TRIE env, TYPE_LRU_HASH env, TYPE_HASH env]"
    and clock: "dump_clock env k = ((now, warn), k1)" "k1 \<in> K" and es: "es \<noteq> []"
  shows "(mi_Type info = TYPE_LPM_TRIE env \<and> sized 8 384 es \<longrightarrow>
      (\<exists>k'. MapWalkCP env mapID k0 = Some (Returned None, dump_lines [] (policy_lines True) done_text es, k'))) \<and>
    (mi_Type info = TYPE_LPM_TRIE env \<and> sized 20 288 es \<longrightarrow>
      (\<exists>k'. MapWalkv6 env mapID k0 = Some (Returned None, walking_line info mapID # dump_lines [] trie_v6_lines done_text es, k'))) \<and>
    (mi_Type info = TYPE_LRU_HASH env \<and> sized 24 16 es \<longrightarrow>
      (\<exists>k'. MapWalk env mapID [] k0 =
         Some (Returned None, warn @ dump_lines [] (\<lambda>key v. conntrack_lines key v now) done_text es, k'))) \<and>
    (mi_Type info = TYPE_LRU_HASH env \<and> sized 60 16 es \<longrightarrow>
      (\<exists>k'. MapWalkv6 env mapID k0 = Some (Returned None,
         walking_line info mapID # warn @ dump_lines [] (\<lambda>key v. conntrack_v6_lines key v now) done_text es, k'))) \<and>
    (mi_Type info = TYPE_HASH env \<and> sized 4 1 es \<longrightarrow>
      (\<exists>k'. MapWalk env mapID [] k0 = Some (Returned None,
         dump_lines [] (\<lambda>key v. pod_state_lines key \<lparr>ps_State = v ! 0\<rparr>) ''Done reading all entries in BPF_MAP_TYPE_HASH'' es, k')))"
proof -
  have "dump_lines a sh b es = dump_lines [] sh b es" for a sh b using es by (simp add: dump_lines_def)
  note d = this and o = MapWalk_others [OF q info(1) types] and v6 = MapWalkv6_quiet [OF q info(1) types es]
  have "\<exists>k'. MapWalkCP env mapID k0 = Some (Returned None, dump_lines [] (policy_lines True) done_text es, k')"
    if "mi_Type info = TYPE_LPM_TRIE env" "sized 8 384 es"
    using MapWalk_trie [OF q info that(1), of "''cp_''"] that(2) es by (simp add: MapWalkCP_def dump_lines_def)
  with o(1) [OF _ clock, where p = "[]", unfolded d [of empty_text]] o(2) [OF _ info(2), where p = "[]", unfolded d [of "''No entries found, empty HASH map (pod_state_map?)''"]]
    v6(1) [OF _ info(2)] v6(2) [OF _ clock]
  show ?thesis by (intro conjI impI; elim conjE) assumption
qed

theorem dumps_complete_witness:
  "MapWalk (list_cli (example_info 1) [([0, 0, 0, 0], [2]), ([1, 0, 0, 0], [0])]) 7 [] () =
     Some (Returned None, [''Key :  0'', ''State -  2'', star_line, ''Key :  1'', ''State -  0'', star_line,
       ''Done reading all entries in BPF_MAP_TYPE_HASH''], ())"
proof -
  let ?es = "[([0, 0, 0, 0], [2]), ([1, 0, 0, 0], [0])] :: (byte list, byte list) go_map"
  let ?env = "list_cli (example_info 1) ?es"
  have q: "quiet_map ?env 7 ?es UNIV" by (rule list_cli_quiet) (simp add: go_map_wf_def)
  have i: "map_info_of ?env 7 () = (Inr (example_info 1), ())" by (rule list_cli_info) (simp_all add: example_info_def)
  have t: "distinct [TYPE_LPM_TRIE ?env, TYPE_LRU_HASH ?env, TYPE_HASH ?env]" "mi_Type (example_info 1) = TYPE_HASH ?env"
    by (simp_all add: list_cli_def example_info_def)
  have c: "dump_clock ?env () = ((word_of_int (100 * 1000000000 + 0), []), ())"
    unfolding dump_clock_def by (simp add: list_cli_def)
  have "dump_lines [] (\<lambda>key v. pod_state_lines key \<lparr>ps_State = v ! 0\<rparr>) ''Done reading all entries in BPF_MAP_TYPE_HASH'' ?es =
      [''Key :  0'', ''State -  2'', star_line, ''Key :  1'', ''State -  0'', star_line, ''Done reading all entries in BPF_MAP_TYPE_HASH'']"
    by code_simp
  then show ?thesis
    using dumps_complete [OF q i UNIV_I t(1) c UNIV_I] t(2) by (simp add: sized_def)
qed

text \<open>C38: The plain \<^verbatim>\<open>dump-maps\<close> command must not be used on a cluster policy map: on one that the agent
  filled, the first value the kernel returns is 384 bytes long and goes into an array of 288 bytes, so memory
  behind the array is overwritten, in the IPv4 and in the IPv6 tool.\<close>
theorem cluster_map_dump_overruns:
  assumes m: "ComputeClusterPolicyMapEntriesFromEndpointRules os f rules = Inr m"
    and q: "quiet_map env mapID es K" and es: "set es = set m"
    and info: "map_info_of env mapID k0 = (Inr info, k)" "k \<in> K" "mi_Type info = TYPE_LPM_TRIE env"
  shows "\<exists>k'. if fwrp_enableIPv6 f then MapWalkv6 env mapID k0 = Some (MemoryOverrun, [walking_line info mapID], k')
    else MapWalk env mapID [] k0 = Some (MemoryOverrun, [], k')"
proof -
  have ne: "es \<noteq> []" using cp_entries_sized(2) [OF m] es by auto
  then have "hd es \<in> set m" using es by (cases es) auto
  then have l: "length (fst (hd es)) = (if fwrp_enableIPv6 f then 20 else 8)" "288 < length (snd (hd es))"
    using cp_entries_sized(1) [OF m]
    by (force simp: sized_def key_size_def TRIE_V6_KEY_LENGTH_def TRIE_KEY_LENGTH_def ADMIN_TRIE_VALUE_LENGTH_def)+
  show ?thesis
  proof (cases "fwrp_enableIPv6 f")
    case True
    with l(1) have n: "length (fst (hd es)) = 20" by simp
    show ?thesis
      using trie_v6_walk.start_ends [OF q info(2) ne n visit_overrun(1) [OF q ne l(2)], of None "''Unable to get First key: ''" "[walking_line info mapID]"] True
      by (auto simp: MapWalkv6_def info)
  next
    case False
    with l(1) have n: "length (fst (hd es)) = 8" by simp
    have "\<forall>k \<in> K. \<exists>k' \<in> K. visit_trie env mapID [] (fst (hd es)) k = ((Some MemoryOverrun, []), k')"
      by (rule visit_overrun(2) [OF q ne l(2)]) simp
    from trie_walk.start_ends [OF q info(2) ne n this, of "Some empty_text" "''Unable to get First key: ''" "[]"] False
    show ?thesis by (auto simp: MapWalk_def info)
  qed
qed

theorem cluster_map_dump_overruns_witness:
  "\<exists>m. ComputeClusterPolicyMapEntriesFromEndpointRules \<lparr>ord_cp_cidrs = id, ord_cp_rules = \<lambda>_. id\<rparr> example_processor [] = Inr m \<and>
     MapWalk (list_cli (example_info 11) m) 7 [] () = Some (MemoryOverrun, [], ())"
proof -
  let ?c = "ComputeClusterPolicyMapEntriesFromEndpointRules \<lparr>ord_cp_cidrs = id, ord_cp_rules = \<lambda>_. id\<rparr> example_processor []"
  have "case ?c of Inl _ \<Rightarrow> False | Inr m \<Rightarrow> go_map_wf m" by code_simp
  then obtain m where m: "?c = Inr m" "go_map_wf m" by (auto split: sum.splits)
  have i: "map_info_of (list_cli (example_info 11) m) 7 () = (Inr (example_info 11), ())"
    by (rule list_cli_info) (simp_all add: example_info_def)
  have t: "mi_Type (example_info 11) = TYPE_LPM_TRIE (list_cli (example_info 11) m)"
    by (simp add: example_info_def list_cli_def)
  show ?thesis
    using cluster_map_dump_overruns [OF m(1) list_cli_quiet [OF m(2)] refl i UNIV_I t] m(1)
    by (simp add: example_processor_def)
qed

end
