(* ===== verification/HostFs.thy ===== *)
theory HostFs
  imports Utils
begin

text \<open>
  \<^verbatim>\<open>pkg/utils/cp/cp.go\<close>: the installation of the agent's binaries on the host, and the part of
  Go's \<^verbatim>\<open>os\<close> package that it, the start of the eBPF client and the migration of pins use. The file
  system is a map from paths to nodes. Any call may fail for a reason of the host: which ones do is
  the parameter \<open>os_faults\<close>, and a failing copy or read may have done part of its work. The lemmas
  show that a host binary is only ever replaced as a whole.
\<close>

section \<open>The file system\<close>

record node =
  regular :: bool
  file_mode :: nat
  file_data :: "byte list"

type_synonym fs = "string \<rightharpoonup> node"

datatype os_error = ErrNotExist | OsError string

datatype os_call =
    StatCall string
  | OpenCall string
  | CreateCall string
  | RenameCall string string
  | ChmodCall string
  | MkdirAllCall string

text \<open>\<open>readFault\<close> and \<open>copyFault\<close> say after how many bytes reading or copying breaks off;
  \<open>createMode\<close> is the mode of a newly created file.\<close>

record os_faults =
  callFault :: "os_call \<Rightarrow> fs \<Rightarrow> string option"
  readFault :: "string \<Rightarrow> fs \<Rightarrow> (nat \<times> string) option"
  writeFault :: "string \<Rightarrow> fs \<Rightarrow> (nat \<times> string) option"
  createMode :: nat

definition no_faults :: os_faults where
  "no_faults = \<lparr>callFault = (\<lambda>_ _. None), readFault = (\<lambda>_ _. None), writeFault = (\<lambda>_ _. None), createMode = 420\<rparr>"

fun err_string :: "os_error \<Rightarrow> string" where
  "err_string ErrNotExist = ''file does not exist''"
| "err_string (OsError e) = e"

definition existing :: "os_faults \<Rightarrow> os_call \<Rightarrow> string \<Rightarrow> fs \<Rightarrow> os_error + node" where
  "existing F c p f =
     (case callFault F c f of
        Some e \<Rightarrow> Inl (OsError e)
      | None \<Rightarrow> (case f p of None \<Rightarrow> Inl ErrNotExist | Some n \<Rightarrow> Inr n))"

definition os_Stat :: "os_faults \<Rightarrow> string \<Rightarrow> fs \<Rightarrow> os_error + node" where
  "os_Stat F p f = existing F (StatCall p) p f"

definition os_Open :: "os_faults \<Rightarrow> string \<Rightarrow> fs \<Rightarrow> os_error + node" where
  "os_Open F p f = existing F (OpenCall p) p f"

text \<open>The bytes that were read are returned with the error; a nil slice is \<open>None\<close>.\<close>

definition os_ReadFile :: "os_faults \<Rightarrow> string \<Rightarrow> fs \<Rightarrow> byte list option \<times> os_error option" where
  "os_ReadFile F p f =
     (case os_Open F p f of
        Inl e \<Rightarrow> (None, Some e)
      | Inr n \<Rightarrow> (case readFault F p f of
                   None \<Rightarrow> (Some (file_data n), None)
                 | Some (k, e) \<Rightarrow> (Some (take k (file_data n)), Some (OsError e))))"

text \<open>An existing file is truncated and keeps its mode.\<close>

definition os_Create :: "os_faults \<Rightarrow> string \<Rightarrow> fs \<Rightarrow> os_error option \<times> fs" where
  "os_Create F p f =
     (case callFault F (CreateCall p) f of
        Some e \<Rightarrow> (Some (OsError e), f)
      | None \<Rightarrow> (None, f(p \<mapsto> (case f p of
                     None \<Rightarrow> \<lparr>regular = True, file_mode = createMode F, file_data = []\<rparr>
                   | Some n \<Rightarrow> n\<lparr>file_data := []\<rparr>))))"

definition write_data :: "string \<Rightarrow> byte list \<Rightarrow> fs \<Rightarrow> fs" where
  "write_data p bs f = f(p := map_option (\<lambda>n. n\<lparr>file_data := file_data n @ bs\<rparr>) (f p))"

text \<open>Appends to the file just created; may break off after some bytes.\<close>

definition os_write :: "os_faults \<Rightarrow> string \<Rightarrow> byte list \<Rightarrow> fs \<Rightarrow> os_error option \<times> fs" where
  "os_write F p bs f =
     (case writeFault F p f of
        None \<Rightarrow> (None, write_data p bs f)
      | Some (k, e) \<Rightarrow> (Some (OsError e), write_data p (take k bs) f))"

definition os_WriteFile :: "os_faults \<Rightarrow> string \<Rightarrow> byte list \<Rightarrow> fs \<Rightarrow> os_error option \<times> fs" where
  "os_WriteFile F p bs f =
     (case os_Create F p f of
        (Some e, f1) \<Rightarrow> (Some e, f1)
      | (None, f1) \<Rightarrow> os_write F p bs f1)"

definition os_Rename :: "os_faults \<Rightarrow> string \<Rightarrow> string \<Rightarrow> fs \<Rightarrow> os_error option \<times> fs" where
  "os_Rename F src dst f =
     (case existing F (RenameCall src dst) src f of
        Inl e \<Rightarrow> (Some e, f)
      | Inr n \<Rightarrow> (None, if src = dst then f else f(src := None, dst \<mapsto> n)))"

definition os_Chmod :: "os_faults \<Rightarrow> string \<Rightarrow> nat \<Rightarrow> fs \<Rightarrow> os_error option \<times> fs" where
  "os_Chmod F p mode f =
     (case existing F (ChmodCall p) p f of
        Inl e \<Rightarrow> (Some e, f)
      | Inr n \<Rightarrow> (None, f(p \<mapsto> n\<lparr>file_mode := mode\<rparr>)))"

text \<open>Directories are not nodes of the model, so making one changes nothing.\<close>

definition os_MkdirAll :: "os_faults \<Rightarrow> string \<Rightarrow> fs \<Rightarrow> os_error option" where
  "os_MkdirAll F p f = map_option OsError (callFault F (MkdirAllCall p) f)"

lemmas os_defs = os_Stat_def os_Open_def os_ReadFile_def os_Create_def os_write_def os_WriteFile_def os_Rename_def
  os_Chmod_def os_MkdirAll_def existing_def write_data_def

lemma no_faults_simps [simp]:
  "callFault no_faults c f = None" "readFault no_faults p f = None" "writeFault no_faults p f = None"
  by (simp_all add: no_faults_def)

section \<open>Installing the binaries\<close>

definition EKS_CLI_BINARY :: string where "EKS_CLI_BINARY = ''aws-eks-na-cli''"
definition EKS_V6_CLI_BINARY :: string where "EKS_V6_CLI_BINARY = ''aws-eks-na-cli-v6''"

definition cp :: "os_faults \<Rightarrow> string \<Rightarrow> string \<Rightarrow> fs \<Rightarrow> string option \<times> fs" where
  "cp F src dst f =
     (case os_Stat F src f of
        Inl e \<Rightarrow> (Some (err_string e), f)
      | Inr sourceFileStat \<Rightarrow>
          if \<not> regular sourceFileStat then (Some (src @ '' is not a regular file''), f)
          else (case os_Open F src f of
                  Inl e \<Rightarrow> (Some (err_string e), f)
                | Inr _ \<Rightarrow>
                    (case os_Create F dst f of
                       (Some e, f1) \<Rightarrow> (Some (err_string e), f1)
                     | (None, f1) \<Rightarrow>
                         (case os_write F dst (case f1 src of None \<Rightarrow> [] | Some n \<Rightarrow> file_data n) f1 of
                            (e, f2) \<Rightarrow> (map_option err_string e, f2)))))"

definition CopyFile :: "os_faults \<Rightarrow> string \<Rightarrow> string \<Rightarrow> fs \<Rightarrow> string option \<times> fs" where
  "CopyFile F src dst f =
     (let dstTmp = dst @ ''.tmp''
      in case cp F src dstTmp f of
           (Some e, f1) \<Rightarrow> (Some (''failed to copy file: '' @ e), f1)
         | (None, f1) \<Rightarrow>
             (case os_Rename F dstTmp dst f1 of
                (Some e, f2) \<Rightarrow> (Some (''failed to rename file: '' @ err_string e), f2)
              | (None, f2) \<Rightarrow>
                  (case os_Stat F src f2 of
                     Inl e \<Rightarrow> (Some (''failed to stat file: '' @ err_string e), f2)
                   | Inr si \<Rightarrow>
                       (case os_Chmod F dst (file_mode si) f2 of
                          (Some e, f3) \<Rightarrow> (Some (''failed to chmod file: '' @ err_string e), f3)
                        | (None, f3) \<Rightarrow> (None, f3)))))"

text \<open>Failures are logged only.\<close>

definition target_of :: "string \<Rightarrow> string \<Rightarrow> string" where
  "target_of hostCNIBinPath plugin = hostCNIBinPath @ (if plugin = EKS_V6_CLI_BINARY then EKS_CLI_BINARY else plugin)"

definition InstallBPFBinaries :: "os_faults \<Rightarrow> string list \<Rightarrow> string \<Rightarrow> fs \<Rightarrow> fs" where
  "InstallBPFBinaries F pluginBins hostCNIBinPath f =
     fold (\<lambda>plugin f. snd (CopyFile F plugin (target_of hostCNIBinPath plugin) f)) pluginBins f"

section \<open>A binary is replaced as a whole\<close>

text \<open>What a copy of the file at \<open>src\<close> may leave at \<open>dst\<close>: what was there, or the whole file.\<close>

definition whole_copy :: "string \<Rightarrow> string \<Rightarrow> fs \<Rightarrow> fs \<Rightarrow> bool" where
  "whole_copy src dst f f' \<longleftrightarrow> f' dst = f dst \<or>
     (\<exists>n n'. f src = Some n \<and> f' dst = Some n' \<and> file_data n' = file_data n)"

lemma os_Create_other: "os_Create F p f = (r, f') \<Longrightarrow> q \<noteq> p \<Longrightarrow> f' q = f q"
  by (auto simp: os_Create_def split: option.splits)

lemma os_write_other: "os_write F p bs f = (r, f') \<Longrightarrow> q \<noteq> p \<Longrightarrow> f' q = f q"
  by (auto simp: os_write_def write_data_def split: option.splits prod.splits)

lemma cp_spec:
  assumes "cp F src dst f = (r, f')" "src \<noteq> dst"
  shows "(\<forall>q. q \<noteq> dst \<longrightarrow> f' q = f q) \<and>
    (r = None \<longrightarrow> (\<exists>n n'. f src = Some n \<and> regular n \<and> f' dst = Some n' \<and> file_data n' = file_data n))"
proof -
  have "\<forall>q. q \<noteq> dst \<longrightarrow> f' q = f q"
    using assms(1) os_Create_other os_write_other
    by (auto simp: cp_def split: sum.splits prod.splits option.splits if_splits; metis)
  moreover have "\<exists>n n'. f src = Some n \<and> regular n \<and> f' dst = Some n' \<and> file_data n' = file_data n" if "r = None"
    using assms that
    by (auto simp: cp_def os_defs split: sum.splits prod.splits option.splits if_splits)
  ultimately show ?thesis by blast
qed

lemma CopyFile_spec:
  assumes "CopyFile F src dst f = (r, f')" "src \<noteq> dst" "src \<noteq> dst @ ''.tmp''"
  shows "(\<forall>q. q \<noteq> dst \<longrightarrow> q \<noteq> dst @ ''.tmp'' \<longrightarrow> f' q = f q) \<and> whole_copy src dst f f' \<and>
    (r = None \<longrightarrow> (\<exists>n n'. f src = Some n \<and> f' dst = Some n' \<and> file_data n' = file_data n \<and> file_mode n' = file_mode n))"
proof -
  obtain r1 f1 where c: "cp F src (dst @ ''.tmp'') f = (r1, f1)" by force
  note s = cp_spec [OF c assms(3)]
  show ?thesis
  proof (cases r1)
    case (Some e)
    with assms(1) c have "f' = f1" "r \<noteq> None" by (auto simp: CopyFile_def Let_def)
    with s show ?thesis by (auto simp: whole_copy_def)
  next
    case None
    with s obtain n n' where n: "f src = Some n" "f1 (dst @ ''.tmp'') = Some n'" "file_data n' = file_data n" by blast
    from s assms(3) n(1) have "f1 src = Some n" by metis
    with assms c None s n show ?thesis
      by (auto simp: CopyFile_def Let_def os_defs whole_copy_def split: option.splits if_splits)
  qed
qed

lemma CopyFile_no_faults:
  assumes "f src = Some n" "regular n" "src \<noteq> dst" "src \<noteq> dst @ ''.tmp''"
  shows "fst (CopyFile no_faults src dst f) = None"
  using assms by (simp add: CopyFile_def cp_def os_defs Let_def)

text \<open>The binaries the agent installs and where: different targets, none of them a source or the
  temporary file of another, which holds for file names without a path and a directory.\<close>

definition separate :: "string list \<Rightarrow> string \<Rightarrow> bool" where
  "separate pluginBins host \<longleftrightarrow> distinct (map (target_of host) pluginBins) \<and>
     (\<forall>p \<in> set pluginBins. \<forall>q \<in> set pluginBins.
        p \<noteq> target_of host q \<and> p \<noteq> target_of host q @ ''.tmp'' \<and> target_of host p \<noteq> target_of host q @ ''.tmp'')"

lemma install_append:
  "InstallBPFBinaries F (bins @ [p]) host f = snd (CopyFile F p (target_of host p) (InstallBPFBinaries F bins host f))"
  by (simp add: InstallBPFBinaries_def)

lemma install_others:
  assumes "separate all host" "set bins \<subseteq> set all"
    and "\<And>p. p \<in> set bins \<Longrightarrow> q \<noteq> target_of host p \<and> q \<noteq> target_of host p @ ''.tmp''"
  shows "InstallBPFBinaries F bins host f q = f q"
  using assms(2, 3)
proof (induction bins rule: rev_induct)
  case (snoc p ps)
  let ?f = "InstallBPFBinaries F ps host f"
  obtain r f' where c: "CopyFile F p (target_of host p) ?f = (r, f')" by force
  have "p \<noteq> target_of host p \<and> p \<noteq> target_of host p @ ''.tmp''" using assms(1) snoc.prems(1) by (simp add: separate_def)
  with CopyFile_spec [OF c] snoc.prems(2) [of p] have "f' q = ?f q" by simp
  with c snoc show ?case by (simp add: install_append)
qed (simp add: InstallBPFBinaries_def)

lemma install_spec:
  assumes "separate bins host" "p \<in> set bins"
  shows "whole_copy p (target_of host p) f (InstallBPFBinaries F bins host f) \<and>
    (F = no_faults \<longrightarrow> (\<exists>n. f p = Some n \<and> regular n) \<longrightarrow>
      (\<exists>n n'. f p = Some n \<and> InstallBPFBinaries F bins host f (target_of host p) = Some n' \<and>
        file_data n' = file_data n \<and> file_mode n' = file_mode n))"
proof -
  let ?t = "target_of host p"
  obtain as bs where bins: "bins = as @ p # bs" using assms(2) by (meson split_list)
  let ?f = "InstallBPFBinaries F as host f"
  obtain r f1 where c: "CopyFile F p ?t ?f = (r, f1)" by force
  have all: "InstallBPFBinaries F bins host f = InstallBPFBinaries F bs host f1" using c by (simp add: bins InstallBPFBinaries_def)
  have sep: "q \<noteq> target_of host q'" "q \<noteq> target_of host q' @ ''.tmp''" "target_of host q \<noteq> target_of host q' @ ''.tmp''"
    if "q \<in> set bins" "q' \<in> set bins" for q q' using assms(1) that by (auto simp: separate_def)
  have d: "target_of host q \<noteq> ?t" if "q \<in> set as \<union> set bs" for q
    using assms(1) that by (auto simp: separate_def bins dest: sym)
  have ne: "p \<noteq> target_of host q \<and> p \<noteq> target_of host q @ ''.tmp''" "?t \<noteq> target_of host q \<and> ?t \<noteq> target_of host q @ ''.tmp''"
    if "q \<in> set as \<union> set bs" for q using sep [of p q] d [OF that] that assms(2) by (auto simp: bins)
  have src: "?f p = f p" and old: "?f ?t = f ?t" and new: "InstallBPFBinaries F bs host f1 ?t = f1 ?t"
    by (rule install_others [OF assms(1)]; use ne in \<open>simp add: bins\<close>; blast)+
  have sp: "whole_copy p ?t ?f f1"
    "r = None \<Longrightarrow> \<exists>n n'. ?f p = Some n \<and> f1 ?t = Some n' \<and> file_data n' = file_data n \<and> file_mode n' = file_mode n"
    using CopyFile_spec [OF c] sep assms(2) by auto
  have "r = None" if "F = no_faults" "f p = Some n" "regular n" for n
    using CopyFile_no_faults [of ?f p n ?t] src that c sep assms(2) by simp
  with sp [unfolded whole_copy_def src old] new show ?thesis unfolding all whole_copy_def by auto
qed

end
