(* ===== verification/PinMigration.thy ===== *)
theory PinMigration
  imports HostFs
begin

text \<open>
  \<^verbatim>\<open>pkg/ebpf/legacy_pin_migration.go\<close>: the one-time renaming of the pin files of the local pods from
  the legacy identifiers, which two pods of different namespaces can share, to the present ones. JSON
  decoding, \<^verbatim>\<open>sort.Slice\<close> and the order in which the runtime visits a Go map are parameters. The
  lemmas show that no pin is lost, whatever calls fail, and that the marker that stops the migration
  from running again is only written once every pin has its new name.
\<close>

section \<open>The migration\<close>

definition cniIpamStatePath :: string where "cniIpamStatePath = ''/var/run/aws-node/ipam.json''"
definition formatV2MarkerPath :: string where "formatV2MarkerPath = ''/var/run/aws-node/.npa_format_v2''"

record ipamAllocation =
  K8sPodName :: string
  K8sPodNamespace :: string

datatype renameResult = renameSkipped | renameOK | renameFailed

definition renamePinIfExists :: "os_faults \<Rightarrow> string \<Rightarrow> string \<Rightarrow> fs \<Rightarrow> renameResult \<times> fs" where
  "renamePinIfExists F src dst f =
     (case os_Stat F src f of
        Inl ErrNotExist \<Rightarrow> (renameSkipped, f)
      | Inl (OsError e) \<Rightarrow> (renameFailed, f)
      | Inr _ \<Rightarrow> (case os_Rename F src dst f of
                   (Some e, f') \<Rightarrow> (renameFailed, f')
                 | (None, f') \<Rightarrow> (renameOK, f')))"

text \<open>One \<^verbatim>\<open>switch\<close> on the result of a rename; the state is \<^verbatim>\<open>renamed\<close>, \<^verbatim>\<open>failed\<close> and the files.\<close>

definition rename_step :: "os_faults \<Rightarrow> string \<times> string \<Rightarrow> nat \<times> nat \<times> fs \<Rightarrow> nat \<times> nat \<times> fs" where
  "rename_step F = (\<lambda>(src, dst) (renamed, failed, f).
     case renamePinIfExists F src dst f of
       (renameOK, f') \<Rightarrow> (renamed + 1, failed, f')
     | (renameFailed, f') \<Rightarrow> (renamed, failed + 1, f')
     | (renameSkipped, f') \<Rightarrow> (renamed, failed, f'))"

definition pin_files :: "string \<Rightarrow> string \<Rightarrow> (string \<times> string) list" where
  "pin_files progsDir mapsDir =
     [(progsDir, TC_INGRESS_PROG), (progsDir, TC_EGRESS_PROG),
      (mapsDir, TC_INGRESS_MAP), (mapsDir, TC_EGRESS_MAP),
      (mapsDir, TC_CLUSTER_POLICY_INGRESS_MAP), (mapsDir, TC_CLUSTER_POLICY_EGRESS_MAP),
      (mapsDir, TC_INGRESS_POD_STATE_MAP), (mapsDir, TC_EGRESS_POD_STATE_MAP)]"

definition pin_pairs :: "string \<Rightarrow> string \<Rightarrow> string \<Rightarrow> string \<Rightarrow> (string \<times> string) list" where
  "pin_pairs progsDir mapsDir legacyID newID =
     map (\<lambda>(dir, name). (dir @ legacyID @ ''_'' @ name, dir @ newID @ ''_'' @ name)) (pin_files progsDir mapsDir)"

definition renamePinFamily :: "os_faults \<Rightarrow> string \<Rightarrow> string \<Rightarrow> string \<Rightarrow> string \<Rightarrow> fs \<Rightarrow> nat \<times> nat \<times> fs" where
  "renamePinFamily F progsDir mapsDir legacyID newID f =
     fold (rename_step F) (pin_pairs progsDir mapsDir legacyID newID) (0, 0, f)"

definition legacy_of :: "ipamAllocation \<Rightarrow> string" where
  "legacy_of a = LegacyGetPodIdentifier (K8sPodName a) (K8sPodNamespace a)"

definition ident_of_alloc :: "ipamAllocation \<Rightarrow> string" where
  "ident_of_alloc a = GetPodIdentifier (K8sPodName a) (K8sPodNamespace a)"

definition group_step :: "ipamAllocation \<Rightarrow> (string, ipamAllocation list) go_map \<Rightarrow> (string, ipamAllocation list) go_map" where
  "group_step a byLegacyID =
     (if K8sPodName a = [] \<or> K8sPodNamespace a = [] then byLegacyID
      else AList.update (legacy_of a)
        ((case map_of byLegacyID (legacy_of a) of None \<Rightarrow> [] | Some pods \<Rightarrow> pods) @ [a]) byLegacyID)"

record migration_env =
  ipam_json :: "byte list \<Rightarrow> string + ipamAllocation list"
  sort_by_name :: "ipamAllocation list \<Rightarrow> ipamAllocation list"
  ord_groups :: "(string \<times> ipamAllocation list) list \<Rightarrow> (string \<times> ipamAllocation list) list"

definition migrate_group ::
  "os_faults \<Rightarrow> migration_env \<Rightarrow> string \<Rightarrow> string \<Rightarrow> string \<times> ipamAllocation list \<Rightarrow> nat \<times> fs \<Rightarrow> nat \<times> fs" where
  "migrate_group F me progsDir mapsDir = (\<lambda>(legacyID, pods) (totalFailed, f).
     let p = hd (sort_by_name me pods)
     in case renamePinFamily F progsDir mapsDir legacyID (ident_of_alloc p) f of
          (renamed, failed, f') \<Rightarrow> (totalFailed + failed, f'))"

text \<open>The directory of a clean path.\<close>

definition filepath_Dir :: "string \<Rightarrow> string" where
  "filepath_Dir p = (case go_last_index (CHR ''/'') p of None \<Rightarrow> ''.'' | Some 0 \<Rightarrow> ''/'' | Some i \<Rightarrow> take i p)"

definition v2_marker :: "byte list" where "v2_marker = [118, 50, 10]"

definition write_marker :: "os_faults \<Rightarrow> string \<Rightarrow> fs \<Rightarrow> string option \<times> fs" where
  "write_marker F markerPath f =
     (case os_MkdirAll F (filepath_Dir markerPath) f of
        Some e \<Rightarrow> (Some (''ensure marker dir for '' @ markerPath @ '': '' @ err_string e), f)
      | None \<Rightarrow>
          (case os_WriteFile F markerPath v2_marker f of
             (Some e, f') \<Rightarrow> (Some (''write migration marker '' @ markerPath @ '': '' @ err_string e), f')
           | (None, f') \<Rightarrow> (None, f')))"

definition migrateLegacyPinsFromCNIState ::
  "os_faults \<Rightarrow> migration_env \<Rightarrow> string \<Rightarrow> string \<Rightarrow> string \<Rightarrow> string \<Rightarrow> fs \<Rightarrow> string option \<times> fs" where
  "migrateLegacyPinsFromCNIState F me progsDir mapsDir ipamPath markerPath f =
     (case os_Stat F markerPath f of
        Inr _ \<Rightarrow> (None, f)
      | Inl (OsError e) \<Rightarrow> (Some (''checking migration marker '' @ markerPath @ '': '' @ e), f)
      | Inl ErrNotExist \<Rightarrow>
          (case os_ReadFile F ipamPath f of
             (_, Some ErrNotExist) \<Rightarrow> (None, f)
           | (_, Some (OsError e)) \<Rightarrow> (Some (''read CNI ipam state '' @ ipamPath @ '': '' @ e), f)
           | (raw, None) \<Rightarrow>
               (case ipam_json me (case raw of None \<Rightarrow> [] | Some bs \<Rightarrow> bs) of
                  Inl e \<Rightarrow> (Some (''parse CNI ipam state '' @ ipamPath @ '': '' @ e), f)
                | Inr allocations \<Rightarrow>
                    let byLegacyID = fold group_step allocations []
                    in case fold (migrate_group F me progsDir mapsDir) (ord_groups me byLegacyID) (0, f) of
                         (totalFailed, f1) \<Rightarrow>
                           if totalFailed > 0 then
                             (Some (''legacy pin migration incomplete: '' @ nat_string totalFailed @
                                '' rename(s) failed; will retry on next restart''), f1)
                           else write_marker F markerPath f1)))"

section \<open>Renaming a list of files\<close>

text \<open>What the attempt to rename \<open>src\<close> to \<open>dst\<close> may leave behind.\<close>

definition moved_or_kept :: "fs \<Rightarrow> fs \<Rightarrow> string \<Rightarrow> string \<Rightarrow> bool" where
  "moved_or_kept f f' src dst \<longleftrightarrow> (f' src = f src \<and> f' dst = f dst) \<or> (f src \<noteq> None \<and> f' src = None \<and> f' dst = f src)"

lemma rename_step_cases:
  assumes "rename_step F (src, dst) (r, t, f) = (r', t', f')" "src \<noteq> dst"
  shows "moved_or_kept f f' src dst" "\<forall>p. p \<noteq> src \<longrightarrow> p \<noteq> dst \<longrightarrow> f' p = f p" "t \<le> t'" "t' = t \<Longrightarrow> f' src = None"
  using assms
  by (auto simp: rename_step_def renamePinIfExists_def os_defs moved_or_kept_def
      split: option.splits sum.splits os_error.splits prod.splits if_splits)

lemma rename_all:
  assumes "fold (rename_step F) ps (r, t, f) = (r', t', f')"
    and "distinct (map fst ps)" "distinct (map snd ps)" "fst ` set ps \<inter> snd ` set ps = {}"
  shows "(\<forall>(s, d) \<in> set ps. moved_or_kept f f' s d) \<and> (\<forall>p. p \<notin> fst ` set ps \<union> snd ` set ps \<longrightarrow> f' p = f p) \<and> t \<le> t' \<and>
    (t' = t \<longrightarrow> (\<forall>s \<in> fst ` set ps. f' s = None))"
  using assms
proof (induction ps arbitrary: r t f)
  case (Cons x ps)
  obtain s d where x: "x = (s, d)" by force
  obtain r1 t1 f1 where st: "rename_step F x (r, t, f) = (r1, t1, f1)" using prod_cases3 by blast
  have sd: "s \<noteq> d" "s \<notin> fst ` set ps" "s \<notin> snd ` set ps" "d \<notin> snd ` set ps" "d \<notin> fst ` set ps"
    using Cons.prems x by auto
  note one = rename_step_cases [OF st [unfolded x] sd(1)]
  have run: "fold (rename_step F) ps (r1, t1, f1) = (r', t', f')" using Cons.prems(1) st by simp
  note rest = Cons.IH [OF run]
  have ih: "\<forall>(s, d) \<in> set ps. moved_or_kept f1 f' s d" "\<forall>p. p \<notin> fst ` set ps \<union> snd ` set ps \<longrightarrow> f' p = f1 p" "t1 \<le> t'"
      "t' = t1 \<longrightarrow> (\<forall>s \<in> fst ` set ps. f' s = None)"
    using rest Cons.prems x by auto
  have sd': "f' s = f1 s" "f' d = f1 d" using ih(2) sd by auto
  have "moved_or_kept f f' s d" using one(1) sd' by (simp add: moved_or_kept_def)
  moreover have "moved_or_kept f f' s' d'" if "(s', d') \<in> set ps" for s' d'
  proof -
    have "s' \<noteq> s" "s' \<noteq> d" "d' \<noteq> s" "d' \<noteq> d" using sd that by force+
    then have "f1 s' = f s'" "f1 d' = f d'" using one(2) by blast+
    with ih(1) that show ?thesis by (auto simp: moved_or_kept_def)
  qed
  moreover have "f' p = f p" if "p \<notin> fst ` set (x # ps) \<union> snd ` set (x # ps)" for p
    using one(2) ih(2) that x by simp
  moreover have "f' s' = None" if "t' = t" "s' \<in> fst ` set (x # ps)" for s'
    using one(3, 4) ih(3, 4) sd' that x by auto
  ultimately show ?case using one(3) ih(3) x by auto
qed simp

section \<open>Pin paths\<close>

text \<open>The part of a pin path after the identifier, read back from the path.\<close>

definition pin_suffix :: "char \<Rightarrow> string \<Rightarrow> string" where
  "pin_suffix sep w = tl (dropWhile (\<lambda>c. c \<noteq> CHR ''_'') (rev (takeWhile (\<lambda>c. c \<noteq> sep) (rev w))))"

lemma dropWhile_sep: "CHR ''_'' \<notin> set r \<Longrightarrow> dropWhile (\<lambda>c. c \<noteq> CHR ''_'') (r @ CHR ''_'' # s) = CHR ''_'' # s"
  by (induction r) auto

lemma pin_suffix_id:
  assumes "sep \<noteq> CHR ''_''" "sep \<notin> set s" "CHR ''_'' \<notin> set ns"
  shows "pin_suffix sep (x @ sep # ns @ CHR ''_'' # s) = s"
proof -
  let ?r = "takeWhile (\<lambda>c. c \<noteq> sep) (rev ns @ sep # rev x)"
  have "takeWhile (\<lambda>c. c \<noteq> sep) (rev ns @ sep # rev x) = takeWhile (\<lambda>c. c \<noteq> sep) (rev ns)"
    by (simp add: takeWhile_tail)
  then have "CHR ''_'' \<notin> set ?r" using assms(3) set_takeWhileD by fastforce
  then have r: "CHR ''_'' \<notin> set (rev ?r)" by simp
  have "rev (x @ sep # ns @ CHR ''_'' # s) = (rev s @ ''_'') @ (rev ns @ sep # rev x)" by simp
  then have "takeWhile (\<lambda>c. c \<noteq> sep) (rev (x @ sep # ns @ CHR ''_'' # s)) = (rev s @ ''_'') @ ?r"
    using assms(1, 2) by (simp only:, subst takeWhile_append2) auto
  then have "pin_suffix sep (x @ sep # ns @ CHR ''_'' # s) = tl (dropWhile (\<lambda>c. c \<noteq> CHR ''_'') (rev ?r @ CHR ''_'' # s))"
    unfolding pin_suffix_def by simp
  then show ?thesis using dropWhile_sep [OF r, of s] by simp
qed

text \<open>Names as Kubernetes allows them.\<close>

definition alloc_ok :: "ipamAllocation \<Rightarrow> bool" where
  "alloc_ok a \<longleftrightarrow> CHR ''@'' \<notin> set (K8sPodName a) \<and> CHR ''@'' \<notin> set (K8sPodNamespace a) \<and> CHR ''_'' \<notin> set (K8sPodNamespace a)"

abbreviation bpffs_pins :: "(string \<times> string) list" where
  "bpffs_pins \<equiv> pin_files BPF_PROGRAMS_PIN_PATH_DIRECTORY BPF_MAPS_PIN_PATH_DIRECTORY"

lemma pins_chars:
  assumes "(dir, name) \<in> set bpffs_pins"
  shows "CHR ''-'' \<notin> set name" "CHR ''@'' \<notin> set name" "CHR ''@'' \<notin> set dir"
  using assms by (auto simp: pin_files_def name_defs)

lemma pins_dirs:
  assumes "(dir, name) \<in> set bpffs_pins" "(dir', name') \<in> set bpffs_pins" "dir @ w = dir' @ w'"
  shows "dir = dir' \<and> w = w'"
proof -
  have "dir \<in> {BPF_PROGRAMS_PIN_PATH_DIRECTORY, BPF_MAPS_PIN_PATH_DIRECTORY}" "dir' \<in> {BPF_PROGRAMS_PIN_PATH_DIRECTORY, BPF_MAPS_PIN_PATH_DIRECTORY}"
    using assms(1, 2) by (auto simp: pin_files_def)
  with assms(3) show ?thesis by (auto simp: BPF_PROGRAMS_PIN_PATH_DIRECTORY_def BPF_MAPS_PIN_PATH_DIRECTORY_def)
qed

lemma ident_shape:
  assumes "alloc_ok a"
  shows "\<exists>x. legacy_of a = x @ CHR ''-'' # K8sPodNamespace a \<and> ident_of_alloc a = x @ CHR ''@'' # K8sPodNamespace a \<and> CHR ''@'' \<notin> set x"
  using assms podIdentifierPrefix_no_sep
  by (auto simp: legacy_of_def ident_of_alloc_def LegacyGetPodIdentifier_def GetPodIdentifier_def alloc_ok_def)

lemma path_inject:
  assumes "(dir, name) \<in> set bpffs_pins" "(dir', name') \<in> set bpffs_pins" "alloc_ok a" "alloc_ok b"
  shows "dir @ legacy_of a @ ''_'' @ name = dir' @ legacy_of b @ ''_'' @ name' \<Longrightarrow> legacy_of a = legacy_of b \<and> dir = dir' \<and> name = name'"
    and "dir @ ident_of_alloc a @ ''_'' @ name = dir' @ ident_of_alloc b @ ''_'' @ name' \<Longrightarrow>
      legacy_of a = legacy_of b \<and> dir = dir' \<and> name = name'"
    and "dir @ legacy_of a @ ''_'' @ name \<noteq> dir' @ ident_of_alloc b @ ''_'' @ name'"
proof -
  obtain x y where x: "legacy_of a = x @ CHR ''-'' # K8sPodNamespace a" "ident_of_alloc a = x @ CHR ''@'' # K8sPodNamespace a" "CHR ''@'' \<notin> set x"
    and y: "legacy_of b = y @ CHR ''-'' # K8sPodNamespace b" "ident_of_alloc b = y @ CHR ''@'' # K8sPodNamespace b" "CHR ''@'' \<notin> set y"
    using ident_shape assms(3, 4) by metis
  note ch = pins_chars [OF assms(1)] pins_chars [OF assms(2)]
  have ns: "CHR ''_'' \<notin> set (K8sPodNamespace a)" "CHR ''_'' \<notin> set (K8sPodNamespace b)" "CHR ''@'' \<notin> set (K8sPodNamespace a)"
    using assms(3, 4) by (auto simp: alloc_ok_def)
  {
    assume "dir @ legacy_of a @ ''_'' @ name = dir' @ legacy_of b @ ''_'' @ name'"
    then have e: "dir = dir'" "legacy_of a @ CHR ''_'' # name = legacy_of b @ CHR ''_'' # name'"
      using pins_dirs [OF assms(1, 2)] by auto
    have "name = name'"
      using arg_cong [OF e(2), of "pin_suffix (CHR ''-'')"] ch ns by (simp add: x y pin_suffix_id)
    with e show "legacy_of a = legacy_of b \<and> dir = dir' \<and> name = name'" by simp
  }
  {
    assume "dir @ ident_of_alloc a @ ''_'' @ name = dir' @ ident_of_alloc b @ ''_'' @ name'"
    then have e: "dir = dir'" "ident_of_alloc a @ CHR ''_'' # name = ident_of_alloc b @ CHR ''_'' # name'"
      using pins_dirs [OF assms(1, 2)] by auto
    have n: "name = name'"
      using arg_cong [OF e(2), of "pin_suffix (CHR ''@'')"] ch ns by (simp add: x y pin_suffix_id)
    with e(2) have "x = y \<and> K8sPodNamespace a = K8sPodNamespace b" by (simp add: x y append_sep_inject [OF x(3) y(3)])
    with e(1) n show "legacy_of a = legacy_of b \<and> dir = dir' \<and> name = name'" by (simp add: x y)
  }
  have "CHR ''@'' \<notin> set (dir @ legacy_of a @ ''_'' @ name)" "CHR ''@'' \<in> set (dir' @ ident_of_alloc b @ ''_'' @ name')"
    using ch ns x y by auto
  then show "dir @ legacy_of a @ ''_'' @ name \<noteq> dir' @ ident_of_alloc b @ ''_'' @ name'" by metis
qed

section \<open>The whole migration\<close>

text \<open>The groups and the pod each group hands its pins to.\<close>

definition groups_ok :: "ipamAllocation set \<Rightarrow> (string, ipamAllocation list) go_map \<Rightarrow> bool" where
  "groups_ok allocs g \<longleftrightarrow> go_map_wf g \<and> (\<forall>(legacyID, pods) \<in> set g. pods \<noteq> [] \<and> (\<forall>a \<in> set pods. a \<in> allocs \<and> legacy_of a = legacyID)) \<and>
     (\<forall>a \<in> allocs. \<exists>pods. (legacy_of a, pods) \<in> set g)"

definition named :: "ipamAllocation list \<Rightarrow> ipamAllocation set" where
  "named allocations = {a \<in> set allocations. K8sPodName a \<noteq> [] \<and> K8sPodNamespace a \<noteq> []}"

lemma group_step_ok:
  assumes "groups_ok A g" "K8sPodName a \<noteq> []" "K8sPodNamespace a \<noteq> []"
  shows "groups_ok (insert a A) (group_step a g)"
proof -
  let ?old = "case map_of g (legacy_of a) of None \<Rightarrow> [] | Some pods \<Rightarrow> pods"
  have wf: "go_map_wf g" using assms(1) by (simp add: groups_ok_def)
  have o: "\<forall>b \<in> set ?old. b \<in> A \<and> legacy_of b = legacy_of a"
  proof (cases "map_of g (legacy_of a)")
    case (Some pods)
    have "\<forall>(legacyID, pods) \<in> set g. pods \<noteq> [] \<and> (\<forall>a \<in> set pods. a \<in> A \<and> legacy_of a = legacyID)"
      using assms(1) by (simp add: groups_ok_def)
    from bspec [OF this map_of_SomeD [OF Some]] Some show ?thesis by simp
  qed simp
  have wf': "go_map_wf (group_step a g)" using wf by (simp add: group_step_def)
  have "map_of (group_step a g) = (map_of g)(legacy_of a \<mapsto> ?old @ [a])" using assms(2, 3) by (simp add: group_step_def)
  then have m: "(l, pods) \<in> set (group_step a g) \<longleftrightarrow> (if l = legacy_of a then pods = ?old @ [a] else (l, pods) \<in> set g)" for l pods
    using map_of_eq_Some_iff [of g l pods] map_of_eq_Some_iff [of "group_step a g" l pods] wf wf' unfolding go_map_wf_def
    by (auto split del: if_split split: if_split_asm)
  note G = assms(1) [unfolded groups_ok_def]
  have g: "pods \<noteq> [] \<and> (\<forall>a \<in> set pods. a \<in> A \<and> legacy_of a = l)" if "(l, pods) \<in> set g" for l pods
    using bspec [OF conjunct1 [OF conjunct2 [OF G]] that] by simp
  have g': "\<exists>pods. (legacy_of b, pods) \<in> set g" if "b \<in> A" for b using bspec [OF conjunct2 [OF conjunct2 [OF G]] that] .
  show ?thesis unfolding groups_ok_def
  proof (intro conjI wf' ballI)
    fix x assume x: "x \<in> set (group_step a g)"
    obtain l pods where p: "x = (l, pods)" by force
    have "pods \<noteq> [] \<and> (\<forall>b \<in> set pods. b \<in> insert a A \<and> legacy_of b = l)"
    proof (cases "l = legacy_of a")
      case True
      with x m p have "set pods = insert a (set ?old)" by simp
      with o True show ?thesis by (metis insertE insertCI list.set(1) insert_not_empty)
    next
      case False
      with x m p g show ?thesis by (metis insertI2)
    qed
    then show "case x of (legacyID, pods) \<Rightarrow> pods \<noteq> [] \<and> (\<forall>b \<in> set pods. b \<in> insert a A \<and> legacy_of b = legacyID)"
      by (simp add: p)
  next
    fix b assume "b \<in> insert a A"
    then show "\<exists>pods. (legacy_of b, pods) \<in> set (group_step a g)" using m g' by (metis insertE)
  qed
qed

lemma groups_spec: "groups_ok (named allocations) (fold group_step allocations [])"
proof (induction allocations rule: rev_induct)
  case (snoc a as)
  have "named (as @ [a]) = (if K8sPodName a = [] \<or> K8sPodNamespace a = [] then named as else insert a (named as))"
    by (auto simp: named_def)
  with group_step_ok [OF snoc, of a] snoc show ?case by (auto simp: group_step_def split: if_splits)
qed (simp add: groups_ok_def named_def)

definition heir :: "migration_env \<Rightarrow> ipamAllocation list \<Rightarrow> ipamAllocation" where
  "heir me pods = hd (sort_by_name me pods)"

definition moves :: "migration_env \<Rightarrow> (string \<times> ipamAllocation list) list \<Rightarrow> (string \<times> string) list" where
  "moves me gs = concat (map (\<lambda>(legacyID, pods).
     pin_pairs BPF_PROGRAMS_PIN_PATH_DIRECTORY BPF_MAPS_PIN_PATH_DIRECTORY legacyID (ident_of_alloc (heir me pods))) gs)"

lemma rename_shift:
  "fold (rename_step F) ps (r + a, t + b, f) = (case fold (rename_step F) ps (a, b, f) of (x, y, z) \<Rightarrow> (r + x, t + y, z))"
proof (induction ps arbitrary: a b f)
  case (Cons p ps)
  obtain a' b' f' where s: "rename_step F p (a, b, f) = (a', b', f')" using prod_cases3 by blast
  then have "rename_step F p (r + a, t + b, f) = (r + a', t + b', f')"
    by (auto simp: rename_step_def split: prod.splits renameResult.splits)
  with s Cons show ?case by simp
qed simp

lemma migrate_groups_renames:
  "fold (migrate_group F me BPF_PROGRAMS_PIN_PATH_DIRECTORY BPF_MAPS_PIN_PATH_DIRECTORY) gs (t, f) =
     snd (fold (rename_step F) (moves me gs) (r, t, f))"
proof (induction gs arbitrary: r t f)
  case (Cons g gs)
  obtain l pods where g: "g = (l, pods)" by force
  let ?ps = "pin_pairs BPF_PROGRAMS_PIN_PATH_DIRECTORY BPF_MAPS_PIN_PATH_DIRECTORY l (ident_of_alloc (heir me pods))"
  obtain x y z where f: "fold (rename_step F) ?ps (0, 0, f) = (x, y, z)" using prod_cases3 by blast
  then have "fold (rename_step F) ?ps (r, t, f) = (r + x, t + y, z)" using rename_shift [of F ?ps r 0 t 0 f] by simp
  with f Cons [of "t + y" z "r + x"] show ?case
    by (simp add: g moves_def migrate_group_def renamePinFamily_def heir_def Let_def)
qed (simp add: moves_def)

definition groups_wf :: "(ipamAllocation list \<Rightarrow> ipamAllocation) \<Rightarrow> (string \<times> ipamAllocation list) list \<Rightarrow> bool" where
  "groups_wf h gs \<longleftrightarrow> distinct (map fst gs) \<and> (\<forall>(l, pods) \<in> set gs. alloc_ok (h pods) \<and> legacy_of (h pods) = l)"

lemma moves_set:
  "(s, d) \<in> set (moves me gs) \<longleftrightarrow> (\<exists>l pods dir name. (l, pods) \<in> set gs \<and> (dir, name) \<in> set bpffs_pins \<and>
     s = dir @ l @ ''_'' @ name \<and> d = dir @ ident_of_alloc (heir me pods) @ ''_'' @ name)"
  by (fastforce simp: moves_def pin_pairs_def)

lemma moves_distinct:
  assumes "groups_wf (heir me) gs"
  shows "distinct (map fst (moves me gs))" "distinct (map snd (moves me gs))" "fst ` set (moves me gs) \<inter> snd ` set (moves me gs) = {}"
proof -
  have ok: "alloc_ok (heir me pods)" "legacy_of (heir me pods) = l" if "(l, pods) \<in> set gs" for l pods
    using assms that by (auto simp: groups_wf_def)
  have "s \<noteq> d" if sd: "(s, d') \<in> set (moves me gs)" "(s', d) \<in> set (moves me gs)" for s d s' d'
  proof -
    obtain l pods dir name l' pods' dir' name' where "(l, pods) \<in> set gs" "(l', pods') \<in> set gs" "(dir, name) \<in> set bpffs_pins"
        "(dir', name') \<in> set bpffs_pins" "s = dir @ l @ ''_'' @ name" "d = dir' @ ident_of_alloc (heir me pods') @ ''_'' @ name'"
      using sd unfolding moves_set by metis
    with ok path_inject(3) show ?thesis by metis
  qed
  then show "fst ` set (moves me gs) \<inter> snd ` set (moves me gs) = {}" by force
  have pins: "distinct bpffs_pins" by (simp add: pin_files_def name_defs)
  have "distinct (map fst (moves me gs)) \<and> distinct (map snd (moves me gs))"
    using assms
  proof (induction gs)
    case (Cons g gs)
    obtain l pods where g: "g = (l, pods)" by force
    have IH: "distinct (map fst (moves me gs))" "distinct (map snd (moves me gs))" using Cons by (auto simp: groups_wf_def)
    have okl: "alloc_ok (heir me pods)" "legacy_of (heir me pods) = l" using Cons.prems by (auto simp: groups_wf_def g)
    let ?ps = "moves me [g]"
    have one: "distinct (map fst ?ps)" "distinct (map snd ?ps)"
      using pins path_inject(1, 2) [OF _ _ okl(1) okl(1)]
      by (auto simp: moves_def g pin_pairs_def distinct_map inj_on_def okl(2) [symmetric])
    have "s \<noteq> s' \<and> d \<noteq> d'" if m: "(s, d) \<in> set ?ps" "(s', d') \<in> set (moves me gs)" for s d s' d'
    proof -
      obtain dir name l' pods' dir' name' where p: "(l', pods') \<in> set gs" "(dir, name) \<in> set bpffs_pins" "(dir', name') \<in> set bpffs_pins"
          "s = dir @ l @ ''_'' @ name" "s' = dir' @ l' @ ''_'' @ name'" "d = dir @ ident_of_alloc (heir me pods) @ ''_'' @ name"
          "d' = dir' @ ident_of_alloc (heir me pods') @ ''_'' @ name'"
        using m unfolding moves_set g by auto
      have "alloc_ok (heir me pods')" "legacy_of (heir me pods') = l'" "l \<noteq> l'"
        using Cons.prems p(1) by (force simp: groups_wf_def g)+
      with path_inject(1, 2) [OF p(2, 3) okl(1)] okl(2) p show ?thesis by metis
    qed
    then have "fst ` set ?ps \<inter> fst ` set (moves me gs) = {}" "snd ` set ?ps \<inter> snd ` set (moves me gs) = {}" by force+
    moreover have "moves me (g # gs) = ?ps @ moves me gs" by (simp add: moves_def)
    ultimately show ?case using IH one by simp
  qed (simp add: moves_def)
  then show "distinct (map fst (moves me gs))" "distinct (map snd (moves me gs))" by simp_all
qed

text \<open>Paths in the directories that hold the pins.\<close>

definition in_bpffs :: "string \<Rightarrow> bool" where
  "in_bpffs p \<longleftrightarrow> prefix BPF_PROGRAMS_PIN_PATH_DIRECTORY p \<or> prefix BPF_MAPS_PIN_PATH_DIRECTORY p"

lemma not_in_bpffs: "\<not> in_bpffs formatV2MarkerPath"
  by (simp add: in_bpffs_def formatV2MarkerPath_def BPF_PROGRAMS_PIN_PATH_DIRECTORY_def BPF_MAPS_PIN_PATH_DIRECTORY_def)

lemma in_bpffs_pin: assumes "(dir, name) \<in> set bpffs_pins" shows "in_bpffs (dir @ w)"
proof -
  have "dir = BPF_PROGRAMS_PIN_PATH_DIRECTORY \<or> dir = BPF_MAPS_PIN_PATH_DIRECTORY" using assms by (auto simp: pin_files_def)
  then show ?thesis unfolding in_bpffs_def by (metis prefixI)
qed

lemma sorted_heir:
  assumes "\<forall>xs. set (sort_by_name me xs) = set xs" "pods \<noteq> []" shows "heir me pods \<in> set pods"
  using assms hd_in_set [of "sort_by_name me pods"] unfolding heir_def by (metis set_empty)

lemma groups_migration:
  assumes ok: "\<forall>a \<in> set allocations. alloc_ok a" and srt: "\<forall>xs. set (sort_by_name me xs) = set xs" and ord: "range_order (ord_groups me)"
    and run: "fold (migrate_group F me BPF_PROGRAMS_PIN_PATH_DIRECTORY BPF_MAPS_PIN_PATH_DIRECTORY)
      (ord_groups me (fold group_step allocations [])) (0, f) = (t, f')"
  shows "\<exists>h. (\<forall>a \<in> named allocations. h (legacy_of a) \<in> named allocations \<and> legacy_of (h (legacy_of a)) = legacy_of a \<and>
      (\<forall>(dir, name) \<in> set bpffs_pins. moved_or_kept f f' (dir @ legacy_of a @ ''_'' @ name) (dir @ ident_of_alloc (h (legacy_of a)) @ ''_'' @ name) \<and>
        (t = 0 \<longrightarrow> f' (dir @ legacy_of a @ ''_'' @ name) = None))) \<and>
    (\<forall>p. \<not> in_bpffs p \<longrightarrow> f' p = f p)"
proof -
  let ?g = "fold group_step allocations []" and ?gs = "ord_groups me (fold group_step allocations [])"
  note G = groups_spec [of allocations, unfolded groups_ok_def]
  have set: "set ?gs = set ?g" and dis: "distinct (map fst ?gs)"
    using range_order_set [OF ord] range_order_distinct [OF ord, of ?g] G by (auto simp: go_map_wf_def)
  have p: "pods \<noteq> [] \<and> (\<forall>a \<in> set pods. a \<in> named allocations \<and> legacy_of a = l)" if "(l, pods) \<in> set ?gs" for l pods
    using bspec [OF conjunct1 [OF conjunct2 [OF G]] that [unfolded set]] by simp
  have h: "heir me pods \<in> named allocations \<and> legacy_of (heir me pods) = l \<and> alloc_ok (heir me pods)" if "(l, pods) \<in> set ?gs" for l pods
    using p [OF that] sorted_heir [OF srt, of pods] ok by (auto simp: named_def)
  have wf: "groups_wf (heir me) ?gs" using dis h by (auto simp: groups_wf_def)
  obtain r where r: "fold (rename_step F) (moves me ?gs) (0, 0, f) = (r, t, f')"
    using migrate_groups_renames [of F me ?gs 0 f 0] run by (metis prod.collapse)
  note R = rename_all [OF r moves_distinct [OF wf]]
  let ?h = "\<lambda>l. heir me (the (map_of ?gs l))"
  have one: "?h (legacy_of a) \<in> named allocations \<and> legacy_of (?h (legacy_of a)) = legacy_of a \<and>
      (\<forall>(dir, name) \<in> set bpffs_pins. moved_or_kept f f' (dir @ legacy_of a @ ''_'' @ name) (dir @ ident_of_alloc (?h (legacy_of a)) @ ''_'' @ name) \<and>
        (t = 0 \<longrightarrow> f' (dir @ legacy_of a @ ''_'' @ name) = None))" if a: "a \<in> named allocations" for a
  proof -
    obtain pods where pods: "(legacy_of a, pods) \<in> set ?gs" using bspec [OF conjunct2 [OF conjunct2 [OF G]] a] set by blast
    then have "?h (legacy_of a) = heir me pods" using dis by (simp add: map_of_is_SomeI)
    moreover have "(dir @ legacy_of a @ ''_'' @ name, dir @ ident_of_alloc (heir me pods) @ ''_'' @ name) \<in> set (moves me ?gs)"
      if "(dir, name) \<in> set bpffs_pins" for dir name using pods that unfolding moves_set by blast
    ultimately show ?thesis using h [OF pods] R by (fastforce simp del: append_assoc)
  qed
  have "f' p = f p" if p: "\<not> in_bpffs p" for p
  proof -
    have "in_bpffs (fst x) \<and> in_bpffs (snd x)" if x: "x \<in> set (moves me ?gs)" for x
    proof -
      obtain dir name u w where "(dir, name) \<in> set bpffs_pins" "fst x = dir @ u" "snd x = dir @ w"
        using x moves_set [of "fst x" "snd x" me ?gs] by (auto simp del: append_assoc)
      then show ?thesis using in_bpffs_pin by simp
    qed
    with p have "p \<notin> fst ` set (moves me ?gs) \<union> snd ` set (moves me ?gs)" by blast
    with conjunct1 [OF conjunct2 [OF R]] show ?thesis by simp
  qed
  with one show ?thesis by (intro exI [of _ ?h] conjI ballI allI impI) simp_all
qed

lemma write_marker_spec:
  assumes "write_marker F p f = (r, f')" shows "\<forall>q. q \<noteq> p \<longrightarrow> f' q = f q" "F = no_faults \<Longrightarrow> f p = None \<Longrightarrow> r = None \<and> map_option file_data (f' p) = Some v2_marker"
  using assms by (auto simp: write_marker_def os_defs split: option.splits if_splits)

lemma rename_no_faults: "fst (snd (fold (rename_step no_faults) ps (r, t, f))) = t"
proof (induction ps arbitrary: r f)
  case (Cons p ps)
  have "fst (snd (rename_step no_faults p (r, t, f))) = t"
    by (cases p) (simp add: rename_step_def renamePinIfExists_def os_defs split: option.splits)
  with Cons show ?case by (cases "rename_step no_faults p (r, t, f)") simp
qed simp

lemma migrate_cases:
  assumes ipam: "f cniIpamStatePath = Some n" "ipam_json me (file_data n) = Inr allocations" and marker: "f formatV2MarkerPath = None"
    and run: "migrateLegacyPinsFromCNIState F me progsDir mapsDir cniIpamStatePath formatV2MarkerPath f = (r, f')"
    and groups: "fold (migrate_group F me progsDir mapsDir) (ord_groups me (fold group_step allocations [])) (0, f) = (t, f1)"
  obtains "r \<noteq> None" "f' = f" "F \<noteq> no_faults" | "t > 0" "r \<noteq> None" "f' = f1" | "t = 0" "write_marker F formatV2MarkerPath f1 = (r, f')"
proof (cases "os_ReadFile F cniIpamStatePath f")
  case (Pair raw e)
  have stat: "os_Stat F formatV2MarkerPath f = Inl ErrNotExist \<or> (\<exists>e. os_Stat F formatV2MarkerPath f = Inl (OsError e) \<and> F \<noteq> no_faults)"
    using marker by (auto simp: os_defs split: option.splits)
  have read: "(e = None \<and> raw = Some (file_data n)) \<or> (\<exists>x. e = Some (OsError x)) \<and> F \<noteq> no_faults"
    using Pair ipam by (auto simp: os_defs split: option.splits)
  show thesis
    using run stat read Pair ipam groups that
    by (auto simp: migrateLegacyPinsFromCNIState_def split: if_splits)
qed

lemma write_marker_None: "write_marker F p f = (None, f') \<Longrightarrow> f' p \<noteq> None"
  by (auto simp: write_marker_def os_defs split: option.splits)

text \<open>C31: Whatever calls fail, the migration of the pins loses none: each pin of a local pod's legacy identifier
  is where it was, or has the name of the pod that inherits it, one of the pods with that legacy identifier.
  The marker that ends the migration for good is there only if no pin of a local pod has its legacy name
  left, files outside the pin directories keep their contents, and without failures the migration
  succeeds.\<close>
theorem legacy_pins_migrated:
  assumes "\<forall>a \<in> set allocations. alloc_ok a" "\<forall>xs. set (sort_by_name me xs) = set xs" "range_order (ord_groups me)"
    and ipam: "f cniIpamStatePath = Some n" "ipam_json me (file_data n) = Inr allocations"
    and marker: "f formatV2MarkerPath = None"
    and run: "migrateLegacyPinsFromCNIState F me BPF_PROGRAMS_PIN_PATH_DIRECTORY BPF_MAPS_PIN_PATH_DIRECTORY
      cniIpamStatePath formatV2MarkerPath f = (r, f')"
  shows "\<exists>h. (\<forall>a \<in> named allocations. h (legacy_of a) \<in> named allocations \<and> legacy_of (h (legacy_of a)) = legacy_of a \<and>
      (\<forall>(dir, name) \<in> set bpffs_pins.
        moved_or_kept f f' (dir @ legacy_of a @ ''_'' @ name) (dir @ ident_of_alloc (h (legacy_of a)) @ ''_'' @ name) \<and>
        (f' formatV2MarkerPath \<noteq> None \<longrightarrow> f' (dir @ legacy_of a @ ''_'' @ name) = None))) \<and>
    (\<forall>p. \<not> in_bpffs p \<longrightarrow> p \<noteq> formatV2MarkerPath \<longrightarrow> f' p = f p) \<and> (r = None \<longrightarrow> f' formatV2MarkerPath \<noteq> None) \<and>
    (F = no_faults \<longrightarrow> r = None)"
proof -
  let ?groups = "fold (migrate_group F me BPF_PROGRAMS_PIN_PATH_DIRECTORY BPF_MAPS_PIN_PATH_DIRECTORY)
      (ord_groups me (fold group_step allocations [])) (0, f)"
  obtain t f1 where g: "?groups = (t, f1)" by force
  note G = groups_migration [OF assms(1-3) g]
  then obtain h where h: "\<forall>a \<in> named allocations. h (legacy_of a) \<in> named allocations \<and> legacy_of (h (legacy_of a)) = legacy_of a \<and>
      (\<forall>(dir, name) \<in> set bpffs_pins. moved_or_kept f f1 (dir @ legacy_of a @ ''_'' @ name) (dir @ ident_of_alloc (h (legacy_of a)) @ ''_'' @ name) \<and>
        (t = 0 \<longrightarrow> f1 (dir @ legacy_of a @ ''_'' @ name) = None))" and out: "\<forall>p. \<not> in_bpffs p \<longrightarrow> f1 p = f p" by blast
  have m1: "f1 formatV2MarkerPath = None" using out not_in_bpffs marker by simp
  show ?thesis
  proof (cases rule: migrate_cases [OF ipam marker run g])
    case 1
    with h marker show ?thesis by (intro exI [of _ h]) (auto simp: moved_or_kept_def)
  next
    case 2
    have "F \<noteq> no_faults"
      using 2(1) g migrate_groups_renames [of F me "ord_groups me (fold group_step allocations [])" 0 f 0]
        rename_no_faults [of "moves me (ord_groups me (fold group_step allocations []))" 0 0 f] by auto
    with 2 h out m1 show ?thesis by (intro exI [of _ h]) auto
  next
    case 3
    note w = write_marker_spec [OF 3(2)]
    have pins: "f' (dir @ x) = f1 (dir @ x)" if "(dir, name) \<in> set bpffs_pins" for dir name x
      using w(1) in_bpffs_pin [OF that] not_in_bpffs by metis
    have "moved_or_kept f f' (dir @ x) (dir @ y) = moved_or_kept f f1 (dir @ x) (dir @ y)" if "(dir, name) \<in> set bpffs_pins" for dir name x y
      by (simp add: moved_or_kept_def pins [OF that])
    with 3 h out w m1 pins write_marker_None [of F] show ?thesis by (intro exI [of _ h]) (fastforce simp del: append_assoc)
  qed
qed

definition example_alloc :: ipamAllocation where
  "example_alloc = \<lparr>K8sPodName = ''web-7d-a'', K8sPodNamespace = ''shop''\<rparr>"

definition example_migration :: migration_env where
  "example_migration = \<lparr>ipam_json = (\<lambda>_. Inr [example_alloc]), sort_by_name = id, ord_groups = id\<rparr>"

definition example_node :: "byte list \<Rightarrow> node" where
  "example_node bs = \<lparr>regular = True, file_mode = 420, file_data = bs\<rparr>"

definition example_pins :: fs where
  "example_pins = [cniIpamStatePath \<mapsto> example_node [],
     BPF_PROGRAMS_PIN_PATH_DIRECTORY @ ''web-7d-shop'' @ ''_'' @ TC_INGRESS_PROG \<mapsto> example_node [1]]"

lemma example_alloc_ids: "legacy_of example_alloc = ''web-7d-shop''" "ident_of_alloc example_alloc = ''web-7d@shop''"
  by code_simp+

theorem legacy_pins_migrated_witness:
  "\<exists>f'. migrateLegacyPinsFromCNIState no_faults example_migration BPF_PROGRAMS_PIN_PATH_DIRECTORY BPF_MAPS_PIN_PATH_DIRECTORY
      cniIpamStatePath formatV2MarkerPath example_pins = (None, f') \<and>
     f' (BPF_PROGRAMS_PIN_PATH_DIRECTORY @ ''web-7d-shop'' @ ''_'' @ TC_INGRESS_PROG) = None \<and>
     f' (BPF_PROGRAMS_PIN_PATH_DIRECTORY @ ''web-7d@shop'' @ ''_'' @ TC_INGRESS_PROG) = Some (example_node [1])"
proof -
  let ?src = "BPF_PROGRAMS_PIN_PATH_DIRECTORY @ ''web-7d-shop'' @ ''_'' @ TC_INGRESS_PROG"
  obtain r f' where run: "migrateLegacyPinsFromCNIState no_faults example_migration BPF_PROGRAMS_PIN_PATH_DIRECTORY
      BPF_MAPS_PIN_PATH_DIRECTORY cniIpamStatePath formatV2MarkerPath example_pins = (r, f')" by force
  have pins: "example_pins cniIpamStatePath = Some (example_node [])" "example_pins formatV2MarkerPath = None"
      "example_pins ?src = Some (example_node [1])"
    by (simp_all add: example_pins_def cniIpamStatePath_def formatV2MarkerPath_def name_defs)
  have me: "\<forall>xs. set (sort_by_name example_migration xs) = set xs" "range_order (ord_groups example_migration)"
      "ipam_json example_migration (file_data (example_node [])) = Inr [example_alloc]"
    by (simp_all add: example_migration_def)
  have ok: "\<forall>a \<in> set [example_alloc]. alloc_ok a" by (simp add: alloc_ok_def example_alloc_def)
  have named: "named [example_alloc] = {example_alloc}" by (auto simp: named_def example_alloc_def)
  have pin: "(BPF_PROGRAMS_PIN_PATH_DIRECTORY, TC_INGRESS_PROG) \<in> set bpffs_pins" by (simp add: pin_files_def)
  obtain h where h: "h (legacy_of example_alloc) = example_alloc"
      "moved_or_kept example_pins f' (BPF_PROGRAMS_PIN_PATH_DIRECTORY @ legacy_of example_alloc @ ''_'' @ TC_INGRESS_PROG)
         (BPF_PROGRAMS_PIN_PATH_DIRECTORY @ ident_of_alloc (h (legacy_of example_alloc)) @ ''_'' @ TC_INGRESS_PROG)"
      "f' (BPF_PROGRAMS_PIN_PATH_DIRECTORY @ legacy_of example_alloc @ ''_'' @ TC_INGRESS_PROG) = None" and r: "r = None"
    using legacy_pins_migrated [OF ok me(1, 2) pins(1) me(3) pins(2) run] pin unfolding named by auto
  from h pins(3) show ?thesis using run r by (auto simp: moved_or_kept_def example_alloc_ids)
qed

end
