(* ===== verification/PolicyEvents.thy ===== *)
theory PolicyEvents
  imports Utils
begin

text \<open>
  \<^verbatim>\<open>pkg/ebpf/events/events.go\<close> and the part of \<^verbatim>\<open>pkg/aws/cloud.go\<close> it uses: the policy events that
  the datapath puts into the ring buffer are counted and, when enabled, published to CloudWatch.
  AWS, EC2 metadata, the clock, UUIDs and the ring buffer library are the parameter \<open>events_env\<close> over
  a world \<open>'w\<close>. The lemmas show that the loop over the events is an accounting of the denied packets
  together with the publication, in order, of the events the log level selects.
\<close>

section \<open>Ring buffer records\<close>

definition VerdictDeny :: u32 where "VerdictDeny = 0"

record ringBufferDataV4_t =
  v4_SourceIP :: u32
  v4_SourcePort :: u32
  v4_DestIP :: u32
  v4_DestPort :: u32
  v4_Protocol :: u32
  v4_Verdict :: u32
  v4_PacketSz :: u32
  v4_IsEgress :: u8
  v4_Tier :: u8

record ringBufferDataV6_t =
  v6_SourceIP :: "byte list"
  v6_SourcePort :: u32
  v6_DestIP :: "byte list"
  v6_DestPort :: u32
  v6_Protocol :: u32
  v6_Verdict :: u32
  v6_PacketSz :: u32
  v6_IsEgress :: u8
  v6_Tier :: u8

text \<open>\<^verbatim>\<open>binary.Read\<close> with \<^verbatim>\<open>binary.LittleEndian\<close>: the fields in order without padding; a shorter record
  is an error, further bytes stay unread.\<close>

definition read_v4 :: "byte list \<Rightarrow> ringBufferDataV4_t option" where
  "read_v4 bs =
     (if length bs < 30 then None
      else let w = (\<lambda>off. get_le32 (get_at off 4 bs))
           in Some \<lparr>v4_SourceIP = w 0, v4_SourcePort = w 4, v4_DestIP = w 8, v4_DestPort = w 12, v4_Protocol = w 16,
                v4_Verdict = w 20, v4_PacketSz = w 24, v4_IsEgress = bs ! 28, v4_Tier = bs ! 29\<rparr>)"

definition read_v6 :: "byte list \<Rightarrow> ringBufferDataV6_t option" where
  "read_v6 bs =
     (if length bs < 54 then None
      else let w = (\<lambda>off. get_le32 (get_at off 4 bs))
           in Some \<lparr>v6_SourceIP = get_at 0 16 bs, v6_SourcePort = w 16, v6_DestIP = get_at 20 16 bs, v6_DestPort = w 36,
                v6_Protocol = w 40, v6_Verdict = w 44, v6_PacketSz = w 48, v6_IsEgress = bs ! 52, v6_Tier = bs ! 53\<rparr>)"

definition getVerdict :: "int \<Rightarrow> string" where
  "getVerdict verdict =
     (if verdict = VerdictType_Index ACCEPT then ''ACCEPT''
      else if verdict = VerdictType_Index EXPIRED_DELETED then ''EXPIRED/DELETED''
      else ''DENY'')"

definition getTier :: "int \<Rightarrow> string" where
  "getTier tier =
     (if tier = Tier_Index ADMIN_TIER then ''ADMIN''
      else if tier = Tier_Index NETWORK_POLICY_TIER then ''NETWORK_POLICY''
      else if tier = Tier_Index BASELINE_TIER then ''BASELINE''
      else if tier = Tier_Index DEFAULT_TIER then ''DEFAULT''
      else ''ERROR'')"

text \<open>The values both branches of the loop body compute from a record.\<close>

record event =
  ev_deny :: bool
  ev_direction :: string
  ev_size :: nat
  ev_message :: string

definition event_message ::
  "string \<Rightarrow> string \<Rightarrow> u32 \<Rightarrow> string \<Rightarrow> u32 \<Rightarrow> u32 \<Rightarrow> u32 \<Rightarrow> u8 \<Rightarrow> string" where
  "event_message nodeName sip sport dip dport protocol verdict tier =
     ''Node: '' @ nodeName @ '';'' @ ''SIP: '' @ sip @ '';'' @ ''SPORT: '' @ int_string (uint sport) @ '';'' @
     ''DIP: '' @ dip @ '';'' @ ''DPORT: '' @ int_string (uint dport) @ '';'' @
     ''PROTOCOL: '' @ GetProtocol (uint protocol) @ '';'' @ ''PolicyVerdict: '' @ getVerdict (uint verdict) @ '';'' @
     ''Tier: '' @ getTier (uint tier)"

definition direction_of :: "u8 \<Rightarrow> string" where
  "direction_of isEgress = (if isEgress = 0 then ''ingress'' else ''egress'')"

definition event_v4 :: "string \<Rightarrow> ringBufferDataV4_t \<Rightarrow> event" where
  "event_v4 nodeName rb =
     \<lparr>ev_deny = (v4_Verdict rb = VerdictDeny), ev_direction = direction_of (v4_IsEgress rb), ev_size = unat (v4_PacketSz rb),
      ev_message = event_message nodeName (ConvByteArrayToIP (v4_SourceIP rb)) (v4_SourcePort rb)
        (ConvByteArrayToIP (v4_DestIP rb)) (v4_DestPort rb) (v4_Protocol rb) (v4_Verdict rb) (v4_Tier rb)\<rparr>"

definition event_v6 :: "string \<Rightarrow> ringBufferDataV6_t \<Rightarrow> event" where
  "event_v6 nodeName rb =
     \<lparr>ev_deny = (v6_Verdict rb = VerdictDeny), ev_direction = direction_of (v6_IsEgress rb), ev_size = unat (v6_PacketSz rb),
      ev_message = event_message nodeName (IP_String (ConvByteToIPv6 (v6_SourceIP rb))) (v6_SourcePort rb)
        (IP_String (ConvByteToIPv6 (v6_DestIP rb))) (v6_DestPort rb) (v6_Protocol rb) (v6_Verdict rb) (v6_Tier rb)\<rparr>"

definition read_event :: "bool \<Rightarrow> string \<Rightarrow> byte list \<Rightarrow> event option" where
  "read_event enableIPv6 nodeName bs =
     (if enableIPv6 then map_option (event_v6 nodeName) (read_v6 bs) else map_option (event_v4 nodeName) (read_v4 bs))"

section \<open>Publishing\<close>

datatype aws_error = ResourceAlreadyExists | AwsError string

record log_input =
  in_Message :: string
  in_Timestamp :: int
  in_LogGroupName :: string
  in_LogStreamName :: string
  in_SequenceToken :: "string option"

record 'w events_env =
  LoadDefaultConfig :: "'w \<Rightarrow> string option"
  metadata_Region :: "'w \<Rightarrow> string + string"
  metadata_InstanceID :: "'w \<Rightarrow> string + string"
  DescribeTags :: "string \<Rightarrow> string \<Rightarrow> string \<Rightarrow> 'w \<Rightarrow> string + string option list"
  DescribeLogGroups :: "'w \<Rightarrow> string + string option list"
  CreateLogGroup :: "string \<Rightarrow> 'w \<Rightarrow> aws_error option \<times> 'w"
  CreateLogStream :: "string \<Rightarrow> string \<Rightarrow> 'w \<Rightarrow> string option \<times> 'w"
  PutLogEvents :: "log_input \<Rightarrow> 'w \<Rightarrow> (string + string option) \<times> 'w"
  uuid_New :: "'w \<Rightarrow> string \<times> 'w"
  time_Now_ms :: "'w \<Rightarrow> int"
  InitRingBuffer :: "int list \<Rightarrow> 'w \<Rightarrow> string option \<times> 'w"

text \<open>The package variables.\<close>

record cw_vars =
  logStreamName :: string
  logGroupName :: string
  sequenceToken :: string

definition cw_init :: cw_vars where
  "cw_init = \<lparr>logStreamName = [], logGroupName = [], sequenceToken = []\<rparr>"

text \<open>The new name is stored even when the call fails.\<close>

definition createLogStream :: "'w events_env \<Rightarrow> cw_vars \<times> 'w \<Rightarrow> string option \<times> cw_vars \<times> 'w" where
  "createLogStream env = (\<lambda>(cw, w).
     case uuid_New env w of (u, w1) \<Rightarrow>
       let name = ''aws-network-policy-agent-audit-'' @ u
       in case CreateLogStream env (logGroupName cw) name w1 of
            (err, w2) \<Rightarrow> (err, cw\<lparr>logStreamName := name\<rparr>, w2))"

text \<open>The request holds the stream name from before a stream is created. The queue has the one
  message, so the call never reports that it is done; a stream that cannot be created is a panic.\<close>

definition publishDataToCloudwatch :: "'w events_env \<Rightarrow> string \<Rightarrow> cw_vars \<times> 'w \<Rightarrow> string + bool \<times> cw_vars \<times> 'w" where
  "publishDataToCloudwatch env message = (\<lambda>(cw, w).
     let input = \<lparr>in_Message = message, in_Timestamp = time_Now_ms env w, in_LogGroupName = logGroupName cw,
           in_LogStreamName = logStreamName cw, in_SequenceToken = None\<rparr>;
         put = (\<lambda>inp (cw, w). case PutLogEvents env inp w of
             (Inr (Some token), w') \<Rightarrow> Inr (False, cw\<lparr>sequenceToken := token\<rparr>, w')
           | (_, w') \<Rightarrow> Inr (False, cw, w'))
     in if sequenceToken cw = [] then
          (case createLogStream env (cw, w) of
             (Some e, s) \<Rightarrow> Inl e
           | (None, s) \<Rightarrow> put input s)
        else put (input\<lparr>in_SequenceToken := Some (sequenceToken cw)\<rparr>) (cw, w))"

section \<open>The loop over the events\<close>

record policy_metrics =
  dropCountTotal :: "string \<Rightarrow> nat"
  dropBytesTotal :: "string \<Rightarrow> nat"

record event_config =
  enableCloudWatchLogs :: bool
  events_IPv6 :: bool
  events_logLevel :: string
  nodeName :: string

definition count_drop :: "event \<Rightarrow> policy_metrics \<Rightarrow> policy_metrics" where
  "count_drop ev m =
     (if ev_deny ev
      then m\<lparr>dropCountTotal := (dropCountTotal m)(ev_direction ev := dropCountTotal m (ev_direction ev) + 1),
             dropBytesTotal := (dropBytesTotal m)(ev_direction ev := dropBytesTotal m (ev_direction ev) + ev_size ev)\<rparr>
      else m)"

definition publishes :: "event_config \<Rightarrow> event \<Rightarrow> bool" where
  "publishes cfg ev \<longleftrightarrow> enableCloudWatchLogs cfg \<and> (ev_deny ev \<or> events_logLevel cfg = ''debug'')"

fun capture_loop ::
  "'w events_env \<Rightarrow> event_config \<Rightarrow> byte list list \<Rightarrow> policy_metrics \<Rightarrow> cw_vars \<times> 'w \<Rightarrow> string + policy_metrics \<times> cw_vars \<times> 'w" where
  "capture_loop env cfg [] m s = Inr (m, s)"
| "capture_loop env cfg (bs # records) m s =
     (case read_event (events_IPv6 cfg) (nodeName cfg) bs of
        None \<Rightarrow> capture_loop env cfg records m s
      | Some ev \<Rightarrow>
          let m' = count_drop ev m
          in if publishes cfg ev then
               (case publishDataToCloudwatch env (ev_message ev) s of
                  Inl e \<Rightarrow> Inl e
                | Inr (done, s') \<Rightarrow> if done then Inr (m', s') else capture_loop env cfg records m' s')
             else capture_loop env cfg records m' s)"

section \<open>Setting up\<close>

definition DEFAULT_CLUSTER_NAME :: string where "DEFAULT_CLUSTER_NAME = ''k8s-cluster''"
definition EKS_CW_PATH :: string where "EKS_CW_PATH = ''/aws/eks/''"
definition NON_EKS_CW_PATH :: string where "NON_EKS_CW_PATH = ''/aws/''"
definition clusterNameTags :: "string list" where "clusterNameTags = [''aws:eks:cluster-name'']"

definition getClusterTag :: "'w events_env \<Rightarrow> string \<Rightarrow> string \<Rightarrow> string \<Rightarrow> 'w \<Rightarrow> go_panic + string + string" where
  "getClusterTag env region tagKey instanceID w =
     (case DescribeTags env region instanceID tagKey w of
        Inl e \<Rightarrow> Inr (Inl (''GetClusterTag: Unable to obtain EC2 instance tags: '' @ e))
      | Inr [] \<Rightarrow> Inr (Inl (''GetClusterTag: No tag matching key: '' @ tagKey))
      | Inr (None # _) \<Rightarrow> Inl NilDereference
      | Inr (Some v # _) \<Rightarrow> Inr (Inr v))"

fun cluster_tag_loop :: "'w events_env \<Rightarrow> string \<Rightarrow> string \<Rightarrow> 'w \<Rightarrow> string list \<Rightarrow> string \<Rightarrow> go_panic + string" where
  "cluster_tag_loop env region instanceID w [] clusterName = Inr clusterName"
| "cluster_tag_loop env region instanceID w (tag # tags) clusterName =
     (case getClusterTag env region tag instanceID w of
        Inl p \<Rightarrow> Inl p
      | Inr (Inl e) \<Rightarrow> cluster_tag_loop env region instanceID w tags []
      | Inr (Inr v) \<Rightarrow> if v \<noteq> [] then Inr v else cluster_tag_loop env region instanceID w tags v)"

definition getClusterName :: "'w events_env \<Rightarrow> string \<Rightarrow> string \<Rightarrow> 'w \<Rightarrow> go_panic + string" where
  "getClusterName env region instanceID w =
     (case cluster_tag_loop env region instanceID w clusterNameTags [] of
        Inl p \<Rightarrow> Inl p
      | Inr clusterName \<Rightarrow> Inr (if clusterName = [] then DEFAULT_CLUSTER_NAME else clusterName))"

text \<open>The cluster name of the cloud; the flags are never parsed, so the region of the configuration is
  empty and comes from the metadata.\<close>

definition NewCloud :: "'w events_env \<Rightarrow> string \<Rightarrow> 'w \<Rightarrow> go_panic + string + string" where
  "NewCloud env cfg_Region w =
     (case LoadDefaultConfig env w of
        Some e \<Rightarrow> Inr (Inl (''failed to load AWS config: '' @ e))
      | None \<Rightarrow>
          (case (if cfg_Region = [] then metadata_Region env w else Inr cfg_Region) of
             Inl e \<Rightarrow> Inr (Inl (''failed to introspect region from EC2Metadata, specify --aws-region instead if EC2Metadata is unavailable: '' @ e))
           | Inr region \<Rightarrow>
               (case metadata_InstanceID env w of
                  Inl e \<Rightarrow> Inr (Inl (''failed to get instanceIdentityDocument from EC2Metadata: '' @ e))
                | Inr instanceID \<Rightarrow>
                    (case getClusterName env region instanceID w of
                       Inl p \<Rightarrow> Inl p
                     | Inr clusterName \<Rightarrow> Inr (Inr clusterName)))))"

fun group_exists :: "string \<Rightarrow> string option list \<Rightarrow> go_panic + bool" where
  "group_exists name [] = Inr False"
| "group_exists name (None # gs) = Inl NilDereference"
| "group_exists name (Some g # gs) = (if g = name then Inr True else group_exists name gs)"

definition ensureLogGroupExists :: "'w events_env \<Rightarrow> string \<Rightarrow> 'w \<Rightarrow> (go_panic + string option) \<times> 'w" where
  "ensureLogGroupExists env name w =
     (case DescribeLogGroups env w of
        Inl e \<Rightarrow> (Inr (Some e), w)
      | Inr groups \<Rightarrow>
          (case group_exists name groups of
             Inl p \<Rightarrow> (Inl p, w)
           | Inr True \<Rightarrow> (Inr None, w)
           | Inr False \<Rightarrow>
               (case CreateLogGroup env name w of
                  (None, w') \<Rightarrow> (Inr None, w')
                | (Some ResourceAlreadyExists, w') \<Rightarrow> (Inr None, w')
                | (Some (AwsError e), w') \<Rightarrow> (Inr (Some e), w'))))"

definition setupCW :: "'w events_env \<Rightarrow> cw_vars \<times> 'w \<Rightarrow> (go_panic + string option) \<times> cw_vars \<times> 'w" where
  "setupCW env = (\<lambda>(cw, w).
     case NewCloud env [] w of
       Inl p \<Rightarrow> (Inl p, cw, w)
     | Inr (Inl e) \<Rightarrow> (Inr (Some e), cw, w)
     | Inr (Inr clusterName) \<Rightarrow>
         let customlogGroupName = (if clusterName = DEFAULT_CLUSTER_NAME then NON_EKS_CW_PATH else EKS_CW_PATH) @ clusterName @ ''/cluster''
         in case ensureLogGroupExists env customlogGroupName w of
              (Inl p, w') \<Rightarrow> (Inl p, cw, w')
            | (Inr (Some e), w') \<Rightarrow> (Inr (Some e), cw, w')
            | (Inr None, w') \<Rightarrow> (Inr None, cw\<lparr>logGroupName := customlogGroupName\<rparr>, w'))"

text \<open>Without an error the loop runs on the events that arrive from then on.\<close>

definition ConfigurePolicyEventsLogging ::
  "'w events_env \<Rightarrow> bool \<Rightarrow> int \<Rightarrow> cw_vars \<times> 'w \<Rightarrow> (go_panic + string option) \<times> cw_vars \<times> 'w" where
  "ConfigurePolicyEventsLogging env cloudWatch mapFD = (\<lambda>(cw, w).
     if mapFD \<le> 0 then (Inr (Some (''Invalid Ringbuffer FD: '' @ int_string mapFD)), cw, w)
     else (case InitRingBuffer env [mapFD] w of
             (Some e, w') \<Rightarrow> (Inr (Some e), cw, w')
           | (None, w') \<Rightarrow> if cloudWatch then setupCW env (cw, w') else (Inr None, cw, w')))"

section \<open>The loop as accounting and publication\<close>

definition events_of :: "event_config \<Rightarrow> byte list list \<Rightarrow> event list" where
  "events_of cfg records = List.map_filter (read_event (events_IPv6 cfg) (nodeName cfg)) records"

definition drops :: "string \<Rightarrow> event list \<Rightarrow> event list" where
  "drops direction evs = filter (\<lambda>ev. ev_deny ev \<and> ev_direction ev = direction) evs"

definition account_drops :: "event list \<Rightarrow> policy_metrics \<Rightarrow> policy_metrics" where
  "account_drops evs m = m\<lparr>dropCountTotal := (\<lambda>d. dropCountTotal m d + length (drops d evs)),
     dropBytesTotal := (\<lambda>d. dropBytesTotal m d + sum_list (map ev_size (drops d evs)))\<rparr>"

fun publish_all :: "'w events_env \<Rightarrow> string list \<Rightarrow> cw_vars \<times> 'w \<Rightarrow> string + cw_vars \<times> 'w" where
  "publish_all env [] s = Inr s"
| "publish_all env (message # messages) s =
     (case publishDataToCloudwatch env message s of Inl e \<Rightarrow> Inl e | Inr (_, s') \<Rightarrow> publish_all env messages s')"

lemma publish_not_done: "publishDataToCloudwatch env message s = Inr (done, s') \<Longrightarrow> \<not> done"
  by (auto simp: publishDataToCloudwatch_def Let_def split: prod.splits if_splits option.splits sum.splits)

lemma account_drops_Cons: "account_drops (ev # evs) m = account_drops evs (count_drop ev m)"
  by (rule policy_metrics.equality) (auto simp: account_drops_def count_drop_def drops_def fun_eq_iff)

lemma account_drops_Nil: "account_drops [] m = m"
  by (simp add: account_drops_def drops_def)

lemma events_of_Cons:
  "events_of cfg (bs # records) = (case read_event (events_IPv6 cfg) (nodeName cfg) bs of None \<Rightarrow> events_of cfg records | Some ev \<Rightarrow> ev # events_of cfg records)"
  by (cases "read_event (events_IPv6 cfg) (nodeName cfg) bs") (simp_all add: events_of_def List.map_filter_simps)

lemma capture_loop_splits:
  "capture_loop env cfg records m s =
     (case publish_all env (map ev_message (filter (publishes cfg) (events_of cfg records))) s of
        Inl e \<Rightarrow> Inl e | Inr s' \<Rightarrow> Inr (account_drops (events_of cfg records) m, s'))"
proof (induction records arbitrary: m s)
  case Nil
  show ?case by (simp add: events_of_def List.map_filter_simps account_drops_Nil)
next
  case (Cons bs records)
  show ?case
  proof (cases "read_event (events_IPv6 cfg) (nodeName cfg) bs")
    case None
    then have "events_of cfg (bs # records) = events_of cfg records" by (simp add: events_of_Cons)
    with None show ?thesis by (simp only: capture_loop.simps option.case Cons)
  next
    case (Some ev)
    then have e: "events_of cfg (bs # records) = ev # events_of cfg records" by (simp add: events_of_Cons)
    show ?thesis
    proof (cases "publishDataToCloudwatch env (ev_message ev) s")
      case (Inl e)
      with Some show ?thesis unfolding e account_drops_Cons by (simp add: Cons Let_def)
    next
      case (Inr r)
      obtain d s' where r: "r = (d, s')" by (cases r)
      from publish_not_done [OF Inr [unfolded r]] have "\<not> d" .
      with Inr r Some show ?thesis unfolding e account_drops_Cons by (simp add: Cons Let_def)
    qed
  qed
qed

text \<open>The record of a packet as bytes, as the datapath writes it: two addresses of 4 or 16 bytes, the ports,
  protocol, verdict and size in four bytes each, then the direction and the tier in one byte each.\<close>

definition whole_record :: "bool \<Rightarrow> byte list \<Rightarrow> bool" where
  "whole_record v6 bs \<longleftrightarrow> (if v6 then 54 else 30) \<le> length bs"

definition word_at :: "nat \<Rightarrow> byte list \<Rightarrow> u32" where
  "word_at off bs = get_le32 (take 4 (drop off bs))"

definition rec_denied :: "bool \<Rightarrow> byte list \<Rightarrow> bool" where
  "rec_denied v6 bs \<longleftrightarrow> word_at (if v6 then 44 else 20) bs = 0"

definition rec_size :: "bool \<Rightarrow> byte list \<Rightarrow> nat" where
  "rec_size v6 bs = unat (word_at (if v6 then 48 else 24) bs)"

definition rec_direction :: "bool \<Rightarrow> byte list \<Rightarrow> string" where
  "rec_direction v6 bs = (if bs ! (if v6 then 52 else 28) = 0 then ''ingress'' else ''egress'')"

definition rec_message :: "bool \<Rightarrow> string \<Rightarrow> byte list \<Rightarrow> string" where
  "rec_message v6 node bs =
     (let n = (if v6 then 16 else 4);
          verdict = word_at (2 * n + 12) bs;
          tier = bs ! (2 * n + 21)
      in ''Node: '' @ node @ '';SIP: '' @ IP_String (take n bs) @ '';SPORT: '' @ int_string (uint (word_at n bs)) @
         '';DIP: '' @ IP_String (take n (drop (n + 4) bs)) @ '';DPORT: '' @ int_string (uint (word_at (2 * n + 4) bs)) @
         '';PROTOCOL: '' @ GetProtocol (uint (word_at (2 * n + 8) bs)) @
         '';PolicyVerdict: '' @ (if verdict = 1 then ''ACCEPT'' else if verdict = 2 then ''EXPIRED/DELETED'' else ''DENY'') @
         '';Tier: '' @ (if tier = 1 then ''ADMIN'' else if tier = 2 then ''NETWORK_POLICY'' else if tier = 3 then ''BASELINE''
           else if tier = 4 then ''DEFAULT'' else ''ERROR''))"

lemma read_event_record:
  "read_event v6 node bs = (if whole_record v6 bs
     then Some \<lparr>ev_deny = rec_denied v6 bs, ev_direction = rec_direction v6 bs, ev_size = rec_size v6 bs,
       ev_message = rec_message v6 node bs\<rparr> else None)"
proof -
  have ip: "ConvIntToIPv4 (get_le32 (take 4 (drop off bs))) = take 4 (drop off bs)" if "off + 4 \<le> length bs" for off
    using that by (simp add: ConvIntToIPv4_def put_get_le32)
  have ver: "getVerdict (uint w) = (if w = 1 then ''ACCEPT'' else if w = 2 then ''EXPIRED/DELETED'' else ''DENY'')" for w :: u32
    by (auto simp: getVerdict_def word_uint_eq_iff)
  have tier: "getTier (uint w) = (if w = 1 then ''ADMIN'' else if w = 2 then ''NETWORK_POLICY'' else if w = 3 then ''BASELINE''
      else if w = 4 then ''DEFAULT'' else ''ERROR'')" for w :: u8
    by (auto simp: getTier_def word_uint_eq_iff)
  note defs = read_event_def read_v4_def read_v6_def event_v4_def event_v6_def event_message_def VerdictDeny_def direction_of_def
    whole_record_def word_at_def rec_denied_def rec_size_def rec_direction_def rec_message_def get_at_def Let_def
  show ?thesis
  proof (cases v6)
    case True
    then show ?thesis by (simp add: defs ver tier ConvByteToIPv6_def)
  next
    case False
    then show ?thesis using ip [of 0] ip [of 8] by (simp add: defs ver tier ConvByteArrayToIP_def)
  qed
qed

lemma filter_events:
  "map h (filter Q (List.map_filter (\<lambda>x. if P x then Some (g x) else None) xs)) = map (h \<circ> g) (filter (\<lambda>x. P x \<and> Q (g x)) xs)"
  by (induction xs) (simp_all add: List.map_filter_simps)

lemma capture_loop_records:
  "capture_loop env cfg records m s =
     (let v6 = events_IPv6 cfg;
          rs = filter (whole_record v6) records;
          dropped = (\<lambda>d. filter (\<lambda>bs. rec_denied v6 bs \<and> rec_direction v6 bs = d) rs);
          published = filter (\<lambda>bs. enableCloudWatchLogs cfg \<and> (rec_denied v6 bs \<or> events_logLevel cfg = ''debug'')) rs
      in case publish_all env (map (rec_message v6 (nodeName cfg)) published) s of
           Inl e \<Rightarrow> Inl e
         | Inr s' \<Rightarrow> Inr (m\<lparr>dropCountTotal := (\<lambda>d. dropCountTotal m d + length (dropped d)),
             dropBytesTotal := (\<lambda>d. dropBytesTotal m d + sum_list (map (rec_size v6) (dropped d)))\<rparr>, s'))"
proof -
  let ?v6 = "events_IPv6 cfg"
  let ?g = "\<lambda>bs. \<lparr>ev_deny = rec_denied ?v6 bs, ev_direction = rec_direction ?v6 bs, ev_size = rec_size ?v6 bs,
       ev_message = rec_message ?v6 (nodeName cfg) bs\<rparr>"
  have e: "events_of cfg records = List.map_filter (\<lambda>bs. if whole_record ?v6 bs then Some (?g bs) else None) records"
    unfolding events_of_def by (rule arg_cong2 [where f = List.map_filter, OF ext refl]) (rule read_event_record)
  have d: "map h (drops d (events_of cfg records)) =
      map (h \<circ> ?g) (filter (\<lambda>bs. whole_record ?v6 bs \<and> rec_denied ?v6 bs \<and> rec_direction ?v6 bs = d) records)" for h :: "event \<Rightarrow> 'c" and d
    unfolding e drops_def filter_events by simp
  have len: "length (drops d (events_of cfg records)) =
      length (filter (\<lambda>bs. whole_record ?v6 bs \<and> rec_denied ?v6 bs \<and> rec_direction ?v6 bs = d) records)" for d
    using arg_cong [OF d [of "\<lambda>x. x" d], of length] by simp
  have p: "map ev_message (filter (publishes cfg) (events_of cfg records)) = map (rec_message ?v6 (nodeName cfg))
      (filter (\<lambda>bs. whole_record ?v6 bs \<and> enableCloudWatchLogs cfg \<and> (rec_denied ?v6 bs \<or> events_logLevel cfg = ''debug'')) records)"
    unfolding e filter_events by (simp add: publishes_def comp_def)
  have sizes: "ev_size \<circ> ?g = rec_size ?v6" by (simp add: fun_eq_iff)
  show ?thesis
    unfolding capture_loop_splits p account_drops_def len d sizes Let_def filter_filter ..
qed

text \<open>A history of the requests to CloudWatch: the log group and the line of each, in the order in which they
  were made. Creating a stream and drawing its name are no such requests.\<close>

definition put_log :: "'w events_env \<Rightarrow> ('w \<Rightarrow> (string \<times> string) list) \<Rightarrow> bool" where
  "put_log env sent \<longleftrightarrow>
     (\<forall>inp w. sent (snd (PutLogEvents env inp w)) = sent w @ [(in_LogGroupName inp, in_Message inp)]) \<and>
     (\<forall>grp stream w. sent (snd (CreateLogStream env grp stream w)) = sent w) \<and>
     (\<forall>w. sent (snd (uuid_New env w)) = sent w)"

lemma put_logD:
  assumes "put_log env sent"
  shows "PutLogEvents env inp w = (r, w1) \<Longrightarrow> sent w1 = sent w @ [(in_LogGroupName inp, in_Message inp)]"
    "CreateLogStream env grp stream w = (e, w1) \<Longrightarrow> sent w1 = sent w" "uuid_New env w = (u, w1) \<Longrightarrow> sent w1 = sent w"
  using assms unfolding put_log_def by (metis snd_conv)+

lemma createLogStream_sends:
  assumes "put_log env sent" "createLogStream env (cw, w) = (e, cw', w')"
  shows "logGroupName cw' = logGroupName cw \<and> sent w' = sent w \<and>
    (\<forall>err. e = Some err \<longrightarrow> (\<exists>w1. CreateLogStream env (logGroupName cw) (logStreamName cw') w1 = (Some err, w')))"
  using assms(2) put_logD(2, 3) [OF assms(1)]
  by (auto simp: createLogStream_def Let_def split: prod.splits)

lemma publish_sends:
  assumes log: "put_log env sent"
  shows "publishDataToCloudwatch env message (cw, w) = Inr (d, cw', w') \<Longrightarrow>
      logGroupName cw' = logGroupName cw \<and> sent w' = sent w @ [(logGroupName cw, message)]"
    "publishDataToCloudwatch env message (cw, w) = Inl err \<Longrightarrow>
      \<exists>stream w1 w2. CreateLogStream env (logGroupName cw) stream w1 = (Some err, w2)"
proof -
  obtain e cw1 w1 where c: "createLogStream env (cw, w) = (e, cw1, w1)" using prod_cases3 by blast
  note cs = createLogStream_sends [OF log c]
  show "logGroupName cw' = logGroupName cw \<and> sent w' = sent w @ [(logGroupName cw, message)]"
    if "publishDataToCloudwatch env message (cw, w) = Inr (d, cw', w')"
    using that c cs put_logD(1) [OF log]
    by (auto simp: publishDataToCloudwatch_def Let_def split: if_splits option.splits sum.splits prod.splits)
  show "\<exists>stream w1 w2. CreateLogStream env (logGroupName cw) stream w1 = (Some err, w2)"
    if "publishDataToCloudwatch env message (cw, w) = Inl err"
    using that c cs by (auto simp: publishDataToCloudwatch_def Let_def split: if_splits option.splits sum.splits prod.splits)
qed

lemma publish_all_sends:
  assumes log: "put_log env sent"
  shows "case publish_all env messages (cw, w) of
      Inl err \<Rightarrow> messages \<noteq> [] \<and> (\<exists>stream w1 w2. CreateLogStream env (logGroupName cw) stream w1 = (Some err, w2))
    | Inr (cw', w') \<Rightarrow> sent w' = sent w @ map (Pair (logGroupName cw)) messages"
proof (induction messages arbitrary: cw w)
  case Nil
  show ?case by simp
next
  case (Cons message messages)
  show ?case
  proof (cases "publishDataToCloudwatch env message (cw, w)")
    case (Inl err)
    then show ?thesis using publish_sends(2) [OF log] by simp
  next
    case (Inr r)
    obtain d cw1 w1 where r: "r = (d, cw1, w1)" by (cases r)
    with publish_sends(1) [OF log Inr [unfolded r]] Inr Cons.IH [of cw1 w1] show ?thesis
      by (auto split: sum.splits prod.splits)
  qed
qed

text \<open>C33: The event loop skips exactly the records that are shorter than their struct (30 bytes for IPv4, 54
  for IPv6). The drop counter of each direction grows by the number of records of that direction whose
  verdict is 0, deny, and its byte counter by their packet sizes. With CloudWatch logging on, the denied
  records are always sent, and the others exactly at log level debug, each in one request for the log group
  with its addresses, ports, protocol, verdict and tier as one line, in the order they came, and there are
  no other requests. The loop ends early only with the error of a log stream that could not be created,
  which without a record to send cannot happen.\<close>
theorem policy_events_accounted:
  fixes cfg :: event_config and records :: "byte list list"
  assumes log: "put_log env sent"
  defines "v6 \<equiv> events_IPv6 cfg"
  defines "rs \<equiv> filter (whole_record v6) records"
  defines "dropped \<equiv> (\<lambda>d. filter (\<lambda>bs. rec_denied v6 bs \<and> rec_direction v6 bs = d) rs)"
    and "published \<equiv> filter (\<lambda>bs. enableCloudWatchLogs cfg \<and> (rec_denied v6 bs \<or> events_logLevel cfg = ''debug'')) rs"
  shows "case capture_loop env cfg records m (cw, w) of
      Inl err \<Rightarrow> published \<noteq> [] \<and> (\<exists>stream w1 w2. CreateLogStream env (logGroupName cw) stream w1 = (Some err, w2))
    | Inr (m', cw', w') \<Rightarrow>
        m' = m\<lparr>dropCountTotal := (\<lambda>d. dropCountTotal m d + length (dropped d)),
          dropBytesTotal := (\<lambda>d. dropBytesTotal m d + sum_list (map (rec_size v6) (dropped d)))\<rparr> \<and>
        sent w' = sent w @ map (\<lambda>bs. (logGroupName cw, rec_message v6 (nodeName cfg) bs)) published"
  using publish_all_sends [OF log, of "map (rec_message v6 (nodeName cfg)) published" cw w]
  unfolding capture_loop_records dropped_def published_def rs_def v6_def
  by (auto simp: Let_def comp_def split: sum.splits)

text \<open>The datapath's record of a packet, laid out as its C struct.\<close>

definition encode_v4 :: "ringBufferDataV4_t \<Rightarrow> byte list" where
  "encode_v4 rb = put_le32 (v4_SourceIP rb) @ put_le32 (v4_SourcePort rb) @ put_le32 (v4_DestIP rb) @ put_le32 (v4_DestPort rb) @
     put_le32 (v4_Protocol rb) @ put_le32 (v4_Verdict rb) @ put_le32 (v4_PacketSz rb) @ [v4_IsEgress rb, v4_Tier rb]"

lemma read_encode_v4: "read_v4 (encode_v4 rb @ padding) = Some rb"
  by (simp add: read_v4_def Let_def encode_v4_def nth_append get_at_append_skip get_at_def)

text \<open>While there is no sequence token a stream is created for each event, and the event goes to the
  stream that was current before: the first event of all to the empty name.\<close>
theorem first_event_without_stream:
  assumes "publishDataToCloudwatch env message (cw_init, w) = Inr (done, cw', w')"
  shows "\<exists>u w1 w2 r input. uuid_New env w = (u, w1) \<and> logStreamName cw' = ''aws-network-policy-agent-audit-'' @ u \<and>
    CreateLogStream env [] (logStreamName cw') w1 = (None, w2) \<and>
    PutLogEvents env input w2 = (r, w') \<and> in_Message input = message \<and> in_LogStreamName input = []"
proof -
  obtain u w1 where u: "uuid_New env w = (u, w1)" by force
  obtain e w2 where c: "CreateLogStream env [] (''aws-network-policy-agent-audit-'' @ u) w1 = (e, w2)" by force
  with assms u have e: "e = None" by (cases e) (auto simp: publishDataToCloudwatch_def createLogStream_def cw_init_def Let_def)
  let ?input = "\<lparr>in_Message = message, in_Timestamp = time_Now_ms env w, in_LogGroupName = [], in_LogStreamName = [], in_SequenceToken = None\<rparr>"
  obtain r w3 where p: "PutLogEvents env ?input w2 = (r, w3)" by force
  with assms u c e have "w' = w3 \<and> logStreamName cw' = ''aws-network-policy-agent-audit-'' @ u"
    by (cases r) (auto simp: publishDataToCloudwatch_def createLogStream_def cw_init_def Let_def split: option.splits)
  with u c e p show ?thesis by (intro exI [of _ u] exI [of _ w1] exI [of _ w2] exI [of _ r] exI [of _ ?input]) simp
qed

text \<open>A CloudWatch that keeps the requests, and three records: an accepted packet, a record that is cut
  short and a denied packet of 60 bytes.\<close>

definition example_events :: "(string \<times> string) list events_env" where
  "example_events = \<lparr>LoadDefaultConfig = (\<lambda>_. None), metadata_Region = (\<lambda>_. Inr ''us-west-2''), metadata_InstanceID = (\<lambda>_. Inr ''i-1''),
     DescribeTags = (\<lambda>_ _ _ _. Inr []), DescribeLogGroups = (\<lambda>_. Inr []), CreateLogGroup = (\<lambda>_ w. (None, w)),
     CreateLogStream = (\<lambda>_ _ w. (None, w)), PutLogEvents = (\<lambda>inp w. (Inr None, w @ [(in_LogGroupName inp, in_Message inp)])),
     uuid_New = (\<lambda>w. (''u'', w)), time_Now_ms = (\<lambda>_. 0), InitRingBuffer = (\<lambda>_ w. (None, w))\<rparr>"

definition example_record :: "u32 \<Rightarrow> byte list" where
  "example_record verdict = encode_v4 \<lparr>v4_SourceIP = 0x0100000A, v4_SourcePort = 40000, v4_DestIP = 0x0200000A, v4_DestPort = 80,
     v4_Protocol = 6, v4_Verdict = verdict, v4_PacketSz = 60, v4_IsEgress = 0, v4_Tier = 2\<rparr>"

definition example_events_config :: event_config where
  "example_events_config = \<lparr>enableCloudWatchLogs = True, events_IPv6 = False, events_logLevel = ''info'', nodeName = ''n1''\<rparr>"

definition no_drops :: policy_metrics where "no_drops = \<lparr>dropCountTotal = (\<lambda>_. 0), dropBytesTotal = (\<lambda>_. 0)\<rparr>"

lemma example_events_log: "put_log example_events id"
  by (simp add: put_log_def example_events_def)

lemma example_records:
  "whole_record False (example_record 1)" "\<not> whole_record False [0, 0]" "whole_record False (example_record 0)"
  "rec_denied False (example_record 0)" "\<not> rec_denied False (example_record 1)" "rec_direction False (example_record 0) = ''ingress''"
  "rec_size False (example_record 0) = 60"
  by code_simp+

theorem policy_events_accounted_witness:
  "\<exists>m' cw' w'. capture_loop example_events example_events_config [example_record 1, [0, 0], example_record 0] no_drops (cw_init, []) = Inr (m', cw', w') \<and>
     dropCountTotal m' ''ingress'' = 1 \<and> dropBytesTotal m' ''ingress'' = 60 \<and> dropCountTotal m' ''egress'' = 0 \<and>
     w' = [([], rec_message False ''n1'' (example_record 0))]"
proof -
  let ?run = "capture_loop example_events example_events_config [example_record 1, [0, 0], example_record 0] no_drops (cw_init, [])"
  have "CreateLogStream example_events grp stream w1 \<noteq> (Some err, w2)" for grp stream w1 err w2 by (simp add: example_events_def)
  moreover have "enableCloudWatchLogs example_events_config" "\<not> events_IPv6 example_events_config" "nodeName example_events_config = ''n1''"
      "events_logLevel example_events_config \<noteq> ''debug''" "dropCountTotal no_drops d = 0" "dropBytesTotal no_drops d = 0" "logGroupName cw_init = []" for d
    by (simp_all add: example_events_config_def no_drops_def cw_init_def)
  moreover note policy_events_accounted [OF example_events_log,
      where cfg = example_events_config and records = "[example_record 1, [0, 0], example_record 0]" and m = no_drops and cw = cw_init and w = "[]"]
  ultimately show ?thesis
    by (cases ?run) (auto simp: example_records simp del: capture_loop.simps)
qed

end
