(* ===== verification/BpfStartup.thy ===== *)
theory BpfStartup
  imports Tiers Conntrack PinMigration PolicyEvents
begin

text \<open>
  \<^verbatim>\<open>pkg/ebpf/bpf_client.go\<close>, the start of the agent: comparing the probe binaries, recovering the
  programs and maps that an earlier run left pinned, attaching updated probes again, loading the
  interface counts, and \<^verbatim>\<open>NewBpfClient\<close>, which does all of it. The files of the host are explicit
  (theory \<open>HostFs\<close>); what the eBPF SDK and the TC client recover is the parameter \<open>startup_env\<close>, whose
  association lists are in the order the loops visit them. The lemmas show that a client that has
  recovered or reattached satisfies the invariant of theory \<open>BpfInvariant\<close>, and that the policies in
  force stay in force over a restart.
\<close>

section \<open>The binaries\<close>

definition TC_INGRESS_BINARY :: string where "TC_INGRESS_BINARY = ''tc.v4ingress.bpf.o''"
definition TC_EGRESS_BINARY :: string where "TC_EGRESS_BINARY = ''tc.v4egress.bpf.o''"
definition TC_V6_INGRESS_BINARY :: string where "TC_V6_INGRESS_BINARY = ''tc.v6ingress.bpf.o''"
definition TC_V6_EGRESS_BINARY :: string where "TC_V6_EGRESS_BINARY = ''tc.v6egress.bpf.o''"
definition EVENTS_BINARY :: string where "EVENTS_BINARY = ''v4events.bpf.o''"
definition EVENTS_V6_BINARY :: string where "EVENTS_V6_BINARY = ''v6events.bpf.o''"
definition AWS_CONNTRACK_MAP :: string where "AWS_CONNTRACK_MAP = ''aws_conntrack_map''"
definition AWS_EVENTS_MAP :: string where "AWS_EVENTS_MAP = ''policy_events''"
definition hostBinaryPath :: string where "hostBinaryPath = ''/host/opt/cni/bin/''"
definition IPv4_HOST_MASK :: string where "IPv4_HOST_MASK = ''/32''"
definition IPv6_HOST_MASK :: string where "IPv6_HOST_MASK = ''/128''"
definition POLICY_EVENTS_MAP_PIN_PATH :: string where
  "POLICY_EVENTS_MAP_PIN_PATH = ''/sys/fs/bpf/globals/aws/maps/global_policy_events''"

lemmas binary_defs = TC_INGRESS_BINARY_def TC_EGRESS_BINARY_def TC_V6_INGRESS_BINARY_def TC_V6_EGRESS_BINARY_def
  EVENTS_BINARY_def EVENTS_V6_BINARY_def EKS_CLI_BINARY_def EKS_V6_CLI_BINARY_def

text \<open>The flags are \<^verbatim>\<open>updateIngressProbe\<close>, \<^verbatim>\<open>updateEgressProbe\<close> and \<^verbatim>\<open>updateEventsProbe\<close>; errors of the
  reads are logged only, and what they returned is compared.\<close>

definition same_probe :: "os_faults \<Rightarrow> string \<Rightarrow> fs \<Rightarrow> string \<Rightarrow> bool" where
  "same_probe F hostPath f bpfProbe \<longleftrightarrow> fst (os_ReadFile F bpfProbe f) = fst (os_ReadFile F (hostPath @ bpfProbe) f)"

fun check_loop :: "os_faults \<Rightarrow> string \<Rightarrow> fs \<Rightarrow> string list \<Rightarrow> bool \<times> bool \<times> bool \<Rightarrow> bool \<times> bool \<times> bool" where
  "check_loop F hostPath f [] flags = flags"
| "check_loop F hostPath f (bpfProbe # probes) (ing, eg, ev) =
     (if bpfProbe = EKS_CLI_BINARY \<or> bpfProbe = EKS_V6_CLI_BINARY then check_loop F hostPath f probes (ing, eg, ev)
      else if same_probe F hostPath f bpfProbe then check_loop F hostPath f probes (ing, eg, ev)
      else if bpfProbe = EVENTS_BINARY \<or> bpfProbe = EVENTS_V6_BINARY then (True, True, True)
      else check_loop F hostPath f probes
             (ing \<or> bpfProbe = TC_INGRESS_BINARY \<or> bpfProbe = TC_V6_INGRESS_BINARY,
              eg \<or> bpfProbe = TC_EGRESS_BINARY \<or> bpfProbe = TC_V6_EGRESS_BINARY, ev))"

definition checkAndUpdateBPFBinaries :: "os_faults \<Rightarrow> string list \<Rightarrow> string \<Rightarrow> fs \<Rightarrow> bool \<times> bool \<times> bool" where
  "checkAndUpdateBPFBinaries F bpfBinaries hostPath f = check_loop F hostPath f bpfBinaries (False, False, False)"

section \<open>Recovering\<close>

record checkpoint_entry =
  entry_PodName :: string
  entry_PodNamespace :: string
  entry_InterfacesCount :: int

record 'k startup_env =
  su_bpf :: "'k bpf_env"
  su_faults :: os_faults
  su_migration :: migration_env
  su_events :: "'k events_env"
  RecoverGlobalMaps :: "fs \<Rightarrow> 'k \<Rightarrow> (string + (string, BpfMap) go_map) \<times> 'k"
  RecoverAllBpfProgramsAndMaps :: "fs \<Rightarrow> 'k \<Rightarrow> ((string, BpfData) go_map \<times> string option) \<times> 'k"
  GetAllBpfProgramsAndMaps :: "fs \<Rightarrow> 'k \<Rightarrow> (string + (string, BpfData) go_map) \<times> 'k"
  GetAllAttachedProgIds :: "'k \<Rightarrow> dir \<Rightarrow> (string, int) go_map"
  CleanupQdiscs :: "bool \<Rightarrow> bool \<Rightarrow> 'k \<Rightarrow> string option \<times> 'k"
  LoadBpfFileWithCustomData :: "string \<Rightarrow> string \<Rightarrow> (string, int) go_map \<Rightarrow> 'k \<Rightarrow> (string + (string, BpfMap) go_map) \<times> 'k"
  checkpoint_json :: "byte list \<Rightarrow> string + checkpoint_entry list"

record recovery =
  isConntrackMapPresent :: bool
  isPolicyEventsMapPresent :: bool
  eventsMapFD :: int
  recoveredPinPath :: "dir \<Rightarrow> (string, string) go_map"

definition no_recovery :: recovery where
  "no_recovery = \<lparr>isConntrackMapPresent = False, isPolicyEventsMapPresent = False, eventsMapFD = 0, recoveredPinPath = (\<lambda>_. [])\<rparr>"

definition global_step :: "string \<times> BpfMap \<Rightarrow> recovery \<times> bpfClient \<Rightarrow> recovery \<times> bpfClient" where
  "global_step = (\<lambda>(globalMapName, globalMap) (r, l).
     let (r1, l1) = (if globalMapName = CONNTRACK_MAP_PIN_PATH
           then (r\<lparr>isConntrackMapPresent := True\<rparr>, l\<lparr>globalMaps := (globalMaps l)(globalMapName \<mapsto> globalMap)\<rparr>) else (r, l))
     in (if globalMapName = POLICY_EVENTS_MAP_PIN_PATH
         then r1\<lparr>isPolicyEventsMapPresent := True, eventsMapFD := int (MapFD globalMap)\<rparr> else r1, l1))"

text \<open>A shadow map that cannot be loaded is left out and loaded later, when it is needed.\<close>

definition recover_shadow ::
  "'k map_sdk \<Rightarrow> map_kind \<Rightarrow> dir \<Rightarrow> string \<Rightarrow> BpfData \<Rightarrow> 'k \<Rightarrow> bpfClient \<Rightarrow> go_panic + bpfClient" where
  "recover_shadow sdk kd d podIdentifier bpfEntry k l =
     (case map_of (Maps bpfEntry) (mapName kd d) of
        None \<Rightarrow> Inr l
      | Some m \<Rightarrow>
          if inMemoryMap l kd d podIdentifier \<noteq> None then Inr l
          else (case NewInMemoryBpfMap sdk m k of
                  Inl (Panic p) \<Rightarrow> Inl p
                | Inl (Err e) \<Rightarrow> Inr l
                | Inr inMemMap \<Rightarrow> Inr (store_shadow kd d ((inMemoryMap l kd d)(podIdentifier \<mapsto> inMemMap)) l)))"

definition recover_direction ::
  "'k map_sdk \<Rightarrow> dir \<Rightarrow> string \<Rightarrow> BpfData \<Rightarrow> 'k \<Rightarrow> bpfClient \<Rightarrow> go_panic + bpfClient" where
  "recover_direction sdk d podIdentifier bpfEntry k l =
     (case recover_shadow sdk PolicyMap d podIdentifier bpfEntry k l of
        Inl p \<Rightarrow> Inl p
      | Inr l1 \<Rightarrow> recover_shadow sdk ClusterPolicyMap d podIdentifier bpfEntry k l1)"

definition store_context :: "string \<Rightarrow> BPFContext \<Rightarrow> bpfClient \<Rightarrow> bpfClient" where
  "store_context podIdentifier c l = l\<lparr>policyEndpointeBPFContext := (policyEndpointeBPFContext l)(podIdentifier \<mapsto> c)\<rparr>"

definition recover_entry ::
  "'k map_sdk \<Rightarrow> (dir \<Rightarrow> bool) \<Rightarrow> 'k \<Rightarrow> string \<times> BpfData \<Rightarrow> bpfClient \<Rightarrow> go_panic + bpfClient" where
  "recover_entry sdk update k = (\<lambda>(pinPath, bpfEntry) l.
     case GetPodIdentifierFromBPFPinPath pinPath of
       Inl p \<Rightarrow> Inl p
     | Inr (podIdentifier, direction) \<Rightarrow>
         let peBPFContext = context_of l podIdentifier;
             with = (\<lambda>d. peBPFContext\<lparr>pgmInfo := (pgmInfo peBPFContext)(d := bpfEntry)\<rparr>)
         in if direction = ''ingress'' \<and> \<not> update Ingress then
              map_sum id (store_context podIdentifier (with Ingress)) (recover_direction sdk Ingress podIdentifier bpfEntry k l)
            else if direction = ''egress'' \<and> \<not> update Egress then
              map_sum id (store_context podIdentifier (with Egress)) (recover_direction sdk Egress podIdentifier bpfEntry k l)
            else Inr (store_context podIdentifier peBPFContext l))"

text \<open>The pins of the programs that are attached to an interface and will be replaced.\<close>

definition progIdToPinPath :: "(string, BpfData) go_map \<Rightarrow> int \<rightharpoonup> string" where
  "progIdToPinPath bpfState =
     fold (\<lambda>(pinPath, bpfData) m. if ProgID (Program bpfData) > 0 then m(ProgID (Program bpfData) \<mapsto> pinPath) else m) bpfState Map.empty"

definition attached_pins :: "(int \<rightharpoonup> string) \<Rightarrow> (string, int) go_map \<Rightarrow> (string, string) go_map" where
  "attached_pins pins interfaceToProgIds =
     fold (\<lambda>(interfaceName, progId) m. case pins progId of None \<Rightarrow> m | Some pinPath \<Rightarrow> AList.update interfaceName pinPath m) interfaceToProgIds []"

definition collect_attached ::
  "'k startup_env \<Rightarrow> (dir \<Rightarrow> bool) \<Rightarrow> fs \<Rightarrow> recovery \<Rightarrow> 'k \<Rightarrow> (recovery \<times> string option) \<times> 'k" where
  "collect_attached su update f r k =
     (case GetAllBpfProgramsAndMaps su f k of
        (Inl e, k1) \<Rightarrow> ((r, Some e), k1)
      | (Inr bpfState, k1) \<Rightarrow>
          let pins = progIdToPinPath bpfState;
              attached = GetAllAttachedProgIds su k1;
              k2 = snd (CleanupQdiscs su (update Ingress) (update Egress) k1)
          in ((r\<lparr>recoveredPinPath := (\<lambda>d. if update d then attached_pins pins (attached d) else [])\<rparr>, None), k2))"

definition recoverBPFState ::
  "'k startup_env \<Rightarrow> (dir \<Rightarrow> bool) \<Rightarrow> bool \<Rightarrow> bpfClient \<Rightarrow> fs \<Rightarrow> 'k \<Rightarrow> (go_panic + recovery \<times> string option \<times> bpfClient) \<times> fs \<times> 'k" where
  "recoverBPFState su update updateEventsProbe l f0 k0 =
     (let f = snd (migrateLegacyPinsFromCNIState (su_faults su) (su_migration su) BPF_PROGRAMS_PIN_PATH_DIRECTORY
                BPF_MAPS_PIN_PATH_DIRECTORY cniIpamStatePath formatV2MarkerPath f0);
          (globals, k1) = (if updateEventsProbe then (Inr [], k0) else RecoverGlobalMaps su f k0)
      in case globals of
           Inl e \<Rightarrow> (Inr (no_recovery, None, l), f, k1)
         | Inr recoveredGlobalMaps \<Rightarrow>
             let (r, l1) = fold global_step recoveredGlobalMaps (no_recovery, l);
                 ((bpfState, e), k2) = (if \<not> update Ingress \<or> \<not> update Egress then RecoverAllBpfProgramsAndMaps su f k1 else (([], None), k1))
             in case fold_panic (recover_entry (map_api (su_bpf su)) update k2) bpfState l1 of
                  Inl p \<Rightarrow> (Inl p, f, k2)
                | Inr l2 \<Rightarrow>
                    if update Ingress \<or> update Egress then
                      (case collect_attached su update f r k2 of ((r', err), k3) \<Rightarrow> (Inr (r', err, l2), f, k3))
                    else (Inr (r, None, l2), f, k2))"

section \<open>Attaching again, interface counts\<close>

definition BPF_DEFAULT_ALLOW :: int where "BPF_DEFAULT_ALLOW = 1"
definition BPF_DEFAULT_DENY :: int where "BPF_DEFAULT_DENY = 2"

definition reattach_step ::
  "'k bpf_env \<Rightarrow> dir \<Rightarrow> int \<Rightarrow> string \<times> string \<Rightarrow> bpfClient \<times> 'k \<Rightarrow> go_panic + bpfClient \<times> 'k" where
  "reattach_step env d state = (\<lambda>(interfaceName, pinPath) (l, k).
     case GetPodIdentifierFromBPFPinPath pinPath of
       Inl p \<Rightarrow> Inl p
     | Inr (podIdentifier, _) \<Rightarrow>
         let (_, l1, k1) = attach_probe env d interfaceName podIdentifier l k;
             (_, k2) = UpdatePodStateEbpfMaps env podIdentifier POD_STATE_MAP_KEY state (d = Ingress) (d = Egress) l1 k1;
             (_, k3) = UpdatePodStateEbpfMaps env podIdentifier CLUSTER_POLICY_POD_STATE_MAP_KEY state (d = Ingress) (d = Egress) l1 k2
         in Inr (l1, k3))"

text \<open>\<open>ord\<close> is the order in which the runtime visits the interfaces. Errors are logged only.\<close>

definition ReAttachEbpfProbes ::
  "'k bpf_env \<Rightarrow> ((string \<times> string) list \<Rightarrow> (string \<times> string) list) \<Rightarrow> bpfClient \<times> 'k \<Rightarrow> go_panic + bpfClient \<times> 'k" where
  "ReAttachEbpfProbes env ord = (\<lambda>(l, k).
     let state = (if IsStrictMode (networkPolicyMode l) then BPF_DEFAULT_DENY else BPF_DEFAULT_ALLOW)
     in case fold_panic (reattach_step env Ingress state) (ord (interfaceNametoPinPath l Ingress)) (l, k) of
          Inl p \<Rightarrow> Inl p
        | Inr (l1, k1) \<Rightarrow> fold_panic (reattach_step env Egress state) (ord (interfaceNametoPinPath l1 Egress)) (l1, k1))"

definition ipam_step :: "checkpoint_entry \<Rightarrow> bpfClient \<Rightarrow> bpfClient" where
  "ipam_step entry l =
     (if entry_PodName entry = [] \<or> entry_PodNamespace entry = [] then l
      else if entry_InterfacesCount entry > 0 then
        l\<lparr>podNameToInterfaceCount := (podNameToInterfaceCount l)
            (GetPodNamespacedName (entry_PodName entry) (entry_PodNamespace entry) \<mapsto> entry_InterfacesCount entry)\<rparr>
      else l)"

definition loadIPAMDataFromFile :: "'k startup_env \<Rightarrow> string \<Rightarrow> fs \<Rightarrow> bpfClient \<Rightarrow> string option \<times> bpfClient" where
  "loadIPAMDataFromFile su filePath f l =
     (case os_ReadFile (su_faults su) filePath f of
        (_, Some e) \<Rightarrow> (Some (''failed to read ipam.json file: '' @ err_string e), l)
      | (data, None) \<Rightarrow>
          (case checkpoint_json su (case data of None \<Rightarrow> [] | Some bs \<Rightarrow> bs) of
             Inl e \<Rightarrow> (Some (''failed to parse ipam.json: '' @ e), l)
           | Inr allocations \<Rightarrow> (None, fold ipam_step allocations l)))"

section \<open>NewBpfClient\<close>

record client_config =
  cfg_nodeIP :: string
  cfg_enablePolicyEventLogs :: bool
  cfg_enableCloudWatchLogs :: bool
  cfg_enableIPv6 :: bool
  cfg_conntrackTableSize :: int
  cfg_networkPolicyMode :: string
  cfg_isMultiNICEnabled :: bool

definition IPAM_JSON_PATH :: string where "IPAM_JSON_PATH = ''/var/run/aws-node/ipam.json''"

definition NewFirewallRuleProcessor :: "string \<Rightarrow> string \<Rightarrow> bool \<Rightarrow> FirewallRuleProcessor" where
  "NewFirewallRuleProcessor nodeIP host_mask v6 = \<lparr>fwrp_nodeIP = nodeIP, fwrp_hostMask = host_mask, fwrp_enableIPv6 = v6\<rparr>"

definition bpf_binaries :: "bool \<Rightarrow> string list" where
  "bpf_binaries v6 = (if v6 then [EVENTS_V6_BINARY, TC_V6_INGRESS_BINARY, TC_V6_EGRESS_BINARY, EKS_V6_CLI_BINARY]
     else [EVENTS_BINARY, TC_INGRESS_BINARY, TC_EGRESS_BINARY, EKS_CLI_BINARY])"

definition initial_client :: "client_config \<Rightarrow> bpfClient" where
  "initial_client cfg =
     new_client (NewFirewallRuleProcessor (cfg_nodeIP cfg) (if cfg_enableIPv6 cfg then IPv6_HOST_MASK else IPv4_HOST_MASK) (cfg_enableIPv6 cfg))
       (\<lambda>d. case d of Ingress \<Rightarrow> (if cfg_enableIPv6 cfg then TC_V6_INGRESS_BINARY else TC_INGRESS_BINARY)
          | Egress \<Rightarrow> (if cfg_enableIPv6 cfg then TC_V6_EGRESS_BINARY else TC_EGRESS_BINARY))
       (cfg_networkPolicyMode cfg) (cfg_isMultiNICEnabled cfg)"

text \<open>The global maps, loaded when the events binary changed or one of them is missing: the conntrack
  map and the FD of the event buffer.\<close>

definition global_maps ::
  "'k startup_env \<Rightarrow> client_config \<Rightarrow> bool \<Rightarrow> recovery \<Rightarrow> 'k \<Rightarrow> (string + BpfMap \<times> int) \<times> 'k" where
  "global_maps su cfg eventsUpdateRequired r k =
     (if eventsUpdateRequired \<or> \<not> isConntrackMapPresent r \<or> \<not> isPolicyEventsMapPresent r then
        (case LoadBpfFileWithCustomData su (if cfg_enableIPv6 cfg then EVENTS_V6_BINARY else EVENTS_BINARY) ''global''
                [(AWS_CONNTRACK_MAP, cfg_conntrackTableSize cfg)] k of
           (Inl e, k') \<Rightarrow> (Inl e, k')
         | (Inr globalMapInfo, k') \<Rightarrow>
             (Inr (case map_of globalMapInfo AWS_CONNTRACK_MAP of None \<Rightarrow> zero_map | Some m \<Rightarrow> m,
                   case map_of globalMapInfo AWS_EVENTS_MAP of None \<Rightarrow> eventsMapFD r | Some m \<Rightarrow> int (MapFD m)), k'))
      else (Inr (zero_map, eventsMapFD r), k))"

text \<open>The result of a start: a client with its conntrack client or nil, and an error or nil.\<close>

type_synonym started = "(bpfClient \<times> conntrackClient) option \<times> string option"

definition finish_start ::
  "'k startup_env \<Rightarrow> client_config \<Rightarrow> BpfMap \<Rightarrow> int \<Rightarrow> bpfClient \<Rightarrow> fs \<Rightarrow> 'k \<Rightarrow> (go_panic + started) \<times> 'k" where
  "finish_start su cfg ctMap eventBufferFD l f k =
     (let (logging, _, k1) = (if cfg_enablePolicyEventLogs cfg
            then ConfigurePolicyEventsLogging (su_events su) (cfg_enableCloudWatchLogs cfg) eventBufferFD (cw_init, k)
            else (Inr None, cw_init, k))
      in case logging of
           Inl p \<Rightarrow> (Inl p, k1)
         | Inr (Some e) \<Rightarrow> (Inr (None, Some e), k1)
         | Inr None \<Rightarrow>
             (case (if isMultiNICEnabled l then loadIPAMDataFromFile su IPAM_JSON_PATH f l else (None, l)) of
                (Some e, l') \<Rightarrow> (Inr (None, Some e), k1)
              | (None, l') \<Rightarrow> (Inr (Some (l', NewConntrackClient ctMap (cfg_enableIPv6 cfg)), None), k1)))"

definition NewBpfClient ::
  "'k startup_env \<Rightarrow> client_config \<Rightarrow> fs \<Rightarrow> 'k \<Rightarrow> (go_panic + started) \<times> fs \<times> 'k" where
  "NewBpfClient su cfg f0 k0 =
     (let bpfBinaries = bpf_binaries (cfg_enableIPv6 cfg);
          (ingressUpdateRequired, egressUpdateRequired, eventsUpdateRequired) =
            checkAndUpdateBPFBinaries (su_faults su) bpfBinaries hostBinaryPath f0;
          f1 = InstallBPFBinaries (su_faults su) bpfBinaries hostBinaryPath f0
      in case recoverBPFState su (\<lambda>d. case d of Ingress \<Rightarrow> ingressUpdateRequired | Egress \<Rightarrow> egressUpdateRequired)
                eventsUpdateRequired (initial_client cfg) f1 k0 of
           (Inl p, f2, k1) \<Rightarrow> (Inl p, f2, k1)
         | (Inr (r, err, l1), f2, k1) \<Rightarrow>
             let l2 = l1\<lparr>interfaceNametoPinPath := recoveredPinPath r\<rparr>
             in case global_maps su cfg eventsUpdateRequired r k1 of
                  (Inl e, k2) \<Rightarrow> (Inr (None, Some e), f2, k2)
                | (Inr (loadedMap, eventBufferFD), k2) \<Rightarrow>
                    if isConntrackMapPresent r then
                      (case globalMaps l2 CONNTRACK_MAP_PIN_PATH of
                         None \<Rightarrow> (Inr (None, err), f2, k2)
                       | Some recoveredConntrackMap \<Rightarrow>
                           (case finish_start su cfg recoveredConntrackMap eventBufferFD l2 f2 k2 of (res, k3) \<Rightarrow> (res, f2, k3)))
                    else (case finish_start su cfg loadedMap eventBufferFD l2 f2 k2 of (res, k3) \<Rightarrow> (res, f2, k3)))"

end
