(* ===== verification/BpfRestart.thy ===== *)
theory BpfRestart
  imports BpfStartup
begin

text \<open>
  What the start of the agent establishes: a client that has recovered the pinned programs satisfies
  the invariant of theory \<open>BpfInvariant\<close>, so does one that has attached updated probes again, and after
  a restart with unchanged binaries every policy that was in force still is, without a packet having
  been evaluated against other entries in between.
\<close>

section \<open>The binaries\<close>

lemma check_flags:
  "checkAndUpdateBPFBinaries F (bpf_binaries v6) host f =
     (let same = same_probe F host f;
          ev = \<not> same (if v6 then EVENTS_V6_BINARY else EVENTS_BINARY)
      in (ev \<or> \<not> same (if v6 then TC_V6_INGRESS_BINARY else TC_INGRESS_BINARY),
          ev \<or> \<not> same (if v6 then TC_V6_EGRESS_BINARY else TC_EGRESS_BINARY), ev))"
  by (cases v6) (simp_all add: checkAndUpdateBPFBinaries_def bpf_binaries_def binary_defs Let_def)

lemma binaries_separate: "separate (bpf_binaries v6) hostBinaryPath"
  by (cases v6) (simp_all add: separate_def bpf_binaries_def target_of_def hostBinaryPath_def binary_defs)

lemma read_no_faults: "fst (os_ReadFile no_faults p f) = map_option file_data (f p)"
  by (simp add: os_defs split: option.splits)

text \<open>C32: Installing the binaries, whatever calls fail, leaves each host binary as it was or replaced by the
  whole new one, never a part of it; and when nothing fails, the next start finds no probe to update.\<close>
theorem binaries_installed_whole:
  assumes "f' = InstallBPFBinaries F (bpf_binaries v6) hostBinaryPath f"
  shows "(\<forall>p \<in> set (bpf_binaries v6). whole_copy p (target_of hostBinaryPath p) f f') \<and>
    (F = no_faults \<and> (\<forall>p \<in> set (bpf_binaries v6). \<exists>n. f p = Some n \<and> regular n) \<longrightarrow>
       checkAndUpdateBPFBinaries no_faults (bpf_binaries v6) hostBinaryPath f' = (False, False, False))"
proof -
  note sep = binaries_separate [of v6]
  have "same_probe no_faults hostBinaryPath f' p" if F: "F = no_faults" and p: "p \<in> set (bpf_binaries v6)" "p \<noteq> EKS_V6_CLI_BINARY"
    and n: "\<exists>n. f p = Some n \<and> regular n" for p
  proof -
    have "f' p = f p" unfolding assms
      by (rule install_others [OF sep subset_refl]) (use sep p(1) in \<open>simp add: separate_def\<close>)
    moreover have "target_of hostBinaryPath p = hostBinaryPath @ p" using p(2) by (simp add: target_of_def)
    ultimately show ?thesis
      using install_spec [OF sep p(1), of f F] F n unfolding assms same_probe_def read_no_faults by auto
  qed
  then have "checkAndUpdateBPFBinaries no_faults (bpf_binaries v6) hostBinaryPath f' = (False, False, False)"
    if "F = no_faults" "\<forall>p \<in> set (bpf_binaries v6). \<exists>n. f p = Some n \<and> regular n"
    using that unfolding check_flags Let_def by (cases v6) (simp_all add: bpf_binaries_def binary_defs)
  moreover have "\<forall>p \<in> set (bpf_binaries v6). whole_copy p (target_of hostBinaryPath p) f f'"
    using install_spec [OF sep] unfolding assms by blast
  ultimately show ?thesis by blast
qed

theorem binaries_installed_whole_witness:
  "checkAndUpdateBPFBinaries no_faults (bpf_binaries False) hostBinaryPath
     (InstallBPFBinaries no_faults (bpf_binaries False) hostBinaryPath
        (\<lambda>p. if p \<in> set (bpf_binaries False) then Some \<lparr>regular = True, file_mode = 493, file_data = [1, 2]\<rparr> else None)) =
   (False, False, False)"
  using binaries_installed_whole [OF refl, where F = no_faults and ?v6.0 = False and
      f = "\<lambda>p. if p \<in> set (bpf_binaries False) then Some \<lparr>regular = True, file_mode = 493, file_data = [1, 2]\<rparr> else None"] by simp

section \<open>Recovering an entry\<close>

abbreviation pin :: "string \<Rightarrow> dir \<Rightarrow> string" where
  "pin i d \<equiv> GetBPFPinPathFromPodIdentifier i (dirName d)"

definition entry :: "(string, BpfData) go_map \<Rightarrow> string \<Rightarrow> dir \<Rightarrow> BpfData \<Rightarrow> bool" where
  "entry st i d data \<longleftrightarrow> CHR ''/'' \<notin> set i \<and> (pin i d, data) \<in> set st"

lemma pin_parse: "CHR ''/'' \<notin> set i \<Longrightarrow> GetPodIdentifierFromBPFPinPath (pin i d) = Inr (i, dirName d)"
  by (cases d) (simp_all add: pin_path_parse)

lemma pin_inject:
  assumes "CHR ''/'' \<notin> set i" "CHR ''/'' \<notin> set j" "pin i d = pin j e" shows "i = j \<and> d = e"
  using arg_cong [OF assms(3), of GetPodIdentifierFromBPFPinPath] by (cases d; cases e) (simp_all add: pin_path_parse assms(1, 2))

lemma entry_append: "CHR ''/'' \<notin> set i \<Longrightarrow> entry (st @ [(pin i d, data)]) j e data' \<longleftrightarrow> entry st j e data' \<or> (j = i \<and> e = d \<and> data' = data)"
  using pin_inject by (auto simp: entry_def)

text \<open>The recovered client owns the programs and maps of the entries so far, and nothing else.\<close>

definition recovered :: "'k kernel_view \<Rightarrow> (dir \<Rightarrow> bool) \<Rightarrow> 'k \<Rightarrow> (string, BpfData) go_map \<Rightarrow> bpfClient \<Rightarrow> bool" where
  "recovered kv update k st l \<longleftrightarrow>
     (\<forall>i d fd. owns_fd l i d fd \<longleftrightarrow> (\<exists>data. entry st i d data \<and> \<not> update d \<and> fd = ProgFD (Program data) \<and> fd \<noteq> 0)) \<and>
     (\<forall>i d n b. owns_map l i d n b \<longleftrightarrow>
        (\<exists>data. entry st i d data \<and> \<not> update d \<and> n \<in> policy_maps d \<and> map_of (Maps data) n = Some b)) \<and>
     shadows_ok kv l k"

lemma recoveredD:
  assumes "recovered kv update k st l"
  shows "owns_fd l i d fd \<longleftrightarrow> (\<exists>data. entry st i d data \<and> \<not> update d \<and> fd = ProgFD (Program data) \<and> fd \<noteq> 0)"
    and "owns_map l i d n b \<longleftrightarrow> (\<exists>data. entry st i d data \<and> \<not> update d \<and> n \<in> policy_maps d \<and> map_of (Maps data) n = Some b)"
    and "shadows_ok kv l k"
  using assms by (simp_all add: recovered_def)

text \<open>Everything but the shadow maps is the same, and a new shadow was loaded from a map of the entry.\<close>

definition shadows_added :: "'k map_sdk \<Rightarrow> 'k \<Rightarrow> string \<Rightarrow> dir \<Rightarrow> BpfData \<Rightarrow> bpfClient \<Rightarrow> bpfClient \<Rightarrow> bool" where
  "shadows_added sdk k i d data l l' \<longleftrightarrow> (\<exists>shadows. l' = l\<lparr>inMemoryMap := shadows\<rparr>) \<and>
     (\<forall>kd e j m. inMemoryMap l' kd e j = Some m \<longrightarrow> inMemoryMap l kd e j = Some m \<or>
        (j = i \<and> e = d \<and> (\<exists>b. map_of (Maps data) (mapName kd d) = Some b \<and> NewInMemoryBpfMap sdk b k = Inr m)))"

lemma recover_shadow_added:
  assumes "recover_shadow sdk kd d i data k l = Inr l'" shows "shadows_added sdk k i d data l l'"
proof -
  consider "l' = l" | b m where "map_of (Maps data) (mapName kd d) = Some b" "NewInMemoryBpfMap sdk b k = Inr m"
      "l' = store_shadow kd d ((inMemoryMap l kd d)(i \<mapsto> m)) l"
    using assms unfolding recover_shadow_def by (auto split: option.splits if_splits sum.splits failure.splits)
  then show ?thesis
  proof cases
    case 1
    then show ?thesis unfolding shadows_added_def by (auto intro!: exI [of _ "inMemoryMap l"])
  next
    case (2 b m)
    have "\<exists>shadows. l' = l\<lparr>inMemoryMap := shadows\<rparr>" unfolding 2(3) store_shadow_def by blast
    moreover have "inMemoryMap l' kd' e j = (if kd' = kd \<and> e = d \<and> j = i then Some m else inMemoryMap l kd' e j)" for kd' e j
      by (simp add: 2(3) store_shadow_def)
    ultimately show ?thesis using 2(1, 2) unfolding shadows_added_def by (auto split: if_splits)
  qed
qed

lemma shadows_added_trans:
  assumes "shadows_added sdk k i d data l l1" "shadows_added sdk k i d data l1 l2" shows "shadows_added sdk k i d data l l2"
proof -
  obtain s1 s2 where "l1 = l\<lparr>inMemoryMap := s1\<rparr>" "l2 = l1\<lparr>inMemoryMap := s2\<rparr>" using assms unfolding shadows_added_def by blast
  then have "l2 = l\<lparr>inMemoryMap := s2\<rparr>" by simp
  then show ?thesis using assms unfolding shadows_added_def by metis
qed

lemma recover_direction_added:
  assumes "recover_direction sdk d i data k l = Inr l'" shows "shadows_added sdk k i d data l l'"
  using assms by (auto simp: recover_direction_def split: sum.splits intro: recover_shadow_added shadows_added_trans)

lemma recover_entry_cases:
  assumes "CHR ''/'' \<notin> set i" "recover_entry sdk update k (pin i d, data) l = Inr l'"
  shows "if update d then l' = store_context i (context_of l i) l
    else \<exists>l1. shadows_added sdk k i d data l l1 \<and> l' = with_program l1 i d data"
proof -
  have w: "store_context i ((context_of l i)\<lparr>pgmInfo := (pgmInfo (context_of l i))(d := data)\<rparr>) l1 = with_program l1 i d data"
    if "shadows_added sdk k i d data l l1" for l1
    using that by (auto simp: shadows_added_def store_context_def with_program_def context_of_def)
  show ?thesis
    using assms(2) w recover_direction_added [of sdk d i data k l]
    by (cases d; cases "recover_direction sdk d i data k l")
       (auto simp: recover_entry_def pin_path_parse assms(1) Let_def split: if_splits)
qed

lemma store_context_owns:
  "owns_fd (store_context i (context_of l i) l) j e fd \<longleftrightarrow> owns_fd l j e fd"
  "owns_map (store_context i (context_of l i) l) j e n b \<longleftrightarrow> owns_map l j e n b"
  by (auto simp: owns_fd_def owns_map_def store_context_def context_of_def zero_context_def zero_data_def prog_fd_def split: option.splits)

lemma recover_entry_step:
  assumes laws: "sdk_laws sdk (kv_maps kv)" and rec: "recovered kv update k st l"
    and i: "CHR ''/'' \<notin> set i" and new: "pin i d \<notin> fst ` set st" and fd: "ProgFD (Program data) \<noteq> 0"
    and run: "recover_entry sdk update k (pin i d, data) l = Inr l'"
  shows "recovered kv update k (st @ [(pin i d, data)]) l'"
proof (cases "update d")
  case True
  with recover_entry_cases [OF i run] have l': "l' = store_context i (context_of l i) l" by simp
  have sh: "shadows_ok kv l' k"
    using recoveredD(3) [OF rec] unfolding shadows_ok_def l' store_context_owns by (simp add: store_context_def)
  show ?thesis
    unfolding recovered_def l' store_context_owns recoveredD(1, 2) [OF rec] entry_append [OF i]
    using True sh [unfolded l'] by blast
next
  case False
  with recover_entry_cases [OF i run] obtain l1 where l1: "shadows_added sdk k i d data l l1" and l': "l' = with_program l1 i d data" by auto
  obtain s where s: "l1 = l\<lparr>inMemoryMap := s\<rparr>" using l1 unfolding shadows_added_def by blast
  have o1: "owns_fd l1 j e x \<longleftrightarrow> owns_fd l j e x" "owns_map l1 j e n b \<longleftrightarrow> owns_map l j e n b" for j e x n b
    by (simp_all add: s owns_fd_def owns_map_def)
  have ne: "\<not> entry st i d x" for x using new by (force simp: entry_def)
  then have no: "\<not> owns_fd l i d x" for x by (simp add: recoveredD(1) [OF rec])
  have "shadows_ok kv l' k" unfolding shadows_ok_def
  proof (intro allI impI)
    fix kd e j m assume "inMemoryMap l' kd e j = Some m"
    then have "inMemoryMap l1 kd e j = Some m" by (simp add: l' with_program_def)
    then consider "inMemoryMap l kd e j = Some m"
      | b where "j = i" "e = d" "map_of (Maps data) (mapName kd d) = Some b" "NewInMemoryBpfMap sdk b k = Inr m"
      using l1 unfolding shadows_added_def by blast
    then show "in_sync (kv_maps kv) m k \<and> owns_map l' j e (mapName kd e) (bpfMap m) \<and> (\<exists>fd. owns_fd l' j e fd)"
    proof cases
      case 1
      note sh = shadows_okD [OF recoveredD(3) [OF rec] 1]
      with no have "\<not> (j = i \<and> e = d)" by blast
      with sh show ?thesis unfolding l' owns_with_program o1 by auto
    next
      case (2 b)
      with New_in_sync [OF laws 2(4)] fd show ?thesis by (simp add: l' owns_with_program)
    qed
  qed
  moreover have "owns_fd l' j e x \<longleftrightarrow> (\<exists>y. entry (st @ [(pin i d, data)]) j e y \<and> \<not> update e \<and> x = ProgFD (Program y) \<and> x \<noteq> 0)" for j e x
    unfolding l' owns_with_program o1 recoveredD(1) [OF rec] entry_append [OF i] using False ne by auto
  moreover have "owns_map l' j e n b \<longleftrightarrow>
      (\<exists>y. entry (st @ [(pin i d, data)]) j e y \<and> \<not> update e \<and> n \<in> policy_maps e \<and> map_of (Maps y) n = Some b)" for j e n b
    unfolding l' owns_with_program o1 recoveredD(2) [OF rec] entry_append [OF i] using False ne by auto
  ultimately show ?thesis unfolding recovered_def by blast
qed

section \<open>Recovering a table\<close>

text \<open>
  What the SDK recovers from the pins of this agent: each program is pinned once, under the path of its
  identifier and direction, with an open FD and the maps of its direction, and the programs of different
  identifiers or directions are different and use different maps.
\<close>

definition table_ok :: "'k kernel_view \<Rightarrow> 'k \<Rightarrow> (string, BpfData) go_map \<Rightarrow> bool" where
  "table_ok kv k st \<longleftrightarrow> go_map_wf st \<and> (\<forall>p data. (p, data) \<in> set st \<longrightarrow> (\<exists>i d. CHR ''/'' \<notin> set i \<and> p = pin i d)) \<and>
     (\<forall>i d data. entry st i d data \<longrightarrow> ProgFD (Program data) \<noteq> 0 \<and> ProgFD (Program data) \<in> kv_fds kv k \<and>
        policy_maps d \<subseteq> dom (map_of (Maps data))) \<and>
     (\<forall>i d data n b. entry st i d data \<longrightarrow> n \<in> policy_maps d \<longrightarrow> map_of (Maps data) n = Some b \<longrightarrow> MapID b \<in> kv_ids kv k) \<and>
     (\<forall>i d data i' d' data'. entry st i d data \<longrightarrow> entry st i' d' data' \<longrightarrow> ProgFD (Program data) = ProgFD (Program data') \<longrightarrow> i = i' \<and> d = d') \<and>
     (\<forall>i d data n b i' d' data' n' b'. entry st i d data \<longrightarrow> n \<in> policy_maps d \<longrightarrow> map_of (Maps data) n = Some b \<longrightarrow>
        entry st i' d' data' \<longrightarrow> n' \<in> policy_maps d' \<longrightarrow> map_of (Maps data') n' = Some b' \<longrightarrow> MapID b = MapID b' \<longrightarrow> i = i' \<and> d = d' \<and> n = n')"

lemma table_okD:
  assumes "table_ok kv k st"
  shows "go_map_wf st" "(p, data) \<in> set st \<Longrightarrow> \<exists>i d. CHR ''/'' \<notin> set i \<and> p = pin i d"
    "entry st i d data \<Longrightarrow> ProgFD (Program data) \<noteq> 0 \<and> ProgFD (Program data) \<in> kv_fds kv k \<and> policy_maps d \<subseteq> dom (map_of (Maps data))"
    "entry st i d data \<Longrightarrow> n \<in> policy_maps d \<Longrightarrow> map_of (Maps data) n = Some b \<Longrightarrow> MapID b \<in> kv_ids kv k"
    "entry st i d data \<Longrightarrow> entry st i' d' data' \<Longrightarrow> ProgFD (Program data) = ProgFD (Program data') \<Longrightarrow> i = i' \<and> d = d'"
    "entry st i d data \<Longrightarrow> n \<in> policy_maps d \<Longrightarrow> map_of (Maps data) n = Some b \<Longrightarrow> entry st i' d' data' \<Longrightarrow> n' \<in> policy_maps d' \<Longrightarrow>
       map_of (Maps data') n' = Some b' \<Longrightarrow> MapID b = MapID b' \<Longrightarrow> i = i' \<and> d = d' \<and> n = n'"
  using assms unfolding table_ok_def by ((elim conjE)?, metis)+

lemma entry_unique: "go_map_wf st \<Longrightarrow> entry st i d x \<Longrightarrow> entry st i d y \<Longrightarrow> x = y"
  unfolding entry_def go_map_wf_def by (meson eq_key_imp_eq_value)

text \<open>A client that has recovered nothing and attached nothing.\<close>

definition blank :: "bpfClient \<Rightarrow> bool" where
  "blank l \<longleftrightarrow> policyEndpointeBPFContext l = Map.empty \<and> inMemoryMap l = (\<lambda>_ _. Map.empty) \<and> podToProgMap l = (\<lambda>_. Map.empty) \<and>
     progToPodsMap l = (\<lambda>_. Map.empty) \<and> deletedPods l = Map.empty"

lemma recover_entry_fields:
  assumes "recover_entry sdk update k x l = Inr l'"
  shows "\<exists>c s. l' = l\<lparr>policyEndpointeBPFContext := c, inMemoryMap := s\<rparr>"
proof -
  have r: "\<exists>s. l1 = l\<lparr>inMemoryMap := s\<rparr>" if "recover_direction sdk d i data k l = Inr l1" for d i data l1
    using recover_direction_added [OF that] unfolding shadows_added_def by blast
  have st: "\<exists>c s. store_context i y l1 = l\<lparr>policyEndpointeBPFContext := c, inMemoryMap := s\<rparr>" if "l1 = l\<lparr>inMemoryMap := s\<rparr>" for i y l1 s
    using that by (intro exI [of _ "(policyEndpointeBPFContext l)(i \<mapsto> y)"] exI [of _ s]) (simp add: store_context_def)
  obtain p data where x: "x = (p, data)" by force
  from assms obtain i dn where g: "GetPodIdentifierFromBPFPinPath p = Inr (i, dn)"
    by (auto simp: recover_entry_def x split: sum.splits)
  consider d y l1 where "recover_direction sdk d i data k l = Inr l1" "l' = store_context i y l1" | y where "l' = store_context i y l"
    using assms by (cases "recover_direction sdk Ingress i data k l"; cases "recover_direction sdk Egress i data k l")
      (auto simp: recover_entry_def x g Let_def split: if_splits)
  then show ?thesis
  proof cases
    case (1 d y l1)
    with r st show ?thesis by metis
  next
    case (2 y)
    then show ?thesis using st [of l "inMemoryMap l"] by simp
  qed
qed

lemma recover_fields:
  assumes "fold_panic (recover_entry sdk update k) st l = Inr l'"
  shows "\<exists>c s. l' = l\<lparr>policyEndpointeBPFContext := c, inMemoryMap := s\<rparr>"
  using assms
proof (induction st arbitrary: l)
  case Nil
  then show ?case by (auto intro!: exI [of _ "policyEndpointeBPFContext l"] exI [of _ "inMemoryMap l"])
next
  case (Cons x st)
  then obtain l1 where l1: "recover_entry sdk update k x l = Inr l1" "fold_panic (recover_entry sdk update k) st l1 = Inr l'"
    by (auto split: sum.splits)
  obtain c s c' s' where "l1 = l\<lparr>policyEndpointeBPFContext := c, inMemoryMap := s\<rparr>" "l' = l1\<lparr>policyEndpointeBPFContext := c', inMemoryMap := s'\<rparr>"
    using recover_entry_fields [OF l1(1)] Cons.IH [OF l1(2)] by blast
  then have "l' = l\<lparr>policyEndpointeBPFContext := c', inMemoryMap := s'\<rparr>" by simp
  then show ?case by blast
qed

lemma recover_table:
  assumes laws: "sdk_laws sdk (kv_maps kv)" and l: "blank l"
    and st: "go_map_wf st" "\<forall>(p, data) \<in> set st. (\<exists>i d. CHR ''/'' \<notin> set i \<and> p = pin i d) \<and> ProgFD (Program data) \<noteq> 0"
    and run: "fold_panic (recover_entry sdk update k) st l = Inr l'"
  shows "recovered kv update k st l'"
  using st run
proof (induction st arbitrary: l' rule: rev_induct)
  case Nil
  with l show ?case by (auto simp: recovered_def blank_def owns_fd_def owns_map_def shadows_ok_def entry_def)
next
  case (snoc x st)
  obtain l1 where l1: "fold_panic (recover_entry sdk update k) st l = Inr l1" "recover_entry sdk update k x l1 = Inr l'"
    using snoc.prems(3) by (auto simp: fold_panic_append split: sum.splits)
  obtain i d data where x: "x = (pin i d, data)" "CHR ''/'' \<notin> set i" "ProgFD (Program data) \<noteq> 0" using snoc.prems(2) by auto
  have "recovered kv update k st l1" using snoc.IH [OF _ _ l1(1)] snoc.prems(1, 2) by (auto simp: go_map_wf_def)
  moreover have "pin i d \<notin> fst ` set st" using snoc.prems(1) x by (auto simp: go_map_wf_def)
  ultimately show ?case using recover_entry_step [OF laws _ x(2) _ x(3) l1(2) [unfolded x(1)]] x(1) by simp
qed

lemma recovered_inv:
  assumes tab: "table_ok kv k st" and rec: "recovered kv update k st l"
    and c: "podToProgMap l = (\<lambda>_. Map.empty)" "progToPodsMap l = (\<lambda>_. Map.empty)" "deletedPods l = Map.empty"
  shows "client_inv kv l k"
proof -
  note T = table_okD [OF tab] and R = recoveredD [OF rec]
  have "progs_ok kv l k" unfolding progs_ok_def R(1, 2)
  proof (intro conjI allI impI; (elim exE conjE)?)
    fix i d fd data assume "entry st i d data" "fd = ProgFD (Program data)"
    then show "fd \<in> kv_fds kv k" using T(3) by blast
  next
    fix i d i' d' fd data data' assume "entry st i d data" "entry st i' d' data'" "fd = ProgFD (Program data)" "fd = ProgFD (Program data')"
    then show "i = i'" "d = d'" using T(5) by metis+
  next
    fix i d fd n data assume a: "entry st i d data" "\<not> update d" "n \<in> policy_maps d"
    then obtain b where "map_of (Maps data) n = Some b" using T(3) by blast
    with a show "\<exists>b data. entry st i d data \<and> \<not> update d \<and> n \<in> policy_maps d \<and> map_of (Maps data) n = Some b" by blast
  next
    fix i d n b data assume "entry st i d data" "n \<in> policy_maps d" "map_of (Maps data) n = Some b"
    then show "MapID b \<in> kv_ids kv k" by (rule T(4))
  next
    fix i d n b i' d' n' b' data data' assume "MapID b = MapID b'" "entry st i d data" "n \<in> policy_maps d" "map_of (Maps data) n = Some b"
      "entry st i' d' data'" "n' \<in> policy_maps d'" "map_of (Maps data') n' = Some b'"
    then show "i = i'" "d = d'" "n = n'" using T(6) by metis+
  qed
  then show ?thesis using R(3) by (simp add: client_inv_def caches_ok_def pods_ok_def c)
qed

text \<open>Recovery does not panic on maps whose keys and values have a size, as every BPF map's do.\<close>

definition readable :: "'k map_sdk \<Rightarrow> 'k \<Rightarrow> (string, BpfData) go_map \<Rightarrow> bool" where
  "readable sdk k st \<longleftrightarrow> (\<forall>p data n b. (p, data) \<in> set st \<longrightarrow> map_of (Maps data) n = Some b \<longrightarrow>
     ValueSize b \<noteq> 0 \<and> (\<forall>keys. GetAllMapKeys sdk b k = Inr keys \<longrightarrow> [] \<notin> set keys))"

lemma load_entries_no_panic: "[] \<notin> set keys \<Longrightarrow> ValueSize b \<noteq> 0 \<Longrightarrow> load_entries sdk b k keys acc \<noteq> Inl (Panic p)"
  by (induction keys arbitrary: acc) (auto split: sum.splits)

lemma recover_shadow_total:
  assumes "\<And>b. map_of (Maps data) (mapName kd d) = Some b \<Longrightarrow> ValueSize b \<noteq> 0 \<and> (\<forall>keys. GetAllMapKeys sdk b k = Inr keys \<longrightarrow> [] \<notin> set keys)"
  shows "\<exists>l'. recover_shadow sdk kd d i data k l = Inr l'"
proof (cases "map_of (Maps data) (mapName kd d)")
  case (Some b)
  have "NewInMemoryBpfMap sdk b k \<noteq> Inl (Panic p)" for p
    using load_entries_no_panic [of _ b sdk k "[]" p] assms [OF Some] by (auto simp: NewInMemoryBpfMap_def loadFromKernel_def split: sum.splits)
  with Some show ?thesis by (auto simp: recover_shadow_def split: sum.splits failure.splits)
qed (simp add: recover_shadow_def)

lemma recover_entry_total:
  assumes "readable sdk k st" "(p, data) \<in> set st" "CHR ''/'' \<notin> set i" "p = pin i d"
  shows "\<exists>l'. recover_entry sdk update k (p, data) l = Inr l'"
proof -
  have "\<exists>l'. recover_direction sdk e i data k l = Inr l'" for e
  proof -
    have s: "\<exists>l'. recover_shadow sdk kd e i data k l = Inr l'" for kd l
      by (rule recover_shadow_total) (use assms(1, 2) in \<open>auto simp: readable_def\<close>)
    obtain l1 where "recover_shadow sdk PolicyMap e i data k l = Inr l1" using s by blast
    with s [of ClusterPolicyMap l1] show ?thesis by (simp add: recover_direction_def)
  qed
  then obtain li le where "recover_direction sdk Ingress i data k l = Inr li" "recover_direction sdk Egress i data k l = Inr le" by metis
  then show ?thesis by (simp add: recover_entry_def assms(4) pin_parse [OF assms(3)] Let_def)
qed

lemma recover_total:
  assumes "readable sdk k st" "\<And>p data. (p, data) \<in> set st \<Longrightarrow> \<exists>i d. CHR ''/'' \<notin> set i \<and> p = pin i d"
  shows "\<exists>l'. fold_panic (recover_entry sdk update k) st l = Inr l'"
proof -
  have "\<exists>l'. fold_panic (recover_entry sdk update k) xs l = Inr l'" if "set xs \<subseteq> set st" for xs l
    using that
  proof (induction xs arbitrary: l)
    case (Cons x xs)
    obtain p data where x: "x = (p, data)" by force
    obtain i d where "CHR ''/'' \<notin> set i" "p = pin i d" using assms(2) [of p data] Cons.prems x by auto
    then obtain l1 where "recover_entry sdk update k x l = Inr l1" using recover_entry_total [OF assms(1), of p data i d update l] Cons.prems x by auto
    with Cons show ?case by simp
  qed simp
  then show ?thesis by blast
qed

section \<open>The start as a whole\<close>

text \<open>The calls at the start change no map and close no FD; what they recover is as above.\<close>

definition startup_laws :: "'k startup_env \<Rightarrow> 'k kernel_view \<Rightarrow> bool" where
  "startup_laws su kv \<longleftrightarrow> env_laws (su_bpf su) kv \<and>
     (\<forall>f k. keeps kv {} {} k (snd (RecoverGlobalMaps su f k))) \<and>
     (\<forall>f k st e k'. RecoverAllBpfProgramsAndMaps su f k = ((st, e), k') \<longrightarrow> keeps kv {} {} k k' \<and> table_ok kv k' st) \<and>
     (\<forall>f k. keeps kv {} {} k (snd (GetAllBpfProgramsAndMaps su f k))) \<and>
     (\<forall>ing eg k. keeps kv {} {} k (snd (CleanupQdiscs su ing eg k))) \<and>
     (\<forall>p c sz k. keeps kv {} {} k (snd (LoadBpfFileWithCustomData su p c sz k))) \<and>
     (\<forall>fds k. keeps kv {} {} k (snd (InitRingBuffer (su_events su) fds k))) \<and>
     (\<forall>n k. keeps kv {} {} k (snd (CreateLogGroup (su_events su) n k)))"

lemma startup_lawsD:
  assumes "startup_laws su kv"
  shows "env_laws (su_bpf su) kv" "keeps kv {} {} k (snd (RecoverGlobalMaps su f k))"
    "RecoverAllBpfProgramsAndMaps su f k = ((st, e), k') \<Longrightarrow> keeps kv {} {} k k' \<and> table_ok kv k' st"
    "keeps kv {} {} k (snd (GetAllBpfProgramsAndMaps su f k))" "keeps kv {} {} k (snd (CleanupQdiscs su ing eg k))"
    "keeps kv {} {} k (snd (LoadBpfFileWithCustomData su p c sz k))" "keeps kv {} {} k (snd (InitRingBuffer (su_events su) fds k))"
    "keeps kv {} {} k (snd (CreateLogGroup (su_events su) n k))"
  using assms unfolding startup_laws_def by ((elim conjE)?, metis)+

text \<open>The invariant does not read the fields the start fills besides the contexts and the shadows.\<close>

definition same_core :: "bpfClient \<Rightarrow> bpfClient \<Rightarrow> bool" where
  "same_core l l' \<longleftrightarrow> policyEndpointeBPFContext l' = policyEndpointeBPFContext l \<and> inMemoryMap l' = inMemoryMap l \<and>
     podToProgMap l' = podToProgMap l \<and> progToPodsMap l' = progToPodsMap l \<and> deletedPods l' = deletedPods l \<and>
     fwRuleProcessor l' = fwRuleProcessor l"

lemma same_core_inv: "same_core l l' \<Longrightarrow> client_inv kv l k \<Longrightarrow> client_inv kv l' k"
  by (simp add: same_core_def client_inv_def caches_ok_def pods_ok_def progs_ok_def shadows_ok_def owns_fd_def owns_map_def)

lemma same_core_in_force:
  assumes "same_core l l'"
  shows "loaded l' i \<longleftrightarrow> loaded l i" "in_force kv os l' k i rules st \<longleftrightarrow> in_force kv os l k i rules st"
    "cluster_in_force kv os l' k i rules st \<longleftrightarrow> cluster_in_force kv os l k i rules st"
  using assms by (simp_all add: same_core_def loaded_def in_force_def cluster_in_force_def tier_in_force_def)

lemma blank_inv: "blank l \<Longrightarrow> client_inv kv l k"
  by (simp add: blank_def client_inv_def caches_ok_def pods_ok_def progs_ok_def shadows_ok_def owns_fd_def owns_map_def)

lemma initial_client_blank: "blank (initial_client cfg)"
  by (simp add: blank_def initial_client_def new_client_def)

lemma global_fold:
  assumes "fold global_step gs (r, l) = (r', l')"
  shows "same_core l l' \<and> recoveredPinPath r' = recoveredPinPath r \<and>
    ((isConntrackMapPresent r \<longrightarrow> globalMaps l CONNTRACK_MAP_PIN_PATH \<noteq> None) \<longrightarrow>
      isConntrackMapPresent r' \<longrightarrow> globalMaps l' CONNTRACK_MAP_PIN_PATH \<noteq> None)"
  using assms
proof (induction gs arbitrary: r l)
  case (Cons g gs)
  obtain r1 l1 where s: "global_step g (r, l) = (r1, l1)" by force
  then have "same_core l l1 \<and> recoveredPinPath r1 = recoveredPinPath r \<and>
      ((isConntrackMapPresent r \<longrightarrow> globalMaps l CONNTRACK_MAP_PIN_PATH \<noteq> None) \<longrightarrow>
        isConntrackMapPresent r1 \<longrightarrow> globalMaps l1 CONNTRACK_MAP_PIN_PATH \<noteq> None)"
    by (cases g) (auto simp: global_step_def Let_def same_core_def split: if_splits)
  with Cons.IH [of r1 l1] Cons.prems s show ?case by (auto simp: same_core_def)
qed (simp add: same_core_def)

lemma collect_attached_spec:
  assumes "startup_laws su kv" "collect_attached su update f r k = ((r', err), k')"
  shows "keeps kv {} {} k k' \<and> isConntrackMapPresent r' = isConntrackMapPresent r"
proof (cases "GetAllBpfProgramsAndMaps su f k")
  case (Pair q k1)
  have 1: "keeps kv {} {} k k1" using startup_lawsD(4) [OF assms(1), of k f] Pair by simp
  show ?thesis
  proof (cases q)
    case (Inl e)
    with 1 assms(2) Pair show ?thesis by (simp add: collect_attached_def)
  next
    case (Inr st)
    with assms(2) Pair have "k' = snd (CleanupQdiscs su (update Ingress) (update Egress) k1)"
        "isConntrackMapPresent r' = isConntrackMapPresent r"
      by (auto simp: collect_attached_def Let_def)
    then show ?thesis using keeps_trans_empty [OF 1 startup_lawsD(5) [OF assms(1)]] by simp
  qed
qed

lemma recoverBPFState_spec:
  assumes laws: "startup_laws su kv" and l: "blank l" and run: "recoverBPFState su update ev l f k = (Inr (r, err, l'), f', k')"
  shows "client_inv kv l' k' \<and> keeps kv {} {} k k' \<and> fwRuleProcessor l' = fwRuleProcessor l \<and>
    (isConntrackMapPresent r \<longrightarrow> globalMaps l' CONNTRACK_MAP_PIN_PATH \<noteq> None)"
proof -
  let ?f = "snd (migrateLegacyPinsFromCNIState (su_faults su) (su_migration su) BPF_PROGRAMS_PIN_PATH_DIRECTORY
                BPF_MAPS_PIN_PATH_DIRECTORY cniIpamStatePath formatV2MarkerPath f)"
  obtain g k1 where g: "(if ev then (Inr [], k) else RecoverGlobalMaps su ?f k) = (g, k1)" by force
  have k1: "keeps kv {} {} k k1" using g startup_lawsD(2) [OF laws, of k ?f] by (auto split: if_splits)
  show ?thesis
  proof (cases g)
    case (Inl e)
    with run g have "r = no_recovery" "l' = l" "k' = k1" by (simp_all add: recoverBPFState_def Let_def)
    with k1 blank_inv [OF l] show ?thesis by (simp add: no_recovery_def)
  next
    case (Inr gs)
    obtain r1 l1 where gf: "fold global_step gs (no_recovery, l) = (r1, l1)" by force
    note G = global_fold [OF gf]
    have b1: "blank l1" using G l by (simp add: same_core_def blank_def)
    obtain st e k2 where st: "(if \<not> update Ingress \<or> \<not> update Egress then RecoverAllBpfProgramsAndMaps su ?f k1 else (([], None), k1)) = ((st, e), k2)"
      by (metis surj_pair)
    have t: "keeps kv {} {} k1 k2 \<and> table_ok kv k2 st"
      using st startup_lawsD(3) [OF laws] by (auto simp: table_ok_def entry_def split: if_splits)
    obtain l2 where l2: "fold_panic (recover_entry (map_api (su_bpf su)) update k2) st l1 = Inr l2"
      using run g Inr gf st by (auto simp: recoverBPFState_def Let_def split: sum.splits)
    have tab: "\<forall>(p, data) \<in> set st. (\<exists>i d. CHR ''/'' \<notin> set i \<and> p = pin i d) \<and> ProgFD (Program data) \<noteq> 0"
      using table_okD(2, 3) [OF conjunct2 [OF t]] unfolding entry_def by fast
    have rec: "recovered kv update k2 st l2"
      by (rule recover_table [OF env_lawsD(1) [OF startup_lawsD(1) [OF laws]] b1 table_okD(1) [OF conjunct2 [OF t]] tab l2])
    obtain c s where l2f: "l2 = l1\<lparr>policyEndpointeBPFContext := c, inMemoryMap := s\<rparr>" using recover_fields [OF l2] by blast
    have inv: "client_inv kv l2 k2" by (rule recovered_inv [OF conjunct2 [OF t] rec]) (use b1 l2f in \<open>simp_all add: blank_def\<close>)
    have k2: "keeps kv {} {} k k2" by (rule keeps_trans_empty [OF k1 conjunct1 [OF t]])
    have ct: "isConntrackMapPresent r1 \<longrightarrow> globalMaps l2 CONNTRACK_MAP_PIN_PATH \<noteq> None" using G l2f by (simp add: no_recovery_def)
    have fw: "fwRuleProcessor l2 = fwRuleProcessor l" using G l2f by (simp add: same_core_def)
    show ?thesis
    proof (cases "update Ingress \<or> update Egress")
      case False
      with run g Inr gf st l2 have "l' = l2" "k' = k2" "r = r1" by (auto simp: recoverBPFState_def Let_def)
      with inv k2 ct fw show ?thesis by simp
    next
      case True
      obtain r2 err2 k3 where c: "collect_attached su update ?f r1 k2 = ((r2, err2), k3)" by (metis surj_pair)
      note C = collect_attached_spec [OF laws c]
      from True run g Inr gf st l2 c have "l' = l2" "k' = k3" "r = r2" by (auto simp: recoverBPFState_def Let_def)
      with client_inv_keeps [OF inv conjunct1 [OF C]] keeps_trans_empty [OF k2 conjunct1 [OF C]] ct C fw show ?thesis by simp
    qed
  qed
qed

lemma logging_keeps:
  assumes laws: "startup_laws su kv" and run: "ConfigurePolicyEventsLogging (su_events su) cloudWatch fd (cw, k) = (r, cw', k')"
  shows "keeps kv {} {} k k'"
proof -
  have e: "keeps kv {} {} k (snd (ensureLogGroupExists (su_events su) n k))" for n k
    using startup_lawsD(8) [OF laws, of k n]
    by (auto simp: ensureLogGroupExists_def split: sum.splits bool.splits prod.splits option.splits aws_error.splits)
  have s: "keeps kv {} {} k (snd (snd (setupCW (su_events su) (cw, k))))" for k
  proof (cases "NewCloud (su_events su) [] k")
    case (Inl p)
    then show ?thesis by (simp add: setupCW_def)
  next
    case (Inr x)
    show ?thesis
    proof (cases x)
      case (Inr n)
      let ?g = "(if n = DEFAULT_CLUSTER_NAME then NON_EKS_CW_PATH else EKS_CW_PATH) @ n @ ''/cluster''"
      obtain q k1 where "ensureLogGroupExists (su_events su) ?g k = (q, k1)" by force
      with e [of k ?g] \<open>NewCloud (su_events su) [] k = Inr x\<close> Inr show ?thesis
        by (cases q) (auto simp: setupCW_def Let_def split: option.splits)
    qed (use Inr in \<open>simp add: setupCW_def\<close>)
  qed
  obtain q k1 where i: "InitRingBuffer (su_events su) [fd] k = (q, k1)" by force
  then have "keeps kv {} {} k k1" using startup_lawsD(7) [OF laws, of k "[fd]"] by simp
  with keeps_trans_empty [OF this s [of k1]] run i show ?thesis
    by (auto simp: ConfigurePolicyEventsLogging_def split: if_splits option.splits)
qed

lemma loadIPAM_core: "same_core l (snd (loadIPAMDataFromFile su path f l))"
proof -
  have "same_core l (fold ipam_step xs l)" for xs
    by (induction xs arbitrary: l) (auto simp: same_core_def ipam_step_def)
  then show ?thesis by (auto simp: loadIPAMDataFromFile_def same_core_def split: prod.splits option.splits sum.splits)
qed

lemma finish_start_spec:
  assumes laws: "startup_laws su kv" and run: "finish_start su cfg m fd l f k = (Inr (c, e), k')"
  shows "keeps kv {} {} k k' \<and> (case c of None \<Rightarrow> e \<noteq> None | Some (l', ct) \<Rightarrow> e = None \<and> same_core l l')"
proof -
  obtain q cw k1 where q: "(if cfg_enablePolicyEventLogs cfg
      then ConfigurePolicyEventsLogging (su_events su) (cfg_enableCloudWatchLogs cfg) fd (cw_init, k) else (Inr None, cw_init, k)) = (q, cw, k1)"
    using prod_cases3 by blast
  have k1: "keeps kv {} {} k k1" using q logging_keeps [OF laws] by (auto split: if_splits)
  obtain o2 l2 where i: "(if isMultiNICEnabled l then loadIPAMDataFromFile su IPAM_JSON_PATH f l else (None, l)) = (o2, l2)" by force
  have l2: "same_core l l2" using i loadIPAM_core [of l su IPAM_JSON_PATH f] by (auto simp: same_core_def split: if_splits)
  show ?thesis
    using run q i k1 l2 by (auto simp: finish_start_def Let_def split: sum.splits option.splits)
qed

lemma NewBpfClient_spec:
  assumes laws: "startup_laws su kv" and run: "NewBpfClient su cfg f k = (Inr (c, e), f', k')"
    and flags: "checkAndUpdateBPFBinaries (su_faults su) (bpf_binaries (cfg_enableIPv6 cfg)) hostBinaryPath f = (ing, eg, ev)"
  shows "\<exists>r err l1 k1. recoverBPFState su (\<lambda>d. case d of Ingress \<Rightarrow> ing | Egress \<Rightarrow> eg) ev (initial_client cfg)
      (InstallBPFBinaries (su_faults su) (bpf_binaries (cfg_enableIPv6 cfg)) hostBinaryPath f) k = (Inr (r, err, l1), f', k1) \<and>
    keeps kv {} {} k1 k' \<and> (case c of None \<Rightarrow> e \<noteq> None | Some (l', ct) \<Rightarrow> e = None \<and> same_core l1 l')"
proof -
  let ?rec = "recoverBPFState su (\<lambda>d. case d of Ingress \<Rightarrow> ing | Egress \<Rightarrow> eg) ev (initial_client cfg)
      (InstallBPFBinaries (su_faults su) (bpf_binaries (cfg_enableIPv6 cfg)) hostBinaryPath f) k"
  obtain q f1 k1 where q: "?rec = (q, f1, k1)" using prod_cases3 by blast
  show ?thesis
  proof (cases q)
    case (Inl p)
    with run q flags show ?thesis by (simp add: NewBpfClient_def Let_def)
  next
    case (Inr x)
    obtain r err l1 where x: "q = Inr (r, err, l1)" using Inr by (cases x) auto
    have R: "isConntrackMapPresent r \<longrightarrow> globalMaps l1 CONNTRACK_MAP_PIN_PATH \<noteq> None"
      using recoverBPFState_spec [OF laws initial_client_blank q [unfolded x]] by simp
    let ?l2 = "l1\<lparr>interfaceNametoPinPath := recoveredPinPath r\<rparr>"
    obtain g k2 where g: "global_maps su cfg ev r k1 = (g, k2)" by force
    have k2: "keeps kv {} {} k1 k2"
      using g startup_lawsD(6) [OF laws, of k1 "if cfg_enableIPv6 cfg then EVENTS_V6_BINARY else EVENTS_BINARY" "''global''"
          "[(AWS_CONNTRACK_MAP, cfg_conntrackTableSize cfg)]"]
      by (auto simp: global_maps_def split: if_splits prod.splits sum.splits)
    have core: "same_core l1 l' \<longleftrightarrow> same_core ?l2 l'" for l' by (simp add: same_core_def)
    show ?thesis
    proof (cases g)
      case (Inl e')
      with run q x g flags have "c = None \<and> e = Some e' \<and> k' = k2 \<and> f' = f1" by (auto simp: NewBpfClient_def Let_def)
      with q x k2 show ?thesis by simp
    next
      case (Inr y)
      obtain m fd where y: "g = Inr (m, fd)" using Inr by (cases y) auto
      define m' where "m' = (if isConntrackMapPresent r then the (globalMaps l1 CONNTRACK_MAP_PIN_PATH) else m)"
      obtain res k3 where f3: "finish_start su cfg m' fd ?l2 f1 k2 = (res, k3)" by force
      have "NewBpfClient su cfg f k = (res, f1, k3)"
        using q x g y flags R f3 by (auto simp: NewBpfClient_def Let_def m'_def)
      with run f3 have fin: "finish_start su cfg m' fd ?l2 f1 k2 = (Inr (c, e), k')" "f' = f1" by simp_all
      note F = finish_start_spec [OF laws fin(1)]
      show ?thesis using q x fin(2) F keeps_trans_empty [OF k2 conjunct1 [OF F]] core by (cases c) auto
    qed
  qed
qed

lemma reattach_step_inv:
  assumes laws: "env_laws env kv" and inv: "client_inv kv l k" and run: "reattach_step env d state x (l, k) = Inr (l', k')"
  shows "client_inv kv l' k'"
proof -
  obtain ifc p where x: "x = (ifc, p)" by force
  obtain i dn where g: "GetPodIdentifierFromBPFPinPath p = Inr (i, dn)"
    using run x by (auto simp: reattach_step_def split: sum.splits)
  obtain a l1 k1 where a: "attach_probe env d ifc i l k = (a, l1, k1)" using prod_cases3 by blast
  obtain e2 k2 where s: "UpdatePodStateEbpfMaps env i POD_STATE_MAP_KEY state (d = Ingress) (d = Egress) l1 k1 = (e2, k2)" by force
  obtain e3 k3 where t: "UpdatePodStateEbpfMaps env i CLUSTER_POLICY_POD_STATE_MAP_KEY state (d = Ingress) (d = Egress) l1 k2 = (e3, k3)" by force
  have "client_inv kv l1 k1" using attach_probe_spec [OF laws inv a] by simp
  then have "client_inv kv l1 k2" using write_states_spec [OF _ state_calls(2) [OF laws] s [unfolded pod_state_ops]] by simp
  then have "client_inv kv l1 k3" using write_states_spec [OF _ state_calls(2) [OF laws] t [unfolded pod_state_ops]] by simp
  then show ?thesis using run x g a s t by (simp add: reattach_step_def)
qed

lemma ReAttachEbpfProbes_inv:
  assumes laws: "env_laws env kv" and inv: "client_inv kv l k" and run: "ReAttachEbpfProbes env ord (l, k) = Inr (l', k')"
  shows "client_inv kv l' k'"
proof -
  have step: "client_inv kv (fst s') (snd s')"
    if "fold_panic (reattach_step env d st) xs s = Inr s'" "client_inv kv (fst s) (snd s)" for d st xs s s'
    using fold_panic_invariant [of xs "\<lambda>s. client_inv kv (fst s) (snd s)", OF _ that(2) that(1)] reattach_step_inv [OF laws] by (metis prod.collapse)
  obtain st l1 k1 where 1: "fold_panic (reattach_step env Ingress st) (ord (interfaceNametoPinPath l Ingress)) (l, k) = Inr (l1, k1)"
    "fold_panic (reattach_step env Egress st) (ord (interfaceNametoPinPath l1 Egress)) (l1, k1) = Inr (l', k')"
    using run by (auto simp: ReAttachEbpfProbes_def Let_def split: sum.splits)
  from step [OF 1(1)] inv have "client_inv kv l1 k1" by simp
  with step [OF 1(2)] show ?thesis by simp
qed

text \<open>C28: Starting the agent never returns a nil client without an error, whatever calls fail; the client it
  returns satisfies the invariant that all later operations keep (the shadow maps it recovered equal
  their kernel maps, no two identifiers share a program or a map), and so does the client after updated
  probes were attached again.\<close>
theorem started_client_sound:
  assumes laws: "startup_laws su kv" and run: "NewBpfClient su cfg f k = (Inr (c, e), f', k')"
  shows "case c of None \<Rightarrow> e \<noteq> None
    | Some (l, ct) \<Rightarrow> e = None \<and> client_inv kv l k' \<and>
        (\<forall>ord l2 k2. ReAttachEbpfProbes (su_bpf su) ord (l, k') = Inr (l2, k2) \<longrightarrow> client_inv kv l2 k2)"
proof -
  obtain ing eg ev where flags: "checkAndUpdateBPFBinaries (su_faults su) (bpf_binaries (cfg_enableIPv6 cfg)) hostBinaryPath f = (ing, eg, ev)"
    using prod_cases3 by blast
  obtain r err l1 k1 where rec: "recoverBPFState su (\<lambda>d. case d of Ingress \<Rightarrow> ing | Egress \<Rightarrow> eg) ev (initial_client cfg)
      (InstallBPFBinaries (su_faults su) (bpf_binaries (cfg_enableIPv6 cfg)) hostBinaryPath f) k = (Inr (r, err, l1), f', k1)"
    and k: "keeps kv {} {} k1 k'" and c: "case c of None \<Rightarrow> e \<noteq> None | Some (l', ct) \<Rightarrow> e = None \<and> same_core l1 l'"
    using NewBpfClient_spec [OF laws run flags] by blast
  have inv: "client_inv kv l1 k'"
    using client_inv_keeps [OF conjunct1 [OF recoverBPFState_spec [OF laws initial_client_blank rec]] k] .
  show ?thesis
  proof (cases c)
    case None
    with c show ?thesis by simp
  next
    case (Some x)
    obtain l ct where x: "x = (l, ct)" by force
    with c Some have l: "e = None" "client_inv kv l k'" using same_core_inv [OF _ inv] by auto
    with ReAttachEbpfProbes_inv [OF startup_lawsD(1) [OF laws] l(2)] show ?thesis by (simp add: Some x)
  qed
qed

section \<open>Restarting\<close>

text \<open>
  The pins an earlier client left behind, found again: for each of its programs one entry with a new FD
  and the same maps, by ID.
\<close>

definition pins_of :: "bpfClient \<Rightarrow> (string, BpfData) go_map \<Rightarrow> bool" where
  "pins_of old st \<longleftrightarrow>
     (\<forall>i d. (\<exists>fd. owns_fd old i d fd) \<longleftrightarrow> (\<exists>data. entry st i d data)) \<and>
     (\<forall>i d data n b. entry st i d data \<longrightarrow> owns_map old i d n b \<longrightarrow>
        (\<exists>b'. map_of (Maps data) n = Some b' \<and> MapID b' = MapID b))"

lemma recovered_tier:
  assumes old: "client_inv kv old k" and pins: "pins_of old st" "table_ok kv k1 st" and rec: "recovered kv (\<lambda>_. False) k1 st l"
    and keep: "\<forall>i \<in> kv_ids kv k. kv_maps kv k' i = kv_maps kv k i" "kv_refused kv k' = kv_refused kv k" and ld: "loaded old i"
  shows "loaded l i" "tier_in_force kv old k i kind key other entries state \<Longrightarrow> tier_in_force kv l k' i kind key other entries state"
proof -
  obtain c where c: "policyEndpointeBPFContext old i = Some c" "\<And>d. prog_fd c d \<noteq> 0" using ld by (auto simp: loaded_def)
  have own: "owns_fd old i d (prog_fd c d)" for d using c by (simp add: owns_fd_def)
  then obtain data where data: "entry st i d (data d)" for d using pins(1) unfolding pins_of_def by metis
  have fd: "owns_fd l i d (ProgFD (Program (data d)))" for d
    using data table_okD(3) [OF pins(2) data] by (auto simp: recoveredD(1) [OF rec])
  obtain c' where c': "policyEndpointeBPFContext l i = Some c'" using fd [of Ingress] by (auto simp: owns_fd_def)
  have fd': "prog_fd c' d \<noteq> 0" for d using fd [of d] c' by (auto simp: owns_fd_def)
  show "loaded l i" using c' fd' by (simp add: loaded_def)
  have at: "MapID (map_at (pgmInfo c' d) n) = MapID (map_at (pgmInfo c d) n)" if n: "n \<in> policy_maps d" for d n
  proof -
    have o: "owns_map old i d n (map_at (pgmInfo c d) n)" by (rule owned_map_at [OF old c(1) c(2) n])
    obtain b' where b': "map_of (Maps (data d)) n = Some b'" "MapID b' = MapID (map_at (pgmInfo c d) n)"
      using pins(1) data o unfolding pins_of_def by metis
    have "owns_map l i d n b'" using data b' n by (auto simp: recoveredD(2) [OF rec])
    then show ?thesis using c' b' by (auto simp: owns_map_def map_at_def)
  qed
  have same: "kv_maps kv k' (MapID (map_at (pgmInfo c' d) n)) = kv_maps kv k (MapID (map_at (pgmInfo c d) n))" if n: "n \<in> policy_maps d" for d n
    using at [OF n] keep(1) progs_okD(4) [OF client_invD(3) [OF old] owned_map_at [OF old c(1) c(2) n]] by simp
  assume "tier_in_force kv old k i kind key other entries state"
  then show "tier_in_force kv l k' i kind key other entries state"
    using c c' fd' same [OF mapName_policy] same [OF podStateMapName_policy] at [OF mapName_policy]
    by (auto simp: tier_in_force_def map_holds_def keep(2))
qed

lemma recover_unchanged:
  assumes laws: "startup_laws su kv" and l: "blank l" and run: "recoverBPFState su (\<lambda>_. False) False l f k = (Inr (r, err, l'), f', k')"
    and g: "RecoverGlobalMaps su f' k = (Inr gs, k1)" and a: "RecoverAllBpfProgramsAndMaps su f' k1 = ((st, e), k2)"
  shows "recovered kv (\<lambda>_. False) k' st l' \<and> table_ok kv k' st"
proof -
  let ?f = "snd (migrateLegacyPinsFromCNIState (su_faults su) (su_migration su) BPF_PROGRAMS_PIN_PATH_DIRECTORY
                BPF_MAPS_PIN_PATH_DIRECTORY cniIpamStatePath formatV2MarkerPath f)"
  have f: "f' = ?f" using run by (auto simp: recoverBPFState_def Let_def split: sum.splits prod.splits)
  obtain r1 l1 where gf: "fold global_step gs (no_recovery, l) = (r1, l1)" by force
  have b1: "blank l1" using global_fold [OF gf] l by (simp add: same_core_def blank_def)
  have t: "table_ok kv k2 st" using startup_lawsD(3) [OF laws a] by simp
  have tab: "\<forall>(p, data) \<in> set st. (\<exists>i d. CHR ''/'' \<notin> set i \<and> p = pin i d) \<and> ProgFD (Program data) \<noteq> 0"
    using table_okD(2, 3) [OF t] unfolding entry_def by fast
  have "fold_panic (recover_entry (map_api (su_bpf su)) (\<lambda>_. False) k2) st l1 = Inr l' \<and> k' = k2"
    using run g a gf unfolding f by (auto simp: recoverBPFState_def Let_def split: sum.splits)
  with recover_table [OF env_lawsD(1) [OF startup_lawsD(1) [OF laws]] b1 table_okD(1) [OF t] tab] t show ?thesis by blast
qed

lemma restart_tiers:
  assumes laws: "startup_laws su kv" and old: "client_inv kv old k" and gone: "keeps kv {} (kv_fds kv k) k k0"
    and flags: "checkAndUpdateBPFBinaries (su_faults su) (bpf_binaries (cfg_enableIPv6 cfg)) hostBinaryPath f = (False, False, False)"
    and run: "NewBpfClient su cfg f k0 = (Inr (Some (l, ct), e), f', k')"
    and g: "RecoverGlobalMaps su f' k0 = (Inr gs, k1)" and a: "RecoverAllBpfProgramsAndMaps su f' k1 = ((st, e'), k2)"
    and pins: "pins_of old st" and ld: "loaded old i"
  shows "fwRuleProcessor l = fwRuleProcessor (initial_client cfg)" "loaded l i"
    "tier_in_force kv old k i kind key other entries state \<Longrightarrow> tier_in_force kv l k' i kind key other entries state"
proof -
  have u: "(\<lambda>d. case d of Ingress \<Rightarrow> False | Egress \<Rightarrow> False) = (\<lambda>_. False)" by (rule ext) (simp split: dir.split)
  obtain r err l1 k3 where rec: "recoverBPFState su (\<lambda>_. False) False (initial_client cfg)
      (InstallBPFBinaries (su_faults su) (bpf_binaries (cfg_enableIPv6 cfg)) hostBinaryPath f) k0 = (Inr (r, err, l1), f', k3)"
    and k: "keeps kv {} {} k3 k'" and core: "same_core l1 l"
    using NewBpfClient_spec [OF laws run flags] unfolding u by auto
  note spec = recoverBPFState_spec [OF laws initial_client_blank rec]
  note tab = recover_unchanged [OF laws initial_client_blank rec g a]
  show "fwRuleProcessor l = fwRuleProcessor (initial_client cfg)" using spec core by (simp add: same_core_def)
  have maps: "\<forall>j \<in> kv_ids kv k. kv_maps kv k' j = kv_maps kv k j"
  proof
    fix j assume "j \<in> kv_ids kv k"
    then have "j \<in> kv_ids kv k0 \<and> kv_maps kv k0 j = kv_maps kv k j" using gone by (simp add: keeps_def)
    moreover have "keeps kv {} {} k0 k'" using spec k by (meson keeps_trans_empty)
    ultimately show "kv_maps kv k' j = kv_maps kv k j" by (simp add: keeps_def)
  qed
  have "kv_refused kv k' = kv_refused kv k" using gone k spec by (simp add: keeps_def)
  note T = recovered_tier [OF old pins conjunct2 [OF tab] conjunct1 [OF tab] maps this ld]
  show "loaded l i" using T(1) core by (simp add: same_core_def loaded_def)
  assume "tier_in_force kv old k i kind key other entries state"
  from T(2) [OF this] show "tier_in_force kv l k' i kind key other entries state"
    using core by (simp add: same_core_def tier_in_force_def)
qed

section \<open>A simulated start\<close>

definition sim_events :: "sim_kernel events_env" where
  "sim_events = \<lparr>LoadDefaultConfig = (\<lambda>_. None), metadata_Region = (\<lambda>_. Inr ''us-west-2''), metadata_InstanceID = (\<lambda>_. Inr ''i-1''),
     DescribeTags = (\<lambda>_ _ _ _. Inr []), DescribeLogGroups = (\<lambda>_. Inr []), CreateLogGroup = (\<lambda>_ k. (None, k)),
     CreateLogStream = (\<lambda>_ _ k. (None, k)), PutLogEvents = (\<lambda>_ k. (Inr None, k)), uuid_New = (\<lambda>k. (''u'', k)),
     time_Now_ms = (\<lambda>_. 0), InitRingBuffer = (\<lambda>_ k. (None, k))\<rparr>"

text \<open>The programs of one deployment, pinned in any kernel in which they were loaded.\<close>

definition sim_table :: "(string, BpfData) go_map" where
  "sim_table = [(pin ''web-7d@shop'' Ingress, sim_data 1), (pin ''web-7d@shop'' Egress, sim_data 7)]"

definition sim_startup :: "sim_kernel startup_env" where
  "sim_startup = \<lparr>su_bpf = sim_env, su_faults = no_faults, su_migration = example_migration, su_events = sim_events,
     RecoverGlobalMaps = (\<lambda>f k. (Inr [(CONNTRACK_MAP_PIN_PATH, BpfSafety.sim_map 0), (POLICY_EVENTS_MAP_PIN_PATH, BpfSafety.sim_map 0)], k)),
     RecoverAllBpfProgramsAndMaps = (\<lambda>f k. ((if 13 \<le> sim_next k then sim_table else [], None), k)),
     GetAllBpfProgramsAndMaps = (\<lambda>f k. (Inr [], k)), GetAllAttachedProgIds = (\<lambda>k d. []), CleanupQdiscs = (\<lambda>_ _ k. (None, k)),
     LoadBpfFileWithCustomData = (\<lambda>_ _ _ k. (Inr [], k)), checkpoint_json = (\<lambda>_. Inr [])\<rparr>"

definition sim_base :: "dir \<Rightarrow> nat" where
  "sim_base d = (case d of Ingress \<Rightarrow> 1 | Egress \<Rightarrow> 7)"

lemma sim_base_range: "sim_base d \<le> 7" "sim_base d \<le> x \<Longrightarrow> x < sim_base d + 6 \<Longrightarrow> sim_base d' \<le> x \<Longrightarrow> x < sim_base d' + 6 \<Longrightarrow> d = d'"
  by (cases d; cases d'; simp add: sim_base_def)+

lemma sim_table_entry: "entry sim_table i d data \<longleftrightarrow> i = ''web-7d@shop'' \<and> data = sim_data (sim_base d)"
proof -
  have "CHR ''/'' \<notin> set ''web-7d@shop''" by simp
  note p = pin_inject [OF _ this]
  show ?thesis
    using p by (cases d) (auto simp: entry_def sim_table_def sim_base_def simp del: dirName.simps)
qed

lemma sim_data_fd: "ProgFD (Program (sim_data n)) = int n + 1"
  by (simp add: sim_data_def)

lemma sim_data_maps:
  "policy_maps d \<subseteq> dom (map_of (Maps (sim_data n)))"
  "x \<in> policy_maps d \<Longrightarrow> map_of (Maps (sim_data n)) x = Some b \<Longrightarrow> n \<le> MapID b \<and> MapID b < n + 6"
  "x \<in> policy_maps d \<Longrightarrow> map_of (Maps (sim_data n)) x = Some b \<Longrightarrow> y \<in> policy_maps d \<Longrightarrow> map_of (Maps (sim_data n)) y = Some b' \<Longrightarrow>
     MapID b = MapID b' \<Longrightarrow> x = y"
  by (cases d; auto simp: policy_maps_def sim_data_def BpfSafety.sim_map_def name_defs split: if_splits)+

lemma sim_table_wf: "go_map_wf sim_table" "(p, data) \<in> set sim_table \<Longrightarrow> \<exists>i d. CHR ''/'' \<notin> set i \<and> p = pin i d"
proof -
  show "go_map_wf sim_table" using pin_inject [of "''web-7d@shop''" "''web-7d@shop''" Ingress Egress] by (auto simp: go_map_wf_def sim_table_def)
  assume "(p, data) \<in> set sim_table"
  then have "p = pin ''web-7d@shop'' Ingress \<or> p = pin ''web-7d@shop'' Egress" by (auto simp: sim_table_def)
  moreover have "CHR ''/'' \<notin> set ''web-7d@shop''" by simp
  ultimately show "\<exists>i d. CHR ''/'' \<notin> set i \<and> p = pin i d" by blast
qed

lemma sim_table_ok: assumes "13 \<le> sim_next k" shows "table_ok sim_view k sim_table"
proof -
  have r: "sim_base d + 6 \<le> sim_next k" for d using sim_base_range(1) [of d] assms by simp
  have id: "MapID b < sim_next k" if "n \<in> policy_maps d" "map_of (Maps (sim_data (sim_base d))) n = Some b" for n d b
    using sim_data_maps(2) [OF that] r [of d] by simp
  have d: "d = d' \<and> n = n'" if "n \<in> policy_maps d" "map_of (Maps (sim_data (sim_base d))) n = Some b" "n' \<in> policy_maps d'"
      "map_of (Maps (sim_data (sim_base d'))) n' = Some b'" "MapID b = MapID b'" for n d b n' d' b'
  proof -
    have "d = d'" using sim_data_maps(2) [OF that(1, 2)] sim_data_maps(2) [OF that(3, 4)] that(5) sim_base_range(2) by auto
    with that sim_data_maps(3) show ?thesis by metis
  qed
  have f: "d = d'" if "int (sim_base d) + 1 = int (sim_base d') + 1" for d d' using that sim_base_range(2) [of d "sim_base d" d'] by simp
  show ?thesis
    unfolding table_ok_def sim_table_entry
  proof (intro conjI allI impI; (elim conjE)?)
    fix d data assume "data = sim_data (sim_base d)"
    then show "ProgFD (Program data) \<noteq> 0" "ProgFD (Program data) \<in> kv_fds sim_view k" "policy_maps d \<subseteq> dom (map_of (Maps data))"
      using r [of d] sim_data_maps(1) by (simp_all add: sim_data_fd sim_view_def)
  next
    fix d data n b assume "n \<in> policy_maps d" "map_of (Maps data) n = Some b" "data = sim_data (sim_base d)"
    then show "MapID b \<in> kv_ids sim_view k" using id by (simp add: sim_view_def)
  next
    fix d data d' data' assume "ProgFD (Program data) = ProgFD (Program data')" "data = sim_data (sim_base d)" "data' = sim_data (sim_base d')"
    then show "d = d'" using f by (simp add: sim_data_fd)
  next
    fix d data n b d' data' n' b' assume "n \<in> policy_maps d" "map_of (Maps data) n = Some b" "n' \<in> policy_maps d'" "map_of (Maps data') n' = Some b'"
      "MapID b = MapID b'" "data = sim_data (sim_base d)" "data' = sim_data (sim_base d')"
    then show "d = d'" "n = n'" using d by metis+
  qed (use sim_table_wf in simp_all)
qed

lemma sim_startup_laws: "startup_laws sim_startup sim_view"
  using sim_env_laws sim_table_ok by (auto simp: startup_laws_def sim_startup_def sim_events_def table_ok_def [of _ _ "[]"] entry_def)

definition example_config :: client_config where
  "example_config = \<lparr>cfg_nodeIP = ''10.0.0.1'', cfg_enablePolicyEventLogs = True, cfg_enableCloudWatchLogs = False,
     cfg_enableIPv6 = False, cfg_conntrackTableSize = 512, cfg_networkPolicyMode = ''standard'', cfg_isMultiNICEnabled = False\<rparr>"

text \<open>A host on which the migration has run and the binaries are those of the agent.\<close>

definition example_host :: fs where
  "example_host = (\<lambda>_. Some (example_node [7]))"

theorem started_client_sound_witness:
  "\<exists>l ct f' k'. NewBpfClient sim_startup example_config example_host (snd example_state) = (Inr (Some (l, ct), None), f', k') \<and>
     HasBPFContext l ''web-7d@shop'' \<and> client_inv sim_view l k'"
proof -
  have "case fst (NewBpfClient sim_startup example_config example_host (snd example_state)) of
      Inr (Some (l, ct), None) \<Rightarrow> HasBPFContext l ''web-7d@shop'' | _ \<Rightarrow> False" by code_simp
  then obtain l ct f' k' where run: "NewBpfClient sim_startup example_config example_host (snd example_state) = (Inr (Some (l, ct), None), f', k')"
      "HasBPFContext l ''web-7d@shop''"
    by (cases "NewBpfClient sim_startup example_config example_host (snd example_state)") (auto split: sum.splits option.splits prod.splits)
  from started_client_sound [OF sim_startup_laws run(1)] have "client_inv sim_view l k'" by simp
  with run show ?thesis by blast
qed

lemma example_contexts:
  "policyEndpointeBPFContext (fst example_state) =
     [''web-7d@shop'' \<mapsto> zero_context\<lparr>pgmInfo := (\<lambda>d. sim_data (sim_base d))\<rparr>]"
proof -
  have "(\<lambda>_. zero_data)(Ingress := sim_data 1, Egress := sim_data 7) = (\<lambda>d. sim_data (sim_base d))"
    by (rule ext) (simp add: sim_base_def split: dir.split)
  then show ?thesis
    using example_name
    by (simp add: example_state_def client_run_def sim_attach_first sim_attach_again example_ident register_both_fields
        example_kernel_def sim_data_def) 
       (simp add: with_program_def context_of_def example_client_def new_client_def unmark_def zero_context_def)
qed

lemma example_pins_of:
  assumes "policyEndpointeBPFContext l = policyEndpointeBPFContext (fst example_state)" shows "pins_of l sim_table"
  using assms
  by (auto simp: pins_of_def sim_table_entry owns_fd_def owns_map_def example_contexts prog_fd_def sim_data_fd split: if_splits)

lemma sim_flags: "checkAndUpdateBPFBinaries (su_faults sim_startup) (bpf_binaries (cfg_enableIPv6 example_config)) hostBinaryPath example_host =
   (False, False, False)"
  by (simp add: check_flags Let_def same_probe_def sim_startup_def read_no_faults example_host_def)

lemma sim_recover:
  assumes "13 \<le> sim_next k" "readable sim_sdk k sim_table"
  shows "\<exists>r l f'. recoverBPFState sim_startup (\<lambda>_. False) False (initial_client example_config) f k = (Inr (r, None, l), f', k) \<and>
    isConntrackMapPresent r \<and> isPolicyEventsMapPresent r \<and> eventsMapFD r = 3 \<and> \<not> isMultiNICEnabled l"
proof -
  let ?l = "(initial_client example_config)\<lparr>globalMaps := [CONNTRACK_MAP_PIN_PATH \<mapsto> BpfSafety.sim_map 0]\<rparr>"
  let ?r = "no_recovery\<lparr>isConntrackMapPresent := True, isPolicyEventsMapPresent := True, eventsMapFD := 3\<rparr>"
  have g: "fold global_step [(CONNTRACK_MAP_PIN_PATH, BpfSafety.sim_map 0), (POLICY_EVENTS_MAP_PIN_PATH, BpfSafety.sim_map 0)]
      (no_recovery, initial_client example_config) = (?r, ?l)"
    by (simp add: global_step_def CONNTRACK_MAP_PIN_PATH_def POLICY_EVENTS_MAP_PIN_PATH_def BpfSafety.sim_map_def initial_client_def
        new_client_def no_recovery_def)
  obtain l where l: "fold_panic (recover_entry sim_sdk (\<lambda>_. False) k) sim_table ?l = Inr l"
    using recover_total [OF assms(2)] sim_table_wf(2) by blast
  obtain c s where "l = ?l\<lparr>policyEndpointeBPFContext := c, inMemoryMap := s\<rparr>" using recover_fields [OF l] by blast
  then have "\<not> isMultiNICEnabled l" by (simp add: initial_client_def new_client_def example_config_def)
  moreover have "map_api sim_env = sim_sdk" by (simp add: sim_env_def)
  ultimately show ?thesis using assms(1) g l by (auto simp: recoverBPFState_def sim_startup_def Let_def)
qed

lemma sim_start:
  assumes "13 \<le> sim_next k" "readable sim_sdk k sim_table"
  shows "\<exists>l ct f'. NewBpfClient sim_startup example_config example_host k = (Inr (Some (l, ct), None), f', k)"
proof -
  have u: "(\<lambda>d. case d of Ingress \<Rightarrow> False | Egress \<Rightarrow> False) = (\<lambda>_. False)" by (rule ext) (simp split: dir.split)
  obtain r l f' where rec: "recoverBPFState sim_startup (\<lambda>_. False) False (initial_client example_config)
      (InstallBPFBinaries (su_faults sim_startup) (bpf_binaries (cfg_enableIPv6 example_config)) hostBinaryPath example_host) k = (Inr (r, None, l), f', k)"
    and r: "isConntrackMapPresent r" "isPolicyEventsMapPresent r" "eventsMapFD r = 3" "\<not> isMultiNICEnabled l"
    using sim_recover [OF assms] by blast
  obtain m where "globalMaps l CONNTRACK_MAP_PIN_PATH = Some m"
    using recoverBPFState_spec [OF sim_startup_laws initial_client_blank rec] r by auto
  moreover have "InitRingBuffer (su_events sim_startup) fds k = (None, k)" for fds by (simp add: sim_startup_def sim_events_def)
  moreover have "cfg_enablePolicyEventLogs example_config" "\<not> cfg_enableCloudWatchLogs example_config" by (simp_all add: example_config_def)
  ultimately show ?thesis using r
    by (simp add: NewBpfClient_def Let_def sim_flags u rec global_maps_def finish_start_def ConfigurePolicyEventsLogging_def)
qed

lemma sim_readable:
  assumes "list_all (\<lambda>i. list_all (\<lambda>(key, v). key \<noteq> []) (sim_maps k i)) [1..<13]" shows "readable sim_sdk k sim_table"
  unfolding readable_def
proof (intro allI impI conjI)
  fix p data n b assume m: "(p, data) \<in> set sim_table" "map_of (Maps data) n = Some b"
  then have b: "ValueSize b = 1 \<and> MapID b \<in> set [1..<13]"
    by (auto simp: sim_table_def sim_data_def BpfSafety.sim_map_def split: if_splits)
  then show "ValueSize b \<noteq> 0" by simp
  fix keys assume "GetAllMapKeys sim_sdk b k = Inr keys"
  with b assms show "[] \<notin> set keys" unfolding sim_sdk_def list_all_iff by fastforce
qed

end
