(* ===== verification/PolicyReconciler.thy ===== *)
theory PolicyReconciler
  imports Tiers
begin

text \<open>
  \<^verbatim>\<open>controllers/policyendpoints_controller.go\<close>: the reconciler of \<^verbatim>\<open>PolicyEndpoint\<close>
  resources. It keeps the index from pod identifiers to policy endpoints, the pods each policy
  endpoint selects on this node and the identifiers each network policy selects, derives the
  firewall rules of an identifier from the policy endpoints in the index, and programs them through
  the eBPF client. The Kubernetes API is the parameter \<open>k8s_api\<close>, the cache the reconciler reads,
  which does not change during one call. An error is the list of its joined messages, \<open>[]\<close> for nil.
\<close>

section \<open>State and parameters\<close>

datatype api_err = NotFound | ApiErr string

record k8s_api =
  Get_PE :: "NamespacedName \<Rightarrow> api_err + PolicyEndpoint"
  List_PE :: "string \<Rightarrow> string + PolicyEndpoint list"

text \<open>The histogram \<^verbatim>\<open>policyProgrammingLatency\<close> is the list of its samples; times are
  nanoseconds.\<close>

record PolicyEndpointsReconciler =
  r_nodeIP :: string
  trackerStartTime :: int
  lastObservedTriggerTimes :: "NamespacedName \<rightharpoonup> string"
  podIdentifierToPolicyEndpointMap :: pe_index
  policyEndpointSelectorMap :: "string \<rightharpoonup> Pod list"
  networkPolicyToPodIdentifierMap :: "string \<rightharpoonup> string list"
  r_enableIPv6 :: bool
  policyProgrammingLatency :: "int list"

definition NewPolicyEndpointsReconciler :: "string \<Rightarrow> bool \<Rightarrow> int \<Rightarrow> PolicyEndpointsReconciler" where
  "NewPolicyEndpointsReconciler nodeIP v6 now =
     \<lparr>r_nodeIP = nodeIP, trackerStartTime = now, lastObservedTriggerTimes = (\<lambda>_. None),
      podIdentifierToPolicyEndpointMap = (\<lambda>_. None), policyEndpointSelectorMap = (\<lambda>_. None),
      networkPolicyToPodIdentifierMap = (\<lambda>_. None), r_enableIPv6 = v6, policyProgrammingLatency = []\<rparr>"

definition LastChangeTriggerTimeAnnotation :: string where
  "LastChangeTriggerTimeAnnotation = ''networking.k8s.aws/last-change-trigger-time''"

definition STATE_POLICIES_APPLIED :: int where "STATE_POLICIES_APPLIED = 0"
definition STATE_DEFAULT_ALLOW :: int where "STATE_DEFAULT_ALLOW = 1"
definition STATE_DEFAULT_DENY :: int where "STATE_DEFAULT_DENY = 2"

definition PolicyTypeIngress :: string where "PolicyTypeIngress = ''Ingress''"
definition PolicyTypeEgress :: string where "PolicyTypeEgress = ''Egress''"

section \<open>Rules of an identifier\<close>

record derived =
  dv_ingress :: "EbpfFirewallRules list"
  dv_egress :: "EbpfFirewallRules list"
  dv_ingressIsolated :: bool
  dv_egressIsolated :: bool

definition no_rules :: derived where
  "no_rules = \<lparr>dv_ingress = [], dv_egress = [], dv_ingressIsolated = False, dv_egressIsolated = False\<rparr>"

definition rule_of :: "EndpointInfo \<Rightarrow> EbpfFirewallRules" where
  "rule_of ei = \<lparr>fr_Priority = 0, fr_Action = [], fr_DomainName = [], fr_IPCidr = ei_CIDR ei,
     fr_Except = ei_Except ei, fr_L4Info = ei_Ports ei\<rparr>"

definition deriveDefaultPodIsolation :: "PolicyEndpoint \<Rightarrow> nat \<Rightarrow> nat \<Rightarrow> bool \<times> bool" where
  "deriveDefaultPodIsolation pe ingressRulesCount egressRulesCount =
     fold (\<lambda>v (isIngressIsolated, isEgressIsolated).
             (isIngressIsolated \<or> v = PolicyTypeIngress \<and> ingressRulesCount = 0,
              isEgressIsolated \<or> v = PolicyTypeEgress \<and> egressRulesCount = 0))
       (pes_PodIsolation (pe_Spec pe)) (False, False)"

text \<open>What one policy endpoint adds; egress rules without a CIDR are skipped.\<close>

definition add_pe :: "PolicyEndpoint \<Rightarrow> derived \<Rightarrow> derived" where
  "add_pe pe dv =
     (let ing = dv_ingress dv @ map rule_of (pes_Ingress (pe_Spec pe));
          eg = dv_egress dv @ map rule_of (filter (\<lambda>ei. ei_CIDR ei \<noteq> []) (pes_Egress (pe_Spec pe)));
          (ingressIsolated, egressIsolated) = deriveDefaultPodIsolation pe (length ing) (length eg)
      in \<lparr>dv_ingress = ing, dv_egress = eg, dv_ingressIsolated = dv_ingressIsolated dv \<or> ingressIsolated,
          dv_egressIsolated = dv_egressIsolated dv \<or> egressIsolated\<rparr>)"

definition same_parent :: "string \<Rightarrow> string \<Rightarrow> go_panic + bool" where
  "same_parent deletedPE currentPE =
     (case GetParentNPNameFromPEName deletedPE of
        Inl p \<Rightarrow> Inl p
      | Inr a \<Rightarrow> (case GetParentNPNameFromPEName currentPE of Inl p \<Rightarrow> Inl p | Inr b \<Rightarrow> Inr (a = b)))"

fun derive_loop ::
  "k8s_api \<Rightarrow> string \<Rightarrow> string \<Rightarrow> bool \<Rightarrow> string list \<Rightarrow> derived \<Rightarrow> go_panic + string + derived" where
  "derive_loop k8s ns resourceName isDeleteFlow [] dv = Inr (Inr dv)"
| "derive_loop k8s ns resourceName isDeleteFlow (pe # pes) dv =
     (case (if isDeleteFlow then same_parent resourceName pe else Inr False) of
        Inl p \<Rightarrow> Inl p
      | Inr True \<Rightarrow> derive_loop k8s ns resourceName isDeleteFlow pes dv
      | Inr False \<Rightarrow>
          (case Get_PE k8s \<lparr>nn_Name = pe, nn_Namespace = ns\<rparr> of
             Inl NotFound \<Rightarrow> derive_loop k8s ns resourceName isDeleteFlow pes dv
           | Inl (ApiErr e) \<Rightarrow> Inr (Inl e)
           | Inr currentPE \<Rightarrow> derive_loop k8s ns resourceName isDeleteFlow pes (add_pe currentPE dv)))"

definition deriveIngressAndEgressFirewallRules ::
  "k8s_api \<Rightarrow> PolicyEndpointsReconciler \<Rightarrow> string \<Rightarrow> string \<Rightarrow> string \<Rightarrow> bool \<Rightarrow> go_panic + string + derived" where
  "deriveIngressAndEgressFirewallRules k8s r podIdentifier resourceNamespace resourceName isDeleteFlow =
     (case podIdentifierToPolicyEndpointMap r podIdentifier of
        None \<Rightarrow> Inr (Inr no_rules)
      | Some pes \<Rightarrow>
          (case derive_loop k8s resourceNamespace resourceName isDeleteFlow pes no_rules of
             Inr (Inr dv) \<Rightarrow>
               Inr (Inr (dv\<lparr>dv_ingressIsolated := dv_ingress dv = [] \<and> dv_ingressIsolated dv,
                            dv_egressIsolated := dv_egress dv = [] \<and> dv_egressIsolated dv\<rparr>))
           | e \<Rightarrow> e))"

definition addCatchAllEntry :: "PolicyEndpointsReconciler \<Rightarrow> EbpfFirewallRules list \<Rightarrow> EbpfFirewallRules list" where
  "addCatchAllEntry r firewallRules = firewallRules @
     [\<lparr>fr_Priority = 0, fr_Action = [], fr_DomainName = [],
       fr_IPCidr = (if r_enableIPv6 r then ''::/0'' else ''0.0.0.0/0''), fr_Except = [], fr_L4Info = []\<rparr>]"

text \<open>A direction with no rules that no policy isolates is opened.\<close>

definition open_ingress :: "PolicyEndpointsReconciler \<Rightarrow> derived \<Rightarrow> EbpfFirewallRules list" where
  "open_ingress r dv =
     (if dv_ingress dv = [] \<and> \<not> dv_ingressIsolated dv then addCatchAllEntry r (dv_ingress dv) else dv_ingress dv)"

definition open_egress :: "PolicyEndpointsReconciler \<Rightarrow> derived \<Rightarrow> EbpfFirewallRules list" where
  "open_egress r dv =
     (if dv_egress dv = [] \<and> \<not> dv_egressIsolated dv then addCatchAllEntry r (dv_egress dv) else dv_egress dv)"

text \<open>The error of the derivation is logged and dropped.\<close>

definition DeriveFireWallRulesPerPodIdentifier ::
  "k8s_api \<Rightarrow> PolicyEndpointsReconciler \<Rightarrow> string \<Rightarrow> string \<Rightarrow> go_panic + EbpfFirewallRules list \<times> EbpfFirewallRules list" where
  "DeriveFireWallRulesPerPodIdentifier k8s r podIdentifier podNamespace =
     (case deriveIngressAndEgressFirewallRules k8s r podIdentifier podNamespace [] False of
        Inl p \<Rightarrow> Inl p
      | Inr (Inl e) \<Rightarrow> Inr ([], [])
      | Inr (Inr dv) \<Rightarrow> Inr (open_ingress r dv, open_egress r dv))"

definition ArePoliciesAvailableInLocalCache :: "PolicyEndpointsReconciler \<Rightarrow> string \<Rightarrow> bool" where
  "ArePoliciesAvailableInLocalCache r podIdentifier =
     (case podIdentifierToPolicyEndpointMap r podIdentifier of None \<Rightarrow> False | Some pes \<Rightarrow> 0 < length pes)"

section \<open>Programming\<close>

definition updateeBPFMaps ::
  "'k bpf_env \<Rightarrow> go_orders \<Rightarrow> string \<Rightarrow> EbpfFirewallRules list \<Rightarrow> EbpfFirewallRules list \<Rightarrow> int \<Rightarrow> bpfClient \<times> 'k \<Rightarrow>
     (bpfClient \<times> 'k) outcome" where
  "updateeBPFMaps env os podIdentifier ingressRules egressRules state s =
     on_ok (UpdateEbpfMaps env os podIdentifier ingressRules egressRules (fst s) (snd s)) (\<lambda>(l, k).
     on_ok (case UpdatePodStateEbpfMaps env podIdentifier POD_STATE_MAP_KEY state True True l k of
              (e, k') \<Rightarrow> (Inr e, l, k')) (\<lambda>(l, k).
       case CreatePodStateEbpfEntryIfNotExists env podIdentifier CLUSTER_POLICY_POD_STATE_MAP_KEY STATE_DEFAULT_ALLOW l k of
         (e, k') \<Rightarrow> (Inr e, l, k')))"

definition pod_identifier :: "Pod \<Rightarrow> string" where
  "pod_identifier pod = GetPodIdentifier (nn_Name (pod_NamespacedName pod)) (nn_Namespace (pod_NamespacedName pod))"

definition attach_pod :: "'k bpf_env \<Rightarrow> Pod \<Rightarrow> string \<Rightarrow> bpfClient \<times> 'k \<Rightarrow> (bpfClient \<times> 'k) outcome" where
  "attach_pod env pod podIdentifier s =
     (case AttacheBPFProbes env (pod_NamespacedName pod) podIdentifier INTERFACE_COUNT_UNKNOWN False (fst s) (snd s) of
        (Inl e, s') \<Rightarrow> (Inr [e], s')
      | (Inr _, s') \<Rightarrow> (Inr [], s'))"

fun attach_pods :: "'k bpf_env \<Rightarrow> string \<Rightarrow> Pod list \<Rightarrow> bpfClient \<times> 'k \<Rightarrow> (bpfClient \<times> 'k) outcome" where
  "attach_pods env podIdentifier [] s = (Inr [], s)"
| "attach_pods env podIdentifier (pod # pods) s =
     (if pod_identifier pod \<noteq> podIdentifier then attach_pods env podIdentifier pods s
      else on_ok (attach_pod env pod podIdentifier s) (attach_pods env podIdentifier pods))"

definition configureeBPFProbes ::
  "'k bpf_env \<Rightarrow> go_orders \<Rightarrow> string \<Rightarrow> Pod list \<Rightarrow> EbpfFirewallRules list \<Rightarrow> EbpfFirewallRules list \<Rightarrow> bpfClient \<times> 'k \<Rightarrow>
     (bpfClient \<times> 'k) outcome" where
  "configureeBPFProbes env os podIdentifier targetPods ingressRules egressRules s =
     on_ok (attach_pods env podIdentifier targetPods s)
       (updateeBPFMaps env os podIdentifier ingressRules egressRules STATE_POLICIES_APPLIED)"

definition default_state :: "string \<Rightarrow> int" where
  "default_state mode = (if IsStrictMode mode then STATE_DEFAULT_DENY else STATE_DEFAULT_ALLOW)"

definition cleanupPod ::
  "k8s_api \<Rightarrow> 'k bpf_env \<Rightarrow> go_orders \<Rightarrow> PolicyEndpointsReconciler \<Rightarrow> Pod \<Rightarrow> string \<Rightarrow> bool \<Rightarrow> bpfClient \<times> 'k \<Rightarrow>
     (bpfClient \<times> 'k) outcome" where
  "cleanupPod k8s env os r targetPod policyEndpoint isDeleteFlow s =
     (let podIdentifier = pod_identifier targetPod
      in case podIdentifierToPolicyEndpointMap r podIdentifier of
           None \<Rightarrow> (Inr [], s)
         | Some _ \<Rightarrow>
             (case deriveIngressAndEgressFirewallRules k8s r podIdentifier
                     (nn_Namespace (pod_NamespacedName targetPod)) policyEndpoint isDeleteFlow of
                Inl p \<Rightarrow> (Inl p, s)
              | Inr (Inl e) \<Rightarrow> (Inr [e], s)
              | Inr (Inr dv) \<Rightarrow>
                  let noActiveIngressPolicies = (dv_ingress dv = [] \<and> \<not> dv_ingressIsolated dv);
                      noActiveEgressPolicies = (dv_egress dv = [] \<and> \<not> dv_egressIsolated dv)
                  in if noActiveIngressPolicies \<and> noActiveEgressPolicies
                     then updateeBPFMaps env os podIdentifier (dv_ingress dv) (dv_egress dv)
                            (default_state (GetNetworkPolicyMode (fst s))) s
                     else updateeBPFMaps env os podIdentifier (open_ingress r dv) (open_egress r dv)
                            STATE_POLICIES_APPLIED s))"

fun updatePolicyEnforcementStatusForPods ::
  "k8s_api \<Rightarrow> 'k bpf_env \<Rightarrow> go_orders \<Rightarrow> PolicyEndpointsReconciler \<Rightarrow> string \<Rightarrow> Pod list \<Rightarrow> bool \<Rightarrow> bpfClient \<times> 'k \<Rightarrow>
     (bpfClient \<times> 'k) outcome" where
  "updatePolicyEnforcementStatusForPods k8s env os r policyEndpointName [] isDeleteFlow s = (Inr [], s)"
| "updatePolicyEnforcementStatusForPods k8s env os r policyEndpointName (targetPod # targetPods) isDeleteFlow s =
     (case cleanupPod k8s env os r targetPod policyEndpointName isDeleteFlow s of
        (Inl p, s') \<Rightarrow> (Inl p, s')
      | (Inr cleanupErr, s') \<Rightarrow>
          (case updatePolicyEnforcementStatusForPods k8s env os r policyEndpointName targetPods isDeleteFlow s' of
             (Inl p, s'') \<Rightarrow> (Inl p, s'')
           | (Inr err, s'') \<Rightarrow> (Inr (cleanupErr @ err), s'')))"

section \<open>Target pods\<close>

definition derivePolicyEndpointsOfParentNP :: "k8s_api \<Rightarrow> string \<Rightarrow> string \<Rightarrow> string list" where
  "derivePolicyEndpointsOfParentNP k8s parentNP resourceNamespace =
     (case List_PE k8s resourceNamespace of
        Inl e \<Rightarrow> []
      | Inr items \<Rightarrow> map pe_Name (filter (\<lambda>pe. ref_Name (pes_PolicyRef (pe_Spec pe)) = parentNP) items))"

definition updatePodIdentifierToPEMap :: "string \<Rightarrow> string list \<Rightarrow> PolicyEndpointsReconciler \<Rightarrow> PolicyEndpointsReconciler" where
  "updatePodIdentifierToPEMap podIdentifier parentPEList r =
     r\<lparr>podIdentifierToPolicyEndpointMap := (podIdentifierToPolicyEndpointMap r)(podIdentifier \<mapsto>
        (case podIdentifierToPolicyEndpointMap r podIdentifier of
           Some currentPESet \<Rightarrow> currentPESet @ filter (\<lambda>pe. pe \<notin> set currentPESet) parentPEList
         | None \<Rightarrow> parentPEList))\<rparr>"

definition deletePolicyEndpointFromPodIdentifierMap ::
  "string \<Rightarrow> string \<Rightarrow> PolicyEndpointsReconciler \<Rightarrow> PolicyEndpointsReconciler" where
  "deletePolicyEndpointFromPodIdentifierMap podIdentifier policyEndpoint r =
     r\<lparr>podIdentifierToPolicyEndpointMap :=
        (case podIdentifierToPolicyEndpointMap r podIdentifier of
           None \<Rightarrow> podIdentifierToPolicyEndpointMap r
         | Some policyEndpointList \<Rightarrow>
             let currentPEList = filter (\<lambda>name. name \<noteq> policyEndpoint) policyEndpointList
             in if length currentPEList = 0 then (podIdentifierToPolicyEndpointMap r)(podIdentifier := None)
                else (podIdentifierToPolicyEndpointMap r)(podIdentifier \<mapsto> currentPEList))\<rparr>"

text \<open>The loop of \<^verbatim>\<open>deriveTargetPods\<close>: pods of the host network are skipped, pods of other
  nodes only enter the index.\<close>

definition target_step ::
  "string list \<Rightarrow> PodEndpoint \<Rightarrow> Pod list \<times> (string, bool) go_map \<times> PolicyEndpointsReconciler \<Rightarrow>
     Pod list \<times> (string, bool) go_map \<times> PolicyEndpointsReconciler" where
  "target_step parentPEList pod acc =
     (case acc of (targetPods, podIdentifiers, r) \<Rightarrow>
        if pep_PodIP pod = pep_HostIP pod then acc
        else
          let podIdentifier = GetPodIdentifier (pep_Name pod) (pep_Namespace pod);
              r' = updatePodIdentifierToPEMap podIdentifier parentPEList r
          in if IP_Equal (ParseIP (r_nodeIP r)) (ParseIP (pep_HostIP pod))
             then (targetPods @ [\<lparr>pod_NamespacedName = \<lparr>nn_Name = pep_Name pod, nn_Namespace = pep_Namespace pod\<rparr>,
                                  pod_PodIP = pep_PodIP pod\<rparr>],
                   AList.update podIdentifier True podIdentifiers, r')
             else (targetPods, podIdentifiers, r'))"

definition deriveTargetPods ::
  "PolicyEndpoint \<Rightarrow> string list \<Rightarrow> PolicyEndpointsReconciler \<Rightarrow>
     Pod list \<times> (string, bool) go_map \<times> PolicyEndpointsReconciler" where
  "deriveTargetPods policyEndpoint parentPEList r =
     fold (target_step parentPEList) (pes_PodSelectorEndpoints (pe_Spec policyEndpoint)) ([], [], r)"

definition getPodListToBeCleanedUp :: "Pod list \<Rightarrow> Pod list \<Rightarrow> (string, bool) go_map \<Rightarrow> Pod list" where
  "getPodListToBeCleanedUp oldPodSet newPodSet podIdentifiers =
     filter (\<lambda>oldPod. pod_NamespacedName oldPod \<notin> pod_NamespacedName ` set newPodSet \<and>
                      map_of podIdentifiers (pod_identifier oldPod) \<noteq> Some True) oldPodSet"

definition deriveStalePodIdentifiers :: "PolicyEndpointsReconciler \<Rightarrow> string \<Rightarrow> string list \<Rightarrow> go_panic + string list" where
  "deriveStalePodIdentifiers r resourceName targetPodIdentifiers =
     (case GetParentNPNameFromPEName resourceName of
        Inl p \<Rightarrow> Inl p
      | Inr np \<Rightarrow> Inr (case networkPolicyToPodIdentifierMap r np of
            None \<Rightarrow> []
          | Some currentPodIdentifiers \<Rightarrow> filter (\<lambda>i. i \<notin> set targetPodIdentifiers) currentPodIdentifiers))"

text \<open>A policy endpoint that cannot be read is taken for one with no pods, unless it is not found.\<close>

definition zero_PolicyEndpoint :: PolicyEndpoint where
  "zero_PolicyEndpoint = \<lparr>pe_Name = [], pe_Namespace = [], pe_Annotations = (\<lambda>_. None), pe_Deleting = False,
     pe_Spec = \<lparr>pes_PolicyRef = \<lparr>ref_Name = [], ref_Namespace = []\<rparr>, pes_PodIsolation = [],
       pes_PodSelectorEndpoints = [], pes_Ingress = [], pes_Egress = []\<rparr>\<rparr>"

record targets =
  tg_pods :: "Pod list"
  tg_identifiers :: "(string, bool) go_map"
  tg_list :: "string list"

text \<open>The loop over the parent's policy endpoints; \<open>ord\<close> is the order of a range over a map of identifiers.\<close>

definition parent_step ::
  "k8s_api \<Rightarrow> ((string \<times> bool) list \<Rightarrow> (string \<times> bool) list) \<Rightarrow> string \<Rightarrow> string list \<Rightarrow> string \<Rightarrow>
     targets \<times> PolicyEndpointsReconciler \<Rightarrow> targets \<times> PolicyEndpointsReconciler" where
  "parent_step k8s ord resourceNamespace parentPEList name acc =
     (case acc of (tg, r) \<Rightarrow>
        (case Get_PE k8s \<lparr>nn_Name = name, nn_Namespace = resourceNamespace\<rparr> of
           Inl NotFound \<Rightarrow> (tg, r)
         | res \<Rightarrow>
             (let currentPE = (case res of Inr pe \<Rightarrow> pe | Inl _ \<Rightarrow> zero_PolicyEndpoint);
                  (currentTargetPods, currentPodIdentifiers, r') = deriveTargetPods currentPE parentPEList r;
                  ids = map fst (ord currentPodIdentifiers)
              in (\<lparr>tg_pods = tg_pods tg @ currentTargetPods,
                   tg_identifiers = fold (\<lambda>i. AList.update i True) ids (tg_identifiers tg),
                   tg_list = tg_list tg @ ids\<rparr>, r'))))"

definition store_targets :: "string \<Rightarrow> Pod list \<Rightarrow> string list \<Rightarrow> string \<Rightarrow> PolicyEndpointsReconciler \<Rightarrow> PolicyEndpointsReconciler" where
  "store_targets resourceNamespace targetPods stalePodIdentifiers name r =
     fold (\<lambda>i. deletePolicyEndpointFromPodIdentifierMap i name) stalePodIdentifiers
       (r\<lparr>policyEndpointSelectorMap := (policyEndpointSelectorMap r)(GetPolicyEndpointIdentifier name resourceNamespace :=
            (if 0 < length targetPods then Some targetPods else None))\<rparr>)"

definition deriveTargetPodsForParentNP ::
  "k8s_api \<Rightarrow> ((string \<times> bool) list \<Rightarrow> (string \<times> bool) list) \<Rightarrow> string \<Rightarrow> string \<Rightarrow> string \<Rightarrow> PolicyEndpointsReconciler \<Rightarrow>
     (go_panic + Pod list \<times> (string, bool) go_map \<times> Pod list) \<times> PolicyEndpointsReconciler" where
  "deriveTargetPodsForParentNP k8s ord parentNP resourceNamespace resourceName r =
     (let parentPEList = derivePolicyEndpointsOfParentNP k8s parentNP resourceNamespace;
          policyEndpointIdentifier = GetPolicyEndpointIdentifier resourceName resourceNamespace;
          currentPods = (case policyEndpointSelectorMap r policyEndpointIdentifier of None \<Rightarrow> [] | Some ps \<Rightarrow> ps);
          podsToBeCleanedUp = (if parentPEList = [] then currentPods else []);
          r1 = (if parentPEList = []
                then r\<lparr>policyEndpointSelectorMap := (policyEndpointSelectorMap r)(policyEndpointIdentifier := None)\<rparr>
                else r);
          (tg, r2) = fold (parent_step k8s ord resourceNamespace parentPEList) parentPEList
                       (\<lparr>tg_pods = [], tg_identifiers = [], tg_list = []\<rparr>, r1)
      in case deriveStalePodIdentifiers r2 resourceName (tg_list tg) of
           Inl p \<Rightarrow> (Inl p, r2)
         | Inr stalePodIdentifiers \<Rightarrow>
             let r3 = fold (store_targets resourceNamespace (tg_pods tg) stalePodIdentifiers) parentPEList r2
             in case GetParentNPNameFromPEName resourceName of
                  Inl p \<Rightarrow> (Inl p, r3)
                | Inr np \<Rightarrow>
                    (Inr (tg_pods tg, tg_identifiers tg,
                          if 0 < length currentPods
                          then getPodListToBeCleanedUp currentPods (tg_pods tg) (tg_identifiers tg) else podsToBeCleanedUp),
                     r3\<lparr>networkPolicyToPodIdentifierMap := (networkPolicyToPodIdentifierMap r3)(np :=
                          (if length (tg_list tg) = 0 then None else Some (tg_list tg)))\<rparr>))"

section \<open>Reconciling\<close>

text \<open>\<open>parseTime\<close> is \<^verbatim>\<open>time.Parse(time.RFC3339Nano, _)\<close>, \<open>now\<close> the time.\<close>

definition observePolicyProgrammingLatency ::
  "(string \<Rightarrow> int option) \<Rightarrow> int \<Rightarrow> PolicyEndpoint \<Rightarrow> bool \<Rightarrow> PolicyEndpointsReconciler \<Rightarrow> PolicyEndpointsReconciler" where
  "observePolicyProgrammingLatency parseTime now pe programmingSucceeded r =
     (case pe_Annotations pe LastChangeTriggerTimeAnnotation of
        None \<Rightarrow> r
      | Some triggerTimeStr \<Rightarrow>
          if triggerTimeStr = [] then r
          else (case parseTime triggerTimeStr of
                  None \<Rightarrow> r
                | Some triggerTime \<Rightarrow>
                    let peKey = \<lparr>nn_Name = pe_Name pe, nn_Namespace = pe_Namespace pe\<rparr>
                    in if \<not> triggerTime > trackerStartTime r then r
                       else if lastObservedTriggerTimes r peKey = Some triggerTimeStr then r
                       else
                         let r' = r\<lparr>lastObservedTriggerTimes := (lastObservedTriggerTimes r)(peKey \<mapsto> triggerTimeStr)\<rparr>
                         in if \<not> programmingSucceeded then r'
                            else if now - triggerTime < 0 then r'
                            else r'\<lparr>policyProgrammingLatency := policyProgrammingLatency r' @ [now - triggerTime]\<rparr>))"

text \<open>The loop of \<^verbatim>\<open>reconcilePolicyEndpoint\<close> over the identifiers: a failed programming is only
  remembered in the flag, a failed derivation ends the call.\<close>

fun program_loop ::
  "k8s_api \<Rightarrow> 'k bpf_env \<Rightarrow> go_orders \<Rightarrow> PolicyEndpointsReconciler \<Rightarrow> PolicyEndpoint \<Rightarrow> Pod list \<Rightarrow> string list \<Rightarrow> bool \<Rightarrow>
     bpfClient \<times> 'k \<Rightarrow> (go_panic + string + bool) \<times> bpfClient \<times> 'k" where
  "program_loop k8s env os r pe targetPods [] programmingSucceeded s = (Inr (Inr programmingSucceeded), s)"
| "program_loop k8s env os r pe targetPods (podIdentifier # podIdentifiers) programmingSucceeded s =
     (case deriveIngressAndEgressFirewallRules k8s r podIdentifier (pe_Namespace pe) (pe_Name pe) False of
        Inl p \<Rightarrow> (Inl p, s)
      | Inr (Inl e) \<Rightarrow> (Inr (Inl e), s)
      | Inr (Inr dv) \<Rightarrow>
          (case configureeBPFProbes env os podIdentifier targetPods (open_ingress r dv) (open_egress r dv) s of
             (Inl p, s') \<Rightarrow> (Inl p, s')
           | (Inr err, s') \<Rightarrow>
               program_loop k8s env os r pe targetPods podIdentifiers (programmingSucceeded \<and> err = []) s'))"

record 'k rec_env =
  re_k8s :: k8s_api
  re_bpf :: "'k bpf_env"
  re_orders :: go_orders
  re_ids :: "(string \<times> bool) list \<Rightarrow> (string \<times> bool) list"
  re_parseTime :: "string \<Rightarrow> int option"
  re_now :: int

definition reconcilePolicyEndpoint ::
  "'k rec_env \<Rightarrow> PolicyEndpoint \<Rightarrow> PolicyEndpointsReconciler \<Rightarrow> bpfClient \<times> 'k \<Rightarrow>
     (go_panic + string list) \<times> PolicyEndpointsReconciler \<times> bpfClient \<times> 'k" where
  "reconcilePolicyEndpoint re pe r s =
     (case deriveTargetPodsForParentNP (re_k8s re) (re_ids re) (ref_Name (pes_PolicyRef (pe_Spec pe)))
             (pe_Namespace pe) (pe_Name pe) r of
        (Inl p, r1) \<Rightarrow> (Inl p, r1, s)
      | (Inr (targetPods, podIdentifiers, podsToBeCleanedUp), r1) \<Rightarrow>
          (case updatePolicyEnforcementStatusForPods (re_k8s re) (re_bpf re) (re_orders re) r1 (pe_Name pe)
                  podsToBeCleanedUp False s of
             (Inl p, s1) \<Rightarrow> (Inl p, r1, s1)
           | (Inr err, s1) \<Rightarrow>
               if err \<noteq> [] then (Inr err, r1, s1)
               else (case program_loop (re_k8s re) (re_bpf re) (re_orders re) r1 pe targetPods
                            (map fst (re_ids re podIdentifiers)) True s1 of
                       (Inl p, s2) \<Rightarrow> (Inl p, r1, s2)
                     | (Inr (Inl e), s2) \<Rightarrow> (Inr [e], r1, s2)
                     | (Inr (Inr programmingSucceeded), s2) \<Rightarrow>
                         (Inr [], observePolicyProgrammingLatency (re_parseTime re) (re_now re) pe programmingSucceeded r1, s2))))"

definition forget_pe :: "string \<Rightarrow> Pod \<Rightarrow> PolicyEndpointsReconciler \<Rightarrow> PolicyEndpointsReconciler" where
  "forget_pe name pod r = deletePolicyEndpointFromPodIdentifierMap (pod_identifier pod) name r"

definition cleanUpPolicyEndpoint ::
  "'k rec_env \<Rightarrow> NamespacedName \<Rightarrow> PolicyEndpointsReconciler \<Rightarrow> bpfClient \<times> 'k \<Rightarrow>
     (go_panic + string list) \<times> PolicyEndpointsReconciler \<times> bpfClient \<times> 'k" where
  "cleanUpPolicyEndpoint re req r s =
     (let r0 = r\<lparr>lastObservedTriggerTimes := (lastObservedTriggerTimes r)(req := None)\<rparr>
      in case GetParentNPNameFromPEName (nn_Name req) of
           Inl p \<Rightarrow> (Inl p, r0, s)
         | Inr parentNP \<Rightarrow>
             (case deriveTargetPodsForParentNP (re_k8s re) (re_ids re) parentNP (nn_Namespace req) (nn_Name req) r0 of
                (Inl p, r1) \<Rightarrow> (Inl p, r1, s)
              | (Inr (targetPods, podIdentifiers, podsToBeCleanedUp), r1) \<Rightarrow>
                  let r2 = r1\<lparr>policyEndpointSelectorMap := (policyEndpointSelectorMap r1)
                             (GetPolicyEndpointIdentifier (nn_Name req) (nn_Namespace req) := None)\<rparr>;
                      upd = (\<lambda>pods isDeleteFlow s. updatePolicyEnforcementStatusForPods (re_k8s re) (re_bpf re)
                               (re_orders re) r2 (nn_Name req) pods isDeleteFlow s)
                  in case on_ok (upd targetPods False s) (upd podsToBeCleanedUp True) of
                       (Inl p, s1) \<Rightarrow> (Inl p, r2, s1)
                     | (Inr err, s1) \<Rightarrow>
                         if err \<noteq> [] then (Inr err, r2, s1)
                         else (Inr [], fold (forget_pe (nn_Name req)) podsToBeCleanedUp r2, s1)))"

definition reconcile ::
  "'k rec_env \<Rightarrow> NamespacedName \<Rightarrow> PolicyEndpointsReconciler \<Rightarrow> bpfClient \<times> 'k \<Rightarrow>
     (go_panic + string list) \<times> PolicyEndpointsReconciler \<times> bpfClient \<times> 'k" where
  "reconcile re req r s =
     (case Get_PE (re_k8s re) req of
        Inl NotFound \<Rightarrow> cleanUpPolicyEndpoint re req r s
      | Inl (ApiErr e) \<Rightarrow> (Inr [e], r, s)
      | Inr policyEndpoint \<Rightarrow>
          if pe_Deleting policyEndpoint then cleanUpPolicyEndpoint re req r s
          else reconcilePolicyEndpoint re policyEndpoint r s)"

section \<open>What the derived rules are\<close>

lemma deriveDefaultPodIsolation_eq:
  "deriveDefaultPodIsolation pe i e =
     (PolicyTypeIngress \<in> set (pes_PodIsolation (pe_Spec pe)) \<and> i = 0, PolicyTypeEgress \<in> set (pes_PodIsolation (pe_Spec pe)) \<and> e = 0)"
proof -
  have "fold (\<lambda>v (a, b). (a \<or> v = PolicyTypeIngress \<and> i = 0, b \<or> v = PolicyTypeEgress \<and> e = 0)) vs (a, b) =
      (a \<or> PolicyTypeIngress \<in> set vs \<and> i = 0, b \<or> PolicyTypeEgress \<in> set vs \<and> e = 0)" for vs a b
    by (induction vs arbitrary: a b) auto
  then show ?thesis by (simp add: deriveDefaultPodIsolation_def)
qed

definition ingress_rules :: "PolicyEndpoint list \<Rightarrow> EbpfFirewallRules list" where
  "ingress_rules pes = concat (map (\<lambda>pe. map rule_of (pes_Ingress (pe_Spec pe))) pes)"

definition egress_rules :: "PolicyEndpoint list \<Rightarrow> EbpfFirewallRules list" where
  "egress_rules pes = concat (map (\<lambda>pe. map rule_of (filter (\<lambda>ei. ei_CIDR ei \<noteq> []) (pes_Egress (pe_Spec pe)))) pes)"

lemma rules_simps [simp]:
  "ingress_rules [] = []" "egress_rules [] = []"
  "ingress_rules (pe # pes) = map rule_of (pes_Ingress (pe_Spec pe)) @ ingress_rules pes"
  "egress_rules (pe # pes) = map rule_of (filter (\<lambda>ei. ei_CIDR ei \<noteq> []) (pes_Egress (pe_Spec pe))) @ egress_rules pes"
  by (simp_all add: ingress_rules_def egress_rules_def)

lemma add_pe_simps [simp]:
  "dv_ingress (add_pe pe dv) = dv_ingress dv @ ingress_rules [pe]"
  "dv_egress (add_pe pe dv) = dv_egress dv @ egress_rules [pe]"
  "dv_ingressIsolated (add_pe pe dv) \<longleftrightarrow> dv_ingressIsolated dv \<or>
     PolicyTypeIngress \<in> set (pes_PodIsolation (pe_Spec pe)) \<and> dv_ingress (add_pe pe dv) = []"
  "dv_egressIsolated (add_pe pe dv) \<longleftrightarrow> dv_egressIsolated dv \<or>
     PolicyTypeEgress \<in> set (pes_PodIsolation (pe_Spec pe)) \<and> dv_egress (add_pe pe dv) = []"
  by (auto simp: add_pe_def Let_def deriveDefaultPodIsolation_eq)

lemma no_rules_simps [simp]:
  "dv_ingress no_rules = []" "dv_egress no_rules = []" "\<not> dv_ingressIsolated no_rules" "\<not> dv_egressIsolated no_rules"
  by (simp_all add: no_rules_def)

lemma fold_add_pe:
  "dv_ingress (fold add_pe pes dv) = dv_ingress dv @ ingress_rules pes"
  "dv_egress (fold add_pe pes dv) = dv_egress dv @ egress_rules pes"
  "dv_ingress dv @ ingress_rules pes = [] \<Longrightarrow> dv_ingressIsolated (fold add_pe pes dv) \<longleftrightarrow> dv_ingressIsolated dv \<or>
     (\<exists>pe \<in> set pes. PolicyTypeIngress \<in> set (pes_PodIsolation (pe_Spec pe)))"
  "dv_egress dv @ egress_rules pes = [] \<Longrightarrow> dv_egressIsolated (fold add_pe pes dv) \<longleftrightarrow> dv_egressIsolated dv \<or>
     (\<exists>pe \<in> set pes. PolicyTypeEgress \<in> set (pes_PodIsolation (pe_Spec pe)))"
  by (induction pes arbitrary: dv) auto

text \<open>The policy endpoints of the list the API has.\<close>

definition found :: "k8s_api \<Rightarrow> string \<Rightarrow> string list \<Rightarrow> PolicyEndpoint list" where
  "found k8s ns names = List.map_filter (\<lambda>n. case Get_PE k8s \<lparr>nn_Name = n, nn_Namespace = ns\<rparr> of
     Inr pe \<Rightarrow> Some pe | Inl _ \<Rightarrow> None) names"

text \<open>In the delete flow the policy endpoints of the deleted one's network policy do not count.\<close>

definition counted :: "string \<Rightarrow> bool \<Rightarrow> string \<Rightarrow> bool" where
  "counted resourceName isDeleteFlow n \<longleftrightarrow> \<not> (isDeleteFlow \<and> GetParentNPNameFromPEName n = GetParentNPNameFromPEName resourceName)"

definition has_parent :: "string \<Rightarrow> bool" where
  "has_parent n \<longleftrightarrow> CHR ''-'' \<in> set n"

lemma has_parent_Inr: "has_parent n \<Longrightarrow> \<exists>np. GetParentNPNameFromPEName n = Inr np"
  by (cases "go_last_index (CHR ''-'') n") (auto simp: has_parent_def GetParentNPNameFromPEName_def)

lemma derive_loop_fold:
  assumes "isDel \<longrightarrow> has_parent res \<and> (\<forall>n \<in> set names. has_parent n)"
    and "\<forall>n \<in> set names. \<forall>e. Get_PE k8s \<lparr>nn_Name = n, nn_Namespace = ns\<rparr> \<noteq> Inl (ApiErr e)"
  shows "derive_loop k8s ns res isDel names dv = Inr (Inr (fold add_pe (found k8s ns (filter (counted res isDel) names)) dv))"
  using assms
proof (induction names arbitrary: dv)
  case (Cons n names)
  have c: "(if isDel then same_parent res n else Inr False) = Inr (\<not> counted res isDel n)"
    using Cons.prems(1) has_parent_Inr [of res] has_parent_Inr [of n] by (auto simp: same_parent_def counted_def)
  have e: "Get_PE k8s \<lparr>nn_Name = n, nn_Namespace = ns\<rparr> \<noteq> Inl (ApiErr x)" for x using Cons.prems(2) by simp
  show ?case
    using Cons c e by (auto simp: found_def List.map_filter_simps split: sum.splits api_err.splits bool.splits)
qed (simp add: found_def List.map_filter_def)

text \<open>C17: The rules of an identifier are those of the policy endpoints in the index that the API has, in
  order, except that a delete flow leaves out those of the deleted network policy; a direction is
  isolated exactly when it has no rule and some policy endpoint isolates it. This is when the identifier
  is in the index, the API answers without an error other than that an endpoint is not found, and in a
  delete flow every endpoint has the name of its policy before a hyphen, as the controller names them.\<close>
theorem derived_rules:
  assumes "podIdentifierToPolicyEndpointMap r i = Some names"
    and "isDel \<longrightarrow> has_parent res \<and> (\<forall>n \<in> set names. has_parent n)"
    and "\<forall>n \<in> set names. \<forall>e. Get_PE k8s \<lparr>nn_Name = n, nn_Namespace = ns\<rparr> \<noteq> Inl (ApiErr e)"
  defines "pes \<equiv> found k8s ns (filter (counted res isDel) names)"
  shows "deriveIngressAndEgressFirewallRules k8s r i ns res isDel = Inr (Inr
    \<lparr>dv_ingress = ingress_rules pes, dv_egress = egress_rules pes,
     dv_ingressIsolated = (ingress_rules pes = [] \<and> (\<exists>pe \<in> set pes. PolicyTypeIngress \<in> set (pes_PodIsolation (pe_Spec pe)))),
     dv_egressIsolated = (egress_rules pes = [] \<and> (\<exists>pe \<in> set pes. PolicyTypeEgress \<in> set (pes_PodIsolation (pe_Spec pe))))\<rparr>)"
proof -
  note l = derive_loop_fold [OF assms(2, 3), of no_rules, folded pes_def]
  note f = fold_add_pe [where pes = pes and dv = no_rules]
  obtain a b c d where dv: "fold add_pe pes no_rules = \<lparr>dv_ingress = a, dv_egress = b, dv_ingressIsolated = c, dv_egressIsolated = d\<rparr>"
    by (cases "fold add_pe pes no_rules") auto
  show ?thesis
    using assms(1) f unfolding deriveIngressAndEgressFirewallRules_def by (auto simp: l dv)
qed

section \<open>Effects on the client\<close>

lemma updateeBPFMaps_tier:
  "updateeBPFMaps env os i ing eg state s = program_tier UpdateEbpfMaps POD_STATE_MAP_KEY CLUSTER_POLICY_POD_STATE_MAP_KEY
     (\<lambda>_. STATE_DEFAULT_ALLOW) env os i ing eg state s"
  unfolding updateeBPFMaps_def program_tier_def ..

definition pod_ok :: "Pod \<Rightarrow> bool" where
  "pod_ok pod \<longleftrightarrow> CHR ''_'' \<notin> set (nn_Namespace (pod_NamespacedName pod))"

context client_effect
begin

lemma attach_pods_effect: "\<forall>p \<in> set pods. pod_ok p \<Longrightarrow> R s (snd (attach_pods env i pods s))"
proof (induction pods arbitrary: s)
  case (Cons p pods)
  have "R s (snd (attach_pod env p i s))" if "pod_identifier p = i"
  proof (cases s)
    case (Pair l k)
    have "ident_of (pod_NamespacedName p) = i" using that by (simp add: ident_of_def pod_identifier_def)
    with effect_attach [of "pod_NamespacedName p" l k INTERFACE_COUNT_UNKNOWN False] Cons.prems Pair show ?thesis
      by (auto simp: pod_ok_def attach_pod_def split: prod.splits sum.splits)
  qed
  with Cons show ?case by (auto intro!: on_ok_effect effect_refl)
qed (simp add: effect_refl)

end

text \<open>A property of effects that the reconciler's map update has too; every operation of the
  reconciler then has it.\<close>

locale np_effect = client_effect +
  assumes effect_update: "orders_range os \<Longrightarrow> R s (snd (updateeBPFMaps env os i ing eg state s))"
begin

lemma configureeBPFProbes_effect:
  "orders_range os \<Longrightarrow> \<forall>p \<in> set pods. pod_ok p \<Longrightarrow> R s (snd (configureeBPFProbes env os i pods ing eg s))"
  unfolding configureeBPFProbes_def by (intro on_ok_effect attach_pods_effect effect_update)

lemma cleanupPod_effect: "orders_range os \<Longrightarrow> R s (snd (cleanupPod k8s env os r pod pe isDel s))"
  unfolding cleanupPod_def by (auto simp: Let_def effect_update effect_refl split: option.splits sum.splits)

lemma updateStatus_effect:
  "orders_range os \<Longrightarrow> R s (snd (updatePolicyEnforcementStatusForPods k8s env os r pe pods isDel s))"
proof (induction pods arbitrary: s)
  case (Cons p pods)
  note c = cleanupPod_effect [OF Cons.prems, of s k8s r p pe isDel]
  obtain a s1 where a: "cleanupPod k8s env os r p pe isDel s = (a, s1)" by (cases "cleanupPod k8s env os r p pe isDel s")
  obtain b s2 where b: "updatePolicyEnforcementStatusForPods k8s env os r pe pods isDel s1 = (b, s2)"
    by (cases "updatePolicyEnforcementStatusForPods k8s env os r pe pods isDel s1")
  have "R s s2" using effect_trans [of s s1 s2] Cons.IH [OF Cons.prems, of s1] c a b by simp
  with a b c show ?case by (cases a; cases b) simp_all
qed (simp add: effect_refl)

lemma program_loop_effect:
  "orders_range os \<Longrightarrow> \<forall>p \<in> set pods. pod_ok p \<Longrightarrow> R s (snd (program_loop k8s env os r pe pods ids ok s))"
proof (induction ids arbitrary: ok s)
  case (Cons i ids)
  have "R s s1" if "configureeBPFProbes env os i pods ing eg s = (a, s1)" for ing eg a s1
    using configureeBPFProbes_effect [OF Cons.prems, of s i ing eg] that by simp
  moreover from this have "R s (snd (program_loop k8s env os r pe pods ids ok' s1))"
    if "configureeBPFProbes env os i pods ing eg s = (a, s1)" for ing eg a s1 ok'
    using that effect_trans Cons.IH [OF Cons.prems] by blast
  ultimately show ?case by (auto simp: effect_refl split: sum.splits prod.splits)
qed (simp add: effect_refl)

end

interpretation np_reach: np_effect env "client_reaches env" for env
  by unfold_locales (simp add: updateeBPFMaps_tier np_tier.program_reaches)

interpretation np_safe: np_effect env "tier_safe env kv ClusterPolicyMap CLUSTER_POLICY_POD_STATE_MAP_KEY POD_STATE_MAP_KEY" for env kv
  by unfold_locales (simp add: updateeBPFMaps_tier np_tier.program_safe)

section \<open>The pods a policy endpoint selects here\<close>

definition selects :: "PolicyEndpointsReconciler \<Rightarrow> PodEndpoint \<Rightarrow> bool" where
  "selects r pod \<longleftrightarrow> pep_PodIP pod \<noteq> pep_HostIP pod \<and> IP_Equal (ParseIP (r_nodeIP r)) (ParseIP (pep_HostIP pod))"

definition to_pod :: "PodEndpoint \<Rightarrow> Pod" where
  "to_pod p = \<lparr>pod_NamespacedName = \<lparr>nn_Name = pep_Name p, nn_Namespace = pep_Namespace p\<rparr>, pod_PodIP = pep_PodIP p\<rparr>"

definition local_pods :: "PolicyEndpointsReconciler \<Rightarrow> PolicyEndpoint \<Rightarrow> Pod list" where
  "local_pods r pe = map to_pod (filter (selects r) (pes_PodSelectorEndpoints (pe_Spec pe)))"

text \<open>What deriving targets leaves alone, and that the index only grows.\<close>

definition index_grows :: "PolicyEndpointsReconciler \<Rightarrow> PolicyEndpointsReconciler \<Rightarrow> bool" where
  "index_grows r r' \<longleftrightarrow> r_nodeIP r' = r_nodeIP r \<and> policyEndpointSelectorMap r' = policyEndpointSelectorMap r \<and>
     networkPolicyToPodIdentifierMap r' = networkPolicyToPodIdentifierMap r \<and>
     index_rel (podIdentifierToPolicyEndpointMap r) \<subseteq> index_rel (podIdentifierToPolicyEndpointMap r')"

lemma index_grows_refl [simp]: "index_grows r r"
  by (simp add: index_grows_def)

lemma index_grows_trans: "index_grows r r1 \<Longrightarrow> index_grows r1 r2 \<Longrightarrow> index_grows r r2"
  by (auto simp: index_grows_def)

lemma updatePodIdentifierToPEMap_grows:
  "index_grows r (updatePodIdentifierToPEMap i names r)"
  "{i} \<times> set names \<subseteq> index_rel (podIdentifierToPolicyEndpointMap (updatePodIdentifierToPEMap i names r))"
  by (auto simp: index_grows_def updatePodIdentifierToPEMap_def index_rel_def policies_of_def split: option.splits if_splits)

lemma keys_update: "fst ` set (AList.update i v m) = insert i (fst ` set m)"
  using dom_map_of_conv_image_fst [of "AList.update i v m"] dom_map_of_conv_image_fst [of m] by auto

lemma target_step_spec:
  assumes "target_step names pod (ps, ids, r) = (ps', ids', r')"
  shows "index_grows r r' \<and> ps' = ps @ (if selects r pod then [to_pod pod] else []) \<and>
    fst ` set ids' = fst ` set ids \<union> (if selects r pod then {pod_identifier (to_pod pod)} else {}) \<and>
    (selects r pod \<longrightarrow> {pod_identifier (to_pod pod)} \<times> set names \<subseteq> index_rel (podIdentifierToPolicyEndpointMap r'))"
proof (cases "selects r pod")
  case True
  then have "ps' = ps @ [to_pod pod]" "ids' = AList.update (pod_identifier (to_pod pod)) True ids"
      "r' = updatePodIdentifierToPEMap (pod_identifier (to_pod pod)) names r"
    using assms by (auto simp: target_step_def selects_def to_pod_def pod_identifier_def Let_def)
  with True updatePodIdentifierToPEMap_grows show ?thesis by (simp add: keys_update)
next
  case False
  with assms updatePodIdentifierToPEMap_grows(1) show ?thesis
    by (auto simp: target_step_def selects_def Let_def split: if_splits)
qed

lemma deriveTargetPods_spec:
  assumes "deriveTargetPods pe names r = (ps, ids, r')"
  shows "index_grows r r' \<and> ps = local_pods r pe \<and> fst ` set ids = pod_identifier ` set ps \<and>
    (pod_identifier ` set ps) \<times> set names \<subseteq> index_rel (podIdentifierToPolicyEndpointMap r')"
proof -
  have "index_grows r0 r' \<and> ps = ps0 @ map to_pod (filter (selects r0) eps) \<and>
      fst ` set ids = fst ` set ids0 \<union> pod_identifier ` to_pod ` set (filter (selects r0) eps) \<and>
      (pod_identifier ` to_pod ` set (filter (selects r0) eps)) \<times> set names \<subseteq> index_rel (podIdentifierToPolicyEndpointMap r')"
    if "fold (target_step names) eps (ps0, ids0, r0) = (ps, ids, r')" for eps ps0 ids0 r0
    using that
  proof (induction eps arbitrary: ps0 ids0 r0)
    case (Cons ep eps)
    obtain ps1 ids1 r1 where t: "target_step names ep (ps0, ids0, r0) = (ps1, ids1, r1)" using prod_cases3 by blast
    note s = target_step_spec [OF t]
    then have sel: "selects r1 = selects r0" by (auto simp: index_grows_def selects_def fun_eq_iff)
    have i: "index_grows r1 r' \<and> ps = ps1 @ map to_pod (filter (selects r1) eps) \<and>
      fst ` set ids = fst ` set ids1 \<union> pod_identifier ` to_pod ` set (filter (selects r1) eps) \<and>
      (pod_identifier ` to_pod ` set (filter (selects r1) eps)) \<times> set names \<subseteq> index_rel (podIdentifierToPolicyEndpointMap r')"
      using Cons.prems t by (intro Cons.IH) simp
    have g: "index_grows r0 r'" by (rule index_grows_trans [OF conjunct1 [OF s] conjunct1 [OF i]])
    have ix: "index_rel (podIdentifierToPolicyEndpointMap r1) \<subseteq> index_rel (podIdentifierToPolicyEndpointMap r')"
      using i by (simp add: index_grows_def)
    note s = s [THEN conjunct2] and i = i [THEN conjunct2, unfolded sel]
    show ?case
    proof (cases "selects r0 ep")
      case True
      then have "{pod_identifier (to_pod ep)} \<times> set names \<subseteq> index_rel (podIdentifierToPolicyEndpointMap r')"
        using s by (meson ix order_trans)
      moreover have "insert (pod_identifier (to_pod ep)) (pod_identifier ` to_pod ` {x \<in> set eps. selects r0 x}) \<times> set names =
          {pod_identifier (to_pod ep)} \<times> set names \<union> (pod_identifier ` to_pod ` {x \<in> set eps. selects r0 x}) \<times> set names"
        by auto
      ultimately show ?thesis using True g s i by (elim conjE) simp
    qed (use g s i in simp)
  qed simp
  from this [OF assms [unfolded deriveTargetPods_def]] show ?thesis by (simp add: local_pods_def image_image)
qed

lemma fold_update_True: "fst ` set (fold (\<lambda>i. AList.update i True) is m) = fst ` set m \<union> set is"
  by (induction "is" arbitrary: m) (simp_all add: keys_update)

lemma parent_step_spec:
  assumes ord: "range_order ord" and no_err: "\<forall>e. Get_PE k8s \<lparr>nn_Name = n, nn_Namespace = ns\<rparr> \<noteq> Inl (ApiErr e)"
    and run: "parent_step k8s ord ns names n (tg, r) = (tg', r')"
  defines "ps \<equiv> concat (map (local_pods r) (found k8s ns [n]))"
  shows "index_grows r r' \<and> tg_pods tg' = tg_pods tg @ ps \<and>
    fst ` set (tg_identifiers tg') = fst ` set (tg_identifiers tg) \<union> pod_identifier ` set ps \<and>
    set (tg_list tg') = set (tg_list tg) \<union> pod_identifier ` set ps \<and>
    (pod_identifier ` set ps) \<times> set names \<subseteq> index_rel (podIdentifierToPolicyEndpointMap r')"
proof (cases "Get_PE k8s \<lparr>nn_Name = n, nn_Namespace = ns\<rparr>")
  case (Inl e)
  with no_err have "e = NotFound" by (cases e) auto
  with Inl run show ?thesis by (simp add: parent_step_def ps_def found_def List.map_filter_def)
next
  case (Inr pe)
  obtain qs ids r1 where d: "deriveTargetPods pe names r = (qs, ids, r1)" using prod_cases3 by blast
  note s = deriveTargetPods_spec [OF d]
  have ps: "ps = qs" using Inr s by (simp add: ps_def found_def List.map_filter_def)
  have "r' = r1" "tg_pods tg' = tg_pods tg @ qs" "tg_list tg' = tg_list tg @ map fst (ord ids)"
      "tg_identifiers tg' = fold (\<lambda>i. AList.update i True) (map fst (ord ids)) (tg_identifiers tg)"
    using run Inr d by (auto simp: parent_step_def Let_def)
  with s show ?thesis unfolding ps by (elim conjE) (simp add: fold_update_True range_order_set [OF ord])
qed

lemma parents_spec:
  assumes ord: "range_order ord"
    and no_err: "\<forall>n \<in> set ns'. \<forall>e. Get_PE k8s \<lparr>nn_Name = n, nn_Namespace = ns\<rparr> \<noteq> Inl (ApiErr e)"
    and run: "fold (parent_step k8s ord ns names) ns' (tg, r) = (tg', r')"
  shows "index_grows r r' \<and> tg_pods tg' = tg_pods tg @ concat (map (local_pods r) (found k8s ns ns')) \<and>
    fst ` set (tg_identifiers tg') = fst ` set (tg_identifiers tg) \<union> pod_identifier ` set (concat (map (local_pods r) (found k8s ns ns'))) \<and>
    set (tg_list tg') = set (tg_list tg) \<union> pod_identifier ` set (concat (map (local_pods r) (found k8s ns ns'))) \<and>
    (pod_identifier ` set (concat (map (local_pods r) (found k8s ns ns')))) \<times> set names \<subseteq> index_rel (podIdentifierToPolicyEndpointMap r')"
  using no_err run
proof (induction ns' arbitrary: tg r)
  case Nil
  then show ?case by (simp add: found_def List.map_filter_def)
next
  case (Cons n ns')
  obtain tg1 r1 where t: "parent_step k8s ord ns names n (tg, r) = (tg1, r1)" by (cases "parent_step k8s ord ns names n (tg, r)")
  have ne: "\<forall>e. Get_PE k8s \<lparr>nn_Name = n, nn_Namespace = ns\<rparr> \<noteq> Inl (ApiErr e)" using Cons.prems(1) by simp
  note s = parent_step_spec [OF ord ne t]
  have sel: "local_pods r1 = local_pods r"
    using conjunct1 [OF s] by (simp add: index_grows_def local_pods_def selects_def [abs_def] fun_eq_iff)
  have "fold (parent_step k8s ord ns names) ns' (tg1, r1) = (tg', r')" using Cons.prems(2) t by simp
  moreover have "\<forall>n \<in> set ns'. \<forall>e. Get_PE k8s \<lparr>nn_Name = n, nn_Namespace = ns\<rparr> \<noteq> Inl (ApiErr e)" using Cons.prems(1) by simp
  ultimately have i: "index_grows r1 r' \<and> tg_pods tg' = tg_pods tg1 @ concat (map (local_pods r) (found k8s ns ns')) \<and>
    fst ` set (tg_identifiers tg') = fst ` set (tg_identifiers tg1) \<union> pod_identifier ` set (concat (map (local_pods r) (found k8s ns ns'))) \<and>
    set (tg_list tg') = set (tg_list tg1) \<union> pod_identifier ` set (concat (map (local_pods r) (found k8s ns ns'))) \<and>
    (pod_identifier ` set (concat (map (local_pods r) (found k8s ns ns')))) \<times> set names \<subseteq> index_rel (podIdentifierToPolicyEndpointMap r')"
    using Cons.IH [of tg1 r1] unfolding sel by simp
  have g: "index_grows r r'" by (rule index_grows_trans [OF conjunct1 [OF s] conjunct1 [OF i]])
  have ix: "index_rel (podIdentifierToPolicyEndpointMap r1) \<subseteq> index_rel (podIdentifierToPolicyEndpointMap r')"
    using i by (simp add: index_grows_def)
  have fd: "found k8s ns (n # ns') = found k8s ns [n] @ found k8s ns ns'"
    by (auto simp: found_def List.map_filter_def)
  show ?case
    unfolding fd map_append concat_append set_append image_Un Sigma_Un_distrib1
    using g s i ix by (elim conjE, intro conjI) (auto simp: Un_assoc)
qed

lemma store_targets_fields:
  "r_nodeIP (fold (store_targets ns ps stale) names r) = r_nodeIP r"
  "policyEndpointSelectorMap (fold (store_targets ns ps stale) names r) x =
     (if x \<in> (\<lambda>n. GetPolicyEndpointIdentifier n ns) ` set names then (if ps = [] then None else Some ps)
      else policyEndpointSelectorMap r x)"
proof -
  have d: "r_nodeIP (fold (\<lambda>i. deletePolicyEndpointFromPodIdentifierMap i n) stale r) = r_nodeIP r \<and>
      policyEndpointSelectorMap (fold (\<lambda>i. deletePolicyEndpointFromPodIdentifierMap i n) stale r) = policyEndpointSelectorMap r" for n r
    by (induction stale arbitrary: r) (simp_all add: deletePolicyEndpointFromPodIdentifierMap_def)
  show "r_nodeIP (fold (store_targets ns ps stale) names r) = r_nodeIP r"
    by (induction names arbitrary: r) (simp_all add: store_targets_def d)
  show "policyEndpointSelectorMap (fold (store_targets ns ps stale) names r) x =
     (if x \<in> (\<lambda>n. GetPolicyEndpointIdentifier n ns) ` set names then (if ps = [] then None else Some ps)
      else policyEndpointSelectorMap r x)"
    by (induction names arbitrary: r) (auto simp: store_targets_def d)
qed

lemma delete_index:
  "index_rel (podIdentifierToPolicyEndpointMap (deletePolicyEndpointFromPodIdentifierMap i n r)) =
     index_rel (podIdentifierToPolicyEndpointMap r) - {(i, n)}"
  by (auto simp: deletePolicyEndpointFromPodIdentifierMap_def index_rel_def policies_of_def Let_def filter_empty_conv
      split: option.splits if_splits)

lemma store_targets_index:
  "index_rel (podIdentifierToPolicyEndpointMap (fold (store_targets ns ps stale) names r)) =
     index_rel (podIdentifierToPolicyEndpointMap r) - set stale \<times> set names"
proof -
  have d: "index_rel (podIdentifierToPolicyEndpointMap (fold (\<lambda>i. deletePolicyEndpointFromPodIdentifierMap i n) stale r)) =
      index_rel (podIdentifierToPolicyEndpointMap r) - set stale \<times> {n}" for n r
    by (induction stale arbitrary: r) (auto simp: delete_index)
  show ?thesis by (induction names arbitrary: r) (auto simp: store_targets_def d)
qed

text \<open>No identifier is in the index with an empty list; new entries are endpoints of \<open>names\<close>.\<close>

definition index_full :: "PolicyEndpointsReconciler \<Rightarrow> bool" where
  "index_full r \<longleftrightarrow> (\<forall>i. podIdentifierToPolicyEndpointMap r i \<noteq> Some [])"

definition index_adds :: "string list \<Rightarrow> PolicyEndpointsReconciler \<Rightarrow> PolicyEndpointsReconciler \<Rightarrow> bool" where
  "index_adds names r r' \<longleftrightarrow> (index_full r \<longrightarrow> index_full r') \<and>
     index_rel (podIdentifierToPolicyEndpointMap r') \<subseteq> index_rel (podIdentifierToPolicyEndpointMap r) \<union> UNIV \<times> set names"

lemma index_adds_refl [simp]: "index_adds names r r"
  by (simp add: index_adds_def)

lemma index_adds_trans: "index_adds names r r1 \<Longrightarrow> index_adds names r1 r2 \<Longrightarrow> index_adds names r r2"
  unfolding index_adds_def by blast

lemma updatePodIdentifierToPEMap_adds: "names \<noteq> [] \<Longrightarrow> index_adds names r (updatePodIdentifierToPEMap i names r)"
  by (auto simp: index_adds_def index_full_def index_rel_def policies_of_def updatePodIdentifierToPEMap_def split: option.splits if_splits)

lemma deriveTargetPods_adds:
  assumes "names \<noteq> []" shows "index_adds names r (snd (snd (deriveTargetPods pe names r)))"
proof -
  have "index_adds names (snd (snd acc)) (snd (snd (fold (target_step names) eps acc)))" for eps acc
  proof (induction eps arbitrary: acc)
    case (Cons ep eps)
    have "index_adds names (snd (snd acc)) (snd (snd (target_step names ep acc)))"
      using updatePodIdentifierToPEMap_adds [OF assms] by (cases acc) (auto simp: target_step_def Let_def index_adds_def)
    with Cons.IH index_adds_trans show ?case by fastforce
  qed (simp add: index_adds_def)
  from this [of "([], [], r)"] show ?thesis by (simp add: deriveTargetPods_def)
qed

lemma parents_adds:
  assumes "names \<noteq> []" shows "index_adds names (snd acc) (snd (fold (parent_step k8s ord ns names) ns' acc))"
proof (induction ns' arbitrary: acc)
  case (Cons n ns')
  have "snd (parent_step k8s ord ns names n acc) = snd acc \<or>
      (\<exists>pe. snd (parent_step k8s ord ns names n acc) = snd (snd (deriveTargetPods pe names (snd acc))))"
    by (cases acc) (auto simp: parent_step_def Let_def split: sum.splits api_err.splits prod.splits, (metis snd_conv)+)
  then have "index_adds names (snd acc) (snd (parent_step k8s ord ns names n acc))"
    using deriveTargetPods_adds [OF assms, of "snd acc"] index_adds_refl by metis
  with Cons.IH index_adds_trans show ?case by fastforce
qed (simp add: index_adds_def)

lemma store_targets_full:
  assumes "index_full r" shows "index_full (fold (store_targets ns ps stale) names r)"
proof -
  have d: "index_full r \<Longrightarrow> index_full (deletePolicyEndpointFromPodIdentifierMap i n r)" for i n r
    by (auto simp: index_full_def deletePolicyEndpointFromPodIdentifierMap_def Let_def split: option.splits)
  have "index_full r \<Longrightarrow> index_full (fold (\<lambda>i. deletePolicyEndpointFromPodIdentifierMap i n) stale r)" for n r
    by (induction stale arbitrary: r) (simp_all add: d)
  then have "index_full r \<Longrightarrow> index_full (store_targets ns ps stale n r)" for n r
    by (simp add: store_targets_def index_full_def)
  with assms show ?thesis by (induction names arbitrary: r) simp_all
qed

lemma derive_targets_spec:
  assumes ord: "range_order ord" and par: "has_parent res"
    and no_err: "\<forall>n e. Get_PE k8s \<lparr>nn_Name = n, nn_Namespace = ns\<rparr> \<noteq> Inl (ApiErr e)"
    and run: "deriveTargetPodsForParentNP k8s ord np ns res r = (Inr (pods, ids, cleaned), r')"
  defines "names \<equiv> derivePolicyEndpointsOfParentNP k8s np ns"
  shows "pods = concat (map (local_pods r) (found k8s ns names)) \<and> fst ` set ids = pod_identifier ` set pods \<and>
    (\<forall>n \<in> set names. policyEndpointSelectorMap r' (GetPolicyEndpointIdentifier n ns) = (if pods = [] then None else Some pods)) \<and>
    (pod_identifier ` set pods) \<times> set names \<subseteq> index_rel (podIdentifierToPolicyEndpointMap r') \<and>
    (\<forall>old parent. GetParentNPNameFromPEName res = Inr parent \<longrightarrow> networkPolicyToPodIdentifierMap r parent = Some old \<longrightarrow>
       index_rel (podIdentifierToPolicyEndpointMap r') \<inter> (set old - pod_identifier ` set pods) \<times> set names = {}) \<and>
    (names \<noteq> [] \<longrightarrow> index_adds names r r')"
proof -
  obtain parent where parent: "GetParentNPNameFromPEName res = Inr parent" using has_parent_Inr [OF par] by blast
  define r1 where "r1 = (if names = []
      then r\<lparr>policyEndpointSelectorMap := (policyEndpointSelectorMap r)(GetPolicyEndpointIdentifier res ns := None)\<rparr> else r)"
  have r1: "local_pods r1 = local_pods r" "networkPolicyToPodIdentifierMap r1 = networkPolicyToPodIdentifierMap r"
    by (simp_all add: r1_def local_pods_def selects_def [abs_def] fun_eq_iff)
  obtain tg r2 where f: "fold (parent_step k8s ord ns names) names (\<lparr>tg_pods = [], tg_identifiers = [], tg_list = []\<rparr>, r1) = (tg, r2)"
    by (cases "fold (parent_step k8s ord ns names) names (\<lparr>tg_pods = [], tg_identifiers = [], tg_list = []\<rparr>, r1)")
  note s = parents_spec [OF ord _ f, unfolded r1(1)]
  define stale where "stale = (case networkPolicyToPodIdentifierMap r parent of None \<Rightarrow> [] | Some old \<Rightarrow> filter (\<lambda>i. i \<notin> set (tg_list tg)) old)"
  have g: "index_grows r1 r2" using s no_err by simp
  have st: "deriveStalePodIdentifiers r2 res (tg_list tg) = Inr stale"
    using g r1(2) by (simp add: deriveStalePodIdentifiers_def parent stale_def index_grows_def)
  let ?r3 = "fold (store_targets ns (tg_pods tg) stale) names r2"
  have res: "pods = tg_pods tg" "ids = tg_identifiers tg"
      "r' = ?r3\<lparr>networkPolicyToPodIdentifierMap := (networkPolicyToPodIdentifierMap ?r3)(parent :=
          (if length (tg_list tg) = 0 then None else Some (tg_list tg)))\<rparr>"
    using run f st parent unfolding deriveTargetPodsForParentNP_def
    by (auto simp: names_def [symmetric] r1_def [symmetric] Let_def)
  have tl: "set (tg_list tg) = pod_identifier ` set pods" and pods: "pods = concat (map (local_pods r) (found k8s ns names))"
      and ids: "fst ` set ids = pod_identifier ` set pods"
      and ix: "(pod_identifier ` set pods) \<times> set names \<subseteq> index_rel (podIdentifierToPolicyEndpointMap r2)"
    using s no_err by (simp_all add: res)
  have dis: "set stale \<inter> pod_identifier ` set pods = {}" by (auto simp: stale_def tl split: option.splits)
  have rel: "index_rel (podIdentifierToPolicyEndpointMap r') =
      index_rel (podIdentifierToPolicyEndpointMap r2) - set stale \<times> set names"
    by (simp add: res(3) store_targets_index)
  have 1: "\<forall>n \<in> set names. policyEndpointSelectorMap r' (GetPolicyEndpointIdentifier n ns) = (if pods = [] then None else Some pods)"
    by (simp add: res store_targets_fields)
  have 2: "(pod_identifier ` set pods) \<times> set names \<subseteq> index_rel (podIdentifierToPolicyEndpointMap r')"
    using ix dis unfolding rel by blast
  have 3: "index_rel (podIdentifierToPolicyEndpointMap r') \<inter> (set old - pod_identifier ` set pods) \<times> set names = {}"
    if "networkPolicyToPodIdentifierMap r parent = Some old" for old
    unfolding rel using that by (auto simp: stale_def tl)
  have 4: "index_adds names r r'" if ne: "names \<noteq> []"
  proof -
    have "index_adds names r r2" using parents_adds [OF ne, of "(_, r1)"] f ne by (metis r1_def snd_conv)
    moreover have "index_full r2 \<longrightarrow> index_full r'"
      using store_targets_full [of r2 ns "tg_pods tg" stale names] by (simp add: res(3) index_full_def)
    ultimately show ?thesis unfolding index_adds_def rel by blast
  qed
  from pods ids 1 2 3 4 parent show ?thesis by auto
qed

text \<open>Deriving the targets of a network policy, when the API answers: the target pods are the pods of
  this node, not on the host network, that the policy's endpoints list; they are recorded for each of
  these endpoints; and afterwards the index has every endpoint of the policy for every target pod's
  identifier, and none of them for the identifiers the policy no longer selects here.\<close>
theorem derived_targets:
  assumes ord: "range_order ord" and par: "has_parent res"
    and no_err: "\<forall>n e. Get_PE k8s \<lparr>nn_Name = n, nn_Namespace = ns\<rparr> \<noteq> Inl (ApiErr e)"
    and run: "deriveTargetPodsForParentNP k8s ord np ns res r = (Inr (pods, ids, cleaned), r')"
  defines "names \<equiv> derivePolicyEndpointsOfParentNP k8s np ns"
  shows "pods = concat (map (local_pods r) (found k8s ns names)) \<and> fst ` set ids = pod_identifier ` set pods \<and>
    (\<forall>n \<in> set names. policyEndpointSelectorMap r' (GetPolicyEndpointIdentifier n ns) = (if pods = [] then None else Some pods)) \<and>
    (pod_identifier ` set pods) \<times> set names \<subseteq> index_rel (podIdentifierToPolicyEndpointMap r') \<and>
    (\<forall>old parent. GetParentNPNameFromPEName res = Inr parent \<longrightarrow> networkPolicyToPodIdentifierMap r parent = Some old \<longrightarrow>
       index_rel (podIdentifierToPolicyEndpointMap r') \<inter> (set old - pod_identifier ` set pods) \<times> set names = {})"
  using derive_targets_spec [OF ord par no_err run] unfolding names_def by (elim conjE, intro conjI)

section \<open>A whole reconcile\<close>

text \<open>Kubernetes names have no underscore.\<close>

definition api_ok :: "k8s_api \<Rightarrow> bool" where
  "api_ok k8s \<longleftrightarrow> (\<forall>nn pe. Get_PE k8s nn = Inr pe \<longrightarrow>
     (\<forall>p \<in> set (pes_PodSelectorEndpoints (pe_Spec pe)). CHR ''_'' \<notin> set (pep_Namespace p)))"

lemma parents_pod_ok:
  assumes "api_ok k8s" "\<forall>p \<in> set (tg_pods tg). pod_ok p" "fold (parent_step k8s ord ns names) ns' (tg, r) = (tg', r')"
  shows "\<forall>p \<in> set (tg_pods tg'). pod_ok p"
  using assms(2, 3)
proof (induction ns' arbitrary: tg r)
  case (Cons n ns')
  obtain tg1 r1 where t: "parent_step k8s ord ns names n (tg, r) = (tg1, r1)" by (cases "parent_step k8s ord ns names n (tg, r)")
  have lp: "\<forall>p \<in> set ps. pod_ok p" if "deriveTargetPods pe names r = (ps, ids, r2)"
      "Get_PE k8s nn = Inr pe \<or> pe = zero_PolicyEndpoint" for pe ps ids r2 nn
    using that(2) deriveTargetPods_spec [OF that(1)] assms(1)
    by (auto simp: local_pods_def to_pod_def pod_ok_def api_ok_def zero_PolicyEndpoint_def)
  have "\<forall>p \<in> set (tg_pods tg1). pod_ok p"
    using t Cons.prems(1) lp by (force simp: parent_step_def Let_def split: sum.splits api_err.splits prod.splits)
  with Cons.IH [of tg1 r1] Cons.prems(2) t show ?case by simp
qed simp

lemma deriveTargetPodsForParentNP_pod_ok:
  assumes "api_ok k8s" "deriveTargetPodsForParentNP k8s ord np ns res r = (Inr (pods, ids, cleaned), r')"
  shows "\<forall>p \<in> set pods. pod_ok p"
  using assms(2) parents_pod_ok [OF assms(1), of "\<lparr>tg_pods = [], tg_identifiers = [], tg_list = []\<rparr>"]
  unfolding deriveTargetPodsForParentNP_def
  by (auto simp: Let_def split: prod.splits sum.splits)

context np_effect
begin

lemma reconcilePolicyEndpoint_effect:
  assumes "api_ok (re_k8s re)" "orders_range (re_orders re)" "re_bpf re = env"
    and run: "reconcilePolicyEndpoint re pe r s = (res, r', s')"
  shows "R s s'"
proof -
  obtain a r1 where d: "deriveTargetPodsForParentNP (re_k8s re) (re_ids re) (ref_Name (pes_PolicyRef (pe_Spec pe)))
      (pe_Namespace pe) (pe_Name pe) r = (a, r1)" by fastforce
  show ?thesis
  proof (cases a)
    case (Inr t)
    obtain pods ids cl where t: "t = (pods, ids, cl)" by (cases t)
    have ok: "\<forall>p \<in> set pods. pod_ok p" by (rule deriveTargetPodsForParentNP_pod_ok [OF assms(1) d [unfolded Inr t]])
    obtain b s1 where u: "updatePolicyEnforcementStatusForPods (re_k8s re) env (re_orders re) r1 (pe_Name pe) cl False s = (b, s1)"
      by (metis surj_pair)
    have 1: "R s s1" using updateStatus_effect [OF assms(2), of s] u by (metis snd_conv)
    obtain c s2 where l: "program_loop (re_k8s re) env (re_orders re) r1 pe pods (map fst (re_ids re ids)) True s1 = (c, s2)"
      by (metis surj_pair)
    have 2: "R s1 s2" using program_loop_effect [OF assms(2) ok, of s1] l by (metis snd_conv)
    have "s' = s1 \<or> s' = s2"
      using run d Inr t u l assms(3) by (auto simp: reconcilePolicyEndpoint_def split: sum.splits if_splits)
    with 1 effect_trans [OF 1 2] show ?thesis by auto
  qed (use run d in \<open>simp add: reconcilePolicyEndpoint_def effect_refl\<close>)
qed

lemma cleanUpPolicyEndpoint_effect:
  assumes "orders_range (re_orders re)" "re_bpf re = env" and run: "cleanUpPolicyEndpoint re req r s = (res, r', s')"
  shows "R s s'"
proof -
  have "R s (snd (on_ok (updatePolicyEnforcementStatusForPods k8s env (re_orders re) r2 n a False s)
      (updatePolicyEnforcementStatusForPods k8s env (re_orders re) r2 n b True)))" for k8s r2 n a b
    by (intro on_ok_effect updateStatus_effect assms)
  with run assms(2) show ?thesis
    unfolding cleanUpPolicyEndpoint_def
    by (auto simp: Let_def effect_refl split: sum.splits prod.splits if_splits) (metis snd_conv)+
qed

lemma reconcile_effect:
  assumes "api_ok (re_k8s re)" "orders_range (re_orders re)" "re_bpf re = env"
    and run: "reconcile re req r s = (res, r', s')"
  shows "R s s'"
  using run cleanUpPolicyEndpoint_effect [OF assms(2, 3)] reconcilePolicyEndpoint_effect [OF assms(1-3)]
  unfolding reconcile_def by (auto simp: effect_refl split: sum.splits api_err.splits if_splits)

end

text \<open>Whatever a reconcile request does (also when it fails or panics half-way), its effect on the
  eBPF client and the kernel is a sequence of the client's operations; a client that was reached from
  start by such operations still is, so everything proved of the client's runs holds after it.\<close>
theorem reconcile_keeps_client:
  assumes "api_ok (re_k8s re)" "orders_range (re_orders re)" and "client_reachable (re_bpf re) l k"
    and run: "reconcile re req r (l, k) = (res, r', l', k')"
  shows "client_reachable (re_bpf re) l' k'"
  by (rule client_reaches_reachable [OF np_reach.reconcile_effect [OF assms(1, 2) refl run] assms(3)])

section \<open>What programming leaves in the kernel\<close>

lemma updateeBPFMaps_in_force:
  assumes "env_laws env kv" "client_inv kv l k" "orders_range os"
    and "updateeBPFMaps env os i ing eg state (l, k) = (Inr [], l', k')"
  shows "in_force kv os l' k' i (\<lambda>d. case d of Ingress \<Rightarrow> ing | Egress \<Rightarrow> eg) state"
  using np_tier.program_in_force [OF assms(1-3) assms(4) [unfolded updateeBPFMaps_tier]] by (simp add: in_force_def)

text \<open>C15: When configuring the probes of an identifier reports no error, its rules are in force: each
  direction's policy map holds the entries of the rules and nothing else but entries whose deletion the
  kernel has refused, the pod state says that policies are applied, and the cluster policy state is set.\<close>
theorem configured_in_force:
  assumes laws: "env_laws env kv" and reach: "client_reachable env l k" and os: "orders_range os"
    and pods: "\<forall>p \<in> set pods. pod_ok p"
    and run: "configureeBPFProbes env os i pods ing eg (l, k) = (Inr [], l', k')"
  shows "in_force kv os l' k' i (\<lambda>d. case d of Ingress \<Rightarrow> ing | Egress \<Rightarrow> eg) STATE_POLICIES_APPLIED"
proof -
  obtain l1 k1 where a: "attach_pods env i pods (l, k) = (Inr [], l1, k1)"
    and u: "updateeBPFMaps env os i ing eg STATE_POLICIES_APPLIED (l1, k1) = (Inr [], l', k')"
    using run by (auto simp: configureeBPFProbes_def on_ok_success)
  have "client_reachable env l1 k1"
    using reach.attach_pods_effect [OF pods, of env "(l, k)" i] a client_reaches_reachable [OF _ reach] by simp
  from updateeBPFMaps_in_force [OF laws client_reachable_inv [OF laws this] os u] show ?thesis .
qed

text \<open>C16: Cleaning up a pod: when its identifier is in the index and the call reports no error, the rules of
  the remaining policies are in force, with a direction that no policy restricts opened; when no policy
  remains, the maps are those of no rules and the pod state is the default of the enforcing mode. In
  force means that the maps hold the entries of these rules and that every other entry left in them is
  one whose deletion the kernel has refused, a failure the code skips without an error. When the
  identifier is not in the index, nothing is written.\<close>
theorem cleanupPod_outcome:
  assumes laws: "env_laws env kv" and reach: "client_reachable env l k" and os: "orders_range os"
    and run: "cleanupPod k8s env os r pod pe isDel (l, k) = (Inr [], l', k')"
  defines "i \<equiv> pod_identifier pod"
  shows "if podIdentifierToPolicyEndpointMap r i = None then l' = l \<and> k' = k
    else \<exists>dv. deriveIngressAndEgressFirewallRules k8s r i (nn_Namespace (pod_NamespacedName pod)) pe isDel = Inr (Inr dv) \<and>
      (if dv_ingress dv = [] \<and> \<not> dv_ingressIsolated dv \<and> dv_egress dv = [] \<and> \<not> dv_egressIsolated dv
       then in_force kv os l' k' i (\<lambda>_. []) (default_state (networkPolicyMode l))
       else in_force kv os l' k' i (\<lambda>d. case d of Ingress \<Rightarrow> open_ingress r dv | Egress \<Rightarrow> open_egress r dv) STATE_POLICIES_APPLIED)"
proof -
  note f = updateeBPFMaps_in_force [OF laws client_reachable_inv [OF laws reach] os]
  have e: "(\<lambda>d. case d of Ingress \<Rightarrow> [] | Egress \<Rightarrow> []) = (\<lambda>_. [])" by (auto simp: fun_eq_iff split: dir.splits)
  show ?thesis
    using run f [of i "[]" "[]", unfolded e] f [of i]
    by (auto simp: cleanupPod_def i_def [symmetric] Let_def GetNetworkPolicyMode_def split: option.splits sum.splits if_splits)
qed

section \<open>A pod that is no longer selected\<close>

text \<open>C26: A pod that no policy selects any more is not released: when a policy's endpoints stop listing the
  pods of an identifier that only this policy selected, deriving the targets already takes the
  identifier out of the index, so the cleanup that follows finds nothing to do, and the rules of the
  policy stay in force for the pod.\<close>
theorem unselected_pod_not_cleaned:
  assumes ord: "range_order ord" and par: "GetParentNPNameFromPEName res = Inr parent" and full: "index_full r"
    and no_err: "\<forall>n e. Get_PE k8s \<lparr>nn_Name = n, nn_Namespace = ns\<rparr> \<noteq> Inl (ApiErr e)"
    and pes: "derivePolicyEndpointsOfParentNP k8s np ns \<noteq> []"
    and run: "deriveTargetPodsForParentNP k8s ord np ns res r = (Inr (pods, ids, cleaned), r')"
    and tracked: "networkPolicyToPodIdentifierMap r parent = Some old" "pod_identifier pod \<in> set old"
    and only: "set (policies_of (podIdentifierToPolicyEndpointMap r) (pod_identifier pod)) \<subseteq> set (derivePolicyEndpointsOfParentNP k8s np ns)"
    and gone: "pod_identifier pod \<notin> pod_identifier ` set pods"
  shows "cleanupPod k8s env os r' pod res False s = (Inr [], s)"
proof -
  let ?i = "pod_identifier pod" and ?names = "derivePolicyEndpointsOfParentNP k8s np ns"
  have hp: "has_parent res"
    using par by (cases "CHR ''-'' \<in> set res") (simp_all add: has_parent_def GetParentNPNameFromPEName_def go_last_index_None_iff [THEN iffD2])
  note s = derive_targets_spec [OF ord hp no_err run]
  have none: "index_rel (podIdentifierToPolicyEndpointMap r') \<inter> (set old - pod_identifier ` set pods) \<times> set ?names = {}"
    using s par tracked(1) by blast
  have add: "index_adds ?names r r'" using s pes by blast
  then have "index_full r'" and up: "index_rel (podIdentifierToPolicyEndpointMap r') \<subseteq>
      index_rel (podIdentifierToPolicyEndpointMap r) \<union> UNIV \<times> set ?names"
    using full by (simp_all add: index_adds_def)
  have "n \<notin> set (policies_of (podIdentifierToPolicyEndpointMap r') ?i)" for n
  proof
    assume "n \<in> set (policies_of (podIdentifierToPolicyEndpointMap r') ?i)"
    then have x: "(?i, n) \<in> index_rel (podIdentifierToPolicyEndpointMap r')" by (simp add: index_rel_def)
    with up only have "n \<in> set ?names" by (auto simp: index_rel_def)
    with x none tracked(2) gone show False by blast
  qed
  then have "policies_of (podIdentifierToPolicyEndpointMap r') ?i = []"
    by (cases "policies_of (podIdentifierToPolicyEndpointMap r') ?i") auto
  with \<open>index_full r'\<close> have "podIdentifierToPolicyEndpointMap r' ?i = None"
    by (auto simp: policies_of_def index_full_def split: option.splits)
  then show ?thesis by (simp add: cleanupPod_def)
qed

section \<open>An example\<close>

text \<open>A policy endpoint that isolates the first pod of the client's example state, or no pod.\<close>

definition example_pe :: "PodEndpoint list \<Rightarrow> PolicyEndpoint" where
  "example_pe pods = \<lparr>pe_Name = ''web-x1'', pe_Namespace = ''shop'', pe_Annotations = (\<lambda>_. None), pe_Deleting = False,
     pe_Spec = \<lparr>pes_PolicyRef = \<lparr>ref_Name = ''web'', ref_Namespace = ''shop''\<rparr>, pes_PodIsolation = [''Ingress'', ''Egress''],
       pes_PodSelectorEndpoints = pods, pes_Ingress = [], pes_Egress = []\<rparr>\<rparr>"

definition example_endpoint :: PodEndpoint where
  "example_endpoint = \<lparr>pep_HostIP = ''10.0.0.1'', pep_PodIP = ''10.0.1.5'', pep_Name = ''web-7d-a'', pep_Namespace = ''shop''\<rparr>"

definition example_request :: NamespacedName where
  "example_request = \<lparr>nn_Name = ''web-x1'', nn_Namespace = ''shop''\<rparr>"

definition example_k8s :: "PodEndpoint list \<Rightarrow> k8s_api" where
  "example_k8s pods = \<lparr>Get_PE = (\<lambda>nn. if nn = example_request then Inr (example_pe pods) else Inl NotFound),
     List_PE = (\<lambda>ns. Inr (if ns = ''shop'' then [example_pe pods] else []))\<rparr>"

definition example_rec_env :: "PodEndpoint list \<Rightarrow> sim_kernel rec_env" where
  "example_rec_env pods = \<lparr>re_k8s = example_k8s pods, re_bpf = sim_env, re_orders = example_go_orders, re_ids = rev,
     re_parseTime = (\<lambda>_. None), re_now = 0\<rparr>"

definition example_reconciler :: PolicyEndpointsReconciler where
  "example_reconciler = (NewPolicyEndpointsReconciler ''10.0.0.1'' False 0)
     \<lparr>podIdentifierToPolicyEndpointMap := [''web-7d@shop'' \<mapsto> [''web-x1'']],
      policyEndpointSelectorMap := [''web-x1shop'' \<mapsto> [to_pod example_endpoint]],
      networkPolicyToPodIdentifierMap := [''web'' \<mapsto> [''web-7d@shop'']]\<rparr>"

lemma example_reconciled:
  "fst (reconcile (example_rec_env [example_endpoint]) example_request (NewPolicyEndpointsReconciler ''10.0.0.1'' False 0) example_state) = Inr []"
  "podIdentifierToPolicyEndpointMap (fst (snd (reconcile (example_rec_env [example_endpoint]) example_request
     (NewPolicyEndpointsReconciler ''10.0.0.1'' False 0) example_state))) ''web-7d@shop'' = Some [''web-x1'']"
  by code_simp+

lemma example_k8s_no_error: "Get_PE (example_k8s pods) nn \<noteq> Inl (ApiErr e)"
  by (simp add: example_k8s_def)

lemma example_api_ok: "api_ok (example_k8s [example_endpoint])"
  by (auto simp: api_ok_def example_k8s_def example_pe_def example_endpoint_def split: if_splits)

lemma example_identifier: "pod_identifier (to_pod example_endpoint) = ''web-7d@shop''"
  by code_simp

theorem derived_rules_witness:
  "deriveIngressAndEgressFirewallRules (example_k8s []) example_reconciler ''web-7d@shop'' ''shop'' ''web-x1'' False =
     Inr (Inr \<lparr>dv_ingress = [], dv_egress = [], dv_ingressIsolated = True, dv_egressIsolated = True\<rparr>)"
proof -
  have i: "podIdentifierToPolicyEndpointMap example_reconciler ''web-7d@shop'' = Some [''web-x1'']"
    by (simp add: example_reconciler_def)
  have f: "found (example_k8s []) ''shop'' (filter (counted ''web-x1'' False) [''web-x1'']) = [example_pe []]"
    by (simp add: found_def counted_def List.map_filter_simps example_k8s_def example_request_def)
  show ?thesis
    using derived_rules [OF i, of False "''web-x1''" "example_k8s []" "''shop''", unfolded f]
    by (simp add: example_k8s_no_error example_pe_def PolicyTypeIngress_def PolicyTypeEgress_def)
qed

theorem derived_targets_witness:
  "\<exists>pods ids cleaned r'. deriveTargetPodsForParentNP (example_k8s [example_endpoint]) rev ''web'' ''shop'' ''web-x1'' example_reconciler =
     (Inr (pods, ids, cleaned), r') \<and> pods = [to_pod example_endpoint] \<and> (''web-7d@shop'', ''web-x1'') \<in> index_rel (podIdentifierToPolicyEndpointMap r')"
proof -
  obtain a r' where d: "deriveTargetPodsForParentNP (example_k8s [example_endpoint]) rev ''web'' ''shop'' ''web-x1'' example_reconciler = (a, r')"
    by fastforce
  have "case fst (deriveTargetPodsForParentNP (example_k8s [example_endpoint]) rev ''web'' ''shop'' ''web-x1'' example_reconciler) of
      Inl _ \<Rightarrow> False | Inr _ \<Rightarrow> True" by code_simp
  then obtain pods ids cleaned where a: "a = Inr (pods, ids, cleaned)" by (cases a) (auto simp: d)
  have hp: "has_parent ''web-x1''" by (simp add: has_parent_def)
  have ne: "\<forall>n e. Get_PE (example_k8s [example_endpoint]) \<lparr>nn_Name = n, nn_Namespace = ''shop''\<rparr> \<noteq> Inl (ApiErr e)"
    by (simp add: example_k8s_no_error)
  have n: "derivePolicyEndpointsOfParentNP (example_k8s [example_endpoint]) ''web'' ''shop'' = [''web-x1'']"
    "concat (map (local_pods example_reconciler) (found (example_k8s [example_endpoint]) ''shop'' [''web-x1''])) = [to_pod example_endpoint]"
    by code_simp+
  from derived_targets [OF range_order_rev hp ne d [unfolded a], unfolded n]
  have "pods = [to_pod example_endpoint] \<and> pod_identifier ` set pods \<times> set [''web-x1''] \<subseteq> index_rel (podIdentifierToPolicyEndpointMap r')"
    by (elim conjE, intro conjI)
  with d a show ?thesis by (elim conjE) (simp add: example_identifier)
qed

theorem reconcile_keeps_client_witness:
  "\<exists>l' k'. snd (snd (reconcile (example_rec_env [example_endpoint]) example_request (NewPolicyEndpointsReconciler ''10.0.0.1'' False 0)
     example_state)) = (l', k') \<and> client_reachable sim_env l' k'"
proof -
  obtain res r' l' k' where r: "reconcile (example_rec_env [example_endpoint]) example_request (NewPolicyEndpointsReconciler ''10.0.0.1'' False 0)
     (fst example_state, snd example_state) = (res, r', l', k')" using prod_cases4 by blast
  have e: "re_bpf (example_rec_env [example_endpoint]) = sim_env" "re_k8s (example_rec_env [example_endpoint]) = example_k8s [example_endpoint]"
      "re_orders (example_rec_env [example_endpoint]) = example_go_orders" by (simp_all add: example_rec_env_def)
  from reconcile_keeps_client [OF _ _ _ r] example_api_ok example_go_orders_range example_reachable e r show ?thesis by simp
qed

theorem configured_in_force_witness:
  "\<exists>l' k'. configureeBPFProbes sim_env example_go_orders ''web-7d@shop'' [to_pod example_endpoint] [] [] example_state = (Inr [], l', k') \<and>
     in_force sim_view example_go_orders l' k' ''web-7d@shop'' (\<lambda>d. case d of Ingress \<Rightarrow> [] | Egress \<Rightarrow> []) 0"
proof -
  have "fst (configureeBPFProbes sim_env example_go_orders ''web-7d@shop'' [to_pod example_endpoint] [] [] example_state) = Inr []"
    by code_simp
  then obtain l' k' where r: "configureeBPFProbes sim_env example_go_orders ''web-7d@shop'' [to_pod example_endpoint] [] []
      (fst example_state, snd example_state) = (Inr [], l', k')"
    by (cases "configureeBPFProbes sim_env example_go_orders ''web-7d@shop'' [to_pod example_endpoint] [] [] example_state") auto
  have "\<forall>p \<in> set [to_pod example_endpoint]. pod_ok p" by (simp add: pod_ok_def to_pod_def example_endpoint_def)
  from configured_in_force [OF sim_env_laws example_reachable example_go_orders_range this r] r show ?thesis
    by (auto simp: STATE_POLICIES_APPLIED_def)
qed

theorem cleanupPod_outcome_witness:
  "\<exists>l' k'. cleanupPod (example_k8s []) sim_env example_go_orders example_reconciler (to_pod example_endpoint) ''web-x1'' True
      example_state = (Inr [], l', k') \<and>
     in_force sim_view example_go_orders l' k' ''web-7d@shop'' (\<lambda>_. []) STATE_DEFAULT_ALLOW"
proof -
  let ?c = "cleanupPod (example_k8s []) sim_env example_go_orders example_reconciler (to_pod example_endpoint) ''web-x1'' True"
  have "fst (?c example_state) = Inr []" by code_simp
  then obtain l' k' where r: "?c (fst example_state, snd example_state) = (Inr [], l', k')" by (cases "?c example_state") auto
  have d: "deriveIngressAndEgressFirewallRules (example_k8s []) example_reconciler ''web-7d@shop'' ''shop'' ''web-x1'' True = Inr (Inr no_rules)"
    by code_simp
  have i: "podIdentifierToPolicyEndpointMap example_reconciler ''web-7d@shop'' \<noteq> None" "nn_Namespace (pod_NamespacedName (to_pod example_endpoint)) = ''shop''"
    by (simp_all add: example_reconciler_def to_pod_def example_endpoint_def)
  have m: "default_state (networkPolicyMode (fst example_state)) = STATE_DEFAULT_ALLOW" by code_simp
  from cleanupPod_outcome [OF sim_env_laws example_reachable example_go_orders_range r] r i show ?thesis
    by (simp add: example_identifier d m)
qed

theorem unselected_pod_not_cleaned_witness:
  "\<exists>pods ids cleaned r'. deriveTargetPodsForParentNP (example_k8s []) rev ''web'' ''shop'' ''web-x1'' example_reconciler =
     (Inr (pods, ids, cleaned), r') \<and> cleaned = [to_pod example_endpoint] \<and>
     cleanupPod (example_k8s []) sim_env example_go_orders r' (to_pod example_endpoint) ''web-x1'' False example_state = (Inr [], example_state)"
proof -
  let ?d = "deriveTargetPodsForParentNP (example_k8s []) rev ''web'' ''shop'' ''web-x1'' example_reconciler"
  have t: "fst ?d = Inr ([], [], [to_pod example_endpoint])" by code_simp
  obtain r' where d: "?d = (Inr ([], [], [to_pod example_endpoint]), r')" using t by (metis prod.collapse)
  have par: "GetParentNPNameFromPEName ''web-x1'' = Inr ''web''"
    "derivePolicyEndpointsOfParentNP (example_k8s []) ''web'' ''shop'' = [''web-x1'']" by code_simp+
  have full: "index_full example_reconciler" "networkPolicyToPodIdentifierMap example_reconciler ''web'' = Some [''web-7d@shop'']"
    "policies_of (podIdentifierToPolicyEndpointMap example_reconciler) ''web-7d@shop'' = [''web-x1'']"
    by (simp_all add: index_full_def example_reconciler_def policies_of_def)
  from unselected_pod_not_cleaned [OF range_order_rev par(1) full(1) _ _ d full(2), of "to_pod example_endpoint" sim_env example_go_orders example_state] d
  show ?thesis by (simp add: example_k8s_no_error par(2) full(3) example_identifier)
qed

end
