(* ===== verification/ClusterReconciler.thy ===== *)
theory ClusterReconciler
  imports PolicyReconciler
begin

text \<open>
  \<^verbatim>\<open>controllers/clusterpolicyendpoints_controller.go\<close>: the reconciler of the cluster-scoped
  \<^verbatim>\<open>ClusterPolicyEndpoint\<close> resources. It is built like the reconciler of policy endpoints, on the
  shared index of \<open>PolicyUtils\<close>, but derives priorities and actions, skips identifiers that have no
  programs on this node, clears the maps of an identifier that nothing selects, and keeps the pods
  whose cleanup failed for the retry. The Kubernetes API is the parameter \<open>cluster_api\<close>.
\<close>

section \<open>State and parameters\<close>

record cluster_api =
  Get_CPE :: "string \<Rightarrow> api_err + ClusterPolicyEndpoint"
  List_CPE :: "string + ClusterPolicyEndpoint list"

record ClusterPolicyEndpointsReconciler =
  cr_nodeIP :: string
  cr_trackerStartTime :: int
  cr_lastObservedTriggerTimes :: "string \<rightharpoonup> string"
  podIdentifierToClusterPolicyEndpointMap :: pe_index
  ClusterPolicyEndpointSelectorMap :: "string \<rightharpoonup> Pod list"
  clusterNetworkPolicyToPodIdentifierMap :: "string \<rightharpoonup> string list"
  clusterPolicyProgrammingLatency :: "int list"

definition NewClusterPolicyEndpointsReconciler :: "string \<Rightarrow> int \<Rightarrow> ClusterPolicyEndpointsReconciler" where
  "NewClusterPolicyEndpointsReconciler nodeIP now =
     \<lparr>cr_nodeIP = nodeIP, cr_trackerStartTime = now, cr_lastObservedTriggerTimes = (\<lambda>_. None),
      podIdentifierToClusterPolicyEndpointMap = (\<lambda>_. None), ClusterPolicyEndpointSelectorMap = (\<lambda>_. None),
      clusterNetworkPolicyToPodIdentifierMap = (\<lambda>_. None), clusterPolicyProgrammingLatency = []\<rparr>"

text \<open>The API, the kernel, the clock and the orders of the ranges over maps: of the identifiers of
  one endpoint, when the identifiers are stored, and when they are programmed.\<close>

record 'k cluster_env =
  ce_k8s :: cluster_api
  ce_bpf :: "'k bpf_env"
  ce_orders :: go_orders
  ce_targets :: "(string \<times> bool) list \<Rightarrow> (string \<times> bool) list"
  ce_commit :: "(string \<times> bool) list \<Rightarrow> (string \<times> bool) list"
  ce_program :: "(string \<times> bool) list \<Rightarrow> (string \<times> bool) list"
  ce_parseTime :: "string \<Rightarrow> int option"
  ce_now :: int

section \<open>Rules of an identifier\<close>

definition BASELINE_TIER_PRIORITY_OFFSET :: int where "BASELINE_TIER_PRIORITY_OFFSET = 2000"

definition cluster_priority :: "ClusterPolicyEndpoint \<Rightarrow> int" where
  "cluster_priority cpe =
     (let priority = sint (cpes_Priority (cpe_Spec cpe))
      in if cpes_Tier (cpe_Spec cpe) = BaselineTier then priority + BASELINE_TIER_PRIORITY_OFFSET else priority)"

definition cluster_ingress_rule :: "ClusterPolicyEndpoint \<Rightarrow> ClusterEndpointInfo \<Rightarrow> EbpfFirewallRules" where
  "cluster_ingress_rule cpe ei = \<lparr>fr_Priority = cluster_priority cpe, fr_Action = cei_Action ei, fr_DomainName = [],
     fr_IPCidr = cei_CIDR ei, fr_Except = [], fr_L4Info = cei_Ports ei\<rparr>"

definition cluster_egress_rule :: "ClusterPolicyEndpoint \<Rightarrow> ClusterEndpointInfo \<Rightarrow> EbpfFirewallRules" where
  "cluster_egress_rule cpe ei = \<lparr>fr_Priority = cluster_priority cpe, fr_Action = cei_Action ei,
     fr_DomainName = cei_DomainName ei, fr_IPCidr = cei_CIDR ei, fr_Except = [], fr_L4Info = cei_Ports ei\<rparr>"

definition add_cpe ::
  "ClusterPolicyEndpoint \<Rightarrow> EbpfFirewallRules list \<times> EbpfFirewallRules list \<Rightarrow> EbpfFirewallRules list \<times> EbpfFirewallRules list" where
  "add_cpe cpe rules =
     (fst rules @ map (cluster_ingress_rule cpe) (cpes_Ingress (cpe_Spec cpe)),
      snd rules @ map (cluster_egress_rule cpe) (filter (\<lambda>ei. cei_CIDR ei \<noteq> []) (cpes_Egress (cpe_Spec cpe))))"

fun cluster_derive_loop ::
  "cluster_api \<Rightarrow> string \<Rightarrow> bool \<Rightarrow> string list \<Rightarrow> EbpfFirewallRules list \<times> EbpfFirewallRules list \<Rightarrow>
     go_panic + string + EbpfFirewallRules list \<times> EbpfFirewallRules list" where
  "cluster_derive_loop k8s resourceName isDeleteFlow [] rules = Inr (Inr rules)"
| "cluster_derive_loop k8s resourceName isDeleteFlow (cpe # cpes) rules =
     (case (if isDeleteFlow then same_parent resourceName cpe else Inr False) of
        Inl p \<Rightarrow> Inl p
      | Inr True \<Rightarrow> cluster_derive_loop k8s resourceName isDeleteFlow cpes rules
      | Inr False \<Rightarrow>
          (case Get_CPE k8s cpe of
             Inl NotFound \<Rightarrow> cluster_derive_loop k8s resourceName isDeleteFlow cpes rules
           | Inl (ApiErr e) \<Rightarrow> Inr (Inl e)
           | Inr currentCPE \<Rightarrow> cluster_derive_loop k8s resourceName isDeleteFlow cpes (add_cpe currentCPE rules)))"

definition deriveClusterPolicyIngressAndEgressFirewallRules ::
  "cluster_api \<Rightarrow> ClusterPolicyEndpointsReconciler \<Rightarrow> string \<Rightarrow> string \<Rightarrow> bool \<Rightarrow>
     go_panic + string + EbpfFirewallRules list \<times> EbpfFirewallRules list" where
  "deriveClusterPolicyIngressAndEgressFirewallRules k8s r podIdentifier resourceName isDeleteFlow =
     (case podIdentifierToClusterPolicyEndpointMap r podIdentifier of
        None \<Rightarrow> Inr (Inr ([], []))
      | Some cpes \<Rightarrow> cluster_derive_loop k8s resourceName isDeleteFlow cpes ([], []))"

definition DeriveClusterPolicyFireWallRulesPerPodIdentifier ::
  "cluster_api \<Rightarrow> ClusterPolicyEndpointsReconciler \<Rightarrow> string \<Rightarrow>
     go_panic + string + EbpfFirewallRules list \<times> EbpfFirewallRules list" where
  "DeriveClusterPolicyFireWallRulesPerPodIdentifier k8s r podIdentifier =
     deriveClusterPolicyIngressAndEgressFirewallRules k8s r podIdentifier [] False"

definition cluster_ArePoliciesAvailableInLocalCache :: "ClusterPolicyEndpointsReconciler \<Rightarrow> string \<Rightarrow> bool" where
  "cluster_ArePoliciesAvailableInLocalCache r podIdentifier =
     (case podIdentifierToClusterPolicyEndpointMap r podIdentifier of None \<Rightarrow> False | Some cpes \<Rightarrow> 0 < length cpes)"

section \<open>Programming\<close>

definition cluster_state :: "EbpfFirewallRules list \<Rightarrow> EbpfFirewallRules list \<Rightarrow> int" where
  "cluster_state ingressRules egressRules =
     (if length ingressRules = 0 \<and> length egressRules = 0 then STATE_DEFAULT_ALLOW else STATE_POLICIES_APPLIED)"

definition updateClusterPolicyBPFMaps ::
  "'k bpf_env \<Rightarrow> go_orders \<Rightarrow> string \<Rightarrow> EbpfFirewallRules list \<Rightarrow> EbpfFirewallRules list \<Rightarrow> bpfClient \<times> 'k \<Rightarrow>
     (bpfClient \<times> 'k) outcome" where
  "updateClusterPolicyBPFMaps env os podIdentifier ingressRules egressRules s =
     on_ok (UpdateClusterPolicyEbpfMaps env os podIdentifier ingressRules egressRules (fst s) (snd s)) (\<lambda>(l, k).
     on_ok (case UpdatePodStateEbpfMaps env podIdentifier CLUSTER_POLICY_POD_STATE_MAP_KEY
                   (cluster_state ingressRules egressRules) True True l k of
              (e, k') \<Rightarrow> (Inr e, l, k')) (\<lambda>(l, k).
       case CreatePodStateEbpfEntryIfNotExists env podIdentifier POD_STATE_MAP_KEY
              (default_state (GetNetworkPolicyMode l)) l k of
         (e, k') \<Rightarrow> (Inr e, l, k')))"

definition configureClusterPolicyBPFProbes ::
  "'k bpf_env \<Rightarrow> go_orders \<Rightarrow> string \<Rightarrow> Pod list \<Rightarrow> EbpfFirewallRules list \<Rightarrow> EbpfFirewallRules list \<Rightarrow> bpfClient \<times> 'k \<Rightarrow>
     (bpfClient \<times> 'k) outcome" where
  "configureClusterPolicyBPFProbes env os podIdentifier targetPods ingressRules egressRules s =
     on_ok (attach_pods env podIdentifier targetPods s) (\<lambda>s1.
       if \<not> HasBPFContext (fst s1) podIdentifier then (Inr [], s1)
       else updateClusterPolicyBPFMaps env os podIdentifier ingressRules egressRules s1)"

definition cleanupClusterPolicyPod ::
  "cluster_api \<Rightarrow> 'k bpf_env \<Rightarrow> go_orders \<Rightarrow> ClusterPolicyEndpointsReconciler \<Rightarrow> Pod \<Rightarrow> string \<Rightarrow> bool \<Rightarrow> bpfClient \<times> 'k \<Rightarrow>
     (bpfClient \<times> 'k) outcome" where
  "cleanupClusterPolicyPod k8s env os r targetPod clusterPolicyEndpoint isDeleteFlow s =
     (let podIdentifier = pod_identifier targetPod
      in if \<not> HasBPFContext (fst s) podIdentifier then (Inr [], s)
         else (case podIdentifierToClusterPolicyEndpointMap r podIdentifier of
                 Some _ \<Rightarrow>
                   (case deriveClusterPolicyIngressAndEgressFirewallRules k8s r podIdentifier clusterPolicyEndpoint isDeleteFlow of
                      Inl p \<Rightarrow> (Inl p, s)
                    | Inr (Inl e) \<Rightarrow> (Inr [e], s)
                    | Inr (Inr (ingressRules, egressRules)) \<Rightarrow>
                        updateClusterPolicyBPFMaps env os podIdentifier ingressRules egressRules s)
               | None \<Rightarrow> updateClusterPolicyBPFMaps env os podIdentifier [] [] s))"

text \<open>The pods whose cleanup failed and the joined errors.\<close>

fun updateClusterPolicyEnforcementStatusForPods ::
  "cluster_api \<Rightarrow> 'k bpf_env \<Rightarrow> go_orders \<Rightarrow> ClusterPolicyEndpointsReconciler \<Rightarrow> string \<Rightarrow> Pod list \<Rightarrow> bool \<Rightarrow> bpfClient \<times> 'k \<Rightarrow>
     (go_panic + Pod list \<times> string list) \<times> bpfClient \<times> 'k" where
  "updateClusterPolicyEnforcementStatusForPods k8s env os r name [] isDeleteFlow s = (Inr ([], []), s)"
| "updateClusterPolicyEnforcementStatusForPods k8s env os r name (pod # pods) isDeleteFlow s =
     (case cleanupClusterPolicyPod k8s env os r pod name isDeleteFlow s of
        (Inl p, s') \<Rightarrow> (Inl p, s')
      | (Inr cleanupErr, s') \<Rightarrow>
          (case updateClusterPolicyEnforcementStatusForPods k8s env os r name pods isDeleteFlow s' of
             (Inl p, s'') \<Rightarrow> (Inl p, s'')
           | (Inr (failed, err), s'') \<Rightarrow>
               (Inr (if cleanupErr \<noteq> [] then pod # failed else failed, cleanupErr @ err), s'')))"

section \<open>Target pods\<close>

definition getClusterPolicyEndpointsOfParentCNP :: "cluster_api \<Rightarrow> string \<Rightarrow> string + ClusterPolicyEndpoint list" where
  "getClusterPolicyEndpointsOfParentCNP k8s parentCNP =
     (case List_CPE k8s of
        Inl e \<Rightarrow> Inl e
      | Inr items \<Rightarrow> Inr (filter (\<lambda>cpe. cref_Name (cpes_PolicyRef (cpe_Spec cpe)) = parentCNP) items))"

definition cluster_target_step ::
  "string list \<Rightarrow> PodEndpoint \<Rightarrow> Pod list \<times> (string, bool) go_map \<times> ClusterPolicyEndpointsReconciler \<Rightarrow>
     Pod list \<times> (string, bool) go_map \<times> ClusterPolicyEndpointsReconciler" where
  "cluster_target_step parentCPEList pod acc =
     (case acc of (targetPods, podIdentifiers, r) \<Rightarrow>
        let podIdentifier = GetPodIdentifier (pep_Name pod) (pep_Namespace pod);
            r' = r\<lparr>podIdentifierToClusterPolicyEndpointMap :=
                   UpdatePodIdentifierToPolicyEndpointMap (podIdentifierToClusterPolicyEndpointMap r) podIdentifier parentCPEList\<rparr>
        in if IP_Equal (ParseIP (cr_nodeIP r)) (ParseIP (pep_HostIP pod))
           then (targetPods @ [\<lparr>pod_NamespacedName = \<lparr>nn_Name = pep_Name pod, nn_Namespace = pep_Namespace pod\<rparr>,
                                pod_PodIP = pep_PodIP pod\<rparr>],
                 AList.update podIdentifier True podIdentifiers, r')
           else (targetPods, podIdentifiers, r'))"

definition deriveClusterPolicyTargetPods ::
  "ClusterPolicyEndpoint \<Rightarrow> string list \<Rightarrow> ClusterPolicyEndpointsReconciler \<Rightarrow>
     Pod list \<times> (string, bool) go_map \<times> ClusterPolicyEndpointsReconciler" where
  "deriveClusterPolicyTargetPods cpe parentCPEList r =
     fold (cluster_target_step parentCPEList) (cpes_PodSelectorEndpoints (cpe_Spec cpe)) ([], [], r)"

definition cluster_parent_step ::
  "((string \<times> bool) list \<Rightarrow> (string \<times> bool) list) \<Rightarrow> string list \<Rightarrow> ClusterPolicyEndpoint \<Rightarrow>
     targets \<times> ClusterPolicyEndpointsReconciler \<Rightarrow> targets \<times> ClusterPolicyEndpointsReconciler" where
  "cluster_parent_step ord parentCPEList currentCPE acc =
     (case acc of (tg, r) \<Rightarrow>
        let (currentTargetPods, currentPodIdentifiers, r') = deriveClusterPolicyTargetPods currentCPE parentCPEList r;
            ids = map fst (ord currentPodIdentifiers)
        in (\<lparr>tg_pods = tg_pods tg @ currentTargetPods,
             tg_identifiers = fold (\<lambda>i. AList.update i True) ids (tg_identifiers tg),
             tg_list = tg_list tg @ ids\<rparr>, r'))"

text \<open>\<^verbatim>\<open>lo.Uniq\<close> keeps the first of equal elements.\<close>

definition lo_Uniq :: "'a list \<Rightarrow> 'a list" where
  "lo_Uniq xs = fold (\<lambda>x acc. if x \<notin> set acc then acc @ [x] else acc) xs []"

definition scrub_index :: "string list \<Rightarrow> string list \<Rightarrow> ClusterPolicyEndpointsReconciler \<Rightarrow> ClusterPolicyEndpointsReconciler" where
  "scrub_index names ids r = r\<lparr>podIdentifierToClusterPolicyEndpointMap :=
     fold (\<lambda>cpeName. fold (\<lambda>sid m. DeletePolicyEndpointFromPodIdentifierMap m sid cpeName) ids) names
       (podIdentifierToClusterPolicyEndpointMap r)\<rparr>"

definition deriveTargetPodsForParentCNP ::
  "cluster_api \<Rightarrow> ((string \<times> bool) list \<Rightarrow> (string \<times> bool) list) \<Rightarrow> string \<Rightarrow> string \<Rightarrow> ClusterPolicyEndpointsReconciler \<Rightarrow>
     (go_panic + string + Pod list \<times> (string, bool) go_map \<times> Pod list \<times> string list) \<times> ClusterPolicyEndpointsReconciler" where
  "deriveTargetPodsForParentCNP k8s ord parentCNPName resourceName r =
     (case getClusterPolicyEndpointsOfParentCNP k8s parentCNPName of
        Inl e \<Rightarrow> (Inr (Inl e), r)
      | Inr parentCPEObjects \<Rightarrow>
          let parentCPEList = (if length parentCPEObjects = 0 then [resourceName] else map cpe_Name parentCPEObjects);
              (tg, r1) = fold (cluster_parent_step ord parentCPEList) parentCPEObjects
                           (\<lparr>tg_pods = [], tg_identifiers = [], tg_list = []\<rparr>, r)
          in case DeriveStalePodIdentifiers (clusterNetworkPolicyToPodIdentifierMap r1) resourceName (tg_list tg) of
               Inl p \<Rightarrow> (Inl p, r1)
             | Inr stalePodIdentifiers \<Rightarrow>
                 let currentPods = lo_Uniq (concat (map (\<lambda>cpeName.
                       case ClusterPolicyEndpointSelectorMap r1 cpeName of None \<Rightarrow> [] | Some existingPods \<Rightarrow> existingPods)
                         (lo_Uniq (resourceName # parentCPEList))));
                     r2 = scrub_index parentCPEList stalePodIdentifiers r1
                 in (Inr (Inr (tg_pods tg, tg_identifiers tg,
                       if 0 < length currentPods
                       then GetPodListToBeCleanedUp currentPods (tg_pods tg) (map_of (tg_identifiers tg)) else [],
                       parentCPEList)), r2))"

definition commitClusterPolicyEndpointState ::
  "((string \<times> bool) list \<Rightarrow> (string \<times> bool) list) \<Rightarrow> string \<Rightarrow> Pod list \<Rightarrow> (string, bool) go_map \<Rightarrow> string list \<Rightarrow>
     ClusterPolicyEndpointsReconciler \<Rightarrow> go_panic option \<times> ClusterPolicyEndpointsReconciler" where
  "commitClusterPolicyEndpointState ord resourceName newTargetPods targetPodIdentifiers parentCPEList r =
     (let r1 = r\<lparr>ClusterPolicyEndpointSelectorMap :=
            fold (\<lambda>cpeName m. m(cpeName := (if 0 < length newTargetPods then Some newTargetPods else None)))
              parentCPEList (ClusterPolicyEndpointSelectorMap r)\<rparr>
      in case GetParentNPNameFromPEName resourceName of
           Inl p \<Rightarrow> (Some p, r1)
         | Inr parentKey \<Rightarrow>
             (None, r1\<lparr>clusterNetworkPolicyToPodIdentifierMap := (clusterNetworkPolicyToPodIdentifierMap r1)(parentKey :=
                (if length targetPodIdentifiers = 0 then None else Some (map fst (ord targetPodIdentifiers))))\<rparr>))"

section \<open>Reconciling\<close>

definition observeClusterPolicyProgrammingLatency ::
  "(string \<Rightarrow> int option) \<Rightarrow> int \<Rightarrow> ClusterPolicyEndpoint \<Rightarrow> bool \<Rightarrow> ClusterPolicyEndpointsReconciler \<Rightarrow>
     ClusterPolicyEndpointsReconciler" where
  "observeClusterPolicyProgrammingLatency parseTime now cpe programmingSucceeded r =
     (case cpe_Annotations cpe LastChangeTriggerTimeAnnotation of
        None \<Rightarrow> r
      | Some triggerTimeStr \<Rightarrow>
          if triggerTimeStr = [] then r
          else (case parseTime triggerTimeStr of
                  None \<Rightarrow> r
                | Some triggerTime \<Rightarrow>
                    if \<not> triggerTime > cr_trackerStartTime r then r
                    else if cr_lastObservedTriggerTimes r (cpe_Name cpe) = Some triggerTimeStr then r
                    else
                      let r' = r\<lparr>cr_lastObservedTriggerTimes := (cr_lastObservedTriggerTimes r)(cpe_Name cpe \<mapsto> triggerTimeStr)\<rparr>
                      in if \<not> programmingSucceeded then r'
                         else if now - triggerTime < 0 then r'
                         else r'\<lparr>clusterPolicyProgrammingLatency := clusterPolicyProgrammingLatency r' @ [now - triggerTime]\<rparr>))"

text \<open>The loop of \<^verbatim>\<open>reconcileClusterPolicyEndpoint\<close> over the identifiers collects the errors.\<close>

fun cluster_program_loop ::
  "cluster_api \<Rightarrow> 'k bpf_env \<Rightarrow> go_orders \<Rightarrow> ClusterPolicyEndpointsReconciler \<Rightarrow> string \<Rightarrow> Pod list \<Rightarrow> string list \<Rightarrow>
     bpfClient \<times> 'k \<Rightarrow> (bpfClient \<times> 'k) outcome" where
  "cluster_program_loop k8s env os r name targetPods [] s = (Inr [], s)"
| "cluster_program_loop k8s env os r name targetPods (podIdentifier # podIdentifiers) s =
     (case (case deriveClusterPolicyIngressAndEgressFirewallRules k8s r podIdentifier name False of
              Inl p \<Rightarrow> (Inl p, s)
            | Inr (Inl e) \<Rightarrow> (Inr [e], s)
            | Inr (Inr (ingressRules, egressRules)) \<Rightarrow>
                configureClusterPolicyBPFProbes env os podIdentifier targetPods ingressRules egressRules s) of
        (Inl p, s1) \<Rightarrow> (Inl p, s1)
      | (Inr err, s1) \<Rightarrow>
          (case cluster_program_loop k8s env os r name targetPods podIdentifiers s1 of
             (Inl p, s2) \<Rightarrow> (Inl p, s2)
           | (Inr errs, s2) \<Rightarrow> (Inr (err @ errs), s2)))"

definition track_failed :: "Pod list \<Rightarrow> (string, bool) go_map \<Rightarrow> (string, bool) go_map" where
  "track_failed failedCleanups targetPodIdentifiers =
     fold (\<lambda>pod. AList.update (pod_identifier pod) True) failedCleanups targetPodIdentifiers"

definition reconcileClusterPolicyEndpoint ::
  "'k cluster_env \<Rightarrow> ClusterPolicyEndpoint \<Rightarrow> ClusterPolicyEndpointsReconciler \<Rightarrow> bpfClient \<times> 'k \<Rightarrow>
     (go_panic + string list) \<times> ClusterPolicyEndpointsReconciler \<times> bpfClient \<times> 'k" where
  "reconcileClusterPolicyEndpoint ce cpe r s =
     (let parentCNPName = cref_Name (cpes_PolicyRef (cpe_Spec cpe)); resourceName = cpe_Name cpe
      in case deriveTargetPodsForParentCNP (ce_k8s ce) (ce_targets ce) parentCNPName resourceName r of
           (Inl p, r1) \<Rightarrow> (Inl p, r1, s)
         | (Inr (Inl e), r1) \<Rightarrow> (Inr [e], r1, s)
         | (Inr (Inr (targetPods, targetPodIdentifiers, podsToBeCleanedUp, parentCPEList)), r1) \<Rightarrow>
             (case updateClusterPolicyEnforcementStatusForPods (ce_k8s ce) (ce_bpf ce) (ce_orders ce) r1 resourceName
                     podsToBeCleanedUp False s of
                (Inl p, s1) \<Rightarrow> (Inl p, r1, s1)
              | (Inr (failedCleanups, cleanupErr), s1) \<Rightarrow>
                  (case commitClusterPolicyEndpointState (ce_commit ce) resourceName (targetPods @ failedCleanups)
                          (track_failed failedCleanups targetPodIdentifiers) parentCPEList r1 of
                     (Some p, r2) \<Rightarrow> (Inl p, r2, s1)
                   | (None, r2) \<Rightarrow>
                       (case cluster_program_loop (ce_k8s ce) (ce_bpf ce) (ce_orders ce) r2 resourceName targetPods
                               (map fst (ce_program ce targetPodIdentifiers)) s1 of
                          (Inl p, s2) \<Rightarrow> (Inl p, r2, s2)
                        | (Inr programmingErr, s2) \<Rightarrow>
                            (Inr (cleanupErr @ programmingErr),
                             if cleanupErr = []
                             then observeClusterPolicyProgrammingLatency (ce_parseTime ce) (ce_now ce) cpe (programmingErr = []) r2
                             else r2, s2)))))"

definition forget_cpe :: "string \<Rightarrow> ClusterPolicyEndpointsReconciler \<Rightarrow> ClusterPolicyEndpointsReconciler" where
  "forget_cpe resourceName r =
     (case ClusterPolicyEndpointSelectorMap r resourceName of
        None \<Rightarrow> r
      | Some existingPods \<Rightarrow> scrub_index [resourceName] (map pod_identifier existingPods) r)"

definition cleanUpClusterPolicyEndpoint ::
  "'k cluster_env \<Rightarrow> string \<Rightarrow> ClusterPolicyEndpointsReconciler \<Rightarrow> bpfClient \<times> 'k \<Rightarrow>
     (go_panic + string list) \<times> ClusterPolicyEndpointsReconciler \<times> bpfClient \<times> 'k" where
  "cleanUpClusterPolicyEndpoint ce resourceName r s =
     (let r0 = r\<lparr>cr_lastObservedTriggerTimes := (cr_lastObservedTriggerTimes r)(resourceName := None)\<rparr>;
          upd = (\<lambda>r pods isDeleteFlow s. updateClusterPolicyEnforcementStatusForPods (ce_k8s ce) (ce_bpf ce) (ce_orders ce) r
                   resourceName pods isDeleteFlow s)
      in case GetParentNPNameFromPEName resourceName of
           Inl p \<Rightarrow> (Inl p, r0, s)
         | Inr parentCNPName \<Rightarrow>
             (case deriveTargetPodsForParentCNP (ce_k8s ce) (ce_targets ce) parentCNPName resourceName r0 of
                (Inl p, r1) \<Rightarrow> (Inl p, r1, s)
              | (Inr (Inl e), r1) \<Rightarrow> (Inr [e], r1, s)
              | (Inr (Inr (targetPods, targetPodIdentifiers, podsToBeCleanedUp, parentCPEList)), r1) \<Rightarrow>
                  let r2 = forget_cpe resourceName r1
                  in case upd r2 targetPods False s of
                       (Inl p, s1) \<Rightarrow> (Inl p, r2, s1)
                     | (Inr (_, updateErr), s1) \<Rightarrow>
                         (case upd r2 podsToBeCleanedUp True s1 of
                            (Inl p, s2) \<Rightarrow> (Inl p, r2, s2)
                          | (Inr (failedCleanups, cleanupErr), s2) \<Rightarrow>
                              (case commitClusterPolicyEndpointState (ce_commit ce) resourceName (targetPods @ failedCleanups)
                                      (track_failed failedCleanups targetPodIdentifiers) parentCPEList r2 of
                                 (Some p, r3) \<Rightarrow> (Inl p, r3, s2)
                               | (None, r3) \<Rightarrow>
                                   let err = updateErr @ cleanupErr
                                   in (Inr err,
                                       if resourceName \<in> set parentCPEList then r3
                                       else r3\<lparr>ClusterPolicyEndpointSelectorMap := (ClusterPolicyEndpointSelectorMap r3)
                                              (resourceName := (if err \<noteq> [] then Some failedCleanups else None))\<rparr>, s2)))))"

definition cluster_reconcile ::
  "'k cluster_env \<Rightarrow> string \<Rightarrow> ClusterPolicyEndpointsReconciler \<Rightarrow> bpfClient \<times> 'k \<Rightarrow>
     (go_panic + string list) \<times> ClusterPolicyEndpointsReconciler \<times> bpfClient \<times> 'k" where
  "cluster_reconcile ce name r s =
     (case Get_CPE (ce_k8s ce) name of
        Inl NotFound \<Rightarrow> cleanUpClusterPolicyEndpoint ce name r s
      | Inl (ApiErr e) \<Rightarrow> (Inr [e], r, s)
      | Inr cpe \<Rightarrow>
          if cpe_Deleting cpe then cleanUpClusterPolicyEndpoint ce name r s
          else reconcileClusterPolicyEndpoint ce cpe r s)"

section \<open>What the derived rules are\<close>

definition cluster_ingress_rules :: "ClusterPolicyEndpoint list \<Rightarrow> EbpfFirewallRules list" where
  "cluster_ingress_rules cpes = concat (map (\<lambda>cpe. map (cluster_ingress_rule cpe) (cpes_Ingress (cpe_Spec cpe))) cpes)"

definition cluster_egress_rules :: "ClusterPolicyEndpoint list \<Rightarrow> EbpfFirewallRules list" where
  "cluster_egress_rules cpes =
     concat (map (\<lambda>cpe. map (cluster_egress_rule cpe) (filter (\<lambda>ei. cei_CIDR ei \<noteq> []) (cpes_Egress (cpe_Spec cpe)))) cpes)"

lemma fold_add_cpe: "fold add_cpe cpes (a, b) = (a @ cluster_ingress_rules cpes, b @ cluster_egress_rules cpes)"
  by (induction cpes arbitrary: a b) (simp_all add: add_cpe_def cluster_ingress_rules_def cluster_egress_rules_def)

definition found_cpes :: "cluster_api \<Rightarrow> string list \<Rightarrow> ClusterPolicyEndpoint list" where
  "found_cpes k8s names = List.map_filter (\<lambda>n. case Get_CPE k8s n of Inr cpe \<Rightarrow> Some cpe | Inl _ \<Rightarrow> None) names"

lemma cluster_derive_loop_fold:
  assumes "isDel \<longrightarrow> has_parent res \<and> (\<forall>n \<in> set names. has_parent n)"
    and "\<forall>n \<in> set names. \<forall>e. Get_CPE k8s n \<noteq> Inl (ApiErr e)"
  shows "cluster_derive_loop k8s res isDel names rules =
    Inr (Inr (fold add_cpe (found_cpes k8s (filter (counted res isDel) names)) rules))"
  using assms
proof (induction names arbitrary: rules)
  case (Cons n names)
  have c: "(if isDel then same_parent res n else Inr False) = Inr (\<not> counted res isDel n)"
    using Cons.prems(1) has_parent_Inr [of res] has_parent_Inr [of n] by (auto simp: same_parent_def counted_def)
  have e: "Get_CPE k8s n \<noteq> Inl (ApiErr x)" for x using Cons.prems(2) by simp
  show ?case
    using Cons c e by (auto simp: found_cpes_def List.map_filter_simps split: sum.splits api_err.splits bool.splits)
qed (simp add: found_cpes_def List.map_filter_def)

section \<open>Effects on the client\<close>

lemma updateClusterPolicyBPFMaps_tier:
  "updateClusterPolicyBPFMaps env os i ing eg s = program_tier UpdateClusterPolicyEbpfMaps CLUSTER_POLICY_POD_STATE_MAP_KEY
     POD_STATE_MAP_KEY (\<lambda>l. default_state (GetNetworkPolicyMode l)) env os i ing eg (cluster_state ing eg) s"
  unfolding updateClusterPolicyBPFMaps_def program_tier_def ..

locale cp_effect = client_effect +
  assumes effect_update: "orders_range os \<Longrightarrow> R s (snd (updateClusterPolicyBPFMaps env os i ing eg s))"
begin

lemma configure_effect:
  "orders_range os \<Longrightarrow> \<forall>p \<in> set pods. pod_ok p \<Longrightarrow> R s (snd (configureClusterPolicyBPFProbes env os i pods ing eg s))"
  unfolding configureClusterPolicyBPFProbes_def
  by (intro on_ok_effect attach_pods_effect) (simp_all add: effect_update effect_refl)

lemma cleanupPod_effect: "orders_range os \<Longrightarrow> R s (snd (cleanupClusterPolicyPod k8s env os r pod name isDel s))"
  unfolding cleanupClusterPolicyPod_def
  by (auto simp: Let_def effect_update effect_refl split: option.splits sum.splits)

lemma updateStatus_effect:
  "orders_range os \<Longrightarrow> R s (snd (updateClusterPolicyEnforcementStatusForPods k8s env os r name pods isDel s))"
proof (induction pods arbitrary: s)
  case (Cons p pods)
  obtain a s1 where a: "cleanupClusterPolicyPod k8s env os r p name isDel s = (a, s1)" by (metis surj_pair)
  obtain b s2 where b: "updateClusterPolicyEnforcementStatusForPods k8s env os r name pods isDel s1 = (b, s2)" by (metis surj_pair)
  have "R s s1" "R s1 s2"
    using cleanupPod_effect [OF Cons.prems, of s k8s r p name isDel] Cons.IH [OF Cons.prems, of s1] a b by simp_all
  with effect_trans [of s s1 s2] a b show ?case by (cases a; cases b) (auto split: prod.splits)
qed (simp add: effect_refl)

lemma program_loop_effect:
  "orders_range os \<Longrightarrow> \<forall>p \<in> set pods. pod_ok p \<Longrightarrow> R s (snd (cluster_program_loop k8s env os r name pods ids s))"
proof (induction ids arbitrary: s)
  case (Cons i ids)
  let ?c = "case deriveClusterPolicyIngressAndEgressFirewallRules k8s r i name False of
      Inl p \<Rightarrow> (Inl p, s) | Inr (Inl e) \<Rightarrow> (Inr [e], s)
    | Inr (Inr (ing, eg)) \<Rightarrow> configureClusterPolicyBPFProbes env os i pods ing eg s"
  have "R s (snd ?c)" by (auto simp: configure_effect [OF Cons.prems] effect_refl split: sum.splits)
  moreover obtain a s1 where a: "?c = (a, s1)" by (metis surj_pair)
  ultimately have 1: "R s s1" by simp
  obtain b s2 where b: "cluster_program_loop k8s env os r name pods ids s1 = (b, s2)" by (metis surj_pair)
  have "R s s2" using effect_trans [OF 1] Cons.IH [OF Cons.prems, of s1] b by simp
  with 1 a b show ?case by (cases a; cases b) simp_all
qed (simp add: effect_refl)

end

interpretation cp_reach: cp_effect env "client_reaches env" for env
  by unfold_locales (simp add: updateClusterPolicyBPFMaps_tier cp_tier.program_reaches)

interpretation cp_safe: cp_effect env "tier_safe env kv PolicyMap POD_STATE_MAP_KEY CLUSTER_POLICY_POD_STATE_MAP_KEY" for env kv
  by unfold_locales (simp add: updateClusterPolicyBPFMaps_tier cp_tier.program_safe)

section \<open>The pods a policy selects here\<close>

definition cluster_selects :: "ClusterPolicyEndpointsReconciler \<Rightarrow> PodEndpoint \<Rightarrow> bool" where
  "cluster_selects r pod \<longleftrightarrow> IP_Equal (ParseIP (cr_nodeIP r)) (ParseIP (pep_HostIP pod))"

definition cluster_local_pods :: "ClusterPolicyEndpointsReconciler \<Rightarrow> ClusterPolicyEndpoint \<Rightarrow> Pod list" where
  "cluster_local_pods r cpe = map to_pod (filter (cluster_selects r) (cpes_PodSelectorEndpoints (cpe_Spec cpe)))"

text \<open>The identifiers an endpoint lists, on any node.\<close>

definition listed :: "ClusterPolicyEndpoint \<Rightarrow> string set" where
  "listed cpe = pod_identifier ` to_pod ` set (cpes_PodSelectorEndpoints (cpe_Spec cpe))"

text \<open>Two states of the reconciler that differ only in the index, which gained \<open>I \<times> set names\<close>.\<close>

definition index_gains :: "string set \<Rightarrow> string list \<Rightarrow> ClusterPolicyEndpointsReconciler \<Rightarrow> ClusterPolicyEndpointsReconciler \<Rightarrow> bool" where
  "index_gains I names r r' \<longleftrightarrow> (\<exists>m. r' = r\<lparr>podIdentifierToClusterPolicyEndpointMap := m\<rparr> \<and>
     index_rel m = index_rel (podIdentifierToClusterPolicyEndpointMap r) \<union> I \<times> set names \<and>
     (names \<noteq> [] \<longrightarrow> (\<forall>i. podIdentifierToClusterPolicyEndpointMap r i \<noteq> Some []) \<longrightarrow> (\<forall>i. m i \<noteq> Some [])))"

lemma index_gains_refl [simp]: "index_gains {} names r r"
  unfolding index_gains_def by (rule exI [of _ "podIdentifierToClusterPolicyEndpointMap r"]) simp

lemma index_gains_trans:
  assumes "index_gains I names r r1" "index_gains J names r1 r2" shows "index_gains (I \<union> J) names r r2"
proof -
  obtain m where m: "r1 = r\<lparr>podIdentifierToClusterPolicyEndpointMap := m\<rparr>"
    "index_rel m = index_rel (podIdentifierToClusterPolicyEndpointMap r) \<union> I \<times> set names"
    "names \<noteq> [] \<longrightarrow> (\<forall>i. podIdentifierToClusterPolicyEndpointMap r i \<noteq> Some []) \<longrightarrow> (\<forall>i. m i \<noteq> Some [])"
    using assms(1) unfolding index_gains_def by blast
  obtain m' where m': "r2 = r1\<lparr>podIdentifierToClusterPolicyEndpointMap := m'\<rparr>" "index_rel m' = index_rel m \<union> J \<times> set names"
    "names \<noteq> [] \<longrightarrow> (\<forall>i. m i \<noteq> Some []) \<longrightarrow> (\<forall>i. m' i \<noteq> Some [])"
    using assms(2) unfolding index_gains_def m(1) by auto
  show ?thesis
    unfolding index_gains_def
  proof (intro exI conjI)
    show "r2 = r\<lparr>podIdentifierToClusterPolicyEndpointMap := m'\<rparr>" using m(1) m'(1) by simp
    show "index_rel m' = index_rel (podIdentifierToClusterPolicyEndpointMap r) \<union> (I \<union> J) \<times> set names" using m(2) m'(2) by auto
  qed (use m(3) m'(3) in blast)
qed

lemma Update_gains:
  "index_gains {i} names r (r\<lparr>podIdentifierToClusterPolicyEndpointMap :=
     UpdatePodIdentifierToPolicyEndpointMap (podIdentifierToClusterPolicyEndpointMap r) i names\<rparr>)"
proof -
  let ?m = "podIdentifierToClusterPolicyEndpointMap r"
  have "index_rel (UpdatePodIdentifierToPolicyEndpointMap ?m i names) = index_rel ?m \<union> {i} \<times> set names"
    using index_rel_step [of "AddPEs i names" ?m] by simp
  moreover have "UpdatePodIdentifierToPolicyEndpointMap ?m i names j \<noteq> Some []" if "names \<noteq> []" "\<forall>j. ?m j \<noteq> Some []" for j
  proof (cases "?m i")
    case (Some qs)
    with that(2) have "qs \<noteq> []" by blast
    with that append_new_prefix [of names qs] Some show ?thesis by (auto simp: UpdatePodIdentifierToPolicyEndpointMap_def)
  qed (use that in \<open>auto simp: UpdatePodIdentifierToPolicyEndpointMap_def\<close>)
  ultimately show ?thesis unfolding index_gains_def by blast
qed

lemma cluster_target_step_spec:
  assumes "cluster_target_step names pod (ps, ids, r) = (ps', ids', r')"
  shows "index_gains {pod_identifier (to_pod pod)} names r r' \<and>
    ps' = ps @ (if cluster_selects r pod then [to_pod pod] else []) \<and>
    fst ` set ids' = fst ` set ids \<union> (if cluster_selects r pod then {pod_identifier (to_pod pod)} else {})"
proof -
  let ?i = "pod_identifier (to_pod pod)"
  have "ps' = ps @ (if cluster_selects r pod then [to_pod pod] else [])"
    "ids' = (if cluster_selects r pod then AList.update ?i True ids else ids)"
    "r' = r\<lparr>podIdentifierToClusterPolicyEndpointMap :=
       UpdatePodIdentifierToPolicyEndpointMap (podIdentifierToClusterPolicyEndpointMap r) ?i names\<rparr>"
    using assms by (auto simp: cluster_target_step_def Let_def cluster_selects_def to_pod_def pod_identifier_def split: if_splits)
  with Update_gains show ?thesis by (simp add: keys_update)
qed

lemma cluster_targets_fold:
  assumes "fold (cluster_target_step names) eps (ps0, ids0, r0) = (ps, ids, r')"
  shows "index_gains (pod_identifier ` to_pod ` set eps) names r0 r' \<and> ps = ps0 @ map to_pod (filter (cluster_selects r0) eps) \<and>
    fst ` set ids = fst ` set ids0 \<union> pod_identifier ` to_pod ` set (filter (cluster_selects r0) eps)"
  using assms
proof (induction eps arbitrary: ps0 ids0 r0)
  case (Cons ep eps)
  obtain ps1 ids1 r1 where t: "cluster_target_step names ep (ps0, ids0, r0) = (ps1, ids1, r1)" using prod_cases3 by blast
  note s = cluster_target_step_spec [OF t]
  have sel: "cluster_selects r1 = cluster_selects r0" using s by (auto simp: index_gains_def cluster_selects_def fun_eq_iff)
  have "fold (cluster_target_step names) eps (ps1, ids1, r1) = (ps, ids, r')" using Cons.prems t by simp
  note i = Cons.IH [OF this, unfolded sel]
  have "index_gains (insert (pod_identifier (to_pod ep)) (pod_identifier ` to_pod ` set eps)) names r0 r'"
    using index_gains_trans [OF conjunct1 [OF s] conjunct1 [OF i]] by simp
  with s i show ?case by auto
qed simp

lemma deriveClusterPolicyTargetPods_spec:
  assumes "deriveClusterPolicyTargetPods cpe names r = (ps, ids, r')"
  shows "index_gains (listed cpe) names r r' \<and> ps = cluster_local_pods r cpe \<and> fst ` set ids = pod_identifier ` set ps"
  using cluster_targets_fold [OF assms [unfolded deriveClusterPolicyTargetPods_def]]
  by (auto simp: listed_def cluster_local_pods_def image_image)

lemma cluster_parent_step_spec:
  assumes ord: "range_order ord" and run: "cluster_parent_step ord names cpe (tg, r) = (tg', r')"
  shows "index_gains (listed cpe) names r r' \<and> tg_pods tg' = tg_pods tg @ cluster_local_pods r cpe \<and>
    fst ` set (tg_identifiers tg') = fst ` set (tg_identifiers tg) \<union> pod_identifier ` set (cluster_local_pods r cpe) \<and>
    set (tg_list tg') = set (tg_list tg) \<union> pod_identifier ` set (cluster_local_pods r cpe) \<and>
    (set (map snd (tg_identifiers tg)) \<subseteq> {True} \<longrightarrow> set (map snd (tg_identifiers tg')) \<subseteq> {True})"
proof -
  obtain qs ids r1 where d: "deriveClusterPolicyTargetPods cpe names r = (qs, ids, r1)" using prod_cases3 by blast
  note s = deriveClusterPolicyTargetPods_spec [OF d]
  have r: "r' = r1" "tg_pods tg' = tg_pods tg @ qs" "tg_list tg' = tg_list tg @ map fst (ord ids)"
      "tg_identifiers tg' = fold (\<lambda>i. AList.update i True) (map fst (ord ids)) (tg_identifiers tg)"
    using run d by (auto simp: cluster_parent_step_def Let_def)
  have t: "set (map snd m) \<subseteq> {True} \<Longrightarrow> set (map snd (fold (\<lambda>i. AList.update i True) is m)) \<subseteq> {True}" for "is" m
  proof (induction "is" arbitrary: m)
    case (Cons i "is")
    have "set (map snd (AList.update i True m)) \<subseteq> {True}" using Cons.prems by (induction m) (auto split: if_splits)
    with Cons.IH show ?case by simp
  qed simp
  have "set (map snd (tg_identifiers tg)) \<subseteq> {True} \<longrightarrow> set (map snd (tg_identifiers tg')) \<subseteq> {True}"
    unfolding r(4) by (intro impI t)
  with s r(1-3) show ?thesis unfolding r(4)
    by (elim conjE, intro conjI) (simp_all add: fold_update_True range_order_set [OF ord])
qed

lemma cluster_parents_spec:
  assumes ord: "range_order ord" and run: "fold (cluster_parent_step ord names) cpes (tg, r) = (tg', r')"
  shows "index_gains (\<Union> (listed ` set cpes)) names r r' \<and>
    tg_pods tg' = tg_pods tg @ concat (map (cluster_local_pods r) cpes) \<and>
    fst ` set (tg_identifiers tg') = fst ` set (tg_identifiers tg) \<union> pod_identifier ` set (concat (map (cluster_local_pods r) cpes)) \<and>
    set (tg_list tg') = set (tg_list tg) \<union> pod_identifier ` set (concat (map (cluster_local_pods r) cpes)) \<and>
    (set (map snd (tg_identifiers tg)) \<subseteq> {True} \<longrightarrow> set (map snd (tg_identifiers tg')) \<subseteq> {True})"
  using run
proof (induction cpes arbitrary: tg r)
  case (Cons cpe cpes)
  obtain tg1 r1 where t: "cluster_parent_step ord names cpe (tg, r) = (tg1, r1)" by (metis surj_pair)
  note s = cluster_parent_step_spec [OF ord t]
  have sel: "cluster_local_pods r1 = cluster_local_pods r"
    using conjunct1 [OF s] by (auto simp: index_gains_def cluster_local_pods_def cluster_selects_def [abs_def] fun_eq_iff)
  have "fold (cluster_parent_step ord names) cpes (tg1, r1) = (tg', r')" using Cons.prems t by simp
  note i = Cons.IH [OF this, unfolded sel]
  have "index_gains (listed cpe \<union> \<Union> (listed ` set cpes)) names r r'"
    by (rule index_gains_trans [OF conjunct1 [OF s] conjunct1 [OF i]])
  with s i show ?case by (elim conjE, intro conjI) (auto simp: Un_assoc image_Un)
qed simp

lemma lo_Uniq_set [simp]: "set (lo_Uniq xs) = set xs"
  unfolding lo_Uniq_def append_new_set by simp

lemma scrub_index_spec:
  "index_rel (podIdentifierToClusterPolicyEndpointMap (scrub_index names ids r)) =
     index_rel (podIdentifierToClusterPolicyEndpointMap r) - set ids \<times> set names"
  "(\<forall>i. podIdentifierToClusterPolicyEndpointMap r i \<noteq> Some []) \<Longrightarrow> podIdentifierToClusterPolicyEndpointMap (scrub_index names ids r) j \<noteq> Some []"
proof -
  let ?d = "\<lambda>n m. fold (\<lambda>sid m. DeletePolicyEndpointFromPodIdentifierMap m sid n) ids m"
  have r1: "index_rel (?d n m) = index_rel m - set ids \<times> {n}" for n m
  proof (induction ids arbitrary: m)
    case (Cons i ids)
    then show ?case using index_rel_step [of "DelPE i n" m] by (auto simp: Cons)
  qed simp
  have "index_rel (fold ?d names m) = index_rel m - set ids \<times> set names" for m
    by (induction names arbitrary: m) (auto simp: r1)
  then show "index_rel (podIdentifierToClusterPolicyEndpointMap (scrub_index names ids r)) =
      index_rel (podIdentifierToClusterPolicyEndpointMap r) - set ids \<times> set names" by (simp add: scrub_index_def)
  have "\<forall>i. m i \<noteq> Some [] \<Longrightarrow> \<forall>i. DeletePolicyEndpointFromPodIdentifierMap m sid n i \<noteq> Some []" for m sid n
    by (auto simp: DeletePolicyEndpointFromPodIdentifierMap_def Let_def split: option.splits)
  then have "\<forall>i. m i \<noteq> Some [] \<Longrightarrow> \<forall>i. ?d n m i \<noteq> Some []" for n m by (induction ids arbitrary: m) simp_all
  then have "\<forall>i. m i \<noteq> Some [] \<Longrightarrow> \<forall>i. fold ?d names m i \<noteq> Some []" for m by (induction names arbitrary: m) simp_all
  then show "(\<forall>i. podIdentifierToClusterPolicyEndpointMap r i \<noteq> Some []) \<Longrightarrow>
      podIdentifierToClusterPolicyEndpointMap (scrub_index names ids r) j \<noteq> Some []" by (simp add: scrub_index_def)
qed

lemma scrub_index_fields [simp]:
  "cr_nodeIP (scrub_index names ids r) = cr_nodeIP r"
  "ClusterPolicyEndpointSelectorMap (scrub_index names ids r) = ClusterPolicyEndpointSelectorMap r"
  "clusterNetworkPolicyToPodIdentifierMap (scrub_index names ids r) = clusterNetworkPolicyToPodIdentifierMap r"
  by (simp_all add: scrub_index_def)

text \<open>The pods the reconciler remembers under a name.\<close>

definition tracked :: "ClusterPolicyEndpointsReconciler \<Rightarrow> string \<Rightarrow> Pod set" where
  "tracked r name = (case ClusterPolicyEndpointSelectorMap r name of None \<Rightarrow> {} | Some ps \<Rightarrow> set ps)"

lemma map_of_all_True: "set (map snd m) \<subseteq> {True} \<Longrightarrow> map_of m i = Some True \<longleftrightarrow> i \<in> fst ` set m"
  by (induction m) auto

lemma cluster_derive_targets:
  assumes ord: "range_order ord" and cpes: "getClusterPolicyEndpointsOfParentCNP k8s cnp = Inr cpes"
    and par: "GetParentNPNameFromPEName res = Inr parent"
    and run: "deriveTargetPodsForParentCNP k8s ord cnp res r = (Inr (Inr (pods, ids, cleaned, names)), r')"
  shows "pods = concat (map (cluster_local_pods r) cpes) \<and> fst ` set ids = pod_identifier ` set pods \<and>
    names = (if cpes = [] then [res] else map cpe_Name cpes) \<and>
    set cleaned = {p \<in> \<Union> (tracked r ` set (res # names)). pod_identifier p \<notin> pod_identifier ` set pods} \<and>
    (\<exists>m. r' = r\<lparr>podIdentifierToClusterPolicyEndpointMap := m\<rparr> \<and>
       index_rel m = (index_rel (podIdentifierToClusterPolicyEndpointMap r) \<union> \<Union> (listed ` set cpes) \<times> set names) -
         (set (case clusterNetworkPolicyToPodIdentifierMap r parent of None \<Rightarrow> [] | Some old \<Rightarrow> old) - pod_identifier ` set pods) \<times> set names \<and>
       ((\<forall>i. podIdentifierToClusterPolicyEndpointMap r i \<noteq> Some []) \<longrightarrow> (\<forall>i. m i \<noteq> Some [])))"
proof -
  let ?names = "if length cpes = 0 then [res] else map cpe_Name cpes"
  obtain tg r1 where f: "fold (cluster_parent_step ord ?names) cpes (\<lparr>tg_pods = [], tg_identifiers = [], tg_list = []\<rparr>, r) = (tg, r1)"
    by (metis surj_pair)
  note s = cluster_parents_spec [OF ord f, simplified]
  obtain m where m: "r1 = r\<lparr>podIdentifierToClusterPolicyEndpointMap := m\<rparr>"
    "index_rel m = index_rel (podIdentifierToClusterPolicyEndpointMap r) \<union> \<Union> (listed ` set cpes) \<times> set ?names"
    "(\<forall>i. podIdentifierToClusterPolicyEndpointMap r i \<noteq> Some []) \<longrightarrow> (\<forall>i. m i \<noteq> Some [])"
    using conjunct1 [OF s] unfolding index_gains_def by (auto split: if_splits)
  obtain stale where st: "DeriveStalePodIdentifiers (clusterNetworkPolicyToPodIdentifierMap r1) res (tg_list tg) = Inr stale"
    by (auto simp: DeriveStalePodIdentifiers_def par)
  have stale: "set stale = set (case clusterNetworkPolicyToPodIdentifierMap r parent of None \<Rightarrow> [] | Some old \<Rightarrow> old) -
      pod_identifier ` set (tg_pods tg)"
    using DeriveStalePodIdentifiers_set [OF st par] m(1) s by simp
  let ?cur = "lo_Uniq (concat (map (\<lambda>cpeName. case ClusterPolicyEndpointSelectorMap r1 cpeName of None \<Rightarrow> [] | Some existingPods \<Rightarrow> existingPods)
                         (lo_Uniq (res # ?names))))"
  have cur: "set ?cur = \<Union> (tracked r ` set (res # ?names))"
  proof -
    have "set (case ClusterPolicyEndpointSelectorMap r1 n of None \<Rightarrow> [] | Some existingPods \<Rightarrow> existingPods) = tracked r n" for n
      by (simp add: m(1) tracked_def split: option.splits)
    then show ?thesis by simp
  qed
  have res: "pods = tg_pods tg" "ids = tg_identifiers tg" "names = ?names" "r' = scrub_index ?names stale r1"
      "cleaned = (if 0 < length ?cur then GetPodListToBeCleanedUp ?cur (tg_pods tg) (map_of (tg_identifiers tg)) else [])"
    using run cpes f st unfolding deriveTargetPodsForParentCNP_def by (auto simp: Let_def)
  have true: "map_of ids i = Some True \<longleftrightarrow> i \<in> fst ` set ids" for i
    by (rule map_of_all_True) (use s res(2) in simp)
  have ids: "fst ` set ids = pod_identifier ` set pods" using s unfolding res(1, 2) by simp
  have "set (if 0 < length c then GetPodListToBeCleanedUp c pods (map_of ids) else []) =
      {p \<in> set c. p \<notin> set pods \<and> pod_identifier p \<notin> pod_identifier ` set pods}" for c
    using true ids by (auto simp: GetPodListToBeCleanedUp_set pod_identifier_def [symmetric])
  then have cl: "set cleaned = {p \<in> set ?cur. pod_identifier p \<notin> pod_identifier ` set pods}"
    unfolding res(5) res(1, 2) [symmetric] by blast
  have "\<exists>m'. r' = r\<lparr>podIdentifierToClusterPolicyEndpointMap := m'\<rparr> \<and>
       index_rel m' = index_rel m - set stale \<times> set names \<and>
       ((\<forall>i. podIdentifierToClusterPolicyEndpointMap r i \<noteq> Some []) \<longrightarrow> (\<forall>i. m' i \<noteq> Some []))"
  proof (intro exI conjI impI)
    show "r' = r\<lparr>podIdentifierToClusterPolicyEndpointMap := podIdentifierToClusterPolicyEndpointMap r'\<rparr>"
      by (simp add: res(4) m(1) scrub_index_def)
    show "index_rel (podIdentifierToClusterPolicyEndpointMap r') = index_rel m - set stale \<times> set names"
      unfolding res(3, 4) scrub_index_spec(1) by (simp add: m(1))
    show "\<forall>i. podIdentifierToClusterPolicyEndpointMap r' i \<noteq> Some []" if "\<forall>i. podIdentifierToClusterPolicyEndpointMap r i \<noteq> Some []"
      unfolding res(4) using scrub_index_spec(2) [of r1] m(1, 3) that by simp
  qed
  with s cl ids show ?thesis unfolding cur m(2) stale res(3) res(1) [symmetric] by simp
qed

section \<open>A whole reconcile\<close>

text \<open>Kubernetes names have no underscore, and the ranges visit every entry once.\<close>

definition cluster_api_ok :: "cluster_api \<Rightarrow> bool" where
  "cluster_api_ok k8s \<longleftrightarrow> (\<forall>items. List_CPE k8s = Inr items \<longrightarrow>
     (\<forall>cpe \<in> set items. \<forall>p \<in> set (cpes_PodSelectorEndpoints (cpe_Spec cpe)). CHR ''_'' \<notin> set (pep_Namespace p)))"

definition cluster_env_ok :: "'k cluster_env \<Rightarrow> bool" where
  "cluster_env_ok ce \<longleftrightarrow> cluster_api_ok (ce_k8s ce) \<and> orders_range (ce_orders ce) \<and> range_order (ce_targets ce) \<and>
     range_order (ce_commit ce) \<and> range_order (ce_program ce)"

lemma derive_targets_parts:
  assumes "deriveTargetPodsForParentCNP k8s ord cnp res r = (Inr (Inr t), r')"
  obtains cpes parent where "getClusterPolicyEndpointsOfParentCNP k8s cnp = Inr cpes" "GetParentNPNameFromPEName res = Inr parent"
  using assms
  by (auto simp: deriveTargetPodsForParentCNP_def DeriveStalePodIdentifiers_def Let_def split: sum.splits prod.splits)

lemma cluster_targets_pod_ok:
  assumes ok: "cluster_api_ok k8s" and ord: "range_order ord"
    and run: "deriveTargetPodsForParentCNP k8s ord cnp res r = (Inr (Inr (pods, ids, cleaned, names)), r')"
  shows "\<forall>p \<in> set pods. pod_ok p"
proof -
  obtain cpes parent where c: "getClusterPolicyEndpointsOfParentCNP k8s cnp = Inr cpes" and p: "GetParentNPNameFromPEName res = Inr parent"
    using derive_targets_parts [OF run] .
  have "pods = concat (map (cluster_local_pods r) cpes)" using cluster_derive_targets [OF ord c p run] by blast
  moreover have "pod_ok q" if "cpe \<in> set cpes" "q \<in> set (cluster_local_pods r cpe)" for cpe q
    using that c ok
    by (auto simp: getClusterPolicyEndpointsOfParentCNP_def cluster_api_ok_def cluster_local_pods_def to_pod_def pod_ok_def split: sum.splits)
  ultimately show ?thesis by auto
qed

context cp_effect
begin

lemma reconcileClusterPolicyEndpoint_effect:
  assumes ok: "cluster_env_ok ce" and env: "ce_bpf ce = env"
    and run: "reconcileClusterPolicyEndpoint ce cpe r s = (res, r', s')"
  shows "R s s'"
proof -
  have os: "orders_range (ce_orders ce)" using ok by (simp add: cluster_env_ok_def)
  obtain a r1 where d: "deriveTargetPodsForParentCNP (ce_k8s ce) (ce_targets ce) (cref_Name (cpes_PolicyRef (cpe_Spec cpe)))
      (cpe_Name cpe) r = (a, r1)" by (metis surj_pair)
  show ?thesis
  proof (cases "\<exists>t. a = Inr (Inr t)")
    case True
    then obtain pods ids cl names where t: "a = Inr (Inr (pods, ids, cl, names))" by (metis prod_cases4)
    have po: "\<forall>p \<in> set pods. pod_ok p"
      using cluster_targets_pod_ok [OF _ _ d [unfolded t]] ok by (simp add: cluster_env_ok_def)
    obtain b s1 where u: "updateClusterPolicyEnforcementStatusForPods (ce_k8s ce) env (ce_orders ce) r1 (cpe_Name cpe) cl False s = (b, s1)"
      by (metis surj_pair)
    have 1: "R s s1" using updateStatus_effect [OF os, of s] u by (metis snd_conv)
    have 2: "R s s2" if "cluster_program_loop k8s env (ce_orders ce) r2 n pods is s1 = (c, s2)" for k8s r2 n "is" c s2
      using effect_trans [OF 1] program_loop_effect [OF os po, of s1] that by (metis snd_conv)
    from run d t u 1 2 env show ?thesis
      by (auto simp: reconcileClusterPolicyEndpoint_def Let_def split: sum.splits prod.splits option.splits)
  next
    case False
    with run d show ?thesis
      by (auto simp: reconcileClusterPolicyEndpoint_def Let_def effect_refl split: sum.splits prod.splits)
  qed
qed

lemma cleanUpClusterPolicyEndpoint_effect:
  assumes os: "orders_range (ce_orders ce)" and env: "ce_bpf ce = env"
    and run: "cleanUpClusterPolicyEndpoint ce name r s = (res, r', s')"
  shows "R s s'"
proof -
  have 1: "updateClusterPolicyEnforcementStatusForPods k8s (ce_bpf ce) (ce_orders ce) r2 n ps isDel s0 = (b, s1) \<Longrightarrow> R s0 s1"
    for k8s r2 n ps isDel s0 b s1 unfolding env using updateStatus_effect [OF os, of s0] by (metis snd_conv)
  from run show ?thesis
    unfolding cleanUpClusterPolicyEndpoint_def
    by (auto simp: Let_def effect_refl dest!: 1 intro: effect_trans split: sum.splits prod.splits option.splits)
qed

lemma cluster_reconcile_effect:
  assumes "cluster_env_ok ce" "ce_bpf ce = env" and run: "cluster_reconcile ce name r s = (res, r', s')"
  shows "R s s'"
proof -
  have os: "orders_range (ce_orders ce)" using assms(1) by (simp add: cluster_env_ok_def)
  from run cleanUpClusterPolicyEndpoint_effect [OF os assms(2)] reconcileClusterPolicyEndpoint_effect [OF assms(1, 2)]
  show ?thesis unfolding cluster_reconcile_def by (auto simp: effect_refl split: sum.splits api_err.splits if_splits)
qed

end

section \<open>Theorems\<close>

text \<open>C25: The cluster rules of an identifier are those of the cluster policy endpoints in the index that
  the API has, in order, each with the priority of its endpoint (shifted by 2000 in the baseline tier),
  except that a delete flow leaves out those of the deleted cluster policy. This is when the identifier is
  in the index, the API answers without an error other than that an endpoint is not found, and in a delete
  flow every endpoint has the name of its policy before a hyphen, as the controller names them.\<close>
theorem cluster_derived_rules:
  assumes "podIdentifierToClusterPolicyEndpointMap r i = Some names"
    and "isDel \<longrightarrow> has_parent res \<and> (\<forall>n \<in> set names. has_parent n)"
    and "\<forall>n \<in> set names. \<forall>e. Get_CPE k8s n \<noteq> Inl (ApiErr e)"
  defines "cpes \<equiv> found_cpes k8s (filter (counted res isDel) names)"
  shows "deriveClusterPolicyIngressAndEgressFirewallRules k8s r i res isDel =
      Inr (Inr (cluster_ingress_rules cpes, cluster_egress_rules cpes)) \<and>
    (\<forall>rule \<in> set (cluster_ingress_rules cpes @ cluster_egress_rules cpes). \<exists>cpe \<in> set cpes.
       fr_Priority rule = sint (cpes_Priority (cpe_Spec cpe)) + (if cpes_Tier (cpe_Spec cpe) = ''Baseline'' then 2000 else 0))"
proof
  show "deriveClusterPolicyIngressAndEgressFirewallRules k8s r i res isDel =
      Inr (Inr (cluster_ingress_rules cpes, cluster_egress_rules cpes))"
    using assms(1) cluster_derive_loop_fold [OF assms(2, 3), of "([], [])", folded cpes_def]
    by (simp add: deriveClusterPolicyIngressAndEgressFirewallRules_def fold_add_cpe)
  have "cluster_priority cpe = sint (cpes_Priority (cpe_Spec cpe)) + (if cpes_Tier (cpe_Spec cpe) = ''Baseline'' then 2000 else 0)" for cpe
    by (simp add: cluster_priority_def BaselineTier_def BASELINE_TIER_PRIORITY_OFFSET_def)
  then show "\<forall>rule \<in> set (cluster_ingress_rules cpes @ cluster_egress_rules cpes). \<exists>cpe \<in> set cpes.
       fr_Priority rule = sint (cpes_Priority (cpe_Spec cpe)) + (if cpes_Tier (cpe_Spec cpe) = ''Baseline'' then 2000 else 0)"
    by (auto simp: cluster_ingress_rules_def cluster_egress_rules_def cluster_ingress_rule_def cluster_egress_rule_def)
qed

lemma updateClusterPolicyBPFMaps_in_force:
  assumes "env_laws env kv" "client_inv kv l k" "orders_range os"
    and "updateClusterPolicyBPFMaps env os i ing eg (l, k) = (Inr [], l', k')"
  shows "cluster_in_force kv os l' k' i (\<lambda>d. case d of Ingress \<Rightarrow> ing | Egress \<Rightarrow> eg) (cluster_state ing eg)"
  using cp_tier.program_in_force [OF assms(1-3) assms(4) [unfolded updateClusterPolicyBPFMaps_tier]] by (simp add: cluster_in_force_def)

text \<open>C23: Cleaning up a pod of a cluster policy, when it reports no error: an identifier without
  programs on this node is left alone; otherwise the rules that remain for it are in force, none at all
  when the index no longer has it, and the state says that policies are applied exactly when there is a
  rule. In force means that the maps hold the entries of these rules and that every other entry left in
  them is one whose deletion the kernel has refused, a failure the code skips without an error.\<close>
theorem cluster_cleanup_outcome:
  assumes laws: "env_laws env kv" and reach: "client_reachable env l k" and os: "orders_range os"
    and run: "cleanupClusterPolicyPod k8s env os r pod name isDel (l, k) = (Inr [], l', k')"
  defines "i \<equiv> pod_identifier pod"
  shows "if policyEndpointeBPFContext l i = None then l' = l \<and> k' = k
    else \<exists>ing eg. (if podIdentifierToClusterPolicyEndpointMap r i = None then ing = [] \<and> eg = []
           else deriveClusterPolicyIngressAndEgressFirewallRules k8s r i name isDel = Inr (Inr (ing, eg))) \<and>
         cluster_in_force kv os l' k' i (\<lambda>d. case d of Ingress \<Rightarrow> ing | Egress \<Rightarrow> eg)
           (if ing = [] \<and> eg = [] then STATE_DEFAULT_ALLOW else STATE_POLICIES_APPLIED)"
proof -
  note f = updateClusterPolicyBPFMaps_in_force [OF laws client_reachable_inv [OF laws reach] os, unfolded cluster_state_def length_0_conv]
  note run = run [unfolded cleanupClusterPolicyPod_def i_def [symmetric] Let_def HasBPFContext_def fst_conv]
  show ?thesis
  proof (cases "policyEndpointeBPFContext l i = None")
    case False
    show ?thesis
    proof (cases "podIdentifierToClusterPolicyEndpointMap r i")
      case None
      then have "updateClusterPolicyBPFMaps env os i [] [] (l, k) = (Inr [], l', k')" using run False by simp
      with False None f [OF this] show ?thesis by (intro if_not_P [THEN iffD2]) simp_all
    next
      case (Some names)
      then obtain ing eg where d: "deriveClusterPolicyIngressAndEgressFirewallRules k8s r i name isDel = Inr (Inr (ing, eg))"
        and u: "updateClusterPolicyBPFMaps env os i ing eg (l, k) = (Inr [], l', k')"
        using run False by (auto split: sum.splits)
      from f [OF u] d False Some show ?thesis by auto
    qed
  qed (use run in simp)
qed

text \<open>A pod that no cluster policy selects any more is released: when a policy's endpoints stop listing
  the pods of an identifier that only this policy selected, deriving the targets takes the identifier
  out of the index and hands its tracked pods to the cleanup, and a cleanup that reports no error leaves
  the identifier with no cluster rules and the default state.\<close>
theorem cluster_unselected_pod_released:
  assumes laws: "env_laws env kv" and reach: "client_reachable env l k" and os: "orders_range os"
    and ord: "range_order ord" and par: "GetParentNPNameFromPEName res = Inr parent"
    and full: "\<forall>i. podIdentifierToClusterPolicyEndpointMap r i \<noteq> Some []"
    and run: "deriveTargetPodsForParentCNP k8s ord cnp res r = (Inr (Inr (pods, ids, cleaned, names)), r')"
    and tracked: "p \<in> tracked r res" "clusterNetworkPolicyToPodIdentifierMap r parent = Some old" "pod_identifier p \<in> set old"
    and only: "set (policies_of (podIdentifierToClusterPolicyEndpointMap r) (pod_identifier p)) \<subseteq> set names"
    and gone: "pod_identifier p \<notin> pod_identifier ` set pods"
    and attached: "policyEndpointeBPFContext l (pod_identifier p) \<noteq> None"
  shows "p \<in> set cleaned \<and> podIdentifierToClusterPolicyEndpointMap r' (pod_identifier p) = None \<and>
    (\<forall>name isDel l' k'. cleanupClusterPolicyPod k8s env os r' p name isDel (l, k) = (Inr [], l', k') \<longrightarrow>
       cluster_in_force kv os l' k' (pod_identifier p) (\<lambda>_. []) STATE_DEFAULT_ALLOW)"
proof -
  obtain cpes where c: "getClusterPolicyEndpointsOfParentCNP k8s cnp = Inr cpes" using derive_targets_parts [OF run] by blast
  note s = cluster_derive_targets [OF ord c par run]
  obtain m where m: "r' = r\<lparr>podIdentifierToClusterPolicyEndpointMap := m\<rparr>"
    "index_rel m = (index_rel (podIdentifierToClusterPolicyEndpointMap r) \<union> \<Union> (listed ` set cpes) \<times> set names) -
       (set old - pod_identifier ` set pods) \<times> set names" "\<forall>i. m i \<noteq> Some []"
    using s full tracked(2) by auto
  have "n \<notin> set (policies_of m (pod_identifier p))" for n
  proof
    assume "n \<in> set (policies_of m (pod_identifier p))"
    then have x: "(pod_identifier p, n) \<in> index_rel m" by (simp add: index_rel_def)
    then have "n \<in> set names" using only unfolding m(2) by (auto simp: index_rel_def)
    with x tracked(3) gone show False unfolding m(2) by blast
  qed
  then have "m (pod_identifier p) = None" using m(3) by (cases "m (pod_identifier p)") (auto simp: policies_of_def, metis list.set_intros(1) neq_Nil_conv)
  then have none: "podIdentifierToClusterPolicyEndpointMap r' (pod_identifier p) = None" by (simp add: m(1))
  have e: "(\<lambda>d. case d of Ingress \<Rightarrow> [] | Egress \<Rightarrow> []) = (\<lambda>_. [])" by (auto simp: fun_eq_iff split: dir.splits)
  have "cluster_in_force kv os l' k' (pod_identifier p) (\<lambda>_. []) STATE_DEFAULT_ALLOW"
    if "cleanupClusterPolicyPod k8s env os r' p name isDel (l, k) = (Inr [], l', k')" for name isDel l' k'
    using updateClusterPolicyBPFMaps_in_force [OF laws client_reachable_inv [OF laws reach] os, of "pod_identifier p" "[]" "[]" l' k', unfolded e]
      that none attached by (auto simp: cleanupClusterPolicyPod_def HasBPFContext_def cluster_state_def)
  moreover have "p \<in> set cleaned" using s tracked(1) gone by auto
  ultimately show ?thesis using none by blast
qed

text \<open>C24: A failed List never clears rules: whatever is reconciled, if the endpoints cannot be listed the
  request returns the error, no map or program is touched, and the reconciler keeps everything it
  tracks (it only forgets the trigger time of a deleted endpoint). The endpoint itself is named after its
  policy, with a hyphen, and can be read or is not found; an error there ends the request before the List.\<close>
theorem cluster_list_failure:
  assumes "List_CPE (ce_k8s ce) = Inl e" and "has_parent name" and "\<And>e'. Get_CPE (ce_k8s ce) name \<noteq> Inl (ApiErr e')"
  shows "\<exists>t. cluster_reconcile ce name r s = (Inr [e], r\<lparr>cr_lastObservedTriggerTimes := t\<rparr>, s)"
proof -
  have d: "deriveTargetPodsForParentCNP (ce_k8s ce) ord cnp res r0 = (Inr (Inl e), r0)" for ord cnp res r0
    using assms(1) by (simp add: deriveTargetPodsForParentCNP_def getClusterPolicyEndpointsOfParentCNP_def)
  have c: "cleanUpClusterPolicyEndpoint ce name r s =
      (Inr [e], r\<lparr>cr_lastObservedTriggerTimes := (cr_lastObservedTriggerTimes r)(name := None)\<rparr>, s)"
    using has_parent_Inr [OF assms(2)] by (auto simp: cleanUpClusterPolicyEndpoint_def d Let_def)
  have "\<exists>t. r = r\<lparr>cr_lastObservedTriggerTimes := t\<rparr>" by (rule exI [of _ "cr_lastObservedTriggerTimes r"]) simp
  moreover have "reconcileClusterPolicyEndpoint ce cpe r s = (Inr [e], r, s)" for cpe
    by (simp add: reconcileClusterPolicyEndpoint_def d Let_def)
  ultimately show ?thesis
    using assms(3) c unfolding cluster_reconcile_def by (auto split: sum.splits api_err.splits)
qed

lemma failed_subset:
  "updateClusterPolicyEnforcementStatusForPods k8s env os r name pods isDel s = (Inr (failed, err), s') \<Longrightarrow>
     set failed \<subseteq> set pods \<and> (failed = [] \<longleftrightarrow> err = [])"
  by (induction pods arbitrary: s failed err) (fastforce split: prod.splits sum.splits if_splits)+

lemma commit_spec:
  assumes ord: "range_order ord" and run: "commitClusterPolicyEndpointState ord res pods ids names r = (None, r')"
  shows "(\<forall>n \<in> set names. ClusterPolicyEndpointSelectorMap r' n = (if pods = [] then None else Some pods)) \<and>
    (\<exists>parent. GetParentNPNameFromPEName res = Inr parent \<and>
       set (case clusterNetworkPolicyToPodIdentifierMap r' parent of None \<Rightarrow> [] | Some old \<Rightarrow> old) = fst ` set ids)"
proof -
  have "fold (\<lambda>n m. m(n := v)) names m x = (if x \<in> set names then v else m x)" for v :: "Pod list option" and m x
    by (induction names arbitrary: m) auto
  moreover obtain parent where "GetParentNPNameFromPEName res = Inr parent"
    using run by (auto simp: commitClusterPolicyEndpointState_def Let_def split: sum.splits)
  moreover from this run have "r' = r\<lparr>ClusterPolicyEndpointSelectorMap :=
      fold (\<lambda>n m. m(n := (if pods = [] then None else Some pods))) names (ClusterPolicyEndpointSelectorMap r),
      clusterNetworkPolicyToPodIdentifierMap := (clusterNetworkPolicyToPodIdentifierMap r)(parent :=
        (if ids = [] then None else Some (map fst (ord ids))))\<rparr>"
    by (simp add: commitClusterPolicyEndpointState_def Let_def split: if_splits)
  ultimately show ?thesis using range_order_set [OF ord, of ids] by simp
qed

lemma track_failed_keys: "fst ` set (track_failed failed ids) = fst ` set ids \<union> pod_identifier ` set failed"
  unfolding track_failed_def by (induction failed arbitrary: ids) (simp_all add: keys_update)

lemma observe_fields [simp]:
  "ClusterPolicyEndpointSelectorMap (observeClusterPolicyProgrammingLatency pt now cpe ok r) = ClusterPolicyEndpointSelectorMap r"
  "clusterNetworkPolicyToPodIdentifierMap (observeClusterPolicyProgrammingLatency pt now cpe ok r) = clusterNetworkPolicyToPodIdentifierMap r"
  by (simp_all add: observeClusterPolicyProgrammingLatency_def Let_def split: option.splits)

text \<open>C22: No failed cleanup is lost: when the cleanup of a pod fails while an endpoint is reconciled, the
  pod is still tracked afterwards, under every endpoint of the policy and with its identifier under the
  policy, so whatever the API says by then the next derivation for one of these endpoints either selects
  the pod's identifier again or hands the pod to the cleanup again.\<close>
theorem failed_cleanup_retried:
  assumes ok: "cluster_env_ok ce"
    and d: "deriveTargetPodsForParentCNP (ce_k8s ce) (ce_targets ce) (cref_Name (cpes_PolicyRef (cpe_Spec cpe))) (cpe_Name cpe) r =
      (Inr (Inr (pods, ids, cleaned, names)), r1)"
    and u: "updateClusterPolicyEnforcementStatusForPods (ce_k8s ce) (ce_bpf ce) (ce_orders ce) r1 (cpe_Name cpe) cleaned False s =
      (Inr (failed, err), s1)"
    and run: "reconcileClusterPolicyEndpoint ce cpe r s = (Inr errs, r', s')"
    and p: "p \<in> set failed" and n: "n \<in> set names"
    and again: "range_order ord" "deriveTargetPodsForParentCNP k8s ord cnp n r' = (Inr (Inr (pods', ids', cleaned', names')), r'')"
  shows "errs \<noteq> [] \<and> p \<in> tracked r' n \<and>
    (\<exists>parent old. GetParentNPNameFromPEName (cpe_Name cpe) = Inr parent \<and>
       clusterNetworkPolicyToPodIdentifierMap r' parent = Some old \<and> pod_identifier p \<in> set old) \<and>
    (pod_identifier p \<in> pod_identifier ` set pods' \<or> p \<in> set cleaned')"
proof -
  obtain r2 where c: "commitClusterPolicyEndpointState (ce_commit ce) (cpe_Name cpe) (pods @ failed) (track_failed failed ids) names r1 = (None, r2)"
    and sel: "ClusterPolicyEndpointSelectorMap r' = ClusterPolicyEndpointSelectorMap r2"
      "clusterNetworkPolicyToPodIdentifierMap r' = clusterNetworkPolicyToPodIdentifierMap r2" and e: "\<exists>e'. errs = err @ e'"
    using run d u by (auto simp: reconcileClusterPolicyEndpoint_def Let_def split: sum.splits prod.splits option.splits if_splits)
  have ord: "range_order (ce_commit ce)" using ok by (simp add: cluster_env_ok_def)
  note s = commit_spec [OF ord c]
  have "pods @ failed \<noteq> []" using p by auto
  then have t: "p \<in> tracked r' n" using s n p by (auto simp: tracked_def sel)
  obtain parent where par: "GetParentNPNameFromPEName (cpe_Name cpe) = Inr parent"
    and old: "set (case clusterNetworkPolicyToPodIdentifierMap r2 parent of None \<Rightarrow> [] | Some old \<Rightarrow> old) = fst ` set (track_failed failed ids)"
    using s by blast
  have "pod_identifier p \<in> set (case clusterNetworkPolicyToPodIdentifierMap r' parent of None \<Rightarrow> [] | Some old \<Rightarrow> old)"
    unfolding sel(2) old track_failed_keys using p by blast
  then obtain old' where o: "clusterNetworkPolicyToPodIdentifierMap r' parent = Some old'" "pod_identifier p \<in> set old'"
    by (cases "clusterNetworkPolicyToPodIdentifierMap r' parent") auto
  obtain cpes' parent' where "getClusterPolicyEndpointsOfParentCNP k8s cnp = Inr cpes'" "GetParentNPNameFromPEName n = Inr parent'"
    using derive_targets_parts [OF again(2)] .
  from cluster_derive_targets [OF again(1) this again(2)] t
  have "pod_identifier p \<in> pod_identifier ` set pods' \<or> p \<in> set cleaned'" by auto
  moreover have "errs \<noteq> []" using e failed_subset [OF u] p by auto
  ultimately show ?thesis using t par o by blast
qed

section \<open>An example\<close>

text \<open>A cluster policy of the baseline tier that denies a network to the pod of the client's example
  state, or to no pod, beside a policy whose endpoint the API fails to return.\<close>

definition example_cpe :: "PodEndpoint list \<Rightarrow> ClusterPolicyEndpoint" where
  "example_cpe pods = \<lparr>cpe_Name = ''adm-x1'', cpe_Annotations = (\<lambda>_. None), cpe_Deleting = False,
     cpe_Spec = \<lparr>cpes_PolicyRef = \<lparr>cref_Name = ''adm''\<rparr>, cpes_Tier = ''Baseline'', cpes_Priority = 10,
       cpes_PodSelectorEndpoints = pods,
       cpes_Ingress = [\<lparr>cei_CIDR = ''10.9.0.0/16'', cei_Ports = [], cei_DomainName = [], cei_Action = ''Deny''\<rparr>], cpes_Egress = []\<rparr>\<rparr>"

definition example_cluster_api :: "PodEndpoint list \<Rightarrow> cluster_api" where
  "example_cluster_api pods = \<lparr>Get_CPE = (\<lambda>n. if n = ''adm-x1'' then Inr (example_cpe pods)
     else if n = ''oth-x1'' then Inl (ApiErr ''timeout'') else Inl NotFound), List_CPE = Inr [example_cpe pods]\<rparr>"

definition example_cluster_env :: "cluster_api \<Rightarrow> sim_kernel cluster_env" where
  "example_cluster_env k8s = \<lparr>ce_k8s = k8s, ce_bpf = sim_env, ce_orders = example_go_orders, ce_targets = rev, ce_commit = rev,
     ce_program = rev, ce_parseTime = (\<lambda>_. None), ce_now = 0\<rparr>"

definition example_cluster_reconciler :: "string list \<Rightarrow> ClusterPolicyEndpointsReconciler" where
  "example_cluster_reconciler names = (NewClusterPolicyEndpointsReconciler ''10.0.0.1'' 0)
     \<lparr>podIdentifierToClusterPolicyEndpointMap := [''web-7d@shop'' \<mapsto> names],
      ClusterPolicyEndpointSelectorMap := [''adm-x1'' \<mapsto> [to_pod example_endpoint]],
      clusterNetworkPolicyToPodIdentifierMap := [''adm'' \<mapsto> [''web-7d@shop'']]\<rparr>"

lemma example_cluster_env_ok: "cluster_env_ok (example_cluster_env (example_cluster_api pods)) \<longleftrightarrow>
    (\<forall>p \<in> set pods. CHR ''_'' \<notin> set (pep_Namespace p))"
  by (simp add: cluster_env_ok_def example_cluster_env_def cluster_api_ok_def example_cluster_api_def example_cpe_def
      example_go_orders_range range_order_rev)

theorem cluster_derived_rules_witness:
  "deriveClusterPolicyIngressAndEgressFirewallRules (example_cluster_api []) (example_cluster_reconciler [''adm-x1'']) ''web-7d@shop'' ''adm-x1'' False =
     Inr (Inr ([\<lparr>fr_Priority = 2010, fr_Action = ''Deny'', fr_DomainName = [], fr_IPCidr = ''10.9.0.0/16'', fr_Except = [], fr_L4Info = []\<rparr>], []))"
proof -
  have i: "podIdentifierToClusterPolicyEndpointMap (example_cluster_reconciler [''adm-x1'']) ''web-7d@shop'' = Some [''adm-x1'']"
    by (simp add: example_cluster_reconciler_def)
  have f: "found_cpes (example_cluster_api []) (filter (counted ''adm-x1'' False) [''adm-x1'']) = [example_cpe []]"
    by (simp add: found_cpes_def counted_def List.map_filter_simps example_cluster_api_def)
  have r: "cluster_ingress_rules [example_cpe []] =
      [\<lparr>fr_Priority = 2010, fr_Action = ''Deny'', fr_DomainName = [], fr_IPCidr = ''10.9.0.0/16'', fr_Except = [], fr_L4Info = []\<rparr>]"
      "cluster_egress_rules [example_cpe []] = []" by code_simp+
  show ?thesis
    using cluster_derived_rules [OF i, of False "''adm-x1''" "example_cluster_api []", unfolded f r]
    by (simp add: example_cluster_api_def)
qed

theorem cluster_cleanup_outcome_witness:
  "\<exists>l' k'. cleanupClusterPolicyPod (example_cluster_api []) sim_env example_go_orders (NewClusterPolicyEndpointsReconciler ''10.0.0.1'' 0)
      (to_pod example_endpoint) ''adm-x1'' False example_state = (Inr [], l', k') \<and>
     cluster_in_force sim_view example_go_orders l' k' ''web-7d@shop'' (\<lambda>d. case d of Ingress \<Rightarrow> [] | Egress \<Rightarrow> []) STATE_DEFAULT_ALLOW"
proof -
  let ?c = "cleanupClusterPolicyPod (example_cluster_api []) sim_env example_go_orders (NewClusterPolicyEndpointsReconciler ''10.0.0.1'' 0)
      (to_pod example_endpoint) ''adm-x1'' False"
  have "fst (?c example_state) = Inr []" by code_simp
  then obtain l' k' where r: "?c (fst example_state, snd example_state) = (Inr [], l', k')" by (cases "?c example_state") auto
  have i: "policyEndpointeBPFContext (fst example_state) ''web-7d@shop'' \<noteq> None" by code_simp
  have n: "podIdentifierToClusterPolicyEndpointMap (NewClusterPolicyEndpointsReconciler ''10.0.0.1'' 0) x = None" for x
    by (simp add: NewClusterPolicyEndpointsReconciler_def)
  from cluster_cleanup_outcome [OF sim_env_laws example_reachable example_go_orders_range r] r i show ?thesis
    by (simp add: example_identifier n)
qed

theorem cluster_unselected_pod_released_witness:
  "\<exists>pods ids cleaned names r' l' k'. deriveTargetPodsForParentCNP (example_cluster_api []) rev ''adm'' ''adm-x1''
       (example_cluster_reconciler [''adm-x1'']) = (Inr (Inr (pods, ids, cleaned, names)), r') \<and> to_pod example_endpoint \<in> set cleaned \<and>
     cleanupClusterPolicyPod (example_cluster_api []) sim_env example_go_orders r' (to_pod example_endpoint) ''adm-x1'' False example_state = (Inr [], l', k') \<and>
     cluster_in_force sim_view example_go_orders l' k' ''web-7d@shop'' (\<lambda>_. []) STATE_DEFAULT_ALLOW"
proof -
  let ?r = "example_cluster_reconciler [''adm-x1'']" and ?p = "to_pod example_endpoint"
  let ?d = "deriveTargetPodsForParentCNP (example_cluster_api []) rev ''adm'' ''adm-x1'' ?r"
  let ?c = "\<lambda>r. cleanupClusterPolicyPod (example_cluster_api []) sim_env example_go_orders r ?p ''adm-x1'' False"
  have f: "fst ?d = Inr (Inr ([], [], [?p], [''adm-x1'']))" by code_simp
  obtain r' where d: "?d = (Inr (Inr ([], [], [?p], [''adm-x1''])), r')" using f by (metis prod.collapse)
  have "fst (?c (snd ?d) example_state) = Inr []" by code_simp
  then obtain l' k' where c: "?c r' (fst example_state, snd example_state) = (Inr [], l', k')"
    using d by (cases "?c r' example_state") auto
  have par: "GetParentNPNameFromPEName ''adm-x1'' = Inr ''adm''" by code_simp
  have fields: "\<forall>i. podIdentifierToClusterPolicyEndpointMap ?r i \<noteq> Some []" "?p \<in> tracked ?r ''adm-x1''"
      "clusterNetworkPolicyToPodIdentifierMap ?r ''adm'' = Some [''web-7d@shop'']"
      "set (policies_of (podIdentifierToClusterPolicyEndpointMap ?r) ''web-7d@shop'') \<subseteq> set [''adm-x1'']"
    by (simp_all add: example_cluster_reconciler_def NewClusterPolicyEndpointsReconciler_def tracked_def policies_of_def)
  have i: "policyEndpointeBPFContext (fst example_state) ''web-7d@shop'' \<noteq> None" by code_simp
  note t = cluster_unselected_pod_released [OF sim_env_laws example_reachable example_go_orders_range range_order_rev par fields(1) d fields(2, 3),
      unfolded example_identifier, OF _ fields(4) _ i]
  have "cluster_in_force sim_view example_go_orders l' k' ''web-7d@shop'' (\<lambda>_. []) STATE_DEFAULT_ALLOW" using t c by auto
  with d c show ?thesis by auto
qed

theorem cluster_list_failure_witness:
  "\<exists>t. cluster_reconcile (example_cluster_env ((example_cluster_api [])\<lparr>List_CPE := Inl ''timeout''\<rparr>)) ''adm-x1''
     (example_cluster_reconciler [''adm-x1'']) example_state =
     (Inr [''timeout''], (example_cluster_reconciler [''adm-x1''])\<lparr>cr_lastObservedTriggerTimes := t\<rparr>, example_state)"
  by (rule cluster_list_failure) (simp_all add: example_cluster_env_def example_cluster_api_def has_parent_def)

theorem failed_cleanup_retried_witness:
  "\<exists>errs r' s' pods' ids' cleaned' names' r''.
     reconcileClusterPolicyEndpoint (example_cluster_env (example_cluster_api [])) (example_cpe [])
       (example_cluster_reconciler [''oth-x1'', ''adm-x1'']) example_state = (Inr errs, r', s') \<and> errs \<noteq> [] \<and>
     to_pod example_endpoint \<in> tracked r' ''adm-x1'' \<and>
     deriveTargetPodsForParentCNP (example_cluster_api []) rev ''adm'' ''adm-x1'' r' = (Inr (Inr (pods', ids', cleaned', names')), r'') \<and>
     to_pod example_endpoint \<in> set cleaned'"
proof -
  let ?ce = "example_cluster_env (example_cluster_api [])" and ?r = "example_cluster_reconciler [''oth-x1'', ''adm-x1'']"
  let ?p = "to_pod example_endpoint"
  let ?d = "deriveTargetPodsForParentCNP (example_cluster_api []) rev ''adm'' ''adm-x1''"
  let ?u = "\<lambda>r. updateClusterPolicyEnforcementStatusForPods (example_cluster_api []) sim_env example_go_orders r ''adm-x1'' [?p] False example_state"
  let ?t = "reconcileClusterPolicyEndpoint ?ce (example_cpe []) ?r example_state"
  have ce: "ce_k8s ?ce = example_cluster_api []" "ce_targets ?ce = rev" "ce_bpf ?ce = sim_env" "ce_orders ?ce = example_go_orders"
    by (simp_all add: example_cluster_env_def)
  have "fst (?d ?r) = Inr (Inr ([], [], [?p], [''adm-x1'']))" by code_simp
  then obtain r1 where d: "?d ?r = (Inr (Inr ([], [], [?p], [''adm-x1''])), r1)" by (metis prod.collapse)
  have "fst (?u (snd (?d ?r))) = Inr ([?p], [''timeout''])" by code_simp
  then obtain s1 where u: "?u r1 = (Inr ([?p], [''timeout'']), s1)" using d by (metis prod.collapse snd_conv)
  have "fst ?t = Inr [''timeout'']" by code_simp
  then obtain r' s' where t: "?t = (Inr [''timeout''], r', s')" by (metis prod.collapse)
  have "fst (?d (fst (snd ?t))) = Inr (Inr ([], [], [?p], [''adm-x1'']))" by code_simp
  then obtain r'' where a: "?d r' = (Inr (Inr ([], [], [?p], [''adm-x1''])), r'')" using t by (metis prod.collapse fst_conv snd_conv)
  have n: "cref_Name (cpes_PolicyRef (cpe_Spec (example_cpe []))) = ''adm''" "cpe_Name (example_cpe []) = ''adm-x1''"
    by (simp_all add: example_cpe_def)
  have ok: "cluster_env_ok ?ce" by (simp add: example_cluster_env_ok)
  note f = failed_cleanup_retried [where ce = ?ce and cpe = "example_cpe []" and r = ?r and s = example_state and p = ?p and n = "''adm-x1''",
      unfolded n ce, OF ok d u t _ _ range_order_rev a]
  have "?p \<in> tracked r' ''adm-x1''" using f by simp
  with t a show ?thesis by auto
qed

end
