(* ===== verification/RpcHandler.thy ===== *)
theory RpcHandler
  imports ClusterReconciler
begin

text \<open>
  \<^verbatim>\<open>pkg/rpc/rpc_handler.go\<close>: the calls of the CNI plugin for a new and for a deleted pod. A reply
  is its \<^verbatim>\<open>Success\<close> field, \<open>None\<close> for a nil reply; an error is the list of its joined messages.
  Both reconcilers hold the same eBPF client. The gRPC server itself is library code.
\<close>

section \<open>The handlers\<close>

record server =
  policyReconciler :: "PolicyEndpointsReconciler option"
  policyClientSet :: bool
  clusterPolicyReconciler :: "ClusterPolicyEndpointsReconciler option"
  clusterPolicyClientSet :: bool

record EnforceNpRequest =
  K8S_POD_NAME :: string
  K8S_POD_NAMESPACE :: string
  NETWORK_POLICY_MODE :: string
  InterfaceCount :: int32

type_synonym 's reply = "(go_panic + bool option \<times> string list) \<times> 's"

text \<open>The early return after a call: a panic ends the handler, an error is returned with a nil reply.\<close>

definition or_return :: "'s outcome \<Rightarrow> ('s \<Rightarrow> 's reply) \<Rightarrow> 's reply" where
  "or_return rs f = (case rs of
     (Inl p, s) \<Rightarrow> (Inl p, s)
   | (Inr err, s) \<Rightarrow> if err \<noteq> [] then (Inr (None, err), s) else f s)"

definition set_state :: "'k bpf_env \<Rightarrow> string \<Rightarrow> int \<Rightarrow> int \<Rightarrow> bpfClient \<times> 'k \<Rightarrow> (bpfClient \<times> 'k) outcome" where
  "set_state env podIdentifier key state s =
     (case UpdatePodStateEbpfMaps env podIdentifier key state True True (fst s) (snd s) of (e, k') \<Rightarrow> (Inr e, fst s, k'))"

definition set_states :: "'k bpf_env \<Rightarrow> string \<Rightarrow> int \<Rightarrow> int \<Rightarrow> bpfClient \<times> 'k \<Rightarrow> (bpfClient \<times> 'k) reply" where
  "set_states env podIdentifier podState clusterPolicyState s =
     or_return (set_state env podIdentifier POD_STATE_MAP_KEY podState s) (\<lambda>s.
     or_return (set_state env podIdentifier CLUSTER_POLICY_POD_STATE_MAP_KEY clusterPolicyState s) (\<lambda>s.
       (Inr (Some True, []), s)))"

text \<open>The maps of a pod that is the first of its identifier; errors of the derivations are dropped, with
  the empty rules that come with them.\<close>

definition program_policies ::
  "k8s_api \<Rightarrow> 'k bpf_env \<Rightarrow> go_orders \<Rightarrow> PolicyEndpointsReconciler \<Rightarrow> string \<Rightarrow> string \<Rightarrow> bpfClient \<times> 'k \<Rightarrow>
     (bpfClient \<times> 'k) outcome" where
  "program_policies k8s env os r podIdentifier namespace s =
     (if ArePoliciesAvailableInLocalCache r podIdentifier then
        (case DeriveFireWallRulesPerPodIdentifier k8s r podIdentifier namespace of
           Inl p \<Rightarrow> (Inl p, s)
         | Inr (ingressRules, egressRules) \<Rightarrow> UpdateEbpfMaps env os podIdentifier ingressRules egressRules (fst s) (snd s))
      else (Inr [], s))"

definition program_cluster_policies ::
  "cluster_api \<Rightarrow> 'k bpf_env \<Rightarrow> go_orders \<Rightarrow> ClusterPolicyEndpointsReconciler \<Rightarrow> string \<Rightarrow> bpfClient \<times> 'k \<Rightarrow>
     (bpfClient \<times> 'k) outcome" where
  "program_cluster_policies cluster env os cr podIdentifier s =
     (if cluster_ArePoliciesAvailableInLocalCache cr podIdentifier then
        (case DeriveClusterPolicyFireWallRulesPerPodIdentifier cluster cr podIdentifier of
           Inl p \<Rightarrow> (Inl p, s)
         | Inr (Inl e) \<Rightarrow> UpdateClusterPolicyEbpfMaps env os podIdentifier [] [] (fst s) (snd s)
         | Inr (Inr (ingressRules, egressRules)) \<Rightarrow>
             UpdateClusterPolicyEbpfMaps env os podIdentifier ingressRules egressRules (fst s) (snd s))
      else (Inr [], s))"

definition program_new_pod ::
  "k8s_api \<Rightarrow> cluster_api \<Rightarrow> 'k bpf_env \<Rightarrow> go_orders \<Rightarrow> PolicyEndpointsReconciler \<Rightarrow> ClusterPolicyEndpointsReconciler \<Rightarrow>
     string \<Rightarrow> string \<Rightarrow> int \<Rightarrow> bpfClient \<times> 'k \<Rightarrow> (bpfClient \<times> 'k) reply" where
  "program_new_pod k8s cluster env os r cr podIdentifier namespace defaultState s =
     or_return (program_policies k8s env os r podIdentifier namespace s) (\<lambda>s.
     or_return (program_cluster_policies cluster env os cr podIdentifier s) (\<lambda>s.
       set_states env podIdentifier
         (if ArePoliciesAvailableInLocalCache r podIdentifier then STATE_POLICIES_APPLIED else defaultState)
         (if cluster_ArePoliciesAvailableInLocalCache cr podIdentifier then STATE_POLICIES_APPLIED else STATE_DEFAULT_ALLOW) s))"

definition peReconcilerReady :: "server \<Rightarrow> bool" where
  "peReconcilerReady sv = (policyReconciler sv \<noteq> None \<and> policyClientSet sv)"

definition cpeReconcilerReady :: "server \<Rightarrow> bool" where
  "cpeReconcilerReady sv = (clusterPolicyReconciler sv \<noteq> None \<and> clusterPolicyClientSet sv)"

definition EnforceNpToPod ::
  "k8s_api \<Rightarrow> cluster_api \<Rightarrow> 'k bpf_env \<Rightarrow> go_orders \<Rightarrow> server \<Rightarrow> EnforceNpRequest \<Rightarrow> bpfClient \<times> 'k \<Rightarrow> (bpfClient \<times> 'k) reply" where
  "EnforceNpToPod k8s cluster env os sv req s =
     (if \<not> peReconcilerReady sv \<and> \<not> cpeReconcilerReady sv then (Inr (Some True, []), s)
      else if peReconcilerReady sv \<noteq> cpeReconcilerReady sv
        then (Inr (Some False, [''One of the policy reconcilers is not ready'']), s)
      else if \<not> IsValidNetworkPolicyEnforcingMode (NETWORK_POLICY_MODE req) then (Inr (None, [''Invalid Network Policy Mode'']), s)
      else
        let podIdentifier = GetPodIdentifier (K8S_POD_NAME req) (K8S_POD_NAMESPACE req);
            r = the (policyReconciler sv);
            cr = the (clusterPolicyReconciler sv);
            defaultState = default_state (NETWORK_POLICY_MODE req);
            policiesAvailable = ArePoliciesAvailableInLocalCache r podIdentifier;
            clusterPolicyAvailable = cluster_ArePoliciesAvailableInLocalCache cr podIdentifier
        in case AttacheBPFProbes env \<lparr>nn_Name = K8S_POD_NAME req, nn_Namespace = K8S_POD_NAMESPACE req\<rparr> podIdentifier
                  (sint (InterfaceCount req)) True (fst s) (snd s) of
             (Inl e, s1) \<Rightarrow> (Inr (None, [e]), s1)
           | (Inr isFirstPodInPodIdentifier, s1) \<Rightarrow>
               if (policiesAvailable \<or> clusterPolicyAvailable) \<and> isFirstPodInPodIdentifier
               then program_new_pod k8s cluster env os r cr podIdentifier (K8S_POD_NAMESPACE req) defaultState s1
               else if \<not> (policiesAvailable \<or> clusterPolicyAvailable)
               then set_states env podIdentifier defaultState STATE_DEFAULT_ALLOW s1
               else (Inr (Some True, []), s1))"

text \<open>\<open>now\<close> is the time the client stores with the deletion marker.\<close>

definition DeletePodNp ::
  "'k bpf_env \<Rightarrow> int \<Rightarrow> server \<Rightarrow> string \<Rightarrow> string \<Rightarrow> bpfClient \<times> 'k \<Rightarrow> (bpfClient \<times> 'k) reply" where
  "DeletePodNp env now sv name namespace s =
     (if \<not> peReconcilerReady sv then (Inr (Some True, []), s)
      else
        (Inr (Some True, []),
         DeleteBPFProbes env now \<lparr>nn_Name = name, nn_Namespace = namespace\<rparr> (GetPodIdentifier name namespace) (fst s) (snd s)))"

section \<open>Effects on the client\<close>

lemma or_return_reaches:
  assumes "client_reaches env s (snd a)" "\<And>s1. client_reaches env s1 (snd (f s1))"
  shows "client_reaches env s (snd (or_return a f))"
  using client_reaches_trans [OF assms(1) assms(2) [of "snd a"]] assms(1) by (cases a) (auto simp: or_return_def split: sum.splits)

lemma set_states_reaches: "client_reaches env s (snd (set_states env i a b s))"
proof -
  have "client_reaches env s (snd (set_state env i key st s))" for key st s
    unfolding set_state_def by (cases s) (simp add: lift_reaches update_calls_reach)
  then show ?thesis unfolding set_states_def by (intro or_return_reaches) simp_all
qed

lemma program_new_pod_reaches:
  assumes "orders_range os" shows "client_reaches env s (snd (program_new_pod k8s cluster env os r cr i ns st s))"
proof -
  have u: "client_reaches env s (snd (UpdateEbpfMaps env os i ing eg (fst s) (snd s)))"
      "client_reaches env s (snd (UpdateClusterPolicyEbpfMaps env os i ing eg (fst s) (snd s)))" for ing eg s
    using update_calls_reach(1, 2) [OF assms, of env "fst s" "snd s"] by simp_all
  show ?thesis
    unfolding program_new_pod_def program_policies_def program_cluster_policies_def
    by (intro or_return_reaches set_states_reaches) (auto simp: u split: sum.splits)
qed

lemma enforce_reaches:
  assumes "orders_range os" "CHR ''_'' \<notin> set (K8S_POD_NAMESPACE req)"
  shows "client_reaches env s (snd (EnforceNpToPod k8s cluster env os sv req s))"
proof -
  let ?pod = "\<lparr>nn_Name = K8S_POD_NAME req, nn_Namespace = K8S_POD_NAMESPACE req\<rparr>"
  obtain a s1 where a: "AttacheBPFProbes env ?pod (ident_of ?pod) (sint (InterfaceCount req)) True (fst s) (snd s) = (a, s1)"
    by (metis surj_pair)
  have 1: "client_reaches env s s1"
    using reach.effect_attach [of ?pod env "fst s" "snd s" "sint (InterfaceCount req)" True] assms(2) a by simp
  have 2: "client_reaches env s (snd (program_new_pod k8s cluster env os r cr i ns st s1))" for r cr i ns st
    using client_reaches_trans [OF 1 program_new_pod_reaches [OF assms(1)]] .
  have 3: "client_reaches env s (snd (set_states env i x y s1))" for i x y
    using client_reaches_trans [OF 1 set_states_reaches] .
  show ?thesis
    using a 1 2 3 by (auto simp: EnforceNpToPod_def Let_def ident_of_def split: sum.splits)
qed

section \<open>What a new pod gets\<close>

definition pod_state_is :: "'k kernel_view \<Rightarrow> bpfClient \<Rightarrow> 'k \<Rightarrow> string \<Rightarrow> int \<Rightarrow> int \<Rightarrow> bool" where
  "pod_state_is kv l k i key state \<longleftrightarrow> (\<exists>c. policyEndpointeBPFContext l i = Some c \<and> (\<forall>d. prog_fd c d \<noteq> 0 \<longrightarrow>
     kv_maps kv k (MapID (map_at (pgmInfo c d) (podStateMapName d))) (pod_state_key key) = Some (pod_state_val state)))"

lemma or_return_success:
  "or_return a f = (Inr (Some True, err), s') \<longleftrightarrow> (\<exists>s. a = (Inr [], s) \<and> f s = (Inr (Some True, err), s'))"
  by (cases a) (auto simp: or_return_def split: sum.splits)

lemma set_states_spec:
  assumes laws: "env_laws env kv" and inv: "client_inv kv l k" and c: "policyEndpointeBPFContext l i = Some c"
    and run: "set_states env i st cst (l, k) = (Inr (Some True, err), l', k')"
  shows "err = [] \<and> l' = l \<and> pod_state_is kv l' k' i POD_STATE_MAP_KEY st \<and>
    pod_state_is kv l' k' i CLUSTER_POLICY_POD_STATE_MAP_KEY cst \<and>
    (\<forall>d kd. prog_fd c d \<noteq> 0 \<longrightarrow> kv_maps kv k' (MapID (map_at (pgmInfo c d) (mapName kd d))) =
       kv_maps kv k (MapID (map_at (pgmInfo c d) (mapName kd d)))) \<and>
    kv_refused kv k' = kv_refused kv k"
proof -
  obtain k1 where 1: "UpdatePodStateEbpfMaps env i POD_STATE_MAP_KEY st True True l k = ([], k1)"
    and 2: "UpdatePodStateEbpfMaps env i CLUSTER_POLICY_POD_STATE_MAP_KEY cst True True l k1 = ([], k')" and l: "l' = l" "err = []"
    using run by (auto simp: set_states_def or_return_success set_state_def split: prod.splits)
  note sc = state_calls(2) [OF laws]
  note w1 = write_states_spec [OF inv sc 1 [unfolded pod_state_ops]]
  then have inv1: "client_inv kv l k1" by simp
  note w2 = write_states_spec [OF inv1 sc 2 [unfolded pod_state_ops]]
  have st: "kv_maps kv k' j (pod_state_key POD_STATE_MAP_KEY) = kv_maps kv k1 j (pod_state_key POD_STATE_MAP_KEY)" for j
    using write_states_frame [OF sc c 2 [unfolded pod_state_ops], of j "pod_state_key POD_STATE_MAP_KEY"] pod_state_keys by metis
  have "kv_maps kv k' (MapID (map_at (pgmInfo c d) (mapName kd d))) = kv_maps kv k (MapID (map_at (pgmInfo c d) (mapName kd d)))"
    if "prog_fd c d \<noteq> 0" for d kd
    using write_states_policy_maps [OF inv sc c 1 [unfolded pod_state_ops] that]
      write_states_policy_maps [OF inv1 sc c 2 [unfolded pod_state_ops] that] by metis
  moreover have "(case d of Ingress \<Rightarrow> True | Egress \<Rightarrow> True)" for d by (cases d) simp_all
  moreover have "kv_refused kv k' = kv_refused kv k"
    using write_states_log [OF sc 1 [unfolded pod_state_ops]] write_states_log [OF sc 2 [unfolded pod_state_ops]] by simp
  ultimately show ?thesis using w1 w2 c st l by (auto simp: pod_state_is_def)
qed

lemma tier_in_forceI:
  assumes "policyEndpointeBPFContext l i = Some c"
    and "\<And>d. prog_fd c d \<noteq> 0 \<Longrightarrow> \<exists>m. entries d = Inr m \<and> map_holds kv k (map_at (pgmInfo c d) (mapName kind d)) m"
    and "pod_state_is kv l k i key st" "pod_state_is kv l k i other st'"
  shows "tier_in_force kv l k i kind key other entries st"
  using assms by (auto simp: tier_in_force_def pod_state_is_def)

text \<open>The rules the client is given for the cluster policies of a new pod.\<close>

definition cluster_rules_or_none :: "cluster_api \<Rightarrow> ClusterPolicyEndpointsReconciler \<Rightarrow> string \<Rightarrow> dir \<Rightarrow> EbpfFirewallRules list" where
  "cluster_rules_or_none cluster cr i d =
     (case DeriveClusterPolicyFireWallRulesPerPodIdentifier cluster cr i of
        Inr (Inr (ing, eg)) \<Rightarrow> (case d of Ingress \<Rightarrow> ing | Egress \<Rightarrow> eg) | _ \<Rightarrow> [])"

definition rules_or_none :: "k8s_api \<Rightarrow> PolicyEndpointsReconciler \<Rightarrow> string \<Rightarrow> string \<Rightarrow> dir \<Rightarrow> EbpfFirewallRules list" where
  "rules_or_none k8s r i ns d =
     (case DeriveFireWallRulesPerPodIdentifier k8s r i ns of
        Inr (ing, eg) \<Rightarrow> (case d of Ingress \<Rightarrow> ing | Egress \<Rightarrow> eg) | _ \<Rightarrow> [])"

lemma dir_fun: "(case d of Ingress \<Rightarrow> f Ingress | Egress \<Rightarrow> f Egress) = f d"
  by (cases d) simp_all

lemma program_policies_success:
  assumes "program_policies k8s env os r i ns (l, k) = (Inr [], l1, k1)"
  shows "if ArePoliciesAvailableInLocalCache r i
    then UpdateEbpfMaps env os i (rules_or_none k8s r i ns Ingress) (rules_or_none k8s r i ns Egress) l k = (Inr [], l1, k1)
    else l1 = l \<and> k1 = k"
  using assms by (auto simp: program_policies_def rules_or_none_def split: sum.splits if_splits)

lemma program_cluster_policies_success:
  assumes "program_cluster_policies cluster env os cr i (l, k) = (Inr [], l1, k1)"
  shows "if cluster_ArePoliciesAvailableInLocalCache cr i
    then UpdateClusterPolicyEbpfMaps env os i (cluster_rules_or_none cluster cr i Ingress) (cluster_rules_or_none cluster cr i Egress) l k =
      (Inr [], l1, k1)
    else l1 = l \<and> k1 = k"
  using assms by (auto simp: program_cluster_policies_def cluster_rules_or_none_def split: sum.splits if_splits)

lemma program_new_pod_spec:
  assumes laws: "env_laws env kv" and inv: "client_inv kv l k" and os: "orders_range os" and c: "policyEndpointeBPFContext l i = Some c"
    and run: "program_new_pod k8s cluster env os r cr i ns st (l, k) = (Inr (Some True, err), l', k')"
  shows "err = [] \<and> same_caches l l' \<and> policyEndpointeBPFContext l' = policyEndpointeBPFContext l \<and>
    (if ArePoliciesAvailableInLocalCache r i then in_force kv os l' k' i (rules_or_none k8s r i ns) STATE_POLICIES_APPLIED
     else pod_state_is kv l' k' i POD_STATE_MAP_KEY st) \<and>
    (if cluster_ArePoliciesAvailableInLocalCache cr i
     then cluster_in_force kv os l' k' i (cluster_rules_or_none cluster cr i) STATE_POLICIES_APPLIED
     else pod_state_is kv l' k' i CLUSTER_POLICY_POD_STATE_MAP_KEY STATE_DEFAULT_ALLOW)"
proof -
  let ?np = "ArePoliciesAvailableInLocalCache r i" and ?cp = "cluster_ArePoliciesAvailableInLocalCache cr i"
  obtain l1 k1 l2 k2 where
      1: "if ?np then UpdateEbpfMaps env os i (rules_or_none k8s r i ns Ingress) (rules_or_none k8s r i ns Egress) l k = (Inr [], l1, k1)
          else l1 = l \<and> k1 = k"
    and 2: "if ?cp then UpdateClusterPolicyEbpfMaps env os i (cluster_rules_or_none cluster cr i Ingress)
            (cluster_rules_or_none cluster cr i Egress) l1 k1 = (Inr [], l2, k2) else l2 = l1 \<and> k2 = k1"
    and 3: "set_states env i (if ?np then STATE_POLICIES_APPLIED else st)
        (if ?cp then STATE_POLICIES_APPLIED else STATE_DEFAULT_ALLOW) (l2, k2) = (Inr (Some True, err), l', k')"
    using run program_policies_success program_cluster_policies_success
    unfolding program_new_pod_def or_return_success by (metis surj_pair prod.inject)
  have s1: "client_inv kv l1 k1 \<and> same_caches l l1 \<and> policyEndpointeBPFContext l1 = policyEndpointeBPFContext l \<and>
      (?np \<longrightarrow> (\<forall>d. prog_fd c d \<noteq> 0 \<longrightarrow> (\<exists>m. np_entries os d (fwRuleProcessor l) (rules_or_none k8s r i ns d) = Inr m \<and>
         map_holds kv k1 (map_at (pgmInfo c d) (mapName PolicyMap d)) m)))"
  proof (cases ?np)
    case True
    from np_tier.update_spec [OF laws inv os 1 [unfolded if_P [OF True]]] True c show ?thesis by (auto simp: same_caches_def dir_fun)
  qed (use 1 inv in simp)
  then have c1: "policyEndpointeBPFContext l1 i = Some c" and inv1: "client_inv kv l1 k1" using c by simp_all
  have s2: "client_inv kv l2 k2 \<and> same_caches l l2 \<and> policyEndpointeBPFContext l2 = policyEndpointeBPFContext l \<and>
      (?cp \<longrightarrow> (\<forall>d. prog_fd c d \<noteq> 0 \<longrightarrow> (\<exists>m. cp_entries os d (fwRuleProcessor l) (cluster_rules_or_none cluster cr i d) = Inr m \<and>
         map_holds kv k2 (map_at (pgmInfo c d) (mapName ClusterPolicyMap d)) m))) \<and>
      (\<forall>d. prog_fd c d \<noteq> 0 \<longrightarrow> kv_maps kv k2 (MapID (map_at (pgmInfo c d) (mapName PolicyMap d))) =
         kv_maps kv k1 (MapID (map_at (pgmInfo c d) (mapName PolicyMap d)))) \<and> kv_refused kv k1 \<subseteq> kv_refused kv k2"
  proof (cases ?cp)
    case True
    note u = 2 [unfolded if_P [OF True]]
    have "mapName PolicyMap d \<noteq> mapName ClusterPolicyMap d" for d using mapName_inject by blast
    with cp_tier.update_keeps_map [OF laws inv1 os u c1 _ mapName_policy]
    have "\<forall>d. prog_fd c d \<noteq> 0 \<longrightarrow> kv_maps kv k2 (MapID (map_at (pgmInfo c d) (mapName PolicyMap d))) =
         kv_maps kv k1 (MapID (map_at (pgmInfo c d) (mapName PolicyMap d)))" by blast
    with cp_tier.update_spec [OF laws inv1 os u] cp_tier.update_log [OF laws u] True c1 s1 show ?thesis by (auto simp: same_caches_def dir_fun)
  qed (use 2 s1 in simp)
  then have c2: "policyEndpointeBPFContext l2 i = Some c" using c by simp
  note s3 = set_states_spec [OF laws conjunct1 [OF s2] c2 3]
  have fw: "fwRuleProcessor l' = fwRuleProcessor l" and c': "policyEndpointeBPFContext l' i = Some c"
    using s2 s3 c2 by (simp_all add: same_caches_def)
  have "in_force kv os l' k' i (rules_or_none k8s r i ns) STATE_POLICIES_APPLIED" if ?np
    unfolding in_force_def fw
  proof (rule tier_in_forceI [OF c'])
    fix d assume fd: "prog_fd c d \<noteq> 0"
    from s1 that fd obtain m where m: "np_entries os d (fwRuleProcessor l) (rules_or_none k8s r i ns d) = Inr m"
      "map_holds kv k1 (map_at (pgmInfo c d) (mapName PolicyMap d)) m" by blast
    from s2 s3 fd have "kv_maps kv k' (MapID (map_at (pgmInfo c d) (mapName PolicyMap d))) =
      kv_maps kv k1 (MapID (map_at (pgmInfo c d) (mapName PolicyMap d)))" "kv_refused kv k1 \<subseteq> kv_refused kv k'" by simp_all
    from m(1) map_holds_mono [OF m(2) this] show "\<exists>m. np_entries os d (fwRuleProcessor l) (rules_or_none k8s r i ns d) = Inr m \<and>
      map_holds kv k' (map_at (pgmInfo c d) (mapName PolicyMap d)) m" by blast
  qed (use s3 that in auto)
  moreover have "cluster_in_force kv os l' k' i (cluster_rules_or_none cluster cr i) STATE_POLICIES_APPLIED" if ?cp
    unfolding cluster_in_force_def fw
  proof (rule tier_in_forceI [OF c'])
    fix d assume fd: "prog_fd c d \<noteq> 0"
    from s2 that fd obtain m where m: "cp_entries os d (fwRuleProcessor l) (cluster_rules_or_none cluster cr i d) = Inr m"
      "map_holds kv k2 (map_at (pgmInfo c d) (mapName ClusterPolicyMap d)) m" by blast
    from s3 fd have "kv_maps kv k' (MapID (map_at (pgmInfo c d) (mapName ClusterPolicyMap d))) =
      kv_maps kv k2 (MapID (map_at (pgmInfo c d) (mapName ClusterPolicyMap d)))" "kv_refused kv k2 \<subseteq> kv_refused kv k'" by simp_all
    from m(1) map_holds_mono [OF m(2) this] show "\<exists>m. cp_entries os d (fwRuleProcessor l) (cluster_rules_or_none cluster cr i d) = Inr m \<and>
      map_holds kv k' (map_at (pgmInfo c d) (mapName ClusterPolicyMap d)) m" by blast
  qed (use s3 that in auto)
  ultimately show ?thesis using s2 s3 by auto
qed

lemma enforce_ready:
  assumes "policyReconciler sv = Some r" "policyClientSet sv" "clusterPolicyReconciler sv = Some cr" "clusterPolicyClientSet sv"
    and "AttacheBPFProbes env \<lparr>nn_Name = K8S_POD_NAME req, nn_Namespace = K8S_POD_NAMESPACE req\<rparr> i (sint (InterfaceCount req)) True l k = (q, s1)"
    and "i = GetPodIdentifier (K8S_POD_NAME req) (K8S_POD_NAMESPACE req)"
  shows "EnforceNpToPod k8s cluster env os sv req (l, k) =
    (if \<not> IsValidNetworkPolicyEnforcingMode (NETWORK_POLICY_MODE req) then (Inr (None, [''Invalid Network Policy Mode'']), l, k)
     else case q of
       Inl e \<Rightarrow> (Inr (None, [e]), s1)
     | Inr first \<Rightarrow>
         if ArePoliciesAvailableInLocalCache r i \<or> cluster_ArePoliciesAvailableInLocalCache cr i
         then if first then program_new_pod k8s cluster env os r cr i (K8S_POD_NAMESPACE req) (default_state (NETWORK_POLICY_MODE req)) s1
              else (Inr (Some True, []), s1)
         else set_states env i (default_state (NETWORK_POLICY_MODE req)) STATE_DEFAULT_ALLOW s1)"
  using assms(1-4) assms(5) [unfolded assms(6)] unfolding assms(6)
  by (cases q) (simp_all add: EnforceNpToPod_def peReconcilerReady_def cpeReconcilerReady_def Let_def)

lemma owns_loaded: "(\<forall>d. \<exists>fd. owns_fd l i d fd) \<longleftrightarrow> loaded l i"
  by (auto simp: owns_fd_def loaded_def) (metis option.inject)

text \<open>C18: The CNI adds a pod and the agent reports success: the pod is attached in both directions to its
  identifier's programs and its deletion marker is gone. If it is the first pod of its identifier with
  these programs, or no policy is known for it, both tiers are set up: each tier with a policy in the
  cache has the derived rules in force, and each tier without one has its default state (that of the
  requested mode for network policies, allow for cluster policies). If it joins an identifier whose
  policies are known, everything in force for that identifier stays in force.\<close>
theorem new_pod_enforced:
  assumes laws: "env_laws env kv" and reach: "client_reachable env l k" and os: "orders_range os"
    and ns: "CHR ''_'' \<notin> set (K8S_POD_NAMESPACE req)"
    and ready: "policyReconciler sv = Some r" "policyClientSet sv" "clusterPolicyReconciler sv = Some cr" "clusterPolicyClientSet sv"
    and run: "EnforceNpToPod k8s cluster env os sv req (l, k) = (Inr (Some True, err), l', k')"
  defines "i \<equiv> GetPodIdentifier (K8S_POD_NAME req) (K8S_POD_NAMESPACE req)"
    and "p \<equiv> GetPodNamespacedName (K8S_POD_NAME req) (K8S_POD_NAMESPACE req)"
  defines "np \<equiv> ArePoliciesAvailableInLocalCache r i" and "cp \<equiv> cluster_ArePoliciesAvailableInLocalCache cr i"
  shows "err = [] \<and> deletedPods l' p = None \<and> (\<forall>d. \<exists>fd. podToProgMap l' d p = Some fd \<and> owns_fd l' i d fd) \<and>
    (if loaded l i \<and> (np \<or> cp)
     then \<forall>kind key other entries state. tier_in_force kv l k i kind key other entries state \<longrightarrow>
            tier_in_force kv l' k' i kind key other entries state
     else (if np then in_force kv os l' k' i (rules_or_none k8s r i (K8S_POD_NAMESPACE req)) STATE_POLICIES_APPLIED
           else pod_state_is kv l' k' i POD_STATE_MAP_KEY (default_state (NETWORK_POLICY_MODE req))) \<and>
          (if cp then cluster_in_force kv os l' k' i (cluster_rules_or_none cluster cr i) STATE_POLICIES_APPLIED
           else pod_state_is kv l' k' i CLUSTER_POLICY_POD_STATE_MAP_KEY STATE_DEFAULT_ALLOW))"
proof -
  let ?pod = "\<lparr>nn_Name = K8S_POD_NAME req, nn_Namespace = K8S_POD_NAMESPACE req\<rparr>"
  have i: "ident_of ?pod = i" and p: "pod_name ?pod = p" by (simp_all add: ident_of_def i_def pod_name_def p_def)
  obtain q l1 k1 where a: "AttacheBPFProbes env ?pod (ident_of ?pod) (sint (InterfaceCount req)) True l k = (q, l1, k1)"
    using prod_cases3 by blast
  have ns': "CHR ''_'' \<notin> set (nn_Namespace ?pod)" using ns by simp
  note run = run [unfolded enforce_ready [OF ready a [unfolded i] meta_eq_to_obj_eq [OF i_def]], folded np_def cp_def]
  obtain first where q: "q = Inr first" using run by (auto split: if_splits sum.splits)
  have f: "if np \<or> cp
      then if first then program_new_pod k8s cluster env os r cr i (K8S_POD_NAMESPACE req) (default_state (NETWORK_POLICY_MODE req)) (l1, k1) =
             (Inr (Some True, err), l', k')
           else err = [] \<and> l' = l1 \<and> k' = k1
      else set_states env i (default_state (NETWORK_POLICY_MODE req)) STATE_DEFAULT_ALLOW (l1, k1) = (Inr (Some True, err), l', k')"
    using run unfolding q by (auto split: if_splits)
  have s: "deletedPods l1 p = None" "first = (\<not> loaded l i)" "\<And>d. \<exists>fd. podToProgMap l1 d p = Some fd \<and> owns_fd l1 i d fd"
    using attach_spec [OF laws reach ns' a] q i p by (simp_all add: owns_loaded)
  have reach1: "client_reachable env l1 k1"
    using reach.effect_attach [OF ns', of env l k "sint (InterfaceCount req)" True] a client_reaches_reachable [OF _ reach] by simp
  note inv1 = client_reachable_inv [OF laws reach1]
  obtain c where c: "policyEndpointeBPFContext l1 i = Some c" using s(3) [of Ingress] by (auto simp: owns_fd_def)
  have up: "deletedPods l' p = None \<and> (\<forall>d. \<exists>fd. podToProgMap l' d p = Some fd \<and> owns_fd l' i d fd)"
    if "same_caches l1 l'" "policyEndpointeBPFContext l' = policyEndpointeBPFContext l1"
    using s(1, 3) that by (simp add: same_caches_def owns_fd_def)
  consider (first) "np \<or> cp" "\<not> loaded l i" | (none) "\<not> (np \<or> cp)" | (joins) "np \<or> cp" "loaded l i" by blast
  then show ?thesis
  proof cases
    case first
    then have "program_new_pod k8s cluster env os r cr i (K8S_POD_NAMESPACE req) (default_state (NETWORK_POLICY_MODE req)) (l1, k1) =
        (Inr (Some True, err), l', k')" using f s(2) by auto
    from program_new_pod_spec [OF laws inv1 os c this, folded np_def cp_def] up first(2) show ?thesis by simp
  next
    case none
    then have "set_states env i (default_state (NETWORK_POLICY_MODE req)) STATE_DEFAULT_ALLOW (l1, k1) = (Inr (Some True, err), l', k')"
      using f by simp
    note t = set_states_spec [OF laws inv1 c this]
    then have "same_caches l1 l'" "policyEndpointeBPFContext l' = policyEndpointeBPFContext l1" by simp_all
    from up [OF this] t none show ?thesis by (elim conjE) (intro conjI, simp_all)
  next
    case joins
    then have e: "err = []" "l' = l1" "k' = k1" using f s(2) by auto
    have "tier_safe env kv kind key other (l, k) (l1, k1)" for kind key other
      using safe.effect_attach [OF ns', of env kv kind key other l k "sint (InterfaceCount req)" True] a by simp
    then have "\<forall>kind key other entries state. tier_in_force kv l k i kind key other entries state \<longrightarrow>
        tier_in_force kv l' k' i kind key other entries state"
      using laws client_reachable_inv [OF laws reach] joins(2) unfolding tier_safe_def e by simp
    with e joins up show ?thesis by simp
  qed
qed

definition example_server :: server where
  "example_server = \<lparr>policyReconciler = Some (NewPolicyEndpointsReconciler ''10.0.0.1'' False 0), policyClientSet = True,
     clusterPolicyReconciler = Some (NewClusterPolicyEndpointsReconciler ''10.0.0.1'' 0), clusterPolicyClientSet = True\<rparr>"

definition example_enforce :: "string \<Rightarrow> EnforceNpRequest" where
  "example_enforce name = \<lparr>K8S_POD_NAME = name, K8S_POD_NAMESPACE = ''shop'', NETWORK_POLICY_MODE = ''strict'', InterfaceCount = 1\<rparr>"

theorem new_pod_enforced_witness:
  "\<exists>l' k'. EnforceNpToPod (example_k8s []) (example_cluster_api []) sim_env example_go_orders example_server (example_enforce ''web-7d-c'') example_state =
       (Inr (Some True, []), l', k') \<and>
     (\<exists>fd. podToProgMap l' Ingress (GetPodNamespacedName ''web-7d-c'' ''shop'') = Some fd \<and> owns_fd l' ''web-7d@shop'' Ingress fd) \<and>
     pod_state_is sim_view l' k' ''web-7d@shop'' POD_STATE_MAP_KEY STATE_DEFAULT_DENY"
proof -
  let ?e = "EnforceNpToPod (example_k8s []) (example_cluster_api []) sim_env example_go_orders example_server (example_enforce ''web-7d-c'')"
  have "fst (?e example_state) = Inr (Some True, [])" by code_simp
  then obtain l' k' where r: "?e (fst example_state, snd example_state) = (Inr (Some True, []), l', k')" by (cases "?e example_state") auto
  have i: "GetPodIdentifier ''web-7d-c'' ''shop'' = ''web-7d@shop''" by code_simp
  have m: "default_state ''strict'' = STATE_DEFAULT_DENY" by code_simp
  have ns: "CHR ''_'' \<notin> set (K8S_POD_NAMESPACE (example_enforce ''web-7d-c''))" by (simp add: example_enforce_def)
  have sv: "policyReconciler example_server = Some (NewPolicyEndpointsReconciler ''10.0.0.1'' False 0)" "policyClientSet example_server"
      "clusterPolicyReconciler example_server = Some (NewClusterPolicyEndpointsReconciler ''10.0.0.1'' 0)" "clusterPolicyClientSet example_server"
    by (simp_all add: example_server_def)
  have n: "\<not> ArePoliciesAvailableInLocalCache (NewPolicyEndpointsReconciler ''10.0.0.1'' False 0) x"
      "\<not> cluster_ArePoliciesAvailableInLocalCache (NewClusterPolicyEndpointsReconciler ''10.0.0.1'' 0) x" for x
    by (simp_all add: ArePoliciesAvailableInLocalCache_def NewPolicyEndpointsReconciler_def
        cluster_ArePoliciesAvailableInLocalCache_def NewClusterPolicyEndpointsReconciler_def)
  have "K8S_POD_NAME (example_enforce ''web-7d-c'') = ''web-7d-c''" "K8S_POD_NAMESPACE (example_enforce ''web-7d-c'') = ''shop''"
      "NETWORK_POLICY_MODE (example_enforce ''web-7d-c'') = ''strict''" by (simp_all add: example_enforce_def)
  note f = this n i m
  from new_pod_enforced [OF sim_env_laws example_reachable example_go_orders_range ns sv r, unfolded f] r show ?thesis by (simp add: f)
qed

lemma DeletePodNp_effect:
  assumes "caches_ok l" "CHR ''_'' \<notin> set namespace" "DeletePodNp env now sv name namespace (l, k) = (res, l', k')"
  shows "client_reaches env (l, k) (l', k') \<and> res = Inr (Some True, []) \<and>
    (if peReconcilerReady sv
     then (\<forall>d. podToProgMap l' d (GetPodNamespacedName name namespace) = None) \<and>
       deletedPods l' (GetPodNamespacedName name namespace) = Some now
     else l' = l \<and> k' = k)"
proof -
  let ?pod = "\<lparr>nn_Name = name, nn_Namespace = namespace\<rparr>"
  have e: "(l', k') = (if peReconcilerReady sv then DeleteBPFProbes env now ?pod (ident_of ?pod) l k else (l, k))"
    "res = Inr (Some True, [])" using assms(3) by (auto simp: DeletePodNp_def ident_of_def split: if_splits)
  have "client_reaches env (l, k) (DeleteBPFProbes env now ?pod (ident_of ?pod) l k)"
    by (rule client_reaches_step [of "Delete now ?pod"]) (simp_all add: assms(2))
  then have "client_reaches env (l, k) (l', k')" unfolding e by simp
  moreover have "(\<forall>d. podToProgMap l' d (pod_name ?pod) = None) \<and> deletedPods l' (pod_name ?pod) = Some now" if "peReconcilerReady sv"
    using e that forget_pod_fields [OF assms(1), of ?pod now]
    by (auto simp: DeleteBPFProbes_unfold deleteBPFProbes_def Let_def split: if_splits)
  moreover have "l' = l \<and> k' = k" if "\<not> peReconcilerReady sv" using e(1) that by simp
  ultimately show ?thesis using e(2) by (simp add: pod_name_def)
qed

text \<open>C19: The CNI calls never break the client: with any reconcilers, any API answers and any outcome, adding
  a pod changes the client and the kernel only by the client's operations, and so does deleting one,
  after which the pod has no program and a deletion marker.\<close>
theorem cni_calls_keep_client:
  assumes laws: "env_laws env kv" and reach: "client_reachable env l k" and "orders_range os"
    and "CHR ''_'' \<notin> set (K8S_POD_NAMESPACE req)" "CHR ''_'' \<notin> set namespace"
    and add: "EnforceNpToPod k8s cluster env os sv req (l, k) = (res1, l1, k1)"
    and del: "DeletePodNp env now sv name namespace (l, k) = (res2, l2, k2)"
  shows "client_reachable env l1 k1 \<and> client_reachable env l2 k2 \<and> res2 = Inr (Some True, []) \<and>
    (if peReconcilerReady sv
     then (\<forall>d. podToProgMap l2 d (GetPodNamespacedName name namespace) = None) \<and>
       deletedPods l2 (GetPodNamespacedName name namespace) = Some now
     else l2 = l \<and> k2 = k)"
proof -
  have "client_reaches env (l, k) (l1, k1)" using enforce_reaches [OF assms(3, 4), of env "(l, k)" k8s cluster sv] add by simp
  then have 1: "client_reachable env l1 k1" by (rule client_reaches_reachable [OF _ reach])
  have "caches_ok l" by (rule client_invD(1) [OF client_reachable_inv [OF laws reach]])
  note d = DeletePodNp_effect [OF this assms(5) del]
  from client_reaches_reachable [OF conjunct1 [OF d] reach] 1 d show ?thesis by blast
qed

theorem cni_calls_keep_client_witness:
  "\<exists>l1 k1 l2 k2. EnforceNpToPod (example_k8s []) (example_cluster_api []) sim_env example_go_orders example_server (example_enforce ''web-7d-c'') example_state =
       (Inr (Some True, []), l1, k1) \<and> client_reachable sim_env l1 k1 \<and>
     DeletePodNp sim_env 7 example_server ''web-7d-a'' ''shop'' example_state = (Inr (Some True, []), l2, k2) \<and> client_reachable sim_env l2 k2 \<and>
     deletedPods l2 (GetPodNamespacedName ''web-7d-a'' ''shop'') = Some 7"
proof -
  let ?e = "EnforceNpToPod (example_k8s []) (example_cluster_api []) sim_env example_go_orders example_server (example_enforce ''web-7d-c'')"
  let ?d = "DeletePodNp sim_env 7 example_server ''web-7d-a'' ''shop''"
  have "fst (?e example_state) = Inr (Some True, [])" by code_simp
  then obtain l1 k1 where e: "?e (fst example_state, snd example_state) = (Inr (Some True, []), l1, k1)" by (cases "?e example_state") auto
  obtain r l2 k2 where d: "?d (fst example_state, snd example_state) = (r, l2, k2)" using prod_cases3 by blast
  have "peReconcilerReady example_server" by (simp add: peReconcilerReady_def example_server_def)
  with cni_calls_keep_client [OF sim_env_laws example_reachable example_go_orders_range _ _ e d] e d show ?thesis
    by (simp add: example_enforce_def)
qed

end
