(* ===== verification/AgentMain.thy ===== *)
theory AgentMain
  imports BpfRestart RpcHandler
begin

text \<open>
  The agent as a process: its flags and their validation (\<^verbatim>\<open>pkg/config\<close>), its loggers
  (\<^verbatim>\<open>pkg/logger\<close>), the health checks (\<^verbatim>\<open>pkg/ebpf/healthcheck.go\<close>,
  \<^verbatim>\<open>pkg/rpc/healthcheck.go\<close>), \<^verbatim>\<open>RunRPCHandler\<close> and \<^verbatim>\<open>main.go\<close>, which puts the other
  components together. What \<^verbatim>\<open>main\<close> calls in pflag, controller-runtime, the AWS SDK, gRPC and the
  ipamd service are the fields of a \<open>main_env\<close>. The theorems say what a running agent has: a client with
  its invariant and both reconcilers, or neither; and when it reports itself ready.
\<close>

section \<open>Loggers\<close>

datatype zap_level = DebugLevel | InfoLevel | WarnLevel | ErrorLevel | FatalLevel

definition getZapLevel :: "string \<Rightarrow> zap_level" where
  "getZapLevel inputLogLevel =
     (let lvl = go_to_lower inputLogLevel
      in if lvl = ''debug'' then DebugLevel
         else if lvl = ''info'' then InfoLevel
         else if lvl = ''warn'' then WarnLevel
         else if lvl = ''error'' then ErrorLevel
         else if lvl = ''fatal'' then FatalLevel
         else DebugLevel)"

text \<open>Where the entries go: a standard stream, or a file rotated by lumberjack.\<close>

datatype log_writer =
    Stderr
  | Stdout
  | Rotated (Filename: string) (MaxSize: int) (MaxBackups: int) (MaxAge: int) (Compress: bool)

definition getLogWriter :: "string \<Rightarrow> int \<Rightarrow> int \<Rightarrow> log_writer" where
  "getLogWriter logFilePath logFileMaxSize logFileMaxBackups = Rotated logFilePath logFileMaxSize logFileMaxBackups 30 True"

definition getLogFilePath :: "string \<Rightarrow> int \<Rightarrow> int \<Rightarrow> log_writer" where
  "getLogFilePath logFilePath logFileMaxSize logFileMaxBackups =
     (if logFilePath = [] then Stderr
      else if go_to_lower logFilePath \<noteq> ''stdout'' then getLogWriter logFilePath logFileMaxSize logFileMaxBackups
      else Stdout)"

record Configuration =
  conf_LogLevel :: string
  conf_LogLocation :: string
  conf_LogFileMaxSize :: int
  conf_LogFileMaxBackups :: int

type_synonym logger = "zap_level \<times> log_writer"

definition buildZapCore :: "Configuration \<Rightarrow> logger" where
  "buildZapCore logConfig =
     (getZapLevel (conf_LogLevel logConfig),
      getLogFilePath (conf_LogLocation logConfig) (conf_LogFileMaxSize logConfig) (conf_LogFileMaxBackups logConfig))"

definition DEFAULT_LOG_LEVEL :: string where "DEFAULT_LOG_LEVEL = ''info''"
definition DEFAULT_LOG_LOCATION :: string where "DEFAULT_LOG_LOCATION = ''/var/log/aws-routed-eni/network-policy-agent.log''"
definition DEFAULT_LOG_FILE_MAX_SIZE :: int where "DEFAULT_LOG_FILE_MAX_SIZE = 200"
definition DEFAULT_LOG_FILE_MAX_BACKUPS :: int where "DEFAULT_LOG_FILE_MAX_BACKUPS = 8"

definition New_logger :: "string \<Rightarrow> string \<Rightarrow> int \<Rightarrow> int \<Rightarrow> logger" where
  "New_logger logLevel logLocation logFileMaxSize logFileMaxBackups =
     buildZapCore \<lparr>conf_LogLevel = logLevel, conf_LogLocation = logLocation,
       conf_LogFileMaxSize = logFileMaxSize, conf_LogFileMaxBackups = logFileMaxBackups\<rparr>"

definition GetControllerRuntimeLogger :: logger where
  "GetControllerRuntimeLogger =
     buildZapCore \<lparr>conf_LogLevel = DEFAULT_LOG_LEVEL, conf_LogLocation = DEFAULT_LOG_LOCATION,
       conf_LogFileMaxSize = DEFAULT_LOG_FILE_MAX_SIZE, conf_LogFileMaxBackups = DEFAULT_LOG_FILE_MAX_BACKUPS\<rparr>"

section \<open>Configuration\<close>

record RuntimeConfig =
  APIServer :: string
  KubeConfig :: string
  MetricsBindAddress :: string
  HealthProbeBindAddress :: string
  SyncPeriod :: int

record ControllerConfig =
  LogLevel :: string
  LogFile :: string
  LogFileMaxSize :: int
  LogFileMaxBackups :: int
  MaxConcurrentReconciles :: int
  EnablePolicyEventLogs :: bool
  EnableCloudWatchLogs :: bool
  EnableIPv6 :: bool
  EnableNetworkPolicy :: bool
  ConntrackCacheCleanupPeriod :: int
  ConntrackCacheTableSize :: int
  RuntimeConfig_of :: RuntimeConfig
  EnableProfiling :: bool

text \<open>Binding the flags stores their defaults; parsing then sets the variables of the flags it meets, in
  the order of the arguments.\<close>

definition RuntimeConfig_BindFlags :: RuntimeConfig where
  "RuntimeConfig_BindFlags = \<lparr>APIServer = [], KubeConfig = [], MetricsBindAddress = '':8162'', HealthProbeBindAddress = '':8163'', SyncPeriod = 0\<rparr>"

definition BindFlags :: ControllerConfig where
  "BindFlags = \<lparr>LogLevel = ''debug'', LogFile = ''/var/log/aws-routed-eni/network-policy-agent.log'',
     LogFileMaxSize = DEFAULT_LOG_FILE_MAX_SIZE, LogFileMaxBackups = DEFAULT_LOG_FILE_MAX_BACKUPS, MaxConcurrentReconciles = 3,
     EnablePolicyEventLogs = False, EnableCloudWatchLogs = False, EnableIPv6 = False, EnableNetworkPolicy = False,
     ConntrackCacheCleanupPeriod = 300, ConntrackCacheTableSize = 512 * 1024,
     RuntimeConfig_of = RuntimeConfig_BindFlags, EnableProfiling = False\<rparr>"

datatype flag_value = StringFlag string | IntFlag int | BoolFlag bool

definition set_runtime_flag :: "string \<Rightarrow> string \<Rightarrow> RuntimeConfig \<Rightarrow> RuntimeConfig" where
  "set_runtime_flag name s c =
     (if name = ''kubeconfig'' then c\<lparr>KubeConfig := s\<rparr>
      else if name = ''metrics-bind-addr'' then c\<lparr>MetricsBindAddress := s\<rparr>
      else if name = ''health-probe-bind-addr'' then c\<lparr>HealthProbeBindAddress := s\<rparr>
      else c)"

definition set_flag :: "string \<times> flag_value \<Rightarrow> ControllerConfig \<Rightarrow> ControllerConfig" where
  "set_flag = (\<lambda>(name, v) c. case v of
     StringFlag s \<Rightarrow>
       (if name = ''log-level'' then c\<lparr>LogLevel := s\<rparr>
        else if name = ''log-file'' then c\<lparr>LogFile := s\<rparr>
        else c\<lparr>RuntimeConfig_of := set_runtime_flag name s (RuntimeConfig_of c)\<rparr>)
   | IntFlag n \<Rightarrow>
       (if name = ''log-file-max-size'' then c\<lparr>LogFileMaxSize := n\<rparr>
        else if name = ''log-file-max-backups'' then c\<lparr>LogFileMaxBackups := n\<rparr>
        else if name = ''max-concurrent-reconciles'' then c\<lparr>MaxConcurrentReconciles := n\<rparr>
        else if name = ''conntrack-cache-cleanup-period'' then c\<lparr>ConntrackCacheCleanupPeriod := n\<rparr>
        else if name = ''conntrack-cache-table-size'' then c\<lparr>ConntrackCacheTableSize := n\<rparr>
        else c)
   | BoolFlag b \<Rightarrow>
       (if name = ''enable-policy-event-logs'' then c\<lparr>EnablePolicyEventLogs := b\<rparr>
        else if name = ''enable-cloudwatch-logs'' then c\<lparr>EnableCloudWatchLogs := b\<rparr>
        else if name = ''enable-ipv6'' then c\<lparr>EnableIPv6 := b\<rparr>
        else if name = ''enable-network-policy'' then c\<lparr>EnableNetworkPolicy := b\<rparr>
        else if name = ''enable-profiling'' then c\<lparr>EnableProfiling := b\<rparr>
        else c))"

definition ValidControllerFlags :: "ControllerConfig \<Rightarrow> string option" where
  "ValidControllerFlags cfg =
     (if ConntrackCacheTableSize cfg < 32 * 1024 \<or> ConntrackCacheTableSize cfg > 1024 * 1024
      then Some ''Invalid conntrack cache table size, should be between 32K and 1024K'' else None)"

record rest_Config =
  rest_Host :: string
  QPS :: int
  Burst :: int

record ctrl_Options =
  opt_MetricsBindAddress :: string
  opt_HealthProbeBindAddress :: string

definition BuildRuntimeOptions :: "RuntimeConfig \<Rightarrow> ctrl_Options" where
  "BuildRuntimeOptions rtCfg = \<lparr>opt_MetricsBindAddress = MetricsBindAddress rtCfg, opt_HealthProbeBindAddress = HealthProbeBindAddress rtCfg\<rparr>"

section \<open>The surroundings of the process\<close>

text \<open>
  What parsing the arguments does: pflag ends the process itself on a malformed argument, or sets flags
  and returns an error or nil. A Health service answers a request with a status.
\<close>

datatype parse_result = ParseExits int | Parsed "(string \<times> flag_value) list" "string option"

datatype serving_status = STATUS_UNKNOWN | SERVING | NOT_SERVING | SERVICE_UNKNOWN

record Statfs_t =
  fs_Type :: "64 word"
  fs_Flags :: "64 word"

datatype probe = Healthz | Readyz

record 'k main_env =
  me_startup :: "'k startup_env"
  pflag_Parse :: "string list \<Rightarrow> parse_result"
  InClusterConfig :: "string + rest_Config"
  kubeconfig_ClientConfig :: "string \<Rightarrow> string + rest_Config"
  ctrl_NewManager :: "rest_Config \<Rightarrow> ctrl_Options \<Rightarrow> string option"
  LoadDefaultConfig :: "string option"
  imds_GetMetadata :: "string \<Rightarrow> string + (string + string)"
  ipamd_Dial :: "string option"
  GetNetworkPolicyConfigs :: "string + string \<times> bool"
  me_order :: "(string \<times> string) list \<Rightarrow> (string \<times> string) list"
  me_now :: "int \<times> int"
  SetupPolicyEndpoints :: "string option"
  SetupClusterPolicyEndpoints :: "string option"
  AddCheck :: "probe \<Rightarrow> string \<Rightarrow> string option"
  grpc_NewClient :: "string \<Rightarrow> string option"
  removeFault :: "string \<Rightarrow> fs \<Rightarrow> string option"
  listenFault :: "string \<Rightarrow> fs \<Rightarrow> string option"
  HealthClient_Check :: "(string \<times> serving_status) list \<Rightarrow> string \<Rightarrow> string + serving_status"
  unix_Statfs :: "string \<Rightarrow> string + Statfs_t"
  mgr_Start :: "string option"

definition loadControllerConfig :: "'k main_env \<Rightarrow> string list \<Rightarrow> int + ControllerConfig \<times> string option" where
  "loadControllerConfig me args =
     (case pflag_Parse me args of
        ParseExits code \<Rightarrow> Inl code
      | Parsed sets err \<Rightarrow> Inr (fold set_flag sets BindFlags, err))"

definition BuildRestConfig :: "'k main_env \<Rightarrow> RuntimeConfig \<Rightarrow> string + rest_Config" where
  "BuildRestConfig me rtCfg =
     (case (if KubeConfig rtCfg = [] then InClusterConfig me else kubeconfig_ClientConfig me (KubeConfig rtCfg)) of
        Inl err \<Rightarrow> Inl err
      | Inr restCFG \<Rightarrow> Inr (restCFG\<lparr>QPS := 20, Burst := 100\<rparr>))"

definition GetMetaData :: "'k main_env \<Rightarrow> string \<Rightarrow> string + string" where
  "GetMetaData me key =
     (case LoadDefaultConfig me of
        Some err \<Rightarrow> Inl (''failed to load AWS config: '' @ err)
      | None \<Rightarrow>
          (case imds_GetMetadata me key of
             Inl err \<Rightarrow> Inl (''get instance metadata: failed to retrieve '' @ key @ '' - '' @ err)
           | Inr (Inl err) \<Rightarrow> Inl (''failed to read metadata content: '' @ err)
           | Inr (Inr content) \<Rightarrow> Inr content))"

definition getNetworkPolicyConfigsFromIpamd :: "'k main_env \<Rightarrow> string + string \<times> bool" where
  "getNetworkPolicyConfigsFromIpamd me =
     (case ipamd_Dial me of
        Some err \<Rightarrow> Inl err
      | None \<Rightarrow>
          (case GetNetworkPolicyConfigs me of
             Inl err \<Rightarrow> Inl err
           | Inr (NetworkPolicyMode, MultiNICEnabled) \<Rightarrow>
               if \<not> IsValidNetworkPolicyEnforcingMode NetworkPolicyMode then Inl ''Invalid Network Policy Mode''
               else Inr (NetworkPolicyMode, MultiNICEnabled)))"

section \<open>Health checks\<close>

datatype health_error =
    PinMissing string os_error
  | StatfsFailed string string
  | NotBpffs string "64 word"
  | MountedReadOnly string
  | GrpcCheckFailed string
  | NonServing serving_status

fun NewGlobalMapsReadinessCheck :: "os_faults \<Rightarrow> string list \<Rightarrow> fs \<Rightarrow> health_error option" where
  "NewGlobalMapsReadinessCheck F [] f = None"
| "NewGlobalMapsReadinessCheck F (p # paths) f =
     (case os_Stat F p f of Inl err \<Rightarrow> Some (PinMissing p err) | Inr _ \<Rightarrow> NewGlobalMapsReadinessCheck F paths f)"

definition BPF_FS_MAGIC :: "64 word" where "BPF_FS_MAGIC = 0xcafe4a11"
definition ST_RDONLY :: "64 word" where "ST_RDONLY = 1"
definition BPF_FS_ROOT :: string where "BPF_FS_ROOT = ''/sys/fs/bpf''"

definition NewBpfFsReadinessCheck :: "'k main_env \<Rightarrow> string \<Rightarrow> health_error option" where
  "NewBpfFsReadinessCheck me root =
     (case unix_Statfs me root of
        Inl err \<Rightarrow> Some (StatfsFailed root err)
      | Inr st \<Rightarrow>
          if fs_Type st \<noteq> BPF_FS_MAGIC then Some (NotBpffs root (fs_Type st))
          else if and (fs_Flags st) ST_RDONLY \<noteq> 0 then Some (MountedReadOnly root)
          else None)"

definition grpcHealthServiceName :: string where "grpcHealthServiceName = ''grpc.health.v1.np-agent''"

definition NewGRPCSocketHealthChecker :: "'k main_env \<Rightarrow> string \<Rightarrow> string option" where
  "NewGRPCSocketHealthChecker me socketPath =
     map_option (\<lambda>err. ''grpc NewClient for '' @ socketPath @ '' failed: '' @ err) (grpc_NewClient me (''unix://'' @ socketPath))"

text \<open>\<open>statuses\<close> are those set in the health server that is asked.\<close>

definition Check :: "'k main_env \<Rightarrow> (string \<times> serving_status) list \<Rightarrow> health_error option" where
  "Check me statuses =
     (case HealthClient_Check me statuses grpcHealthServiceName of
        Inl err \<Rightarrow> Some (GrpcCheckFailed err)
      | Inr status \<Rightarrow> if status \<noteq> SERVING then Some (NonServing status) else None)"

section \<open>The agent\<close>

definition npaSocketPath :: string where "npaSocketPath = ''/var/run/aws-node/npa.sock''"

text \<open>A check that was registered, with what it was created for.\<close>

datatype health_check = GlobalMapsCheck "string list" | BpfFsCheck string | GrpcSocketCheck

text \<open>A running agent: its loggers, the client shared by both reconcilers, the server of the CNI calls
  with the statuses of its health service, and the registered checks.\<close>

record agent =
  ag_config :: ControllerConfig
  ag_loggers :: "logger \<times> logger"
  ag_client :: "(bpfClient \<times> conntrackClient) option"
  ag_mode :: string
  ag_server :: server
  ag_statuses :: "(string \<times> serving_status) list"
  ag_healthz :: "(string \<times> health_check) list"
  ag_readyz :: "(string \<times> health_check) list"

text \<open>How \<^verbatim>\<open>main\<close> can end before the manager runs: with an exit status, with the panic of \<^verbatim>\<open>lo.Must\<close>
  or with one of the runtime.\<close>

datatype process = Exited int | MustPanicked string | Crashed go_panic | Running agent

definition and_then :: "process \<times> 's \<Rightarrow> (agent \<Rightarrow> 's \<Rightarrow> process \<times> 's) \<Rightarrow> process \<times> 's" where
  "and_then ps f = (case ps of (Running ag, s) \<Rightarrow> f ag s | (p, s) \<Rightarrow> (p, s))"

definition exit_on :: "string option \<Rightarrow> agent \<Rightarrow> 's \<Rightarrow> process \<times> 's" where
  "exit_on err ag s = (case err of Some _ \<Rightarrow> (Exited 1, s) | None \<Rightarrow> (Running ag, s))"

definition add_readyz :: "'k main_env \<Rightarrow> string \<Rightarrow> health_check \<Rightarrow> agent \<Rightarrow> 's \<Rightarrow> process \<times> 's" where
  "add_readyz me name c ag s = exit_on (AddCheck me Readyz name) (ag\<lparr>ag_readyz := ag_readyz ag @ [(name, c)]\<rparr>) s"

definition add_healthz :: "'k main_env \<Rightarrow> string \<Rightarrow> health_check \<Rightarrow> agent \<Rightarrow> 's \<Rightarrow> process \<times> 's" where
  "add_healthz me name c ag s = exit_on (AddCheck me Healthz name) (ag\<lparr>ag_healthz := ag_healthz ag @ [(name, c)]\<rparr>) s"

definition client_config_of :: "ControllerConfig \<Rightarrow> string \<Rightarrow> string \<Rightarrow> bool \<Rightarrow> client_config" where
  "client_config_of cfg nodeIP npMode multiNIC =
     \<lparr>cfg_nodeIP = nodeIP, cfg_enablePolicyEventLogs = EnablePolicyEventLogs cfg, cfg_enableCloudWatchLogs = EnableCloudWatchLogs cfg,
      cfg_enableIPv6 = EnableIPv6 cfg, cfg_conntrackTableSize = ConntrackCacheTableSize cfg,
      cfg_networkPolicyMode = npMode, cfg_isMultiNICEnabled = multiNIC\<rparr>"

text \<open>The client, with updated probes attached again; a panic ends the process, whatever the kernel then holds.\<close>

definition start_client ::
  "'k main_env \<Rightarrow> client_config \<Rightarrow> agent \<Rightarrow> fs \<times> 'k \<Rightarrow> process \<times> fs \<times> 'k" where
  "start_client me cc ag = (\<lambda>(f, k).
     case NewBpfClient (me_startup me) cc f k of
       (Inl p, f1, k1) \<Rightarrow> (Crashed p, f1, k1)
     | (Inr (c, Some err), f1, k1) \<Rightarrow> (MustPanicked err, f1, k1)
     | (Inr (None, None), f1, k1) \<Rightarrow> (Crashed NilDereference, f1, k1)
     | (Inr (Some (l, ct), None), f1, k1) \<Rightarrow>
         (case ReAttachEbpfProbes (su_bpf (me_startup me)) (me_order me) (l, k1) of
            Inl p \<Rightarrow> (Crashed p, f1, k1)
          | Inr (l2, k2) \<Rightarrow> (Running (ag\<lparr>ag_client := Some (l2, ct), ag_mode := cfg_networkPolicyMode cc\<rparr>), f1, k2)))"

definition set_np_reconciler :: "PolicyEndpointsReconciler \<Rightarrow> agent \<Rightarrow> agent" where
  "set_np_reconciler r ag = ag\<lparr>ag_server := (ag_server ag)\<lparr>policyReconciler := Some r, policyClientSet := ag_client ag \<noteq> None\<rparr>\<rparr>"

definition set_cp_reconciler :: "ClusterPolicyEndpointsReconciler \<Rightarrow> agent \<Rightarrow> agent" where
  "set_cp_reconciler cr ag = ag\<lparr>ag_server := (ag_server ag)\<lparr>clusterPolicyReconciler := Some cr, clusterPolicyClientSet := ag_client ag \<noteq> None\<rparr>\<rparr>"

definition register_controllers :: "'k main_env \<Rightarrow> string \<Rightarrow> agent \<Rightarrow> 's \<Rightarrow> process \<times> 's" where
  "register_controllers me nodeIP ag s =
     and_then (exit_on (SetupPolicyEndpoints me)
       (set_np_reconciler (NewPolicyEndpointsReconciler nodeIP (EnableIPv6 (ag_config ag)) (fst (me_now me))) ag) s) (\<lambda>ag s.
     and_then (exit_on (SetupClusterPolicyEndpoints me)
       (set_cp_reconciler (NewClusterPolicyEndpointsReconciler nodeIP (snd (me_now me))) ag) s) (\<lambda>ag s.
     and_then (add_readyz me ''bpf-maps'' (GlobalMapsCheck [CONNTRACK_MAP_PIN_PATH, POLICY_EVENTS_MAP_PIN_PATH]) ag s) (\<lambda>ag s.
       add_readyz me ''bpf-fs'' (BpfFsCheck BPF_FS_ROOT) ag s)))"

definition enable_network_policy :: "'k main_env \<Rightarrow> agent \<Rightarrow> fs \<times> 'k \<Rightarrow> process \<times> fs \<times> 'k" where
  "enable_network_policy me ag s =
     (case GetMetaData me (if \<not> EnableIPv6 (ag_config ag) then ''local-ipv4'' else ''ipv6'') of
        Inl err \<Rightarrow> (MustPanicked err, s)
      | Inr nodeIP \<Rightarrow>
          (case getNetworkPolicyConfigsFromIpamd me of
             Inl err \<Rightarrow> (MustPanicked err, s)
           | Inr (npMode, isMultiNIC) \<Rightarrow>
               and_then (start_client me (client_config_of (ag_config ag) nodeIP npMode isMultiNIC) ag s)
                 (register_controllers me nodeIP)))"

text \<open>A Unix socket is a file of its directory; binding to a path that exists fails.\<close>

definition socket_node :: node where
  "socket_node = \<lparr>regular = False, file_mode = 493, file_data = []\<rparr>"

definition os_Remove :: "'k main_env \<Rightarrow> string \<Rightarrow> fs \<Rightarrow> os_error option \<times> fs" where
  "os_Remove me p f =
     (case removeFault me p f of
        Some e \<Rightarrow> (Some (OsError e), f)
      | None \<Rightarrow> (case f p of None \<Rightarrow> (Some ErrNotExist, f) | Some _ \<Rightarrow> (None, f(p := None))))"

definition net_Listen_unix :: "'k main_env \<Rightarrow> string \<Rightarrow> fs \<Rightarrow> string option \<times> fs" where
  "net_Listen_unix me p f =
     (case listenFault me p f of
        Some e \<Rightarrow> (Some e, f)
      | None \<Rightarrow> if f p \<noteq> None then (Some ''bind: address already in use'', f) else (None, f(p \<mapsto> socket_node)))"

definition RunRPCHandler :: "'k main_env \<Rightarrow> string \<Rightarrow> agent \<Rightarrow> fs \<Rightarrow> (string + agent) \<times> fs" where
  "RunRPCHandler me path ag f =
     (let f1 = (case os_Stat (su_faults (me_startup me)) path f of
                  Inl _ \<Rightarrow> f
                | Inr _ \<Rightarrow> snd (os_Remove me path f))
      in case net_Listen_unix me path f1 of
           (Some err, f2) \<Rightarrow> (Inl (''network policy agent: failed to listen on unix socket: '' @ err), f2)
         | (None, f2) \<Rightarrow> (Inr (ag\<lparr>ag_statuses := [(grpcHealthServiceName, SERVING)]\<rparr>), f2))"

definition serve_rpc :: "'k main_env \<Rightarrow> agent \<Rightarrow> fs \<times> 'k \<Rightarrow> process \<times> fs \<times> 'k" where
  "serve_rpc me ag s =
     and_then (exit_on (NewGRPCSocketHealthChecker me npaSocketPath) ag s) (\<lambda>ag s.
     and_then (add_healthz me ''grpc-socket'' GrpcSocketCheck ag s) (\<lambda>ag s.
     and_then (add_readyz me ''grpc-socket'' GrpcSocketCheck ag s) (\<lambda>ag (f, k).
       case RunRPCHandler me npaSocketPath ag f of
         (Inl _, f') \<Rightarrow> (Exited 1, f', k)
       | (Inr ag', f') \<Rightarrow> (Running ag', f', k))))"

definition initial_agent :: "ControllerConfig \<Rightarrow> agent" where
  "initial_agent cfg = \<lparr>ag_config = cfg,
     ag_loggers = (New_logger (LogLevel cfg) (LogFile cfg) (LogFileMaxSize cfg) (LogFileMaxBackups cfg), GetControllerRuntimeLogger),
     ag_client = None, ag_mode = [],
     ag_server = \<lparr>policyReconciler = None, policyClientSet = False, clusterPolicyReconciler = None, clusterPolicyClientSet = False\<rparr>,
     ag_statuses = [], ag_healthz = [], ag_readyz = []\<rparr>"

text \<open>The process up to the start of the manager.\<close>

definition main :: "'k main_env \<Rightarrow> string list \<Rightarrow> fs \<times> 'k \<Rightarrow> process \<times> fs \<times> 'k" where
  "main me args s =
     (case loadControllerConfig me args of
        Inl code \<Rightarrow> (Exited code, s)
      | Inr (_, Some _) \<Rightarrow> (Exited 1, s)
      | Inr (ctrlConfig, None) \<Rightarrow>
          (case BuildRestConfig me (RuntimeConfig_of ctrlConfig) of
             Inl _ \<Rightarrow> (Exited 1, s)
           | Inr restCFG \<Rightarrow>
               (case ctrl_NewManager me restCFG (BuildRuntimeOptions (RuntimeConfig_of ctrlConfig)) of
                  Some _ \<Rightarrow> (Exited 1, s)
                | None \<Rightarrow>
                    (case ValidControllerFlags ctrlConfig of
                       Some _ \<Rightarrow> (Exited 1, s)
                     | None \<Rightarrow>
                         and_then (if EnableNetworkPolicy ctrlConfig then enable_network_policy me (initial_agent ctrlConfig) s
                                   else (Running (initial_agent ctrlConfig), s))
                           (serve_rpc me)))))"

definition exit_status :: "'k main_env \<Rightarrow> process \<Rightarrow> int" where
  "exit_status me p = (case p of
     Exited code \<Rightarrow> code
   | MustPanicked _ \<Rightarrow> 2
   | Crashed _ \<Rightarrow> 2
   | Running _ \<Rightarrow> if mgr_Start me \<noteq> None then 1 else 0)"

definition run_check :: "'k main_env \<Rightarrow> agent \<Rightarrow> fs \<Rightarrow> health_check \<Rightarrow> health_error option" where
  "run_check me ag f c = (case c of
     GlobalMapsCheck paths \<Rightarrow> NewGlobalMapsReadinessCheck (su_faults (me_startup me)) paths f
   | BpfFsCheck root \<Rightarrow> NewBpfFsReadinessCheck me root
   | GrpcSocketCheck \<Rightarrow> Check me (ag_statuses ag))"

section \<open>What a running agent has\<close>

lemma exit_on_running [simp]: "exit_on err ag s = (Running ag', s') \<longleftrightarrow> err = None \<and> ag' = ag \<and> s' = s"
  by (auto simp: exit_on_def split: option.splits)

lemma and_then_running: "and_then ps f = (Running ag, s') \<longleftrightarrow> (\<exists>ag1 s1. ps = (Running ag1, s1) \<and> f ag1 s1 = (Running ag, s'))"
  by (cases ps; cases "fst ps") (auto simp: and_then_def)

lemma serve_rpc_running:
  assumes "serve_rpc me ag (f, k) = (Running ag', f', k')"
  shows "k' = k \<and> f' npaSocketPath = Some socket_node \<and>
    ag' = ag\<lparr>ag_statuses := [(grpcHealthServiceName, SERVING)], ag_healthz := ag_healthz ag @ [(''grpc-socket'', GrpcSocketCheck)],
      ag_readyz := ag_readyz ag @ [(''grpc-socket'', GrpcSocketCheck)]\<rparr>"
  using assms
  by (auto simp: serve_rpc_def and_then_running add_healthz_def add_readyz_def RunRPCHandler_def net_Listen_unix_def Let_def
      split: option.splits sum.splits if_splits prod.splits)

definition policy_checks :: "(string \<times> health_check) list" where
  "policy_checks = [(''bpf-maps'', GlobalMapsCheck [CONNTRACK_MAP_PIN_PATH, POLICY_EVENTS_MAP_PIN_PATH]), (''bpf-fs'', BpfFsCheck BPF_FS_ROOT)]"

lemma register_controllers_running:
  assumes "register_controllers me nodeIP ag s = (Running ag', s')"
  shows "s' = s \<and> ag' = (set_cp_reconciler (NewClusterPolicyEndpointsReconciler nodeIP (snd (me_now me)))
      (set_np_reconciler (NewPolicyEndpointsReconciler nodeIP (EnableIPv6 (ag_config ag)) (fst (me_now me))) ag))
        \<lparr>ag_readyz := ag_readyz ag @ policy_checks\<rparr>"
  using assms
  by (auto simp: register_controllers_def and_then_running add_readyz_def set_np_reconciler_def set_cp_reconciler_def policy_checks_def)

lemma NewBpfClient_inv:
  assumes laws: "startup_laws su kv" and run: "NewBpfClient su cfg f k = (Inr (Some (l, ct), None), f', k')"
  shows "client_inv kv l k'"
proof -
  obtain ing eg ev where flags: "checkAndUpdateBPFBinaries (su_faults su) (bpf_binaries (cfg_enableIPv6 cfg)) hostBinaryPath f = (ing, eg, ev)"
    using prod_cases3 by blast
  obtain r err l1 k1 where rec: "recoverBPFState su (\<lambda>d. case d of Ingress \<Rightarrow> ing | Egress \<Rightarrow> eg) ev (initial_client cfg)
      (InstallBPFBinaries (su_faults su) (bpf_binaries (cfg_enableIPv6 cfg)) hostBinaryPath f) k = (Inr (r, err, l1), f', k1)"
    and k: "keeps kv {} {} k1 k'" and l: "same_core l1 l"
    using NewBpfClient_spec [OF laws run flags] by auto
  show ?thesis
    by (rule same_core_inv [OF l client_inv_keeps [OF conjunct1 [OF recoverBPFState_spec [OF laws initial_client_blank rec]] k]])
qed

lemma start_client_running:
  assumes "startup_laws (me_startup me) kv" "start_client me cc ag (f, k) = (Running ag', f', k')"
  shows "\<exists>l ct. client_inv kv l k' \<and> ag' = ag\<lparr>ag_client := Some (l, ct), ag_mode := cfg_networkPolicyMode cc\<rparr>"
proof -
  obtain l ct k1 l2 where new: "NewBpfClient (me_startup me) cc f k = (Inr (Some (l, ct), None), f', k1)"
    and again: "ReAttachEbpfProbes (su_bpf (me_startup me)) (me_order me) (l, k1) = Inr (l2, k')"
    and ag': "ag' = ag\<lparr>ag_client := Some (l2, ct), ag_mode := cfg_networkPolicyMode cc\<rparr>"
    using assms(2) by (auto simp: start_client_def split: sum.splits option.splits prod.splits)
  have "client_inv kv l2 k'"
    by (rule ReAttachEbpfProbes_inv [OF startup_lawsD(1) [OF assms(1)] NewBpfClient_inv [OF assms(1) new] again])
  with ag' show ?thesis by blast
qed

lemma enable_network_policy_running:
  assumes "startup_laws (me_startup me) kv" "enable_network_policy me ag (f, k) = (Running ag', f', k')"
  shows "ag_config ag' = ag_config ag \<and> IsValidNetworkPolicyEnforcingMode (ag_mode ag') \<and> ag_readyz ag' = ag_readyz ag @ policy_checks \<and>
    ag_healthz ag' = ag_healthz ag \<and> (\<exists>l ct. ag_client ag' = Some (l, ct) \<and> client_inv kv l k') \<and>
    peReconcilerReady (ag_server ag') \<and> cpeReconcilerReady (ag_server ag')"
proof -
  obtain nodeIP npMode multi ag1 f1 k1 where mode: "getNetworkPolicyConfigsFromIpamd me = Inr (npMode, multi)"
    and start: "start_client me (client_config_of (ag_config ag) nodeIP npMode multi) ag (f, k) = (Running ag1, f1, k1)"
    and reg: "register_controllers me nodeIP ag1 (f1, k1) = (Running ag', f', k')"
    using assms(2) by (auto simp: enable_network_policy_def and_then_running split: sum.splits)
  have "IsValidNetworkPolicyEnforcingMode npMode"
    using mode by (auto simp: getNetworkPolicyConfigsFromIpamd_def split: option.splits sum.splits if_splits)
  moreover note start_client_running [OF assms(1) start]
  ultimately show ?thesis using register_controllers_running [OF reg]
    by (auto simp: client_config_of_def set_np_reconciler_def set_cp_reconciler_def peReconcilerReady_def cpeReconcilerReady_def)
qed

lemma main_running:
  assumes "main me args s = (Running ag, s')"
  obtains cfg ag1 s1 where "ValidControllerFlags cfg = None" "serve_rpc me ag1 s1 = (Running ag, s')"
    "if EnableNetworkPolicy cfg then enable_network_policy me (initial_agent cfg) s = (Running ag1, s1)
     else ag1 = initial_agent cfg \<and> s1 = s"
  using assms by (auto simp: main_def and_then_running split: sum.splits option.splits if_splits)

text \<open>The calls of the CNI plugin. Each finds the reconcilers in the state in which the reconciles up to
  then have left them, so it carries the server it is served by.\<close>

datatype cni_call =
    CallEnforce k8s_api cluster_api go_orders server EnforceNpRequest
  | CallDelete int server string string

fun serve_call :: "'k bpf_env \<Rightarrow> cni_call \<Rightarrow> bpfClient \<times> 'k \<Rightarrow> (bpfClient \<times> 'k) reply" where
  "serve_call env (CallEnforce k8s cluster os sv req) s = EnforceNpToPod k8s cluster env os sv req s"
| "serve_call env (CallDelete now sv name namespace) s = DeletePodNp env now sv name namespace s"

definition serve_calls :: "'k bpf_env \<Rightarrow> cni_call list \<Rightarrow> bpfClient \<times> 'k \<Rightarrow> bpfClient \<times> 'k" where
  "serve_calls env calls s = fold (\<lambda>c s. snd (serve_call env c s)) calls s"

fun call_ok :: "cni_call \<Rightarrow> bool" where
  "call_ok (CallEnforce k8s cluster os sv req) \<longleftrightarrow> orders_range os \<and> CHR ''_'' \<notin> set (K8S_POD_NAMESPACE req)"
| "call_ok (CallDelete now sv name namespace) \<longleftrightarrow> CHR ''_'' \<notin> set namespace"

lemma serve_call_reaches:
  assumes "client_inv kv l k" "call_ok c" shows "client_reaches env (l, k) (snd (serve_call env c (l, k)))"
proof (cases c)
  case (CallEnforce k8s cluster os sv req)
  with assms(2) show ?thesis by (simp add: enforce_reaches)
next
  case (CallDelete now sv name namespace)
  obtain res l' k' where "DeletePodNp env now sv name namespace (l, k) = (res, l', k')" using prod_cases3 by blast
  with DeletePodNp_effect [OF client_invD(1) [OF assms(1)] _ this] CallDelete assms(2) show ?thesis by simp
qed

lemma serve_calls_inv:
  assumes laws: "env_laws env kv" and "client_inv kv l k" "list_all call_ok calls" "serve_calls env calls (l, k) = (l', k')"
  shows "client_inv kv l' k'"
  using assms(2-)
proof (induction calls arbitrary: l k)
  case Nil
  then show ?case by (simp add: serve_calls_def)
next
  case (Cons c calls)
  obtain l1 k1 where s: "snd (serve_call env c (l, k)) = (l1, k1)" by fastforce
  have "client_inv kv l1 k1"
    using client_reaches_inv [OF laws _ serve_call_reaches [OF Cons.prems(1), of c env], unfolded s] Cons.prems by simp
  then show ?case using Cons.IH [of l1 k1] Cons.prems(2, 3) s by (simp add: serve_calls_def)
qed

text \<open>C29: An agent that runs has a conntrack table size within the permitted bounds and listens on a fresh
  socket. With network policies enabled its enforcing mode is valid, both reconcilers are ready, and the
  client they share satisfies the client invariant; any sequence of calls of the CNI plugin, pods added and
  pods deleted in any order and with any outcome, leaves a client that satisfies it, and after each of them
  the deletion of a pod succeeds and leaves that pod with no program and with its deletion marker. Pod
  namespaces have no underscore, as Kubernetes demands. With network policies disabled the agent has no
  client, has not touched the kernel, and answers every call of the CNI plugin with success without doing
  anything.\<close>
theorem agent_started:
  assumes laws: "startup_laws (me_startup me) kv" and run: "main me args (f, k) = (Running ag, f', k')"
  shows "32768 \<le> ConntrackCacheTableSize (ag_config ag) \<and> ConntrackCacheTableSize (ag_config ag) \<le> 1048576 \<and>
    f' npaSocketPath = Some socket_node \<and>
    (if EnableNetworkPolicy (ag_config ag) then
       IsValidNetworkPolicyEnforcingMode (ag_mode ag) \<and> peReconcilerReady (ag_server ag) \<and> cpeReconcilerReady (ag_server ag) \<and>
       (\<exists>l ct. ag_client ag = Some (l, ct) \<and> client_inv kv l k' \<and>
          (\<forall>calls l1 k1. list_all call_ok calls \<longrightarrow> serve_calls (su_bpf (me_startup me)) calls (l, k') = (l1, k1) \<longrightarrow>
             client_inv kv l1 k1 \<and>
             (\<forall>now sv name ns reply l2 k2. peReconcilerReady sv \<longrightarrow> CHR ''_'' \<notin> set ns \<longrightarrow>
                serve_call (su_bpf (me_startup me)) (CallDelete now sv name ns) (l1, k1) = (reply, l2, k2) \<longrightarrow>
                reply = Inr (Some True, []) \<and> (\<forall>d. podToProgMap l2 d (GetPodNamespacedName name ns) = None) \<and>
                deletedPods l2 (GetPodNamespacedName name ns) = Some now)))
     else
       ag_client ag = None \<and> k' = k \<and>
       (\<forall>k8s cluster os req s. EnforceNpToPod k8s cluster (su_bpf (me_startup me)) os (ag_server ag) req s = (Inr (Some True, []), s)) \<and>
       (\<forall>now name ns s. DeletePodNp (su_bpf (me_startup me)) now (ag_server ag) name ns s = (Inr (Some True, []), s)))"
proof -
  obtain cfg ag1 f1 k1 where valid: "ValidControllerFlags cfg = None" and serve: "serve_rpc me ag1 (f1, k1) = (Running ag, f', k')"
    and start: "if EnableNetworkPolicy cfg then enable_network_policy me (initial_agent cfg) (f, k) = (Running ag1, f1, k1)
      else ag1 = initial_agent cfg \<and> (f1, k1) = (f, k)"
    using main_running [OF run] by (metis surj_pair)
  note s = serve_rpc_running [OF serve]
  have cfg: "ag_config ag = cfg"
    using s start enable_network_policy_running [OF laws, of "initial_agent cfg" f k ag1 f1 k1]
    by (cases "EnableNetworkPolicy cfg") (simp_all add: initial_agent_def)
  have size: "32768 \<le> ConntrackCacheTableSize cfg \<and> ConntrackCacheTableSize cfg \<le> 1048576"
    using valid by (simp add: ValidControllerFlags_def not_less split: if_splits)
  show ?thesis
  proof (cases "EnableNetworkPolicy cfg")
    case True
    with start enable_network_policy_running [OF laws] obtain l ct where ag1: "IsValidNetworkPolicyEnforcingMode (ag_mode ag1)"
        "peReconcilerReady (ag_server ag1)" "cpeReconcilerReady (ag_server ag1)" "ag_client ag1 = Some (l, ct)" "client_inv kv l k1"
      by fastforce
    have calls: "client_inv kv l1 k2 \<and> (\<forall>now sv name ns reply l2 k3. peReconcilerReady sv \<longrightarrow> CHR ''_'' \<notin> set ns \<longrightarrow>
        serve_call (su_bpf (me_startup me)) (CallDelete now sv name ns) (l1, k2) = (reply, l2, k3) \<longrightarrow>
        reply = Inr (Some True, []) \<and> (\<forall>d. podToProgMap l2 d (GetPodNamespacedName name ns) = None) \<and>
        deletedPods l2 (GetPodNamespacedName name ns) = Some now)"
      if "list_all call_ok calls" "serve_calls (su_bpf (me_startup me)) calls (l, k1) = (l1, k2)" for calls l1 k2
    proof -
      have inv: "client_inv kv l1 k2" by (rule serve_calls_inv [OF startup_lawsD(1) [OF laws] ag1(5) that])
      then show ?thesis using DeletePodNp_effect [OF client_invD(1) [OF inv], of _ "su_bpf (me_startup me)"] by simp
    qed
    have "k' = k1" "ag_client ag = Some (l, ct)" using s ag1(4) by simp_all
    with calls ag1(5) have "\<exists>l ct. ag_client ag = Some (l, ct) \<and> client_inv kv l k' \<and>
          (\<forall>calls l1 k1. list_all call_ok calls \<longrightarrow> serve_calls (su_bpf (me_startup me)) calls (l, k') = (l1, k1) \<longrightarrow>
             client_inv kv l1 k1 \<and>
             (\<forall>now sv name ns reply l2 k2. peReconcilerReady sv \<longrightarrow> CHR ''_'' \<notin> set ns \<longrightarrow>
                serve_call (su_bpf (me_startup me)) (CallDelete now sv name ns) (l1, k1) = (reply, l2, k2) \<longrightarrow>
                reply = Inr (Some True, []) \<and> (\<forall>d. podToProgMap l2 d (GetPodNamespacedName name ns) = None) \<and>
                deletedPods l2 (GetPodNamespacedName name ns) = Some now))" by blast
    with ag1(1, 2, 3) s size cfg True show ?thesis by simp
  next
    case False
    with start s have "ag_client ag = None" "k' = k" "\<not> peReconcilerReady (ag_server ag)" "\<not> cpeReconcilerReady (ag_server ag)"
      by (simp_all add: initial_agent_def peReconcilerReady_def cpeReconcilerReady_def)
    with s size cfg False show ?thesis by (simp add: EnforceNpToPod_def DeletePodNp_def)
  qed
qed

section \<open>When a running agent is ready\<close>

text \<open>A health service answers with the status that was set for the name, while the server can be reached.\<close>

definition health_law :: "'k main_env \<Rightarrow> bool" where
  "health_law me \<longleftrightarrow> (\<forall>statuses name st. map_of statuses name = Some st \<longrightarrow> HealthClient_Check me statuses name = Inr st)"

definition bpffs_writable :: "'k main_env \<Rightarrow> bool" where
  "bpffs_writable me \<longleftrightarrow> (\<exists>st. unix_Statfs me BPF_FS_ROOT = Inr st \<and> fs_Type st = BPF_FS_MAGIC \<and> \<not> bit (fs_Flags st) 0)"

lemma maps_check_passes: "NewGlobalMapsReadinessCheck F paths f = None \<longleftrightarrow> list_all (\<lambda>p. \<exists>n. os_Stat F p f = Inr n) paths"
  by (induction paths) (auto split: sum.splits)

lemma read_only_bit: "and w ST_RDONLY = 0 \<longleftrightarrow> \<not> bit w 0"
  by (simp add: ST_RDONLY_def and_one_eq bit_0 odd_iff_mod_2_eq_one)

lemma bpffs_check_passes: "NewBpfFsReadinessCheck me BPF_FS_ROOT = None \<longleftrightarrow> bpffs_writable me"
  by (auto simp: NewBpfFsReadinessCheck_def bpffs_writable_def read_only_bit split: sum.splits)

lemma main_checks:
  assumes "startup_laws (me_startup me) kv" "main me args (f, k) = (Running ag, f', k')"
  shows "ag_statuses ag = [(grpcHealthServiceName, SERVING)] \<and> ag_healthz ag = [(''grpc-socket'', GrpcSocketCheck)] \<and>
    ag_readyz ag = (if EnableNetworkPolicy (ag_config ag) then policy_checks else []) @ [(''grpc-socket'', GrpcSocketCheck)]"
proof -
  obtain cfg ag1 f1 k1 where serve: "serve_rpc me ag1 (f1, k1) = (Running ag, f', k')"
    and start: "if EnableNetworkPolicy cfg then enable_network_policy me (initial_agent cfg) (f, k) = (Running ag1, f1, k1)
      else ag1 = initial_agent cfg \<and> (f1, k1) = (f, k)"
    using main_running [OF assms(2)] by (metis surj_pair)
  show ?thesis
    using serve_rpc_running [OF serve] start enable_network_policy_running [OF assms(1), of "initial_agent cfg" f k ag1 f1 k1]
    by (cases "EnableNetworkPolicy cfg") (simp_all add: initial_agent_def)
qed

text \<open>C30: While its server can be reached, a running agent passes its liveness probe, and it reports
  itself ready exactly when, with network policies enabled, both global maps are pinned and the BPF
  file system is mounted, as such, and writable; with network policies disabled it is always ready.\<close>
theorem agent_ready:
  assumes "startup_laws (me_startup me) kv" "main me args (f, k) = (Running ag, f', k')" "health_law me"
  shows "list_all (\<lambda>(name, c). run_check me ag g c = None) (ag_healthz ag) \<and>
    (list_all (\<lambda>(name, c). run_check me ag g c = None) (ag_readyz ag) \<longleftrightarrow>
     (EnableNetworkPolicy (ag_config ag) \<longrightarrow>
        (\<exists>n. os_Stat (su_faults (me_startup me)) CONNTRACK_MAP_PIN_PATH g = Inr n) \<and>
        (\<exists>n. os_Stat (su_faults (me_startup me)) POLICY_EVENTS_MAP_PIN_PATH g = Inr n) \<and> bpffs_writable me))"
proof -
  note c = main_checks [OF assms(1, 2)]
  then have "Check me (ag_statuses ag) = None" using assms(3) by (simp add: Check_def health_law_def)
  with c show ?thesis by (auto simp: run_check_def policy_checks_def maps_check_passes bpffs_check_passes
      simp del: NewGlobalMapsReadinessCheck.simps)
qed

section \<open>A start on the simulated kernel\<close>

definition sim_main :: "string \<Rightarrow> int \<Rightarrow> sim_kernel main_env" where
  "sim_main mode table = \<lparr>me_startup = sim_startup,
     pflag_Parse = (\<lambda>args. Parsed [(''enable-network-policy'', BoolFlag (args \<noteq> [])), (''conntrack-cache-table-size'', IntFlag table)] None),
     InClusterConfig = Inr \<lparr>rest_Host = ''10.100.0.1'', QPS = 5, Burst = 10\<rparr>,
     kubeconfig_ClientConfig = (\<lambda>_. Inl ''no such file''), ctrl_NewManager = (\<lambda>_ _. None), LoadDefaultConfig = None,
     imds_GetMetadata = (\<lambda>_. Inr (Inr ''10.0.0.1'')), ipamd_Dial = None, GetNetworkPolicyConfigs = Inr (mode, False),
     me_order = (\<lambda>xs. xs), me_now = (0, 0), SetupPolicyEndpoints = None, SetupClusterPolicyEndpoints = None,
     AddCheck = (\<lambda>_ _. None), grpc_NewClient = (\<lambda>_. None), removeFault = (\<lambda>_ _. None), listenFault = (\<lambda>_ _. None),
     HealthClient_Check = (\<lambda>statuses name. case map_of statuses name of None \<Rightarrow> Inl ''unknown service'' | Some st \<Rightarrow> Inr st),
     unix_Statfs = (\<lambda>_. Inr \<lparr>fs_Type = BPF_FS_MAGIC, fs_Flags = 14\<rparr>), mgr_Start = None\<rparr>"

lemma sim_main_fields:
  "me_startup (sim_main mode table) = sim_startup" "health_law (sim_main mode table)"
  by (simp_all add: sim_main_def health_law_def)

definition started_ok :: "process \<Rightarrow> bool" where
  "started_ok p = (case p of Running ag \<Rightarrow> EnableNetworkPolicy (ag_config ag) | _ \<Rightarrow> False)"

lemma sim_main_runs:
  "started_ok (fst (main (sim_main ''strict'' 65536) [''--enable-network-policy''] (example_host, snd example_state)))"
  by code_simp

lemma sim_main_refuses:
  "case fst (main (sim_main ''none'' 65536) [''--enable-network-policy''] (example_host, snd example_state)) of
     MustPanicked err \<Rightarrow> err = ''Invalid Network Policy Mode'' | _ \<Rightarrow> False"
  "exit_status (sim_main ''strict'' 1024) (fst (main (sim_main ''strict'' 1024) [''--enable-network-policy''] (example_host, snd example_state))) = 1"
  by code_simp+

lemma sim_main_agent:
  obtains ag f' k' where "main (sim_main ''strict'' 65536) [''--enable-network-policy''] (example_host, snd example_state) = (Running ag, f', k')"
    "EnableNetworkPolicy (ag_config ag)"
  using sim_main_runs
  by (cases "main (sim_main ''strict'' 65536) [''--enable-network-policy''] (example_host, snd example_state)")
     (auto simp: started_ok_def split: process.splits)

theorem agent_started_witness:
  "\<exists>ag f' k' l ct l1 k1 l2 k2. main (sim_main ''strict'' 65536) [''--enable-network-policy''] (example_host, snd example_state) = (Running ag, f', k') \<and>
     ag_client ag = Some (l, ct) \<and> client_inv sim_view l k' \<and> peReconcilerReady (ag_server ag) \<and>
     serve_calls sim_env [CallEnforce (example_k8s []) (example_cluster_api []) example_go_orders (ag_server ag) (example_enforce ''web-7d-c''),
       CallDelete 7 (ag_server ag) ''web-7d-a'' ''shop''] (l, k') = (l1, k1) \<and> client_inv sim_view l1 k1 \<and>
     serve_call sim_env (CallDelete 8 (ag_server ag) ''web-7d-c'' ''shop'') (l1, k1) = (Inr (Some True, []), l2, k2) \<and>
     deletedPods l2 (GetPodNamespacedName ''web-7d-c'' ''shop'') = Some 8"
proof -
  obtain ag f' k' where run: "main (sim_main ''strict'' 65536) [''--enable-network-policy''] (example_host, snd example_state) = (Running ag, f', k')"
    and en: "EnableNetworkPolicy (ag_config ag)" by (rule sim_main_agent)
  let ?calls = "[CallEnforce (example_k8s []) (example_cluster_api []) example_go_orders (ag_server ag) (example_enforce ''web-7d-c''),
    CallDelete 7 (ag_server ag) ''web-7d-a'' ''shop'']"
  have laws: "startup_laws (me_startup (sim_main ''strict'' 65536)) sim_view" by (simp add: sim_main_fields sim_startup_laws)
  have env: "su_bpf (me_startup (sim_main ''strict'' 65536)) = sim_env" by (simp add: sim_main_fields sim_startup_def)
  have ok: "list_all call_ok ?calls" by (simp add: example_go_orders_range example_enforce_def)
  note started = agent_started [OF laws run, unfolded env if_P [OF en]]
  then obtain l ct where ag: "ag_client ag = Some (l, ct)" "client_inv sim_view l k'" "peReconcilerReady (ag_server ag)"
    and calls: "\<forall>calls l1 k1. list_all call_ok calls \<longrightarrow> serve_calls sim_env calls (l, k') = (l1, k1) \<longrightarrow> client_inv sim_view l1 k1 \<and>
             (\<forall>now sv name ns reply l2 k2. peReconcilerReady sv \<longrightarrow> CHR ''_'' \<notin> set ns \<longrightarrow>
                serve_call sim_env (CallDelete now sv name ns) (l1, k1) = (reply, l2, k2) \<longrightarrow>
                reply = Inr (Some True, []) \<and> (\<forall>d. podToProgMap l2 d (GetPodNamespacedName name ns) = None) \<and>
                deletedPods l2 (GetPodNamespacedName name ns) = Some now)" by blast
  obtain l1 k1 where s1: "serve_calls sim_env ?calls (l, k') = (l1, k1)" by fastforce
  obtain reply l2 k2 where s2: "serve_call sim_env (CallDelete 8 (ag_server ag) ''web-7d-c'' ''shop'') (l1, k1) = (reply, l2, k2)"
    using prod_cases3 by blast
  note c = mp [OF mp [OF spec [OF spec [OF spec [OF calls]]] ok] s1]
  have "reply = Inr (Some True, []) \<and> deletedPods l2 (GetPodNamespacedName ''web-7d-c'' ''shop'') = Some 8"
    using conjunct2 [OF c, rule_format, OF ag(3) _ s2] by simp
  with run ag s1 s2 conjunct1 [OF c] show ?thesis by blast
qed

theorem agent_ready_witness:
  "\<exists>ag f' k'. main (sim_main ''strict'' 65536) [''--enable-network-policy''] (example_host, snd example_state) = (Running ag, f', k') \<and>
     list_all (\<lambda>(name, c). run_check (sim_main ''strict'' 65536) ag example_host c = None) (ag_readyz ag)"
proof -
  obtain ag f' k' where run: "main (sim_main ''strict'' 65536) [''--enable-network-policy''] (example_host, snd example_state) = (Running ag, f', k')"
    by (rule sim_main_agent)
  have laws: "startup_laws (me_startup (sim_main ''strict'' 65536)) sim_view" by (simp add: sim_main_fields sim_startup_laws)
  have "bpffs_writable (sim_main ''strict'' 65536)" by (simp add: bpffs_writable_def sim_main_def bit_0)
  moreover have "os_Stat (su_faults sim_startup) p example_host = Inr (example_node [7])" for p
    by (simp add: os_defs sim_startup_def example_host_def)
  ultimately show ?thesis using agent_ready [OF laws run sim_main_fields(2), of example_host] run by (simp add: sim_main_fields)
qed

end
