(* ===== verification/Spec2Isabelle.thy ===== *)
theory Spec2Isabelle
  imports PodLock CliHelper AgentMain
begin

text \<open>
  A verification development of the AWS network policy agent, the daemon that turns the policy
  endpoints of a Kubernetes cluster into entries of eBPF maps on each node, and of the part of its TC
  programs that reads those maps.

  \<^bold>\<open>The program and its parts.\<close> The API server hands the agent \<^verbatim>\<open>PolicyEndpoint\<close> and
  \<^verbatim>\<open>ClusterPolicyEndpoint\<close> objects. A reconciler for each kind (\<^verbatim>\<open>controllers/\<close>) keeps an index from
  pod identifiers to the objects that select them, derives the firewall rules of an identifier and has
  the eBPF client program them. The CNI plugin calls the agent over gRPC for every pod that is added or
  deleted (\<^verbatim>\<open>pkg/rpc\<close>). The eBPF client (\<^verbatim>\<open>pkg/ebpf/bpf_client.go\<close>) loads one ingress and one egress
  program per pod identifier, attaches them to the interfaces of its pods, and writes maps: it has the
  rule processor (\<^verbatim>\<open>pkg/fwruleprocessor\<close>) translate rules into trie entries and applies the
  difference to what its in-memory copy of the kernel map holds (\<^verbatim>\<open>bpf_mem_map.go\<close>). All of that happens
  under a lock per pod identifier. The datapath looks a packet up in the maps and caches verdicts in a
  conntrack map, which a collector (\<^verbatim>\<open>pkg/ebpf/conntrack\<close>) cleans up; it reports verdicts in a ring
  buffer, which \<^verbatim>\<open>pkg/ebpf/events\<close> counts and publishes. When the agent starts it installs its binaries,
  renames pins of an old format, and recovers the programs and maps its former run left pinned;
  \<^verbatim>\<open>main.go\<close> reads the flags, starts all parts in order and registers the health checks. A command line
  tool (\<^verbatim>\<open>cmd/\<close>, \<^verbatim>\<open>pkg/clihelper\<close>) prints the kernel's maps for an operator.

  \<^bold>\<open>The theories\<close>, bottom up; each opens with what it holds.
  \<^item> \<open>Prelude\<close>: byte order, Go strings and maps, loops that may panic, collections of simplification
    rules. \<open>GoNet\<close>: the part of Go's \<^verbatim>\<open>net\<close> the sources use, addresses and CIDRs with their text.
  \<^item> \<open>Api\<close>: the custom resources and value types (\<^verbatim>\<open>api/v1alpha1\<close>, \<^verbatim>\<open>pkg/types\<close>). \<open>Utils\<close>
    (\<^verbatim>\<open>pkg/utils/utils.go\<close>): identifiers, pin paths, encodings of map keys and values.
  \<^item> \<open>CidrTrie\<close> (\<^verbatim>\<open>cidr_trie.go\<close>), \<open>FwRules\<close> and \<open>FwCluster\<close> (\<^verbatim>\<open>fw_rule_processor.go\<close>): the two
    translations of rules into map entries. \<open>Datapath\<close> (\<^verbatim>\<open>c/tc.v4ingress.bpf.c\<close>): the evaluation of a
    packet against the maps.
  \<^item> \<open>PolicyUtils\<close> (\<^verbatim>\<open>policy_utils.go\<close>): the index of policies per identifier. \<open>MemMap\<close>
    (\<^verbatim>\<open>bpf_mem_map.go\<close>): the in-memory map. \<open>PodLock\<close> (\<^verbatim>\<open>podidentifier_lock.go\<close>): the keyed lock as a
    step relation over threads.
  \<^item> \<open>BpfClient\<close>: the client's state and operations; \<open>BpfInvariant\<close> its invariant and that every
    operation keeps it; \<open>BpfSafety\<close> the theorems on its runs and a simulated kernel.
  \<^item> \<open>Conntrack\<close> (\<^verbatim>\<open>conntrack_client.go\<close>): the collector.
  \<^item> \<open>Tiers\<close>: the interface between the client and those who call it, as locales: \<open>client_effect\<close> for
    relations closed under attaching, \<open>policy_tier\<close> for the programming of one policy tier, interpreted
    for network policies (\<open>np_tier\<close>) and for cluster policies (\<open>cp_tier\<close>).
  \<^item> \<open>PolicyReconciler\<close>, \<open>ClusterReconciler\<close> (\<^verbatim>\<open>controllers/\<close>) and \<open>RpcHandler\<close> (\<^verbatim>\<open>rpc_handler.go\<close>): the
    callers. Each proves its frame once in a locale (\<open>np_effect\<close>, \<open>cp_effect\<close>) over any effect relation,
    and interprets it for reachability and for the safety of the other tier.
  \<^item> \<open>HostFs\<close> (\<^verbatim>\<open>cp.go\<close>), \<open>PinMigration\<close> (\<^verbatim>\<open>legacy_pin_migration.go\<close>), \<open>PolicyEvents\<close> (\<^verbatim>\<open>events.go\<close>,
    \<^verbatim>\<open>cloud.go\<close>), \<open>BpfStartup\<close> and \<open>BpfRestart\<close> (the start in \<^verbatim>\<open>bpf_client.go\<close>).
  \<^item> \<open>MapTypes\<close>: the sizes of the keys and values of the policy maps, and that all writers respect them.
    \<open>CliHelper\<close> (\<^verbatim>\<open>pkg/clihelper/show.go\<close>, \<^verbatim>\<open>cmd/\<close>): the tool, with its walks over maps proved once in the
    locale \<open>map_walk\<close> and interpreted for the five of them. \<open>AgentMain\<close> (\<^verbatim>\<open>main.go\<close>, \<^verbatim>\<open>pkg/config\<close>,
    \<^verbatim>\<open>pkg/logger\<close>, the files \<^verbatim>\<open>healthcheck.go\<close>, \<^verbatim>\<open>RunRPCHandler\<close>): the process and its probes.
  \<^item> This theory: the properties that span the callers and the start.

  \<^bold>\<open>How the model corresponds to the code.\<close> A struct is a record with the Go field names, an
  operation one definition that takes and returns the state, an error a value of a sum or option, a
  panic a value of \<open>go_panic\<close>. Fields and functions that exist once for ingress and once for egress are
  one definition with a parameter \<open>dir\<close>. A Go map whose iteration order matters is an association list,
  and the order the runtime chooses is a parameter of the operation (\<open>go_orders\<close>); the theorems hold for
  every order. Logging and metrics other than the drop counters are left out.

  \<^bold>\<open>What the theorems assume.\<close> Code outside the repository is a parameter with named laws:
  \<open>sdk_laws\<close> and \<open>env_laws\<close> (the eBPF SDK, TC and the kernel: a call fails and changes nothing or does
  what it says; a program that is loaded has an FD and maps nobody owns, and IDs and FDs are not reused
  while they are owned; \<open>kv_refused\<close> is the history of the deletions the kernel has refused), \<open>pin_laws\<close> (an
  unpin call removes its own pin or fails), \<open>ct_laws\<close> and \<open>ct_quiet\<close> (the kernel's conntrack table and the
  datapath that runs beside the collector, which may insert, use, delete and evict entries; \<open>gone\<close> is the
  history of the collector's deletions), \<open>startup_laws\<close> (what the SDK recovers from pins), \<open>empty_laws\<close> (a map
  just loaded is empty), \<open>quiet_map\<close> (a map that nobody changes while the tool walks it), \<open>health_law\<close> (a
  health service answers with the status set), \<open>put_log\<close> (a history of the requests to CloudWatch), \<open>api_ok\<close>
  (objects the API server has validated). The agent's own settings are in \<open>node_config\<close> (the node's address
  parses and is of the cluster's family). The longest prefix match of the kernel is a parameter of the datapath with its
  specification. The host is little endian. An operation of the client is one step, which the lock
  theorems justify for one identifier; the snapshot of the API server is constant during one reconcile.
  JSON, time and sorting are parameters. Every law set has a simulated instance that satisfies it, on
  which the witnesses run.

  \<^bold>\<open>What is shown.\<close> The map entries computed for rules make the datapath accept exactly the traffic the
  rules allow, for both tiers, under the conditions the two theorems list; what a rule allows is stated
  over addresses, excepts, protocols and ports, without the predicates of the code. Two deviations outside
  these conditions are theorems too: a rule for a network that starts at the node's address is ignored
  (\<open>node_network_ignored\<close>), and packets of IP protocol 0 match the unused slots of a value
  (\<open>protocol_zero_allowed\<close>, \<open>protocol_zero_cluster_deny\<close>). The optimised containment trie equals a scan;
  values, keys, pin paths and identifiers decode to what was encoded. The in-memory map always equals its
  kernel map, whatever calls fail, and a refresh without an error leaves the new contents and, besides,
  only entries whose deletion the kernel refused. On every run of the client the caches are inverse to each other, no two identifiers share
  a program or a map, and a deleted pod stays detached until it is seen again. The keyed lock excludes
  and makes progress. The collector deletes only entries that no flow accounts for, and all of those.
  The rules derived for an identifier are those of the objects that select it; a reconcile or a CNI call
  that succeeds leaves these rules in force (the maps hold their entries and nothing else but entries whose
  deletion was refused), and neither tier disturbs the other; failed cleanups of
  cluster policies are retried and an API failure changes nothing. The event counters and
  the published lines are exactly those of the records. No pin
  is lost in the migration, a host binary is replaced as a whole or not at all, the recovered client
  satisfies the invariant, and policies stay in force over a restart. An agent that runs has valid
  settings and either a sound client with both reconcilers, which any sequence of CNI calls keeps sound, or
  none of them, and it is ready exactly when
  its maps are pinned and the BPF file system is usable. Every key and value in a policy map has the
  size the datapath and the tool read; the tool prints every entry of a quiet map, for a network policy
  map exactly the networks and ports of the rules, but it overruns its buffer on a cluster policy map
  that is dumped with the command for the others.

  \<^bold>\<open>Termination.\<close> No function has fuel. Loops recurse over lists or the finite contents of a map; the
  IPv6 address parser has a measure; the hydration loop of the collector follows the keys the kernel
  hands out, which need not end while the datapath inserts, so it is a partial function into an option,
  shown to return when the map is quiet, as are the walks of the tool; the lock is a step relation. Word sizes are those of the code.

  \<^bold>\<open>Not modelled.\<close> In the datapath: packet header parsing, and the IPv6 and egress copies of the
  program, which differ in addresses and map names only. In Go: the
  parsing of arguments, the controller-runtime manager, the gRPC server and the writing of log entries
  (library code behind parameters), AWS and gRPC service wrappers (they only pass calls on), Prometheus
  registration, generated deep copies (copies of values, the identity in HOL) and mocks.
\<close>

section \<open>The two reconcilers side by side\<close>

text \<open>C20: Reconciling a cluster policy endpoint, whatever the outcome, is a sequence of operations of the
  eBPF client, and it leaves the network policies that are in force for any identifier with both
  programs loaded in force: same entries in the policy maps, same pod state.\<close>
theorem cluster_reconcile_keeps_network_policies:
  assumes "env_laws (ce_bpf ce) kv" "cluster_env_ok ce" "client_reachable (ce_bpf ce) l k"
    and "loaded l i" "in_force kv os l k i rules state"
    and run: "cluster_reconcile ce name r (l, k) = (res, r', l', k')"
  shows "client_reachable (ce_bpf ce) l' k' \<and> loaded l' i \<and> in_force kv os l' k' i rules state"
proof -
  have "tier_safe (ce_bpf ce) kv PolicyMap POD_STATE_MAP_KEY CLUSTER_POLICY_POD_STATE_MAP_KEY (l, k) (l', k')"
    by (rule cp_safe.cluster_reconcile_effect [OF assms(2) refl run])
  with assms(1, 3-5) client_reachable_inv [OF assms(1, 3)] client_reaches_reachable [of "ce_bpf ce" l k l' k'] show ?thesis
    unfolding tier_safe_def in_force_def by simp
qed

text \<open>C21: Conversely, reconciling a policy endpoint, whatever the outcome, leaves the cluster policies that
  are in force for any identifier with both programs loaded in force.\<close>
theorem reconcile_keeps_cluster_policies:
  assumes "env_laws (re_bpf re) kv" "api_ok (re_k8s re)" "orders_range (re_orders re)" "client_reachable (re_bpf re) l k"
    and "loaded l i" "cluster_in_force kv os l k i rules state"
    and run: "reconcile re req r (l, k) = (res, r', l', k')"
  shows "loaded l' i \<and> cluster_in_force kv os l' k' i rules state"
proof -
  have "tier_safe (re_bpf re) kv ClusterPolicyMap CLUSTER_POLICY_POD_STATE_MAP_KEY POD_STATE_MAP_KEY (l, k) (l', k')"
    by (rule np_safe.reconcile_effect [OF assms(2, 3) refl run])
  with assms(1, 5, 6) client_reachable_inv [OF assms(1, 4)] show ?thesis
    unfolding tier_safe_def cluster_in_force_def by simp
qed

lemma example_loaded: "loaded (fst example_state) ''web-7d@shop''"
proof -
  have "case policyEndpointeBPFContext (fst example_state) ''web-7d@shop'' of None \<Rightarrow> False
      | Some c \<Rightarrow> prog_fd c Ingress \<noteq> 0 \<and> prog_fd c Egress \<noteq> 0" by code_simp
  then show ?thesis by (auto simp: loaded_def split: option.splits) (metis dir.exhaust)
qed

lemma no_rules_fun: "(\<lambda>d. case d of Ingress \<Rightarrow> [] | Egress \<Rightarrow> []) = (\<lambda>_. [])"
  by (auto simp: fun_eq_iff split: dir.splits)

theorem cluster_reconcile_keeps_network_policies_witness:
  "\<exists>s1. updateeBPFMaps sim_env example_go_orders ''web-7d@shop'' [] [] STATE_POLICIES_APPLIED example_state = (Inr [], s1) \<and>
     (case snd (snd (cluster_reconcile (example_cluster_env (example_cluster_api [])) ''adm-x1'' (example_cluster_reconciler [''adm-x1'']) s1)) of
        (l, k) \<Rightarrow> in_force sim_view example_go_orders l k ''web-7d@shop'' (\<lambda>_. []) STATE_POLICIES_APPLIED)"
proof -
  let ?u = "updateeBPFMaps sim_env example_go_orders ''web-7d@shop'' [] [] STATE_POLICIES_APPLIED"
  let ?ce = "example_cluster_env (example_cluster_api [])"
  have "fst (?u example_state) = Inr []" by code_simp
  then obtain l1 k1 where u: "?u (fst example_state, snd example_state) = (Inr [], l1, k1)" by (cases "?u example_state") auto
  note inv = client_reachable_inv [OF sim_env_laws example_reachable]
  have inf: "in_force sim_view example_go_orders l1 k1 ''web-7d@shop'' (\<lambda>_. []) STATE_POLICIES_APPLIED"
    using updateeBPFMaps_in_force [OF sim_env_laws inv example_go_orders_range u] by (simp add: no_rules_fun)
  have reach: "client_reachable sim_env l1 k1"
    using np_reach.effect_update [OF example_go_orders_range, of sim_env "(fst example_state, snd example_state)"] u
      client_reaches_reachable [OF _ example_reachable] by (metis snd_conv)
  have ld: "loaded l1 ''web-7d@shop''"
    using example_loaded np_tier.program_contexts(2) [OF sim_env_laws inv example_go_orders_range u [unfolded updateeBPFMaps_tier]]
    by (simp add: loaded_def)
  obtain res r' l' k' where run: "cluster_reconcile ?ce ''adm-x1'' (example_cluster_reconciler [''adm-x1'']) (l1, k1) = (res, r', l', k')"
    using prod_cases4 by blast
  have e: "ce_bpf ?ce = sim_env" by (simp add: example_cluster_env_def)
  have "in_force sim_view example_go_orders l' k' ''web-7d@shop'' (\<lambda>_. []) STATE_POLICIES_APPLIED"
    using cluster_reconcile_keeps_network_policies [where ce = ?ce, unfolded e, OF sim_env_laws _ reach ld inf run]
    by (simp add: example_cluster_env_ok)
  with u run show ?thesis by simp
qed

theorem reconcile_keeps_cluster_policies_witness:
  "\<exists>s1. updateClusterPolicyBPFMaps sim_env example_go_orders ''web-7d@shop'' [] [] example_state = (Inr [], s1) \<and>
     (case snd (snd (reconcile (example_rec_env [example_endpoint]) example_request (NewPolicyEndpointsReconciler ''10.0.0.1'' False 0) s1)) of
        (l, k) \<Rightarrow> cluster_in_force sim_view example_go_orders l k ''web-7d@shop'' (\<lambda>_. []) STATE_DEFAULT_ALLOW)"
proof -
  let ?u = "updateClusterPolicyBPFMaps sim_env example_go_orders ''web-7d@shop'' [] []"
  let ?re = "example_rec_env [example_endpoint]"
  have "fst (?u example_state) = Inr []" by code_simp
  then obtain l1 k1 where u: "?u (fst example_state, snd example_state) = (Inr [], l1, k1)" by (cases "?u example_state") auto
  note inv = client_reachable_inv [OF sim_env_laws example_reachable]
  have inf: "cluster_in_force sim_view example_go_orders l1 k1 ''web-7d@shop'' (\<lambda>_. []) STATE_DEFAULT_ALLOW"
    using updateClusterPolicyBPFMaps_in_force [OF sim_env_laws inv example_go_orders_range u] by (simp add: no_rules_fun cluster_state_def)
  have reach: "client_reachable sim_env l1 k1"
    using cp_reach.effect_update [OF example_go_orders_range, of sim_env "(fst example_state, snd example_state)"] u
      client_reaches_reachable [OF _ example_reachable] by (metis snd_conv)
  have ld: "loaded l1 ''web-7d@shop''"
    using example_loaded cp_tier.program_contexts(2) [OF sim_env_laws inv example_go_orders_range u [unfolded updateClusterPolicyBPFMaps_tier]]
    by (simp add: loaded_def)
  obtain res r' l' k' where run: "reconcile ?re example_request (NewPolicyEndpointsReconciler ''10.0.0.1'' False 0) (l1, k1) = (res, r', l', k')"
    using prod_cases4 by blast
  have e: "re_bpf ?re = sim_env" "re_k8s ?re = example_k8s [example_endpoint]" "re_orders ?re = example_go_orders"
    by (simp_all add: example_rec_env_def)
  have "cluster_in_force sim_view example_go_orders l' k' ''web-7d@shop'' (\<lambda>_. []) STATE_DEFAULT_ALLOW"
    using reconcile_keeps_cluster_policies [where re = ?re, unfolded e, OF sim_env_laws example_api_ok example_go_orders_range reach ld inf run]
    by simp
  with u run show ?thesis by simp
qed

section \<open>Policies over a restart\<close>

text \<open>C27: When the agent restarts with unchanged binaries and finds the pins of its former run, every network
  policy and every cluster policy that was in force for an identifier is in force when the client is
  ready: the recovered client has the programs of both directions, and the kernel maps hold the entries
  and pod states the datapath enforced before.\<close>
theorem restart_keeps_policies:
  assumes laws: "startup_laws su kv" and old: "client_reachable (su_bpf su) old k" and gone: "keeps kv {} (kv_fds kv k) k k0"
    and flags: "checkAndUpdateBPFBinaries (su_faults su) (bpf_binaries (cfg_enableIPv6 cfg)) hostBinaryPath f = (False, False, False)"
    and run: "NewBpfClient su cfg f k0 = (Inr (Some (l, ct), e), f', k')"
    and rec: "RecoverGlobalMaps su f' k0 = (Inr gs, k1)" "RecoverAllBpfProgramsAndMaps su f' k1 = ((st, e'), k2)" "pins_of old st"
    and proc: "fwRuleProcessor old = fwRuleProcessor (initial_client cfg)"
    and i: "loaded old i"
  shows "loaded l i \<and>
    (\<forall>os rules state. in_force kv os old k i rules state \<longrightarrow> in_force kv os l k' i rules state) \<and>
    (\<forall>os rules state. cluster_in_force kv os old k i rules state \<longrightarrow> cluster_in_force kv os l k' i rules state)"
proof -
  note inv = client_reachable_inv [OF startup_lawsD(1) [OF laws] old]
  note T = restart_tiers [OF laws inv gone flags run rec i]
  show ?thesis unfolding in_force_def cluster_in_force_def T(1) proc by (auto intro: T(2, 3))
qed

theorem restart_keeps_policies_witness:
  "\<exists>l1 k1 l ct f'. updateeBPFMaps sim_env example_go_orders ''web-7d@shop'' [] [] STATE_POLICIES_APPLIED example_state = (Inr [], l1, k1) \<and>
     NewBpfClient sim_startup example_config example_host k1 = (Inr (Some (l, ct), None), f', k1) \<and>
     in_force sim_view example_go_orders l k1 ''web-7d@shop'' (\<lambda>_. []) STATE_POLICIES_APPLIED"
proof -
  let ?u = "updateeBPFMaps sim_env example_go_orders ''web-7d@shop'' [] [] STATE_POLICIES_APPLIED"
  have ev: "case ?u example_state of (Inr [], s1) \<Rightarrow> 13 \<le> sim_next (snd s1) \<and>
      list_all (\<lambda>i. list_all (\<lambda>(key, v). key \<noteq> []) (sim_maps (snd s1) i)) [1..<13] | _ \<Rightarrow> False" by code_simp
  then obtain l1 k1 where u: "?u (fst example_state, snd example_state) = (Inr [], l1, k1)"
    by (cases "?u example_state") (auto split: sum.splits list.splits prod.splits)
  then have "?u example_state = (Inr [], l1, k1)" by simp
  from ev [unfolded this] have "13 \<le> sim_next k1 \<and> list_all (\<lambda>i. list_all (\<lambda>(key, v). key \<noteq> []) (sim_maps k1 i)) [1..<13]"
    by (simp only: prod.case sum.case list.case snd_conv)
  then have k1: "13 \<le> sim_next k1" "readable sim_sdk k1 sim_table" using sim_readable by blast+
  obtain l ct f' where run: "NewBpfClient sim_startup example_config example_host k1 = (Inr (Some (l, ct), None), f', k1)"
    using sim_start [OF k1] by blast
  note inv = client_reachable_inv [OF sim_env_laws example_reachable]
  have inf: "in_force sim_view example_go_orders l1 k1 ''web-7d@shop'' (\<lambda>_. []) STATE_POLICIES_APPLIED"
    using updateeBPFMaps_in_force [OF sim_env_laws inv example_go_orders_range u] by (simp add: no_rules_fun)
  have reach: "client_reachable sim_env l1 k1"
    using np_reach.effect_update [OF example_go_orders_range, of sim_env "(fst example_state, snd example_state)"] u
      client_reaches_reachable [OF _ example_reachable] by (metis snd_conv)
  have ctx: "policyEndpointeBPFContext l1 = policyEndpointeBPFContext (fst example_state)" "fwRuleProcessor l1 = fwRuleProcessor (fst example_state)"
    using np_tier.program_contexts [OF sim_env_laws inv example_go_orders_range u [unfolded updateeBPFMaps_tier]] by simp_all
  have ld: "loaded l1 ''web-7d@shop''" using example_loaded ctx(1) by (simp add: loaded_def)
  have p: "fwRuleProcessor (fst example_state) = fwRuleProcessor (initial_client example_config)" by code_simp
  have su: "su_bpf sim_startup = sim_env" "RecoverGlobalMaps sim_startup f' k1 =
      (Inr [(CONNTRACK_MAP_PIN_PATH, BpfSafety.sim_map 0), (POLICY_EVENTS_MAP_PIN_PATH, BpfSafety.sim_map 0)], k1)"
      "RecoverAllBpfProgramsAndMaps sim_startup f' k1 = ((sim_table, None), k1)"
    using k1(1) by (simp_all add: sim_startup_def)
  have "in_force sim_view example_go_orders l k1 ''web-7d@shop'' (\<lambda>_. []) STATE_POLICIES_APPLIED"
    using restart_keeps_policies [where su = sim_startup, unfolded su(1), OF sim_startup_laws reach keeps_refl sim_flags run su(2, 3)
        example_pins_of [OF ctx(1)] _ ld] inf by (simp add: ctx(2) p)
  with u run show ?thesis by simp
qed

end
